(* ===== verification/Prelude.thy ===== *)
theory Prelude
  imports Complex_Main "HOL-Library.AList" "HOL-Library.Multiset"
begin

section \<open>Prelude: what every component of the model shares\<close>

text \<open>
  Generic vocabulary of the development: time as whole microseconds (the resolution of a
  Python \<^verbatim>\<open>datetime\<close>), JSON values and dictionaries, ASCII case folding and substring
  search on strings, tables of rows with an integer primary key as the code reads and
  updates them through SQLAlchemy, and the pattern of a deterministic machine with an
  invariant that most components instantiate.
\<close>

named_theorems table_simps \<open>reading a table after a write\<close>
named_theorems step_defs \<open>one-step definitions of the state machines\<close>

subsection \<open>Time\<close>

type_synonym usec = int
type_synonym row_id = int

definition seconds :: "int \<Rightarrow> usec" where
  "seconds n = n * 1000000"

lemma seconds_le [simp]: "seconds a \<le> seconds b \<longleftrightarrow> a \<le> b"
  by (simp add: seconds_def)

lemma seconds_pos [simp]: "0 < seconds n \<longleftrightarrow> 0 < n"
  by (simp add: seconds_def)

subsection \<open>Errors a Python operation can raise\<close>

datatype py_error = ValueError | TypeError | KeyError | IndexError

subsection \<open>JSON values and dictionaries\<close>

datatype json =
    JNull
  | JBool bool
  | JInt int
  | JReal real
  | JStr string
  | JList "json list"
  | JObj "(string \<times> json) list"

type_synonym jdict = "(string \<times> json) list"

text \<open>Python's truth value of a decoded JSON value.\<close>

fun truthy :: "json \<Rightarrow> bool" where
  "truthy JNull = False"
| "truthy (JBool b) = b"
| "truthy (JInt n) = (n \<noteq> 0)"
| "truthy (JReal r) = (r \<noteq> 0)"
| "truthy (JStr s) = (s \<noteq> [])"
| "truthy (JList xs) = (xs \<noteq> [])"
| "truthy (JObj d) = (d \<noteq> [])"

fun is_obj :: "json \<Rightarrow> bool" where
  "is_obj (JObj _) = True"
| "is_obj _ = False"

definition dict_get :: "string \<Rightarrow> jdict \<Rightarrow> json option" where
  "dict_get k d = map_of d k"

text \<open>\<^verbatim>\<open>d[k] = v\<close> keeps the position of a key that is already there.\<close>

definition dict_put :: "string \<Rightarrow> json \<Rightarrow> jdict \<Rightarrow> jdict" where
  "dict_put k v d = AList.update k v d"

definition dict_pop :: "string \<Rightarrow> jdict \<Rightarrow> jdict" where
  "dict_pop k d = AList.delete k d"

lemma dict_get_put [simp]:
  "dict_get k (dict_put k' v d) = (if k = k' then Some v else dict_get k d)"
  by (simp add: dict_get_def dict_put_def update_conv)

lemma dict_get_pop [simp]:
  "dict_get k (dict_pop k' d) = (if k = k' then None else dict_get k d)"
  by (simp add: dict_get_def dict_pop_def delete_conv)

lemma dict_get_Nil [simp]: "dict_get k [] = None"
  by (simp add: dict_get_def)

subsection \<open>Strings\<close>

definition upper_char :: "char \<Rightarrow> char" where
  "upper_char c = (let n = of_char c :: nat in if 97 \<le> n \<and> n \<le> 122 then char_of (n - 32) else c)"

definition lower_char :: "char \<Rightarrow> char" where
  "lower_char c = (let n = of_char c :: nat in if 65 \<le> n \<and> n \<le> 90 then char_of (n + 32) else c)"

definition upper :: "string \<Rightarrow> string" where
  "upper s = List.map upper_char s"

definition lower :: "string \<Rightarrow> string" where
  "lower s = List.map lower_char s"

definition is_digit :: "char \<Rightarrow> bool" where
  "is_digit c = (let n = of_char c :: nat in 48 \<le> n \<and> n \<le> 57)"

definition is_upper_letter :: "char \<Rightarrow> bool" where
  "is_upper_letter c = (let n = of_char c :: nat in 65 \<le> n \<and> n \<le> 90)"

definition digit_value :: "char \<Rightarrow> int" where
  "digit_value c = int (of_char c) - 48"

definition starts_with :: "string \<Rightarrow> string \<Rightarrow> bool" where
  "starts_with p s \<longleftrightarrow> take (length p) s = p"

text \<open>\<open>contains p s\<close>: Python's \<^verbatim>\<open>p in s\<close> on strings.\<close>

fun contains :: "string \<Rightarrow> string \<Rightarrow> bool" where
  "contains p [] \<longleftrightarrow> p = []"
| "contains p (c # s) \<longleftrightarrow> starts_with p (c # s) \<or> contains p s"

lemma contains_append: "contains p (a @ p @ b)"
proof (induction a)
  case Nil
  show ?case
  proof (cases "p @ b")
    case (Cons c s)
    have "starts_with p (p @ b)" by (simp add: starts_with_def)
    with Cons show ?thesis by simp
  qed simp
next
  case (Cons c a)
  then show ?case by simp
qed

lemma starts_with_append [simp]: "starts_with p (p @ s)"
  by (simp add: starts_with_def)

text \<open>\<open>LIKE\<close> without wildcards inside: \<^verbatim>\<open>ilike("%p%")\<close> and \<^verbatim>\<open>ilike("p%")\<close> fold ASCII case.\<close>

definition ilike_contains :: "string \<Rightarrow> string option \<Rightarrow> bool" where
  "ilike_contains p s \<longleftrightarrow> (case s of None \<Rightarrow> False | Some t \<Rightarrow> contains (lower p) (lower t))"

definition ilike_prefix :: "string \<Rightarrow> string option \<Rightarrow> bool" where
  "ilike_prefix p s \<longleftrightarrow> (case s of None \<Rightarrow> False | Some t \<Rightarrow> starts_with (lower p) (lower t))"

text \<open>Python's \<^verbatim>\<open>str.strip()\<close> on ASCII text.\<close>

definition is_space :: "char \<Rightarrow> bool" where
  "is_space c = (let n = of_char c :: nat in n = 32 \<or> (9 \<le> n \<and> n \<le> 13) \<or> (28 \<le> n \<and> n \<le> 31))"

definition strip :: "string \<Rightarrow> string" where
  "strip s = rev (dropWhile is_space (rev (dropWhile is_space s)))"

subsection \<open>Python's \<^verbatim>\<open>int()\<close> and \<^verbatim>\<open>round()\<close>\<close>

text \<open>
  \<open>digits_value\<close> reads decimal digits with single underscores between them;
  \<open>fresh\<close> says that a digit must come next.
\<close>

fun digits_value :: "bool \<Rightarrow> int \<Rightarrow> string \<Rightarrow> int option" where
  "digits_value fresh acc [] = (if fresh then None else Some acc)"
| "digits_value fresh acc (c # s) =
     (if is_digit c then digits_value False (acc * 10 + digit_value c) s
      else if c = CHR ''_'' \<and> \<not> fresh then digits_value True acc s
      else None)"

definition py_int_of_string :: "string \<Rightarrow> py_error + int" where
  "py_int_of_string s =
     (let t = strip s;
          v = (case t of
                 [] \<Rightarrow> None
               | c # u \<Rightarrow> if c = CHR ''-'' then map_option uminus (digits_value True 0 u)
                          else if c = CHR ''+'' then digits_value True 0 u
                          else digits_value True 0 t)
      in case v of Some n \<Rightarrow> Inr n | None \<Rightarrow> Inl ValueError)"

definition trunc_real :: "real \<Rightarrow> int" where
  "trunc_real r = (if r < 0 then - \<lfloor>- r\<rfloor> else \<lfloor>r\<rfloor>)"

fun py_int :: "json \<Rightarrow> py_error + int" where
  "py_int (JInt n) = Inr n"
| "py_int (JBool b) = Inr (if b then 1 else 0)"
| "py_int (JReal r) = Inr (trunc_real r)"
| "py_int (JStr s) = py_int_of_string s"
| "py_int _ = Inl TypeError"

text \<open>Round half to even, and \<^verbatim>\<open>round(x, n)\<close> on exact reals.\<close>

definition round_half_even :: "real \<Rightarrow> int" where
  "round_half_even x =
     (let f = \<lfloor>x\<rfloor>; d = x - real_of_int f in
      if d < 1 / 2 then f else if d > 1 / 2 then f + 1 else if even f then f else f + 1)"

definition py_round :: "nat \<Rightarrow> real \<Rightarrow> real" where
  "py_round n x = real_of_int (round_half_even (x * 10 ^ n)) / 10 ^ n"

subsection \<open>Tables\<close>

text \<open>
  A table is the list of its rows in primary-key order. \<open>get_row\<close> is
  \<^verbatim>\<open>session.get\<close>, \<open>update_where\<close> an \<^verbatim>\<open>UPDATE ... WHERE\<close>, \<open>next_id\<close> the id SQLite gives to
  an inserted row.
\<close>

definition get_row :: "('r \<Rightarrow> row_id) \<Rightarrow> row_id \<Rightarrow> 'r list \<Rightarrow> 'r option" where
  "get_row ident i rows = List.find (\<lambda>r. ident r = i) rows"

definition update_where :: "('r \<Rightarrow> bool) \<Rightarrow> ('r \<Rightarrow> 'r) \<Rightarrow> 'r list \<Rightarrow> 'r list" where
  "update_where P f rows = List.map (\<lambda>r. if P r then f r else r) rows"

definition update_row :: "('r \<Rightarrow> row_id) \<Rightarrow> row_id \<Rightarrow> ('r \<Rightarrow> 'r) \<Rightarrow> 'r list \<Rightarrow> 'r list" where
  "update_row ident i f rows = update_where (\<lambda>r. ident r = i) f rows"

definition next_id :: "('r \<Rightarrow> row_id) \<Rightarrow> 'r list \<Rightarrow> row_id" where
  "next_id ident rows = fold (\<lambda>r m. max m (ident r)) rows 0 + 1"

definition keyed :: "('r \<Rightarrow> row_id) \<Rightarrow> 'r list \<Rightarrow> bool" where
  "keyed ident rows \<longleftrightarrow> distinct (List.map ident rows)"

lemma set_update_where:
  "set (update_where P f rows) = {r \<in> set rows. \<not> P r} \<union> f ` {r \<in> set rows. P r}"
  by (auto simp: update_where_def)

lemma length_update_where [simp]: "length (update_where P f rows) = length rows"
  by (simp add: update_where_def)

lemma update_where_ids [simp]:
  "(\<And>r. ident (f r) = ident r) \<Longrightarrow>
    List.map ident (update_where P f rows) = List.map ident rows"
  by (induction rows) (auto simp: update_where_def)

lemma keyed_update_where [simp]:
  "(\<And>r. ident (f r) = ident r) \<Longrightarrow> keyed ident (update_where P f rows) = keyed ident rows"
  by (simp add: keyed_def)

lemma keyed_update_row [simp]:
  "(\<And>r. ident (f r) = ident r) \<Longrightarrow> keyed ident (update_row ident i f rows) = keyed ident rows"
  by (simp add: update_row_def)

lemma fold_max_ge: "(m::int) \<le> fold (\<lambda>r m. max m (f r)) rows m"
proof (induction rows arbitrary: m)
  case (Cons r rows)
  have "m \<le> max m (f r)" by simp
  also have "\<dots> \<le> fold (\<lambda>r m. max m (f r)) rows (max m (f r))" by (rule Cons.IH)
  finally show ?case by simp
qed simp

lemma fold_max_mem:
  "r \<in> set rows \<Longrightarrow> f r \<le> fold (\<lambda>r m. max m (f r)) rows (m::int)"
proof (induction rows arbitrary: m)
  case (Cons a rows)
  show ?case
  proof (cases "r = a")
    case True
    have "f a \<le> max m (f a)" by simp
    also have "\<dots> \<le> fold (\<lambda>r m. max m (f r)) rows (max m (f a))" by (rule fold_max_ge)
    finally show ?thesis using True by simp
  next
    case False
    with Cons show ?thesis by simp
  qed
qed simp

lemma next_id_fresh: "r \<in> set rows \<Longrightarrow> ident r < next_id ident rows"
  using fold_max_mem [of r rows ident 0] by (simp add: next_id_def)

lemma next_id_notin: "next_id ident rows \<notin> ident ` set rows"
  using next_id_fresh by (metis imageE less_irrefl)

lemma find_SomeD: "List.find P xs = Some x \<Longrightarrow> x \<in> set xs \<and> P x"
  by (auto simp: find_Some_iff)

lemma get_row_Some:
  "get_row ident i rows = Some r \<Longrightarrow> r \<in> set rows \<and> ident r = i"
  by (auto simp: get_row_def find_Some_iff)

lemma get_row_None:
  "get_row ident i rows = None \<longleftrightarrow> i \<notin> ident ` set rows"
  by (auto simp: get_row_def find_None_iff)

lemma get_row_mem:
  assumes "keyed ident rows" and "r \<in> set rows"
  shows "get_row ident (ident r) rows = Some r"
proof -
  obtain r' where r': "get_row ident (ident r) rows = Some r'"
    using assms(2) get_row_None [of ident "ident r" rows] by (cases "get_row ident (ident r) rows") auto
  with get_row_Some [OF r'] assms have "r' = r"
    by (auto simp: keyed_def distinct_map dest: inj_onD)
  with r' show ?thesis by simp
qed

lemma get_row_update_where [table_simps]:
  assumes "\<And>r. ident (f r) = ident r"
  shows "get_row ident i (update_where P f rows) =
    map_option (\<lambda>r. if P r then f r else r) (get_row ident i rows)"
  using assms by (induction rows) (auto simp: update_where_def get_row_def)

lemma get_row_append [table_simps]:
  "get_row ident i (rows @ [r]) =
    (case get_row ident i rows of Some x \<Rightarrow> Some x
     | None \<Rightarrow> if ident r = i then Some r else None)"
  by (induction rows) (auto simp: get_row_def)

lemma keyed_append [simp]:
  "keyed ident (rows @ [r]) \<longleftrightarrow> keyed ident rows \<and> ident r \<notin> ident ` set rows"
  by (auto simp: keyed_def)

lemma keyed_inj:
  "keyed ident rows \<Longrightarrow> a \<in> set rows \<Longrightarrow> b \<in> set rows \<Longrightarrow> ident a = ident b \<Longrightarrow> a = b"
  by (auto simp: keyed_def distinct_map dest: inj_onD)

text \<open>Ids cut into statements of at most \<open>n\<close> bound parameters.\<close>

function batches :: "nat \<Rightarrow> 'a list \<Rightarrow> 'a list list" where
  "batches n xs = (if xs = [] \<or> n = 0 then [] else take n xs # batches n (drop n xs))"
  by pat_completeness auto
termination by (relation "measure (\<lambda>(n, xs). length xs)") auto

declare batches.simps [simp del]

lemma concat_batches: "0 < n \<Longrightarrow> concat (batches n xs) = xs"
  by (induction n xs rule: batches.induct) (subst batches.simps, simp)

subsection \<open>Deterministic machines with an invariant\<close>

text \<open>
  A component whose operations are the events of a step function. Each component
  interprets the locale on its own step function and invariant.
\<close>

locale machine =
  fixes step :: "'s \<Rightarrow> 'e \<Rightarrow> 's"
    and inv :: "'s \<Rightarrow> bool"
  assumes step_inv: "inv s \<Longrightarrow> inv (step s e)"
begin

lemma run_inv: "inv s \<Longrightarrow> inv (foldl step s es)"
  by (induction es arbitrary: s) (auto intro: step_inv)

lemma run_prefix_inv: "inv s \<Longrightarrow> inv (foldl step s (take n es))"
  by (rule run_inv)

text \<open>What every step of an allowed kind keeps, a run of allowed steps keeps.\<close>

lemma run_keeps:
  assumes "\<And>s e. inv s \<Longrightarrow> allowed e \<Longrightarrow> P s \<Longrightarrow> P (step s e)"
  shows "inv s \<Longrightarrow> list_all allowed es \<Longrightarrow> P s \<Longrightarrow> P (foldl step s es)"
  by (induction es arbitrary: s) (simp_all add: step_inv assms)

end

text \<open>
  A machine that moreover has a quantity no event can lower (a fuse, a ledger, a set of
  terminal rows).
\<close>

locale monotone_machine = machine +
  fixes progress :: "'s \<Rightarrow> 'm::preorder"
  assumes step_mono: "inv s \<Longrightarrow> progress s \<le> progress (step s e)"
begin

lemma run_mono: "inv s \<Longrightarrow> progress s \<le> progress (foldl step s es)"
proof (induction es arbitrary: s)
  case (Cons e es)
  have "progress s \<le> progress (step s e)"
    using Cons.prems by (rule step_mono)
  also have "\<dots> \<le> progress (foldl step (step s e) es)"
    using Cons.IH [OF step_inv [OF Cons.prems]] .
  finally show ?case by simp
qed simp

end

lemma in_map_filter: "y \<in> set (List.map_filter f xs) \<longleftrightarrow> (\<exists>x \<in> set xs. f x = Some y)"
  by (induction xs) (auto simp: List.map_filter_simps split: option.splits)

end
