(* ===== verification/Geo.thy ===== *)
theory Geo
  imports Prelude
begin

section \<open>Where a coordinate can be\<close>

text \<open>
  Models \<^verbatim>\<open>backend/app/osd/geo.py\<close> (the great-circle distance),
  \<^verbatim>\<open>osd/validate.py\<close> (which coordinate may be stored, which step a vehicle can make, which
  overlay clock is believed) and \<^verbatim>\<open>osd/outliers.py\<close> (which coordinates cannot belong to a
  drive). Coordinates are exact reals; not-a-number and the infinities are values of their own
  where the code tests for them. The sentences of \<^verbatim>\<open>coordinate_problem\<close> are constructors,
  without the numbers printed in them.
\<close>

subsection \<open>Distance on the sphere\<close>

definition EARTH_RADIUS_M :: real where "EARTH_RADIUS_M = 6371008.8"

definition radians :: "real \<Rightarrow> real" where "radians x = x * pi / 180"

definition haversine_m :: "real \<Rightarrow> real \<Rightarrow> real \<Rightarrow> real \<Rightarrow> real" where
  "haversine_m lat1 lon1 lat2 lon2 =
     (let p1 = radians lat1; p2 = radians lat2;
          dp = p2 - p1;
          dl = radians (lon2 - lon1);
          a = (sin (dp / 2))\<^sup>2 + cos p1 * cos p2 * (sin (dl / 2))\<^sup>2
      in 2 * EARTH_RADIUS_M * arcsin (sqrt a))"

lemma half_angle: "(sin (x / 2))\<^sup>2 = (1 - cos x) / (2::real)"
  using cos_double_sin [of "x / 2"] by simp

lemma hav_bounds:
  fixes p q d :: real
  shows "0 \<le> (sin ((q - p) / 2))\<^sup>2 + cos p * cos q * (sin (d / 2))\<^sup>2"
    and "(sin ((q - p) / 2))\<^sup>2 + cos p * cos q * (sin (d / 2))\<^sup>2 \<le> 1"
proof -
  let ?s = "(sin (d / 2))\<^sup>2" and ?c = "cos p * cos q" and ?h = "(sin ((q - p) / 2))\<^sup>2"
  have s: "0 \<le> ?s" "?s \<le> 1" using abs_sin_le_one [of "d / 2"] by (simp_all add: abs_square_le_1)
  have sum: "?c = (cos (q - p) + cos (p + q)) / 2" by (simp add: cos_add cos_diff)
  have h: "?h = (1 - cos (q - p)) / 2" by (rule half_angle)
  have whole: "?h + ?c = (1 + cos (p + q)) / 2" unfolding sum h by (simp add: field_simps)
  obtain y where y: "y = cos (p + q)" "- 1 \<le> y" "y \<le> 1" by simp
  have low: "0 \<le> ?h + ?c" unfolding whole y(1) [symmetric] using y(2) by simp
  have high: "?h + ?c \<le> 1" unfolding whole y(1) [symmetric] using y(3) by simp
  have mix: "?h + ?c * ?s = (1 - ?s) * ?h + ?s * (?h + ?c)" by (simp add: algebra_simps)
  have h01: "0 \<le> ?h" "?h \<le> 1"
    using abs_sin_le_one [of "(q - p) / 2"] by (simp_all add: abs_square_le_1)
  show "0 \<le> ?h + ?c * ?s" 
    unfolding mix by (rule add_nonneg_nonneg; rule mult_nonneg_nonneg) (use s h01 low in linarith)+
  have "(1 - ?s) * ?h + ?s * (?h + ?c) \<le> (1 - ?s) * 1 + ?s * 1"
    using s h01 high by (intro add_mono mult_left_mono) auto
  then show "?h + ?c * ?s \<le> 1" unfolding mix by simp
qed

lemma haversine_self [simp]: "haversine_m lat lon lat lon = 0"
  by (simp add: haversine_m_def radians_def Let_def)

lemma half_angle_minus: "(sin (- x / 2))\<^sup>2 = (sin (x / 2))\<^sup>2" for x :: real
  by simp

lemma haversine_sym: "haversine_m a b c d = haversine_m c d a b"
proof -
  have "(radians c - radians a) / 2 = - (radians a - radians c) / 2"
    "radians (d - b) / 2 = - radians (b - d) / 2"
    by (simp_all add: radians_def field_simps)
  then show ?thesis
    by (simp only: haversine_m_def Let_def half_angle_minus mult.commute)
qed

lemma haversine_bounds: "0 \<le> haversine_m a b c d" "haversine_m a b c d \<le> pi * EARTH_RADIUS_M"
proof -
  define x where "x = (sin ((radians c - radians a) / 2))\<^sup>2 +
    cos (radians a) * cos (radians c) * (sin (radians (d - b) / 2))\<^sup>2"
  have eq: "haversine_m a b c d = 2 * EARTH_RADIUS_M * arcsin (sqrt x)"
    by (simp add: haversine_m_def Let_def x_def)
  have x: "0 \<le> x" "x \<le> 1" unfolding x_def by (rule hav_bounds)+
  have s: "0 \<le> sqrt x" "sqrt x \<le> 1" using x by simp_all
  have "arcsin 0 \<le> arcsin (sqrt x)" using s by (intro arcsin_le_arcsin) auto
  then have a: "0 \<le> arcsin (sqrt x)" by simp
  have b: "arcsin (sqrt x) \<le> pi / 2" using arcsin_bounded [of "sqrt x"] s by simp
  show "0 \<le> haversine_m a b c d" unfolding eq using a by (simp add: EARTH_RADIUS_M_def)
  have "2 * EARTH_RADIUS_M * arcsin (sqrt x) \<le> 2 * EARTH_RADIUS_M * (pi / 2)"
    using b by (intro mult_left_mono) (auto simp: EARTH_RADIUS_M_def)
  then show "haversine_m a b c d \<le> pi * EARTH_RADIUS_M" unfolding eq by (simp add: mult.commute)
qed

subsection \<open>Which coordinate may be stored\<close>

definition NO_FIX_EPSILON :: real where "NO_FIX_EPSILON = 0.1"
definition MAX_LATITUDE :: real where "MAX_LATITUDE = 90"
definition MAX_LONGITUDE :: real where "MAX_LONGITUDE = 180"

datatype pynum = Fin real | PosInf | NegInf | NotANumber

text \<open>What a caller may pass for a coordinate: nothing, what \<^verbatim>\<open>float()\<close> refuses, or a float.\<close>

datatype pycoord = Missing | NoFloat | Num pynum

datatype coordinate_fault =
    NoCoordinate | NotNumeric | NotFinite | OutOfRange | NoSatelliteFix

definition is_no_fix_placeholder :: "real \<Rightarrow> real \<Rightarrow> bool" where
  "is_no_fix_placeholder lat lon \<longleftrightarrow> \<bar>lat\<bar> \<le> NO_FIX_EPSILON \<and> \<bar>lon\<bar> \<le> NO_FIX_EPSILON"

fun coordinate_problem :: "pycoord \<Rightarrow> pycoord \<Rightarrow> coordinate_fault option" where
  "coordinate_problem Missing _ = Some NoCoordinate"
| "coordinate_problem _ Missing = Some NoCoordinate"
| "coordinate_problem (Num (Fin lat)) (Num (Fin lon)) =
     (if \<bar>lat\<bar> > MAX_LATITUDE \<or> \<bar>lon\<bar> > MAX_LONGITUDE then Some OutOfRange
      else if is_no_fix_placeholder lat lon then Some NoSatelliteFix
      else None)"
| "coordinate_problem (Num _) (Num _) = Some NotFinite"
| "coordinate_problem _ _ = Some NotNumeric"

definition is_valid_coordinate :: "pycoord \<Rightarrow> pycoord \<Rightarrow> bool" where
  "is_valid_coordinate lat lon \<longleftrightarrow> coordinate_problem lat lon = None"

text \<open>A nullable column as an argument of these checks.\<close>

definition column :: "real option \<Rightarrow> pycoord" where
  "column x = (case x of None \<Rightarrow> Missing | Some v \<Rightarrow> Num (Fin v))"

lemma valid_coordinate_iff:
  "is_valid_coordinate lat lon \<longleftrightarrow>
    (\<exists>a b. lat = Num (Fin a) \<and> lon = Num (Fin b) \<and> \<bar>a\<bar> \<le> 90 \<and> \<bar>b\<bar> \<le> 180 \<and>
       (\<bar>a\<bar> > 0.1 \<or> \<bar>b\<bar> > 0.1))"
  unfolding is_valid_coordinate_def
  by (cases "(lat, lon)" rule: coordinate_problem.cases)
    (auto simp: is_no_fix_placeholder_def NO_FIX_EPSILON_def MAX_LATITUDE_def MAX_LONGITUDE_def)

subsection \<open>Which clock and which step are believed\<close>

definition MAX_CLOCK_DRIFT_S :: int where "MAX_CLOCK_DRIFT_S = 15 * 60"
definition MAX_PLAUSIBLE_SPEED_MS :: real where "MAX_PLAUSIBLE_SPEED_MS = 400 * 1000 / 3600"

definition clock_is_plausible :: "usec option \<Rightarrow> usec option \<Rightarrow> bool" where
  "clock_is_plausible captured expected =
     (case (captured, expected) of
        (Some c, Some e) \<Rightarrow> \<bar>c - e\<bar> \<le> seconds MAX_CLOCK_DRIFT_S
      | _ \<Rightarrow> True)"

datatype pyspeed = Speed real | Unbounded

definition implied_speed_ms :: "real \<Rightarrow> real \<Rightarrow> pyspeed" where
  "implied_speed_ms distance secs =
     (if secs \<le> 0 then if distance \<le> 0 then Speed 0 else Unbounded
      else Speed (distance / secs))"

definition is_plausible_step :: "real \<Rightarrow> real \<Rightarrow> bool" where
  "is_plausible_step distance secs =
     (case implied_speed_ms distance (max 1 secs) of
        Speed v \<Rightarrow> v \<le> MAX_PLAUSIBLE_SPEED_MS
      | Unbounded \<Rightarrow> False)"

lemma plausible_step_iff: "is_plausible_step d s \<longleftrightarrow> d \<le> MAX_PLAUSIBLE_SPEED_MS * max 1 s"
  by (simp add: is_plausible_step_def implied_speed_ms_def pos_divide_le_eq)

text \<open>Seconds between two moments, as \<^verbatim>\<open>timedelta.total_seconds()\<close> gives them.\<close>

definition secs_between :: "usec \<Rightarrow> usec \<Rightarrow> real" where
  "secs_between later earlier = real_of_int (later - earlier) / 1000000"

text \<open>\<^verbatim>\<open>timedelta(seconds=x)\<close> rounds to whole microseconds.\<close>

definition delta_of :: "real \<Rightarrow> usec" where
  "delta_of x = round_half_even (x * 1000000)"

subsection \<open>The median\<close>

text \<open>\<^verbatim>\<open>statistics.median\<close>; the code never asks it about an empty list.\<close>

definition median :: "real list \<Rightarrow> real" where
  "median xs =
     (let s = sort xs; n = length s in
      if odd n then s ! (n div 2) else (s ! (n div 2 - 1) + s ! (n div 2)) / 2)"

lemma sorted_below:
  fixes s :: "real list"
  assumes "sorted s" and "k < length s" and "s ! k < a"
  shows "k < length (filter (\<lambda>x. x < a) s)"
proof -
  have "\<forall>x \<in> set (take (Suc k) s). x < a"
    using assms sorted_nth_mono [of s _ k] by (auto simp: in_set_conv_nth less_Suc_eq_le) force
  then have "length (filter (\<lambda>x. x < a) (take (Suc k) s)) = Suc k"
    using assms(2) by (simp add: filter_id_conv)
  then show ?thesis
    using filter_append [of "\<lambda>x. x < a" "take (Suc k) s" "drop (Suc k) s"] by simp
qed

lemma sorted_above:
  fixes s :: "real list"
  assumes "sorted s" and "k < length s" and "b < s ! k"
  shows "length s - k \<le> length (filter (\<lambda>x. b < x) s)"
proof -
  have "\<forall>x \<in> set (drop k s). b < x"
    using assms sorted_nth_mono [of s k] by (auto simp: in_set_conv_nth) (smt (verit) add.commute le_add2 less_diff_conv)
  then have "length (filter (\<lambda>x. b < x) (drop k s)) = length s - k"
    by (simp add: filter_id_conv)
  then show ?thesis
    using filter_append [of "\<lambda>x. b < x" "take k s" "drop k s"] by simp
qed

lemma length_filters_disjoint:
  assumes "\<And>x. P x \<Longrightarrow> \<not> Q x"
  shows "length (filter P xs) + length (filter Q xs) \<le> length xs"
  by (induction xs) (auto dest: assms)

text \<open>More than half of the values in an interval hold the median inside it.\<close>

lemma median_majority:
  assumes "length xs < 2 * length (filter (\<lambda>x. a \<le> x \<and> x \<le> b) xs)"
  shows "a \<le> median xs \<and> median xs \<le> b"
proof -
  define s where "s = sort xs"
  define n where "n = length s"
  have "mset (filter P s) = mset (filter P xs)" for P by (simp add: s_def)
  then have len: "length (filter P s) = length (filter P xs)" for P using mset_eq_length by blast
  have n: "0 < n" "n = length xs" using assms by (auto simp: n_def s_def)
  have srt: "sorted s" by (simp add: s_def)
  have low: "a \<le> s ! k" if k: "k < n" "n \<le> 2 * Suc k" for k
  proof (rule ccontr)
    assume "\<not> a \<le> s ! k"
    then have "k < length (filter (\<lambda>x. x < a) s)" using k n_def srt by (intro sorted_below) auto
    moreover have "length (filter (\<lambda>x. x < a) s) + length (filter (\<lambda>x. a \<le> x \<and> x \<le> b) s) \<le> n"
      unfolding n_def by (rule length_filters_disjoint) auto
    ultimately show False using assms len n k(2) by simp
  qed
  have high: "s ! k \<le> b" if k: "k < n" "2 * k \<le> n" for k
  proof (rule ccontr)
    assume "\<not> s ! k \<le> b"
    then have "n - k \<le> length (filter (\<lambda>x. b < x) s)" unfolding n_def using k n_def srt
      by (intro sorted_above) auto
    moreover have "length (filter (\<lambda>x. b < x) s) + length (filter (\<lambda>x. a \<le> x \<and> x \<le> b) s) \<le> n"
      unfolding n_def by (rule length_filters_disjoint) auto
    ultimately show False using assms len n k(2) by simp
  qed
  have med: "median xs =
      (if odd n then s ! (n div 2) else (s ! (n div 2 - 1) + s ! (n div 2)) / 2)"
    by (simp add: median_def Let_def s_def n_def)
  show ?thesis
  proof (cases "odd n")
    case True
    then have "n div 2 < n" "n \<le> 2 * Suc (n div 2)" "2 * (n div 2) \<le> n" using n(1) by presburger+
    then show ?thesis using med True low high by simp
  next
    case False
    then have k: "n div 2 < n" "n \<le> 2 * Suc (n div 2)" "2 * (n div 2) \<le> n"
      "n div 2 - 1 < n" "n \<le> 2 * Suc (n div 2 - 1)" "2 * (n div 2 - 1) \<le> n"
      using n(1) by presburger+
    then have "a \<le> s ! (n div 2)" "s ! (n div 2) \<le> b" "a \<le> s ! (n div 2 - 1)" "s ! (n div 2 - 1) \<le> b"
      using low high by blast+
    then show ?thesis using med False by simp
  qed
qed

subsection \<open>Coordinates that cannot belong to a drive\<close>

definition SUSTAINED_SPEED_KMH :: real where "SUSTAINED_SPEED_KMH = 130"
definition MIN_RADIUS_M :: real where "MIN_RADIUS_M = 5000"
definition MIN_ANCHORS :: nat where "MIN_ANCHORS = 3"

type_synonym place = "real \<times> real"

definition metres :: "place \<Rightarrow> place \<Rightarrow> real" where
  "metres p q = haversine_m (fst p) (snd p) (fst q) (snd q)"

definition plausible_radius_m :: "real \<Rightarrow> real" where
  "plausible_radius_m secs =
     (let reach = max 0 secs / 3600 * SUSTAINED_SPEED_KMH * 1000 in max MIN_RADIUS_M (reach / 2))"

definition robust_centre :: "place list \<Rightarrow> place option" where
  "robust_centre ps = (if ps = [] then None else Some (median (List.map fst ps), median (List.map snd ps)))"

text \<open>
  Sets of indices are ascending lists. \<open>direct\<close> has one mark for each point: whether the
  coordinate was read, rather than synthesised from its neighbours.
\<close>

definition jury_of :: "nat \<Rightarrow> bool list option \<Rightarrow> nat list" where
  "jury_of n direct =
     (case direct of
        None \<Rightarrow> [0..<n]
      | Some marks \<Rightarrow>
          (let read = filter (\<lambda>i. marks ! i) [0..<length marks]
           in if MIN_ANCHORS \<le> length read then read else [0..<n]))"

definition spatial_outliers :: "place list \<Rightarrow> real \<Rightarrow> bool list option \<Rightarrow> nat list" where
  "spatial_outliers ps secs direct =
     (if length ps < 3 then []
      else
        (let jury = jury_of (length ps) direct in
         case robust_centre (List.map (\<lambda>i. ps ! i) jury) of
           None \<Rightarrow> []
         | Some centre \<Rightarrow>
             (let radius = plausible_radius_m secs;
                  outliers = filter (\<lambda>i. radius < metres centre (ps ! i)) [0..<length ps];
                  jury_outliers = length (filter (\<lambda>i. i \<in> set outliers) jury)
              in if length jury \<le> jury_outliers * 2 then [] else outliers)))"

definition looks_like_sign_loss :: "place \<Rightarrow> place \<Rightarrow> real \<Rightarrow> bool" where
  "looks_like_sign_loss point centre radius =
     (if metres centre point \<le> radius then False
      else metres centre (- fst point, snd point) \<le> radius)"

lemma metres_self [simp]: "metres p p = 0"
  by (simp add: metres_def)

lemma metres_sym: "metres p q = metres q p"
  by (simp add: metres_def haversine_sym)

lemma metres_nonneg [simp]: "0 \<le> metres p q"
  by (simp add: metres_def haversine_bounds)

lemma plausible_radius_pos [simp]: "0 < plausible_radius_m secs"
  by (simp add: plausible_radius_m_def Let_def MIN_RADIUS_M_def less_max_iff_disj)

text \<open>A box with most of the points in it holds the centre, wherever the others lie.\<close>

lemma robust_centre_majority:
  assumes "length ps < 2 * length (filter (\<lambda>p. a \<le> fst p \<and> fst p \<le> b \<and> c \<le> snd p \<and> snd p \<le> d) ps)"
  shows "\<exists>lat lon. robust_centre ps = Some (lat, lon) \<and> a \<le> lat \<and> lat \<le> b \<and> c \<le> lon \<and> lon \<le> d"
proof -
  let ?box = "\<lambda>p. a \<le> fst p \<and> fst p \<le> b \<and> c \<le> snd p \<and> snd p \<le> d"
  have more: "length (filter ?box ps) \<le> length (filter (Q \<circ> f) ps)"
    if "\<And>p. ?box p \<Longrightarrow> Q (f p)" for Q and f :: "place \<Rightarrow> real"
    using that by (induction ps) auto
  have "length (List.map fst ps) < 2 * length (filter (\<lambda>x. a \<le> x \<and> x \<le> b) (List.map fst ps))"
    using assms more [of "\<lambda>x. a \<le> x \<and> x \<le> b" fst] by (simp add: filter_map comp_def)
  moreover have "length (List.map snd ps) < 2 * length (filter (\<lambda>x. c \<le> x \<and> x \<le> d) (List.map snd ps))"
    using assms more [of "\<lambda>x. c \<le> x \<and> x \<le> d" snd] by (simp add: filter_map comp_def)
  moreover have "ps \<noteq> []" using assms by auto
  ultimately show ?thesis
    using median_majority by (auto simp: robust_centre_def)
qed

lemma outlier_iff:
  "j \<in> set (spatial_outliers ps secs direct) \<longleftrightarrow> \<not> length ps < 3 \<and> j < length ps \<and>
    (\<exists>c. robust_centre (List.map (\<lambda>i. ps ! i) (jury_of (length ps) direct)) = Some c \<and>
       plausible_radius_m secs < metres c (ps ! j) \<and>
       2 * length (filter (\<lambda>i. i < length ps \<and> plausible_radius_m secs < metres c (ps ! i))
             (jury_of (length ps) direct)) < length (jury_of (length ps) direct))"
proof (cases "robust_centre (List.map (\<lambda>i. ps ! i) (jury_of (length ps) direct))")
  case (Some c)
  have "set (filter P [0..<n]) = {i. i < n \<and> P i}" for P and n :: nat by auto
  with Some show ?thesis
    by (auto simp: spatial_outliers_def Let_def not_le mult.commute)
qed (simp add: spatial_outliers_def)

lemma length_filter_mono:
  "(\<And>x. x \<in> set xs \<Longrightarrow> P x \<Longrightarrow> Q x) \<Longrightarrow> length (filter P xs) \<le> length (filter Q xs)"
  by (induction xs) (auto intro: le_SucI)

text \<open>The pass never rejects half of its jury.\<close>

lemma outliers_minority:
  assumes "j \<in> set (spatial_outliers ps secs direct)"
  shows "2 * length (filter (\<lambda>i. i \<in> set (spatial_outliers ps secs direct)) (jury_of (length ps) direct))
    < length (jury_of (length ps) direct)"
proof -
  let ?jury = "jury_of (length ps) direct"
  from assms obtain c where c: "robust_centre (List.map (\<lambda>i. ps ! i) ?jury) = Some c"
    "2 * length (filter (\<lambda>i. i < length ps \<and> plausible_radius_m secs < metres c (ps ! i)) ?jury) < length ?jury"
    by (auto simp: outlier_iff)
  have "length (filter (\<lambda>i. i \<in> set (spatial_outliers ps secs direct)) ?jury)
      \<le> length (filter (\<lambda>i. i < length ps \<and> plausible_radius_m secs < metres c (ps ! i)) ?jury)"
    using c(1) by (intro length_filter_mono) (auto simp: outlier_iff)
  with c(2) show ?thesis by simp
qed

text \<open>C21: positions that were synthesised have no say. With three readings or more, the verdict on a
  point depends on that point, the readings and the length of the drive alone: move the copies in
  between as you like and the same readings are kept and rejected.\<close>

theorem copies_have_no_say:
  assumes "length ps = length marks" "length qs = length marks"
    and "3 \<le> length (filter (\<lambda>i. marks ! i) [0..<length marks])"
    and "\<forall>i < length marks. marks ! i \<longrightarrow> ps ! i = qs ! i"
    and "j < length marks" "ps ! j = qs ! j"
  shows "j \<in> set (spatial_outliers ps secs (Some marks)) \<longleftrightarrow>
    j \<in> set (spatial_outliers qs secs (Some marks))"
proof -
  let ?jury = "filter (\<lambda>i. marks ! i) [0..<length marks]"
  have jury: "jury_of (length ps) (Some marks) = ?jury" "jury_of (length qs) (Some marks) = ?jury"
    using assms(3) by (simp_all add: jury_of_def MIN_ANCHORS_def Let_def)
  have three: "\<not> length ps < 3" "\<not> length qs < 3"
    using assms(1-3) length_filter_le [of "\<lambda>i. marks ! i" "[0..<length marks]"] by auto
  have same: "List.map (\<lambda>i. ps ! i) ?jury = List.map (\<lambda>i. qs ! i) ?jury"
    using assms(4) by simp
  have "filter (\<lambda>i. i < length ps \<and> r < metres c (ps ! i)) ?jury =
      filter (\<lambda>i. i < length qs \<and> r < metres c (qs ! i)) ?jury" for r c
    using assms(1,2,4) by (intro filter_cong) auto
  then show ?thesis
    unfolding outlier_iff jury same using three assms(1,2,5,6) by simp
qed

text \<open>Five points: three readings and two copies that moved away.\<close>

lemma copies_have_no_say_witness:
  "let marks = [True, False, True, False, True];
       ps = [(-34.7, 138.6), (35, 139), (-34.7, 138.6), (35, 139), (-34.7, 138.6)];
       qs = [(-34.7, 138.6), (35, 139), (-34.7, 138.6), (-34.7, 138.6), (-34.7, 138.6)]
   in 1 \<in> set (spatial_outliers ps 60 (Some marks)) \<longleftrightarrow> 1 \<in> set (spatial_outliers qs 60 (Some marks))"
proof -
  have "filter (\<lambda>i. [True, False, True, False, True] ! i) [0..<5] = [0, 2, 4]" by code_simp
  then show ?thesis
    unfolding Let_def by (intro copies_have_no_say) (simp_all add: All_less_Suc)
qed

end
