(* ===== verification/SettingsSchema.thy ===== *)
theory SettingsSchema
  imports Geo
begin

section \<open>The catalogue of settings\<close>

text \<open>
  Models \<^verbatim>\<open>backend/app/core/settings_schema.py\<close>: the definition of a setting and the
  catalogue \<^verbatim>\<open>SETTINGS\<close>, entry by entry, in the order and the groups of the file. Labels,
  descriptions, units and the labels of choices are display text and left out. The zone that
  the deployment names is resolved by \<^verbatim>\<open>zoneinfo\<close>, an argument here.
\<close>

subsection \<open>Values and definitions\<close>

text \<open>What a setting's value may be at run time; \<open>VOther\<close> stands for lists and dictionaries.\<close>

datatype pyval = VNone | VBool bool | VInt int | VFloat pynum | VStr string | VOther string

datatype setting_type = TBool | TInt | TFloat | TString | TSelect | TPath | TBytes

record setting_def =
  sd_key :: string
  sd_type :: setting_type
  sd_default :: pyval
  sd_category :: string
  sd_minimum :: "real option"
  sd_maximum :: "real option"
  sd_choices :: "string list"
  sd_dangerous :: bool
  sd_read_only :: bool
  sd_hidden :: bool
  sd_requires :: "string option"

definition setting :: "string \<Rightarrow> setting_type \<Rightarrow> pyval \<Rightarrow> string \<Rightarrow> setting_def" where
  "setting key ty dflt cat =
     \<lparr>sd_key = key, sd_type = ty, sd_default = dflt, sd_category = cat, sd_minimum = None, sd_maximum = None,
      sd_choices = [], sd_dangerous = False, sd_read_only = False, sd_hidden = False, sd_requires = None\<rparr>"

definition CATEGORIES :: "string list" where
  "CATEGORIES =
    [''general'', ''scanner'', ''processing'', ''telemetry'', ''plates'', ''journeys'', ''events'', ''storage'',
     ''ingest'', ''maps'', ''security'', ''advanced'']"

definition INGEST_SLEEP_WINDOW_ACTIVE_SECONDS :: int where "INGEST_SLEEP_WINDOW_ACTIVE_SECONDS = 1200"
definition INGEST_SLEEP_WINDOW_IDLE_SECONDS :: int where "INGEST_SLEEP_WINDOW_IDLE_SECONDS = 300"

text \<open>Settings with one effective value, whatever is stored.\<close>

definition FIXED_SETTING_VALUES :: "(string \<times> pyval) list" where
  "FIXED_SETTING_VALUES = [(''ingest.manage_sleep_window'', VBool True)]"

definition HISTORICAL_TIMEZONE :: string where "HISTORICAL_TIMEZONE = ''Australia/Adelaide''"

definition default_timezone :: "(string \<Rightarrow> bool) \<Rightarrow> string option \<Rightarrow> string" where
  "default_timezone zone_known tz =
     (let name = strip (case tz of None \<Rightarrow> [] | Some s \<Rightarrow> s) in
      if name = [] then HISTORICAL_TIMEZONE
      else if zone_known name then name else HISTORICAL_TIMEZONE)"

subsection \<open>The entries\<close>

definition GENERAL_SETTINGS :: "string \<Rightarrow> setting_def list" where
  "GENERAL_SETTINGS tz =
    [setting ''general.timezone'' TString (VStr tz) ''general'',
     setting ''general.footage_dir'' TPath (VStr ''/dashcam'') ''general'',
     setting ''general.media_extensions'' TString (VStr ''.ts,.mp4,.mov,.avi,.mkv'') ''general'',
     (setting ''general.thumbnail_width'' TInt (VInt 480) ''general'')
       \<lparr>sd_minimum := Some 160, sd_maximum := Some 1920\<rparr>,
     (setting ''general.thumbnail_quality'' TInt (VInt 80) ''general'')
       \<lparr>sd_minimum := Some 40, sd_maximum := Some 100\<rparr>,
     (setting ''general.stream_cache_gb'' TFloat (VFloat (Fin 5)) ''general'')
       \<lparr>sd_minimum := Some 0.5, sd_maximum := Some 500\<rparr>]"

definition SCANNER_SETTINGS :: "setting_def list" where
  "SCANNER_SETTINGS =
    [setting ''scanner.enabled'' TBool (VBool True) ''scanner'',
     (setting ''scanner.interval_minutes'' TInt (VInt 60) ''scanner'')
       \<lparr>sd_minimum := Some 1, sd_maximum := Some 10080, sd_requires := Some ''scanner.enabled''\<rparr>,
     setting ''scanner.auto_process'' TBool (VBool True) ''scanner'',
     (setting ''scanner.damaged_footage_action'' TSelect (VStr ''hide'') ''scanner'')
       \<lparr>sd_choices := [''keep'', ''hide'', ''delete''], sd_dangerous := True\<rparr>,
     (setting ''scanner.settle_seconds'' TInt (VInt 90) ''scanner'')
       \<lparr>sd_minimum := Some 0, sd_maximum := Some 3600\<rparr>,
     setting ''scanner.follow_symlinks'' TBool (VBool False) ''scanner'',
     (setting ''scanner.fingerprint_bytes'' TInt (VInt 1048576) ''scanner'')
       \<lparr>sd_minimum := Some 65536, sd_maximum := Some 16777216\<rparr>]"

definition PROCESSING_SETTINGS :: "setting_def list" where
  "PROCESSING_SETTINGS =
    [(setting ''processing.max_workers'' TInt (VInt 2) ''processing'')
       \<lparr>sd_minimum := Some 1, sd_maximum := Some 16\<rparr>,
     setting ''processing.hardware_acceleration'' TBool (VBool True) ''processing'',
     (setting ''processing.decoder_preference'' TSelect (VStr ''auto'') ''processing'')
       \<lparr>sd_choices := [''auto'', ''vaapi'', ''qsv'', ''cpu'']\<rparr>,
     (setting ''processing.inference_device'' TSelect (VStr ''auto'') ''processing'')
       \<lparr>sd_choices := [''auto'', ''GPU'', ''CPU'', ''NPU'']\<rparr>,
     setting ''processing.detection_enabled'' TBool (VBool True) ''processing'',
     (setting ''processing.detection_model'' TSelect (VStr ''rfdetr-nano'') ''processing'')
       \<lparr>sd_choices := [''rfdetr-nano'', ''rfdetr-small'', ''rfdetr-medium''], sd_requires := Some ''processing.detection_enabled''\<rparr>,
     (setting ''processing.detection_confidence'' TFloat (VFloat (Fin 0.35)) ''processing'')
       \<lparr>sd_minimum := Some 0.05, sd_maximum := Some 0.95, sd_requires := Some ''processing.detection_enabled''\<rparr>,
     (setting ''processing.frame_sample_fps'' TFloat (VFloat (Fin 4)) ''processing'')
       \<lparr>sd_minimum := Some 0.5, sd_maximum := Some 30, sd_requires := Some ''processing.detection_enabled''\<rparr>,
     (setting ''processing.motion_gating'' TBool (VBool True) ''processing'')
       \<lparr>sd_requires := Some ''processing.detection_enabled''\<rparr>,
     (setting ''processing.detection_classes'' TString (VStr ''car,truck,bus,motorcycle,bicycle,person'') ''processing'')
       \<lparr>sd_requires := Some ''processing.detection_enabled''\<rparr>,
     (setting ''processing.track_min_frames'' TInt (VInt 2) ''processing'')
       \<lparr>sd_minimum := Some 1, sd_maximum := Some 30\<rparr>,
     setting ''processing.process_rear_camera'' TBool (VBool True) ''processing'',
     (setting ''processing.retry_max_attempts'' TInt (VInt 3) ''processing'')
       \<lparr>sd_minimum := Some 0, sd_maximum := Some 10\<rparr>]"

definition EVENTS_SETTINGS :: "setting_def list" where
  "EVENTS_SETTINGS =
    [setting ''events.detect_harsh_braking'' TBool (VBool False) ''events'',
     (setting ''events.harsh_braking_kmh_s'' TFloat (VFloat (Fin 10)) ''events'')
       \<lparr>sd_minimum := Some 3, sd_maximum := Some 30, sd_requires := Some ''events.detect_harsh_braking''\<rparr>]"

definition TELEMETRY_SETTINGS :: "setting_def list" where
  "TELEMETRY_SETTINGS =
    [setting ''telemetry.enabled'' TBool (VBool True) ''telemetry'',
     (setting ''telemetry.sample_fps'' TFloat (VFloat (Fin 1)) ''telemetry'')
       \<lparr>sd_minimum := Some 0.1, sd_maximum := Some 5, sd_requires := Some ''telemetry.enabled''\<rparr>,
     (setting ''telemetry.min_confidence'' TFloat (VFloat (Fin 0.6)) ''telemetry'')
       \<lparr>sd_minimum := Some 0, sd_maximum := Some 1, sd_requires := Some ''telemetry.enabled''\<rparr>,
     (setting ''telemetry.max_speed_kmh'' TFloat (VFloat (Fin 300)) ''telemetry'')
       \<lparr>sd_minimum := Some 50, sd_maximum := Some 999\<rparr>,
     (setting ''telemetry.min_move_metres'' TFloat (VFloat (Fin 12)) ''telemetry'')
       \<lparr>sd_minimum := Some 0, sd_maximum := Some 100\<rparr>,
     (setting ''telemetry.max_fix_age_s'' TFloat (VFloat (Fin 3)) ''telemetry'')
       \<lparr>sd_minimum := Some 0.5, sd_maximum := Some 120\<rparr>,
     (setting ''telemetry.max_interpolation_gap_s'' TFloat (VFloat (Fin 15)) ''telemetry'')
       \<lparr>sd_minimum := Some 0, sd_maximum := Some 300\<rparr>]"

definition PLATES_SETTINGS :: "setting_def list" where
  "PLATES_SETTINGS =
    [setting ''plates.enabled'' TBool (VBool True) ''plates'',
     (setting ''plates.auto_revalidate'' TBool (VBool True) ''plates'')
       \<lparr>sd_requires := Some ''plates.enabled''\<rparr>,
     (setting ''plates.detection_confidence'' TFloat (VFloat (Fin 0.4)) ''plates'')
       \<lparr>sd_minimum := Some 0.05, sd_maximum := Some 0.95, sd_requires := Some ''plates.enabled''\<rparr>,
     (setting ''plates.min_store_confidence'' TFloat (VFloat (Fin 0.3)) ''plates'')
       \<lparr>sd_minimum := Some 0, sd_maximum := Some 1, sd_requires := Some ''plates.enabled''\<rparr>,
     (setting ''plates.store_unmatched'' TBool (VBool False) ''plates'')
       \<lparr>sd_requires := Some ''plates.enabled''\<rparr>,
     (setting ''plates.region'' TSelect (VStr ''AU'') ''plates'')
       \<lparr>sd_choices := [''AU'', ''AU-SA'', ''none''], sd_requires := Some ''plates.enabled''\<rparr>,
     (setting ''plates.max_ocr_per_track'' TInt (VInt 5) ''plates'')
       \<lparr>sd_minimum := Some 1, sd_maximum := Some 30, sd_requires := Some ''plates.enabled''\<rparr>,
     (setting ''plates.save_crops'' TBool (VBool True) ''plates'')
       \<lparr>sd_requires := Some ''plates.enabled''\<rparr>,
     (setting ''plates.min_plate_width'' TInt (VInt 48) ''plates'')
       \<lparr>sd_minimum := Some 16, sd_maximum := Some 400, sd_requires := Some ''plates.enabled''\<rparr>]"

definition JOURNEYS_SETTINGS :: "setting_def list" where
  "JOURNEYS_SETTINGS =
    [setting ''journeys.enabled'' TBool (VBool True) ''journeys'',
     (setting ''journeys.gap_minutes'' TFloat (VFloat (Fin 1)) ''journeys'')
       \<lparr>sd_minimum := Some 0.5, sd_maximum := Some 180, sd_requires := Some ''journeys.enabled''\<rparr>,
     (setting ''journeys.min_recordings'' TInt (VInt 1) ''journeys'')
       \<lparr>sd_minimum := Some 1, sd_maximum := Some 50, sd_requires := Some ''journeys.enabled''\<rparr>,
     (setting ''journeys.use_gps_continuity'' TBool (VBool True) ''journeys'')
       \<lparr>sd_requires := Some ''journeys.enabled''\<rparr>,
     (setting ''journeys.max_jump_km'' TFloat (VFloat (Fin 5)) ''journeys'')
       \<lparr>sd_minimum := Some 0.1, sd_maximum := Some 500, sd_requires := Some ''journeys.use_gps_continuity''\<rparr>,
     (setting ''journeys.min_avg_speed_kmh'' TFloat (VFloat (Fin 5)) ''journeys'')
       \<lparr>sd_minimum := Some 0, sd_maximum := Some 100, sd_requires := Some ''journeys.enabled''\<rparr>,
     (setting ''journeys.min_top_speed_kmh'' TFloat (VFloat (Fin 10)) ''journeys'')
       \<lparr>sd_minimum := Some 0, sd_maximum := Some 200, sd_requires := Some ''journeys.enabled''\<rparr>]"

definition STORAGE_SETTINGS_1 :: "setting_def list" where
  "STORAGE_SETTINGS_1 =
    [(setting ''storage.max_footage_gb'' TInt (VInt 150) ''storage'')
       \<lparr>sd_minimum := Some 1, sd_maximum := Some 1048576\<rparr>,
     setting ''storage.delete_oldest'' TBool (VBool True) ''storage'',
     (setting ''storage.enable_deletion'' TBool (VBool False) ''storage'')
       \<lparr>sd_dangerous := True\<rparr>,
     (setting ''storage.min_age_days'' TInt (VInt 0) ''storage'')
       \<lparr>sd_minimum := Some 0, sd_maximum := Some 3650\<rparr>,
     setting ''storage.keep_with_detections'' TBool (VBool False) ''storage'',
     setting ''storage.keep_events'' TBool (VBool True) ''storage'',
     (setting ''storage.delete_idle'' TBool (VBool True) ''storage'')
       \<lparr>sd_dangerous := True, sd_requires := Some ''storage.cleanup_enabled''\<rparr>,
     (setting ''storage.idle_speed_kmh'' TFloat (VFloat (Fin 3)) ''storage'')
       \<lparr>sd_minimum := Some 0, sd_maximum := Some 30, sd_requires := Some ''storage.delete_idle''\<rparr>,
     (setting ''storage.delete_parked_journeys'' TBool (VBool True) ''storage'')
       \<lparr>sd_dangerous := True, sd_requires := Some ''storage.cleanup_enabled''\<rparr>,
     setting ''storage.cleanup_enabled'' TBool (VBool True) ''storage'',
     (setting ''storage.cleanup_interval_minutes'' TInt (VInt 360) ''storage'')
       \<lparr>sd_minimum := Some 5, sd_maximum := Some 10080, sd_requires := Some ''storage.cleanup_enabled''\<rparr>,
     (setting ''storage.min_expected_files'' TInt (VInt 5) ''storage'')
       \<lparr>sd_minimum := Some 1, sd_maximum := Some 100000\<rparr>]"

definition STORAGE_SETTINGS_2 :: "setting_def list" where
  "STORAGE_SETTINGS_2 =
    [setting ''storage.require_mountpoint'' TBool (VBool True) ''storage'',
     (setting ''storage.max_delete_fraction'' TFloat (VFloat (Fin 0.25)) ''storage'')
       \<lparr>sd_minimum := Some 0.01, sd_maximum := Some 1\<rparr>]"

definition MAPS_SETTINGS :: "setting_def list" where
  "MAPS_SETTINGS =
    [setting ''maps.tile_url'' TString (VStr ''https://{s}.tile.openstreetmap.org/{z}/{x}/{y}.png'') ''maps'',
     setting ''maps.attribution'' TString (VStr ''&copy; OpenStreetMap contributors'') ''maps'',
     (setting ''maps.max_zoom'' TInt (VInt 19) ''maps'')
       \<lparr>sd_minimum := Some 1, sd_maximum := Some 22\<rparr>,
     (setting ''maps.route_simplify_m'' TFloat (VFloat (Fin 5)) ''maps'')
       \<lparr>sd_minimum := Some 0, sd_maximum := Some 100\<rparr>]"

definition SECURITY_SETTINGS :: "setting_def list" where
  "SECURITY_SETTINGS =
    [setting ''security.require_login'' TBool (VBool False) ''security'',
     (setting ''security.remember_days'' TInt (VInt 30) ''security'')
       \<lparr>sd_minimum := Some 1, sd_maximum := Some 365, sd_requires := Some ''security.require_login''\<rparr>,
     (setting ''security.api_key'' TString (VStr '''') ''security'')
       \<lparr>sd_requires := Some ''security.require_login''\<rparr>]"

definition ADVANCED_SETTINGS :: "setting_def list" where
  "ADVANCED_SETTINGS =
    [(setting ''advanced.log_level'' TSelect (VStr ''INFO'') ''advanced'')
       \<lparr>sd_choices := [''DEBUG'', ''INFO'', ''WARNING'', ''ERROR'']\<rparr>,
     (setting ''advanced.log_retention_days'' TInt (VInt 30) ''advanced'')
       \<lparr>sd_minimum := Some 1, sd_maximum := Some 365\<rparr>,
     (setting ''advanced.job_history_days'' TInt (VInt 90) ''advanced'')
       \<lparr>sd_minimum := Some 7, sd_maximum := Some 3650\<rparr>,
     setting ''advanced.keep_sparse_detections'' TBool (VBool True) ''advanced'',
     (setting ''advanced.detection_store_stride'' TInt (VInt 4) ''advanced'')
       \<lparr>sd_minimum := Some 1, sd_maximum := Some 100, sd_requires := Some ''advanced.keep_sparse_detections''\<rparr>,
     (setting ''advanced.motion_gate_min_change'' TFloat (VFloat (Fin 0.02)) ''advanced'')
       \<lparr>sd_minimum := Some 0, sd_maximum := Some 0.5, sd_requires := Some ''processing.motion_gating''\<rparr>,
     (setting ''advanced.ffmpeg_threads'' TInt (VInt 0) ''advanced'')
       \<lparr>sd_minimum := Some 0, sd_maximum := Some 64\<rparr>,
     (setting ''advanced.job_heartbeat_timeout_s'' TInt (VInt 300) ''advanced'')
       \<lparr>sd_minimum := Some 30, sd_maximum := Some 7200\<rparr>]"

definition INGEST_SETTINGS_1 :: "setting_def list" where
  "INGEST_SETTINGS_1 =
    [setting ''ingest.enabled'' TBool (VBool False) ''ingest'',
     (setting ''ingest.unit_adb_address'' TString (VStr ''192.168.1.122:5555'') ''ingest'')
       \<lparr>sd_requires := Some ''ingest.enabled''\<rparr>,
     (setting ''ingest.data_port'' TInt (VInt 9000) ''ingest'')
       \<lparr>sd_minimum := Some 1024, sd_maximum := Some 65535, sd_requires := Some ''ingest.enabled''\<rparr>,
     (setting ''ingest.source_path_override'' TString (VStr '''') ''ingest'')
       \<lparr>sd_requires := Some ''ingest.enabled''\<rparr>,
     (setting ''ingest.poll_interval_s'' TInt (VInt 2) ''ingest'')
       \<lparr>sd_minimum := Some 1, sd_maximum := Some 300, sd_requires := Some ''ingest.enabled''\<rparr>,
     (setting ''ingest.listen_timeout_s'' TInt (VInt 180) ''ingest'')
       \<lparr>sd_minimum := Some 30, sd_maximum := Some 3600, sd_requires := Some ''ingest.enabled''\<rparr>,
     (setting ''ingest.skip_active_seconds'' TInt (VInt 15) ''ingest'')
       \<lparr>sd_minimum := Some 5, sd_maximum := Some 600, sd_requires := Some ''ingest.enabled''\<rparr>,
     (setting ''ingest.camera_filter'' TSelect (VStr ''both'') ''ingest'')
       \<lparr>sd_choices := [''both'', ''camera_0'', ''camera_1''], sd_requires := Some ''ingest.enabled''\<rparr>,
     (setting ''ingest.transfer_order'' TSelect (VStr ''oldest_first'') ''ingest'')
       \<lparr>sd_choices := [''oldest_first'', ''newest_first''], sd_requires := Some ''ingest.enabled''\<rparr>,
     (setting ''ingest.show_on_unit'' TBool (VBool False) ''ingest'')
       \<lparr>sd_requires := Some ''ingest.enabled''\<rparr>,
     (setting ''ingest.hold_page_foreground'' TBool (VBool True) ''ingest'')
       \<lparr>sd_requires := Some ''ingest.show_on_unit''\<rparr>]"

definition INGEST_SETTINGS_2 :: "setting_def list" where
  "INGEST_SETTINGS_2 =
    [(setting ''ingest.carplay_timing'' TBool (VBool True) ''ingest'')
       \<lparr>sd_requires := Some ''ingest.unit_logs''\<rparr>,
     (setting ''ingest.carplay_timing_interval_s'' TInt (VInt 15) ''ingest'')
       \<lparr>sd_minimum := Some 5, sd_maximum := Some 120, sd_requires := Some ''ingest.carplay_timing''\<rparr>,
     (setting ''ingest.carplay_codec_trace_until_unix_s'' TInt (VInt 0) ''ingest'')
       \<lparr>sd_minimum := Some 0, sd_maximum := Some 253402300799, sd_read_only := True, sd_hidden := True\<rparr>,
     (setting ''ingest.unit_display_url'' TString (VStr '''') ''ingest'')
       \<lparr>sd_requires := Some ''ingest.show_on_unit''\<rparr>,
     (setting ''ingest.learned_origin'' TString (VStr '''') ''ingest'')
       \<lparr>sd_read_only := True, sd_requires := Some ''ingest.show_on_unit''\<rparr>,
     (setting ''ingest.include_locked'' TBool (VBool True) ''ingest'')
       \<lparr>sd_requires := Some ''ingest.enabled''\<rparr>,
     (setting ''ingest.skip_parked_footage'' TBool (VBool False) ''ingest'')
       \<lparr>sd_requires := Some ''ingest.enabled''\<rparr>,
     (setting ''ingest.sweep_passes'' TInt (VInt 2) ''ingest'')
       \<lparr>sd_minimum := Some 0, sd_maximum := Some 10, sd_requires := Some ''ingest.enabled''\<rparr>,
     (setting ''ingest.rescue_partials'' TBool (VBool True) ''ingest'')
       \<lparr>sd_requires := Some ''ingest.enabled''\<rparr>,
     (setting ''ingest.redrain_cooldown_s'' TInt (VInt 60) ''ingest'')
       \<lparr>sd_minimum := Some 0, sd_maximum := Some 600, sd_requires := Some ''ingest.enabled''\<rparr>]"

definition INGEST_SETTINGS_3 :: "setting_def list" where
  "INGEST_SETTINGS_3 =
    [(setting ''ingest.max_backups_per_visit'' TInt (VInt 2) ''ingest'')
       \<lparr>sd_minimum := Some 0, sd_maximum := Some 50, sd_requires := Some ''ingest.enabled''\<rparr>,
     (setting ''ingest.min_uptime_s'' TInt (VInt 120) ''ingest'')
       \<lparr>sd_minimum := Some 0, sd_maximum := Some 3600, sd_requires := Some ''ingest.enabled''\<rparr>,
     (setting ''ingest.only_when_parked'' TBool (VBool True) ''ingest'')
       \<lparr>sd_requires := Some ''ingest.enabled''\<rparr>,
     (setting ''ingest.quiet_radios'' TBool (VBool False) ''ingest'')
       \<lparr>sd_requires := Some ''ingest.enabled''\<rparr>,
     (setting ''ingest.zlink_hotspot_rearm'' TBool (VBool False) ''ingest'')
       \<lparr>sd_requires := Some ''ingest.quiet_radios''\<rparr>,
     (setting ''ingest.unit_health_watch'' TBool (VBool True) ''ingest'')
       \<lparr>sd_requires := Some ''ingest.enabled''\<rparr>,
     (setting ''ingest.unit_health_fix'' TBool (VBool True) ''ingest'')
       \<lparr>sd_requires := Some ''ingest.unit_health_watch''\<rparr>,
     (setting ''ingest.unit_health'' TString (VStr '''') ''ingest'')
       \<lparr>sd_read_only := True, sd_requires := Some ''ingest.unit_health_watch''\<rparr>]"

definition INGEST_SETTINGS_4 :: "setting_def list" where
  "INGEST_SETTINGS_4 =
    [(setting ''ingest.unit_logs'' TBool (VBool True) ''ingest'')
       \<lparr>sd_requires := Some ''ingest.enabled''\<rparr>,
     (setting ''ingest.unit_log_silenced_tags'' TString (VStr '''') ''ingest'')
       \<lparr>sd_requires := Some ''ingest.unit_logs''\<rparr>,
     (setting ''ingest.unit_log_allowed_tags'' TString (VStr '''') ''ingest'')
       \<lparr>sd_requires := Some ''ingest.unit_logs''\<rparr>,
     (setting ''ingest.unit_log_windowmanager_errors'' TBool (VBool False) ''ingest'')
       \<lparr>sd_requires := Some ''ingest.unit_logs''\<rparr>,
     (setting ''ingest.unit_log_status'' TString (VStr '''') ''ingest'')
       \<lparr>sd_read_only := True, sd_requires := Some ''ingest.unit_logs''\<rparr>,
     (setting ''ingest.radios_pending_restore'' TString (VStr '''') ''ingest'')
       \<lparr>sd_read_only := True, sd_requires := Some ''ingest.quiet_radios''\<rparr>,
     (setting ''ingest.adb_root'' TBool (VBool False) ''ingest'')
       \<lparr>sd_dangerous := True, sd_requires := Some ''ingest.quiet_radios''\<rparr>,
     (setting ''ingest.adb_root_state'' TString (VStr '''') ''ingest'')
       \<lparr>sd_read_only := True, sd_requires := Some ''ingest.adb_root''\<rparr>,
     (setting ''ingest.hotspot_refusal'' TString (VStr '''') ''ingest'')
       \<lparr>sd_read_only := True, sd_requires := Some ''ingest.quiet_radios''\<rparr>,
     (setting ''ingest.wifi_band'' TSelect (VStr ''any'') ''ingest'')
       \<lparr>sd_choices := [''any'', ''prefer_5ghz'', ''require_5ghz''], sd_requires := Some ''ingest.enabled''\<rparr>]"

definition INGEST_SETTINGS_5 :: "setting_def list" where
  "INGEST_SETTINGS_5 =
    [(setting ''ingest.unifi_enabled'' TBool (VBool False) ''ingest'')
       \<lparr>sd_requires := Some ''ingest.enabled''\<rparr>,
     (setting ''ingest.unifi_url'' TString (VStr '''') ''ingest'')
       \<lparr>sd_requires := Some ''ingest.unifi_enabled''\<rparr>,
     (setting ''ingest.unifi_site'' TString (VStr ''default'') ''ingest'')
       \<lparr>sd_requires := Some ''ingest.unifi_enabled''\<rparr>,
     (setting ''ingest.unifi_verify_tls'' TBool (VBool False) ''ingest'')
       \<lparr>sd_requires := Some ''ingest.unifi_enabled''\<rparr>,
     (setting ''ingest.wifi_selection_nudge'' TBool (VBool True) ''ingest'')
       \<lparr>sd_requires := Some ''ingest.enabled''\<rparr>,
     (setting ''ingest.manage_sleep_window'' TBool (VBool True) ''ingest'')
       \<lparr>sd_read_only := True\<rparr>,
     (setting ''ingest.sleep_window_s'' TInt (VInt INGEST_SLEEP_WINDOW_ACTIVE_SECONDS) ''ingest'')
       \<lparr>sd_minimum := Some (real_of_int INGEST_SLEEP_WINDOW_ACTIVE_SECONDS), sd_maximum := Some (real_of_int INGEST_SLEEP_WINDOW_ACTIVE_SECONDS), sd_read_only := True\<rparr>,
     (setting ''ingest.sleep_window_idle_s'' TInt (VInt INGEST_SLEEP_WINDOW_IDLE_SECONDS) ''ingest'')
       \<lparr>sd_minimum := Some (real_of_int INGEST_SLEEP_WINDOW_IDLE_SECONDS), sd_maximum := Some (real_of_int INGEST_SLEEP_WINDOW_IDLE_SECONDS), sd_read_only := True\<rparr>,
     (setting ''ingest.delete_after_verify'' TBool (VBool False) ''ingest'')
       \<lparr>sd_dangerous := True, sd_requires := Some ''ingest.enabled''\<rparr>,
     (setting ''ingest.min_free_gb'' TFloat (VFloat (Fin 5)) ''ingest'')
       \<lparr>sd_minimum := Some 0, sd_maximum := Some 2000, sd_requires := Some ''ingest.enabled''\<rparr>,
     (setting ''ingest.chunk_size'' TInt (VInt 5) ''ingest'')
       \<lparr>sd_minimum := Some 1, sd_maximum := Some 50, sd_requires := Some ''ingest.enabled''\<rparr>]"

definition INGEST_SETTINGS_6 :: "setting_def list" where
  "INGEST_SETTINGS_6 =
    [(setting ''ingest.commit_queue_depth'' TInt (VInt 2) ''ingest'')
       \<lparr>sd_minimum := Some 1, sd_maximum := Some 10, sd_requires := Some ''ingest.enabled''\<rparr>,
     (setting ''ingest.hand_screen_back'' TBool (VBool True) ''ingest'')
       \<lparr>sd_requires := Some ''ingest.show_on_unit''\<rparr>,
     (setting ''ingest.webhook_url'' TString (VStr '''') ''ingest'')
       \<lparr>sd_requires := Some ''ingest.enabled''\<rparr>,
     (setting ''ingest.mqtt_enabled'' TBool (VBool False) ''ingest'')
       \<lparr>sd_requires := Some ''ingest.enabled''\<rparr>,
     (setting ''ingest.mqtt_host'' TString (VStr '''') ''ingest'')
       \<lparr>sd_requires := Some ''ingest.mqtt_enabled''\<rparr>,
     (setting ''ingest.mqtt_port'' TInt (VInt 1883) ''ingest'')
       \<lparr>sd_minimum := Some 1, sd_maximum := Some 65535, sd_requires := Some ''ingest.mqtt_enabled''\<rparr>,
     (setting ''ingest.mqtt_user'' TString (VStr '''') ''ingest'')
       \<lparr>sd_requires := Some ''ingest.mqtt_enabled''\<rparr>,
     (setting ''ingest.mqtt_pass'' TString (VStr '''') ''ingest'')
       \<lparr>sd_requires := Some ''ingest.mqtt_enabled''\<rparr>,
     (setting ''ingest.mqtt_base_topic'' TString (VStr ''dashcam/backup'') ''ingest'')
       \<lparr>sd_requires := Some ''ingest.mqtt_enabled''\<rparr>]"

definition CATALOGUE :: "string \<Rightarrow> setting_def list" where
  "CATALOGUE tz = GENERAL_SETTINGS tz @
     SCANNER_SETTINGS @
     PROCESSING_SETTINGS @
     EVENTS_SETTINGS @
     TELEMETRY_SETTINGS @
     PLATES_SETTINGS @
     JOURNEYS_SETTINGS @
     STORAGE_SETTINGS_1 @
     STORAGE_SETTINGS_2 @
     MAPS_SETTINGS @
     SECURITY_SETTINGS @
     ADVANCED_SETTINGS @
     INGEST_SETTINGS_1 @
     INGEST_SETTINGS_2 @
     INGEST_SETTINGS_3 @
     INGEST_SETTINGS_4 @
     INGEST_SETTINGS_5 @
     INGEST_SETTINGS_6"

end
