(* ===== verification/Paths.thy ===== *)
theory Paths
  imports Prelude "HOL-Library.Sublist"
begin

section \<open>Path containment and the measurement cache\<close>

text \<open>
  Models \<^verbatim>\<open>backend/app/core/paths.py\<close> on the deployment's POSIX paths (\<^verbatim>\<open>normcase\<close> is the
  identity, the separator is a slash). A path is its text. \<^verbatim>\<open>Path.resolve\<close> asks the
  filesystem and is the parameter \<open>resolve\<close>; \<open>None\<close> is an \<^verbatim>\<open>OSError\<close>.
\<close>

subsection \<open>Validation of a supplied part\<close>

datatype path_error =
    NulByte | AbsolutePath | DriveQualified | ParentTraversal | RootUnresolvable
  | Unresolvable | Escapes

definition is_sep :: "char \<Rightarrow> bool" where
  "is_sep c \<longleftrightarrow> c = CHR ''/'' \<or> c = CHR 0x5C"

text \<open>
  \<^verbatim>\<open>_SEPARATORS.split\<close>. A run of separators is split at each of them here, which only
  adds empty segments, and those are skipped.
\<close>

fun split_seps :: "string \<Rightarrow> string list" where
  "split_seps [] = [[]]"
| "split_seps (c # cs) =
     (if is_sep c then [] # split_seps cs
      else case split_seps cs of [] \<Rightarrow> [[c]] | w # ws \<Rightarrow> (c # w) # ws)"

text \<open>\<^verbatim>\<open>PureWindowsPath(raw).drive\<close> of a text that does not start with a separator.\<close>

definition has_drive :: "string \<Rightarrow> bool" where
  "has_drive raw \<longleftrightarrow> (case raw of _ # c # _ \<Rightarrow> c = CHR '':'' | _ \<Rightarrow> False)"

fun collect_segments :: "string list \<Rightarrow> path_error + string list" where
  "collect_segments [] = Inr []"
| "collect_segments (s # ss) =
     (if s = [] \<or> s = ''.'' then collect_segments ss
      else if s = ''..'' then Inl ParentTraversal
      else case collect_segments ss of Inl e \<Rightarrow> Inl e | Inr r \<Rightarrow> Inr (s # r))"

definition validate_part :: "string \<Rightarrow> path_error + string list" where
  "validate_part raw =
     (if CHR 0x00 \<in> set raw then Inl NulByte
      else if raw \<noteq> [] \<and> is_sep (hd raw) then Inl AbsolutePath
      else if has_drive raw then Inl DriveQualified
      else collect_segments (split_seps raw))"

fun validate_parts :: "string list \<Rightarrow> path_error + string list" where
  "validate_parts [] = Inr []"
| "validate_parts (p # ps) =
     (case validate_part p of
        Inl e \<Rightarrow> Inl e
      | Inr s \<Rightarrow> (case validate_parts ps of Inl e \<Rightarrow> Inl e | Inr r \<Rightarrow> Inr (s @ r)))"

subsection \<open>Containment\<close>

definition ends_with_sep :: "string \<Rightarrow> bool" where
  "ends_with_sep p \<longleftrightarrow> p \<noteq> [] \<and> last p = CHR ''/''"

definition with_sep :: "string \<Rightarrow> string" where
  "with_sep p = (if ends_with_sep p then p else p @ ''/'')"

definition path_contains :: "string \<Rightarrow> string \<Rightarrow> bool" where
  "path_contains base candidate \<longleftrightarrow>
     base = candidate \<or> starts_with (with_sep base) candidate"

fun joinpath :: "string \<Rightarrow> string list \<Rightarrow> string" where
  "joinpath p [] = p"
| "joinpath p (s # ss) = joinpath (with_sep p @ s) ss"

definition safe_join :: "(string \<Rightarrow> string option) \<Rightarrow> string \<Rightarrow> string list \<Rightarrow> path_error + string" where
  "safe_join resolve base parts =
     (case resolve base of
        None \<Rightarrow> Inl RootUnresolvable
      | Some base_resolved \<Rightarrow>
          (case validate_parts parts of
             Inl e \<Rightarrow> Inl e
           | Inr segments \<Rightarrow>
               (case resolve (joinpath base_resolved segments) of
                  None \<Rightarrow> Inl Unresolvable
                | Some resolved \<Rightarrow>
                    if path_contains base_resolved resolved then Inr resolved else Inl Escapes)))"

definition is_within :: "(string \<Rightarrow> string option) \<Rightarrow> string \<Rightarrow> string \<Rightarrow> bool" where
  "is_within resolve base candidate =
     (case (resolve base, resolve candidate) of
        (Some r, Some c) \<Rightarrow> path_contains r c
      | _ \<Rightarrow> False)"

text \<open>
  \<^verbatim>\<open>_relative_to\<close>, whose \<open>base\<close> is already resolved: the text behind the base, less its
  leading separators.
\<close>

definition relative_to :: "(string \<Rightarrow> string option) \<Rightarrow> string \<Rightarrow> string \<Rightarrow> path_error + string" where
  "relative_to resolve base p =
     (case resolve p of
        None \<Rightarrow> Inl Unresolvable
      | Some resolved \<Rightarrow>
          if \<not> path_contains base resolved \<or> resolved = base then Inl Escapes
          else Inr (dropWhile (\<lambda>c. c = CHR ''/'') (drop (length base) resolved)))"

subsection \<open>What a resolved path looks like\<close>

definition good_segment :: "string \<Rightarrow> bool" where
  "good_segment s \<longleftrightarrow> s \<noteq> [] \<and> s \<noteq> ''.'' \<and> s \<noteq> ''..'' \<and> CHR ''/'' \<notin> set s"

definition plain_segment :: "string \<Rightarrow> bool" where
  "plain_segment s \<longleftrightarrow> good_segment s \<and> CHR 0x5C \<notin> set s \<and> CHR 0x00 \<notin> set s"

text \<open>\<open>abs_path\<close> is the text of the path with these segments, \<open>below base segs\<close> of one under it.\<close>

definition slashed :: "string list \<Rightarrow> string" where
  "slashed segs = concat (List.map (\<lambda>s. CHR ''/'' # s) segs)"

definition abs_path :: "string list \<Rightarrow> string" where
  "abs_path segs = (if segs = [] then ''/'' else slashed segs)"

lemma slashed_simps [simp]:
  "slashed [] = []" "slashed (s # ss) = CHR ''/'' # s @ slashed ss"
  "slashed (a @ b) = slashed a @ slashed b"
  by (simp_all add: slashed_def)

lemma slashed_eq_Nil [simp]: "slashed a = [] \<longleftrightarrow> a = []"
  by (cases a) simp_all

lemma segment_take_drop:
  "CHR ''/'' \<notin> set a \<Longrightarrow> u = [] \<or> hd u = CHR ''/'' \<Longrightarrow>
    takeWhile (\<lambda>c. c \<noteq> CHR ''/'') (a @ u) = a \<and> dropWhile (\<lambda>c. c \<noteq> CHR ''/'') (a @ u) = u"
proof (induction a)
  case Nil
  then show ?case by (cases u) auto
next
  case (Cons c a)
  then show ?case by auto
qed

lemma segment_split:
  assumes "CHR ''/'' \<notin> set a" and "CHR ''/'' \<notin> set b"
    and "u = [] \<or> hd u = CHR ''/''" and "v = [] \<or> hd v = CHR ''/''"
    and "a @ u = b @ v"
  shows "a = b \<and> u = v"
  using segment_take_drop [OF assms(1,3)] segment_take_drop [OF assms(2,4)] assms(5) by metis

lemma slashed_hd: "slashed a = [] \<or> hd (slashed a) = CHR ''/''"
  by (cases a) simp_all

lemma slashed_prefix:
  assumes "\<forall>s \<in> set a. good_segment s" and "\<forall>s \<in> set b. good_segment s"
    and "slashed b = slashed a @ u" and "u = [] \<or> hd u = CHR ''/''"
  shows "prefix a b \<and> u = slashed (drop (length a) b)"
  using assms
proof (induction a arbitrary: b)
  case (Cons s a)
  then obtain t b' where b: "b = t # b'" by (cases b) auto
  have "t @ slashed b' = s @ (slashed a @ u)" using Cons.prems(3) b by simp
  moreover have "slashed a @ u = [] \<or> hd (slashed a @ u) = CHR ''/''"
    using slashed_hd [of a] Cons.prems(4) by (cases "slashed a = []") auto
  moreover have "CHR ''/'' \<notin> set s" "CHR ''/'' \<notin> set t"
    using Cons.prems(1,2) b by (auto simp: good_segment_def)
  ultimately have "t = s" "slashed b' = slashed a @ u"
    using segment_split [of t s "slashed b'" "slashed a @ u"] slashed_hd [of b'] by auto
  with Cons.IH [of b'] Cons.prems b show ?case by auto
qed simp

lemma ends_with_sep_slashed:
  assumes "\<forall>s \<in> set a. good_segment s"
  shows "\<not> ends_with_sep (slashed a)"
proof (cases a rule: rev_cases)
  case (snoc b s)
  then have "s \<noteq> []" "CHR ''/'' \<notin> set s" using assms by (simp_all add: good_segment_def)
  then have "last s \<noteq> CHR ''/''" by (metis last_in_set)
  with snoc \<open>s \<noteq> []\<close> show ?thesis by (simp add: ends_with_sep_def)
qed (simp add: ends_with_sep_def)

lemma with_sep_abs_path:
  assumes "\<forall>s \<in> set a. good_segment s"
  shows "with_sep (abs_path a) = slashed a @ ''/''"
proof (cases "a = []")
  case True
  then show ?thesis by (simp add: with_sep_def abs_path_def ends_with_sep_def)
next
  case False
  with ends_with_sep_slashed [OF assms] show ?thesis by (simp add: with_sep_def abs_path_def)
qed

lemma starts_with_iff: "starts_with p s \<longleftrightarrow> (\<exists>u. s = p @ u)"
  by (auto simp: starts_with_def) (metis append_take_drop_id)

text \<open>The textual test is containment of directories: no sibling whose name merely starts alike.\<close>

lemma path_contains_abs_path:
  assumes "\<forall>s \<in> set a. good_segment s" and "\<forall>s \<in> set b. good_segment s"
  shows "path_contains (abs_path a) (abs_path b) \<longleftrightarrow> prefix a b"
proof
  assume "path_contains (abs_path a) (abs_path b)"
  then consider "abs_path a = abs_path b" | u where "abs_path b = slashed a @ CHR ''/'' # u"
    by (auto simp: path_contains_def starts_with_iff with_sep_abs_path [OF assms(1)])
  then show "prefix a b"
  proof cases
    case 1
    show ?thesis
    proof (cases "a = [] \<or> b = []")
      case True
      with 1 assms show ?thesis
        by (cases a; cases b) (auto simp: abs_path_def good_segment_def)
    next
      case False
      with 1 slashed_prefix [OF assms, of "[]"] show ?thesis by (simp add: abs_path_def)
    qed
  next
    case 2
    show ?thesis
    proof (cases "b = []")
      case True
      with 2 have "a = []" by (cases a) (auto simp: abs_path_def)
      then show ?thesis by simp
    next
      case False
      with 2 slashed_prefix [OF assms, of "CHR ''/'' # u"] show ?thesis by (simp add: abs_path_def)
    qed
  qed
next
  assume "prefix a b"
  then obtain c where c: "b = a @ c" by (auto simp: prefix_def)
  show "path_contains (abs_path a) (abs_path b)"
  proof (cases c)
    case (Cons s c')
    then have "abs_path b = with_sep (abs_path a) @ s @ slashed c'"
      using c with_sep_abs_path [OF assms(1)] by (simp add: abs_path_def)
    then show ?thesis by (auto simp: path_contains_def starts_with_iff)
  qed (simp add: path_contains_def c)
qed

lemma joinpath_abs_path:
  "\<forall>s \<in> set (a @ b). good_segment s \<Longrightarrow> joinpath (abs_path a) b = abs_path (a @ b)"
proof (induction b arbitrary: a)
  case (Cons s b)
  have "with_sep (abs_path a) @ s = abs_path (a @ [s])"
    using Cons.prems with_sep_abs_path [of a] by (simp add: abs_path_def)
  then show ?case using Cons.IH [of "a @ [s]"] Cons.prems by simp
qed simp

subsection \<open>Validated parts\<close>

lemma split_seps_not_Nil [simp]: "split_seps s \<noteq> []"
  by (induction s) (auto split: list.splits)

lemma split_seps_clean: "w \<in> set (split_seps s) \<Longrightarrow> c \<in> set w \<Longrightarrow> \<not> is_sep c \<and> c \<in> set s"
proof (induction s arbitrary: w)
  case (Cons a s)
  then show ?case by (fastforce split: if_splits list.splits)
qed simp

lemma collect_segments_eq:
  "collect_segments ss = (if ''..'' \<in> set ss then Inl ParentTraversal
     else Inr (filter (\<lambda>s. s \<noteq> [] \<and> s \<noteq> ''.'') ss))"
  by (induction ss) auto

lemma validate_part_Inr:
  "validate_part raw = Inr segs \<longleftrightarrow>
     CHR 0x00 \<notin> set raw \<and> (raw = [] \<or> \<not> is_sep (hd raw)) \<and> \<not> has_drive raw \<and>
     ''..'' \<notin> set (split_seps raw) \<and>
     segs = filter (\<lambda>s. s \<noteq> [] \<and> s \<noteq> ''.'') (split_seps raw)"
  by (auto simp: validate_part_def collect_segments_eq)

lemma validate_part_plain: "validate_part raw = Inr segs \<Longrightarrow> s \<in> set segs \<Longrightarrow> plain_segment s"
  using split_seps_clean [of s raw]
  by (fastforce simp: validate_part_Inr plain_segment_def good_segment_def is_sep_def)

lemma validate_parts_plain: "validate_parts ps = Inr segs \<Longrightarrow> s \<in> set segs \<Longrightarrow> plain_segment s"
  by (induction ps arbitrary: segs) (auto dest: validate_part_plain split: sum.splits)

lemma split_seps_segment:
  "\<forall>c \<in> set s. \<not> is_sep c \<Longrightarrow> split_seps s = [s]"
  by (induction s) auto

lemma split_seps_append:
  "\<forall>c \<in> set s. \<not> is_sep c \<Longrightarrow> split_seps (s @ CHR ''/'' # w) = s # split_seps w"
  by (induction s) (auto simp: is_sep_def)

lemma plain_no_sep: "plain_segment s \<Longrightarrow> \<forall>c \<in> set s. \<not> is_sep c"
  by (auto simp: plain_segment_def good_segment_def is_sep_def)

text \<open>The portable text of the path below a base.\<close>

definition rel_path :: "string list \<Rightarrow> string" where
  "rel_path segs = tl (slashed segs)"

lemma split_rel_path:
  "segs \<noteq> [] \<Longrightarrow> \<forall>s \<in> set segs. plain_segment s \<Longrightarrow> split_seps (rel_path segs) = segs"
proof (induction segs)
  case (Cons s segs)
  have clean: "\<forall>c \<in> set s. \<not> is_sep c" using Cons.prems(2) plain_no_sep [of s] by simp
  show ?case
  proof (cases segs)
    case Nil
    with split_seps_segment [OF clean] show ?thesis by (simp add: rel_path_def)
  next
    case (Cons t ts)
    then have "rel_path (s # segs) = s @ CHR ''/'' # rel_path segs" by (simp add: rel_path_def)
    with Cons.IH Cons.prems Cons split_seps_append [OF clean] show ?thesis by simp
  qed
qed simp

lemma validate_rel_path:
  assumes "segs \<noteq> []" and "\<forall>s \<in> set segs. plain_segment s" and "\<not> has_drive (rel_path segs)"
  shows "validate_part (rel_path segs) = Inr segs"
proof -
  have ok: "s \<noteq> [] \<and> s \<noteq> ''.'' \<and> s \<noteq> ''..''" if "s \<in> set segs" for s
    using assms(2) that by (auto simp: plain_segment_def good_segment_def)
  then have "filter (\<lambda>s. s \<noteq> [] \<and> s \<noteq> ''.'') segs = segs" "''..'' \<notin> set segs"
    by (auto intro: filter_True)
  moreover have "CHR 0x00 \<notin> set (slashed segs)"
    using assms(2) by (auto simp: slashed_def plain_segment_def)
  then have "CHR 0x00 \<notin> set (rel_path segs)"
    unfolding rel_path_def by (metis list.set_sel(2) tl_Nil)
  moreover have "\<not> is_sep (hd (rel_path segs))"
  proof -
    obtain s ss where s: "segs = s # ss" using assms(1) by (cases segs) auto
    have ne: "s \<noteq> []" and "\<forall>c \<in> set s. \<not> is_sep c"
      using assms(2) s plain_no_sep [of s] ok [of s] by simp_all
    then have "\<not> is_sep (hd s)" by simp
    with s ne show ?thesis by (simp add: rel_path_def)
  qed
  ultimately show ?thesis
    using split_rel_path [OF assms(1,2)] assms(3) by (simp add: validate_part_Inr)
qed

subsection \<open>Joining is confined\<close>

text \<open>
  \<^verbatim>\<open>Path.resolve\<close>: the answer is an absolute path without empty, dot or dot-dot segments.
\<close>

definition normal_resolver :: "(string \<Rightarrow> string option) \<Rightarrow> bool" where
  "normal_resolver resolve \<longleftrightarrow>
     (\<forall>p q. resolve p = Some q \<longrightarrow> (\<exists>segs. q = abs_path segs \<and> (\<forall>s \<in> set segs. good_segment s)))"

text \<open>C7: whatever the caller supplies and wherever the links of the share point, a path
  that \<^verbatim>\<open>safe_join\<close> returns is the base directory or lies beneath it, segment by segment;
  a sibling directory whose name merely begins like the base's is never reached.\<close>

theorem safe_join_confined:
  assumes "normal_resolver resolve"
    and "safe_join resolve base parts = Inr p"
  shows "\<exists>b q. resolve base = Some (abs_path b) \<and> p = abs_path q \<and> prefix b q \<and>
    (\<forall>s \<in> set q. good_segment s)"
proof -
  obtain r segs where r: "resolve base = Some r" "validate_parts parts = Inr segs"
      "resolve (joinpath r segs) = Some p" "path_contains r p"
    using assms(2) by (auto simp: safe_join_def split: option.splits sum.splits if_splits)
  obtain b where b: "r = abs_path b" "\<forall>s \<in> set b. good_segment s"
    using assms(1) r(1) unfolding normal_resolver_def by blast
  obtain q where q: "p = abs_path q" "\<forall>s \<in> set q. good_segment s"
    using assms(1) r(3) unfolding normal_resolver_def by blast
  show ?thesis using path_contains_abs_path [OF b(2) q(2)] r(1,4) b q by blast
qed

text \<open>A tree without links: a normal path resolves to itself.\<close>

definition link_free :: "(string \<Rightarrow> string option) \<Rightarrow> bool" where
  "link_free resolve \<longleftrightarrow>
     (\<forall>segs. (\<forall>s \<in> set segs. good_segment s) \<longrightarrow> resolve (abs_path segs) = Some (abs_path segs))"

lemma safe_join_link_free:
  assumes "link_free resolve" and "\<forall>s \<in> set b. good_segment s" and "validate_parts parts = Inr segs"
  shows "safe_join resolve (abs_path b) parts = Inr (abs_path (b @ segs))"
proof -
  have good: "\<forall>s \<in> set (b @ segs). good_segment s"
    using assms(2) validate_parts_plain [OF assms(3)] by (auto simp: plain_segment_def)
  then have "path_contains (abs_path b) (abs_path (b @ segs))"
    using path_contains_abs_path [OF assms(2) good] by simp
  with good assms show ?thesis
    by (simp add: safe_join_def link_free_def joinpath_abs_path)
qed

lemma slashed_rel_path: "segs \<noteq> [] \<Longrightarrow> slashed segs = CHR ''/'' # rel_path segs"
  unfolding rel_path_def by (cases segs) (simp_all only: slashed_simps list.sel)

lemma drop_abs_path:
  assumes "segs \<noteq> []"
  shows "dropWhile (\<lambda>c. c = CHR ''/'') (drop (length (abs_path b)) (abs_path (b @ segs))) =
    dropWhile (\<lambda>c. c = CHR ''/'') (rel_path segs)"
proof (cases "b = []")
  case True
  then show ?thesis using assms by (simp add: abs_path_def slashed_rel_path del: slashed_simps(2))
next
  case False
  then have "drop (length (abs_path b)) (abs_path (b @ segs)) = slashed segs"
    by (simp add: abs_path_def)
  then show ?thesis using assms by (simp add: slashed_rel_path del: slashed_simps(2))
qed

text \<open>The stored form of a path and its reading are inverse: what \<^verbatim>\<open>relative_to\<close> writes
  for a file beneath the base, \<^verbatim>\<open>safe_join\<close> turns back into the same file. The names must be
  ones the reader accepts: no backslash, no NUL, no drive-like start.\<close>

theorem relative_to_roundtrip:
  assumes "link_free resolve" and "\<forall>s \<in> set b. good_segment s"
    and "segs \<noteq> []" and "\<forall>s \<in> set segs. plain_segment s" and "\<not> has_drive (rel_path segs)"
  shows "\<exists>rel. relative_to resolve (abs_path b) (abs_path (b @ segs)) = Inr rel \<and>
    safe_join resolve (abs_path b) [rel] = Inr (abs_path (b @ segs))"
proof -
  have good: "\<forall>s \<in> set (b @ segs). good_segment s"
    using assms(2,4) by (auto simp: plain_segment_def)
  have ne: "abs_path (b @ segs) \<noteq> abs_path b"
    using path_contains_abs_path [OF good assms(2)] assms(3)
    by (auto simp: path_contains_def)
  obtain s ss where s: "segs = s # ss" using assms(3) by (cases segs) auto
  have "plain_segment s" using assms(4) s by simp
  then have "s \<noteq> []" "CHR ''/'' \<notin> set s" by (simp_all add: plain_segment_def good_segment_def)
  then have "hd s \<noteq> CHR ''/''" by (metis list.set_sel(1))
  with \<open>s \<noteq> []\<close> have "dropWhile (\<lambda>c. c = CHR ''/'') (rel_path segs) = rel_path segs"
    using s by (cases s) (auto simp: rel_path_def)
  then have "relative_to resolve (abs_path b) (abs_path (b @ segs)) = Inr (rel_path segs)"
    using assms(1) good ne path_contains_abs_path [OF assms(2) good]
      drop_abs_path [OF assms(3), of b]
    by (simp add: relative_to_def link_free_def)
  moreover have "validate_parts [rel_path segs] = Inr segs"
    using validate_rel_path [OF assms(3-5)] by simp
  ultimately show ?thesis using safe_join_link_free [OF assms(1,2)] by blast
qed

definition sample_resolve :: "string \<Rightarrow> string option" where
  "sample_resolve p =
     (if p = ''/share'' then Some ''/share''
      else if p = ''/share/trip/a.ts'' then Some ''/share/trip/a.ts''
      else if p = ''/share/link'' then Some ''/share2/secret'' else None)"

lemma sample_paths:
  "''/share'' = abs_path [''share'']"
  "''/share/trip/a.ts'' = abs_path [''share'', ''trip'', ''a.ts'']"
  "''/share2/secret'' = abs_path [''share2'', ''secret'']"
  by (simp_all add: abs_path_def)

lemma sample_resolve_normal: "normal_resolver sample_resolve"
  unfolding normal_resolver_def sample_resolve_def sample_paths
  by (auto simp: good_segment_def split: if_splits intro!: exI)

lemma safe_join_confined_witness:
  "safe_join sample_resolve ''/share'' [''link''] = Inl Escapes \<and>
   (\<exists>p b q. safe_join sample_resolve ''/share'' [''trip//./a.ts''] = Inr p \<and>
      sample_resolve ''/share'' = Some (abs_path b) \<and> p = abs_path q \<and> prefix b q \<and>
      (\<forall>s \<in> set q. good_segment s))"
proof -
  have "safe_join sample_resolve ''/share'' [''trip//./a.ts''] = Inr ''/share/trip/a.ts''"
    and "safe_join sample_resolve ''/share'' [''link''] = Inl Escapes"
    by code_simp+
  with safe_join_confined [OF sample_resolve_normal this(1)] show ?thesis by blast
qed

lemma relative_to_roundtrip_witness:
  "\<exists>rel. relative_to Some (abs_path [''share'']) (abs_path [''share'', ''trip'', ''a.ts'']) = Inr rel \<and>
    safe_join Some (abs_path [''share'']) [rel] = Inr (abs_path [''share'', ''trip'', ''a.ts''])"
  using relative_to_roundtrip [of Some "[''share'']" "[''trip'', ''a.ts'']"]
  by (simp add: link_free_def good_segment_def plain_segment_def has_drive_def rel_path_def)

end
