(* ===== verification/Settings.thy ===== *)
theory Settings
  imports SettingsSchema Paths
begin

section \<open>Validation and storage of settings\<close>

text \<open>
  Models \<^verbatim>\<open>backend/app/core/settings_service.py\<close>: the coercion of a raw value to what
  its definition allows, and the service, a cache over the table \<^verbatim>\<open>app_settings\<close> with
  subscribers. Writers are serial (the write lock); a write validates before it takes the lock,
  and only constants and the state of the account enter the validation. Decimal literals are
  read exactly; a literal or an integer past the largest float overflows as in Python. What the
  code takes from elsewhere is in \<open>settings_env\<close>.
\<close>

subsection \<open>Parameters and errors\<close>

record settings_env =
  se_timezone :: string
  se_expanduser :: "string \<Rightarrow> string"
  se_footage_root :: string
  se_resolve :: "string \<Rightarrow> string option"
  se_number_text :: "pyval \<Rightarrow> string option"
  se_account_exists :: bool

datatype setting_fault =
    ExpectedBoolean | ExpectedInteger | ExpectedWhole | ExpectedNumber | ExpectedFinite | ExpectedText
  | HoldsNullByte | NotAChoice | PathRequired | PathNotAbsolute | OutsideRoot | ExpectedByteSize
  | UnknownSizeUnit | ValueIsNull | UnknownSetting | SettingReadOnly | NeedsAccount

text \<open>\<^verbatim>\<open>SettingValidationError\<close>, the other exceptions of a coercion, and a failed commit.\<close>

datatype settings_error = InvalidSetting string setting_fault | OverflowError | DigitLimit | CommitFailed

subsection \<open>Numbers as text\<close>

definition FLOAT_LIMIT :: real where "FLOAT_LIMIT = 2 ^ 1024 - 2 ^ 970"

definition to_float :: "real \<Rightarrow> pynum" where
  "to_float x = (if FLOAT_LIMIT \<le> x then PosInf else if x \<le> - FLOAT_LIMIT then NegInf else Fin x)"

definition power_of_ten :: "int \<Rightarrow> real" where
  "power_of_ten n = (if 0 \<le> n then 10 ^ nat n else 1 / 10 ^ nat (- n))"

text \<open>The value of decimal digits.\<close>

definition digits_int :: "string \<Rightarrow> int" where
  "digits_int s = foldl (\<lambda>n c. n * 10 + digit_value c) 0 s"

definition exponent_of :: "string \<Rightarrow> int option" where
  "exponent_of s =
     (let (sign, body) = (case s of [] \<Rightarrow> (1, [])
                          | c # t \<Rightarrow> if c = CHR ''-'' then (- 1, t) else if c = CHR ''+'' then (1, t) else (1, s))
      in if body \<noteq> [] \<and> list_all is_digit body then Some (sign * digits_int body) else None)"

definition unsigned_float :: "string \<Rightarrow> real option" where
  "unsigned_float s =
     (let whole = takeWhile is_digit s; rest = dropWhile is_digit s;
          (part, rest) =
            (case rest of
               [] \<Rightarrow> ([], [])
             | c # t \<Rightarrow> if c = CHR ''.'' then (takeWhile is_digit t, dropWhile is_digit t) else ([], rest));
          mantissa = real_of_int (digits_int (whole @ part)) / 10 ^ length part
      in if whole = [] \<and> part = [] then None
         else case rest of
           [] \<Rightarrow> Some mantissa
         | c # t \<Rightarrow> if c = CHR ''e'' then map_option (\<lambda>n. mantissa * power_of_ten n) (exponent_of t) else None)"

definition py_float_of_string :: "string \<Rightarrow> pynum option" where
  "py_float_of_string s =
     (let t = lower (strip s);
          (negative, body) = (case t of [] \<Rightarrow> (False, [])
                              | c # u \<Rightarrow> if c = CHR ''-'' then (True, u) else if c = CHR ''+'' then (False, u) else (False, t))
      in if body = ''inf'' \<or> body = ''infinity'' then Some (if negative then NegInf else PosInf)
         else if body = ''nan'' then Some NotANumber
         else map_option (\<lambda>x. to_float (if negative then - x else x)) (unsigned_float body))"

definition INT_MAX_STR_DIGITS :: nat where "INT_MAX_STR_DIGITS = 4300"

definition py_int10 :: "string \<Rightarrow> int option" where
  "py_int10 s =
     (if INT_MAX_STR_DIGITS < length (filter is_digit s) then None
      else case py_int_of_string s of Inl _ \<Rightarrow> None | Inr n \<Rightarrow> Some n)"

definition token_of :: "string \<Rightarrow> string" where
  "token_of s = filter (\<lambda>c. c \<noteq> CHR ''_'' \<and> c \<noteq> CHR '','') (strip s)"

subsection \<open>Coercion\<close>

definition clamp :: "setting_def \<Rightarrow> real \<Rightarrow> real" where
  "clamp d v =
     (case sd_minimum d of
        Some lo \<Rightarrow> if v < lo then lo
                   else (case sd_maximum d of Some hi \<Rightarrow> if hi < v then hi else v | None \<Rightarrow> v)
      | None \<Rightarrow> (case sd_maximum d of Some hi \<Rightarrow> if hi < v then hi else v | None \<Rightarrow> v))"

definition TRUTHY :: "string list" where "TRUTHY = [''1'', ''true'', ''yes'', ''on'', ''y'', ''t'']"
definition FALSEY :: "string list" where "FALSEY = [''0'', ''false'', ''no'', ''off'', ''n'', ''f'']"

definition refuse :: "setting_def \<Rightarrow> setting_fault \<Rightarrow> settings_error + 'a" where
  "refuse d f = Inl (InvalidSetting (sd_key d) f)"

fun coerce_bool :: "setting_def \<Rightarrow> pyval \<Rightarrow> settings_error + pyval" where
  "coerce_bool d (VBool b) = Inr (VBool b)"
| "coerce_bool d (VInt n) =
     (if n = 0 then Inr (VBool False) else if n = 1 then Inr (VBool True) else refuse d ExpectedBoolean)"
| "coerce_bool d (VFloat (Fin x)) =
     (if x = 0 then Inr (VBool False) else if x = 1 then Inr (VBool True) else refuse d ExpectedBoolean)"
| "coerce_bool d (VStr s) =
     (let t = lower (strip s) in
      if t \<in> set TRUTHY then Inr (VBool True) else if t \<in> set FALSEY then Inr (VBool False)
      else refuse d ExpectedBoolean)"
| "coerce_bool d _ = refuse d ExpectedBoolean"

fun whole_of :: "setting_def \<Rightarrow> pynum \<Rightarrow> settings_error + int" where
  "whole_of d (Fin x) = (if x = real_of_int \<lfloor>x\<rfloor> then Inr \<lfloor>x\<rfloor> else refuse d ExpectedWhole)"
| "whole_of d _ = refuse d ExpectedWhole"

definition int_from_str :: "setting_def \<Rightarrow> string \<Rightarrow> settings_error + int" where
  "int_from_str d raw =
     (let t = token_of raw in
      if t = [] then refuse d ExpectedInteger
      else case py_int10 t of
        Some n \<Rightarrow> Inr n
      | None \<Rightarrow> (case py_float_of_string t of None \<Rightarrow> refuse d ExpectedInteger | Some x \<Rightarrow> whole_of d x))"

text \<open>\<^verbatim>\<open>float(n)\<close> of an integer, and \<^verbatim>\<open>int(_clamp(defn, float(value)))\<close>.\<close>

definition float_of_int :: "int \<Rightarrow> settings_error + real" where
  "float_of_int n = (case to_float (real_of_int n) of Fin x \<Rightarrow> Inr x | _ \<Rightarrow> Inl OverflowError)"

definition clamped_int :: "setting_def \<Rightarrow> int \<Rightarrow> settings_error + pyval" where
  "clamped_int d n = (case float_of_int n of Inl e \<Rightarrow> Inl e | Inr x \<Rightarrow> Inr (VInt (trunc_real (clamp d x))))"

fun coerce_int :: "setting_def \<Rightarrow> pyval \<Rightarrow> settings_error + pyval" where
  "coerce_int d (VInt n) = clamped_int d n"
| "coerce_int d (VFloat x) = (case whole_of d x of Inl e \<Rightarrow> Inl e | Inr n \<Rightarrow> clamped_int d n)"
| "coerce_int d (VStr s) = (case int_from_str d s of Inl e \<Rightarrow> Inl e | Inr n \<Rightarrow> clamped_int d n)"
| "coerce_int d _ = refuse d ExpectedInteger"

fun finite_clamped :: "setting_def \<Rightarrow> pynum \<Rightarrow> settings_error + pyval" where
  "finite_clamped d (Fin x) = Inr (VFloat (Fin (clamp d x)))"
| "finite_clamped d _ = refuse d ExpectedFinite"

fun coerce_float :: "setting_def \<Rightarrow> pyval \<Rightarrow> settings_error + pyval" where
  "coerce_float d (VInt n) = (case float_of_int n of Inl e \<Rightarrow> Inl e | Inr x \<Rightarrow> finite_clamped d (Fin x))"
| "coerce_float d (VFloat x) = finite_clamped d x"
| "coerce_float d (VStr s) =
     (case py_float_of_string (token_of s) of None \<Rightarrow> refuse d ExpectedNumber | Some x \<Rightarrow> finite_clamped d x)"
| "coerce_float d _ = refuse d ExpectedNumber"

definition without_null :: "setting_def \<Rightarrow> string \<Rightarrow> settings_error + string" where
  "without_null d s = (if CHR 0x00 \<in> set s then refuse d HoldsNullByte else Inr s)"

fun str_of :: "settings_env \<Rightarrow> setting_def \<Rightarrow> pyval \<Rightarrow> settings_error + string" where
  "str_of env d (VStr s) = without_null d (strip s)"
| "str_of env d (VInt n) =
     (case se_number_text env (VInt n) of None \<Rightarrow> Inl DigitLimit | Some s \<Rightarrow> without_null d s)"
| "str_of env d (VFloat x) =
     (case se_number_text env (VFloat x) of None \<Rightarrow> Inl DigitLimit | Some s \<Rightarrow> without_null d s)"
| "str_of env d _ = refuse d ExpectedText"

definition coerce_str :: "settings_env \<Rightarrow> setting_def \<Rightarrow> pyval \<Rightarrow> settings_error + pyval" where
  "coerce_str env d raw = (case str_of env d raw of Inl e \<Rightarrow> Inl e | Inr s \<Rightarrow> Inr (VStr s))"

definition coerce_select :: "settings_env \<Rightarrow> setting_def \<Rightarrow> pyval \<Rightarrow> settings_error + pyval" where
  "coerce_select env d raw =
     (case str_of env d raw of
        Inl e \<Rightarrow> Inl e
      | Inr s \<Rightarrow> if sd_choices d = [] then Inr (VStr s)
                 else if s \<in> set (sd_choices d) then Inr (VStr s) else refuse d NotAChoice)"

text \<open>\<^verbatim>\<open>PureWindowsPath.is_absolute\<close>: a drive or a share, and a root.\<close>

definition BACKSLASH :: char where "BACKSLASH = CHR 0x5C"

definition win_seps :: "string \<Rightarrow> string" where
  "win_seps = List.map (\<lambda>c. if c = CHR ''/'' then BACKSLASH else c)"

definition unc_absolute :: "string \<Rightarrow> bool" where
  "unc_absolute s =
     (let rest = (if starts_with [BACKSLASH, BACKSLASH, CHR ''?'', BACKSLASH, CHR ''U'', CHR ''N'', CHR ''C'', BACKSLASH]
                       (upper s) then drop 8 s else drop 2 s);
          server = takeWhile (\<lambda>c. c \<noteq> BACKSLASH) rest; tail = drop (length server + 1) rest;
          share = takeWhile (\<lambda>c. c \<noteq> BACKSLASH) tail
      in length server < length rest \<and>
         (length share < length tail \<or>
          (share \<noteq> [] \<and> server \<noteq> ''?'' \<and> server \<noteq> ''.'')))"

definition windows_absolute :: "string \<Rightarrow> bool" where
  "windows_absolute p =
     (let s = win_seps p in
      case s of
        a # b # t \<Rightarrow> if a = BACKSLASH then (if b = BACKSLASH then unc_absolute s else False)
                     else b = CHR '':'' \<and> t \<noteq> [] \<and> hd t = BACKSLASH
      | _ \<Rightarrow> False)"

definition is_absolute_path :: "string \<Rightarrow> bool" where
  "is_absolute_path p \<longleftrightarrow> starts_with ''/'' p \<or> windows_absolute p"

definition rstrip_seps :: "string \<Rightarrow> string" where
  "rstrip_seps s = rev (dropWhile (\<lambda>c. c = CHR ''/'' \<or> c = BACKSLASH) (rev s))"

definition trim_path :: "string \<Rightarrow> string" where
  "trim_path s = (let t = rstrip_seps s in if t = [] \<or> last t = CHR '':'' then s else t)"

definition CONTAINED_PATH_SETTINGS :: "string list" where
  "CONTAINED_PATH_SETTINGS = [''general.footage_dir'']"

definition contained :: "settings_env \<Rightarrow> setting_def \<Rightarrow> string \<Rightarrow> bool" where
  "contained env d s =
     (if sd_key d \<in> set CONTAINED_PATH_SETTINGS then is_within (se_resolve env) (se_footage_root env) s else True)"

definition coerce_path :: "settings_env \<Rightarrow> setting_def \<Rightarrow> pyval \<Rightarrow> settings_error + pyval" where
  "coerce_path env d raw =
     (case str_of env d raw of
        Inl e \<Rightarrow> Inl e
      | Inr s \<Rightarrow>
          (let value = se_expanduser env s in
           if value = [] then refuse d PathRequired
           else if \<not> is_absolute_path value then refuse d PathNotAbsolute
           else if \<not> contained env d (trim_path value) then refuse d OutsideRoot
           else Inr (VStr (trim_path value))))"

definition BYTE_UNITS :: "(string \<times> int) list" where
  "BYTE_UNITS =
    [('''', 1), (''b'', 1), (''k'', 1000), (''kb'', 1000), (''kib'', 1024), (''m'', 1000 ^ 2), (''mb'', 1000 ^ 2),
     (''mib'', 1024 ^ 2), (''g'', 1000 ^ 3), (''gb'', 1000 ^ 3), (''gib'', 1024 ^ 3), (''t'', 1000 ^ 4),
     (''tb'', 1000 ^ 4), (''tib'', 1024 ^ 4)]"

definition unit_letter :: "char \<Rightarrow> bool" where
  "unit_letter c \<longleftrightarrow> is_upper_letter (upper_char c)"

text \<open>The magnitude and the unit that \<^verbatim>\<open>_BYTES_RE\<close> captures.\<close>

definition byte_size :: "string \<Rightarrow> (real \<times> string) option" where
  "byte_size s =
     (let whole = takeWhile is_digit s; rest = dropWhile is_digit s;
          part = (case rest of [] \<Rightarrow> [] | c # t \<Rightarrow> if c = CHR ''.'' then takeWhile is_digit t else []);
          tail = (if part = [] then rest else drop (length part + 1) rest);
          unit = dropWhile is_space tail
      in if whole = [] \<and> part = [] then None
         else if list_all unit_letter unit
         then Some (real_of_int (digits_int (whole @ part)) / 10 ^ length part, lower unit)
         else None)"

fun coerce_bytes :: "setting_def \<Rightarrow> pyval \<Rightarrow> settings_error + pyval" where
  "coerce_bytes d (VStr s) =
     (case byte_size (strip s) of
        None \<Rightarrow> refuse d ExpectedByteSize
      | Some (m, u) \<Rightarrow>
          (case map_of BYTE_UNITS u of
             None \<Rightarrow> refuse d UnknownSizeUnit
           | Some f \<Rightarrow>
               (case to_float (m * real_of_int f) of
                  Fin x \<Rightarrow> Inr (VInt (trunc_real (clamp d x)))
                | _ \<Rightarrow> refuse d ExpectedFinite)))"
| "coerce_bytes d raw = coerce_int d raw"

definition coerce_typed :: "settings_env \<Rightarrow> setting_def \<Rightarrow> pyval \<Rightarrow> settings_error + pyval" where
  "coerce_typed env d raw =
     (case sd_type d of
        TBool \<Rightarrow> coerce_bool d raw | TInt \<Rightarrow> coerce_int d raw | TFloat \<Rightarrow> coerce_float d raw
      | TString \<Rightarrow> coerce_str env d raw | TSelect \<Rightarrow> coerce_select env d raw
      | TPath \<Rightarrow> coerce_path env d raw | TBytes \<Rightarrow> coerce_bytes d raw)"

definition coerce_setting :: "settings_env \<Rightarrow> setting_def \<Rightarrow> pyval \<Rightarrow> settings_error + pyval" where
  "coerce_setting env d raw =
     (if raw = VNone then refuse d ValueIsNull
      else case coerce_typed env d raw of
        Inl e \<Rightarrow> Inl e
      | Inr v \<Rightarrow> Inr (case map_of FIXED_SETTING_VALUES (sd_key d) of Some w \<Rightarrow> w | None \<Rightarrow> v))"

text \<open>Python's truth value, and the one rule that looks beyond the catalogue.\<close>

fun val_truthy :: "pyval \<Rightarrow> bool" where
  "val_truthy VNone = False"
| "val_truthy (VBool b) = b"
| "val_truthy (VInt n) = (n \<noteq> 0)"
| "val_truthy (VFloat x) = (x \<noteq> Fin 0)"
| "val_truthy (VStr s) = (s \<noteq> [])"
| "val_truthy (VOther s) = (s \<noteq> [])"

definition require_account_before_sign_in :: "settings_env \<Rightarrow> setting_def \<Rightarrow> pyval \<Rightarrow> setting_fault option" where
  "require_account_before_sign_in env d v =
     (if sd_key d = ''security.require_login'' \<and> val_truthy v \<and> \<not> se_account_exists env
      then Some NeedsAccount else None)"

end
