(* ===== verification/SettingsService.thy ===== *)
theory SettingsService
  imports Settings
begin

section \<open>The settings service\<close>

text \<open>
  The second half of \<^verbatim>\<open>settings_service.py\<close>: the class \<^verbatim>\<open>SettingsService\<close>. The
  table is an association list; the cache a dictionary that is replaced, never mutated, and so
  one value here; a subscriber is its token and its selectors, and \<open>ss_delivered\<close> records the
  callbacks that were invoked. The catalogue is that of the deployment's time zone.
\<close>

definition SETTINGS :: "settings_env \<Rightarrow> setting_def list" where
  "SETTINGS env = CATALOGUE (se_timezone env)"

definition setting_by_key :: "settings_env \<Rightarrow> string \<Rightarrow> setting_def option" where
  "setting_by_key env k = List.find (\<lambda>d. sd_key d = k) (SETTINGS env)"

subsection \<open>Defaults and the cache\<close>

definition effective_default :: "settings_env \<Rightarrow> setting_def \<Rightarrow> pyval" where
  "effective_default env d =
     (if sd_key d = ''general.footage_dir'' then
        (case coerce_path env d (VStr (se_footage_root env)) of Inr v \<Rightarrow> v | Inl _ \<Rightarrow> sd_default d)
      else sd_default d)"

type_synonym dict = "(string \<times> pyval) list"

definition base_defaults :: "settings_env \<Rightarrow> dict" where
  "base_defaults env = List.map (\<lambda>d. (sd_key d, effective_default env d)) (SETTINGS env)"

record loaded_cache =
  lc_values :: dict
  lc_explicit :: "string list"
  lc_unknown :: "string list"

text \<open>Only a validation error is caught: any other one leaves the loop.\<close>

fun load_rows :: "settings_env \<Rightarrow> dict \<Rightarrow> loaded_cache \<Rightarrow> settings_error + loaded_cache" where
  "load_rows env [] c = Inr c"
| "load_rows env ((k, raw) # rows) c =
     (case setting_by_key env k of
        None \<Rightarrow> load_rows env rows (c\<lparr>lc_unknown := lc_unknown c @ [k]\<rparr>)
      | Some d \<Rightarrow>
          (case coerce_setting env d raw of
             Inr v \<Rightarrow> load_rows env rows
               (c\<lparr>lc_values := AList.update k v (lc_values c), lc_explicit := List.insert k (lc_explicit c)\<rparr>)
           | Inl (InvalidSetting _ _) \<Rightarrow> load_rows env rows c
           | Inl e \<Rightarrow> Inl e))"

definition build_cache :: "settings_env \<Rightarrow> dict \<Rightarrow> settings_error + loaded_cache" where
  "build_cache env rows =
     load_rows env rows \<lparr>lc_values = base_defaults env, lc_explicit = [], lc_unknown = []\<rparr>"

subsection \<open>State\<close>

record settings_change =
  sc_version :: nat
  sc_keys :: "string list"
  sc_values :: dict

record settings_state =
  ss_rows :: dict
  ss_cache :: dict
  ss_explicit :: "string list"
  ss_version :: nat
  ss_loaded :: bool
  ss_subscribers :: "(nat \<times> string list option) list"
  ss_next_token :: nat
  ss_delivered :: "(nat \<times> settings_change) list"

definition new_service :: "settings_env \<Rightarrow> dict \<Rightarrow> settings_state" where
  "new_service env rows =
     \<lparr>ss_rows = rows, ss_cache = base_defaults env, ss_explicit = [], ss_version = 0, ss_loaded = False,
      ss_subscribers = [], ss_next_token = 1, ss_delivered = []\<rparr>"

subsection \<open>Reads\<close>

definition get_nowait :: "settings_env \<Rightarrow> string \<Rightarrow> pyval option \<Rightarrow> settings_state \<Rightarrow> settings_error + pyval" where
  "get_nowait env k dflt st =
     (case map_of (ss_cache st) k of
        Some v \<Rightarrow> Inr v
      | None \<Rightarrow>
          (case setting_by_key env k of
             Some d \<Rightarrow> Inr (effective_default env d)
           | None \<Rightarrow> (case dflt of Some v \<Rightarrow> Inr v | None \<Rightarrow> Inl (InvalidSetting k UnknownSetting))))"

definition get_or_default :: "settings_env \<Rightarrow> string \<Rightarrow> settings_state \<Rightarrow> settings_error + pyval" where
  "get_or_default env k st =
     (case get_nowait env k None st of
        Inr v \<Rightarrow> Inr v
      | Inl e \<Rightarrow> (case setting_by_key env k of None \<Rightarrow> Inl e | Some d \<Rightarrow> Inr (sd_default d)))"

definition is_default :: "string \<Rightarrow> settings_state \<Rightarrow> bool" where
  "is_default k st \<longleftrightarrow> k \<notin> set (ss_explicit st)"

subsection \<open>Notification\<close>

definition key_matches :: "string \<Rightarrow> string list \<Rightarrow> bool" where
  "key_matches k selectors =
     list_ex (\<lambda>s. k = s \<or> starts_with (if s \<noteq> [] \<and> last s = CHR ''.'' then s else s @ ''.'') k) selectors"

definition touches :: "settings_change \<Rightarrow> string list \<Rightarrow> bool" where
  "touches change sels = list_ex (\<lambda>k. key_matches k sels) (sc_keys change)"

definition wants :: "string list option \<Rightarrow> string list \<Rightarrow> bool" where
  "wants selectors keys =
     (case selectors of None \<Rightarrow> True | Some ss \<Rightarrow> list_ex (\<lambda>k. key_matches k ss) keys)"

text \<open>Python's \<^verbatim>\<open>==\<close> on values: numbers compare across their types, \<^verbatim>\<open>nan\<close> with nothing.\<close>

fun number_of :: "pyval \<Rightarrow> pynum option" where
  "number_of (VBool b) = Some (Fin (if b then 1 else 0))"
| "number_of (VInt n) = Some (Fin (real_of_int n))"
| "number_of (VFloat x) = Some x"
| "number_of _ = None"

definition py_equal :: "pyval \<Rightarrow> pyval \<Rightarrow> bool" where
  "py_equal v w =
     (case (number_of v, number_of w) of
        (Some x, Some y) \<Rightarrow> x = y \<and> x \<noteq> NotANumber
      | (None, None) \<Rightarrow> v = w
      | _ \<Rightarrow> False)"

definition changed_in :: "dict \<Rightarrow> dict \<Rightarrow> dict" where
  "changed_in cache new =
     filter (\<lambda>(k, v). case map_of cache k of None \<Rightarrow> True | Some w \<Rightarrow> \<not> py_equal w v) new"

definition update_all :: "dict \<Rightarrow> dict \<Rightarrow> dict" where
  "update_all new cache = fold (\<lambda>(k, v). AList.update k v) new cache"

text \<open>\<^verbatim>\<open>_bump\<close> and \<^verbatim>\<open>_dispatch\<close>; what a callback does with the change is its own affair.\<close>

definition announce :: "dict \<Rightarrow> settings_state \<Rightarrow> settings_state" where
  "announce changed st =
     (if changed = [] then st
      else
        (let change = \<lparr>sc_version = ss_version st + 1, sc_keys = List.map fst changed, sc_values = changed\<rparr>;
             heard = filter (\<lambda>(t, sel). wants sel (sc_keys change)) (ss_subscribers st)
         in st\<lparr>ss_version := ss_version st + 1,
               ss_delivered := ss_delivered st @ List.map (\<lambda>(t, sel). (t, change)) heard\<rparr>))"

definition subscribe :: "string list option \<Rightarrow> settings_state \<Rightarrow> nat \<times> settings_state" where
  "subscribe sel st =
     (ss_next_token st,
      st\<lparr>ss_subscribers := ss_subscribers st @ [(ss_next_token st, sel)], ss_next_token := ss_next_token st + 1\<rparr>)"

definition unsubscribe :: "nat \<Rightarrow> settings_state \<Rightarrow> settings_state" where
  "unsubscribe t st = st\<lparr>ss_subscribers := AList.delete t (ss_subscribers st)\<rparr>"

definition close_service :: "settings_state \<Rightarrow> settings_state" where
  "close_service st = st\<lparr>ss_subscribers := []\<rparr>"

subsection \<open>Writes\<close>

definition coerce_one :: "settings_env \<Rightarrow> bool \<Rightarrow> string \<times> pyval \<Rightarrow> settings_error + (string \<times> pyval)" where
  "coerce_one env internal item =
     (case item of (k, raw) \<Rightarrow>
        (case setting_by_key env k of
           None \<Rightarrow> Inl (InvalidSetting k UnknownSetting)
         | Some d \<Rightarrow>
             if sd_read_only d \<and> \<not> internal then Inl (InvalidSetting k SettingReadOnly)
             else
               (case coerce_setting env d raw of
                  Inl e \<Rightarrow> Inl e
                | Inr v \<Rightarrow>
                    (case require_account_before_sign_in env d v of
                       Some f \<Rightarrow> Inl (InvalidSetting k f)
                     | None \<Rightarrow> Inr (k, v)))))"

fun coerce_all :: "settings_env \<Rightarrow> bool \<Rightarrow> dict \<Rightarrow> settings_error + dict" where
  "coerce_all env internal [] = Inr []"
| "coerce_all env internal (item # items) =
     (case coerce_one env internal item of
        Inl e \<Rightarrow> Inl e
      | Inr kv \<Rightarrow> (case coerce_all env internal items of Inl e \<Rightarrow> Inl e | Inr kvs \<Rightarrow> Inr (kv # kvs)))"

text \<open>\<open>commits\<close>: whether the transaction goes through.\<close>

definition set_many ::
  "settings_env \<Rightarrow> bool \<Rightarrow> bool \<Rightarrow> dict \<Rightarrow> settings_state \<Rightarrow> (settings_error + dict) \<times> settings_state" where
  "set_many env internal commits values st =
     (case coerce_all env internal values of
        Inl e \<Rightarrow> (Inl e, st)
      | Inr coerced \<Rightarrow>
          if coerced = [] then (Inr [], st)
          else if \<not> commits then (Inl CommitFailed, st)
          else
            (Inr coerced,
             announce (changed_in (ss_cache st) coerced)
               (st\<lparr>ss_rows := update_all coerced (ss_rows st),
                   ss_cache := update_all coerced (ss_cache st),
                   ss_explicit := List.union (ss_explicit st) (List.map fst coerced)\<rparr>)))"

definition reset_many ::
  "settings_env \<Rightarrow> bool \<Rightarrow> string list \<Rightarrow> settings_state \<Rightarrow> (settings_error + dict) \<times> settings_state" where
  "reset_many env commits keys st =
     (let wanted = rev (remdups (rev keys)) in
      case List.find (\<lambda>k. setting_by_key env k = None) wanted of
        Some k \<Rightarrow> (Inl (InvalidSetting k UnknownSetting), st)
      | None \<Rightarrow>
          if wanted = [] then (Inr [], st)
          else if \<not> commits then (Inl CommitFailed, st)
          else
            (let defaults = List.map_filter (\<lambda>k. map_option (\<lambda>d. (k, effective_default env d)) (setting_by_key env k)) wanted
             in (Inr defaults,
                 announce (changed_in (ss_cache st) defaults)
                   (st\<lparr>ss_rows := filter (\<lambda>(k, v). k \<notin> set wanted) (ss_rows st),
                       ss_cache := update_all defaults (ss_cache st),
                       ss_explicit := filter (\<lambda>k. k \<notin> set wanted) (ss_explicit st)\<rparr>))))"

definition reset_all :: "settings_env \<Rightarrow> bool \<Rightarrow> settings_state \<Rightarrow> (settings_error + dict) \<times> settings_state" where
  "reset_all env commits st = reset_many env commits (List.map sd_key (SETTINGS env)) st"

definition reload :: "settings_env \<Rightarrow> settings_state \<Rightarrow> (settings_error + nat) \<times> settings_state" where
  "reload env st =
     (case build_cache env (ss_rows st) of
        Inl e \<Rightarrow> (Inl e, st)
      | Inr c \<Rightarrow>
          (let changed = (if ss_loaded st then changed_in (ss_cache st) (lc_values c) else [])
           in (Inr (length changed),
               announce changed
                 (st\<lparr>ss_cache := lc_values c, ss_explicit := lc_explicit c, ss_loaded := True\<rparr>))))"

subsection \<open>The catalogue for the page\<close>

record described =
  ds_def :: setting_def
  ds_default :: pyval
  ds_value :: pyval
  ds_is_default :: bool

definition describe :: "settings_env \<Rightarrow> settings_state \<Rightarrow> setting_def \<Rightarrow> described" where
  "describe env st d =
     \<lparr>ds_def = d, ds_default = effective_default env d,
      ds_value = (case map_of (ss_cache st) (sd_key d) of Some v \<Rightarrow> v | None \<Rightarrow> effective_default env d),
      ds_is_default = (sd_key d \<notin> set (ss_explicit st))\<rparr>"

definition shown_category :: "setting_def \<Rightarrow> string" where
  "shown_category d = (if sd_category d \<in> set CATEGORIES then sd_category d else ''advanced'')"

definition describe_settings :: "settings_env \<Rightarrow> settings_state \<Rightarrow> (string \<times> described list) list" where
  "describe_settings env st =
     filter (\<lambda>(c, ds). ds \<noteq> [])
       (List.map (\<lambda>c. (c, List.map (describe env st) (filter (\<lambda>d. \<not> sd_hidden d \<and> shown_category d = c) (SETTINGS env))))
          CATEGORIES)"

subsection \<open>Events\<close>

datatype settings_event =
    SetMany bool bool dict
  | ResetMany bool "string list"
  | Reload
  | Subscribe "string list option"
  | Unsubscribe nat
  | TableReplaced dict

fun settings_step :: "settings_env \<Rightarrow> settings_state \<Rightarrow> settings_event \<Rightarrow> settings_state" where
  "settings_step env st (SetMany internal commits values) = snd (set_many env internal commits values st)"
| "settings_step env st (ResetMany commits keys) = snd (reset_many env commits keys st)"
| "settings_step env st Reload = snd (reload env st)"
| "settings_step env st (Subscribe sel) = snd (subscribe sel st)"
| "settings_step env st (Unsubscribe t) = unsubscribe t st"
| "settings_step env st (TableReplaced rows) = st\<lparr>ss_rows := rows\<rparr>"

definition settings_run :: "settings_env \<Rightarrow> settings_state \<Rightarrow> settings_event list \<Rightarrow> settings_state" where
  "settings_run env st events = foldl (settings_step env) st events"

end
