(* ===== verification/SettingsCatalogue.thy ===== *)
theory SettingsCatalogue
  imports SettingsService
begin

section \<open>Soundness of the catalogue\<close>

text \<open>
  What makes a setting's value one its definition allows, and that every entry of the
  catalogue is itself sound: its default conforms, its bounds are ordered (and whole for the
  integer types), its key is its own and belongs to its category, and the setting that
  enables it exists and is a switch. Checked group by group, and combined.
\<close>

subsection \<open>Values that conform to their definition\<close>

definition in_bounds :: "setting_def \<Rightarrow> real \<Rightarrow> bool" where
  "in_bounds d x \<longleftrightarrow>
     (case sd_minimum d of None \<Rightarrow> True | Some lo \<Rightarrow> lo \<le> x) \<and>
     (case sd_maximum d of None \<Rightarrow> True | Some hi \<Rightarrow> x \<le> hi)"

definition rooted :: "string \<Rightarrow> bool" where
  "rooted s =
     (case s of [] \<Rightarrow> False
      | c # t \<Rightarrow> c = CHR ''/'' \<or> c = BACKSLASH \<or> (t \<noteq> [] \<and> hd t = CHR '':''))"

definition conforms :: "setting_def \<Rightarrow> pyval \<Rightarrow> bool" where
  "conforms d v =
     (case v of
        VBool b \<Rightarrow> sd_type d = TBool
      | VInt n \<Rightarrow> (sd_type d = TInt \<or> sd_type d = TBytes) \<and> in_bounds d (real_of_int n)
      | VFloat x \<Rightarrow> sd_type d = TFloat \<and> (case x of Fin r \<Rightarrow> in_bounds d r | _ \<Rightarrow> False)
      | VStr s \<Rightarrow>
          sd_type d = TString \<or> (sd_type d = TSelect \<and> s \<in> set (sd_choices d)) \<or>
          (sd_type d = TPath \<and> rooted s)
      | _ \<Rightarrow> False)"

definition integral :: "real option \<Rightarrow> bool" where
  "integral b = (case b of None \<Rightarrow> True | Some x \<Rightarrow> x = real_of_int \<lfloor>x\<rfloor>)"

definition ordered_bounds :: "setting_def \<Rightarrow> bool" where
  "ordered_bounds d =
     (case (sd_minimum d, sd_maximum d) of (Some lo, Some hi) \<Rightarrow> lo \<le> hi | _ \<Rightarrow> True)"

definition fixed_conforms :: "setting_def \<Rightarrow> bool" where
  "fixed_conforms d =
     (case map_of FIXED_SETTING_VALUES (sd_key d) of None \<Rightarrow> True | Some w \<Rightarrow> conforms d w)"

definition sound_definition :: "setting_def \<Rightarrow> bool" where
  "sound_definition d \<longleftrightarrow>
     conforms d (sd_default d) \<and> ordered_bounds d \<and> fixed_conforms d \<and> sd_category d \<in> set CATEGORIES \<and>
     takeWhile (\<lambda>c. c \<noteq> CHR ''.'') (sd_key d) = sd_category d \<and>
     (sd_type d = TSelect \<longrightarrow> sd_choices d \<noteq> []) \<and>
     (sd_type d = TInt \<or> sd_type d = TBytes \<longrightarrow> integral (sd_minimum d) \<and> integral (sd_maximum d))"

definition sound_requires :: "setting_def list \<Rightarrow> setting_def \<Rightarrow> bool" where
  "sound_requires ds d =
     (case sd_requires d of None \<Rightarrow> True
      | Some k \<Rightarrow> list_ex (\<lambda>e. sd_key e = k \<and> sd_type e = TBool) ds)"

definition sound_catalogue :: "setting_def list \<Rightarrow> bool" where
  "sound_catalogue ds \<longleftrightarrow>
     distinct (List.map sd_key ds) \<and> list_all sound_definition ds \<and> list_all (sound_requires ds) ds"

lemmas sound_unfold =
  setting_def.simps sound_definition_def conforms_def in_bounds_def ordered_bounds_def fixed_conforms_def integral_def
  FIXED_SETTING_VALUES_def CATEGORIES_def setting_def rooted_def

lemma sound_general: "list_all sound_definition (GENERAL_SETTINGS tz)"
  by (simp add: GENERAL_SETTINGS_def sound_unfold)

lemma sound_scanner: "list_all sound_definition SCANNER_SETTINGS"
  by (simp add: SCANNER_SETTINGS_def sound_unfold)

lemma sound_processing: "list_all sound_definition PROCESSING_SETTINGS"
  by (simp add: PROCESSING_SETTINGS_def sound_unfold)

lemma sound_events: "list_all sound_definition EVENTS_SETTINGS"
  by (simp add: EVENTS_SETTINGS_def sound_unfold)

lemma sound_telemetry: "list_all sound_definition TELEMETRY_SETTINGS"
  by (simp add: TELEMETRY_SETTINGS_def sound_unfold)

lemma sound_plates: "list_all sound_definition PLATES_SETTINGS"
  by (simp add: PLATES_SETTINGS_def sound_unfold)

lemma sound_journeys: "list_all sound_definition JOURNEYS_SETTINGS"
  by (simp add: JOURNEYS_SETTINGS_def sound_unfold)

lemma sound_storage_1: "list_all sound_definition STORAGE_SETTINGS_1"
  by (simp add: STORAGE_SETTINGS_1_def sound_unfold)

lemma sound_storage_2: "list_all sound_definition STORAGE_SETTINGS_2"
  by (simp add: STORAGE_SETTINGS_2_def sound_unfold)

lemma sound_maps: "list_all sound_definition MAPS_SETTINGS"
  by (simp add: MAPS_SETTINGS_def sound_unfold)

lemma sound_security: "list_all sound_definition SECURITY_SETTINGS"
  by (simp add: SECURITY_SETTINGS_def sound_unfold)

lemma sound_advanced: "list_all sound_definition ADVANCED_SETTINGS"
  by (simp add: ADVANCED_SETTINGS_def sound_unfold)

lemma sound_ingest_1: "list_all sound_definition INGEST_SETTINGS_1"
  by (simp add: INGEST_SETTINGS_1_def sound_unfold)

lemma sound_ingest_2: "list_all sound_definition INGEST_SETTINGS_2"
  by (simp add: INGEST_SETTINGS_2_def sound_unfold)

lemma sound_ingest_3: "list_all sound_definition INGEST_SETTINGS_3"
  by (simp add: INGEST_SETTINGS_3_def sound_unfold)

lemma sound_ingest_4: "list_all sound_definition INGEST_SETTINGS_4"
  by (simp add: INGEST_SETTINGS_4_def sound_unfold)

lemma sound_ingest_5: "list_all sound_definition INGEST_SETTINGS_5"
  by (simp add: INGEST_SETTINGS_5_def sound_unfold)

lemma sound_ingest_6: "list_all sound_definition INGEST_SETTINGS_6"
  by (simp add: INGEST_SETTINGS_6_def sound_unfold)

lemmas sound_groups =
  sound_general sound_scanner sound_processing sound_events sound_telemetry sound_plates sound_journeys sound_storage_1 sound_storage_2 sound_maps
  sound_security sound_advanced sound_ingest_1 sound_ingest_2 sound_ingest_3 sound_ingest_4 sound_ingest_5 sound_ingest_6

text \<open>Keys are distinct: within a category by computation, across by the category's name.\<close>

lemma keys_general: "distinct (List.map sd_key (GENERAL_SETTINGS tz))"
  by code_simp

lemma keys_scanner: "distinct (List.map sd_key (SCANNER_SETTINGS))"
  by code_simp

lemma keys_processing: "distinct (List.map sd_key (PROCESSING_SETTINGS))"
  by code_simp

lemma keys_events: "distinct (List.map sd_key (EVENTS_SETTINGS))"
  by code_simp

lemma keys_telemetry: "distinct (List.map sd_key (TELEMETRY_SETTINGS))"
  by code_simp

lemma keys_plates: "distinct (List.map sd_key (PLATES_SETTINGS))"
  by code_simp

lemma keys_journeys: "distinct (List.map sd_key (JOURNEYS_SETTINGS))"
  by code_simp

lemma keys_storage: "distinct (List.map sd_key (STORAGE_SETTINGS_1 @ STORAGE_SETTINGS_2))"
  by code_simp

lemma keys_maps: "distinct (List.map sd_key (MAPS_SETTINGS))"
  by code_simp

lemma keys_security: "distinct (List.map sd_key (SECURITY_SETTINGS))"
  by code_simp

lemma keys_advanced: "distinct (List.map sd_key (ADVANCED_SETTINGS))"
  by code_simp

lemma keys_ingest: "distinct (List.map sd_key (INGEST_SETTINGS_1 @ INGEST_SETTINGS_2 @ INGEST_SETTINGS_3 @ INGEST_SETTINGS_4 @ INGEST_SETTINGS_5 @ INGEST_SETTINGS_6))"
  by code_simp

lemma requires_general: "list_all (sound_requires (GENERAL_SETTINGS tz)) (GENERAL_SETTINGS tz)"
  by code_simp

lemma requires_scanner: "list_all (sound_requires (SCANNER_SETTINGS)) (SCANNER_SETTINGS)"
  by code_simp

lemma requires_processing: "list_all (sound_requires (PROCESSING_SETTINGS)) (PROCESSING_SETTINGS)"
  by code_simp

lemma requires_events: "list_all (sound_requires (EVENTS_SETTINGS)) (EVENTS_SETTINGS)"
  by code_simp

lemma requires_telemetry: "list_all (sound_requires (TELEMETRY_SETTINGS)) (TELEMETRY_SETTINGS)"
  by code_simp

lemma requires_plates: "list_all (sound_requires (PLATES_SETTINGS)) (PLATES_SETTINGS)"
  by code_simp

lemma requires_journeys: "list_all (sound_requires (JOURNEYS_SETTINGS)) (JOURNEYS_SETTINGS)"
  by code_simp

lemma requires_storage: "list_all (sound_requires (STORAGE_SETTINGS_1 @ STORAGE_SETTINGS_2)) (STORAGE_SETTINGS_1 @ STORAGE_SETTINGS_2)"
  by code_simp

lemma requires_maps: "list_all (sound_requires (MAPS_SETTINGS)) (MAPS_SETTINGS)"
  by code_simp

lemma requires_security: "list_all (sound_requires (SECURITY_SETTINGS)) (SECURITY_SETTINGS)"
  by code_simp

lemma requires_advanced: "list_all (sound_requires (PROCESSING_SETTINGS @ ADVANCED_SETTINGS)) (ADVANCED_SETTINGS)"
  by code_simp

lemma requires_ingest: "list_all (sound_requires (INGEST_SETTINGS_1 @ INGEST_SETTINGS_2 @ INGEST_SETTINGS_3 @ INGEST_SETTINGS_4 @ INGEST_SETTINGS_5 @ INGEST_SETTINGS_6)) (INGEST_SETTINGS_1 @ INGEST_SETTINGS_2 @ INGEST_SETTINGS_3 @ INGEST_SETTINGS_4 @ INGEST_SETTINGS_5 @ INGEST_SETTINGS_6)"
  by code_simp

lemmas group_definitions =
  GENERAL_SETTINGS_def SCANNER_SETTINGS_def PROCESSING_SETTINGS_def EVENTS_SETTINGS_def TELEMETRY_SETTINGS_def
  PLATES_SETTINGS_def JOURNEYS_SETTINGS_def STORAGE_SETTINGS_1_def STORAGE_SETTINGS_2_def MAPS_SETTINGS_def
  SECURITY_SETTINGS_def ADVANCED_SETTINGS_def INGEST_SETTINGS_1_def INGEST_SETTINGS_2_def INGEST_SETTINGS_3_def
  INGEST_SETTINGS_4_def INGEST_SETTINGS_5_def INGEST_SETTINGS_6_def

definition category_of :: "string \<Rightarrow> string" where
  "category_of k = takeWhile (\<lambda>c. c \<noteq> CHR ''.'') k"

definition CATALOGUE_GROUPS :: "string \<Rightarrow> (string \<times> setting_def list) list" where
  "CATALOGUE_GROUPS tz =
    [(''general'', GENERAL_SETTINGS tz),
     (''scanner'', SCANNER_SETTINGS),
     (''processing'', PROCESSING_SETTINGS),
     (''events'', EVENTS_SETTINGS),
     (''telemetry'', TELEMETRY_SETTINGS),
     (''plates'', PLATES_SETTINGS),
     (''journeys'', JOURNEYS_SETTINGS),
     (''storage'', STORAGE_SETTINGS_1 @ STORAGE_SETTINGS_2),
     (''maps'', MAPS_SETTINGS),
     (''security'', SECURITY_SETTINGS),
     (''advanced'', ADVANCED_SETTINGS),
     (''ingest'', INGEST_SETTINGS_1 @ INGEST_SETTINGS_2 @ INGEST_SETTINGS_3 @ INGEST_SETTINGS_4 @ INGEST_SETTINGS_5 @ INGEST_SETTINGS_6)]"

lemma catalogue_is_its_groups: "CATALOGUE tz = concat (List.map snd (CATALOGUE_GROUPS tz))"
  by (simp add: CATALOGUE_def CATALOGUE_GROUPS_def)

lemma group_categories:
  "list_all (\<lambda>(c, ds). list_all (\<lambda>d. category_of (sd_key d) = c) ds) (CATALOGUE_GROUPS tz)"
  by (simp add: CATALOGUE_GROUPS_def group_definitions setting_def category_of_def)

lemma group_names: "distinct (List.map fst (CATALOGUE_GROUPS tz))"
  by (simp add: CATALOGUE_GROUPS_def)

lemma group_keys: "list_all (\<lambda>(c, ds). distinct (List.map sd_key ds)) (CATALOGUE_GROUPS tz)"
  unfolding CATALOGUE_GROUPS_def list.pred_inject split
  by (intro conjI list.pred_inject(1) TrueI keys_general keys_scanner keys_processing keys_events keys_telemetry keys_plates keys_journeys
      keys_storage keys_maps keys_security keys_advanced keys_ingest)

lemma distinct_over_groups:
  assumes "distinct (List.map fst gs)"
    and "list_all (\<lambda>(c, ds). distinct (List.map sd_key ds)) gs"
    and "list_all (\<lambda>(c, ds). list_all (\<lambda>d. category_of (sd_key d) = c) ds) gs"
  shows "distinct (List.map sd_key (concat (List.map snd gs)))"
  using assms
proof (induction gs)
  case (Cons g gs)
  obtain c ds where g: "g = (c, ds)" by (cases g)
  have there: "category_of (sd_key d) \<noteq> c" if d: "d \<in> set (concat (List.map snd gs))" for d
  proof -
    obtain c' es where e: "(c', es) \<in> set gs" "d \<in> set es" using d by auto
    then have "category_of (sd_key d) = c'" using Cons.prems(3) by (auto simp: list_all_iff)
    moreover have "c' \<noteq> c" using Cons.prems(1) e(1) g by (metis distinct.simps(2) fst_conv in_set_zipE list.simps(9) zip_map_fst_snd)
    ultimately show ?thesis by simp
  qed
  have here: "category_of (sd_key d) = c" if "d \<in> set ds" for d
    using Cons.prems(3) g that by (auto simp: list_all_iff)
  have "sd_key d \<noteq> sd_key e" if "d \<in> set ds" "e \<in> set (concat (List.map snd gs))" for d e
    using here [OF that(1)] there [OF that(2)] by metis
  then have "sd_key ` set ds \<inter> sd_key ` set (concat (List.map snd gs)) = {}"
    by blast
  moreover have "distinct (List.map sd_key (concat (List.map snd gs)))" "distinct (List.map sd_key ds)"
    using Cons g by auto
  ultimately show ?case
    by (simp add: g)
qed simp

lemma catalogue_keys: "distinct (List.map sd_key (CATALOGUE tz))"
  unfolding catalogue_is_its_groups
  by (rule distinct_over_groups [OF group_names group_keys group_categories])

lemma sound_requires_mono:
  assumes "list_all (sound_requires ds) es" and "set ds \<subseteq> set fs"
  shows "list_all (sound_requires fs) es"
  using assms by (fastforce simp: list_all_iff list_ex_iff sound_requires_def split: option.splits)

lemma catalogue_requires: "list_all (sound_requires (CATALOGUE tz)) (CATALOGUE tz)"
proof -
  have "list_all (sound_requires (CATALOGUE tz)) ds" if "list_all (sound_requires es) ds" "set es \<subseteq> set (CATALOGUE tz)"
    for ds es
    by (rule sound_requires_mono [OF that])
  note widen = this [OF requires_general [of tz]] this [OF requires_scanner] this [OF requires_processing] this [OF requires_events] this [OF requires_telemetry] this [OF requires_plates]
    this [OF requires_journeys] this [OF requires_storage] this [OF requires_maps] this [OF requires_security] this [OF requires_advanced] this [OF requires_ingest]
  have "list_all (\<lambda>(c, ds). list_all (sound_requires (CATALOGUE tz)) ds) (CATALOGUE_GROUPS tz)"
    unfolding CATALOGUE_GROUPS_def list.pred_inject split
    by (intro conjI list.pred_inject(1) TrueI widen) (auto simp: CATALOGUE_def)
  then show ?thesis
    by (auto simp: catalogue_is_its_groups [of tz] list_all_iff)
qed

lemma catalogue_definitions: "list_all sound_definition (CATALOGUE tz)"
  by (simp add: CATALOGUE_def sound_groups)

text \<open>C13: The catalogue is sound: no two settings share a key, every key begins with the name
  of its category and the category exists, every default and every fixed value conforms to its
  own definition (type, bounds, choices, an absolute path), no range is empty, the bounds of an
  integer setting are whole, a select offers a choice, and whatever a setting says it requires
  is a boolean setting of the catalogue. It holds for any default time zone.\<close>

theorem catalogue_sound: "sound_catalogue (CATALOGUE tz)"
  using catalogue_keys catalogue_definitions catalogue_requires
  by (simp add: sound_catalogue_def)

end
