(* ===== verification/SettingsProps.thy ===== *)
theory SettingsProps
  imports SettingsCatalogue
begin

section \<open>What the settings guarantee\<close>

subsection \<open>Coercion yields conforming values\<close>

lemma clamp_in_bounds: "ordered_bounds d \<Longrightarrow> in_bounds d (clamp d x)"
  by (auto simp: ordered_bounds_def in_bounds_def clamp_def split: option.splits)

lemma clamp_id: "in_bounds d x \<Longrightarrow> clamp d x = x"
  by (auto simp: in_bounds_def clamp_def split: option.splits)

lemma trunc_floor_ceiling: "\<lfloor>x\<rfloor> \<le> trunc_real x \<and> trunc_real x \<le> \<lceil>x\<rceil>"
  by (auto simp: trunc_real_def ceiling_def [symmetric] floor_le_ceiling)

lemma trunc_in_bounds:
  assumes b: "in_bounds d x" and lo: "integral (sd_minimum d)" and hi: "integral (sd_maximum d)"
  shows "in_bounds d (real_of_int (trunc_real x))"
proof -
  have "real_of_int \<lfloor>l\<rfloor> \<le> real_of_int (trunc_real x)" if "l \<le> x" for l
    using floor_mono [OF that] trunc_floor_ceiling [of x] by linarith
  moreover have "real_of_int (trunc_real x) \<le> real_of_int \<lfloor>h\<rfloor>" if "x \<le> h" "h = real_of_int \<lfloor>h\<rfloor>" for h
    using trunc_floor_ceiling [of x] ceiling_le_iff [of x "\<lfloor>h\<rfloor>"] that by linarith
  ultimately show ?thesis
    using b lo hi by (auto simp: in_bounds_def integral_def split: option.splits) fastforce+
qed

lemma trunc_of_int [simp]: "trunc_real (real_of_int n) = n"
  by (simp add: trunc_real_def)

lemma rstrip_seps_prefix: "\<exists>u. s = rstrip_seps s @ u \<and> list_all (\<lambda>c. c = CHR ''/'' \<or> c = BACKSLASH) u"
proof -
  let ?p = "\<lambda>c. c = CHR ''/'' \<or> c = BACKSLASH"
  have "rev s = takeWhile ?p (rev s) @ dropWhile ?p (rev s)" by simp
  then have "s = rstrip_seps s @ rev (takeWhile ?p (rev s))"
    unfolding rstrip_seps_def by (metis rev_append rev_rev_ident)
  moreover have "list_all ?p (rev (takeWhile ?p (rev s)))"
    by (auto simp: list_all_iff dest: set_takeWhileD)
  ultimately show ?thesis by blast
qed

lemma windows_absolute_rooted: "windows_absolute s \<Longrightarrow> rooted s"
proof (cases s)
  case (Cons c t)
  assume w: "windows_absolute s"
  show ?thesis
  proof (cases t)
    case (Cons e u)
    have e: "(if e = CHR ''/'' then BACKSLASH else e) = CHR '':'' \<Longrightarrow> e = CHR '':''"
      by (simp add: BACKSLASH_def split: if_splits)
    show ?thesis
    proof (cases "c = CHR ''/'' \<or> c = BACKSLASH")
      case False
      then show ?thesis
        using w \<open>s = c # t\<close> Cons e by (simp add: windows_absolute_def win_seps_def rooted_def Let_def)
    qed (auto simp: \<open>s = c # t\<close> rooted_def)
  qed (use w Cons in \<open>simp add: windows_absolute_def win_seps_def Let_def\<close>)
qed (simp add: windows_absolute_def win_seps_def)

lemma absolute_rooted: "is_absolute_path s \<Longrightarrow> rooted s"
  unfolding is_absolute_path_def
  by (elim disjE windows_absolute_rooted) (cases s; simp add: starts_with_def rooted_def)

lemma trim_rooted: 
  assumes "rooted s"
  shows "rooted (trim_path s)"
proof -
  obtain u where u: "s = rstrip_seps s @ u" "list_all (\<lambda>c. c = CHR ''/'' \<or> c = BACKSLASH) u"
    using rstrip_seps_prefix by blast
  show ?thesis
  proof (cases "rstrip_seps s")
    case Nil
    then show ?thesis using assms by (simp add: trim_path_def)
  next
    case (Cons c t)
    have "rooted (rstrip_seps s)"
      using assms u Cons by (cases t; cases u) (auto simp: rooted_def BACKSLASH_def split: list.splits)
    then show ?thesis using assms by (simp add: trim_path_def Let_def)
  qed
qed

lemma clamped_int_conforms:
  assumes "sound_definition d" "sd_type d = TInt \<or> sd_type d = TBytes"
  shows "conforms d (VInt (trunc_real (clamp d x)))"
  using assms clamp_in_bounds [of d x] by (auto simp: conforms_def sound_definition_def trunc_in_bounds)

lemma coerce_int_conforms:
  assumes "sound_definition d" "sd_type d = TInt \<or> sd_type d = TBytes" "coerce_int d raw = Inr v"
  shows "conforms d v"
  using assms(3) clamped_int_conforms [OF assms(1,2)]
  by (cases raw) (auto simp: clamped_int_def refuse_def split: sum.splits)

lemma finite_clamped_conforms:
  assumes "sound_definition d" "sd_type d = TFloat" "finite_clamped d x = Inr v"
  shows "conforms d v"
  using assms clamp_in_bounds [of d]
  by (cases x) (auto simp: conforms_def sound_definition_def refuse_def)

lemma coerce_float_conforms:
  assumes "sound_definition d" "sd_type d = TFloat" "coerce_float d raw = Inr v"
  shows "conforms d v"
  using assms(3) finite_clamped_conforms [OF assms(1,2)]
  by (cases raw) (auto simp: refuse_def simp del: finite_clamped.simps split: sum.splits option.splits)

lemma coerce_bytes_conforms:
  assumes "sound_definition d" "sd_type d = TBytes" "coerce_bytes d raw = Inr v"
  shows "conforms d v"
proof (cases "\<exists>s. raw = VStr s")
  case True
  then show ?thesis
    using assms clamped_int_conforms [OF assms(1)]
    by (auto simp: refuse_def split: sum.splits option.splits pynum.splits prod.splits)
next
  case False
  then have "coerce_bytes d raw = coerce_int d raw" by (cases raw) simp_all
  then show ?thesis using assms coerce_int_conforms [OF assms(1)] by metis
qed

lemma coerce_bool_conforms: "coerce_bool d raw = Inr v \<Longrightarrow> sd_type d = TBool \<Longrightarrow> conforms d v"
  by (cases "(d, raw)" rule: coerce_bool.cases)
    (auto simp: conforms_def refuse_def Let_def split: if_splits)

lemma coerce_path_conforms: "coerce_path env d raw = Inr v \<Longrightarrow> sd_type d = TPath \<Longrightarrow> conforms d v"
  by (auto simp: coerce_path_def conforms_def refuse_def Let_def absolute_rooted trim_rooted
    split: sum.splits if_splits)

lemma coerce_typed_conforms:
  assumes d: "sound_definition d" and v: "coerce_typed env d raw = Inr v"
  shows "conforms d v"
proof (cases "sd_type d")
  case TSelect
  then show ?thesis using d v
    by (auto simp: coerce_typed_def coerce_select_def conforms_def refuse_def sound_definition_def
      split: sum.splits if_splits)
qed (use d v in \<open>auto simp: coerce_typed_def coerce_str_def coerce_bool_conforms coerce_int_conforms
  coerce_float_conforms coerce_path_conforms coerce_bytes_conforms, auto simp: conforms_def split: sum.splits\<close>)

lemma coerce_setting_conforms:
  assumes "sound_definition d" "coerce_setting env d raw = Inr v"
  shows "conforms d v"
proof -
  obtain w where w: "coerce_typed env d raw = Inr w"
    and v: "v = (case map_of FIXED_SETTING_VALUES (sd_key d) of Some w' \<Rightarrow> w' | None \<Rightarrow> w)"
    using assms(2) by (auto simp: coerce_setting_def refuse_def split: if_splits sum.splits)
  have "conforms d w" by (rule coerce_typed_conforms [OF assms(1) w])
  then show ?thesis
    using v assms(1) by (auto simp: sound_definition_def fixed_conforms_def split: option.splits)
qed

subsection \<open>The cache holds conforming values\<close>

lemma found_in_catalogue:
  assumes "setting_by_key env k = Some d"
  shows "d \<in> set (CATALOGUE (se_timezone env))" "sd_key d = k"
  using assms by (auto simp: setting_by_key_def SETTINGS_def find_Some_iff)

lemma found_sound: "setting_by_key env k = Some d \<Longrightarrow> sound_definition d"
  using found_in_catalogue(1) catalogue_definitions by (fastforce simp: list_all_iff)

lemma entry_found:
  assumes "d \<in> set (CATALOGUE (se_timezone env))"
  shows "setting_by_key env (sd_key d) = Some d"
proof -
  obtain e where e: "setting_by_key env (sd_key d) = Some e"
    using assms by (cases "setting_by_key env (sd_key d)")
      (auto simp: setting_by_key_def SETTINGS_def find_None_iff)
  then have "e = d"
    using found_in_catalogue [OF e] assms catalogue_keys [of "se_timezone env"]
    by (auto simp: distinct_map dest: inj_onD)
  then show ?thesis using e by simp
qed

lemma effective_default_conforms:
  assumes "sound_definition d" and p: "sd_key d = ''general.footage_dir'' \<Longrightarrow> sd_type d = TPath"
  shows "conforms d (effective_default env d)"
  using assms coerce_path_conforms
  by (auto simp: effective_default_def sound_definition_def split: sum.splits)

lemma footage_dir_is_path:
  assumes "setting_by_key env ''general.footage_dir'' = Some d"
  shows "sd_type d = TPath"
  using assms by (auto simp: setting_by_key_def SETTINGS_def CATALOGUE_def GENERAL_SETTINGS_def setting_def)

lemma found_default_conforms:
  assumes "setting_by_key env k = Some d"
  shows "conforms d (effective_default env d)"
proof (rule effective_default_conforms [OF found_sound [OF assms]])
  assume "sd_key d = ''general.footage_dir''"
  then show "sd_type d = TPath" using footage_dir_is_path assms found_in_catalogue(2) [OF assms] by simp
qed

text \<open>A dictionary whose values all conform to the definitions of their keys.\<close>

definition conforming :: "settings_env \<Rightarrow> dict \<Rightarrow> bool" where
  "conforming env m \<longleftrightarrow>
     (\<forall>k v. map_of m k = Some v \<longrightarrow> (\<exists>d. setting_by_key env k = Some d \<and> conforms d v))"

lemma conformingD: "conforming env m \<Longrightarrow> map_of m k = Some v \<Longrightarrow> \<exists>d. setting_by_key env k = Some d \<and> conforms d v"
  by (simp add: conforming_def)

lemma conforming_update:
  assumes "conforming env m" "setting_by_key env k = Some d" "conforms d v"
  shows "conforming env (AList.update k v m)"
  using assms by (auto simp: conforming_def update_conv)

lemma conforming_update_all:
  assumes "conforming env m" "\<And>k v. (k, v) \<in> set new \<Longrightarrow> \<exists>d. setting_by_key env k = Some d \<and> conforms d v"
  shows "conforming env (update_all new m)"
  using assms
proof (induction new arbitrary: m)
  case (Cons kv new)
  obtain k v where kv: "kv = (k, v)" by (cases kv)
  have "(k, v) \<in> set (kv # new)" by (simp add: kv)
  from Cons.prems(2) [OF this] obtain d where "setting_by_key env k = Some d" "conforms d v" by blast
  then have "conforming env (AList.update k v m)" by (rule conforming_update [OF Cons.prems(1)])
  then have "conforming env (update_all new (AList.update k v m))"
  proof (rule Cons.IH)
    show "\<exists>d. setting_by_key env k = Some d \<and> conforms d v" if "(k, v) \<in> set new" for k v
      using Cons.prems(2) [of k v] that by simp
  qed
  then show ?case by (simp add: update_all_def kv)
qed (simp add: update_all_def)

lemma conforming_defaults: "conforming env (base_defaults env)"
proof -
  have "\<exists>d. setting_by_key env k = Some d \<and> conforms d v" if there: "map_of (base_defaults env) k = Some v" for k v
  proof -
    obtain d where d: "d \<in> set (CATALOGUE (se_timezone env))" "k = sd_key d" "v = effective_default env d"
      using map_of_SomeD [OF there] by (auto simp: base_defaults_def SETTINGS_def)
    then show ?thesis using entry_found [OF d(1)] found_default_conforms by blast
  qed
  then show ?thesis by (simp add: conforming_def)
qed

lemma conforming_load:
  assumes "conforming env (lc_values c)" "load_rows env rows c = Inr c'"
  shows "conforming env (lc_values c')"
  using assms
proof (induction env rows c rule: load_rows.induct)
  case (2 env k raw rows c)
  show ?case
  proof (cases "setting_by_key env k")
    case None
    then show ?thesis using 2 by simp
  next
    case (Some d)
    show ?thesis
    proof (cases "coerce_setting env d raw")
      case (Inl e)
      then show ?thesis using 2 Some by (cases e) auto
    next
      case (Inr v)
      have "conforming env (AList.update k v (lc_values c))"
        by (rule conforming_update [OF 2(4) Some coerce_setting_conforms [OF found_sound [OF Some] Inr]])
      then show ?thesis using 2 Some Inr by simp
    qed
  qed
qed simp

lemma coerce_all_conforms:
  assumes "coerce_all env internal items = Inr kvs" "(k, v) \<in> set kvs"
  shows "\<exists>d. setting_by_key env k = Some d \<and> conforms d v"
  using assms
proof (induction items arbitrary: kvs)
  case (Cons item items)
  obtain k' raw where item: "item = (k', raw)" by (cases item)
  from Cons.prems(1) obtain w ws where w: "coerce_one env internal item = Inr w"
    and ws: "coerce_all env internal items = Inr ws" and kvs: "kvs = w # ws"
    by (auto split: sum.splits)
  show ?case
  proof (cases "(k, v) = w")
    case True
    then show ?thesis
      using w coerce_setting_conforms found_sound
      by (auto simp: coerce_one_def item split: option.splits if_splits sum.splits)
  next
    case False
    then show ?thesis using Cons ws kvs by auto
  qed
qed simp

lemma announce_simps [simp]:
  "ss_cache (announce ch st) = ss_cache st" "ss_rows (announce ch st) = ss_rows st"
  "ss_explicit (announce ch st) = ss_explicit st"
  by (simp_all add: announce_def Let_def)

lemma step_conforming:
  assumes c: "conforming env (ss_cache st)"
  shows "conforming env (ss_cache (settings_step env st ev))"
proof (cases ev)
  case (SetMany internal commits raws)
  have "conforming env (update_all kvs (ss_cache st))" if "coerce_all env internal raws = Inr kvs" for kvs
    by (rule conforming_update_all [OF c coerce_all_conforms [OF that]])
  then show ?thesis using c SetMany by (simp add: set_many_def split: sum.splits)
next
  case (ResetMany commits keys)
  have "conforming env (update_all (List.map_filter (\<lambda>k. map_option (\<lambda>d. (k, effective_default env d)) (setting_by_key env k)) ks)
     (ss_cache st))" for ks
    by (rule conforming_update_all [OF c], auto simp: in_map_filter intro: found_default_conforms)
  then show ?thesis using c ResetMany by (simp add: reset_many_def Let_def split: option.splits)
next
  case Reload
  have "conforming env (lc_values c')" if "build_cache env (ss_rows st) = Inr c'" for c'
    by (rule conforming_load [OF _ that [unfolded build_cache_def]]) (simp add: conforming_defaults)
  then show ?thesis using c Reload by (simp add: reload_def Let_def split: sum.splits)
qed (use c in \<open>simp_all add: subscribe_def unsubscribe_def\<close>)

interpretation configuring: machine "settings_step env" "\<lambda>st. conforming env (ss_cache st)" for env
  by unfold_locales (rule step_conforming)

lemma run_conforming: "conforming env (ss_cache st) \<Longrightarrow> conforming env (ss_cache (settings_run env st events))"
  unfolding settings_run_def by (rule configuring.run_inv)

text \<open>C11: Reads are well typed. Whatever rows the table holds when the service starts and
  whatever happens to it afterwards (batches set or refused, resets, reloads, subscriptions, the
  table replaced by arbitrary rows under it), reading any setting of the catalogue yields a value
  that conforms to its definition: a boolean; an integer or a finite number within its bounds; a
  string; one of the choices; an absolute path. It never fails.\<close>

theorem reads_well_typed:
  "list_all (\<lambda>d. case get_nowait env (sd_key d) None (settings_run env (new_service env rows) events) of
       Inr v \<Rightarrow> conforms d v | Inl _ \<Rightarrow> False) (SETTINGS env)"
proof -
  let ?st = "settings_run env (new_service env rows) events"
  have c: "conforming env (ss_cache ?st)"
    by (rule run_conforming) (simp add: new_service_def conforming_defaults)
  have "case get_nowait env (sd_key d) None ?st of Inr v \<Rightarrow> conforms d v | Inl _ \<Rightarrow> False"
    if d: "d \<in> set (SETTINGS env)" for d
  proof -
    note found = entry_found [OF d [unfolded SETTINGS_def]]
    show ?thesis
    proof (cases "map_of (ss_cache ?st) (sd_key d)")
      case None
      then show ?thesis using found_default_conforms [OF found] by (simp add: get_nowait_def found)
    next
      case (Some v)
      then show ?thesis using conformingD [OF c Some] found by (simp add: get_nowait_def)
    qed
  qed
  then show ?thesis by (simp add: list_all_iff)
qed

end
