(* ===== verification/SettingsReload.thy ===== *)
theory SettingsReload
  imports SettingsProps
begin

section \<open>The cache is what a restart would load\<close>

text \<open>
  A service keeps its cache and its table in step by writing both; a restart rebuilds the cache
  from the table, coercing every row again. The two agree because coercion is idempotent, for
  every type but paths.
\<close>

subsection \<open>Coercion is idempotent\<close>

definition modest :: "real option \<Rightarrow> bool" where
  "modest b = (case b of None \<Rightarrow> True | Some x \<Rightarrow> \<bar>x\<bar> \<le> 10 ^ 18)"

lemma catalogue_modest: "list_all (\<lambda>d. modest (sd_minimum d) \<and> modest (sd_maximum d)) (CATALOGUE tz)"
  by (simp add: CATALOGUE_def group_definitions setting_def modest_def
    INGEST_SLEEP_WINDOW_ACTIVE_SECONDS_def INGEST_SLEEP_WINDOW_IDLE_SECONDS_def)

lemma found_modest: "setting_by_key env k = Some d \<Longrightarrow> modest (sd_minimum d) \<and> modest (sd_maximum d)"
  using found_in_catalogue(1) catalogue_modest by (fastforce simp: list_all_iff)

lemma modest_finite: "\<bar>x\<bar> \<le> 10 ^ 18 \<Longrightarrow> \<bar>x\<bar> < FLOAT_LIMIT"
  by (simp add: FLOAT_LIMIT_def)

lemma to_float_finite: "to_float x = Fin y \<longleftrightarrow> y = x \<and> \<bar>x\<bar> < FLOAT_LIMIT"
  by (auto simp: to_float_def abs_less_iff split: if_splits)

lemma clamp_finite:
  assumes "modest (sd_minimum d)" "modest (sd_maximum d)" "\<bar>x\<bar> < FLOAT_LIMIT"
  shows "\<bar>clamp d x\<bar> < FLOAT_LIMIT"
  using assms modest_finite by (auto simp: clamp_def modest_def split: option.splits)

lemma trunc_abs: "\<bar>real_of_int (trunc_real x)\<bar> \<le> \<bar>x\<bar>"
proof (cases "x < 0")
  case True
  then have "0 \<le> \<lfloor>- x\<rfloor>" by simp
  then show ?thesis using True of_int_floor_le [of "- x"] by (simp add: trunc_real_def)
next
  case False
  then have "0 \<le> \<lfloor>x\<rfloor>" by simp
  then show ?thesis using False of_int_floor_le [of x] by (simp add: trunc_real_def)
qed

text \<open>A value that coercion leaves alone, by type.\<close>

definition settled_value :: "setting_def \<Rightarrow> pyval \<Rightarrow> bool" where
  "settled_value d v \<longleftrightarrow> conforms d v \<and>
     (case v of
        VInt n \<Rightarrow> \<bar>real_of_int n\<bar> < FLOAT_LIMIT
      | VStr s \<Rightarrow> strip s = s \<and> CHR 0x00 \<notin> set s
      | _ \<Rightarrow> True)"

lemma settled_int:
  assumes "settled_value d (VInt n)"
  shows "clamped_int d n = Inr (VInt n)"
  using assms by (auto simp: settled_value_def conforms_def clamped_int_def float_of_int_def to_float_finite clamp_id
    split: pynum.splits) (auto simp: to_float_def abs_less_iff split: if_splits)

lemma settled_fixed:
  assumes "settled_value d v" "sd_type d \<noteq> TPath"
  shows "coerce_typed env d v = Inr v"
proof (cases v)
  case (VInt n)
  then have "sd_type d = TInt \<or> sd_type d = TBytes" using assms by (simp add: settled_value_def conforms_def)
  then show ?thesis using settled_int assms VInt by (auto simp: coerce_typed_def)
next
  case (VFloat x)
  then show ?thesis using assms
    by (cases x) (auto simp: settled_value_def conforms_def coerce_typed_def clamp_id)
qed (use assms in \<open>auto simp: settled_value_def conforms_def coerce_typed_def coerce_str_def coerce_select_def
  without_null_def split: if_splits\<close>)

text \<open>\<^verbatim>\<open>str\<close> of a number has no blanks around it and no null byte.\<close>

definition plain_numbers :: "settings_env \<Rightarrow> bool" where
  "plain_numbers env \<longleftrightarrow>
     (\<forall>v s. se_number_text env v = Some s \<longrightarrow> strip s = s)"

lemma dropWhile_keeps:
  assumes "dropWhile P t = t"
  shows "dropWhile P (rev (dropWhile P (rev t))) = rev (dropWhile P (rev t))"
proof (cases "rev (dropWhile P (rev t))")
  case (Cons c u)
  have "rev t = takeWhile P (rev t) @ dropWhile P (rev t)" by simp
  then have "t = rev (dropWhile P (rev t)) @ rev (takeWhile P (rev t))"
    by (metis rev_append rev_rev_ident)
  then have t: "t = c # u @ rev (takeWhile P (rev t))" using Cons by simp
  then have "\<not> P c" using assms hd_dropWhile [of P t] by (metis list.distinct(1) list.sel(1))
  then show ?thesis using Cons by simp
next
  case Nil
  show ?thesis unfolding Nil by simp
qed

lemma strip_strip [simp]: "strip (strip s) = strip s"
proof -
  have "dropWhile is_space (strip s) = strip s"
    unfolding strip_def by (rule dropWhile_keeps) (simp add: dropWhile_idem)
  moreover have "dropWhile is_space (rev (strip s)) = rev (strip s)"
    by (simp add: strip_def dropWhile_idem)
  ultimately show ?thesis by (simp add: strip_def [of "strip s"])
qed

lemma str_of_settled:
  assumes "plain_numbers env" "str_of env d raw = Inr s"
  shows "strip s = s \<and> CHR 0x00 \<notin> set s"
  using assms by (cases raw) (auto simp: refuse_def without_null_def plain_numbers_def split: if_splits option.splits)

lemma clamped_int_settled:
  assumes "sound_definition d" "sd_type d = TInt \<or> sd_type d = TBytes" "modest (sd_minimum d) \<and> modest (sd_maximum d)"
    and x: "\<bar>x\<bar> < FLOAT_LIMIT"
  shows "settled_value d (VInt (trunc_real (clamp d x)))"
  using clamped_int_conforms [OF assms(1,2), of x] clamp_finite [OF _ _ x, of d] trunc_abs [of "clamp d x"] assms(3)
  by (auto simp: settled_value_def)

lemma coerce_int_settled:
  assumes "sound_definition d" "sd_type d = TInt \<or> sd_type d = TBytes" "modest (sd_minimum d) \<and> modest (sd_maximum d)"
    and "coerce_int d raw = Inr v"
  shows "settled_value d v"
proof -
  have "settled_value d v" if "clamped_int d n = Inr v" for n
    using that clamped_int_settled [OF assms(1-3), of "real_of_int n"]
    by (auto simp: clamped_int_def float_of_int_def to_float_finite split: pynum.splits sum.splits)
  then show ?thesis using assms(4) by (cases raw) (auto simp: refuse_def split: sum.splits)
qed

lemma coerce_typed_settled:
  assumes env: "plain_numbers env" and d: "sound_definition d"
    and m: "modest (sd_minimum d) \<and> modest (sd_maximum d)" and p: "sd_type d \<noteq> TPath"
    and v: "coerce_typed env d raw = Inr v"
  shows "settled_value d v"
proof (cases "sd_type d")
  case TBytes
  show ?thesis
  proof (cases "\<exists>s. raw = VStr s")
    case True
    then show ?thesis
      using v TBytes clamped_int_settled [OF d _ m]
      by (auto simp: coerce_typed_def refuse_def to_float_finite split: sum.splits option.splits pynum.splits prod.splits)
  next
    case False
    then have "coerce_bytes d raw = coerce_int d raw" by (cases raw) simp_all
    then show ?thesis using coerce_int_settled [OF d _ m] v TBytes by (simp add: coerce_typed_def)
  qed
next
  case TInt
  then show ?thesis using coerce_int_settled [OF d _ m] v by (simp add: coerce_typed_def)
next
  case TString
  then show ?thesis using str_of_settled [OF env] v
    by (auto simp: coerce_typed_def coerce_str_def settled_value_def conforms_def split: sum.splits)
next
  case TSelect
  then show ?thesis using str_of_settled [OF env] coerce_typed_conforms [OF d v] v
    by (auto simp: coerce_typed_def coerce_select_def settled_value_def refuse_def split: sum.splits if_splits)
next
  case TBool
  then show ?thesis using coerce_typed_conforms [OF d v] 
    by (auto simp: settled_value_def conforms_def split: pyval.splits)
next
  case TFloat
  then show ?thesis using coerce_typed_conforms [OF d v] 
    by (auto simp: settled_value_def conforms_def split: pyval.splits)
qed (use p in simp)

lemma fixed_value_settled:
  assumes "map_of FIXED_SETTING_VALUES k = Some w" "setting_by_key env k = Some d"
  shows "settled_value d w"
  using found_sound [OF assms(2)] found_in_catalogue(2) [OF assms(2)] assms(1)
  by (auto simp: sound_definition_def fixed_conforms_def FIXED_SETTING_VALUES_def settled_value_def split: if_splits)

lemma coerce_settled:
  assumes env: "plain_numbers env" and k: "setting_by_key env k = Some d" and p: "sd_type d \<noteq> TPath"
    and v: "coerce_setting env d raw = Inr v"
  shows "coerce_setting env d v = Inr v"
proof -
  obtain w where w: "coerce_typed env d raw = Inr w"
    and v': "v = (case map_of FIXED_SETTING_VALUES (sd_key d) of Some w' \<Rightarrow> w' | None \<Rightarrow> w)"
    using v by (auto simp: coerce_setting_def refuse_def split: if_splits sum.splits)
  have "settled_value d w"
    by (rule coerce_typed_settled [OF env found_sound [OF k] found_modest [OF k] p w])
  then have s: "settled_value d v"
    using v' fixed_value_settled [OF _ k] found_in_catalogue(2) [OF k] by (auto split: option.splits)
  then have "v \<noteq> VNone" by (auto simp: settled_value_def conforms_def)
  then show ?thesis
    using settled_fixed [OF s p] v' by (simp add: coerce_setting_def split: option.splits)
qed

subsection \<open>Loading, key by key\<close>

definition loadable :: "settings_env \<Rightarrow> string \<times> pyval \<Rightarrow> bool" where
  "loadable env row =
     (case setting_by_key env (fst row) of
        None \<Rightarrow> True
      | Some d \<Rightarrow> (case coerce_setting env d (snd row) of Inr v \<Rightarrow> True | Inl (InvalidSetting _ _) \<Rightarrow> True | Inl _ \<Rightarrow> False))"

definition row_value :: "settings_env \<Rightarrow> dict \<Rightarrow> string \<Rightarrow> pyval option" where
  "row_value env rows k =
     (case (map_of rows k, setting_by_key env k) of
        (Some raw, Some d) \<Rightarrow> (case coerce_setting env d raw of Inr v \<Rightarrow> Some v | Inl _ \<Rightarrow> None)
      | _ \<Rightarrow> None)"

lemma row_value_Nil [simp]: "row_value env [] k = None"
  by (simp add: row_value_def)

lemma loadable_row:
  "setting_by_key env k = None \<Longrightarrow> loadable env (k, raw)"
  "setting_by_key env k = Some d \<Longrightarrow> coerce_setting env d raw = Inr v \<Longrightarrow> loadable env (k, raw)"
  "setting_by_key env k = Some d \<Longrightarrow> coerce_setting env d raw = Inl (InvalidSetting i f) \<Longrightarrow> loadable env (k, raw)"
  by (simp_all add: loadable_def)

lemma load_rows_loadable: "load_rows env rows c = Inr c' \<Longrightarrow> list_all (loadable env) rows"
proof (induction env rows c rule: load_rows.induct)
  case (2 env k raw rows c)
  show ?case
  proof (cases "setting_by_key env k")
    case None
    then have "list_all (loadable env) rows" using 2 by simp
    then show ?thesis using None by (simp add: loadable_row)
  next
    case (Some d)
    show ?thesis
    proof (cases "coerce_setting env d raw")
      case (Inl e)
      then have "\<exists>i f. e = InvalidSetting i f" "list_all (loadable env) rows" using 2 Some by (cases e; simp)+
      then show ?thesis using Some Inl by (auto simp: loadable_row)
    next
      case (Inr v)
      then have "list_all (loadable env) rows" using 2 Some by simp
      then show ?thesis using Some Inr by (simp add: loadable_row)
    qed
  qed
qed simp

lemma load_rows_values:
  assumes "list_all (loadable env) rows" "distinct (List.map fst rows)"
  shows "\<exists>c'. load_rows env rows c = Inr c' \<and>
    (\<forall>k. map_of (lc_values c') k = (case row_value env rows k of Some v \<Rightarrow> Some v | None \<Rightarrow> map_of (lc_values c) k)) \<and>
    (\<forall>k. k \<in> set (lc_explicit c') \<longleftrightarrow> row_value env rows k \<noteq> None \<or> k \<in> set (lc_explicit c))"
  using assms
proof (induction rows arbitrary: c)
  case (Cons row rows)
  obtain k raw where row: "row = (k, raw)" by (cases row)
  have new: "map_of rows k = None" using Cons.prems(2) row by (simp add: map_of_eq_None_iff)
  have other: "row_value env (row # rows) j = row_value env rows j" if "j \<noteq> k" for j
    using that by (simp add: row_value_def row)
  have later: "row_value env rows k = None" by (simp add: row_value_def new)
  have ok: "loadable env (k, raw)" using Cons.prems row by simp
  have rest: "list_all (loadable env) rows" "distinct (List.map fst rows)" using Cons.prems by simp_all
  show ?case
  proof (cases "row_value env (row # rows) k")
    case None
    obtain u where "load_rows env (row # rows) c = load_rows env rows (c\<lparr>lc_unknown := u\<rparr>)"
      using None ok
      by (auto simp: row row_value_def loadable_def split: option.splits sum.splits settings_error.splits)
        (metis loaded_cache.surjective loaded_cache.update_convs(3))
    moreover have "row_value env (row # rows) j = row_value env rows j" for j
      using None other later by (cases "j = k") simp_all
    ultimately show ?thesis
      using Cons.IH [OF rest, of "c\<lparr>lc_unknown := u\<rparr>"] by (simp cong: option.case_cong)
  next
    case (Some v)
    let ?c = "c\<lparr>lc_values := AList.update k v (lc_values c), lc_explicit := List.insert k (lc_explicit c)\<rparr>"
    have step: "load_rows env (row # rows) c = load_rows env rows ?c"
      using Some by (auto simp: row row_value_def split: option.splits sum.splits)
    obtain c' where c': "load_rows env rows ?c = Inr c'"
      and vals: "\<And>j. map_of (lc_values c') j = (case row_value env rows j of Some v \<Rightarrow> Some v | None \<Rightarrow> map_of (lc_values ?c) j)"
      and expl: "\<And>j. j \<in> set (lc_explicit c') \<longleftrightarrow> row_value env rows j \<noteq> None \<or> j \<in> set (lc_explicit ?c)"
      using Cons.IH [OF rest, of ?c] by blast
    have "map_of (lc_values c') j = (case row_value env (row # rows) j of Some v \<Rightarrow> Some v | None \<Rightarrow> map_of (lc_values c) j)" for j
      using vals [of j] Some later other [of j] by (cases "j = k") (simp_all add: update_conv cong: option.case_cong)
    moreover have "j \<in> set (lc_explicit c') \<longleftrightarrow> row_value env (row # rows) j \<noteq> None \<or> j \<in> set (lc_explicit c)" for j
      using expl [of j] Some later other [of j] by (cases "j = k") simp_all
    ultimately show ?thesis using step c' by simp
  qed
qed simp

lemma build_cache_values:
  assumes "list_all (loadable env) rows" "distinct (List.map fst rows)"
  shows "\<exists>c. build_cache env rows = Inr c \<and>
    (\<forall>k. map_of (lc_values c) k = (case row_value env rows k of Some v \<Rightarrow> Some v | None \<Rightarrow> map_of (base_defaults env) k)) \<and>
    (\<forall>k. k \<in> set (lc_explicit c) \<longleftrightarrow> row_value env rows k \<noteq> None)"
  using load_rows_values [OF assms, of "\<lparr>lc_values = base_defaults env, lc_explicit = [], lc_unknown = []\<rparr>"]
  by (simp add: build_cache_def cong: option.case_cong)

subsection \<open>The invariant\<close>

text \<open>Everything but paths, whose coercion asks the file system and can differ on a second look.\<close>

definition path_key :: "settings_env \<Rightarrow> string \<Rightarrow> bool" where
  "path_key env k = (case setting_by_key env k of None \<Rightarrow> False | Some d \<Rightarrow> sd_type d = TPath)"

definition in_step :: "settings_env \<Rightarrow> settings_state \<Rightarrow> bool" where
  "in_step env st \<longleftrightarrow>
     distinct (List.map fst (ss_rows st)) \<and> list_all (loadable env) (ss_rows st) \<and>
     (\<forall>k. \<not> path_key env k \<longrightarrow>
        map_of (ss_cache st) k =
          (case row_value env (ss_rows st) k of Some v \<Rightarrow> Some v | None \<Rightarrow> map_of (base_defaults env) k) \<and>
        (k \<in> set (ss_explicit st) \<longleftrightarrow> row_value env (ss_rows st) k \<noteq> None))"

lemma update_all_map: "map_of (update_all new m) k = (map_of m ++ map_of (rev new)) k"
  by (induction new arbitrary: m)
    (auto simp: update_all_def update_conv' map_add_def split: option.splits prod.splits)

lemma update_all_distinct: "distinct (List.map fst m) \<Longrightarrow> distinct (List.map fst (update_all new m))"
  by (induction new arbitrary: m) (auto simp: update_all_def distinct_update split: prod.splits)

lemma update_all_rows: "set (update_all new m) \<subseteq> set m \<union> set new"
proof (induction new arbitrary: m)
  case (Cons kv new)
  obtain k v where kv: "kv = (k, v)" by (cases kv)
  have "set (AList.update k v m) \<subseteq> set m \<union> {(k, v)}" by (induction m) auto
  then show ?case using Cons [of "AList.update k v m"] by (auto simp: update_all_def kv)
qed (simp add: update_all_def)

lemma path_coercion_loadable:
  assumes "setting_by_key env k = Some d" "sd_type d = TPath" "coerce_setting env d raw = Inr v"
  shows "loadable env (k, v)"
proof -
  have "sd_key d \<noteq> ''ingest.manage_sleep_window''"
    using assms(1,2) found_in_catalogue(2) [OF assms(1)] found_sound [OF assms(1)]
    by (auto simp: sound_definition_def fixed_conforms_def conforms_def FIXED_SETTING_VALUES_def)
  then have "\<exists>s. v = VStr s"
    using assms(2,3) by (auto simp: coerce_setting_def coerce_typed_def coerce_path_def refuse_def Let_def
      FIXED_SETTING_VALUES_def split: if_splits sum.splits)
  then show ?thesis
    using assms(1,2)
    by (auto simp: loadable_def coerce_setting_def coerce_typed_def coerce_path_def refuse_def without_null_def Let_def
      split: sum.splits if_splits)
qed

lemma coerced_loadable:
  assumes "plain_numbers env" "coerce_all env internal items = Inr kvs" "(k, v) \<in> set kvs"
  shows "loadable env (k, v)" "\<not> path_key env k \<Longrightarrow> \<exists>d. setting_by_key env k = Some d \<and> coerce_setting env d v = Inr v"
proof -
  obtain d raw where d: "setting_by_key env k = Some d" and v: "coerce_setting env d raw = Inr v"
    using assms(2,3)
  proof (induction items arbitrary: kvs)
    case (Cons item items)
    obtain j raw where item: "item = (j, raw)" by (cases item)
    from Cons.prems(2) obtain w ws where w: "coerce_one env internal item = Inr w"
      and ws: "coerce_all env internal items = Inr ws" and kvs: "kvs = w # ws"
      by (auto split: sum.splits)
    show ?case
    proof (cases "(k, v) = w")
      case True
      then show ?thesis using w Cons.prems(1)
        by (auto simp: coerce_one_def item split: option.splits if_splits sum.splits)
    next
      case False
      then show ?thesis using Cons ws kvs by auto
    qed
  qed simp
  show "loadable env (k, v)"
    using path_coercion_loadable [OF d _ v] coerce_settled [OF assms(1) d _ v] loadable_row(2) [OF d]
    by (cases "sd_type d = TPath") auto
  show "\<exists>d. setting_by_key env k = Some d \<and> coerce_setting env d v = Inr v" if "\<not> path_key env k"
    using coerce_settled [OF assms(1) d _ v] d that by (simp add: path_key_def)
qed

lemma set_many_in_step:
  assumes env: "plain_numbers env" and inv: "in_step env st"
  shows "in_step env (snd (set_many env internal commits raws st))"
proof (cases "coerce_all env internal raws")
  case (Inr kvs)
  show ?thesis
  proof (cases "kvs = [] \<or> \<not> commits")
    case False
    let ?rows = "update_all kvs (ss_rows st)" and ?cache = "update_all kvs (ss_cache st)"
    have "list_all (loadable env) ?rows"
      using update_all_rows [of kvs "ss_rows st"] inv coerced_loadable(1) [OF env Inr]
      by (fastforce simp: in_step_def list_all_iff)
    moreover have "map_of ?cache k = (case row_value env ?rows k of Some v \<Rightarrow> Some v | None \<Rightarrow> map_of (base_defaults env) k) \<and>
        (k \<in> set (ss_explicit st) \<union> fst ` set kvs \<longleftrightarrow> row_value env ?rows k \<noteq> None)" if k: "\<not> path_key env k" for k
    proof (cases "map_of (rev kvs) k")
      case None
      then have "k \<notin> fst ` set kvs" by (auto simp: map_of_eq_None_iff)
      moreover have "row_value env ?rows k = row_value env (ss_rows st) k"
        using None by (simp add: row_value_def update_all_map map_add_def)
      ultimately show ?thesis
        using inv k None by (auto simp: in_step_def update_all_map map_add_def)
    next
      case (Some v)
      then have v: "(k, v) \<in> set kvs" using map_of_SomeD by fastforce
      obtain d where "setting_by_key env k = Some d" "coerce_setting env d v = Inr v"
        using coerced_loadable(2) [OF env Inr v k] by blast
      then have "row_value env ?rows k = Some v"
        using Some by (simp add: row_value_def update_all_map map_add_def)
      moreover have "k \<in> fst ` set kvs" using v by (force simp: image_iff)
      ultimately show ?thesis using Some by (simp add: update_all_map map_add_def)
    qed
    ultimately show ?thesis
      using inv Inr False by (auto simp: set_many_def in_step_def update_all_distinct)
  qed (use inv Inr in \<open>auto simp: set_many_def\<close>)
qed (use inv in \<open>simp add: set_many_def\<close>)

definition reset_values :: "settings_env \<Rightarrow> string list \<Rightarrow> dict" where
  "reset_values env ks =
     List.map_filter (\<lambda>k. map_option (\<lambda>d. (k, effective_default env d)) (setting_by_key env k)) ks"

lemma reset_values_map:
  "map_of (rev (reset_values env ks)) k =
     (if k \<in> set ks then map_option (effective_default env) (setting_by_key env k) else None)"
proof (induction ks)
  case (Cons j ks)
  then show ?case
    by (cases "setting_by_key env j") (auto simp: reset_values_def List.map_filter_simps map_add_def split: option.splits)
qed (simp add: reset_values_def List.map_filter_simps)

lemma defaults_map: "map_of (base_defaults env) k = map_option (effective_default env) (setting_by_key env k)"
proof (cases "setting_by_key env k")
  case None
  then have "k \<notin> set (List.map sd_key (SETTINGS env))" by (auto simp: setting_by_key_def find_None_iff)
  then show ?thesis using None by (auto simp: base_defaults_def map_of_eq_None_iff image_image)
next
  case (Some d)
  have "(k, effective_default env d) \<in> set (base_defaults env)"
    using found_in_catalogue [OF Some] by (auto simp: base_defaults_def SETTINGS_def)
  moreover have "distinct (List.map fst (base_defaults env))"
    using catalogue_keys by (simp add: base_defaults_def SETTINGS_def comp_def)
  ultimately show ?thesis using Some by (simp add: map_of_is_SomeI)
qed

lemma map_of_without: "map_of (filter (\<lambda>(j, v). j \<notin> A) m) k = (if k \<in> A then None else map_of m k)"
  by (induction m) auto

lemma reset_many_in_step:
  assumes inv: "in_step env st"
  shows "in_step env (snd (reset_many env commits keys st))"
proof -
  define ks where "ks = rev (remdups (rev keys))"
  show ?thesis
  proof (cases "List.find (\<lambda>k. setting_by_key env k = None) ks = None \<and> ks \<noteq> [] \<and> commits")
    case True
    let ?rows = "filter (\<lambda>(k, v). k \<notin> set ks) (ss_rows st)"
    have known: "setting_by_key env k \<noteq> None" if "k \<in> set ks" for k
      using True that by (auto simp: find_None_iff)
    have after: "ss_rows (snd (reset_many env commits keys st)) = ?rows"
      "ss_cache (snd (reset_many env commits keys st)) = update_all (reset_values env ks) (ss_cache st)"
      "ss_explicit (snd (reset_many env commits keys st)) = filter (\<lambda>k. k \<notin> set ks) (ss_explicit st)"
      using True by (simp_all add: reset_many_def ks_def [symmetric] reset_values_def Let_def)
    have "distinct (List.map fst ?rows)"
      using inv distinct_map_filter by (auto simp: in_step_def)
    moreover have "list_all (loadable env) ?rows"
      using inv by (auto simp: in_step_def list_all_iff)
    moreover have "map_of (update_all (reset_values env ks) (ss_cache st)) k =
          (case row_value env ?rows k of Some v \<Rightarrow> Some v | None \<Rightarrow> map_of (base_defaults env) k) \<and>
        (k \<in> set (filter (\<lambda>k. k \<notin> set ks) (ss_explicit st)) \<longleftrightarrow> row_value env ?rows k \<noteq> None)"
      if k: "\<not> path_key env k" for k
    proof (cases "k \<in> set ks")
      case True
      then show ?thesis
        using known [OF True]
        by (auto simp: row_value_def map_of_without update_all_map reset_values_map map_add_def defaults_map)
    next
      case False
      then have "row_value env ?rows k = row_value env (ss_rows st) k"
        by (simp add: row_value_def map_of_without)
      then show ?thesis
        using inv k False by (auto simp: in_step_def update_all_map reset_values_map map_add_def)
    qed
    ultimately show ?thesis unfolding in_step_def after by simp
  next
    case False
    then have "snd (reset_many env commits keys st) = st"
      by (auto simp: reset_many_def ks_def [symmetric] Let_def split: option.splits)
    then show ?thesis using inv by simp
  qed
qed

lemma reload_in_step:
  assumes rows: "distinct (List.map fst (ss_rows st))" and r: "fst (reload env st) = Inr n"
  shows "in_step env (snd (reload env st))"
proof -
  obtain c where c: "build_cache env (ss_rows st) = Inr c"
    using r by (auto simp: reload_def split: sum.splits)
  have l: "list_all (loadable env) (ss_rows st)" by (rule load_rows_loadable [OF c [unfolded build_cache_def]])
  have after: "ss_rows (snd (reload env st)) = ss_rows st" "ss_cache (snd (reload env st)) = lc_values c"
    "ss_explicit (snd (reload env st)) = lc_explicit c"
    using c by (simp_all add: reload_def Let_def)
  show ?thesis
    using build_cache_values [OF l rows] c rows l unfolding in_step_def after by auto
qed

fun from_outside :: "settings_event \<Rightarrow> bool" where
  "from_outside (TableReplaced rows) = True"
| "from_outside _ = False"

lemma step_in_step:
  assumes "plain_numbers env" and inv: "in_step env st" and "\<not> from_outside ev"
  shows "in_step env (settings_step env st ev)"
proof (cases ev)
  case Reload
  have "distinct (List.map fst (ss_rows st))" using inv by (simp add: in_step_def)
  then show ?thesis
    using reload_in_step [of st env] inv Reload
    by (cases "fst (reload env st)") (auto simp: reload_def Let_def split: sum.splits)
qed (use assms set_many_in_step reset_many_in_step in
  \<open>simp_all add: subscribe_def unsubscribe_def, simp_all add: in_step_def\<close>)

lemma run_in_step:
  assumes "plain_numbers env" "in_step env st" "list_all (\<lambda>ev. \<not> from_outside ev) events"
  shows "in_step env (settings_run env st events)"
  using assms(2,3) unfolding settings_run_def
  by (induction events arbitrary: st) (simp_all add: step_in_step [OF assms(1)])

text \<open>C10: The cache is what a restart would load. Take a service whose reload succeeded, and any
  sequence of batches (set or refused, committed or not), resets, reloads and subscriptions after
  it. Rebuilding the cache from the table then succeeds, and for every key but a path's it gives
  the value the running service answers with, and marks it as set by the user exactly when the
  service does. (A number's text is assumed to have no blanks around it.)\<close>

theorem cache_is_what_a_restart_loads:
  assumes "plain_numbers env" "distinct (List.map fst (ss_rows st))" "fst (reload env st) = Inr n"
    and "list_all (\<lambda>ev. \<not> from_outside ev) events" "\<not> path_key env k"
  shows "\<exists>c. build_cache env (ss_rows (settings_run env (snd (reload env st)) events)) = Inr c \<and>
    map_of (lc_values c) k = map_of (ss_cache (settings_run env (snd (reload env st)) events)) k \<and>
    (k \<in> set (lc_explicit c) \<longleftrightarrow> \<not> is_default k (settings_run env (snd (reload env st)) events))"
proof -
  let ?st = "settings_run env (snd (reload env st)) events"
  have inv: "in_step env ?st"
    by (rule run_in_step [OF assms(1) reload_in_step [OF assms(2,3)] assms(4)])
  then have "list_all (loadable env) (ss_rows ?st)" "distinct (List.map fst (ss_rows ?st))"
    by (simp_all add: in_step_def)
  from build_cache_values [OF this] show ?thesis
    using inv assms(5) by (auto simp: in_step_def is_default_def)
qed

definition sample_settings_env :: settings_env where
  "sample_settings_env =
     \<lparr>se_timezone = ''UTC'', se_expanduser = id, se_footage_root = ''/footage'', se_resolve = Some,
      se_number_text = (\<lambda>v. case v of VInt n \<Rightarrow> Some ''7'' | _ \<Rightarrow> None), se_account_exists = False\<rparr>"

lemma sample_plain_numbers: "plain_numbers sample_settings_env"
  by (auto simp: plain_numbers_def sample_settings_env_def strip_def is_space_def split: pyval.splits)

lemma sample_scanner_settings:
  "setting_by_key env ''scanner.enabled'' = Some (setting ''scanner.enabled'' TBool (VBool True) ''scanner'')"
  "setting_by_key env ''scanner.settle_seconds'' =
     Some ((setting ''scanner.settle_seconds'' TInt (VInt 90) ''scanner'')\<lparr>sd_minimum := Some 0, sd_maximum := Some 3600\<rparr>)"
  by (simp_all add: setting_by_key_def SETTINGS_def CATALOGUE_def GENERAL_SETTINGS_def SCANNER_SETTINGS_def setting_def)

theorem cache_is_what_a_restart_loads_witness:
  "\<exists>c. build_cache sample_settings_env
      (ss_rows (settings_run sample_settings_env
        (snd (reload sample_settings_env (new_service sample_settings_env [(''scanner.enabled'', VStr ''no'')])))
        [SetMany False True [(''scanner.settle_seconds'', VStr ''1_000'')], ResetMany True [''scanner.enabled'']])) = Inr c \<and>
    map_of (lc_values c) ''scanner.settle_seconds'' =
      map_of (ss_cache (settings_run sample_settings_env
        (snd (reload sample_settings_env (new_service sample_settings_env [(''scanner.enabled'', VStr ''no'')])))
        [SetMany False True [(''scanner.settle_seconds'', VStr ''1_000'')], ResetMany True [''scanner.enabled'']]))
        ''scanner.settle_seconds'' \<and>
    (''scanner.settle_seconds'' \<in> set (lc_explicit c) \<longleftrightarrow>
      \<not> is_default ''scanner.settle_seconds'' (settings_run sample_settings_env
        (snd (reload sample_settings_env (new_service sample_settings_env [(''scanner.enabled'', VStr ''no'')])))
        [SetMany False True [(''scanner.settle_seconds'', VStr ''1_000'')], ResetMany True [''scanner.enabled'']]))"
proof (rule cache_is_what_a_restart_loads [OF sample_plain_numbers])
  show "fst (reload sample_settings_env (new_service sample_settings_env [(''scanner.enabled'', VStr ''no'')])) = Inr 0"
    by (simp add: reload_def new_service_def build_cache_def sample_scanner_settings coerce_setting_def coerce_typed_def
      setting_def FIXED_SETTING_VALUES_def TRUTHY_def FALSEY_def strip_def is_space_def lower_def lower_char_def Let_def)
  show "\<not> path_key sample_settings_env ''scanner.settle_seconds''"
    by (simp add: path_key_def sample_scanner_settings setting_def)
qed (simp_all add: new_service_def)

end
