(* ===== verification/SettingsNotify.thy ===== *)
theory SettingsNotify
  imports SettingsReload
begin

section \<open>Subscribers hear every change\<close>

text \<open>
  A subscriber keeps its own copy of the settings by applying the changes delivered to it. The
  copy stays equal to the cache on every key its selectors name: no edge is lost, whatever other
  subscribers come and go.
\<close>

definition mirror :: "nat \<Rightarrow> (nat \<times> settings_change) list \<Rightarrow> dict \<Rightarrow> dict" where
  "mirror t ds m = foldl (\<lambda>m (u, c). if u = t then update_all (sc_values c) m else m) m ds"

lemma mirror_append: "mirror t (ds @ es) m = mirror t es (mirror t ds m)"
  by (simp add: mirror_def)

lemma mirror_absent: "t \<notin> fst ` set ds \<Longrightarrow> mirror t ds m = m"
  unfolding mirror_def by (induction ds arbitrary: m) (auto split: prod.splits)

text \<open>One announcement reaches a subscriber at most once, and always when a key of it is wanted.\<close>

lemma mirror_announced:
  assumes "distinct (List.map fst subs)" "(t, sel) \<in> set subs"
  shows "mirror t (List.map (\<lambda>(t, sel). (t, ch)) (filter (\<lambda>(t, sel). wants sel ks) subs)) m =
    (if wants sel ks then update_all (sc_values ch) m else m)"
  using assms
proof (induction subs)
  case (Cons s subs)
  obtain u se where s: "s = (u, se)" by (cases s)
  show ?case
  proof (cases "u = t")
    case True
    then have "se = sel" using Cons.prems s by (auto simp: image_iff)
    moreover have "t \<notin> fst ` set (List.map (\<lambda>(t, sel). (t, ch)) (filter (\<lambda>(t, sel). wants sel ks) subs))"
      using Cons.prems(1) s True by (force simp: image_iff)
    note absent = mirror_absent [OF this]
    moreover have "mirror t ((t, ch) # ds) m = mirror t ds (update_all (sc_values ch) m)" for ds
      by (simp add: mirror_def)
    ultimately show ?thesis using s True by simp
  next
    case False
    have "mirror t ((u, ch) # ds) m = mirror t ds m" for ds using False by (simp add: mirror_def)
    then show ?thesis using Cons s False by auto
  qed
qed simp

lemma wants_member: "wants sel [k] \<Longrightarrow> k \<in> set ks \<Longrightarrow> wants sel ks"
  by (auto simp: wants_def list_ex_iff split: option.splits)

lemma conforms_py_equal: "conforms d v \<Longrightarrow> conforms d w \<Longrightarrow> py_equal v w \<Longrightarrow> v = w"
  by (cases v; cases w) (auto simp: conforms_def py_equal_def split: pynum.splits if_splits)

lemma update_changed:
  assumes dist: "distinct (List.map fst new)"
    and same: "\<And>k v w. (k, v) \<in> set new \<Longrightarrow> map_of cache k = Some w \<Longrightarrow> py_equal w v \<Longrightarrow> w = v"
  shows "map_of (update_all (changed_in cache new) cache) k = map_of (update_all new cache) k"
proof -
  have d: "distinct (List.map fst (rev new))" "distinct (List.map fst (rev (changed_in cache new)))"
    using dist by (simp_all add: changed_in_def rev_map [symmetric] distinct_map_filter)
  show ?thesis
  proof (cases "map_of (rev new) k")
    case None
    then have "k \<notin> fst ` set new" by (simp add: map_of_eq_None_iff)
    then have "map_of (rev (changed_in cache new)) k = None"
      by (auto simp: map_of_eq_None_iff changed_in_def)
    then show ?thesis using None by (simp add: update_all_map map_add_def)
  next
    case (Some v)
    then have v: "(k, v) \<in> set new" using map_of_SomeD by fastforce
    show ?thesis
    proof (cases "(k, v) \<in> set (changed_in cache new)")
      case True
      then have "map_of (rev (changed_in cache new)) k = Some v" using d(2) by (simp add: map_of_is_SomeI)
      then show ?thesis using Some by (simp add: update_all_map map_add_def)
    next
      case False
      then obtain w where w: "map_of cache k = Some w" "py_equal w v"
        using v by (auto simp: changed_in_def split: option.splits)
      then have "w = v" using same v by blast
      moreover have "map_of (rev (changed_in cache new)) k = None"
      proof -
        have "(k, u) \<in> set new \<Longrightarrow> u = v" for u using v dist by (meson eq_key_imp_eq_value)
        moreover have "(k, u) \<in> set (changed_in cache new) \<Longrightarrow> (k, u) \<in> set new" for u
          by (simp add: changed_in_def)
        ultimately have "(k, u) \<notin> set (changed_in cache new)" for u
          using False by blast
        then have "k \<notin> fst ` set (changed_in cache new)" by force
        then show ?thesis by (simp add: map_of_eq_None_iff)
      qed
      ultimately show ?thesis using Some w by (simp add: update_all_map map_add_def)
    qed
  qed
qed

subsection \<open>The invariant\<close>

definition subscribed :: "nat \<Rightarrow> string list option \<Rightarrow> settings_state \<Rightarrow> bool" where
  "subscribed t sel st \<longleftrightarrow>
     (t, sel) \<in> set (ss_subscribers st) \<and> distinct (List.map fst (ss_subscribers st)) \<and>
     list_all (\<lambda>(u, s). u < ss_next_token st) (ss_subscribers st)"

definition tokens_ok :: "settings_state \<Rightarrow> bool" where
  "tokens_ok st \<longleftrightarrow> distinct (List.map fst (ss_subscribers st)) \<and>
     list_all (\<lambda>(u, s). u < ss_next_token st) (ss_subscribers st)"

lemma announce_subscribers [simp]:
  "ss_subscribers (announce ch st) = ss_subscribers st" "ss_next_token (announce ch st) = ss_next_token st"
  "ss_loaded (announce ch st) = ss_loaded st"
  by (simp_all add: announce_def Let_def)

lemma announce_delivers:
  assumes "subscribed t sel st" "wants sel [k]"
  shows "\<exists>ds. ss_delivered (announce changed st) = ss_delivered st @ ds \<and>
    map_of (mirror t ds m) k = map_of (update_all changed m) k"
proof (cases "changed = []")
  case True
  then show ?thesis by (simp add: announce_def mirror_def update_all_def)
next
  case False
  let ?ch = "\<lparr>sc_version = ss_version st + 1, sc_keys = List.map fst changed, sc_values = changed\<rparr>"
  let ?ds = "List.map (\<lambda>(t, sel). (t, ?ch)) (filter (\<lambda>(t, sel). wants sel (List.map fst changed)) (ss_subscribers st))"
  have m: "mirror t ?ds m = (if wants sel (List.map fst changed) then update_all changed m else m)"
    using mirror_announced [of "ss_subscribers st" t sel ?ch "List.map fst changed" m] assms(1)
    by (simp add: subscribed_def)
  have "map_of (update_all changed m) k = map_of m k" if "\<not> wants sel (List.map fst changed)"
  proof -
    have "k \<notin> fst ` set changed" using wants_member [OF assms(2), of "List.map fst changed"] that by auto
    then have "map_of (rev changed) k = None" by (simp add: map_of_eq_None_iff)
    then show ?thesis by (simp add: update_all_map map_add_def)
  qed
  then have "map_of (mirror t ?ds m) k = map_of (update_all changed m) k"
    unfolding m by (cases "wants sel (List.map fst changed)") simp_all
  moreover have "ss_delivered (announce changed st) = ss_delivered st @ ?ds"
    using False by (simp add: announce_def Let_def)
  ultimately show ?thesis by blast
qed

lemma mirror_cong: "map_of m k = map_of m' k \<Longrightarrow> map_of (mirror t ds m) k = map_of (mirror t ds m') k"
proof (induction ds arbitrary: m m')
  case (Cons d ds)
  obtain u c where "d = (u, c)" by (cases d)
  then show ?case
    using Cons.IH [of "update_all (sc_values c) m" "update_all (sc_values c) m'"] Cons.IH [of m m'] Cons.prems
    by (simp add: mirror_def update_all_map map_add_def cong: option.case_cong)
qed (simp add: mirror_def)

text \<open>A batch is a dictionary: it names a key once.\<close>

fun keeps_subscription :: "nat \<Rightarrow> settings_event \<Rightarrow> bool" where
  "keeps_subscription t (SetMany internal commits raws) = distinct (List.map fst raws)"
| "keeps_subscription t (Unsubscribe u) = (u \<noteq> t)"
| "keeps_subscription t _ = True"

lemma coerce_all_keys: "coerce_all env internal items = Inr kvs \<Longrightarrow> List.map fst kvs = List.map fst items"
proof (induction items arbitrary: kvs)
  case (Cons item items)
  then show ?case
    by (auto simp: coerce_one_def split: sum.splits option.splits if_splits prod.splits)
qed simp

lemma load_rows_keys:
  assumes "load_rows env rows c = Inr c'" "distinct (List.map fst (lc_values c))"
  shows "distinct (List.map fst (lc_values c')) \<and> dom (map_of (lc_values c)) \<subseteq> dom (map_of (lc_values c'))"
  using assms
proof (induction env rows c rule: load_rows.induct)
  case (2 env k raw rows c)
  show ?case
  proof (cases "setting_by_key env k")
    case (Some d)
    show ?thesis
    proof (cases "coerce_setting env d raw")
      case (Inl e)
      then show ?thesis using 2 Some by (cases e) auto
    next
      case (Inr v)
      then show ?thesis using 2(3) [OF Some Inr] 2(4,5) Some
        by (auto simp: distinct_update update_conv dom_def split: if_splits)
    qed
  qed (use 2 in simp)
qed simp

lemma default_keys: "distinct (List.map fst (base_defaults env))"
  using catalogue_keys by (simp add: base_defaults_def SETTINGS_def comp_def)

lemma reset_values_distinct: "distinct ks \<Longrightarrow> distinct (List.map fst (reset_values env ks))"
proof (induction ks)
  case (Cons k ks)
  have "fst ` set (reset_values env ks) \<subseteq> set ks" by (auto simp: reset_values_def in_map_filter)
  then show ?case using Cons
    by (cases "setting_by_key env k") (auto simp: reset_values_def List.map_filter_simps)
qed (simp add: reset_values_def List.map_filter_simps)

lemma map_of_rev_distinct:
  assumes "distinct (List.map fst m)"
  shows "map_of (rev m) k = map_of m k"
proof (cases "map_of m k")
  case None
  moreover have "map_of (rev m) k = None"
    unfolding map_of_eq_None_iff using None by (simp add: map_of_eq_None_iff)
  ultimately show ?thesis by simp
next
  case (Some v)
  have "distinct (List.map fst (rev m))" using assms by (simp add: rev_map [symmetric])
  then have "map_of (rev m) k = Some v" by (rule map_of_is_SomeI) (use map_of_SomeD [OF Some] in simp)
  then show ?thesis using Some by simp
qed

text \<open>Every step keeps the subscription, and what it delivers turns the old cache into the new.\<close>

definition follows :: "nat \<Rightarrow> string \<Rightarrow> settings_state \<Rightarrow> settings_state \<Rightarrow> bool" where
  "follows t k st st' \<longleftrightarrow>
     (\<exists>ds. ss_delivered st' = ss_delivered st @ ds \<and> map_of (mirror t ds (ss_cache st)) k = map_of (ss_cache st') k)"

lemma announce_follows:
  assumes "subscribed t sel st" "wants sel [k]" "ss_delivered st = ss_delivered st0"
    and "map_of (update_all changed (ss_cache st0)) k = map_of (ss_cache st) k"
  shows "follows t k st0 (announce changed st)"
  using announce_delivers [OF assms(1,2), of changed "ss_cache st0"] assms(3,4) by (auto simp: follows_def)

lemma no_delivery_follows:
  "ss_delivered st' = ss_delivered st \<Longrightarrow> ss_cache st' = ss_cache st \<Longrightarrow> follows t k st st'"
  by (simp add: follows_def mirror_def)

lemma conforming_same:
  assumes "conforming env m" "setting_by_key env k = Some d" "conforms d v" "map_of m k = Some w" "py_equal w v"
  shows "w = v"
  using conformingD [OF assms(1,4)] assms conforms_py_equal by auto

lemma set_many_follows:
  assumes sub: "subscribed t sel st" and w: "wants sel [k]" and c: "conforming env (ss_cache st)"
    and dist: "distinct (List.map fst raws)"
  shows "follows t k st (snd (set_many env internal commits raws st))"
proof (cases "coerce_all env internal raws")
  case (Inr kvs)
  show ?thesis
  proof (cases "kvs = [] \<or> \<not> commits")
    case False
    let ?st = "st\<lparr>ss_rows := update_all kvs (ss_rows st), ss_cache := update_all kvs (ss_cache st),
                   ss_explicit := List.union (ss_explicit st) (List.map fst kvs)\<rparr>"
    have "map_of (update_all (changed_in (ss_cache st) kvs) (ss_cache st)) k = map_of (update_all kvs (ss_cache st)) k"
    proof (rule update_changed)
      show "distinct (List.map fst kvs)" using dist coerce_all_keys [OF Inr] by simp
      show "w = v" if "(k, v) \<in> set kvs" "map_of (ss_cache st) k = Some w" "py_equal w v" for k v w
        using coerce_all_conforms [OF Inr that(1)] conforming_same [OF c _ _ that(2,3)] by blast
    qed
    then have "follows t k st (announce (changed_in (ss_cache st) kvs) ?st)"
      by (intro announce_follows [OF _ w]) (use sub in \<open>simp_all add: subscribed_def\<close>)
    then show ?thesis using Inr False by (simp add: set_many_def)
  qed (use Inr in \<open>auto simp: set_many_def intro: no_delivery_follows\<close>)
qed (simp add: set_many_def no_delivery_follows)

lemma reset_many_follows:
  assumes sub: "subscribed t sel st" and w: "wants sel [k]" and c: "conforming env (ss_cache st)"
  shows "follows t k st (snd (reset_many env commits keys st))"
proof -
  define ks where "ks = rev (remdups (rev keys))"
  let ?new = "reset_values env ks"
  show ?thesis
  proof (cases "List.find (\<lambda>k. setting_by_key env k = None) ks = None \<and> ks \<noteq> [] \<and> commits")
    case True
    let ?st = "st\<lparr>ss_rows := filter (\<lambda>(k, v). k \<notin> set ks) (ss_rows st), ss_cache := update_all ?new (ss_cache st),
                   ss_explicit := filter (\<lambda>k. k \<notin> set ks) (ss_explicit st)\<rparr>"
    have "map_of (update_all (changed_in (ss_cache st) ?new) (ss_cache st)) k = map_of (update_all ?new (ss_cache st)) k"
    proof (rule update_changed)
      show "distinct (List.map fst ?new)" by (rule reset_values_distinct) (simp add: ks_def)
      show "w = v" if new: "(k, v) \<in> set ?new" and old: "map_of (ss_cache st) k = Some w" "py_equal w v" for k v w
      proof -
        obtain d where "setting_by_key env k = Some d" "v = effective_default env d"
          using new by (auto simp: reset_values_def in_map_filter)
        then show ?thesis using conforming_same [OF c _ _ old] found_default_conforms by metis
      qed
    qed
    then have "follows t k st (announce (changed_in (ss_cache st) ?new) ?st)"
      by (intro announce_follows [OF _ w]) (use sub in \<open>simp_all add: subscribed_def\<close>)
    then show ?thesis
      using True by (simp add: reset_many_def ks_def [symmetric] reset_values_def [symmetric] Let_def)
  next
    case False
    then have "snd (reset_many env commits keys st) = st"
      by (auto simp: reset_many_def ks_def [symmetric] Let_def split: option.splits)
    then show ?thesis by (simp add: no_delivery_follows)
  qed
qed

lemma reload_follows:
  assumes sub: "subscribed t sel st" and w: "wants sel [k]" and c: "conforming env (ss_cache st)"
    and loaded: "ss_loaded st"
  shows "follows t k st (snd (reload env st))"
proof (cases "build_cache env (ss_rows st)")
  case (Inr n)
  let ?new = "lc_values n"
  note keys = load_rows_keys [OF Inr [unfolded build_cache_def]]
  have dist: "distinct (List.map fst ?new)" using keys default_keys by simp
  have conf: "conforming env ?new"
    by (rule conforming_load [OF _ Inr [unfolded build_cache_def]]) (simp add: conforming_defaults)
  have whole: "map_of ?new k \<noteq> None" if there: "map_of (ss_cache st) k \<noteq> None" for k
  proof -
    obtain d where "setting_by_key env k = Some d" using there conformingD [OF c] by blast
    then have "k \<in> dom (map_of (base_defaults env))" by (simp add: defaults_map dom_def)
    moreover have "dom (map_of (base_defaults env)) \<subseteq> dom (map_of ?new)" using keys default_keys by simp
    ultimately show ?thesis by blast
  qed
  have "map_of (update_all (changed_in (ss_cache st) ?new) (ss_cache st)) k = map_of (update_all ?new (ss_cache st)) k"
  proof (rule update_changed [OF dist])
    show "w = v" if "(k, v) \<in> set ?new" "map_of (ss_cache st) k = Some w" "py_equal w v" for k v w
      using conformingD [OF conf map_of_is_SomeI [OF dist that(1)]] conforming_same [OF c _ _ that(2,3)] by blast
  qed
  also have "\<dots> = map_of ?new k"
  proof -
    have "map_of (rev ?new) k = map_of ?new k"
      by (rule map_of_rev_distinct [OF dist])
    then show ?thesis using whole [of k] by (cases "map_of (ss_cache st) k") (auto simp: update_all_map map_add_def split: option.splits)
  qed
  finally have "follows t k st (announce (changed_in (ss_cache st) ?new)
      (st\<lparr>ss_cache := ?new, ss_explicit := lc_explicit n, ss_loaded := True\<rparr>))"
    by (intro announce_follows [OF _ w]) (use sub in \<open>simp_all add: subscribed_def\<close>)
  then show ?thesis using Inr loaded by (simp add: reload_def Let_def)
qed (simp add: reload_def no_delivery_follows)

lemma step_follows:
  assumes "subscribed t sel st" "wants sel [k]" "conforming env (ss_cache st)" "ss_loaded st" "keeps_subscription t ev"
  shows "follows t k st (settings_step env st ev)"
  using assms set_many_follows reset_many_follows reload_follows
  by (cases ev) (simp_all add: no_delivery_follows subscribe_def unsubscribe_def)

lemma step_subscribed:
  assumes "subscribed t sel st" "keeps_subscription t ev"
  shows "subscribed t sel (settings_step env st ev)"
proof (cases ev)
  case (Unsubscribe u)
  then show ?thesis using assms
    by (auto simp: subscribed_def unsubscribe_def list_all_iff AList.delete_eq distinct_map_filter)
next
  case (Subscribe s)
  then show ?thesis using assms by (auto simp: subscribed_def subscribe_def list_all_iff)
qed (use assms in \<open>auto simp: subscribed_def set_many_def reset_many_def reload_def Let_def split: sum.splits option.splits\<close>)

lemma step_tokens_ok: "tokens_ok st \<Longrightarrow> tokens_ok (settings_step env st ev)"
proof (cases ev)
  case (Unsubscribe u)
  assume "tokens_ok st"
  then show ?thesis using Unsubscribe
    by (auto simp: tokens_ok_def unsubscribe_def list_all_iff AList.delete_eq distinct_map_filter)
next
  case (Subscribe s)
  assume "tokens_ok st"
  then show ?thesis using Subscribe by (auto simp: tokens_ok_def subscribe_def list_all_iff)
qed (auto simp: tokens_ok_def set_many_def reset_many_def reload_def Let_def split: sum.splits option.splits)

lemma step_loaded: "ss_loaded st \<Longrightarrow> ss_loaded (settings_step env st ev)"
  by (cases ev) (auto simp: set_many_def reset_many_def reload_def subscribe_def unsubscribe_def Let_def
    split: sum.splits option.splits)

lemma run_follows:
  assumes "subscribed t sel st" "wants sel [k]" "conforming env (ss_cache st)" "ss_loaded st"
    and "list_all (keeps_subscription t) events"
  shows "follows t k st (settings_run env st events)"
  using assms
proof (induction events arbitrary: st)
  case Nil
  then show ?case by (simp add: settings_run_def no_delivery_follows)
next
  case (Cons ev events)
  let ?mid = "settings_step env st ev"
  have "follows t k st ?mid" by (rule step_follows) (use Cons.prems in simp_all)
  then obtain ds where ds: "ss_delivered ?mid = ss_delivered st @ ds"
    and old: "map_of (mirror t ds (ss_cache st)) k = map_of (ss_cache ?mid) k"
    by (auto simp: follows_def)
  have "follows t k ?mid (settings_run env ?mid events)"
    by (rule Cons.IH) (use Cons.prems step_subscribed step_conforming step_loaded in simp_all)
  then obtain es where es: "ss_delivered (settings_run env ?mid events) = ss_delivered ?mid @ es"
    and new: "map_of (mirror t es (ss_cache ?mid)) k = map_of (ss_cache (settings_run env ?mid events)) k"
    by (auto simp: follows_def)
  have "map_of (mirror t (ds @ es) (ss_cache st)) k = map_of (ss_cache (settings_run env ?mid events)) k"
    using mirror_cong [OF old] new by (simp add: mirror_append)
  moreover have "settings_run env st (ev # events) = settings_run env ?mid events"
    by (simp add: settings_run_def)
  ultimately show ?case using ds es by (auto simp: follows_def)
qed

lemma announce_version: "ss_version st \<le> ss_version (announce ch st)"
  by (simp add: announce_def Let_def)

text \<open>The tokens stay distinct, and the version a waiter compares with never goes back.\<close>

interpretation subscribing: monotone_machine "settings_step env" tokens_ok ss_version for env
proof unfold_locales
  show "tokens_ok (settings_step env st ev)" if "tokens_ok st" for st ev by (rule step_tokens_ok [OF that])
  show "ss_version st \<le> ss_version (settings_step env st ev)" for st ev
    using announce_version
    by (cases ev) (auto simp: set_many_def reset_many_def reload_def subscribe_def unsubscribe_def Let_def
      split: sum.splits option.splits intro: order_trans [OF _ announce_version])
qed

lemma run_tokens_ok: "tokens_ok st \<Longrightarrow> tokens_ok (settings_run env st events)"
  unfolding settings_run_def by (rule subscribing.run_inv)

text \<open>C12: A subscriber hears every change it asked for. Take a loaded service in any reachable
  state, subscribe with any selectors, and let anything happen but that subscription's end: batches
  set or refused, resets, reloads, the table replaced, other subscribers coming and going. A copy
  of the cache taken at the subscription, to which the changes delivered under its token are applied
  in order, then agrees with the cache on every key the selectors cover. (A batch is a dictionary.)\<close>

theorem subscriber_hears_every_change:
  assumes "ss_loaded (settings_run env (new_service env rows) before)"
    and "wants sel [k]"
    and "list_all (keeps_subscription (fst (subscribe sel (settings_run env (new_service env rows) before)))) after"
  shows "map_of (mirror (fst (subscribe sel (settings_run env (new_service env rows) before)))
      (drop (length (ss_delivered (settings_run env (new_service env rows) before)))
        (ss_delivered (settings_run env (snd (subscribe sel (settings_run env (new_service env rows) before))) after)))
      (ss_cache (settings_run env (new_service env rows) before))) k =
    map_of (ss_cache (settings_run env (snd (subscribe sel (settings_run env (new_service env rows) before))) after)) k"
proof -
  define st where "st = settings_run env (new_service env rows) before"
  have ok: "tokens_ok st" unfolding st_def by (rule run_tokens_ok) (simp add: tokens_ok_def new_service_def)
  have c: "conforming env (ss_cache st)"
    unfolding st_def by (rule run_conforming) (simp add: new_service_def conforming_defaults)
  have "subscribed (fst (subscribe sel st)) sel (snd (subscribe sel st))"
    using ok by (auto simp: subscribed_def tokens_ok_def subscribe_def list_all_iff)
  then have "follows (fst (subscribe sel st)) k (snd (subscribe sel st)) (settings_run env (snd (subscribe sel st)) after)"
    by (rule run_follows) (use c assms in \<open>simp_all add: subscribe_def st_def\<close>)
  then show ?thesis
    unfolding st_def [symmetric] by (auto simp: follows_def subscribe_def)
qed

theorem subscriber_hears_every_change_witness:
  "map_of (mirror (fst (subscribe (Some [''scanner'']) (settings_run sample_settings_env (new_service sample_settings_env []) [Reload])))
      (drop (length (ss_delivered (settings_run sample_settings_env (new_service sample_settings_env []) [Reload])))
        (ss_delivered (settings_run sample_settings_env
          (snd (subscribe (Some [''scanner'']) (settings_run sample_settings_env (new_service sample_settings_env []) [Reload])))
          [SetMany False True [(''scanner.settle_seconds'', VStr ''120'')]])))
      (ss_cache (settings_run sample_settings_env (new_service sample_settings_env []) [Reload]))) ''scanner.settle_seconds'' =
    map_of (ss_cache (settings_run sample_settings_env
      (snd (subscribe (Some [''scanner'']) (settings_run sample_settings_env (new_service sample_settings_env []) [Reload])))
      [SetMany False True [(''scanner.settle_seconds'', VStr ''120'')]])) ''scanner.settle_seconds''"
  by (rule subscriber_hears_every_change)
    (simp_all add: settings_run_def new_service_def reload_def build_cache_def Let_def announce_def
      wants_def key_matches_def starts_with_def)

end
