(* ===== verification/Measure.thy ===== *)
theory Measure
  imports Paths
begin

section \<open>Measuring the footage tree\<close>

text \<open>
  The second half of \<^verbatim>\<open>core/paths.py\<close>: the recursive size of a directory
  (\<^verbatim>\<open>directory_size\<close>, a loop over a stack of directories) and the memoised
  \<^verbatim>\<open>measure_tree\<close> with its generation counter, as a machine whose walks overlap with
  deletions.
\<close>

subsection \<open>\<^verbatim>\<open>directory_size\<close>\<close>

text \<open>
  What \<^verbatim>\<open>os.scandir\<close> shows of an entry. A directory that cannot be listed has no
  children; an entry whose \<^verbatim>\<open>stat\<close> fails is \<open>Broken\<close>; links are never followed.
\<close>

datatype fs_entry =
    FileEntry string int
  | DirEntry "fs_entry list option"
  | LinkEntry
  | OtherEntry
  | Broken

datatype extensions_arg = NoExtensions | ExtensionText string | ExtensionList "string list"

fun split_on :: "char \<Rightarrow> string \<Rightarrow> string list" where
  "split_on d [] = [[]]"
| "split_on d (c # cs) =
     (if c = d then [] # split_on d cs
      else case split_on d cs of [] \<Rightarrow> [[c]] | w # ws \<Rightarrow> (c # w) # ws)"

definition extension_items :: "extensions_arg \<Rightarrow> string list option" where
  "extension_items e =
     (case e of NoExtensions \<Rightarrow> None | ExtensionText t \<Rightarrow> Some (split_on CHR '','' t)
      | ExtensionList xs \<Rightarrow> Some xs)"

definition normal_extension :: "string \<Rightarrow> string" where
  "normal_extension e = CHR ''.'' # lower (dropWhile (\<lambda>c. c = CHR ''.'') e)"

definition wanted_extensions :: "extensions_arg \<Rightarrow> string list option" where
  "wanted_extensions e =
     (case extension_items e of
        None \<Rightarrow> None
      | Some xs \<Rightarrow>
          (let w = List.map normal_extension
                     (filter (\<lambda>x. \<exists>c \<in> set x. c \<noteq> CHR ''.'' \<and> c \<noteq> CHR '' '') xs)
           in if w = [] then None else Some w))"

text \<open>\<^verbatim>\<open>os.path.splitext(name)[1]\<close>: the last dot counts unless only dots stand before it.\<close>

definition splitext_ext :: "string \<Rightarrow> string" where
  "splitext_ext name =
     (let tail = rev (takeWhile (\<lambda>c. c \<noteq> CHR ''.'') (rev name));
          stem = take (length name - length tail - 1) name
      in if CHR ''.'' \<in> set name \<and> (\<exists>c \<in> set stem. c \<noteq> CHR ''.'')
         then CHR ''.'' # tail else [])"

definition wanted_file :: "string list option \<Rightarrow> string \<Rightarrow> bool" where
  "wanted_file wanted name =
     (case wanted of None \<Rightarrow> True | Some w \<Rightarrow> lower (splitext_ext name) \<in> set w)"

text \<open>The body of the inner loop: a directory is pushed, a wanted file is counted.\<close>

fun scan_entry ::
  "string list option \<Rightarrow> fs_entry \<Rightarrow> fs_entry list option list \<times> int \<times> int \<Rightarrow>
   fs_entry list option list \<times> int \<times> int" where
  "scan_entry w (FileEntry name sz) (stack, b, n) =
     (if wanted_file w name then (stack, b + sz, n + 1) else (stack, b, n))"
| "scan_entry w (DirEntry es) (stack, b, n) = (es # stack, b, n)"
| "scan_entry w LinkEntry st = st"
| "scan_entry w OtherEntry st = st"
| "scan_entry w Broken st = st"

fun entry_weight :: "fs_entry \<Rightarrow> nat" where
  "entry_weight (DirEntry (Some es)) = Suc (sum_list (List.map entry_weight es))"
| "entry_weight (DirEntry None) = 1"
| "entry_weight _ = 0"

definition stack_weight :: "fs_entry list option list \<Rightarrow> nat" where
  "stack_weight st = sum_list (List.map (\<lambda>es. entry_weight (DirEntry es)) st)"

lemma scan_weight:
  "fold (scan_entry w) es (st, b, n) = (st', b', n') \<Longrightarrow>
   stack_weight st' = stack_weight st + sum_list (List.map entry_weight es)"
proof (induction es arbitrary: st b n)
  case (Cons e es)
  obtain st1 b1 n1 where step: "scan_entry w e (st, b, n) = (st1, b1, n1)"
    by (metis prod_cases3)
  then have "stack_weight st1 = stack_weight st + entry_weight e"
    by (cases e) (auto simp: stack_weight_def split: if_splits)
  moreover have "stack_weight st' = stack_weight st1 + sum_list (List.map entry_weight es)"
    using Cons step by simp
  ultimately show ?case by simp
qed (simp add: stack_weight_def)

lemma scan_weight_fst:
  "stack_weight (fst (fold (scan_entry w) es (st, acc))) < Suc (sum_list (List.map entry_weight es) + stack_weight st)"
proof -
  obtain b n where acc: "acc = (b, n)" by (cases acc)
  obtain st' b' n' where r: "fold (scan_entry w) es (st, b, n) = (st', b', n')"
    by (metis prod_cases3)
  from scan_weight [OF r] r acc show ?thesis by simp
qed

function walk ::
  "string list option \<Rightarrow> fs_entry list option list \<Rightarrow> int \<times> int \<Rightarrow> int \<times> int" where
  "walk w [] acc = acc"
| "walk w (None # st) acc = walk w st acc"
| "walk w (Some es # st) acc =
     (let r = fold (scan_entry w) es (st, acc) in walk w (fst r) (snd r))"
  by pat_completeness auto
termination
proof (relation "measure (\<lambda>(w, st, acc). stack_weight st)", goal_cases)
  case (3 w es st acc r)
  then show ?case using scan_weight_fst [of w es st acc] by (simp add: stack_weight_def case_prod_unfold)
qed (simp_all add: stack_weight_def)

definition directory_size :: "fs_entry list option \<Rightarrow> extensions_arg \<Rightarrow> int \<times> int" where
  "directory_size es extensions = walk (wanted_extensions extensions) [es] (0, 0)"

text \<open>The specification: every file that counts, once, wherever it lies.\<close>

fun tree_bytes :: "string list option \<Rightarrow> fs_entry \<Rightarrow> int" where
  "tree_bytes w (FileEntry name sz) = (if wanted_file w name then sz else 0)"
| "tree_bytes w (DirEntry (Some es)) = sum_list (List.map (tree_bytes w) es)"
| "tree_bytes w _ = 0"

fun tree_files :: "string list option \<Rightarrow> fs_entry \<Rightarrow> int" where
  "tree_files w (FileEntry name sz) = (if wanted_file w name then 1 else 0)"
| "tree_files w (DirEntry (Some es)) = sum_list (List.map (tree_files w) es)"
| "tree_files w _ = 0"

definition stack_total :: "(fs_entry \<Rightarrow> int) \<Rightarrow> fs_entry list option list \<Rightarrow> int" where
  "stack_total f st = sum_list (List.map (\<lambda>es. f (DirEntry es)) st)"

lemma scan_total:
  "fold (scan_entry w) es (st, b, n) = (st', b', n') \<Longrightarrow>
   stack_total (tree_bytes w) st' + b' =
     stack_total (tree_bytes w) st + b + sum_list (List.map (tree_bytes w) es) \<and>
   stack_total (tree_files w) st' + n' =
     stack_total (tree_files w) st + n + sum_list (List.map (tree_files w) es)"
proof (induction es arbitrary: st b n)
  case (Cons e es)
  obtain st1 b1 n1 where step: "scan_entry w e (st, b, n) = (st1, b1, n1)"
    by (metis prod_cases3)
  then have "stack_total (tree_bytes w) st1 + b1 = stack_total (tree_bytes w) st + b + tree_bytes w e"
    "stack_total (tree_files w) st1 + n1 = stack_total (tree_files w) st + n + tree_files w e"
    by (cases e; auto simp: stack_total_def split: if_splits)+
  with Cons.IH [of st1 b1 n1] Cons.prems step show ?case by simp
qed (simp add: stack_total_def)

lemma walk_total:
  "walk w st (b, n) =
     (stack_total (tree_bytes w) st + b, stack_total (tree_files w) st + n)"
proof (induction w st "(b, n)" arbitrary: b n rule: walk.induct)
  case (3 w es st b n)
  obtain st' b' n' where r: "fold (scan_entry w) es (st, b, n) = (st', b', n')"
    by (metis prod_cases3)
  with 3 scan_total [OF r] show ?case by (simp add: stack_total_def)
qed (simp_all add: stack_total_def)

text \<open>The stack walk of \<^verbatim>\<open>directory_size\<close> terminates on every tree and returns the
  bytes and the number of the wanted regular files in it, each counted once, links and
  unreadable entries skipped.\<close>

theorem directory_size_total:
  "directory_size es extensions =
     (tree_bytes (wanted_extensions extensions) (DirEntry es),
      tree_files (wanted_extensions extensions) (DirEntry es))"
  by (simp add: directory_size_def walk_total stack_total_def)

subsection \<open>\<^verbatim>\<open>measure_tree\<close> and its cache\<close>

text \<open>
  \<open>mc_cache\<close> holds when a measurement was taken (seconds of the monotonic clock) and what it
  said. A call either answers from the cache or starts a walk in a thread, remembering the
  generation; the walk's result is cached only if the generation is still the same.
\<close>

record 'k measure_cache =
  mc_cache :: "'k \<Rightarrow> (real \<times> (int \<times> int)) option"
  mc_generation :: nat

definition cache_lookup :: "'k \<Rightarrow> real \<Rightarrow> real \<Rightarrow> 'k measure_cache \<Rightarrow> (int \<times> int) option" where
  "cache_lookup k max_age now mc =
     (if 0 < max_age then
        (case mc_cache mc k of
           Some (t, v) \<Rightarrow> if now - t < max_age then Some v else None
         | None \<Rightarrow> None)
      else None)"

definition cache_store ::
  "'k \<Rightarrow> nat \<Rightarrow> real \<Rightarrow> int \<times> int \<Rightarrow> 'k measure_cache \<Rightarrow> 'k measure_cache" where
  "cache_store k generation now v mc =
     (if generation = mc_generation mc
      then mc\<lparr>mc_cache := (mc_cache mc)(k := Some (now, v))\<rparr> else mc)"

definition forget_tree_measurements :: "'k measure_cache \<Rightarrow> 'k measure_cache" where
  "forget_tree_measurements mc =
     mc\<lparr>mc_generation := mc_generation mc + 1, mc_cache := (\<lambda>_. None)\<rparr>"

text \<open>
  The walks in flight and the tree they measure. A walk that nothing overtook reads the
  tree; one that a deletion overtook may report anything (\<open>torn\<close>).
\<close>

record 'k measure_world =
  mw_tree :: "'k \<Rightarrow> int \<times> int"
  mw_mc :: "'k measure_cache"
  mw_walks :: "('k \<times> nat) list"

datatype 'k measure_event =
    Measure 'k real real
  | WalkEnds nat real "int \<times> int"
  | TreeChanged "'k \<Rightarrow> int \<times> int"

fun measure_step :: "'k measure_world \<Rightarrow> 'k measure_event \<Rightarrow> 'k measure_world" where
  "measure_step w (Measure k max_age now) =
     (case cache_lookup k max_age now (mw_mc w) of
        Some _ \<Rightarrow> w
      | None \<Rightarrow> w\<lparr>mw_walks := mw_walks w @ [(k, mc_generation (mw_mc w))]\<rparr>)"
| "measure_step w (WalkEnds i now torn) =
     (if i < length (mw_walks w) then
        (let (k, g) = mw_walks w ! i;
             v = (if g = mc_generation (mw_mc w) then mw_tree w k else torn)
         in w\<lparr>mw_mc := cache_store k g now v (mw_mc w),
              mw_walks := take i (mw_walks w) @ drop (Suc i) (mw_walks w)\<rparr>)
      else w)"
| "measure_step w (TreeChanged tree) =
     w\<lparr>mw_tree := tree, mw_mc := forget_tree_measurements (mw_mc w)\<rparr>"

definition coherent :: "'k measure_world \<Rightarrow> bool" where
  "coherent w \<longleftrightarrow> (\<forall>k t v. mc_cache (mw_mc w) k = Some (t, v) \<longrightarrow> v = mw_tree w k)"

lemma measure_step_coherent: "coherent w \<Longrightarrow> coherent (measure_step w e)"
  by (cases e)
    (auto simp: coherent_def cache_store_def forget_tree_measurements_def Let_def
      split: option.splits prod.splits)

lemma measure_step_generation:
  "mc_generation (mw_mc w) \<le> mc_generation (mw_mc (measure_step w e))"
  by (cases e)
    (auto simp: cache_store_def forget_tree_measurements_def Let_def
      split: option.splits prod.splits)

interpretation measuring: monotone_machine measure_step coherent "\<lambda>w. mc_generation (mw_mc w)"
  by unfold_locales (simp_all add: measure_step_coherent measure_step_generation)

text \<open>However walks and deletions interleave, a measurement served from the cache is
  the size of the tree as it is now: a walk that a deletion overtook is never cached.\<close>

theorem cached_measure_current:
  assumes "mc_cache (mw_mc w) = (\<lambda>_. None)"
    and "cache_lookup k max_age now (mw_mc (foldl measure_step w es)) = Some v"
  shows "v = mw_tree (foldl measure_step w es) k"
proof -
  have "coherent (foldl measure_step w es)"
    by (rule measuring.run_inv) (simp add: coherent_def assms(1))
  then show ?thesis
    using assms(2) by (auto simp: coherent_def cache_lookup_def split: option.splits if_splits)
qed

definition sample_world :: "nat measure_world" where
  "sample_world = \<lparr>mw_tree = (\<lambda>_. (30, 3)),
     mw_mc = \<lparr>mc_cache = (\<lambda>_. None), mc_generation = 0\<rparr>, mw_walks = []\<rparr>"

lemma cached_measure_current_witness:
  "cache_lookup (1::nat) 60 5 (mw_mc (foldl measure_step sample_world
     [Measure 1 60 0, TreeChanged (\<lambda>_. (20, 2)), WalkEnds 0 1 (99, 9), Measure 1 60 2, WalkEnds 0 4 (0, 0)])) =
     Some (20, 2) \<and> (20, 2) = mw_tree (foldl measure_step sample_world
     [Measure 1 60 0, TreeChanged (\<lambda>_. (20, 2)), WalkEnds 0 1 (99, 9), Measure 1 60 2, WalkEnds 0 4 (0, 0)]) 1"
proof -
  let ?es = "[Measure (1::nat) 60 0, TreeChanged (\<lambda>_. (20, 2)), WalkEnds 0 1 (99, 9), Measure 1 60 2,
    WalkEnds 0 4 (0, 0)]"
  have hit: "cache_lookup 1 60 5 (mw_mc (foldl measure_step sample_world ?es)) = Some (20, 2)"
    by (simp add: sample_world_def cache_lookup_def cache_store_def forget_tree_measurements_def)
  from hit cached_measure_current [of sample_world, OF _ hit] show ?thesis
    by (simp add: sample_world_def)
qed

end
