(* ===== verification/IngestPlan.thy ===== *)
theory IngestPlan
  imports Measure "HOL-Library.List_Lexorder" "HOL-Library.Char_ord"
begin

section \<open>What a pull decides to fetch\<close>

text \<open>
  Models the decisions of \<^verbatim>\<open>backend/app/ingest/puller.py\<close> before a byte moves (\<^verbatim>\<open>delta\<close>,
  \<^verbatim>\<open>_with_deferred_backlog\<close>, \<^verbatim>\<open>_drop_still_growing\<close>, \<^verbatim>\<open>fit_to_free_space\<close>,
  \<^verbatim>\<open>_by_directory\<close>), and the listings they read, from \<^verbatim>\<open>backend/app/ingest/adb.py\<close>
  (\<^verbatim>\<open>inventory\<close>, \<^verbatim>\<open>inventory_all\<close>, \<^verbatim>\<open>list_orphan_partials\<close>, \<^verbatim>\<open>resolve_locked\<close>), with the types of
  \<^verbatim>\<open>ingest/models.py\<close>. The unit's answers, as lines of text, and the sizes of local files are
  arguments.
\<close>

record remote_file =
  rf_name :: string
  rf_size :: int
  rf_mtime :: int
  rf_directory :: string

subsection \<open>Names\<close>

definition is_alnum :: "char \<Rightarrow> bool" where
  "is_alnum c \<longleftrightarrow> is_digit c \<or> is_upper_letter (upper_char c)"

definition is_name_char :: "char \<Rightarrow> bool" where
  "is_name_char c \<longleftrightarrow> is_alnum c \<or> c = CHR ''.'' \<or> c = CHR ''_'' \<or> c = CHR ''-''"

definition plain_name :: "string \<Rightarrow> bool" where
  "plain_name s \<longleftrightarrow> s \<noteq> [] \<and> is_alnum (hd s) \<and> list_all is_name_char s \<and> length s \<le> 128"

text \<open>The pattern ends with \<^verbatim>\<open>$\<close>, which also matches before a final newline.\<close>

definition NEWLINE :: char where "NEWLINE = CHR 0x0A"

fun has_dots :: "string \<Rightarrow> bool" where
  "has_dots (a # b # t) = ((a = CHR ''.'' \<and> b = CHR ''.'') \<or> has_dots (b # t))"
| "has_dots _ = False"

definition is_safe_name :: "string \<Rightarrow> bool" where
  "is_safe_name s \<longleftrightarrow>
     (plain_name s \<or> (s \<noteq> [] \<and> last s = NEWLINE \<and> plain_name (butlast s))) \<and> \<not> has_dots s"

subsection \<open>Listings\<close>

definition parse_listed :: "string \<Rightarrow> string \<Rightarrow> remote_file option" where
  "parse_listed source line =
     (case split_on (CHR ''|'') (strip line) of
        [size_text, name_text, mtime_text] \<Rightarrow>
          if \<not> is_safe_name (strip name_text) then None
          else (case (py_int_of_string size_text, py_int_of_string mtime_text) of
                  (Inr n, Inr t) \<Rightarrow>
                    Some \<lparr>rf_name = strip name_text, rf_size = n, rf_mtime = t, rf_directory = source\<rparr>
                | _ \<Rightarrow> None)
      | _ \<Rightarrow> None)"

definition inventory :: "string \<Rightarrow> string list \<Rightarrow> remote_file list" where
  "inventory source reply = List.map_filter (parse_listed source) reply"

text \<open>Several directories: the first listing wins a name.\<close>

fun first_of_name :: "string set \<Rightarrow> remote_file list \<Rightarrow> remote_file list" where
  "first_of_name known [] = []"
| "first_of_name known (f # fs) =
     (if rf_name f \<in> known then first_of_name known fs
      else f # first_of_name (insert (rf_name f) known) fs)"

definition inventory_all :: "(string \<times> string list) list \<Rightarrow> remote_file list" where
  "inventory_all replies = first_of_name {} (concat (List.map (\<lambda>(source, reply). inventory source reply) replies))"

text \<open>\<^verbatim>\<open>source.rstrip("/").rpartition("/")\<close>\<close>

definition parent_and_leaf :: "string \<Rightarrow> string \<times> string" where
  "parent_and_leaf source =
     (let s = rev (dropWhile (\<lambda>c. c = CHR ''/'') (rev source));
          leaf = rev (takeWhile (\<lambda>c. c \<noteq> CHR ''/'') (rev s))
      in (take (length s - length leaf - 1) s, leaf))"

definition LOCKED_DIRNAME :: string where "LOCKED_DIRNAME = ''LockVideo''"

definition resolve_locked :: "(string \<Rightarrow> string option) \<Rightarrow> string \<Rightarrow> string" where
  "resolve_locked ask source =
     (let (parent, leaf) = parent_and_leaf source; candidate = parent @ ''/'' @ LOCKED_DIRNAME in
      if parent = [] \<or> leaf = [] then []
      else case ask candidate of None \<Rightarrow> [] | Some reply \<Rightarrow> if strip reply = ''yes'' then candidate else [])"

definition PARTIAL_PREFIX :: string where "PARTIAL_PREFIX = ''pre_''"

definition parse_orphan :: "string \<Rightarrow> int \<Rightarrow> int \<Rightarrow> string \<Rightarrow> remote_file option" where
  "parse_orphan parent unit_now min_age line =
     (case parse_listed parent line of
        None \<Rightarrow> None
      | Some f \<Rightarrow>
          if \<not> starts_with PARTIAL_PREFIX (rf_name f) \<or> \<not> is_safe_name (drop (length PARTIAL_PREFIX) (rf_name f))
          then None
          else if rf_size f \<le> 0 \<or> unit_now - rf_mtime f < min_age then None
          else Some f)"

definition list_orphan_partials :: "string list option \<Rightarrow> string \<Rightarrow> int \<Rightarrow> int \<Rightarrow> remote_file list" where
  "list_orphan_partials reply source unit_now min_age =
     (let (parent, leaf) = parent_and_leaf source in
      if parent = [] \<or> leaf = [] then []
      else case reply of
        None \<Rightarrow> []
      | Some lines \<Rightarrow> sort_key rf_mtime (List.map_filter (parse_orphan parent unit_now min_age) lines))"

subsection \<open>The plan\<close>

record delta_plan =
  dp_files :: "remote_file list"
  dp_backlog_files :: int
  dp_backlog_bytes :: int
  dp_active_skipped :: int
  dp_policy_deferred_files :: int
  dp_policy_deferred_bytes :: int
  dp_policy_deferred_until :: "int option"
  dp_duplicate_candidates :: "remote_file list"

definition empty_plan :: delta_plan where
  "empty_plan =
     \<lparr>dp_files = [], dp_backlog_files = 0, dp_backlog_bytes = 0, dp_active_skipped = 0, dp_policy_deferred_files = 0,
      dp_policy_deferred_bytes = 0, dp_policy_deferred_until = None, dp_duplicate_candidates = []\<rparr>"

definition ends_with :: "string \<Rightarrow> string \<Rightarrow> bool" where
  "ends_with suf s \<longleftrightarrow> length suf \<le> length s \<and> drop (length s - length suf) s = suf"

definition of_camera :: "string \<Rightarrow> remote_file \<Rightarrow> bool" where
  "of_camera camera f \<longleftrightarrow> camera = ''both'' \<or> ends_with (''_'' @ camera @ ''.ts'') (rf_name f)"

text \<open>One listed file. \<open>local_size\<close>: the size of the library's regular file of that name.\<close>

definition delta_step ::
  "(string \<Rightarrow> int option) \<Rightarrow> int \<Rightarrow> string \<Rightarrow> string list \<Rightarrow> real \<Rightarrow> delta_plan \<Rightarrow> remote_file \<Rightarrow> delta_plan" where
  "delta_step local_size skip_active camera already now plan item =
     (if rf_name item \<in> set already then plan
      else if now - real_of_int (rf_mtime item) < real_of_int skip_active then
        plan\<lparr>dp_active_skipped := dp_active_skipped plan + 1\<rparr>
      else if local_size (rf_name item) = Some (rf_size item) then
        (if of_camera camera item
         then plan\<lparr>dp_duplicate_candidates := dp_duplicate_candidates plan @ [item]\<rparr> else plan)
      else
        (let plan' = plan\<lparr>dp_backlog_files := dp_backlog_files plan + 1,
                          dp_backlog_bytes := dp_backlog_bytes plan + rf_size item\<rparr>
         in if of_camera camera item then plan'\<lparr>dp_files := dp_files plan' @ [item]\<rparr> else plan'))"

text \<open>\<^verbatim>\<open>list.sort\<close> is stable, in reverse too.\<close>

definition sort_by_name :: "bool \<Rightarrow> remote_file list \<Rightarrow> remote_file list" where
  "sort_by_name newest_first fs =
     (if newest_first then rev (sort_key rf_name (rev fs)) else sort_key rf_name fs)"

definition delta ::
  "(string \<Rightarrow> int option) \<Rightarrow> int \<Rightarrow> string \<Rightarrow> string list \<Rightarrow> bool \<Rightarrow> real \<Rightarrow> remote_file list \<Rightarrow> delta_plan" where
  "delta local_size skip_active camera already newest_first now remote =
     (let plan = foldl (delta_step local_size skip_active camera already now) empty_plan remote
      in plan\<lparr>dp_files := sort_by_name newest_first (dp_files plan)\<rparr>)"

definition with_deferred_backlog ::
  "delta_plan \<Rightarrow> (remote_file \<times> int) list \<Rightarrow> (string \<Rightarrow> int option) \<Rightarrow> string list \<Rightarrow> real \<Rightarrow> string \<Rightarrow>
   delta_plan \<times> (remote_file \<times> int) list" where
  "with_deferred_backlog plan deferred local_size already now camera =
     (let pending = delta local_size 0 ''both'' already False now (List.map fst deferred);
          names = List.map rf_name (dp_files pending);
          kept = filter (\<lambda>(item, until). rf_name item \<in> set names) deferred;
          selected = filter (\<lambda>(item, until). of_camera camera item) kept
      in (plan\<lparr>dp_policy_deferred_files := int (length selected),
               dp_policy_deferred_bytes := sum_list (List.map (rf_size \<circ> fst) selected),
               dp_policy_deferred_until := (if selected = [] then None else Some (Min (snd ` set selected))),
               dp_backlog_files := dp_backlog_files plan + dp_backlog_files pending,
               dp_backlog_bytes := dp_backlog_bytes plan + dp_backlog_bytes pending\<rparr>, kept))"

text \<open>The second look at the card: \<open>None\<close> when the listing failed.\<close>

definition drop_still_growing :: "remote_file list option \<Rightarrow> delta_plan \<Rightarrow> delta_plan" where
  "drop_still_growing again plan =
     (case again of
        None \<Rightarrow> plan
      | Some listing \<Rightarrow>
          (let fresh = map_of (rev (List.map (\<lambda>f. (rf_name f, rf_size f)) listing));
               growing = filter (\<lambda>f. \<exists>s. fresh (rf_name f) = Some s \<and> s \<noteq> rf_size f) (dp_files plan);
               gone = filter (\<lambda>f. fresh (rf_name f) = None) (dp_files plan)
           in if growing = [] \<and> gone = [] then plan
              else plan\<lparr>dp_files := filter (\<lambda>f. fresh (rf_name f) = Some (rf_size f)) (dp_files plan),
                        dp_active_skipped := dp_active_skipped plan + int (length growing)\<rparr>))"

subsection \<open>Space and order\<close>

record space_fit =
  sf_fits :: "remote_file list"
  sf_deferred :: "remote_file list"
  sf_free :: int
  sf_reserve :: int

fun fit_walk :: "remote_file list \<Rightarrow> int \<Rightarrow> remote_file list \<times> remote_file list" where
  "fit_walk [] budget = ([], [])"
| "fit_walk (f # fs) budget =
     (if budget < rf_size f then ([], f # fs)
      else let (fits, deferred) = fit_walk fs (budget - rf_size f) in (f # fits, deferred))"

definition fit_to_free_space :: "remote_file list \<Rightarrow> int \<Rightarrow> int \<Rightarrow> space_fit" where
  "fit_to_free_space files free reserve =
     (if reserve \<le> 0 then \<lparr>sf_fits = files, sf_deferred = [], sf_free = free, sf_reserve = reserve\<rparr>
      else let (fits, deferred) = fit_walk files (free - reserve)
           in \<lparr>sf_fits = fits, sf_deferred = deferred, sf_free = free, sf_reserve = reserve\<rparr>)"

definition nothing_fits :: "space_fit \<Rightarrow> bool" where
  "nothing_fits fit \<longleftrightarrow> sf_deferred fit \<noteq> [] \<and> sf_fits fit = []"

definition deferred_bytes :: "space_fit \<Rightarrow> int" where
  "deferred_bytes fit = sum_list (List.map rf_size (sf_deferred fit))"

text \<open>\<^verbatim>\<open>_fit_plan_to_space\<close>: the plan after it, and what it learnt.\<close>

definition fit_plan_to_space :: "remote_file list \<Rightarrow> int option \<Rightarrow> real \<Rightarrow> remote_file list \<times> space_fit option" where
  "fit_plan_to_space files free min_free_gb =
     (case free of
        None \<Rightarrow> (files, None)
      | Some f \<Rightarrow>
          (let fit = fit_to_free_space files f (trunc_real (max 0 min_free_gb * 10 ^ 9))
           in (if sf_deferred fit = [] then files else sf_fits fit, Some fit)))"

text \<open>Batches by directory, in the order in which the plan first names them.\<close>

fun into_batch :: "string \<Rightarrow> remote_file \<Rightarrow> (string \<times> remote_file list) list \<Rightarrow> (string \<times> remote_file list) list" where
  "into_batch d f [] = [(d, [f])]"
| "into_batch d f ((e, fs) # bs) = (if e = d then (e, fs @ [f]) # bs else (e, fs) # into_batch d f bs)"

definition directory_of :: "string \<Rightarrow> remote_file \<Rightarrow> string" where
  "directory_of dflt f = (if rf_directory f = [] then dflt else rf_directory f)"

definition by_directory :: "remote_file list \<Rightarrow> string \<Rightarrow> (string \<times> remote_file list) list" where
  "by_directory files dflt = foldl (\<lambda>bs f. into_batch (directory_of dflt f) f bs) [] files"

section \<open>What the plan promises\<close>

subsection \<open>Listed names are safe to put into a shell command\<close>

lemma safe_stripped:
  assumes "is_safe_name (strip s)"
  shows "plain_name (strip s)"
proof (rule ccontr)
  assume "\<not> plain_name (strip s)"
  then have l: "strip s \<noteq> []" "last (strip s) = NEWLINE" using assms by (auto simp: is_safe_name_def)
  let ?r = "dropWhile is_space (rev (dropWhile is_space s))"
  have "?r \<noteq> []" "hd ?r = NEWLINE" using l by (simp_all add: strip_def last_rev)
  then have "\<not> is_space NEWLINE" using hd_dropWhile [of is_space "rev (dropWhile is_space s)"] by metis
  then show False by (simp add: is_space_def NEWLINE_def)
qed

lemma parse_listed_safe:
  "parse_listed source line = Some f \<Longrightarrow> plain_name (rf_name f) \<and> \<not> has_dots (rf_name f) \<and> rf_directory f = source"
  by (auto simp: parse_listed_def safe_stripped is_safe_name_def split: list.splits if_splits sum.splits
    dest: safe_stripped [unfolded is_safe_name_def])

lemma inventory_safe: "f \<in> set (inventory source reply) \<Longrightarrow> plain_name (rf_name f) \<and> \<not> has_dots (rf_name f)"
  by (auto simp: inventory_def in_map_filter dest!: parse_listed_safe)

lemma first_of_name_find:
  "n \<notin> known \<Longrightarrow> find (\<lambda>f. rf_name f = n) (first_of_name known fs) = find (\<lambda>f. rf_name f = n) fs"
  by (induction fs arbitrary: known) auto

lemma first_of_name_subset: "set (first_of_name known fs) \<subseteq> set fs"
  by (induction fs arbitrary: known) auto

lemma first_of_name_distinct:
  "distinct (List.map rf_name (first_of_name known fs)) \<and> known \<inter> rf_name ` set (first_of_name known fs) = {}"
proof (induction fs arbitrary: known)
  case (Cons f fs)
  show ?case using Cons [of known] Cons [of "insert (rf_name f) known"] by auto
qed simp

text \<open>The inventory of a card is fit to work with, and complete. Whatever the unit answers, every
  name it yields consists of letters, digits, dots, dashes and underscores, begins with a letter or
  digit, has no two dots in a row and is at most 128 long, so none can break out of the shell
  commands it is put into or leave its directory; no two entries share a name; and for every name
  that any of the directories lists, the entry is the first one listed, in the order of the directories.\<close>

theorem inventory_fit:
  "list_all (\<lambda>f. plain_name (rf_name f) \<and> \<not> has_dots (rf_name f)) (inventory_all replies) \<and>
   distinct (List.map rf_name (inventory_all replies)) \<and>
   find (\<lambda>f. rf_name f = n) (inventory_all replies) =
     find (\<lambda>f. rf_name f = n) (concat (List.map (\<lambda>(source, reply). inventory source reply) replies))"
proof -
  have "plain_name (rf_name f) \<and> \<not> has_dots (rf_name f)" if "f \<in> set (inventory_all replies)" for f
    using that first_of_name_subset unfolding inventory_all_def by (fastforce dest: inventory_safe)
  then show ?thesis using first_of_name_distinct first_of_name_find [of n "{}"]
    by (auto simp: list_all_iff inventory_all_def)
qed

subsection \<open>The delta\<close>

definition wanted_by_delta ::
  "(string \<Rightarrow> int option) \<Rightarrow> int \<Rightarrow> string \<Rightarrow> string list \<Rightarrow> real \<Rightarrow> remote_file \<Rightarrow> bool" where
  "wanted_by_delta local_size skip_active camera already now f \<longleftrightarrow>
     rf_name f \<notin> set already \<and> real_of_int skip_active \<le> now - real_of_int (rf_mtime f) \<and>
     local_size (rf_name f) \<noteq> Some (rf_size f) \<and> of_camera camera f"

lemma delta_fold_files:
  "dp_files (foldl (delta_step ls sk camera already now) plan remote) =
    dp_files plan @ filter (wanted_by_delta ls sk camera already now) remote"
  by (induction remote arbitrary: plan) (auto simp: delta_step_def wanted_by_delta_def Let_def)

lemma delta_files:
  "dp_files (delta ls sk camera already newest now remote) =
    sort_by_name newest (filter (wanted_by_delta ls sk camera already now) remote)"
  by (simp add: delta_def Let_def delta_fold_files empty_plan_def)

lemma set_sort_by_name [simp]: "set (sort_by_name newest fs) = set fs"
  by (simp add: sort_by_name_def)

subsection \<open>The reserve\<close>

lemma fit_walk_split: "fit_walk fs budget = (fits, deferred) \<Longrightarrow> fs = fits @ deferred"
  by (induction fs arbitrary: budget fits) (auto split: if_splits prod.splits)

lemma fit_walk_bound: "fit_walk fs budget = (fits, deferred) \<Longrightarrow> fits \<noteq> [] \<Longrightarrow> sum_list (List.map rf_size fits) \<le> budget"
proof (induction fs arbitrary: budget fits)
  case (Cons f fs)
  then obtain fits' where f: "fits = f # fits'" "fit_walk fs (budget - rf_size f) = (fits', deferred)"
      "rf_size f \<le> budget"
    by (auto split: if_splits prod.splits)
  then show ?case using Cons.IH [OF f(2)] by (cases fits') auto
qed simp

lemma fit_walk_tight:
  "fit_walk fs budget = (fits, d # ds) \<Longrightarrow> budget < sum_list (List.map rf_size fits) + rf_size d"
proof (induction fs arbitrary: budget fits)
  case (Cons f fs)
  show ?case
  proof (cases "budget < rf_size f")
    case True
    then show ?thesis using Cons.prems by simp
  next
    case False
    then obtain fits' where f: "fits = f # fits'" "fit_walk fs (budget - rf_size f) = (fits', d # ds)"
      using Cons.prems by (auto split: prod.splits)
    then show ?thesis using Cons.IH [OF f(2)] by simp
  qed
qed simp

text \<open>The reserve is kept, and the order with it. The files that are fetched and those that are
  put off are the plan, cut in two; what is fetched leaves the reserve free (unless nothing is
  fetched); and the first file put off would not have fitted.\<close>

theorem space_reserve_kept:
  assumes "0 < reserve"
  shows "sf_fits (fit_to_free_space files free reserve) @ sf_deferred (fit_to_free_space files free reserve) = files \<and>
    (sf_fits (fit_to_free_space files free reserve) = [] \<or>
      reserve \<le> free - sum_list (List.map rf_size (sf_fits (fit_to_free_space files free reserve)))) \<and>
    (sf_deferred (fit_to_free_space files free reserve) = [] \<or>
      free - sum_list (List.map rf_size (sf_fits (fit_to_free_space files free reserve))) -
        rf_size (hd (sf_deferred (fit_to_free_space files free reserve))) < reserve)"
proof -
  obtain fits deferred where w: "fit_walk files (free - reserve) = (fits, deferred)" by (cases "fit_walk files (free - reserve)")
  then have f: "fit_to_free_space files free reserve = \<lparr>sf_fits = fits, sf_deferred = deferred, sf_free = free, sf_reserve = reserve\<rparr>"
    using assms by (simp add: fit_to_free_space_def)
  have "deferred = [] \<or> free - reserve < sum_list (List.map rf_size fits) + rf_size (hd deferred)"
    using fit_walk_tight [of files "free - reserve" fits "hd deferred" "tl deferred"] w by (cases deferred) auto
  then show ?thesis
    using fit_walk_split [OF w] fit_walk_bound [OF w] unfolding f by (cases "fits = []") auto
qed

theorem space_reserve_kept_witness:
  "(let f = (\<lambda>n s. \<lparr>rf_name = n, rf_size = s, rf_mtime = 0, rf_directory = []\<rparr>);
        fit = fit_to_free_space [f ''a.ts'' 3, f ''b.ts'' 9, f ''c.ts'' 1] 15 5
    in sf_fits fit @ sf_deferred fit = [f ''a.ts'' 3, f ''b.ts'' 9, f ''c.ts'' 1] \<and>
       (sf_fits fit = [] \<or> 5 \<le> 15 - sum_list (List.map rf_size (sf_fits fit))) \<and>
       (sf_deferred fit = [] \<or> 15 - sum_list (List.map rf_size (sf_fits fit)) - rf_size (hd (sf_deferred fit)) < 5))"
  unfolding Let_def by (rule space_reserve_kept) simp

subsection \<open>Batches\<close>

lemma into_batch_files: "mset (concat (List.map snd (into_batch d f bs))) = add_mset f (mset (concat (List.map snd bs)))"
  by (induction bs) (auto split: prod.splits)

lemma by_directory_files: "mset (concat (List.map snd (by_directory files dflt))) = mset files"
proof -
  have "mset (concat (List.map snd (foldl (\<lambda>bs f. into_batch (directory_of dflt f) f bs) bs files))) =
      mset (concat (List.map snd bs)) + mset files" for bs
    by (induction files arbitrary: bs) (simp_all add: into_batch_files)
  from this [of "[]"] show ?thesis by (simp add: by_directory_def)
qed

end
