(* ===== verification/IngestStream.thy ===== *)
theory IngestStream
  imports IngestPlan
begin

section \<open>Receiving the stream\<close>

text \<open>
  Models \<^verbatim>\<open>receive\<close> of \<^verbatim>\<open>backend/app/ingest/transport.py\<close>: what it accepts from the tar stream and
  what it writes into the staging directory. \<^verbatim>\<open>tarfile\<close> and the socket are given by what they
  yield: the members in order, each with the bytes its data reads as and whether reading it
  breaks off, and how the stream ends. A write is a name with the bytes the file was left with.
\<close>

definition DEFAULT_MAX_MEMBER_BYTES :: int where "DEFAULT_MAX_MEMBER_BYTES = 16 * 1024 * 1024 * 1024"
definition DEFAULT_MAX_TOTAL_BYTES :: int where "DEFAULT_MAX_TOTAL_BYTES = 256 * 1024 * 1024 * 1024"
definition TAR_STREAM_BASE_OVERHEAD :: int where "TAR_STREAM_BASE_OVERHEAD = 64 * 1024"
definition TAR_STREAM_MEMBER_OVERHEAD :: int where "TAR_STREAM_MEMBER_OVERHEAD = 2 * 1024"

text \<open>How reading can end early: cancelled, more raw bytes than allowed, or broken, where a broken
  connection can be tried again and a broken archive or a full disk cannot.\<close>

datatype break_off = CancelSeen | RawLimit | ConnectionBroken | LocalOrFormatError

record tar_member =
  tm_name :: string
  tm_is_file :: bool
  tm_size :: int
  tm_extractable :: bool
  tm_data :: "nat list"
  tm_break :: "break_off option"

datatype transfer_error =
    NegativeLimits | InvalidInventory | NoFootageDirectory | ConnectFailed
  | TransferCancelled | UnsafeArchive | StillToCome nat | StreamBroken

record transfer_result =
  tr_files :: "string list"
  tr_bytes :: int
  tr_seconds :: real
  tr_complete :: bool
  tr_error :: "transfer_error option"
  tr_retryable :: bool

definition empty_result :: transfer_result where
  "empty_result =
     \<lparr>tr_files = [], tr_bytes = 0, tr_seconds = 0, tr_complete = False, tr_error = None, tr_retryable = False\<rparr>"

text \<open>\<^verbatim>\<open>_CountingReader.read\<close>: the cancel flag, the socket, then the limit on raw bytes.\<close>

definition counted_read :: "bool \<Rightarrow> nat option \<Rightarrow> int \<Rightarrow> int \<Rightarrow> break_off + int" where
  "counted_read cancelled chunk received maximum =
     (if cancelled then Inl CancelSeen
      else case chunk of
        None \<Rightarrow> Inl ConnectionBroken
      | Some n \<Rightarrow> if 0 < n \<and> maximum < received + int n then Inl RawLimit else Inr (received + int n))"

subsection \<open>The inventory the caller expects\<close>

datatype inventory_spec = NoInventory | NamesOnly "string list" | Sizes "(string \<times> int) list"

definition expected_names :: "inventory_spec \<Rightarrow> string list option" where
  "expected_names sp = (case sp of NoInventory \<Rightarrow> None | NamesOnly ns \<Rightarrow> Some ns | Sizes m \<Rightarrow> Some (List.map fst m))"

definition size_of :: "inventory_spec \<Rightarrow> string \<Rightarrow> int option" where
  "size_of sp n = (case sp of Sizes m \<Rightarrow> map_of m n | _ \<Rightarrow> None)"

definition total_limit :: "inventory_spec \<Rightarrow> int \<Rightarrow> int" where
  "total_limit sp max_total =
     (case sp of Sizes m \<Rightarrow> min max_total (sum_list (List.map snd m)) | _ \<Rightarrow> max_total)"

definition raw_stream_limit :: "inventory_spec \<Rightarrow> int \<Rightarrow> int" where
  "raw_stream_limit sp max_total =
     total_limit sp max_total + TAR_STREAM_BASE_OVERHEAD +
       TAR_STREAM_MEMBER_OVERHEAD * int (case expected_names sp of None \<Rightarrow> 0 | Some ns \<Rightarrow> length ns)"

subsection \<open>One member\<close>

text \<open>\<^verbatim>\<open>Path(name).name\<close>: the last component that is neither empty nor a dot.\<close>

definition base_name :: "string \<Rightarrow> string" where
  "base_name n =
     (case rev (filter (\<lambda>c. c \<noteq> [] \<and> c \<noteq> ''.'') (split_on (CHR ''/'') n)) of [] \<Rightarrow> [] | c # cs \<Rightarrow> c)"

definition unsafe_path :: "string \<Rightarrow> bool" where
  "unsafe_path n \<longleftrightarrow>
     (let b = base_name n in
      b = [] \<or> hd b = CHR ''.'' \<or> n \<noteq> b \<or> CHR ''/'' \<in> set n \<or> CHR 0x5C \<in> set n)"

definition READ_SIZE :: nat where "READ_SIZE = 1048576"

text \<open>Data is copied a chunk at a time; the chunk that would pass the declared size is not written.\<close>

definition written :: "tar_member \<Rightarrow> nat list" where
  "written m =
     (if tm_size m < int (length (tm_data m)) then take (READ_SIZE * (nat (tm_size m) div READ_SIZE)) (tm_data m)
      else tm_data m)"

record unpacking =
  up_known :: "string list"
  up_copied :: int
  up_files :: "string list"
  up_writes :: "(string \<times> nat list) list"

text \<open>What the local disk does to one file: it cannot be opened, or takes only so many bytes.\<close>

datatype local_fault = CannotOpen | WriteFailsAfter nat

definition fails_within :: "local_fault option \<Rightarrow> nat list \<Rightarrow> nat option" where
  "fails_within fault bytes =
     (case fault of Some (WriteFailsAfter k) \<Rightarrow> if k < length bytes then Some k else None | _ \<Rightarrow> None)"

datatype member_end = Next | Reject | Broke break_off

definition refused :: "inventory_spec \<Rightarrow> int \<Rightarrow> int \<Rightarrow> tar_member \<Rightarrow> unpacking \<Rightarrow> bool" where
  "refused sp max_member max_total m up \<longleftrightarrow>
     \<not> tm_is_file m \<or> unsafe_path (tm_name m) \<or>
     (case expected_names sp of None \<Rightarrow> False | Some ns \<Rightarrow> tm_name m \<notin> set ns) \<or>
     tm_name m \<in> set (up_known up) \<or> tm_size m < 0 \<or> max_member < tm_size m \<or>
     (case size_of sp (tm_name m) of None \<Rightarrow> False | Some s \<Rightarrow> tm_size m \<noteq> s) \<or>
     max_total < up_copied up + tm_size m"

text \<open>The data is written chunk by chunk, until the disk fails, it breaks off or outgrows its declared size.\<close>

definition unpack_member ::
  "inventory_spec \<Rightarrow> int \<Rightarrow> int \<Rightarrow> (string \<Rightarrow> local_fault option) \<Rightarrow> tar_member \<Rightarrow> unpacking \<Rightarrow> member_end \<times> unpacking" where
  "unpack_member sp max_member max_total local_error m up =
     (if refused sp max_member max_total m up then (Reject, up)
      else
        (let up1 = up\<lparr>up_known := up_known up @ [tm_name m]\<rparr>;
             up2 = up1\<lparr>up_writes := up_writes up @ [(tm_name m, written m)]\<rparr>
         in if \<not> tm_extractable m then (Next, up1)
            else if local_error (tm_name m) = Some CannotOpen then (Broke LocalOrFormatError, up1)
            else if fails_within (local_error (tm_name m)) (written m) \<noteq> None then
              (Broke LocalOrFormatError,
               up1\<lparr>up_writes := up_writes up @ [(tm_name m, take (the (fails_within (local_error (tm_name m)) (written m))) (written m))]\<rparr>)
            else if tm_size m < int (length (tm_data m)) then (Reject, up2)
            else case tm_break m of
              Some b \<Rightarrow> (Broke b, up2)
            | None \<Rightarrow>
                if int (length (tm_data m)) \<noteq> tm_size m then (Reject, up2)
                else (Next, up2\<lparr>up_copied := up_copied up + tm_size m, up_files := up_files up @ [tm_name m]\<rparr>)))"

fun unpack ::
  "inventory_spec \<Rightarrow> int \<Rightarrow> int \<Rightarrow> (string \<Rightarrow> local_fault option) \<Rightarrow> tar_member list \<Rightarrow> break_off option \<Rightarrow> unpacking \<Rightarrow>
   member_end \<times> unpacking" where
  "unpack sp mm mt le [] fin up = (case fin of None \<Rightarrow> (Next, up) | Some b \<Rightarrow> (Broke b, up))"
| "unpack sp mm mt le (m # ms) fin up =
     (case unpack_member sp mm mt le m up of
        (Next, up') \<Rightarrow> unpack sp mm mt le ms fin up'
      | r \<Rightarrow> r)"

subsection \<open>The transfer\<close>

record connection =
  cn_members :: "tar_member list"
  cn_end :: "break_off option"
  cn_raw_bytes :: int
  cn_seconds :: real

definition receive ::
  "bool \<Rightarrow> inventory_spec \<Rightarrow> int \<Rightarrow> int \<Rightarrow> (string \<Rightarrow> local_fault option) \<Rightarrow> connection option \<Rightarrow>
   transfer_result \<times> (string \<times> nat list) list" where
  "receive parent_is_dir sp max_member max_total local_error conn =
     (if max_member < 0 \<or> max_total < 0 then (empty_result\<lparr>tr_error := Some NegativeLimits\<rparr>, [])
      else if (case sp of Sizes m \<Rightarrow> list_ex (\<lambda>(n, s). s < 0) m | _ \<Rightarrow> False)
        then (empty_result\<lparr>tr_error := Some InvalidInventory\<rparr>, [])
      else if \<not> parent_is_dir then (empty_result\<lparr>tr_error := Some NoFootageDirectory\<rparr>, [])
      else case conn of
        None \<Rightarrow> (empty_result\<lparr>tr_error := Some ConnectFailed, tr_retryable := True\<rparr>, [])
      | Some c \<Rightarrow>
          (let (fin, up) = unpack sp max_member (total_limit sp max_total) local_error (cn_members c) (cn_end c)
                             \<lparr>up_known = [], up_copied = 0, up_files = [], up_writes = []\<rparr>;
               missing = (case expected_names sp of None \<Rightarrow> [] | Some ns \<Rightarrow> filter (\<lambda>n. n \<notin> set (up_files up)) (remdups ns));
               base = \<lparr>tr_files = up_files up, tr_bytes = cn_raw_bytes c, tr_seconds = cn_seconds c, tr_complete = False,
                       tr_error = None, tr_retryable = False\<rparr>
           in (case fin of
                 Next \<Rightarrow>
                   if missing = [] then base\<lparr>tr_complete := True\<rparr>
                   else base\<lparr>tr_error := Some (StillToCome (length missing)), tr_retryable := True\<rparr>
               | Reject \<Rightarrow> base\<lparr>tr_error := Some UnsafeArchive\<rparr>
               | Broke CancelSeen \<Rightarrow> base\<lparr>tr_error := Some TransferCancelled\<rparr>
               | Broke RawLimit \<Rightarrow> base\<lparr>tr_error := Some UnsafeArchive\<rparr>
               | Broke ConnectionBroken \<Rightarrow> base\<lparr>tr_error := Some StreamBroken, tr_retryable := True\<rparr>
               | Broke LocalOrFormatError \<Rightarrow> base\<lparr>tr_error := Some StreamBroken\<rparr>,
               up_writes up)))"

section \<open>What is reported arrived whole\<close>

definition written_bytes :: "(string \<times> nat list) list \<Rightarrow> int" where
  "written_bytes ws = int (sum_list (List.map (length \<circ> snd) ws))"

text \<open>Names are opened once each; what is listed is whole; nothing is opened that was not asked for.\<close>

definition whole_file :: "inventory_spec \<Rightarrow> (string \<times> nat list) list \<Rightarrow> string \<Rightarrow> bool" where
  "whole_file sp ws n \<longleftrightarrow>
     \<not> unsafe_path n \<and>
     (case expected_names sp of None \<Rightarrow> True | Some ns \<Rightarrow> n \<in> set ns) \<and>
     (\<exists>b. map_of ws n = Some b \<and> (case size_of sp n of None \<Rightarrow> True | Some s \<Rightarrow> int (length b) = s))"

definition sound_unpacking :: "inventory_spec \<Rightarrow> int \<Rightarrow> unpacking \<Rightarrow> bool" where
  "sound_unpacking sp limit up \<longleftrightarrow>
     distinct (List.map fst (up_writes up)) \<and> set (List.map fst (up_writes up)) \<subseteq> set (up_known up) \<and>
     list_all (whole_file sp (up_writes up)) (up_files up) \<and> written_bytes (up_writes up) \<le> limit"

lemma written_length: "0 \<le> tm_size m \<Longrightarrow> int (length (written m)) \<le> tm_size m"
proof -
  assume s: "0 \<le> tm_size m"
  have k: "READ_SIZE * (nat (tm_size m) div READ_SIZE) \<le> nat (tm_size m)" by (simp add: mult.commute)
  show ?thesis
  proof (cases "tm_size m < int (length (tm_data m))")
    case True
    then have "length (written m) \<le> READ_SIZE * (nat (tm_size m) div READ_SIZE)" by (simp add: written_def)
    then have "length (written m) \<le> nat (tm_size m)" using k by (rule le_trans)
    then show ?thesis using s by linarith
  next
    case False
    then show ?thesis by (simp add: written_def)
  qed
qed

lemma whole_file_append:
  assumes "whole_file sp ws n" shows "whole_file sp (ws @ w) n"
  using assms by (auto simp: whole_file_def map_add_def split: option.splits)

lemma not_written: "n \<notin> set (List.map fst ws) \<Longrightarrow> map_of (ws @ [(n, b)]) n = Some b"
  by (induction ws) auto

lemma written_bytes_append [simp]: "written_bytes (ws @ [(n, b)]) = written_bytes ws + int (length b)"
  by (simp add: written_bytes_def)

lemma unpack_member_sound:
  assumes up: "sound_unpacking sp limit up" "written_bytes (up_writes up) \<le> up_copied up"
  shows "sound_unpacking sp limit (snd (unpack_member sp mm limit le m up)) \<and>
    (fst (unpack_member sp mm limit le m up) = Next \<longrightarrow>
      written_bytes (up_writes (snd (unpack_member sp mm limit le m up))) \<le> up_copied (snd (unpack_member sp mm limit le m up)))"
proof (cases "refused sp mm limit m up")
  case True
  then show ?thesis using up by (simp add: unpack_member_def)
next
  case False
  define up1 where "up1 = up\<lparr>up_known := up_known up @ [tm_name m]\<rparr>"
  define up2 where "up2 = up1\<lparr>up_writes := up_writes up @ [(tm_name m, written m)]\<rparr>"
  define up3 where "up3 = up2\<lparr>up_copied := up_copied up + tm_size m, up_files := up_files up @ [tm_name m]\<rparr>"
  have ok: "tm_name m \<notin> set (up_known up)" "0 \<le> tm_size m" "up_copied up + tm_size m \<le> limit" "\<not> unsafe_path (tm_name m)"
      "case expected_names sp of None \<Rightarrow> True | Some ns \<Rightarrow> tm_name m \<in> set ns"
      "case size_of sp (tm_name m) of None \<Rightarrow> True | Some s \<Rightarrow> tm_size m = s"
    using False by (auto simp: refused_def split: option.splits)
  have new: "tm_name m \<notin> set (List.map fst (up_writes up))" using ok(1) up(1) by (auto simp: sound_unpacking_def)
  have s1: "sound_unpacking sp limit up1" using up(1) by (auto simp: sound_unpacking_def up1_def)
  have keep: "list_all (whole_file sp (up_writes up @ [(tm_name m, b)])) (up_files up)" for b
    using up(1) whole_file_append by (fastforce simp: sound_unpacking_def list_all_iff)
  have cut: "sound_unpacking sp limit (up1\<lparr>up_writes := up_writes up @ [(tm_name m, take k (written m))]\<rparr>)" for k
    using up new keep [of "take k (written m)"] written_length [OF ok(2)] ok(3)
    by (auto simp: sound_unpacking_def up1_def)
  have s2: "sound_unpacking sp limit up2"
    using up new keep [of "written m"] written_length [OF ok(2)] ok(3) by (auto simp: sound_unpacking_def up2_def up1_def)
  have "whole_file sp (up_writes up @ [(tm_name m, written m)]) (tm_name m)" if "int (length (tm_data m)) = tm_size m"
    using that ok(4-6) not_written [OF new] by (auto simp: whole_file_def written_def split: option.splits)
  then have s3: "sound_unpacking sp limit up3" if "int (length (tm_data m)) = tm_size m"
    using s2 keep [of "written m"] that by (auto simp: sound_unpacking_def up3_def up2_def up1_def)
  have "unpack_member sp mm limit le m up \<in>
      {(Next, up1), (Broke LocalOrFormatError, up1), (Reject, up2)} \<union> {(Broke b, up2) |b. True} \<union>
      {(Broke LocalOrFormatError, up1\<lparr>up_writes := up_writes up @ [(tm_name m, take k (written m))]\<rparr>) |k. True} \<union>
      (if int (length (tm_data m)) = tm_size m then {(Next, up3)} else {})"
    using False by (auto simp: unpack_member_def Let_def up1_def [symmetric] up2_def [symmetric] up3_def [symmetric] split: option.split)
  then show ?thesis
    using s1 s2 s3 cut up(2) written_length [OF ok(2)] ok(2)
    by (auto simp: up1_def up2_def up3_def split: if_splits)
qed

lemma unpack_sound:
  assumes "sound_unpacking sp limit up" "written_bytes (up_writes up) \<le> up_copied up"
  shows "sound_unpacking sp limit (snd (unpack sp mm limit le ms fin up))"
  using assms
proof (induction ms arbitrary: up)
  case Nil
  then show ?case by (simp split: option.split)
next
  case (Cons m ms)
  obtain r up' where r: "unpack_member sp mm limit le m up = (r, up')" by (cases "unpack_member sp mm limit le m up")
  then show ?case using unpack_member_sound [OF Cons.prems, of mm le m] Cons.IH [of up'] by (cases r) auto
qed

text \<open>C18: What a transfer lists has arrived whole, and nothing else got in. For an inventory of names
  with sizes: every file the transfer lists was asked for, has a flat name, and was written with
  exactly its inventoried size; no name was opened twice; and all it wrote, whole files and the
  beginnings of others, is no more than the inventory adds up to. Whatever the stream contained,
  however it ended and whatever failed locally.\<close>

theorem received_files_are_whole:
  "list_all (whole_file (Sizes m) (snd (receive parent (Sizes m) mm mt le conn))) (tr_files (fst (receive parent (Sizes m) mm mt le conn))) \<and>
   distinct (List.map fst (snd (receive parent (Sizes m) mm mt le conn))) \<and>
   written_bytes (snd (receive parent (Sizes m) mm mt le conn)) \<le> max 0 (sum_list (List.map snd m))"
proof (cases "0 \<le> mm \<and> 0 \<le> mt \<and> \<not> list_ex (\<lambda>(n, s). s < 0) m \<and> parent \<and> conn \<noteq> None")
  case True
  then obtain c where c: "conn = Some c" by auto
  define limit where "limit = total_limit (Sizes m) mt"
  have "0 \<le> sum_list (List.map snd m)" using True by (intro sum_list_nonneg) (auto simp: list_ex_iff)
  then have limit: "0 \<le> limit" "limit \<le> sum_list (List.map snd m)" using True by (auto simp: limit_def total_limit_def)
  obtain fin up where u: "unpack (Sizes m) mm limit le (cn_members c) (cn_end c)
      \<lparr>up_known = [], up_copied = 0, up_files = [], up_writes = []\<rparr> = (fin, up)"
    by (meson surj_pair)
  have "sound_unpacking (Sizes m) limit up"
    using unpack_sound [of "Sizes m" limit "\<lparr>up_known = [], up_copied = 0, up_files = [], up_writes = []\<rparr>" mm le "cn_members c" "cn_end c"]
      u limit(1) by (simp add: sound_unpacking_def written_bytes_def)
  moreover have "snd (receive parent (Sizes m) mm mt le conn) = up_writes up"
      "tr_files (fst (receive parent (Sizes m) mm mt le conn)) = up_files up"
    using True u by (simp_all add: receive_def c limit_def [symmetric] Let_def not_le [symmetric] split: member_end.split break_off.split)
  ultimately show ?thesis using limit by (simp add: sound_unpacking_def)
next
  case False
  then have "snd (receive parent (Sizes m) mm mt le conn) = []" "tr_files (fst (receive parent (Sizes m) mm mt le conn)) = []"
    by (auto simp: receive_def empty_result_def split: option.split)
  then show ?thesis by (simp add: written_bytes_def)
qed

end
