(* ===== verification/IngestMove.thy ===== *)
theory IngestMove
  imports IngestStream
begin

section \<open>Moving a plan, chunk by chunk\<close>

text \<open>
  Models \<^verbatim>\<open>_move\<close>, \<^verbatim>\<open>_absorb\<close> and \<^verbatim>\<open>_CommitPipeline\<close> of \<^verbatim>\<open>backend/app/ingest/puller.py\<close>: the
  listener per chunk, the one recovery a pass may spend, the checks of the radio lease and of the
  operator's cancel, and the hand-over of finished chunks. The world answers by the count of the
  questions it was asked so far, so that an answer can change between any two of them.
\<close>

text \<open>\<open>mv_lease\<close> tells whether the pass holds a lease at all.\<close>

record move_env =
  mv_lease :: bool
  mv_lease_lost :: "nat \<Rightarrow> bool"
  mv_quiet :: "nat \<Rightarrow> bool"
  mv_cancelled :: "nat \<Rightarrow> bool"
  mv_listener_fails :: "nat \<Rightarrow> bool"
  mv_receive :: "nat \<Rightarrow> remote_file list \<Rightarrow> transfer_result"
  mv_serving :: "nat \<Rightarrow> bool"
  mv_resumable :: "nat \<Rightarrow> bool"
  mv_submit_fails :: "nat \<Rightarrow> bool"
  mv_yields :: "nat \<Rightarrow> bool"

text \<open>What leaves the pass as an exception: the lease, the listener, or a failed earlier commit.\<close>

datatype move_fault = LeaseLost | NotQuiet | ListenerFailed | CommitFailedBefore

text \<open>\<^verbatim>\<open>error\<close> of a result: the transfer's own, possibly with the remark that the unit stopped first.\<close>

datatype move_error = FromTransfer transfer_error bool | OperatorCancelled

record moved =
  mo_files :: "string list"
  mo_bytes :: int
  mo_seconds :: real
  mo_complete :: bool
  mo_error :: "move_error option"

definition fresh_moved :: "bool \<Rightarrow> moved" where
  "fresh_moved whole = \<lparr>mo_files = [], mo_bytes = 0, mo_seconds = 0, mo_complete = whole, mo_error = None\<rparr>"

definition absorb :: "moved \<Rightarrow> moved \<Rightarrow> moved" where
  "absorb acc part =
     \<lparr>mo_files = mo_files acc @ mo_files part, mo_bytes = mo_bytes acc + mo_bytes part,
      mo_seconds = mo_seconds acc + mo_seconds part, mo_complete = (mo_complete acc \<and> mo_complete part),
      mo_error = (case mo_error acc of None \<Rightarrow> mo_error part | Some e \<Rightarrow> Some e)\<rparr>"

text \<open>The part of a chunk's result that one listener adds.\<close>

definition add_part :: "moved \<Rightarrow> transfer_result \<Rightarrow> bool \<Rightarrow> moved" where
  "add_part batch part serving =
     \<lparr>mo_files = mo_files batch @ tr_files part, mo_bytes = mo_bytes batch + tr_bytes part,
      mo_seconds = mo_seconds batch + tr_seconds part, mo_complete = tr_complete part,
      mo_error = (case tr_error part of None \<Rightarrow> None
                  | Some e \<Rightarrow> Some (FromTransfer e (\<not> tr_complete part \<and> \<not> serving)))\<rparr>"

definition cancelled_batch :: "moved \<Rightarrow> moved" where
  "cancelled_batch batch = batch\<lparr>mo_complete := False, mo_error := Some OperatorCancelled\<rparr>"

subsection \<open>One chunk\<close>

record chunk_state =
  ch_batch :: moved
  ch_recovered :: bool
  ch_calls :: nat
  ch_time :: nat

text \<open>One turn of the \<^verbatim>\<open>while pending\<close> loop: a fault, the state, and what is left when it goes around
  again, which spends the one recovery of the pass.\<close>

definition try_listener ::
  "move_env \<Rightarrow> remote_file list \<Rightarrow> chunk_state \<Rightarrow> move_fault option \<times> chunk_state \<times> remote_file list option" where
  "try_listener env pending st =
     (let t = ch_time st; lost = (\<lambda>k. mv_lease env \<and> mv_lease_lost env (t + k)) in
      if lost 0 then (Some LeaseLost, st, None)
      else if mv_cancelled env (t + 1)
        then (None, st\<lparr>ch_batch := cancelled_batch (ch_batch st), ch_time := t + 2\<rparr>, None)
      else if mv_lease env \<and> \<not> mv_quiet env (t + 2) then (Some NotQuiet, st, None)
      else if mv_cancelled env (t + 3)
        then (None, st\<lparr>ch_batch := cancelled_batch (ch_batch st), ch_time := t + 4\<rparr>, None)
      else if mv_listener_fails env (t + 4) then (Some ListenerFailed, st, None)
      else
        (let part = mv_receive env (t + 5) pending;
             rest = filter (\<lambda>f. rf_name f \<notin> set (tr_files part)) pending;
             st' = st\<lparr>ch_batch := add_part (ch_batch st) part (mv_serving env (t + 6)),
                      ch_calls := ch_calls st + 1, ch_time := t + 9\<rparr>
         in if lost 7 then (Some LeaseLost, st', None)
            else if tr_complete part \<or> rest = [] \<or> \<not> tr_retryable part \<or> ch_recovered st then (None, st', None)
            else if \<not> mv_resumable env (t + 8) then (None, st', None)
            else (None, st'\<lparr>ch_recovered := True\<rparr>, Some rest)))"

lemma try_listener_again:
  "try_listener env pending st = (f, st', Some rest) \<Longrightarrow> \<not> ch_recovered st \<and> ch_recovered st'"
  by (auto simp: try_listener_def Let_def split: if_splits)

function move_chunk :: "move_env \<Rightarrow> remote_file list \<Rightarrow> chunk_state \<Rightarrow> move_fault option \<times> chunk_state" where
  "move_chunk env pending st =
     (if pending = [] then (None, st)
      else case try_listener env pending st of
        (f, st', None) \<Rightarrow> (f, st')
      | (f, st', Some rest) \<Rightarrow> move_chunk env rest st')"
  by pat_completeness auto
termination
  by (relation "measure (\<lambda>(env, pending, st). if ch_recovered st then 0 else 1)")
    (auto dest!: try_listener_again [OF sym])

declare move_chunk.simps [simp del]

subsection \<open>The pass\<close>

definition chunks_of :: "nat \<Rightarrow> remote_file list \<Rightarrow> remote_file list list" where
  "chunks_of n batch =
     (if n = 0 then [batch]
      else List.map (\<lambda>k. take n (drop (k * n) batch)) [0..<(length batch + n - 1) div n])"

record pass_state =
  ps_total :: moved
  ps_handed :: "remote_file list list"
  ps_recovered :: bool
  ps_calls :: nat
  ps_time :: nat

datatype pass_end = Continue | Stop | Yielded | Raised move_fault

definition move_step ::
  "move_env \<Rightarrow> bool \<Rightarrow> bool \<Rightarrow> remote_file list \<Rightarrow> pass_state \<Rightarrow> pass_end \<times> pass_state" where
  "move_step env hands_over may_yield chunk ps =
     (case move_chunk env chunk
             \<lparr>ch_batch = fresh_moved False, ch_recovered = ps_recovered ps, ch_calls = ps_calls ps, ch_time = ps_time ps\<rparr> of
        (Some f, st) \<Rightarrow> (Raised f, ps\<lparr>ps_calls := ch_calls st\<rparr>)
      | (None, st) \<Rightarrow>
          (let t = ch_time st;
               ps1 = ps\<lparr>ps_total := absorb (ps_total ps) (ch_batch st), ps_recovered := ch_recovered st,
                        ps_calls := ch_calls st, ps_time := t + 4\<rparr>;
               ps2 = (if hands_over then ps1\<lparr>ps_handed := ps_handed ps1 @ [chunk]\<rparr> else ps1)
           in if hands_over \<and> mv_submit_fails env t then (Raised CommitFailedBefore, ps1)
              else if mv_lease env \<and> mv_lease_lost env (t + 1) then (Raised LeaseLost, ps2)
              else if \<not> mo_complete (ch_batch st) \<or> mv_cancelled env (t + 2) then (Stop, ps2)
              else if may_yield \<and> mv_yields env (t + 3) then
                (if mv_lease env \<and> mv_lease_lost env (t + 4) then (Raised LeaseLost, ps2\<lparr>ps_time := t + 5\<rparr>)
                 else (Yielded, ps2\<lparr>ps_time := t + 5\<rparr>))
              else (Continue, ps2)))"

text \<open>The chunks of one directory; a stop is final for the pass when it left the total incomplete
  or the cancel flag is still up, and goes on with the next directory otherwise.\<close>

fun move_batch ::
  "move_env \<Rightarrow> bool \<Rightarrow> bool \<Rightarrow> remote_file list list \<Rightarrow> pass_state \<Rightarrow> pass_end \<times> pass_state" where
  "move_batch env ho my [] ps = (Continue, ps)"
| "move_batch env ho my (c # cs) ps =
     (case move_step env ho my c ps of
        (Continue, ps') \<Rightarrow> move_batch env ho my cs ps'
      | r \<Rightarrow> r)"

fun move_batches ::
  "move_env \<Rightarrow> bool \<Rightarrow> bool \<Rightarrow> remote_file list list list \<Rightarrow> pass_state \<Rightarrow> pass_end \<times> pass_state" where
  "move_batches env ho my [] ps = (Continue, ps)"
| "move_batches env ho my (b # bs) ps =
     (case move_batch env ho my b ps of
        (Raised f, ps') \<Rightarrow> (Raised f, ps')
      | (Yielded, ps') \<Rightarrow> (Yielded, ps')
      | (_, ps') \<Rightarrow>
          if \<not> mo_complete (ps_total ps') \<or> mv_cancelled env (ps_time ps') then (Stop, ps'\<lparr>ps_time := ps_time ps' + 1\<rparr>)
          else move_batches env ho my bs (ps'\<lparr>ps_time := ps_time ps' + 1\<rparr>))"

definition new_pass :: pass_state where
  "new_pass = \<lparr>ps_total = fresh_moved True, ps_handed = [], ps_recovered = False, ps_calls = 0, ps_time = 0\<rparr>"

definition move_plan ::
  "move_env \<Rightarrow> bool \<Rightarrow> bool \<Rightarrow> bool \<Rightarrow> nat \<Rightarrow> string \<Rightarrow> remote_file list \<Rightarrow> pass_end \<times> pass_state" where
  "move_plan env quiet_radios hands_over may_yield chunk_size source files =
     (if files \<noteq> [] \<and> quiet_radios \<and> \<not> mv_lease env then (Raised NotQuiet, new_pass)
      else move_batches env hands_over may_yield
        (List.map (\<lambda>(d, b). chunks_of chunk_size b) (by_directory files source)) new_pass)"

section \<open>What a pass promises\<close>

subsection \<open>One recovery per pass\<close>

definition tries_left :: "bool \<Rightarrow> nat" where
  "tries_left recovered = (if recovered then 0 else 1)"

lemma try_listener_calls:
  assumes "try_listener env pending st = (f, st', again)"
  shows "ch_calls st' \<le> ch_calls st + 1"
    "again = None \<Longrightarrow> ch_recovered st' = ch_recovered st"
  using assms by (auto simp: try_listener_def Let_def split: if_splits)

lemma move_chunk_calls:
  "move_chunk env pending st = (r, st') \<Longrightarrow>
    ch_calls st' + tries_left (ch_recovered st') \<le> ch_calls st + 1 + tries_left (ch_recovered st)"
proof (induction env pending st arbitrary: r st' rule: move_chunk.induct)
  case (1 env pending st)
  show ?case
  proof (cases "pending = []")
    case True
    then show ?thesis using 1(2) by (simp add: move_chunk.simps)
  next
    case False
    obtain f st1 again where t: "try_listener env pending st = (f, st1, again)" by (cases "try_listener env pending st")
    show ?thesis
    proof (cases again)
      case None
      then have "st' = st1" using 1(2) False t by (simp add: move_chunk.simps)
      then show ?thesis using try_listener_calls [OF t] None by (simp add: tries_left_def)
    next
      case (Some rest)
      then have "move_chunk env rest st1 = (r, st')" using 1(2) False t by (simp add: move_chunk.simps [of env pending])
      from 1(1) [OF False t [symmetric] refl _ this] Some
      have "ch_calls st' + tries_left (ch_recovered st') \<le> ch_calls st1 + 1 + tries_left (ch_recovered st1)" by simp
      then show ?thesis
        using try_listener_calls(1) [OF t] try_listener_again [OF t [unfolded Some]] by (simp add: tries_left_def)
    qed
  qed
qed

lemma move_step_calls:
  assumes "move_step env ho my c ps = (r, ps')"
  shows "ps_calls ps' + (case r of Raised _ \<Rightarrow> 0 | _ \<Rightarrow> tries_left (ps_recovered ps')) \<le> ps_calls ps + 1 + tries_left (ps_recovered ps)"
proof -
  obtain f st where m: "move_chunk env c \<lparr>ch_batch = fresh_moved False, ch_recovered = ps_recovered ps,
      ch_calls = ps_calls ps, ch_time = ps_time ps\<rparr> = (f, st)" by (meson surj_pair)
  show ?thesis
    using assms move_chunk_calls [OF m] by (auto simp: move_step_def m Let_def split: option.splits if_splits)
qed

lemma move_batch_calls:
  "move_batch env ho my cs ps = (r, ps') \<Longrightarrow>
    ps_calls ps' + (case r of Raised _ \<Rightarrow> 0 | _ \<Rightarrow> tries_left (ps_recovered ps')) \<le>
      ps_calls ps + length cs + tries_left (ps_recovered ps)"
proof (induction cs arbitrary: ps)
  case (Cons c cs)
  obtain r1 ps1 where s: "move_step env ho my c ps = (r1, ps1)" by (meson surj_pair)
  show ?case
  proof (cases r1)
    case Continue
    then have "move_batch env ho my cs ps1 = (r, ps')" using Cons.prems s by simp
    from Cons.IH [OF this] show ?thesis using move_step_calls [OF s] Continue by simp
  qed (use Cons.prems s move_step_calls [OF s] in auto)
qed simp

lemma move_batches_calls:
  "ps_calls (snd (move_batches env ho my bs ps)) \<le> ps_calls ps + length (concat bs) + tries_left (ps_recovered ps)"
proof (induction bs arbitrary: ps)
  case (Cons b bs)
  obtain r ps1 where s: "move_batch env ho my b ps = (r, ps1)" by (meson surj_pair)
  note calls = move_batch_calls [OF s]
  have "ps_calls (snd (move_batches env ho my bs (ps1\<lparr>ps_time := ps_time ps1 + 1\<rparr>))) \<le>
      ps_calls ps1 + length (concat bs) + tries_left (ps_recovered ps1)"
    using Cons [of "ps1\<lparr>ps_time := ps_time ps1 + 1\<rparr>"] by simp
  then show ?case using calls by (cases r) (auto simp: s)
qed simp

text \<open>A pass spends at most one recovery. Whatever the link, the lease and the operator do, the
  number of listeners started is at most the number of chunks of the plan, and one more.\<close>

theorem one_recovery_per_pass:
  "ps_calls (snd (move_plan env quiet ho my n source files)) \<le>
    length (concat (List.map (\<lambda>(d, b). chunks_of n b) (by_directory files source))) + 1"
proof -
  have "tries_left (ps_recovered new_pass) = 1" "ps_calls new_pass = 0" by (simp_all add: tries_left_def new_pass_def)
  then show ?thesis
    using move_batches_calls [of env ho my "List.map (\<lambda>(d, b). chunks_of n b) (by_directory files source)" new_pass]
    by (simp add: move_plan_def)
qed

subsection \<open>A pass that comes to its end has everything\<close>

text \<open>\<^verbatim>\<open>receive\<close> calls a transfer complete only when every name it was asked for is listed.\<close>

definition honest :: "move_env \<Rightarrow> bool" where
  "honest env \<longleftrightarrow>
     (\<forall>t pending. tr_complete (mv_receive env t pending) \<longrightarrow>
        rf_name ` set pending \<subseteq> set (tr_files (mv_receive env t pending)))"

text \<open>The operator's cancel is a flag that stays up.\<close>

definition cancel_stays :: "move_env \<Rightarrow> bool" where
  "cancel_stays env \<longleftrightarrow> (\<forall>t u. t \<le> u \<longrightarrow> mv_cancelled env t \<longrightarrow> mv_cancelled env u)"

lemma receive_is_honest:
  assumes "tr_complete (fst (receive parent (Sizes m) mm mt le conn))"
  shows "fst ` set m \<subseteq> set (tr_files (fst (receive parent (Sizes m) mm mt le conn)))"
  using assms
  by (auto simp: receive_def empty_result_def expected_names_def filter_empty_conv Let_def
    split: if_splits option.splits prod.splits member_end.splits break_off.splits)

lemma try_listener_files:
  assumes "honest env" "try_listener env pending st = (f, st', again)"
  shows "set (mo_files (ch_batch st)) \<subseteq> set (mo_files (ch_batch st'))"
    "again = Some rest \<Longrightarrow> rest \<noteq> [] \<and> rf_name ` set pending \<subseteq> set (mo_files (ch_batch st')) \<union> rf_name ` set rest"
    "again = None \<Longrightarrow> f = None \<Longrightarrow> mo_complete (ch_batch st') \<Longrightarrow> rf_name ` set pending \<subseteq> set (mo_files (ch_batch st'))"
proof -
  let ?part = "mv_receive env (ch_time st + 5) pending"
  have h: "tr_complete ?part \<Longrightarrow> rf_name ` set pending \<subseteq> set (tr_files ?part)"
    using assms(1) by (simp add: honest_def)
  show "set (mo_files (ch_batch st)) \<subseteq> set (mo_files (ch_batch st'))"
    using assms(2) by (auto simp: try_listener_def Let_def add_part_def cancelled_batch_def split: if_splits)
  show "rest \<noteq> [] \<and> rf_name ` set pending \<subseteq> set (mo_files (ch_batch st')) \<union> rf_name ` set rest" if "again = Some rest"
    using assms(2) that by (auto simp: try_listener_def Let_def add_part_def split: if_splits)
  show "rf_name ` set pending \<subseteq> set (mo_files (ch_batch st'))" if "again = None" "f = None" "mo_complete (ch_batch st')"
  proof -
    have "tr_complete ?part \<and> set (tr_files ?part) \<subseteq> set (mo_files (ch_batch st'))"
      using assms(2) that by (auto simp: try_listener_def Let_def add_part_def cancelled_batch_def split: if_splits)
    then show ?thesis using h by blast
  qed
qed

lemma move_chunk_files:
  assumes "honest env" "move_chunk env pending st = (None, st')" "pending \<noteq> []" "mo_complete (ch_batch st')"
  shows "rf_name ` set pending \<subseteq> set (mo_files (ch_batch st')) \<and> set (mo_files (ch_batch st)) \<subseteq> set (mo_files (ch_batch st'))"
  using assms
proof (induction env pending st arbitrary: st' rule: move_chunk.induct)
  case (1 env pending st)
  obtain f st1 again where t: "try_listener env pending st = (f, st1, again)" by (cases "try_listener env pending st")
  show ?case
  proof (cases again)
    case None
    then have "st' = st1" "f = None" using 1(3,4) t by (simp_all add: move_chunk.simps)
    then show ?thesis using try_listener_files [OF 1(2) t] None 1(5) by blast
  next
    case (Some rest)
    then have m: "move_chunk env rest st1 = (None, st')" using 1(3,4) t by (simp add: move_chunk.simps [of env pending])
    have "rest \<noteq> []" "rf_name ` set pending \<subseteq> set (mo_files (ch_batch st1)) \<union> rf_name ` set rest"
      using try_listener_files(2) [OF 1(2) t Some] by simp_all
    moreover have "rf_name ` set rest \<subseteq> set (mo_files (ch_batch st')) \<and> set (mo_files (ch_batch st1)) \<subseteq> set (mo_files (ch_batch st'))"
      using 1(1) [OF 1(4) t [symmetric] refl Some 1(2) m \<open>rest \<noteq> []\<close> 1(5)] .
    ultimately show ?thesis using try_listener_files(1) [OF 1(2) t] by blast
  qed
qed

lemma move_step_files:
  assumes "honest env" "c \<noteq> []" "move_step env ho my c ps = (Continue, ps')"
  shows "set (mo_files (ps_total ps)) \<union> rf_name ` set c \<subseteq> set (mo_files (ps_total ps'))"
    "ps_handed ps' = ps_handed ps @ (if ho then [c] else [])"
proof -
  obtain f st where m: "move_chunk env c \<lparr>ch_batch = fresh_moved False, ch_recovered = ps_recovered ps,
      ch_calls = ps_calls ps, ch_time = ps_time ps\<rparr> = (f, st)" by (meson surj_pair)
  have f: "f = None" "mo_complete (ch_batch st)" "mo_files (ps_total ps') = mo_files (ps_total ps) @ mo_files (ch_batch st)"
    "ps_handed ps' = ps_handed ps @ (if ho then [c] else [])"
    using assms(3) by (auto simp: move_step_def m Let_def absorb_def split: option.splits if_splits)
  then show "set (mo_files (ps_total ps)) \<union> rf_name ` set c \<subseteq> set (mo_files (ps_total ps'))"
    using move_chunk_files [OF assms(1) m [unfolded f(1)] assms(2) f(2)] by auto
  show "ps_handed ps' = ps_handed ps @ (if ho then [c] else [])" by (rule f(4))
qed

lemma move_batch_files:
  assumes "honest env" "[] \<notin> set cs" "move_batch env ho my cs ps = (Continue, ps')"
  shows "set (mo_files (ps_total ps)) \<union> rf_name ` set (concat cs) \<subseteq> set (mo_files (ps_total ps')) \<and>
    ps_handed ps' = ps_handed ps @ (if ho then cs else [])"
  using assms
proof (induction cs arbitrary: ps)
  case (Cons c cs)
  obtain r ps1 where s: "move_step env ho my c ps = (r, ps1)" by (meson surj_pair)
  then have "r = Continue" using Cons.prems(3) by (cases r) auto
  note s = s [unfolded this]
  have "move_batch env ho my cs ps1 = (Continue, ps')" using Cons.prems(3) s by simp
  then have "set (mo_files (ps_total ps1)) \<union> rf_name ` set (concat cs) \<subseteq> set (mo_files (ps_total ps')) \<and>
    ps_handed ps' = ps_handed ps1 @ (if ho then cs else [])"
    using Cons.IH [OF Cons.prems(1)] Cons.prems(2) by simp
  moreover have "rf_name ` set (concat (c # cs)) = rf_name ` set c \<union> rf_name ` set (concat cs)" by (simp add: image_Un)
  moreover have "c \<noteq> []" using Cons.prems(2) by auto
  note step = move_step_files [OF Cons.prems(1) this s]
  ultimately show ?case using step by (auto simp only: append_assoc append_Cons append_Nil split: if_splits)
qed simp

text \<open>A stop is final.\<close>

lemma move_step_stops:
  assumes "cancel_stays env" "move_step env ho my c ps = (Stop, ps')"
  shows "\<not> mo_complete (ps_total ps') \<or> mv_cancelled env (ps_time ps')"
proof -
  obtain f st where m: "move_chunk env c \<lparr>ch_batch = fresh_moved False, ch_recovered = ps_recovered ps,
      ch_calls = ps_calls ps, ch_time = ps_time ps\<rparr> = (f, st)" by (meson surj_pair)
  have "\<not> mo_complete (ch_batch st) \<and> \<not> mo_complete (ps_total ps') \<or>
      (mv_cancelled env (ch_time st + 2) \<and> ps_time ps' = ch_time st + 4)"
    using assms(2) by (auto simp: move_step_def m Let_def absorb_def split: option.splits if_splits)
  then show ?thesis
    using assms(1) [unfolded cancel_stays_def, rule_format, of "ch_time st + 2" "ch_time st + 4"] by auto
qed

lemma move_batch_stops:
  "cancel_stays env \<Longrightarrow> move_batch env ho my cs ps = (Stop, ps') \<Longrightarrow>
    \<not> mo_complete (ps_total ps') \<or> mv_cancelled env (ps_time ps')"
proof (induction cs arbitrary: ps)
  case (Cons c cs)
  obtain r ps1 where s: "move_step env ho my c ps = (r, ps1)" by (meson surj_pair)
  then show ?case using Cons move_step_stops [OF Cons.prems(1)] by (cases r) auto
qed simp

lemma move_batches_files:
  assumes "honest env" "cancel_stays env" "\<forall>cs \<in> set bs. [] \<notin> set cs" "move_batches env ho my bs ps = (Continue, ps')"
  shows "set (mo_files (ps_total ps)) \<union> rf_name ` set (concat (concat bs)) \<subseteq> set (mo_files (ps_total ps')) \<and>
    ps_handed ps' = ps_handed ps @ (if ho then concat bs else [])"
  using assms
proof (induction bs arbitrary: ps)
  case (Cons b bs)
  obtain r ps1 where s: "move_batch env ho my b ps = (r, ps1)" by (meson surj_pair)
  have r: "r = Continue"
    using Cons.prems(4) s move_batch_stops [OF Cons.prems(2)] by (cases r) (auto split: if_splits)
  let ?ps = "ps1\<lparr>ps_time := ps_time ps1 + 1\<rparr>"
  have "move_batches env ho my bs ?ps = (Continue, ps')" using Cons.prems(4) s r by (auto split: if_splits)
  note rest = this
  have "\<forall>cs \<in> set bs. [] \<notin> set cs" using Cons.prems(3) by simp
  note rest = Cons.IH [OF Cons.prems(1,2) this rest]
  moreover have "rf_name ` set (concat (concat (b # bs))) = rf_name ` set (concat b) \<union> rf_name ` set (concat (concat bs))"
    by (simp add: image_Un)
  moreover have nb: "[] \<notin> set b" using Cons.prems(3) by simp
  note first = move_batch_files [OF Cons.prems(1) nb s [unfolded r]]
  have "ps_total ?ps = ps_total ps1" "ps_handed ?ps = ps_handed ps1" by simp_all
  ultimately show ?case using rest first by (simp only: append_assoc concat.simps) (cases ho; simp; blast)
qed simp

lemma chunks_take: "concat (List.map (\<lambda>k. take n (drop (k * n) xs)) [0..<m]) = take (m * n) xs"
  by (induction m) (simp_all add: add.commute [of n] take_add)

lemma chunks_of_whole [simp]: "concat (chunks_of n xs) = xs"
proof (cases "n = 0")
  case False
  have "length xs \<le> (length xs + n - 1) div n * n"
  proof -
    have "(length xs + n - 1) mod n < n" using False by simp
    moreover have "(length xs + n - 1) div n * n + (length xs + n - 1) mod n = length xs + n - 1" by simp
    ultimately show ?thesis by linarith
  qed
  then show ?thesis using False by (simp add: chunks_of_def chunks_take)
qed (simp add: chunks_of_def)

lemma chunks_of_nonempty: "xs \<noteq> [] \<Longrightarrow> [] \<notin> set (chunks_of n xs)"
proof (cases "n = 0")
  case False
  have "k * n < length xs" if "k < (length xs + n - 1) div n" for k
  proof -
    have "(k + 1) * n \<le> (length xs + n - 1) div n * n" using that by (intro mult_le_mono1) simp
    also have "\<dots> \<le> length xs + n - 1" by simp
    finally show ?thesis using False by simp
  qed
  then have "take n (drop (k * n) xs) \<noteq> []" if "k < (length xs + n - 1) div n" for k
    using False that not_le by (metis drop_eq_Nil take_eq_Nil)
  then show ?thesis using False
    by (force simp: chunks_of_def simp del: take_eq_Nil take_eq_Nil2 drop_eq_Nil drop_eq_Nil2)
qed (simp add: chunks_of_def)

lemma into_batch_nonempty: "list_all (\<lambda>(d, b). b \<noteq> []) bs \<Longrightarrow> list_all (\<lambda>(d, b). b \<noteq> []) (into_batch d f bs)"
  by (induction bs) auto

lemma by_directory_nonempty: "list_all (\<lambda>(d, b). b \<noteq> []) (by_directory files source)"
proof -
  have "list_all (\<lambda>(d, b). b \<noteq> []) bs \<Longrightarrow>
      list_all (\<lambda>(d, b). b \<noteq> []) (foldl (\<lambda>bs f. into_batch (directory_of source f) f bs) bs files)" for bs
    by (induction files arbitrary: bs) (simp_all add: into_batch_nonempty)
  from this [of "[]"] show ?thesis by (simp add: by_directory_def)
qed

lemma plan_chunks:
  "set (concat (concat (List.map (\<lambda>(d, b). chunks_of n b) (by_directory files source)))) = set files"
proof -
  have "concat (concat (List.map (\<lambda>(d, b). chunks_of n b) bs)) = concat (List.map snd bs)" for bs :: "(string \<times> remote_file list) list"
    by (induction bs) auto
  then show ?thesis using by_directory_files [of files source] by (metis set_mset_mset)
qed

text \<open>A pass that comes to its end has everything. Given a receiver that calls a transfer complete
  only when it lists every name it was asked for, and a cancel flag that stays up once raised, a pass
  that neither stopped, yielded nor failed lists every file of its plan, and has handed every chunk
  over for commit, in the order of the plan's batches.\<close>

theorem ended_pass_has_everything:
  assumes "honest env" "cancel_stays env"
    and "fst (move_plan env quiet ho my n source files) = Continue"
  shows "rf_name ` set files \<subseteq> set (mo_files (ps_total (snd (move_plan env quiet ho my n source files)))) \<and>
    ps_handed (snd (move_plan env quiet ho my n source files)) =
      (if ho then concat (List.map (\<lambda>(d, b). chunks_of n b) (by_directory files source)) else [])"
proof -
  let ?bs = "List.map (\<lambda>(d, b). chunks_of n b) (by_directory files source)"
  have e: "move_plan env quiet ho my n source files = move_batches env ho my ?bs new_pass"
    using assms(3) by (auto simp: move_plan_def split: if_splits)
  obtain ps' where m: "move_batches env ho my ?bs new_pass = (Continue, ps')"
    using assms(3) e by (metis prod.collapse)
  have "\<forall>cs \<in> set ?bs. [] \<notin> set cs"
  proof
    fix cs assume "cs \<in> set ?bs"
    then obtain d b where b: "(d, b) \<in> set (by_directory files source)" "cs = chunks_of n b" by auto
    then have "b \<noteq> []" using by_directory_nonempty [of files source] by (auto simp: list_all_iff)
    then show "[] \<notin> set cs" using b(2) chunks_of_nonempty by simp
  qed
  from move_batches_files [OF assms(1,2) this m] show ?thesis
    using plan_chunks [of n files source] unfolding e m by (simp add: new_pass_def)
qed

definition sample_move :: move_env where
  "sample_move =
     \<lparr>mv_lease = False, mv_lease_lost = (\<lambda>t. False), mv_quiet = (\<lambda>t. True), mv_cancelled = (\<lambda>t. False),
      mv_listener_fails = (\<lambda>t. False),
      mv_receive = (\<lambda>t fs. empty_result\<lparr>tr_files := List.map rf_name fs, tr_complete := True\<rparr>),
      mv_serving = (\<lambda>t. True), mv_resumable = (\<lambda>t. True), mv_submit_fails = (\<lambda>t. False), mv_yields = (\<lambda>t. False)\<rparr>"

definition sample_remote :: remote_file where
  "sample_remote = \<lparr>rf_name = ''a.ts'', rf_size = 2, rf_mtime = 100, rf_directory = ''/sd/Video''\<rparr>"

theorem ended_pass_has_everything_witness:
  "rf_name ` set [sample_remote] \<subseteq>
      set (mo_files (ps_total (snd (move_plan sample_move False True False 5 ''/sd/Video'' [sample_remote])))) \<and>
    ps_handed (snd (move_plan sample_move False True False 5 ''/sd/Video'' [sample_remote])) =
      (if True then concat (List.map (\<lambda>(d, b). chunks_of 5 b) (by_directory [sample_remote] ''/sd/Video'')) else [])"
proof (rule ended_pass_has_everything)
  show "honest sample_move" by (simp add: honest_def sample_move_def empty_result_def)
  show "cancel_stays sample_move" by (simp add: cancel_stays_def sample_move_def)
  show "fst (move_plan sample_move False True False 5 ''/sd/Video'' [sample_remote]) = Continue"
    by (simp add: move_plan_def by_directory_def chunks_of_def move_step_def move_chunk.simps try_listener_def sample_move_def
      Let_def add_part_def absorb_def fresh_moved_def new_pass_def empty_result_def)
qed

end
