(* ===== verification/IngestCommit.thy ===== *)
theory IngestCommit
  imports Prelude "HOL-Library.List_Lexorder" "HOL-Library.Char_ord"
begin

section \<open>Publishing what arrived\<close>

text \<open>
  Models \<^verbatim>\<open>commit\<close>, \<^verbatim>\<open>_clean\<close> and what they call in \<^verbatim>\<open>backend/app/ingest/puller.py\<close>, on a file
  system that can lose power. A directory maps names to entries, an entry that is a file names an
  inode, and an inode has the bytes a reader sees and the bytes that a loss of power would leave,
  if any. The footage directory itself exists twice: as readers see it, and as it is on the
  platter. Only \<^verbatim>\<open>fsync\<close> moves anything from the first kind to the second. Every call of the
  operating system can fail; \<open>io\<close> says which do, by call and by name. An entry that is no file is a directory, as
  \<^verbatim>\<open>.conflicts\<close> is. The platform is POSIX.
\<close>

subsection \<open>The disk\<close>

type_synonym bytes = "nat list"

datatype entry = FileEntry nat | OtherEntry

record inode =
  in_data :: bytes
  in_synced :: "bytes option"

record disk =
  dk_inodes :: "nat \<Rightarrow> inode"
  dk_staging :: "(string \<times> entry) list"
  dk_staging_is_dir :: bool
  dk_conflicts :: "(string \<times> entry) list"
  dk_footage :: "(string \<times> entry) list"
  dk_footage_is_dir :: bool
  dk_durable :: "(string \<times> entry) list"

text \<open>The calls that can raise \<^verbatim>\<open>OSError\<close>.\<close>

datatype io_call =
    StatStaged | UnlinkStaged | StatTarget | ReadBoth | MakeConflicts | MoveToConflicts
  | SyncTarget | SyncStaged | Publish | SyncFootage

type_synonym io = "io_call \<Rightarrow> string \<Rightarrow> bool"

definition data_of :: "disk \<Rightarrow> nat \<Rightarrow> bytes" where
  "data_of dk i = in_data (dk_inodes dk i)"

text \<open>\<^verbatim>\<open>fsync\<close> of a file, and of the footage directory.\<close>

definition sync_file :: "nat \<Rightarrow> disk \<Rightarrow> disk" where
  "sync_file i dk =
     dk\<lparr>dk_inodes := (dk_inodes dk)(i := (dk_inodes dk i)\<lparr>in_synced := Some (data_of dk i)\<rparr>)\<rparr>"

definition sync_directory :: "disk \<Rightarrow> disk" where
  "sync_directory dk = dk\<lparr>dk_durable := dk_footage dk\<rparr>"

definition unlink_staged :: "string \<Rightarrow> disk \<Rightarrow> disk" where
  "unlink_staged n dk = dk\<lparr>dk_staging := AList.delete n (dk_staging dk)\<rparr>"

text \<open>\<^verbatim>\<open>path.replace(target)\<close> within one file system.\<close>

definition publish_staged :: "string \<Rightarrow> nat \<Rightarrow> disk \<Rightarrow> disk" where
  "publish_staged n i dk =
     (unlink_staged n dk)\<lparr>dk_footage := AList.update n (FileEntry i) (dk_footage dk)\<rparr>"

definition move_to_conflicts :: "string \<Rightarrow> string \<Rightarrow> nat \<Rightarrow> disk \<Rightarrow> disk" where
  "move_to_conflicts n c i dk =
     (unlink_staged n dk)\<lparr>dk_conflicts := AList.update c (FileEntry i) (dk_conflicts dk)\<rparr>"

text \<open>What is left after a loss of power.\<close>

definition after_crash :: "disk \<Rightarrow> string \<Rightarrow> bytes option" where
  "after_crash dk n =
     (case map_of (dk_durable dk) n of
        Some (FileEntry i) \<Rightarrow> in_synced (dk_inodes dk i)
      | _ \<Rightarrow> None)"

subsection \<open>Comparing two files\<close>

lemma take_shrinks: "take c xs \<noteq> [] \<Longrightarrow> length (drop c xs) < length xs"
  by (cases xs; cases c) auto

text \<open>\<^verbatim>\<open>_files_equal\<close>: chunk by chunk, until a chunk differs or is empty.\<close>

function files_equal :: "nat \<Rightarrow> bytes \<Rightarrow> bytes \<Rightarrow> bool" where
  "files_equal chunk xs ys =
     (if take chunk xs \<noteq> take chunk ys then False
      else if take chunk xs = [] then True
      else files_equal chunk (drop chunk xs) (drop chunk ys))"
  by pat_completeness auto
termination
  by (relation "measure (\<lambda>(c, xs, ys). length xs)", simp, simp only: in_measure prod.case, rule take_shrinks)

declare files_equal.simps [simp del]

definition CHUNK_SIZE :: nat where "CHUNK_SIZE = 1048576"

subsection \<open>Names of preserved conflicts\<close>

text \<open>\<^verbatim>\<open>path.stem\<close> and \<^verbatim>\<open>path.suffix\<close>: the last dot splits, unless it begins or ends the name.\<close>

definition suffix_of :: "string \<Rightarrow> string" where
  "suffix_of n =
     (let tail = rev (takeWhile (\<lambda>c. c \<noteq> CHR ''.'') (rev n)); stem = take (length n - length tail - 1) n
      in if length tail < length n \<and> tail \<noteq> [] \<and> stem \<noteq> [] then CHR ''.'' # tail else [])"

definition stem_of :: "string \<Rightarrow> string" where
  "stem_of n = take (length n - length (suffix_of n)) n"

definition conflict_name :: "disk \<Rightarrow> string \<Rightarrow> string \<Rightarrow> string" where
  "conflict_name dk n stamp =
     (if map_of (dk_conflicts dk) n = None then n else stem_of n @ ''-'' @ stamp @ suffix_of n)"

subsection \<open>One staged file\<close>

text \<open>
  The body of the loop of \<^verbatim>\<open>commit\<close> for a file of which \<open>wanted\<close> bytes were listed: whether its name
  joins the committed ones, and the disk. A failing call ends the iteration where it stands.
  \<open>stamp\<close> is the clock reading that makes a conflict's name its own.
\<close>

definition resolve_collision :: "io \<Rightarrow> string \<Rightarrow> string \<Rightarrow> nat \<Rightarrow> nat \<Rightarrow> disk \<Rightarrow> bool \<times> disk" where
  "resolve_collision io stamp n i j dk =
     (if io ReadBoth n then (False, dk)
      else if \<not> files_equal CHUNK_SIZE (data_of dk i) (data_of dk j) then
        (if io MakeConflicts n \<or> io MoveToConflicts n then (False, dk)
         else (False, move_to_conflicts n (conflict_name dk n stamp) i dk))
      else if io SyncTarget n then (False, dk)
      else if io SyncFootage n then (False, sync_file j dk)
      else if io UnlinkStaged n then (False, sync_directory (sync_file j dk))
      else (True, unlink_staged n (sync_directory (sync_file j dk))))"

definition publish :: "io \<Rightarrow> string \<Rightarrow> nat \<Rightarrow> disk \<Rightarrow> bool \<times> disk" where
  "publish io n i dk =
     (if io SyncStaged n then (False, dk)
      else if io Publish n \<or> map_of (dk_footage dk) n = Some OtherEntry then (False, sync_file i dk)
      else if io SyncFootage n then (False, publish_staged n i (sync_file i dk))
      else (True, sync_directory (publish_staged n i (sync_file i dk))))"

definition discard_staged :: "io \<Rightarrow> string \<Rightarrow> disk \<Rightarrow> bool \<times> disk" where
  "discard_staged io n dk = (False, if io UnlinkStaged n then dk else unlink_staged n dk)"

definition commit_one :: "io \<Rightarrow> string \<Rightarrow> string \<Rightarrow> nat \<Rightarrow> int \<Rightarrow> disk \<Rightarrow> bool \<times> disk" where
  "commit_one io stamp n i wanted dk =
     (if io StatStaged n then (False, dk)
      else if int (length (data_of dk i)) \<noteq> wanted then discard_staged io n dk
      else if io StatTarget n then (False, dk)
      else case map_of (dk_footage dk) n of
        Some (FileEntry j) \<Rightarrow>
          if int (length (data_of dk j)) = wanted then resolve_collision io stamp n i j dk
          else if wanted < int (length (data_of dk j)) then discard_staged io n dk
          else publish io n i dk
      | _ \<Rightarrow> publish io n i dk)"

subsection \<open>The batch\<close>

text \<open>The loop: names of the staging directory in order, only files that are expected.\<close>

fun commit_loop ::
  "io \<Rightarrow> string \<Rightarrow> (string \<Rightarrow> int option) \<Rightarrow> string list \<Rightarrow> disk \<Rightarrow> string list \<times> disk" where
  "commit_loop io stamp expected [] dk = ([], dk)"
| "commit_loop io stamp expected (n # ns) dk =
     (case (expected n, map_of (dk_staging dk) n) of
        (Some wanted, Some (FileEntry i)) \<Rightarrow>
          (let (ok, dk1) = commit_one io stamp n i wanted dk;
               (names, dk2) = commit_loop io stamp expected ns dk1
           in (if ok then n # names else names, dk2))
      | _ \<Rightarrow> commit_loop io stamp expected ns dk)"

definition commit :: "io \<Rightarrow> string \<Rightarrow> (string \<Rightarrow> int option) \<Rightarrow> disk \<Rightarrow> string list \<times> disk" where
  "commit io stamp expected dk =
     (if \<not> dk_staging_is_dir dk \<or> \<not> dk_footage_is_dir dk then ([], dk)
      else commit_loop io stamp expected (sort (List.map fst (dk_staging dk))) dk)"

text \<open>\<^verbatim>\<open>_clean\<close>: every file of the staging directory, before a run.\<close>

definition clean_staging :: "io \<Rightarrow> disk \<Rightarrow> disk" where
  "clean_staging io dk =
     (if \<not> dk_staging_is_dir dk then dk
      else dk\<lparr>dk_staging := filter (\<lambda>(n, e). e = OtherEntry \<or> io UnlinkStaged n) (dk_staging dk)\<rparr>)"

section \<open>What a commit promises\<close>

lemma files_equal_iff: "0 < chunk \<Longrightarrow> files_equal chunk xs ys \<longleftrightarrow> xs = ys"
proof (induction chunk xs ys rule: files_equal.induct)
  case (1 chunk xs ys)
  show ?case
  proof (cases "take chunk xs = take chunk ys \<and> take chunk xs \<noteq> []")
    case True
    then have "(take chunk xs \<noteq> take chunk ys) = False" "(take chunk xs = []) = False" by blast+
    then have "files_equal chunk xs ys \<longleftrightarrow> files_equal chunk (drop chunk xs) (drop chunk ys)"
      by (simp only: files_equal.simps [of chunk xs ys] if_False)
    also have "\<dots> \<longleftrightarrow> drop chunk xs = drop chunk ys" using 1 True by blast
    finally have "files_equal chunk xs ys \<longleftrightarrow> drop chunk xs = drop chunk ys" .
    moreover have "xs = ys \<longleftrightarrow> take chunk xs = take chunk ys \<and> drop chunk xs = drop chunk ys"
      by (metis append_take_drop_id)
    ultimately show ?thesis using True by simp
  next
    case False
    then consider "take chunk xs \<noteq> take chunk ys" | "take chunk xs = take chunk ys" "take chunk xs = []" by blast
    then show ?thesis
    proof cases
      case 1
      then show ?thesis by (subst files_equal.simps) auto
    next
      case 2
      then have "xs = []" "ys = []" using \<open>0 < chunk\<close> by (metis take_eq_Nil less_irrefl)+
      then show ?thesis by (subst files_equal.simps) simp
    qed
  qed
qed

text \<open>What each call of the operating system leaves alone, and what it does.\<close>

lemma data_ops [simp]:
  "data_of (sync_file i dk) k = data_of dk k" "data_of (sync_directory dk) k = data_of dk k"
  "data_of (unlink_staged n dk) k = data_of dk k" "data_of (publish_staged n i dk) k = data_of dk k"
  "data_of (move_to_conflicts n c i dk) k = data_of dk k"
  by (simp_all add: data_of_def sync_file_def sync_directory_def unlink_staged_def publish_staged_def move_to_conflicts_def)

lemma staging_ops [simp]:
  "dk_staging (sync_file i dk) = dk_staging dk" "dk_staging (sync_directory dk) = dk_staging dk"
  "dk_staging (unlink_staged n dk) = AList.delete n (dk_staging dk)"
  "dk_staging (publish_staged n i dk) = AList.delete n (dk_staging dk)"
  "dk_staging (move_to_conflicts n c i dk) = AList.delete n (dk_staging dk)"
  by (simp_all add: sync_file_def sync_directory_def unlink_staged_def publish_staged_def move_to_conflicts_def)

lemma footage_ops [simp]:
  "dk_footage (sync_file i dk) = dk_footage dk" "dk_footage (sync_directory dk) = dk_footage dk"
  "dk_footage (unlink_staged n dk) = dk_footage dk"
  "dk_footage (publish_staged n i dk) = AList.update n (FileEntry i) (dk_footage dk)"
  "dk_footage (move_to_conflicts n c i dk) = dk_footage dk"
  by (simp_all add: sync_file_def sync_directory_def unlink_staged_def publish_staged_def move_to_conflicts_def)

lemma durable_ops [simp]:
  "dk_durable (sync_file i dk) = dk_durable dk" "dk_durable (sync_directory dk) = dk_footage dk"
  "dk_durable (unlink_staged n dk) = dk_durable dk" "dk_durable (publish_staged n i dk) = dk_durable dk"
  "dk_durable (move_to_conflicts n c i dk) = dk_durable dk"
  by (simp_all add: sync_file_def sync_directory_def unlink_staged_def publish_staged_def move_to_conflicts_def)

lemma conflicts_ops [simp]:
  "dk_conflicts (sync_file i dk) = dk_conflicts dk" "dk_conflicts (sync_directory dk) = dk_conflicts dk"
  "dk_conflicts (unlink_staged n dk) = dk_conflicts dk" "dk_conflicts (publish_staged n i dk) = dk_conflicts dk"
  "dk_conflicts (move_to_conflicts n c i dk) = AList.update c (FileEntry i) (dk_conflicts dk)"
  by (simp_all add: sync_file_def sync_directory_def unlink_staged_def publish_staged_def move_to_conflicts_def)

definition synced :: "disk \<Rightarrow> nat \<Rightarrow> bool" where
  "synced dk i \<longleftrightarrow> in_synced (dk_inodes dk i) = Some (data_of dk i)"

lemma synced_ops [simp]:
  "synced (sync_file i dk) k \<longleftrightarrow> k = i \<or> synced dk k" "synced (sync_directory dk) k = synced dk k"
  "synced (unlink_staged n dk) k = synced dk k" "synced (publish_staged n i dk) k = synced dk k"
  "synced (move_to_conflicts n c i dk) k = synced dk k"
  by (auto simp: synced_def data_of_def sync_file_def sync_directory_def unlink_staged_def publish_staged_def
    move_to_conflicts_def)

lemma discard_keeps:
  assumes "snd (discard_staged io n dk) = dk'"
  shows "dk' = dk \<or> dk' = unlink_staged n dk"
  using assms by (simp add: discard_staged_def split: if_splits)

lemma publish_outcome:
  "publish io n i dk \<in>
    {(False, dk), (False, sync_file i dk), (False, publish_staged n i (sync_file i dk)),
     (True, sync_directory (publish_staged n i (sync_file i dk)))}"
  by (simp add: publish_def)

lemma resolve_outcome:
  "resolve_collision io stamp n i j dk \<in>
    {(False, dk), (False, sync_file j dk), (False, sync_directory (sync_file j dk))} \<union>
    (if data_of dk i = data_of dk j then {(True, unlink_staged n (sync_directory (sync_file j dk)))}
     else {(False, move_to_conflicts n (conflict_name dk n stamp) i dk)})"
  by (simp add: resolve_collision_def files_equal_iff CHUNK_SIZE_def)

text \<open>The ways one staged file can end.\<close>

inductive commit_outcome :: "string \<Rightarrow> string \<Rightarrow> nat \<Rightarrow> int \<Rightarrow> disk \<Rightarrow> bool \<times> disk \<Rightarrow> bool" for stamp n i wanted dk where
  untouched: "commit_outcome stamp n i wanted dk (False, dk)"
| discarded: "int (length (data_of dk i)) \<noteq> wanted \<or> (\<exists>j. map_of (dk_footage dk) n = Some (FileEntry j) \<and> wanted < int (length (data_of dk j)))
    \<Longrightarrow> commit_outcome stamp n i wanted dk (False, unlink_staged n dk)"
| flushed: "commit_outcome stamp n i wanted dk (False, sync_file j dk)"
| flushed_both: "commit_outcome stamp n i wanted dk (False, sync_directory (sync_file j dk))"
| set_aside: "map_of (dk_footage dk) n = Some (FileEntry j) \<Longrightarrow> data_of dk i \<noteq> data_of dk j \<Longrightarrow>
    commit_outcome stamp n i wanted dk (False, move_to_conflicts n (conflict_name dk n stamp) i dk)"
| already_there: "map_of (dk_footage dk) n = Some (FileEntry j) \<Longrightarrow> data_of dk i = data_of dk j \<Longrightarrow>
    int (length (data_of dk i)) = wanted \<Longrightarrow>
    commit_outcome stamp n i wanted dk (True, unlink_staged n (sync_directory (sync_file j dk)))"
| published: "int (length (data_of dk i)) = wanted \<Longrightarrow>
    \<forall>j. map_of (dk_footage dk) n = Some (FileEntry j) \<longrightarrow> int (length (data_of dk j)) < wanted \<Longrightarrow>
    commit_outcome stamp n i wanted dk (False, publish_staged n i (sync_file i dk))"
| committed: "int (length (data_of dk i)) = wanted \<Longrightarrow>
    \<forall>j. map_of (dk_footage dk) n = Some (FileEntry j) \<longrightarrow> int (length (data_of dk j)) < wanted \<Longrightarrow>
    commit_outcome stamp n i wanted dk (True, sync_directory (publish_staged n i (sync_file i dk)))"

lemma publish_commit_outcome:
  assumes "int (length (data_of dk i)) = wanted" "\<forall>j. map_of (dk_footage dk) n = Some (FileEntry j) \<longrightarrow> int (length (data_of dk j)) < wanted"
  shows "commit_outcome stamp n i wanted dk (publish io n i dk)"
  using publish_outcome [of io n i dk] assms
  by (elim insertE emptyE) (simp_all only: commit_outcome.intros)

lemma resolve_commit_outcome:
  assumes "int (length (data_of dk i)) = wanted" "map_of (dk_footage dk) n = Some (FileEntry j)"
  shows "commit_outcome stamp n i wanted dk (resolve_collision io stamp n i j dk)"
  using resolve_outcome [of io stamp n i j dk] assms
  by (cases "data_of dk i = data_of dk j")
    (simp only: if_True Un_insert_left Un_empty_left, elim insertE emptyE,
      simp_all only: commit_outcome.intros already_there [OF assms(2) _ assms(1)] if_False, auto intro: commit_outcome.intros)

lemma commit_one_outcome: "commit_outcome stamp n i wanted dk (commit_one io stamp n i wanted dk)"
proof (cases "io StatStaged n")
  case False
  show ?thesis
  proof (cases "int (length (data_of dk i)) = wanted \<and> \<not> io StatTarget n")
    case True
    show ?thesis
    proof (cases "\<exists>j. map_of (dk_footage dk) n = Some (FileEntry j)")
      case there: True
      then obtain j where j: "map_of (dk_footage dk) n = Some (FileEntry j)" by blast
      then show ?thesis
        using True False resolve_commit_outcome [OF _ j, of i wanted stamp io]
          publish_commit_outcome [of dk i wanted n stamp io]
        by (auto simp: commit_one_def discard_staged_def intro: commit_outcome.intros)
    next
      case absent: False
      then have "commit_one io stamp n i wanted dk = publish io n i dk"
        using True False by (auto simp: commit_one_def split: option.split entry.split)
      then show ?thesis using publish_commit_outcome [of dk i wanted n stamp io] True absent by auto
    qed
  next
    case size: False
    then show ?thesis using False
      by (auto simp: commit_one_def discard_staged_def intro: commit_outcome.intros)
  qed
qed (simp add: commit_one_def commit_outcome.untouched)

subsection \<open>The batch\<close>

lemma outcome_other:
  assumes "commit_outcome stamp n i wanted dk r" "m \<noteq> n"
  shows "map_of (dk_staging (snd r)) m = map_of (dk_staging dk) m"
    "map_of (dk_footage (snd r)) m = map_of (dk_footage dk) m"
    "map_of (dk_durable dk) m = map_of (dk_footage dk) m \<Longrightarrow> map_of (dk_durable (snd r)) m = map_of (dk_footage dk) m"
  using assms by (induction rule: commit_outcome.induct) (simp_all add: delete_conv' update_conv')

lemma outcome_data:
  assumes "commit_outcome stamp n i wanted dk r"
  shows "data_of (snd r) k = data_of dk k" "synced dk k \<Longrightarrow> synced (snd r) k"
  using assms by (induction rule: commit_outcome.induct) simp_all

lemma outcome_committed:
  assumes "commit_outcome stamp n i wanted dk r" "fst r"
  shows "int (length (data_of dk i)) = wanted \<and>
    (\<exists>j. map_of (dk_footage (snd r)) n = Some (FileEntry j) \<and> map_of (dk_durable (snd r)) n = Some (FileEntry j) \<and>
      synced (snd r) j \<and> data_of dk j = data_of dk i)"
  using assms by (induction rule: commit_outcome.induct) (auto simp: update_conv')

text \<open>What holds of a name once it was reported, and stays.\<close>

definition safe_copy :: "disk \<Rightarrow> string \<Rightarrow> bytes \<Rightarrow> bool" where
  "safe_copy dk n b \<longleftrightarrow>
     (\<exists>j. map_of (dk_footage dk) n = Some (FileEntry j) \<and> map_of (dk_durable dk) n = Some (FileEntry j) \<and>
       synced dk j \<and> data_of dk j = b)"

lemma outcome_keeps_safe_copy:
  assumes "commit_outcome stamp n i wanted dk r" "m \<noteq> n" "safe_copy dk m b"
  shows "safe_copy (snd r) m b"
  using assms(3) outcome_other [OF assms(1,2)] outcome_data [OF assms(1)] unfolding safe_copy_def by metis

lemma loop_cases:
  obtains (skip) "commit_loop io stamp expected (n # ns) dk = commit_loop io stamp expected ns dk"
    "\<not> (\<exists>w i. expected n = Some w \<and> map_of (dk_staging dk) n = Some (FileEntry i))"
  | (handle) wanted i r where "expected n = Some wanted" "map_of (dk_staging dk) n = Some (FileEntry i)"
    "commit_outcome stamp n i wanted dk r"
    "commit_loop io stamp expected (n # ns) dk =
      ((if fst r then [n] else []) @ fst (commit_loop io stamp expected ns (snd r)), snd (commit_loop io stamp expected ns (snd r)))"
proof (cases "\<exists>w i. expected n = Some w \<and> map_of (dk_staging dk) n = Some (FileEntry i)")
  case True
  then obtain w i where wi: "expected n = Some w" "map_of (dk_staging dk) n = Some (FileEntry i)" by blast
  show ?thesis
    by (rule handle [OF wi commit_one_outcome [of stamp n i w dk io]]) (simp add: wi split: prod.splits)
next
  case False
  then show ?thesis by (intro skip) (auto split: option.splits entry.splits)
qed

lemma loop_keeps_safe_copy:
  "safe_copy dk m b \<Longrightarrow> m \<notin> set ns \<Longrightarrow> safe_copy (snd (commit_loop io stamp expected ns dk)) m b"
proof (induction ns arbitrary: dk)
  case (Cons n ns)
  show ?case
  proof (rule loop_cases [of io stamp expected n ns dk])
    show ?thesis if "commit_loop io stamp expected (n # ns) dk = commit_loop io stamp expected ns dk"
      using that Cons by simp
  next
    fix wanted i r
    assume r: "commit_outcome stamp n i wanted dk r"
      "commit_loop io stamp expected (n # ns) dk =
      ((if fst r then [n] else []) @ fst (commit_loop io stamp expected ns (snd r)), snd (commit_loop io stamp expected ns (snd r)))"
    have "safe_copy (snd r) m b"
      by (rule outcome_keeps_safe_copy [OF r(1)]) (use Cons.prems in auto)
    then show ?thesis using Cons r(2) by simp
  qed
qed simp

lemma loop_committed:
  assumes "m \<in> set (fst (commit_loop io stamp expected ns dk))" "distinct ns"
  shows "m \<in> set ns \<and> (\<exists>i. map_of (dk_staging dk) m = Some (FileEntry i) \<and> expected m = Some (int (length (data_of dk i))) \<and>
    safe_copy (snd (commit_loop io stamp expected ns dk)) m (data_of dk i))"
  using assms
proof (induction ns arbitrary: dk)
  case (Cons n ns)
  show ?case
  proof (rule loop_cases [of io stamp expected n ns dk])
    show ?thesis if "commit_loop io stamp expected (n # ns) dk = commit_loop io stamp expected ns dk"
      using that Cons by simp
  next
    fix wanted i r
    assume n: "expected n = Some wanted" "map_of (dk_staging dk) n = Some (FileEntry i)"
      and r: "commit_outcome stamp n i wanted dk r"
      "commit_loop io stamp expected (n # ns) dk =
      ((if fst r then [n] else []) @ fst (commit_loop io stamp expected ns (snd r)), snd (commit_loop io stamp expected ns (snd r)))"
    show ?thesis
    proof (cases "m = n")
      case True
      have "m \<notin> set (fst (commit_loop io stamp expected ns (snd r)))"
        using Cons.IH [of "snd r"] Cons.prems(2) True by auto
      then have ok: "fst r" using Cons.prems(1) r(2) by (auto split: if_splits)
      have "safe_copy (snd r) n (data_of dk i)"
        using outcome_committed [OF r(1) ok] outcome_data(1) [OF r(1)] by (auto simp: safe_copy_def)
      then have "safe_copy (snd (commit_loop io stamp expected ns (snd r))) n (data_of dk i)"
        by (rule loop_keeps_safe_copy) (use Cons.prems in simp)
      then show ?thesis using True n r(2) outcome_committed [OF r(1) ok] by simp
    next
      case False
      then have "m \<in> set (fst (commit_loop io stamp expected ns (snd r)))"
        using Cons.prems(1) r(2) by (auto split: if_splits)
      from Cons.IH [OF this] show ?thesis
        using Cons.prems(2) outcome_other(1) [OF r(1) False] outcome_data(1) [OF r(1)] r(2) by auto
    qed
  qed
qed simp

text \<open>C6: What a commit reports is durable. For every name it returns, the staged file had exactly
  the listed size, and after a loss of power at any later moment before the next change the footage
  directory has that name with exactly the staged bytes: whatever calls failed, whatever was in the
  library before, and whatever else the batch did.\<close>

theorem committed_survives_crash:
  assumes "distinct (List.map fst (dk_staging dk))"
    and "n \<in> set (fst (commit io stamp expected dk))"
  shows "\<exists>i. map_of (dk_staging dk) n = Some (FileEntry i) \<and> expected n = Some (int (length (data_of dk i))) \<and>
    after_crash (snd (commit io stamp expected dk)) n = Some (data_of dk i)"
proof -
  let ?ns = "sort (List.map fst (dk_staging dk))"
  have c: "commit io stamp expected dk = commit_loop io stamp expected ?ns dk"
    using assms(2) by (auto simp: commit_def split: if_splits)
  then show ?thesis
    using loop_committed [of n io stamp expected ?ns dk] assms
    by (auto simp: safe_copy_def after_crash_def synced_def)
qed

definition footage_bytes :: "disk \<Rightarrow> string \<Rightarrow> bytes option" where
  "footage_bytes dk n =
     (case map_of (dk_footage dk) n of Some (FileEntry j) \<Rightarrow> Some (data_of dk j) | _ \<Rightarrow> None)"

lemma footage_bytes_Some:
  "footage_bytes dk n = Some b \<longleftrightarrow> (\<exists>j. map_of (dk_footage dk) n = Some (FileEntry j) \<and> data_of dk j = b)"
  by (auto simp: footage_bytes_def split: option.split entry.split)

lemma outcome_keeps_footage:
  assumes "commit_outcome stamp n i wanted dk r" "footage_bytes dk m = Some b" "m = n \<Longrightarrow> wanted \<le> int (length b)"
  shows "footage_bytes (snd r) m = Some b"
proof (cases "m = n")
  case False
  then show ?thesis
    using assms(2) outcome_other(2) [OF assms(1)] outcome_data(1) [OF assms(1)] by (simp add: footage_bytes_Some)
next
  case True
  show ?thesis
    using assms(1) True assms(2,3) by (induction rule: commit_outcome.induct) (auto simp: footage_bytes_Some)
qed

lemma loop_keeps_footage:
  assumes "footage_bytes dk m = Some b" "\<And>w. expected m = Some w \<Longrightarrow> w \<le> int (length b)"
  shows "footage_bytes (snd (commit_loop io stamp expected ns dk)) m = Some b"
  using assms(1)
proof (induction ns arbitrary: dk)
  case (Cons n ns)
  show ?case
  proof (rule loop_cases [of io stamp expected n ns dk])
    show ?thesis if "commit_loop io stamp expected (n # ns) dk = commit_loop io stamp expected ns dk"
      using that Cons by simp
  next
    fix wanted i r
    assume n: "expected n = Some wanted" and r: "commit_outcome stamp n i wanted dk r"
      "commit_loop io stamp expected (n # ns) dk =
      ((if fst r then [n] else []) @ fst (commit_loop io stamp expected ns (snd r)), snd (commit_loop io stamp expected ns (snd r)))"
    have "footage_bytes (snd r) m = Some b"
      by (rule outcome_keeps_footage [OF r(1) Cons.prems]) (use assms(2) n in simp)
    then show ?thesis using Cons.IH r(2) by simp
  qed
qed simp

text \<open>A commit never overwrites a complete recording. Whatever the library holds under a name
  keeps its bytes through a commit, unless the batch expects that name with more bytes than the
  library has, which is what makes the local copy a short one.\<close>

theorem complete_footage_kept:
  assumes "footage_bytes dk n = Some b" "\<And>w. expected n = Some w \<Longrightarrow> w \<le> int (length b)"
  shows "footage_bytes (snd (commit io stamp expected dk)) n = Some b"
  using assms loop_keeps_footage [OF assms(1), of expected] by (simp add: commit_def)

subsection \<open>No bytes are lost\<close>

definition staged_bytes :: "disk \<Rightarrow> string \<Rightarrow> bytes option" where
  "staged_bytes dk n =
     (case map_of (dk_staging dk) n of Some (FileEntry i) \<Rightarrow> Some (data_of dk i) | _ \<Rightarrow> None)"

definition set_aside_bytes :: "disk \<Rightarrow> bytes \<Rightarrow> bool" where
  "set_aside_bytes dk b \<longleftrightarrow> (\<exists>c k. map_of (dk_conflicts dk) c = Some (FileEntry k) \<and> data_of dk k = b)"

definition accounted :: "disk \<Rightarrow> string \<Rightarrow> bytes \<Rightarrow> bool" where
  "accounted dk n b \<longleftrightarrow>
     staged_bytes dk n = Some b \<or> set_aside_bytes dk b \<or>
     (\<exists>b'. footage_bytes dk n = Some b' \<and> (b' = b \<or> length b < length b'))"

text \<open>The clock reading in the name of a second conflict makes it new.\<close>

definition stamped_name :: "string \<Rightarrow> string \<Rightarrow> string" where
  "stamped_name stamp n = stem_of n @ ''-'' @ stamp @ suffix_of n"

definition fresh_stamp :: "string \<Rightarrow> disk \<Rightarrow> bool" where
  "fresh_stamp stamp dk \<longleftrightarrow>
     distinct (List.map (stamped_name stamp) (List.map fst (dk_staging dk))) \<and>
     set (List.map (stamped_name stamp) (List.map fst (dk_staging dk))) \<inter>
       (set (List.map fst (dk_staging dk)) \<union> set (List.map fst (dk_conflicts dk))) = {}"

lemma conflict_name_new:
  assumes "c \<in> fst ` set (dk_conflicts dk)" "stamped_name stamp n \<notin> fst ` set (dk_conflicts dk)"
  shows "conflict_name dk n stamp \<noteq> c"
  using assms by (auto simp: conflict_name_def stamped_name_def map_of_eq_None_iff)

lemma outcome_conflicts:
  assumes "commit_outcome stamp n i wanted dk r"
  shows "dk_conflicts (snd r) = dk_conflicts dk \<or>
    dk_conflicts (snd r) = AList.update (conflict_name dk n stamp) (FileEntry i) (dk_conflicts dk)"
  using assms by (induction rule: commit_outcome.induct) simp_all

lemma outcome_keeps_set_aside:
  assumes "commit_outcome stamp n i wanted dk r" "set_aside_bytes dk b"
    "stamped_name stamp n \<notin> fst ` set (dk_conflicts dk)"
  shows "set_aside_bytes (snd r) b"
proof -
  obtain c k where c: "map_of (dk_conflicts dk) c = Some (FileEntry k)" "data_of dk k = b"
    using assms(2) by (auto simp: set_aside_bytes_def)
  have "c \<in> fst ` set (dk_conflicts dk)" using map_of_SomeD [OF c(1)] by force
  then have "conflict_name dk n stamp \<noteq> c" by (rule conflict_name_new [OF _ assms(3)])
  then have "map_of (dk_conflicts (snd r)) c = Some (FileEntry k)"
    using outcome_conflicts [OF assms(1)] c(1) by (auto simp: update_conv')
  then show ?thesis using c(2) outcome_data(1) [OF assms(1)] by (auto simp: set_aside_bytes_def)
qed

lemma outcome_accounts:
  assumes "commit_outcome stamp n i wanted dk r" "map_of (dk_staging dk) n = Some (FileEntry i)"
    "wanted = int (length (data_of dk i))"
  shows "accounted (snd r) n (data_of dk i)"
  using assms
proof (induction rule: commit_outcome.induct)
  case (set_aside j)
  then show ?case by (auto simp: accounted_def set_aside_bytes_def update_conv')
qed (auto simp: accounted_def staged_bytes_def footage_bytes_Some update_conv')

definition fresh_for :: "string \<Rightarrow> string list \<Rightarrow> disk \<Rightarrow> bool" where
  "fresh_for stamp ns dk \<longleftrightarrow>
     distinct (List.map (stamped_name stamp) ns) \<and>
     set (List.map (stamped_name stamp) ns) \<inter> (set ns \<union> fst ` set (dk_conflicts dk)) = {}"

lemma fresh_for_tail: "fresh_for stamp (n # ns) dk \<Longrightarrow> fresh_for stamp ns dk"
  by (auto simp: fresh_for_def)

lemma subset_insert_member: "D' \<subseteq> insert c D \<Longrightarrow> c \<in> A \<Longrightarrow> D' \<subseteq> A \<union> D"
  by blast

lemma fresh_for_step:
  assumes "fresh_for stamp (n # ns) dk" "commit_outcome stamp n i wanted dk r"
  shows "fresh_for stamp ns (snd r)"
proof -
  have "fst ` set (dk_conflicts (snd r)) \<subseteq> insert (conflict_name dk n stamp) (fst ` set (dk_conflicts dk))"
    using outcome_conflicts [OF assms(2)] by (elim disjE) (simp_all only: AList.dom_update, blast+)
  moreover have "conflict_name dk n stamp \<in> {n, stamped_name stamp n}"
    by (simp add: conflict_name_def stamped_name_def)
  ultimately have "fst ` set (dk_conflicts (snd r)) \<subseteq> {n, stamped_name stamp n} \<union> fst ` set (dk_conflicts dk)"
    by (rule subset_insert_member)
  note dom = this
  have fresh: "stamped_name stamp x \<noteq> n" "stamped_name stamp x \<noteq> stamped_name stamp n"
      "stamped_name stamp x \<notin> set ns" "stamped_name stamp x \<notin> fst ` set (dk_conflicts dk)"
    if x: "x \<in> set ns" for x
  proof -
    have no: "stamped_name stamp x \<notin> set (n # ns) \<union> fst ` set (dk_conflicts dk)"
      using assms(1) x unfolding fresh_for_def by (metis disjoint_iff imageI list.set_intros(2) set_map)
    then show "stamped_name stamp x \<noteq> n" "stamped_name stamp x \<notin> set ns"
      "stamped_name stamp x \<notin> fst ` set (dk_conflicts dk)" by simp_all
    have "stamped_name stamp n \<notin> stamped_name stamp ` set ns"
      using assms(1) unfolding fresh_for_def by simp
    then show "stamped_name stamp x \<noteq> stamped_name stamp n" using x by (metis imageI)
  qed
  then have "stamped_name stamp x \<notin> fst ` set (dk_conflicts (snd r))" if "x \<in> set ns" for x
    using dom that by blast
  moreover have "distinct (List.map (stamped_name stamp) ns)" using assms(1) by (simp add: fresh_for_def)
  ultimately show ?thesis using fresh(3) unfolding fresh_for_def set_map by blast
qed

lemma loop_keeps_accounted:
  assumes "accounted dk m b" "m \<notin> set ns" "fresh_for stamp ns dk"
  shows "accounted (snd (commit_loop io stamp expected ns dk)) m b"
  using assms
proof (induction ns arbitrary: dk)
  case (Cons n ns)
  show ?case
  proof (rule loop_cases [of io stamp expected n ns dk])
    show ?thesis if "commit_loop io stamp expected (n # ns) dk = commit_loop io stamp expected ns dk"
      using that Cons fresh_for_tail by simp
  next
    fix wanted i r
    assume r: "commit_outcome stamp n i wanted dk r"
      "commit_loop io stamp expected (n # ns) dk =
      ((if fst r then [n] else []) @ fst (commit_loop io stamp expected ns (snd r)), snd (commit_loop io stamp expected ns (snd r)))"
    have "m \<noteq> n" using Cons.prems(2) by simp
    then have "staged_bytes (snd r) m = staged_bytes dk m" "footage_bytes (snd r) m = footage_bytes dk m"
      using outcome_other(1,2) [OF r(1)] outcome_data(1) [OF r(1)] by (simp_all add: staged_bytes_def footage_bytes_def cong: option.case_cong entry.case_cong)
    moreover have "set_aside_bytes (snd r) b" if "set_aside_bytes dk b"
      by (rule outcome_keeps_set_aside [OF r(1) that]) (use Cons.prems(3) in \<open>auto simp: fresh_for_def\<close>)
    ultimately have "accounted (snd r) m b" using Cons.prems(1) by (auto simp: accounted_def)
    from Cons.IH [OF this _ fresh_for_step [OF Cons.prems(3) r(1)]] show ?thesis using Cons.prems(2) r(2) by simp
  qed
qed simp

lemma loop_accounts:
  assumes "m \<in> set ns" "distinct ns" "fresh_for stamp ns dk"
    and "map_of (dk_staging dk) m = Some (FileEntry i)" "expected m = Some (int (length (data_of dk i)))"
  shows "accounted (snd (commit_loop io stamp expected ns dk)) m (data_of dk i)"
  using assms
proof (induction ns arbitrary: dk)
  case (Cons n ns)
  show ?case
  proof (rule loop_cases [of io stamp expected n ns dk])
    assume skip: "commit_loop io stamp expected (n # ns) dk = commit_loop io stamp expected ns dk"
      "\<not> (\<exists>w i. expected n = Some w \<and> map_of (dk_staging dk) n = Some (FileEntry i))"
    then have "m \<noteq> n" using Cons.prems(4,5) by auto
    then show ?thesis using Cons.IH [of dk] Cons.prems fresh_for_tail skip(1) by auto
  next
    fix wanted j r
    assume n: "expected n = Some wanted" "map_of (dk_staging dk) n = Some (FileEntry j)"
      and r: "commit_outcome stamp n j wanted dk r"
      "commit_loop io stamp expected (n # ns) dk =
      ((if fst r then [n] else []) @ fst (commit_loop io stamp expected ns (snd r)), snd (commit_loop io stamp expected ns (snd r)))"
    note fresh = fresh_for_step [OF Cons.prems(3) r(1)]
    show ?thesis
    proof (cases "m = n")
      case True
      then have "accounted (snd r) n (data_of dk i)"
        using outcome_accounts [OF r(1) n(2)] n Cons.prems(4,5) by simp
      then show ?thesis
        using loop_keeps_accounted [OF _ _ fresh] True Cons.prems(2) r(2) by auto
    next
      case False
      then have "accounted (snd (commit_loop io stamp expected ns (snd r))) m (data_of (snd r) i)"
        using Cons.IH [of "snd r"] Cons.prems fresh outcome_other(1) [OF r(1) False] outcome_data(1) [OF r(1)] by auto
      then show ?thesis using r(2) outcome_data(1) [OF r(1)] by simp
    qed
  qed
qed simp

text \<open>C17: No whole recording disappears in a commit. A staged file of its listed size is, after the
  commit, still staged, or in the library under its name byte for byte, or set aside among the
  conflicts, or the library has a larger recording under that name. (Names in a directory are
  distinct, and the clock reading in a conflict's name makes that name new.)\<close>

theorem commit_loses_nothing:
  assumes "distinct (List.map fst (dk_staging dk))" "fresh_stamp stamp dk"
    and "staged_bytes dk n = Some b" "expected n = Some (int (length b))"
  shows "accounted (snd (commit io stamp expected dk)) n b"
proof -
  let ?ns = "sort (List.map fst (dk_staging dk))"
  obtain i where i: "map_of (dk_staging dk) n = Some (FileEntry i)" "b = data_of dk i"
    using assms(3) by (auto simp: staged_bytes_def split: option.splits entry.splits)
  have "n \<in> set ?ns" using map_of_SomeD [OF i(1)] by force
  moreover have "fresh_for stamp ?ns dk"
    using assms(2) unfolding fresh_stamp_def fresh_for_def distinct_map set_sort set_map distinct_sort by simp
  ultimately have "accounted (snd (commit_loop io stamp expected ?ns dk)) n b"
    using loop_accounts [of n ?ns stamp dk i expected io] assms(1,4) i by simp
  moreover have "accounted dk n b" using assms(3) by (simp add: accounted_def)
  ultimately show ?thesis by (simp add: commit_def)
qed

subsection \<open>Witnesses\<close>

definition no_io_error :: io where
  "no_io_error c n = False"

text \<open>A recording and the start of another one are staged; the library has a longer \<open>c.ts\<close>.\<close>

definition sample_disk :: disk where
  "sample_disk =
     \<lparr>dk_inodes = (\<lambda>i. \<lparr>in_data = (if i = 0 then [1, 2] else if i = 1 then [3] else [7, 8, 9]), in_synced = None\<rparr>),
      dk_staging = [(''a.ts'', FileEntry 0), (''b.ts'', FileEntry 1)], dk_staging_is_dir = True,
      dk_conflicts = [], dk_footage = [(''c.ts'', FileEntry 2)], dk_footage_is_dir = True, dk_durable = []\<rparr>"

definition sample_expected :: "string \<Rightarrow> int option" where
  "sample_expected = map_of [(''a.ts'', 2), (''b.ts'', 2)]"

lemma sample_sorted: "sort (List.map fst (dk_staging sample_disk)) = [''a.ts'', ''b.ts'']"
  by code_simp

lemmas sample_commit = sample_disk_def sample_expected_def no_io_error_def commit_one_def publish_def discard_staged_def
  data_of_def sync_file_def sync_directory_def publish_staged_def unlink_staged_def

theorem committed_survives_crash_witness:
  "\<exists>i. map_of (dk_staging sample_disk) ''a.ts'' = Some (FileEntry i) \<and>
    sample_expected ''a.ts'' = Some (int (length (data_of sample_disk i))) \<and>
    after_crash (snd (commit no_io_error ''0'' sample_expected sample_disk)) ''a.ts'' = Some (data_of sample_disk i)"
proof (rule committed_survives_crash)
  show "''a.ts'' \<in> set (fst (commit no_io_error ''0'' sample_expected sample_disk))"
    unfolding commit_def sample_sorted by (simp add: sample_commit)
qed (simp add: sample_disk_def)

theorem complete_footage_kept_witness:
  "footage_bytes (snd (commit no_io_error ''0'' sample_expected sample_disk)) ''c.ts'' = Some [7, 8, 9]"
  by (rule complete_footage_kept) (simp_all add: footage_bytes_def sample_disk_def sample_expected_def data_of_def)

theorem commit_loses_nothing_witness:
  "accounted (snd (commit no_io_error ''0'' sample_expected sample_disk)) ''a.ts'' [1, 2]"
proof (rule commit_loses_nothing)
  have "stamped_name ''0'' ''a.ts'' = ''a-0.ts''" "stamped_name ''0'' ''b.ts'' = ''b-0.ts''" by code_simp+
  then show "fresh_stamp ''0'' sample_disk" by (simp add: fresh_stamp_def sample_disk_def)
qed (simp_all add: staged_bytes_def sample_disk_def sample_expected_def data_of_def)

end
