(* ===== verification/IngestCard.thy ===== *)
theory IngestCard
  imports IngestMove IngestCommit
begin

section \<open>Committing and reclaiming\<close>


subsection \<open>Deleting from the card\<close>








subsection \<open>The handler of a finished chunk\<close>





subsection \<open>The pipeline\<close>










section \<open>Nothing is deleted before it is durable\<close>

subsection \<open>What reclaiming removes\<close>










subsection \<open>What a commit leaves alone\<close>



definition shrinks :: "disk \<Rightarrow> disk \<Rightarrow> bool" where
  "shrinks dk dk' \<longleftrightarrow>
     (\<forall>m. map_of (dk_staging dk') m = None \<or> map_of (dk_staging dk') m = map_of (dk_staging dk) m) \<and>
     (distinct (List.map fst (dk_staging dk)) \<longrightarrow> distinct (List.map fst (dk_staging dk'))) \<and>
     (\<forall>k. data_of dk' k = data_of dk k)"

lemma shrinks_refl [simp]: "shrinks dk dk"
  by (simp add: shrinks_def)






subsection \<open>Arrivals\<close>







subsection \<open>The run\<close>






definition names_of :: "remote_file list \<Rightarrow> string list" where
  "names_of fs = List.map rf_name fs"

lemma names_of_append [simp]: "names_of (xs @ ys) = names_of xs @ names_of ys" "names_of [] = []"
  by (simp_all add: names_of_def)
















subsection \<open>A run that deletes\<close>








end
