(* ===== verification/TrackQuality.thy ===== *)
theory TrackQuality
  imports Geo
begin

section \<open>Is a position consistent with the ones around it?\<close>

text \<open>
  Models \<^verbatim>\<open>backend/app/osd/track_quality.py\<close> with the vocabulary of
  \<^verbatim>\<open>osd/reasons.py\<close>: the verdict on every sample of one recording, in the three passes
  of \<^verbatim>\<open>classify\<close>, and the runs of samples that may be drawn as one line. The sentences for
  the log are constructors that carry their numbers. The theorems say what a drawn line may
  join, and that no pass can raise the standing of a sample.
\<close>

datatype gps_quality = QValid | QInterpolated | QRejected | QNoFix

datatype gps_reason =
    CoordinateParseFailure | InvalidLatLon | NoFix | ImpliedSpeedOutlier
  | IsolatedPositionOutlier | TimestampMismatch | GpsGap | Synthesised

definition DRAWABLE :: "gps_quality list" where "DRAWABLE = [QValid, QInterpolated]"
definition TRUSTED :: "gps_quality list" where "TRUSTED = [QValid]"

definition MAX_ROAD_SPEED_MS :: real where "MAX_ROAD_SPEED_MS = 160 * 1000 / 3600"
definition QUANTISATION_M :: real where "QUANTISATION_M = 17"
definition NEIGHBOURHOOD :: nat where "NEIGHBOURHOOD = 4"
definition MIN_NEIGHBOURS :: nat where "MIN_NEIGHBOURS = 3"
definition MAX_GAP_S :: real where "MAX_GAP_S = 10"
definition MAX_GAP_M :: real where "MAX_GAP_M = 250"

datatype verdict_detail =
    NoDetail
  | CameraNoLock
  | Problem coordinate_fault
  | OffMedian real real
  | GapAfter real real
  | Implied real real
  | ImpliedUnsure real real

record gps_verdict =
  vd_quality :: gps_quality
  vd_reasons :: "gps_reason list"
  vd_detail :: verdict_detail
  vd_breaks :: bool

definition drawable :: "gps_verdict \<Rightarrow> bool" where
  "drawable v \<longleftrightarrow> vd_quality v \<in> set DRAWABLE"

record gps_fix =
  fx_t :: real
  fx_lat :: "real option"
  fx_lon :: "real option"
  fx_synthetic :: bool
  fx_no_fix :: bool

definition reachable_radius_m :: "real \<Rightarrow> real" where
  "reachable_radius_m dt = MAX_ROAD_SPEED_MS * max 1 \<bar>dt\<bar> + QUANTISATION_M"

text \<open>Every sample still in play has both coordinates.\<close>

definition place_of :: "gps_fix \<Rightarrow> place" where
  "place_of f = ((case fx_lat f of Some v \<Rightarrow> v | None \<Rightarrow> 0), (case fx_lon f of Some v \<Rightarrow> v | None \<Rightarrow> 0))"

subsection \<open>First pass: is it a place at all?\<close>

definition condemned_as :: "gps_quality \<Rightarrow> gps_reason \<Rightarrow> verdict_detail \<Rightarrow> gps_verdict" where
  "condemned_as q r d = \<lparr>vd_quality = q, vd_reasons = [r], vd_detail = d, vd_breaks = False\<rparr>"

definition first_verdict :: "gps_fix \<Rightarrow> gps_verdict" where
  "first_verdict f =
     (if fx_no_fix f then condemned_as QNoFix NoFix CameraNoLock
      else case coordinate_problem (column (fx_lat f)) (column (fx_lon f)) of
        Some p \<Rightarrow>
          (case (fx_lat f, fx_lon f) of
             (Some lat, Some lon) \<Rightarrow>
               if is_no_fix_placeholder lat lon then condemned_as QNoFix NoFix (Problem p)
               else condemned_as QRejected InvalidLatLon (Problem p)
           | _ \<Rightarrow> condemned_as QRejected CoordinateParseFailure (Problem p))
      | None \<Rightarrow>
          \<lparr>vd_quality = (if fx_synthetic f then QInterpolated else QValid), vd_reasons = [],
           vd_detail = NoDetail, vd_breaks = False\<rparr>)"

subsection \<open>Second pass: does it agree with its neighbourhood?\<close>

definition usable :: "gps_verdict list \<Rightarrow> nat list" where
  "usable vs = filter (\<lambda>i. drawable (vs ! i)) [0..<length vs]"

definition neighbours :: "nat list \<Rightarrow> nat \<Rightarrow> nat list option" where
  "neighbours us i =
     (case List.find (\<lambda>slot. us ! slot = i) [0..<length us] of
        None \<Rightarrow> None
      | Some slot \<Rightarrow>
          (let lo = slot - NEIGHBOURHOOD;
               hi = min (length us) (slot + NEIGHBOURHOOD + 1)
           in Some (filter (\<lambda>n. n \<noteq> i) (List.map (\<lambda>s. us ! s) [lo..<hi]))))"

definition neighbourhood_centre :: "gps_fix list \<Rightarrow> nat \<Rightarrow> nat list \<Rightarrow> (place \<times> real) option" where
  "neighbourhood_centre fs i us =
     (case neighbours us i of
        None \<Rightarrow> None
      | Some ns \<Rightarrow>
          if length ns < MIN_NEIGHBOURS then None
          else
            Some ((median (List.map (\<lambda>n. fst (place_of (fs ! n))) ns),
                   median (List.map (\<lambda>n. snd (place_of (fs ! n))) ns)),
                  fold max (List.map (\<lambda>n. \<bar>fx_t (fs ! i) - fx_t (fs ! n)\<bar>) ns) 0))"

definition disagrees :: "gps_fix list \<Rightarrow> nat list \<Rightarrow> nat \<Rightarrow> (nat \<times> real \<times> real) option" where
  "disagrees fs us i =
     (case neighbourhood_centre fs i us of
        None \<Rightarrow> None
      | Some (centre, secs) \<Rightarrow>
          (let distance = metres centre (place_of (fs ! i)); radius = reachable_radius_m secs
           in if radius < distance then Some (i, distance, radius) else None))"

definition neighbourhood_round :: "gps_fix list \<Rightarrow> gps_verdict list \<Rightarrow> gps_verdict list option" where
  "neighbourhood_round fs vs =
     (let us = usable vs in
      if length us \<le> MIN_NEIGHBOURS then None
      else
        (let condemned = List.map_filter (disagrees fs us) us in
         if condemned = [] \<or> length us \<le> length condemned * 2 then None
         else
           Some (fold (\<lambda>(i, distance, radius) vs.
                         vs[i := condemned_as QRejected IsolatedPositionOutlier (OffMedian distance radius)])
                   condemned vs)))"

fun neighbourhood_rounds :: "nat \<Rightarrow> gps_fix list \<Rightarrow> gps_verdict list \<Rightarrow> gps_verdict list" where
  "neighbourhood_rounds 0 fs vs = vs"
| "neighbourhood_rounds (Suc n) fs vs =
     (case neighbourhood_round fs vs of
        None \<Rightarrow> vs
      | Some vs' \<Rightarrow> neighbourhood_rounds n fs vs')"

subsection \<open>Third pass: the forward walk\<close>

record walk_state =
  wk_anchor :: "nat option"
  wk_unreachable :: "(nat \<times> real \<times> real) list"
  wk_verdicts :: "gps_verdict list"

definition leg_secs :: "gps_fix list \<Rightarrow> nat \<Rightarrow> nat \<Rightarrow> real" where
  "leg_secs fs a i = fx_t (fs ! i) - fx_t (fs ! a)"

definition leg_metres :: "gps_fix list \<Rightarrow> nat \<Rightarrow> nat \<Rightarrow> real" where
  "leg_metres fs a i = metres (place_of (fs ! a)) (place_of (fs ! i))"

definition break_route :: "verdict_detail \<Rightarrow> gps_verdict \<Rightarrow> gps_verdict" where
  "break_route d v = v\<lparr>vd_breaks := True, vd_reasons := vd_reasons v @ [GpsGap], vd_detail := d\<rparr>"

definition walk_step :: "gps_fix list \<Rightarrow> nat \<Rightarrow> walk_state \<Rightarrow> walk_state" where
  "walk_step fs i w =
     (let vs = wk_verdicts w; v = vs ! i in
      if \<not> drawable v then w
      else case wk_anchor w of
        None \<Rightarrow> w\<lparr>wk_anchor := Some i, wk_verdicts := vs[i := v\<lparr>vd_breaks := True\<rparr>]\<rparr>
      | Some a \<Rightarrow>
          (let dt = leg_secs fs a i; distance = leg_metres fs a i in
           if reachable_radius_m dt < distance
           then w\<lparr>wk_unreachable := wk_unreachable w @ [(i, distance, dt)]\<rparr>
           else w\<lparr>wk_anchor := Some i,
                  wk_verdicts :=
                    (if MAX_GAP_S < dt \<or> MAX_GAP_M < distance
                     then vs[i := break_route (GapAfter dt distance) v] else vs)\<rparr>))"

definition forward_walk :: "gps_fix list \<Rightarrow> gps_verdict list \<Rightarrow> walk_state" where
  "forward_walk fs vs =
     fold (walk_step fs) [0..<length fs]
       \<lparr>wk_anchor = None, wk_unreachable = [], wk_verdicts = vs\<rparr>"

definition settle_one :: "bool \<Rightarrow> nat \<times> real \<times> real \<Rightarrow> gps_verdict list \<Rightarrow> gps_verdict list" where
  "settle_one decisive u vs =
     (case u of (i, distance, dt) \<Rightarrow>
        if decisive
        then vs[i := condemned_as QRejected ImpliedSpeedOutlier (Implied distance dt)]
        else vs[i := break_route (ImpliedUnsure distance dt) (vs ! i)])"

definition settle :: "walk_state \<Rightarrow> gps_verdict list" where
  "settle w =
     (let vs = wk_verdicts w; us = wk_unreachable w;
          decisive = MIN_NEIGHBOURS < length (usable vs) \<or> length us < 2
      in fold (settle_one decisive) us vs)"

definition classify :: "gps_fix list \<Rightarrow> gps_verdict list" where
  "classify fs =
     settle (forward_walk fs (neighbourhood_rounds 2 fs (List.map first_verdict fs)))"

subsection \<open>The lines that may be drawn\<close>

fun cut_runs :: "gps_verdict list \<Rightarrow> nat list \<Rightarrow> nat list \<Rightarrow> nat list list" where
  "cut_runs vs current [] = (if current = [] then [] else [current])"
| "cut_runs vs current (i # is) =
     (if \<not> drawable (vs ! i) then cut_runs vs current is
      else if vd_breaks (vs ! i) \<and> current \<noteq> [] then current # cut_runs vs [i] is
      else cut_runs vs (current @ [i]) is)"

definition segments :: "gps_verdict list \<Rightarrow> nat list list" where
  "segments vs = filter (\<lambda>run. 1 < length run) (cut_runs vs [] [0..<length vs])"

subsection \<open>What the passes keep\<close>

text \<open>A sample keeps the quality of the first pass or is rejected.\<close>

definition lowers :: "gps_verdict list \<Rightarrow> gps_verdict list \<Rightarrow> bool" where
  "lowers vs vs' \<longleftrightarrow> length vs' = length vs \<and>
     (\<forall>i < length vs. vd_quality (vs' ! i) \<in> {vd_quality (vs ! i), QRejected})"

lemma lowers_refl [simp]: "lowers vs vs"
  by (simp add: lowers_def)

lemma lowers_trans: "lowers vs vs' \<Longrightarrow> lowers vs' vs'' \<Longrightarrow> lowers vs vs''"
  by (force simp: lowers_def)

lemma lowers_update:
  "vd_quality v \<in> {vd_quality (vs ! i), QRejected} \<Longrightarrow> lowers vs (vs[i := v])"
  by (auto simp: lowers_def) (metis nth_list_update nth_list_update_neq)+

lemma lowers_fold:
  "(\<And>x vs. lowers vs (f x vs)) \<Longrightarrow> lowers vs (fold f xs vs)"
  by (induction xs arbitrary: vs) (auto intro: lowers_trans)

lemma condemned_quality [simp]:
  "vd_quality (condemned_as q r d) = q" "vd_breaks (condemned_as q r d) = False"
  by (simp_all add: condemned_as_def)

lemma break_route_sel [simp]:
  "vd_quality (break_route d v) = vd_quality v" "vd_breaks (break_route d v) = True"
  "drawable (break_route d v) = drawable v"
  by (simp_all add: break_route_def drawable_def)

lemma lowers_round: "neighbourhood_round fs vs = Some vs' \<Longrightarrow> lowers vs vs'"
  by (auto simp: neighbourhood_round_def Let_def split: if_splits
      intro!: lowers_fold lowers_update)

lemma lowers_rounds: "lowers vs (neighbourhood_rounds n fs vs)"
  by (induction n arbitrary: vs)
    (auto split: option.split intro: lowers_trans lowers_round)

lemma lowers_walk_step: "lowers (wk_verdicts w) (wk_verdicts (walk_step fs i w))"
  by (auto simp: walk_step_def Let_def split: option.split intro!: lowers_update)

lemma lowers_walk: "lowers vs (wk_verdicts (forward_walk fs vs))"
proof -
  have "lowers (wk_verdicts w) (wk_verdicts (fold (walk_step fs) is w))" for "is" w
    by (induction "is" arbitrary: w) (auto intro: lowers_trans lowers_walk_step)
  from this [of "\<lparr>wk_anchor = None, wk_unreachable = [], wk_verdicts = vs\<rparr>"]
  show ?thesis by (simp add: forward_walk_def)
qed

lemma lowers_settle: "lowers (wk_verdicts w) (settle w)"
  by (auto simp: settle_def settle_one_def Let_def split: prod.splits intro!: lowers_fold lowers_update)

lemma lowers_classify: "lowers (List.map first_verdict fs) (classify fs)"
  unfolding classify_def by (meson lowers_rounds lowers_walk lowers_settle lowers_trans)

lemma first_verdict_drawable:
  assumes "drawable (first_verdict f)"
  shows "is_valid_coordinate (column (fx_lat f)) (column (fx_lon f))" and "\<not> fx_no_fix f"
    and "vd_quality (first_verdict f) = (if fx_synthetic f then QInterpolated else QValid)"
  using assms
  by (auto simp: first_verdict_def drawable_def DRAWABLE_def is_valid_coordinate_def
      split: if_splits option.splits)

subsection \<open>What a drawn line joins\<close>

definition fine_leg :: "gps_fix list \<Rightarrow> nat \<Rightarrow> nat \<Rightarrow> bool" where
  "fine_leg fs i j \<longleftrightarrow> leg_secs fs i j \<le> MAX_GAP_S \<and> leg_metres fs i j \<le> MAX_GAP_M \<and>
     leg_metres fs i j \<le> reachable_radius_m (leg_secs fs i j)"

text \<open>Among the samples of \<open>K\<close>, one that continues the line has a fine leg behind it.\<close>

definition joined :: "nat set \<Rightarrow> gps_fix list \<Rightarrow> gps_verdict list \<Rightarrow> bool" where
  "joined K fs vs \<longleftrightarrow>
     (\<forall>j \<in> K. vd_breaks (vs ! j) \<or> (\<exists>i \<in> K. i < j \<and> (\<forall>k \<in> K. k < j \<longrightarrow> k \<le> i) \<and> fine_leg fs i j))"

definition drawn :: "nat \<Rightarrow> gps_verdict list \<Rightarrow> nat set" where
  "drawn n vs = {i. i < n \<and> drawable (vs ! i)}"

definition doubted :: "walk_state \<Rightarrow> nat set" where
  "doubted w = fst ` set (wk_unreachable w)"

definition walk_inv :: "gps_fix list \<Rightarrow> nat \<Rightarrow> walk_state \<Rightarrow> bool" where
  "walk_inv fs n w \<longleftrightarrow>
     (let D = drawn n (wk_verdicts w); U = doubted w in
        U \<subseteq> D \<and> distinct (List.map fst (wk_unreachable w)) \<and> joined (D - U) fs (wk_verdicts w) \<and>
        (case wk_anchor w of None \<Rightarrow> D = {} | Some a \<Rightarrow> a \<in> D - U \<and> (\<forall>k \<in> D - U. k \<le> a)))"

lemma drawn_Suc: "drawn (Suc n) vs = (if drawable (vs ! n) then insert n (drawn n vs) else drawn n vs)"
  by (auto simp: drawn_def less_Suc_eq)

lemma drawn_less: "i \<in> drawn n vs \<Longrightarrow> i < n"
  by (simp add: drawn_def)

lemma drawn_update: "n \<le> i \<Longrightarrow> drawn n (vs[i := v]) = drawn n vs"
  by (auto simp: drawn_def)

lemma joined_cong: "(\<And>j. j \<in> K \<Longrightarrow> vd_breaks (vs ! j) = vd_breaks (vs' ! j)) \<Longrightarrow> joined K fs vs = joined K fs vs'"
  by (simp add: joined_def)

lemma joined_update: "(\<And>j. j \<in> K \<Longrightarrow> j < i) \<Longrightarrow> joined K fs (vs[i := v]) = joined K fs vs"
  by (rule joined_cong) (metis less_irrefl nth_list_update_neq)

lemma joined_insert:
  assumes j: "joined K fs vs" and less: "\<And>k. k \<in> K \<Longrightarrow> k < n"
    and new: "vd_breaks (vs ! n) \<or> (\<exists>a \<in> K. (\<forall>k \<in> K. k \<le> a) \<and> fine_leg fs a n)"
  shows "joined (insert n K) fs vs"
proof -
  have "vd_breaks (vs ! k) \<or> (\<exists>i \<in> insert n K. i < k \<and> (\<forall>l \<in> insert n K. l < k \<longrightarrow> l \<le> i) \<and> fine_leg fs i k)"
    if k: "k \<in> K" for k
  proof -
    have "\<not> n < k" using less [OF k] by simp
    with j k show ?thesis unfolding joined_def by blast
  qed
  moreover have "vd_breaks (vs ! n) \<or> (\<exists>i \<in> insert n K. i < n \<and> (\<forall>l \<in> insert n K. l < n \<longrightarrow> l \<le> i) \<and> fine_leg fs i n)"
    using new less by blast
  ultimately show ?thesis unfolding joined_def by blast
qed

lemma walk_step_inv:
  assumes inv: "walk_inv fs n w" and n: "n < length (wk_verdicts w)"
  shows "walk_inv fs (Suc n) (walk_step fs n w)"
proof -
  let ?vs = "wk_verdicts w" and ?U = "doubted w"
  let ?D = "drawn n ?vs"
  have less: "\<And>k. k \<in> ?D - ?U \<Longrightarrow> k < n" "n \<notin> ?D" by (auto dest: drawn_less)
  have U: "?U \<subseteq> ?D" "n \<notin> ?U" using inv less(2) by (auto simp: walk_inv_def Let_def)
  have drop: "insert n ?D - ?U = insert n (?D - ?U)" using U(2) by blast
  consider "\<not> drawable (?vs ! n)" | "drawable (?vs ! n)" "wk_anchor w = None"
    | a where "drawable (?vs ! n)" "wk_anchor w = Some a" by fastforce
  then show ?thesis
  proof cases
    case 1
    with inv show ?thesis by (simp add: walk_step_def walk_inv_def drawn_Suc Let_def)
  next
    case 2
    then have "?D = {}" using inv by (simp add: walk_inv_def Let_def)
    moreover have "drawable ((?vs ! n)\<lparr>vd_breaks := True\<rparr>)" using 2(1) by (simp add: drawable_def)
    ultimately show ?thesis
      using inv 2 n U
      by (simp add: walk_step_def walk_inv_def drawn_Suc drawn_update doubted_def joined_def Let_def)
  next
    case (3 a)
    let ?dt = "leg_secs fs a n" and ?m = "leg_metres fs a n"
    have a: "a \<in> ?D - ?U" "\<forall>k \<in> ?D - ?U. k \<le> a" and j: "joined (?D - ?U) fs ?vs"
      using inv 3(2) by (simp_all add: walk_inv_def Let_def)
    show ?thesis
    proof (cases "reachable_radius_m ?dt < ?m")
      case True
      have "insert n ?D - insert n ?U = ?D - ?U" using less(2) by blast
      with inv 3 True U show ?thesis
        by (auto simp: walk_step_def walk_inv_def drawn_Suc doubted_def Let_def)
    next
      case False
      define vs' where "vs' = wk_verdicts (walk_step fs n w)"
      have vs': "vs' = (if MAX_GAP_S < ?dt \<or> MAX_GAP_M < ?m
          then ?vs[n := break_route (GapAfter ?dt ?m) (?vs ! n)] else ?vs)"
        using 3 False by (simp add: vs'_def walk_step_def Let_def)
      have sel: "wk_anchor (walk_step fs n w) = Some n"
        "wk_unreachable (walk_step fs n w) = wk_unreachable w"
        using 3 False by (simp_all add: walk_step_def Let_def)
      have D: "drawn (Suc n) vs' = insert n ?D" "joined (?D - ?U) fs vs'"
        using 3(1) n j joined_update [of "?D - ?U" n fs ?vs] less(1)
        by (auto simp: vs' drawn_Suc drawn_update)
      have "vd_breaks (vs' ! n) \<or> (\<exists>a \<in> ?D - ?U. (\<forall>k \<in> ?D - ?U. k \<le> a) \<and> fine_leg fs a n)"
        using a False n by (auto simp: vs' fine_leg_def)
      with D have "joined (insert n (?D - ?U)) fs vs'" using less(1) by (intro joined_insert) auto
      with inv sel D(1) U less(1) show ?thesis
        by (auto simp: walk_inv_def doubted_def vs'_def [symmetric] drop [unfolded doubted_def] Let_def dest: less_imp_le)
    qed
  qed
qed

lemma walk_step_length [simp]: "length (wk_verdicts (walk_step fs i w)) = length (wk_verdicts w)"
  by (auto simp: walk_step_def Let_def split: option.split)

lemma walk_inv_walk:
  assumes "length vs = length fs"
  shows "walk_inv fs (length fs) (forward_walk fs vs)"
proof -
  let ?w = "\<lparr>wk_anchor = None, wk_unreachable = [], wk_verdicts = vs\<rparr>"
  have "n \<le> length fs \<Longrightarrow> walk_inv fs n (fold (walk_step fs) [0..<n] ?w) \<and>
      length (wk_verdicts (fold (walk_step fs) [0..<n] ?w)) = length fs" for n
  proof (induction n)
    case 0
    then show ?case using assms by (simp add: walk_inv_def drawn_def doubted_def joined_def Let_def)
  next
    case (Suc n)
    then show ?case by (simp add: walk_step_inv)
  qed
  then show ?thesis by (simp add: forward_walk_def)
qed

subsection \<open>Settling the doubts\<close>

definition resolved_as :: "bool \<Rightarrow> gps_verdict \<Rightarrow> bool" where
  "resolved_as decisive v \<longleftrightarrow> (if decisive then \<not> drawable v else vd_breaks v)"

lemma settle_one_nth:
  "length (settle_one b u vs) = length vs"
  "i \<noteq> fst u \<Longrightarrow> settle_one b u vs ! i = vs ! i"
  "fst u < length vs \<Longrightarrow> resolved_as b (settle_one b u vs ! fst u)"
  by (auto simp: resolved_as_def settle_one_def drawable_def DRAWABLE_def split: prod.splits)

lemma settle_fold_length [simp]: "length (fold (settle_one b) us vs) = length vs"
  by (induction us arbitrary: vs) (simp_all add: settle_one_nth)

lemma settle_fold_other: "i \<notin> fst ` set us \<Longrightarrow> fold (settle_one b) us vs ! i = vs ! i"
  by (induction us arbitrary: vs) (simp_all add: settle_one_nth)

lemma settle_fold_doubted:
  assumes "distinct (List.map fst us)" and "i \<in> fst ` set us" and "i < length vs"
  shows "resolved_as b (fold (settle_one b) us vs ! i)"
  using assms
proof (induction us arbitrary: vs)
  case (Cons u us)
  show ?case
  proof (cases "i = fst u")
    case True
    have "fold (settle_one b) (u # us) vs ! fst u = settle_one b u vs ! fst u"
      using Cons.prems(1) by (simp add: settle_fold_other)
    moreover have "fst u < length vs" using Cons.prems(3) True by simp
    ultimately show ?thesis using settle_one_nth(3) [of u vs b] True by simp
  next
    case False
    with Cons show ?thesis by (simp add: settle_one_nth)
  qed
qed simp

lemma length_usable: "length (usable vs) = card (drawn (length vs) vs)"
proof -
  have "set (usable vs) = drawn (length vs) vs" by (auto simp: usable_def drawn_def)
  moreover have "distinct (usable vs)" by (simp add: usable_def)
  ultimately show ?thesis by (metis distinct_card)
qed

lemma joined_settle:
  assumes inv: "walk_inv fs n w" and n: "n = length (wk_verdicts w)"
  shows "joined (drawn n (settle w)) fs (settle w)"
proof -
  let ?vs = "wk_verdicts w" and ?U = "doubted w" and ?us = "wk_unreachable w"
  let ?D = "drawn n ?vs"
  have U: "?U \<subseteq> ?D" "distinct (List.map fst ?us)" and j: "joined (?D - ?U) fs ?vs"
    using inv by (simp_all add: walk_inv_def Let_def)
  define b where "b \<longleftrightarrow> MIN_NEIGHBOURS < length (usable ?vs) \<or> length ?us < 2"
  have s: "settle w = fold (settle_one b) ?us ?vs" by (simp add: settle_def b_def Let_def)
  have other: "settle w ! i = ?vs ! i" if "i \<notin> ?U" for i
    using that by (simp add: s doubted_def settle_fold_other)
  have doubt: "resolved_as b (settle w ! i)" if "i \<in> ?U" for i
  proof -
    have "i < length ?vs" using that U(1) n by (auto simp: drawn_def)
    with settle_fold_doubted [OF U(2)] that show ?thesis by (simp add: s doubted_def)
  qed
  have cU: "card ?U = length ?us" using U(2) by (metis distinct_card doubted_def length_map set_map)
  show ?thesis
  proof (cases b)
    case True
    have "drawn n (settle w) = ?D - ?U"
      using doubt True U(1) by (auto simp: drawn_def resolved_as_def) (metis other)+
    moreover have "joined (?D - ?U) fs (settle w) = joined (?D - ?U) fs ?vs"
      by (rule joined_cong) (simp add: other)
    ultimately show ?thesis using j by simp
  next
    case False
    have fin: "finite ?D" by (simp add: drawn_def)
    have "card ?D \<le> 3" "2 \<le> card ?U"
      using False length_usable [of ?vs] cU n by (auto simp: b_def MIN_NEIGHBOURS_def)
    then have "card (?D - ?U) \<le> 1" using fin U(1) by (simp add: card_Diff_subset finite_subset)
    then have "x = y" if "x \<in> ?D - ?U" "y \<in> ?D - ?U" for x y
      using that fin card_le_Suc0_iff_eq [of "?D - ?U"] by auto
    then have "vd_breaks (?vs ! x)" if "x \<in> ?D - ?U" for x
      using that j unfolding joined_def by blast
    then have "vd_breaks (settle w ! x)" if "x \<in> ?D" for x
      using that other [of x] doubt [of x] False by (cases "x \<in> ?U") (auto simp: resolved_as_def)
    moreover have "drawn n (settle w) \<subseteq> ?D"
      using lowers_settle [of w] n by (auto simp: drawn_def drawable_def lowers_def DRAWABLE_def)
    ultimately show ?thesis by (auto simp: joined_def)
  qed
qed

lemma joined_classify: "joined (drawn (length fs) (classify fs)) fs (classify fs)"
proof -
  let ?vs = "neighbourhood_rounds 2 fs (List.map first_verdict fs)"
  have len: "length ?vs = length fs"
    using lowers_rounds [of "List.map first_verdict fs" 2 fs] by (simp add: lowers_def)
  moreover have "length (wk_verdicts (forward_walk fs ?vs)) = length fs"
    using lowers_walk [of ?vs fs] len by (simp add: lowers_def)
  ultimately show ?thesis
    unfolding classify_def using joined_settle [OF walk_inv_walk [OF len]] by simp
qed

subsection \<open>Runs\<close>

definition follows :: "gps_verdict list \<Rightarrow> nat \<Rightarrow> nat \<Rightarrow> bool" where
  "follows vs i j \<longleftrightarrow> drawable (vs ! i) \<and> drawable (vs ! j) \<and> i < j \<and>
     (\<forall>k. i < k \<and> k < j \<longrightarrow> \<not> drawable (vs ! k)) \<and> \<not> vd_breaks (vs ! j)"

lemma cut_runs_follow:
  assumes "run \<in> set (cut_runs vs current [m..<n])" "successively (follows vs) current"
    and "current \<noteq> [] \<Longrightarrow> last current < m \<and> drawable (vs ! last current) \<and>
      (\<forall>k. last current < k \<and> k < m \<longrightarrow> \<not> drawable (vs ! k))"
    and "set current \<subseteq> {..<n}"
  shows "successively (follows vs) run \<and> set run \<subseteq> {..<n}"
  using assms
proof (induction "n - m" arbitrary: m current)
  case 0
  then show ?case by (auto split: if_splits)
next
  case (Suc d)
  then have upt: "[m..<n] = m # [Suc m..<n]" "d = n - Suc m" "m < n" by (simp_all add: upt_conv_Cons)
  let ?cut = "vd_breaks (vs ! m) \<and> current \<noteq> []"
  consider "\<not> drawable (vs ! m)" | "drawable (vs ! m)" ?cut | "drawable (vs ! m)" "\<not> ?cut" by blast
  then show ?case
  proof cases
    case 1
    with Suc.prems upt show ?thesis
      by (intro Suc.hyps(1) [of "Suc m" current]) (auto simp: less_Suc_eq)
  next
    case 2
    then consider "run = current" | "run \<in> set (cut_runs vs [m] [Suc m..<n])"
      using Suc.prems(1) upt by auto
    then show ?thesis
    proof cases
      case 2
      with upt \<open>drawable (vs ! m)\<close> show ?thesis by (intro Suc.hyps(1) [of "Suc m" "[m]"]) auto
    qed (use Suc.prems in auto)
  next
    case 3
    have "successively (follows vs) (current @ [m])"
      using Suc.prems(2,3) 3 by (cases "current = []") (auto simp: successively_append_iff follows_def)
    with Suc.prems upt 3 show ?thesis
      by (intro Suc.hyps(1) [of "Suc m" "current @ [m]"]) auto
  qed
qed

lemma segment_follows:
  assumes "run \<in> set (segments vs)" and "Suc k < length run"
  shows "follows vs (run ! k) (run ! Suc k)" and "run ! Suc k < length vs"
proof -
  have "successively (follows vs) run \<and> set run \<subseteq> {..<length vs}"
    using assms(1) by (intro cut_runs_follow [of run vs "[]" 0]) (auto simp: segments_def)
  with assms(2) show "follows vs (run ! k) (run ! Suc k)" "run ! Suc k < length vs"
    by (auto simp: successively_conv_nth subset_iff)
qed


subsection \<open>The theorems\<close>

text \<open>C20: a line the map draws is one the vehicle can have driven. Two samples that follow each other
  in a drawn run are places on Earth, at most 250 metres apart, the second at most ten seconds after
  the first (a clock that steps back is not a gap, there as here), and no further apart than the
  fastest road vehicle gets in the time between them, whatever the readings were.\<close>

theorem drawn_line_is_drivable:
  assumes "run \<in> set (segments (classify fs))" and "Suc k < length run"
  shows "let i = run ! k; j = run ! Suc k; dt = leg_secs fs i j; gap = leg_metres fs i j in
    i < j \<and> j < length fs \<and>
    (\<forall>n \<in> {i, j}. is_valid_coordinate (column (fx_lat (fs ! n))) (column (fx_lon (fs ! n)))) \<and>
    dt \<le> 10 \<and> gap \<le> 250 \<and> gap \<le> 160 * 1000 / 3600 * max 1 \<bar>dt\<bar> + 17"
proof -
  let ?vs = "classify fs"
  have low: "lowers (List.map first_verdict fs) ?vs" by (rule lowers_classify)
  then have len: "length ?vs = length fs" by (simp add: lowers_def)
  obtain i j where ij: "i = run ! k" "j = run ! Suc k" by simp
  have f: "follows ?vs i j" "j < length fs" using segment_follows [OF assms] ij len by simp_all
  have valid: "is_valid_coordinate (column (fx_lat (fs ! n))) (column (fx_lon (fs ! n)))"
    if "drawable (?vs ! n)" "n < length fs" for n
  proof -
    have "drawable (first_verdict (fs ! n))"
      using that low by (auto simp: lowers_def drawable_def DRAWABLE_def)
    then show ?thesis by (rule first_verdict_drawable)
  qed
  have "j \<in> drawn (length fs) ?vs" using f by (simp add: drawn_def follows_def)
  then obtain a where a: "a \<in> drawn (length fs) ?vs" "a < j"
    "\<forall>k \<in> drawn (length fs) ?vs. k < j \<longrightarrow> k \<le> a" "fine_leg fs a j"
    using joined_classify [of fs] f(1) unfolding joined_def follows_def by blast
  have "i \<le> a" using a(3) f by (auto simp: follows_def drawn_def)
  moreover have "\<not> i < a" using f(1) a(1,2) by (auto simp: follows_def drawn_def)
  ultimately have "fine_leg fs i j" using a(4) by simp
  moreover have "drawable (?vs ! i)" "drawable (?vs ! j)" "i < j" using f(1) by (simp_all add: follows_def)
  ultimately show ?thesis
    using valid f(2) ij
    by (simp add: Let_def fine_leg_def MAX_GAP_S_def MAX_GAP_M_def reachable_radius_m_def
        MAX_ROAD_SPEED_MS_def QUANTISATION_M_def)
qed

text \<open>No pass can raise a sample. Its final quality is the one its own reading earned, or rejected: what was
  synthesised never becomes a trusted reading, what is no place is never drawn, and the answer
  has one verdict for each sample, in order.\<close>

theorem classify_only_condemns:
  "list_all2
     (\<lambda>f v. vd_quality v \<in> {QRejected, vd_quality (first_verdict f)} \<and>
        (if vd_quality v \<in> set TRUSTED
         then \<not> fx_synthetic f \<and> \<not> fx_no_fix f \<and> is_valid_coordinate (column (fx_lat f)) (column (fx_lon f))
         else True))
     fs (classify fs)"
proof -
  have trusted: "\<not> fx_synthetic f \<and> \<not> fx_no_fix f \<and> is_valid_coordinate (column (fx_lat f)) (column (fx_lon f))"
    if "vd_quality (first_verdict f) = QValid" for f
    using that first_verdict_drawable [of f] by (auto simp: drawable_def DRAWABLE_def split: if_splits)
  have "lowers (List.map first_verdict fs) (classify fs)" by (rule lowers_classify)
  then show ?thesis
    using trusted by (fastforce simp: list_all2_conv_all_nth lowers_def TRUSTED_def)
qed

text \<open>Two readings of a parked car, a second apart.\<close>

definition sample_fixes :: "gps_fix list" where
  "sample_fixes =
     List.map (\<lambda>t. \<lparr>fx_t = t, fx_lat = Some 10, fx_lon = Some 20, fx_synthetic = False, fx_no_fix = False\<rparr>)
       [0, 1]"

lemma sample_segments: "segments (classify sample_fixes) = [[0, 1]]"
proof -
  let ?f = "\<lambda>t. \<lparr>fx_t = t, fx_lat = Some 10, fx_lon = Some 20, fx_synthetic = False, fx_no_fix = False\<rparr>"
  let ?v = "\<lparr>vd_quality = QValid, vd_reasons = [], vd_detail = NoDetail, vd_breaks = False\<rparr>"
  have first: "List.map first_verdict sample_fixes = [?v, ?v]"
    by (simp add: sample_fixes_def first_verdict_def column_def MAX_LATITUDE_def MAX_LONGITUDE_def
        is_no_fix_placeholder_def NO_FIX_EPSILON_def)
  have "neighbourhood_rounds 2 sample_fixes [?v, ?v] = [?v, ?v]"
    by (simp add: numeral_2_eq_2 neighbourhood_round_def usable_def MIN_NEIGHBOURS_def Let_def)
  then show ?thesis
    unfolding classify_def first
    by (simp add: forward_walk_def sample_fixes_def walk_step_def settle_def segments_def drawable_def DRAWABLE_def
        leg_secs_def leg_metres_def reachable_radius_m_def MAX_ROAD_SPEED_MS_def QUANTISATION_M_def
        MAX_GAP_S_def MAX_GAP_M_def place_of_def upt_rec Let_def)
qed

lemma drawn_line_is_drivable_witness:
  "let dt = leg_secs sample_fixes 0 1; gap = leg_metres sample_fixes 0 1
   in dt \<le> 10 \<and> gap \<le> 250 \<and> gap \<le> 160 * 1000 / 3600 * max 1 \<bar>dt\<bar> + 17"
proof -
  have "[0, 1] \<in> set (segments (classify sample_fixes))" "Suc 0 < length [0, 1::nat]"
    by (simp_all add: sample_segments)
  from drawn_line_is_drivable [OF this] show ?thesis by (simp add: Let_def)
qed

end
