(* ===== verification/DriveTrack.thy ===== *)
theory DriveTrack
  imports TrackQuality "HOL-Library.Product_Lexorder"
begin

section \<open>The path a drive took\<close>

text \<open>
  Models \<^verbatim>\<open>backend/app/journeys/track.py\<close>: the telemetry rows of a journey become one
  position per second, in time order, from whichever camera saw it. The moment of a sample is
  its overlay clock where that is plausible, and its offset in the recording otherwise. A
  dictionary keeps the order in which its keys came; \<^verbatim>\<open>sort\<close> is stable.
\<close>

record telemetry_point =
  tl_id :: row_id
  tl_recording_id :: row_id
  tl_journey_id :: "row_id option"
  tl_t_offset_s :: real
  tl_captured_at :: "usec option"
  tl_lat :: "real option"
  tl_lon :: "real option"
  tl_has_fix :: bool
  tl_speed_kmh :: "real option"
  tl_heading_deg :: "real option"
  tl_gps_quality :: "gps_quality option"
  tl_gps_reason :: "gps_reason option"
  tl_breaks_segment :: bool

record track_point =
  tp_recording_id :: row_id
  tp_t_offset_s :: real
  tp_lat :: "real option"
  tp_lon :: "real option"
  tp_speed_kmh :: "real option"
  tp_at :: usec
  tp_breaks_segment :: bool

definition moment_of :: "usec option \<Rightarrow> usec option \<Rightarrow> real \<Rightarrow> usec option" where
  "moment_of captured started offset =
     (let expected = map_option (\<lambda>s. s + delta_of offset) started in
      case captured of
        Some c \<Rightarrow> if clock_is_plausible (Some c) expected then Some c else expected
      | None \<Rightarrow> expected)"

type_synonym placed = "usec \<times> bool \<times> track_point"

definition place_row :: "(row_id \<Rightarrow> usec option) \<Rightarrow> (row_id \<Rightarrow> bool) \<Rightarrow> telemetry_point \<Rightarrow> placed option" where
  "place_row starts front row =
     (case moment_of (tl_captured_at row) (starts (tl_recording_id row)) (tl_t_offset_s row) of
        None \<Rightarrow> None
      | Some t \<Rightarrow>
          Some (t, front (tl_recording_id row),
            \<lparr>tp_recording_id = tl_recording_id row, tp_t_offset_s = tl_t_offset_s row,
             tp_lat = tl_lat row, tp_lon = tl_lon row, tp_speed_kmh = tl_speed_kmh row, tp_at = t,
             tp_breaks_segment = tl_breaks_segment row\<rparr>))"

text \<open>\<^verbatim>\<open>int(at.timestamp())\<close> cuts towards zero.\<close>

definition second_of :: "usec \<Rightarrow> int" where
  "second_of t = (if t < 0 then - ((- t) div 1000000) else t div 1000000)"

type_synonym seconds_dict = "(int \<times> bool \<times> track_point) list"

definition choose_second :: "placed \<Rightarrow> seconds_dict \<Rightarrow> seconds_dict" where
  "choose_second item chosen =
     (case item of (t, is_front, point) \<Rightarrow>
        (case map_of chosen (second_of t) of
           None \<Rightarrow> AList.update (second_of t) (is_front, point) chosen
         | Some (was_front, _) \<Rightarrow>
             if is_front \<and> \<not> was_front then AList.update (second_of t) (is_front, point) chosen
             else chosen))"

fun drop_clip_breaks :: "row_id option \<Rightarrow> track_point list \<Rightarrow> track_point list" where
  "drop_clip_breaks previous [] = []"
| "drop_clip_breaks previous (p # ps) =
     (if tp_breaks_segment p \<and> previous \<noteq> None \<and> previous \<noteq> Some (tp_recording_id p)
      then p\<lparr>tp_breaks_segment := False\<rparr> else p)
     # drop_clip_breaks (Some (tp_recording_id p)) ps"

definition placed_rows :: "(row_id \<Rightarrow> usec option) \<Rightarrow> (row_id \<Rightarrow> bool) \<Rightarrow> telemetry_point list \<Rightarrow> placed list" where
  "placed_rows starts front rows =
     sort_key (\<lambda>(t, is_front, _). (t, \<not> is_front)) (List.map_filter (place_row starts front) rows)"

definition chosen_rows :: "placed list \<Rightarrow> track_point list" where
  "chosen_rows items =
     List.map snd (sort_key (\<lambda>x. tp_at (snd x)) (List.map snd (fold choose_second items [])))"

definition single_track :: "telemetry_point list \<Rightarrow> (row_id \<Rightarrow> usec option) \<Rightarrow> (row_id \<Rightarrow> bool) \<Rightarrow> track_point list" where
  "single_track rows starts front = drop_clip_breaks None (chosen_rows (placed_rows starts front rows))"

subsection \<open>One choice for each second\<close>

text \<open>Of the items of one second, the first from the front camera, or the first of all.\<close>

definition best_of :: "placed list \<Rightarrow> int \<Rightarrow> (bool \<times> track_point) option" where
  "best_of items s =
     map_option snd
       (case List.find (\<lambda>x. second_of (fst x) = s \<and> fst (snd x)) items of
          Some x \<Rightarrow> Some x
        | None \<Rightarrow> List.find (\<lambda>x. second_of (fst x) = s) items)"

lemma find_snoc:
  "List.find P (xs @ [x]) = (case List.find P xs of Some y \<Rightarrow> Some y | None \<Rightarrow> if P x then Some x else None)"
  by (induction xs) auto

lemma find_NoneD: "List.find P xs = None \<Longrightarrow> x \<in> set xs \<Longrightarrow> \<not> P x"
  by (auto simp: find_None_iff)

lemma best_of_cases:
  obtains (front) x where "x \<in> set items" "second_of (fst x) = s" "fst (snd x)" "best_of items s = Some (snd x)"
      "List.find (\<lambda>x. second_of (fst x) = s \<and> fst (snd x)) items = Some x"
  | (rear) x where "x \<in> set items" "second_of (fst x) = s" "best_of items s = Some (snd x)"
      "\<forall>y \<in> set items. second_of (fst y) = s \<longrightarrow> \<not> fst (snd y)"
      "List.find (\<lambda>x. second_of (fst x) = s \<and> fst (snd x)) items = None"
      "List.find (\<lambda>x. second_of (fst x) = s) items = Some x"
  | (none) "\<forall>y \<in> set items. second_of (fst y) \<noteq> s" "best_of items s = None"
      "List.find (\<lambda>x. second_of (fst x) = s \<and> fst (snd x)) items = None"
      "List.find (\<lambda>x. second_of (fst x) = s) items = None"
proof (cases "List.find (\<lambda>x. second_of (fst x) = s \<and> fst (snd x)) items")
  case (Some x)
  then show ?thesis using front [of x] find_SomeD [OF Some] by (simp add: best_of_def)
next
  case none': None
  show ?thesis
  proof (cases "List.find (\<lambda>x. second_of (fst x) = s) items")
    case (Some x)
    then show ?thesis
      using rear [of x] find_SomeD [OF Some] find_NoneD [OF none'] none' by (simp add: best_of_def)
  next
    case None
    then show ?thesis using none find_NoneD [OF None] none' by (simp add: best_of_def)
  qed
qed

lemma choose_second_step:
  assumes "\<And>s. map_of chosen s = best_of items s"
  shows "map_of (choose_second item chosen) s = best_of (items @ [item]) s"
proof -
  obtain t f p where item: "item = (t, f, p)" by (cases item) auto
  show ?thesis
  proof (cases "s = second_of t")
    case True
    show ?thesis
      using assms [of s]
      by (cases rule: best_of_cases [of items s])
        (auto simp: True item choose_second_def best_of_def find_snoc update_conv split: prod.splits)
  next
    case False
    then show ?thesis
      using assms [of s]
      by (auto simp: item choose_second_def best_of_def find_snoc update_conv split: option.splits prod.splits)
  qed
qed

lemma choose_seconds: "map_of (fold choose_second items []) s = best_of items s"
proof (induction items arbitrary: s rule: rev_induct)
  case (snoc item items)
  then show ?case using choose_second_step [of "fold choose_second items []" items] by simp
qed (simp add: best_of_def)

lemma distinct_choose: "distinct (List.map fst chosen) \<Longrightarrow> distinct (List.map fst (choose_second item chosen))"
  by (auto simp: choose_second_def split: prod.splits option.splits intro: distinct_update)

lemma distinct_chosen: "distinct (List.map fst (fold choose_second items []))"
proof -
  have "distinct (List.map fst c) \<Longrightarrow> distinct (List.map fst (fold choose_second items c))" for c
    by (induction items arbitrary: c) (auto intro: distinct_choose)
  then show ?thesis by simp
qed

lemma mem_chosen: "(s, c) \<in> set (fold choose_second items []) \<longleftrightarrow> best_of items s = Some c"
  using map_of_eq_Some_iff [OF distinct_chosen, of items s c] choose_seconds [of items s] by auto

lemma best_of_mem:
  assumes "best_of items s = Some (f, p)"
  shows "\<exists>t. (t, f, p) \<in> set items \<and> second_of t = s"
  using assms by (cases rule: best_of_cases [of items s]) auto

lemma best_of_exists: "(t, f, p) \<in> set items \<Longrightarrow> second_of t = s \<Longrightarrow> best_of items s \<noteq> None"
  by (cases rule: best_of_cases [of items s]) auto

lemma best_of_front:
  assumes "(t, True, q) \<in> set items" and "second_of t = s" and "best_of items s = Some (f, p)"
  shows "f"
  using assms by (cases rule: best_of_cases [of items s]) auto

subsection \<open>What the track is\<close>

definition moment :: "(row_id \<Rightarrow> usec option) \<Rightarrow> telemetry_point \<Rightarrow> usec option" where
  "moment starts row = moment_of (tl_captured_at row) (starts (tl_recording_id row)) (tl_t_offset_s row)"

lemma second_of_mono: "t \<le> t' \<Longrightarrow> second_of t \<le> second_of t'"
proof -
  assume le: "t \<le> t'"
  have "(- t') div 1000000 \<le> (- t) div 1000000" using le by (intro zdiv_mono1) auto
  moreover have "t div 1000000 \<le> t' div 1000000" using le by (intro zdiv_mono1) auto
  moreover have "- ((- t) div 1000000) \<le> t' div 1000000" if "t < 0" "0 \<le> t'"
  proof -
    have "0 \<le> (- t) div 1000000" "0 \<le> t' div 1000000"
      using that by (simp_all add: pos_imp_zdiv_nonneg_iff)
    then show ?thesis by linarith
  qed
  ultimately show ?thesis using le by (auto simp: second_of_def)
qed

lemma mem_map_filter: "y \<in> set (List.map_filter f xs) \<longleftrightarrow> (\<exists>x \<in> set xs. f x = Some y)"
  by (induction xs) (auto simp: map_filter_simps split: option.split)

lemma placed_rows_mem:
  "(t, f, p) \<in> set (placed_rows starts front rows) \<longleftrightarrow>
    (\<exists>row \<in> set rows. place_row starts front row = Some (t, f, p))"
  by (simp add: placed_rows_def mem_map_filter)

lemma place_row_Some:
  "place_row starts front row = Some (t, f, p) \<longleftrightarrow>
    moment starts row = Some t \<and> f = front (tl_recording_id row) \<and>
    p = \<lparr>tp_recording_id = tl_recording_id row, tp_t_offset_s = tl_t_offset_s row,
         tp_lat = tl_lat row, tp_lon = tl_lon row, tp_speed_kmh = tl_speed_kmh row, tp_at = t,
         tp_breaks_segment = tl_breaks_segment row\<rparr>"
  by (auto simp: place_row_def moment_def split: option.split)

lemma drop_clip_breaks_map:
  "(\<And>p b. g (p\<lparr>tp_breaks_segment := b\<rparr>) = g p) \<Longrightarrow> List.map g (drop_clip_breaks prev ps) = List.map g ps"
  by (induction prev ps rule: drop_clip_breaks.induct) auto

lemma drop_clip_breaks_same:
  "successively (\<lambda>p q. tp_breaks_segment q \<longrightarrow> tp_recording_id p = tp_recording_id q) (drop_clip_breaks prev ps)"
proof (induction prev ps rule: drop_clip_breaks.induct)
  case (2 prev p ps)
  then show ?case by (cases ps) auto
qed simp

text \<open>The chosen items know their own second, so sorting them leaves one for each.\<close>

lemma chosen_rows_mem:
  "p \<in> set (chosen_rows items) \<longleftrightarrow> (\<exists>s f. best_of items s = Some (f, p))"
proof -
  have "set (chosen_rows items) = (\<lambda>x. snd (snd x)) ` set (fold choose_second items [])"
    by (simp add: chosen_rows_def image_image)
  also have "\<dots> = {p. \<exists>s f. (s, f, p) \<in> set (fold choose_second items [])}" by force
  finally show ?thesis by (simp add: mem_chosen)
qed

lemma chosen_rows_sorted:
  assumes "\<And>t f p. (t, f, p) \<in> set items \<Longrightarrow> tp_at p = t"
  shows "sorted_wrt (\<lambda>a b. tp_at a < tp_at b \<and> second_of (tp_at a) < second_of (tp_at b)) (chosen_rows items)"
proof -
  let ?D = "fold choose_second items []" and ?s = "\<lambda>p. second_of (tp_at p)"
  have own: "?s (snd (snd x)) = fst x" if "x \<in> set ?D" for x
  proof -
    obtain s f p where x: "x = (s, f, p)" by (cases x) auto
    with that have "best_of items s = Some (f, p)" by (simp add: mem_chosen)
    from best_of_mem [OF this] assms show ?thesis by (auto simp: x)
  qed
  have "mset (List.map ?s (chosen_rows items)) = mset (List.map (\<lambda>x. ?s (snd (snd x))) ?D)"
    by (simp add: chosen_rows_def image_mset.compositionality comp_def)
  also have "List.map (\<lambda>x. ?s (snd (snd x))) ?D = List.map fst ?D" using own by simp
  finally have "distinct (List.map ?s (chosen_rows items))"
    using distinct_chosen [of items] mset_eq_imp_distinct_iff by blast
  moreover have le: "sorted (List.map tp_at (chosen_rows items))"
    using sorted_sort_key [of "\<lambda>x. tp_at (snd x)" "List.map snd ?D"] by (simp add: chosen_rows_def comp_def)
  moreover have "sorted (List.map ?s (chosen_rows items))"
    using sorted_wrt_mono_rel [of "chosen_rows items" "\<lambda>x y. tp_at x \<le> tp_at y" "\<lambda>x y. ?s x \<le> ?s y"]
      le second_of_mono by (simp add: sorted_wrt_map)
  ultimately have "sorted_wrt (<) (List.map ?s (chosen_rows items))" by (simp add: strict_sorted_iff)
  then have "sorted_wrt (\<lambda>a b. ?s a < ?s b) (chosen_rows items)" by (simp add: sorted_wrt_map)
  then show ?thesis
    by (rule sorted_wrt_mono_rel [rotated]) (use second_of_mono in \<open>meson not_le\<close>)
qed

lemma single_track_spec:
  fixes rows starts front
  defines "ts \<equiv> single_track rows starts front"
  shows "sorted_wrt (\<lambda>a b. tp_at a < tp_at b \<and> second_of (tp_at a) < second_of (tp_at b)) ts"
    and "(\<lambda>p. second_of (tp_at p)) ` set ts = second_of ` {t. \<exists>row \<in> set rows. moment starts row = Some t}"
    and "\<forall>p \<in> set ts. \<exists>row \<in> set rows. moment starts row = Some (tp_at p) \<and>
      tl_recording_id row = tp_recording_id p \<and> (tl_lat row, tl_lon row, tl_speed_kmh row) = (tp_lat p, tp_lon p, tp_speed_kmh p) \<and>
      (front (tp_recording_id p) \<or>
       (\<forall>other \<in> set rows. \<forall>t. moment starts other = Some t \<and> second_of t = second_of (tp_at p) \<longrightarrow>
          \<not> front (tl_recording_id other)))"
    and "successively (\<lambda>p q. tp_breaks_segment q \<longrightarrow> tp_recording_id p = tp_recording_id q) ts"
proof -
  define items where "items = placed_rows starts front rows"
  have tsi: "ts = drop_clip_breaks None (chosen_rows items)" by (simp add: ts_def single_track_def items_def)
  have item: "(t, f, p) \<in> set items \<longleftrightarrow> (\<exists>row \<in> set rows. place_row starts front row = Some (t, f, p))" for t f p
    by (simp add: items_def placed_rows_mem)
  then have own: "(t, f, p) \<in> set items \<Longrightarrow> tp_at p = t" for t f p by (auto simp: place_row_Some)
  have "List.map tp_at ts = List.map tp_at (chosen_rows items)" unfolding tsi by (rule drop_clip_breaks_map) simp
  then have "sorted_wrt (\<lambda>a b. a < b \<and> second_of a < second_of b) (List.map tp_at ts)"
    using chosen_rows_sorted [of items, OF own] by (simp add: sorted_wrt_map)
  then show "sorted_wrt (\<lambda>a b. tp_at a < tp_at b \<and> second_of (tp_at a) < second_of (tp_at b)) ts"
    by (simp add: sorted_wrt_map)
  have "(\<lambda>p. second_of (tp_at p)) ` set ts = (\<lambda>p. second_of (tp_at p)) ` set (chosen_rows items)"
    using arg_cong [OF \<open>List.map tp_at ts = _\<close>, of "\<lambda>xs. second_of ` set xs"] by (simp add: image_image)
  also have "(\<lambda>p. second_of (tp_at p)) ` set (chosen_rows items) = second_of ` {t. \<exists>f p. (t, f, p) \<in> set items}"
  proof (intro equalityI subsetI)
    fix n
    assume "n \<in> (\<lambda>p. second_of (tp_at p)) ` set (chosen_rows items)"
    then obtain p s f where "n = second_of (tp_at p)" "best_of items s = Some (f, p)"
      by (auto simp: chosen_rows_mem)
    with best_of_mem [OF this(2)] own show "n \<in> second_of ` {t. \<exists>f p. (t, f, p) \<in> set items}" by blast
  next
    fix n
    assume "n \<in> second_of ` {t. \<exists>f p. (t, f, p) \<in> set items}"
    then obtain t f p where "(t, f, p) \<in> set items" "second_of t = n" by blast
    from best_of_exists [OF this] obtain g q where b: "best_of items n = Some (g, q)" by auto
    from best_of_mem [OF this] own have "second_of (tp_at q) = n" by blast
    with b show "n \<in> (\<lambda>p. second_of (tp_at p)) ` set (chosen_rows items)"
      unfolding image_iff Bex_def chosen_rows_mem by blast
  qed
  also have "{t. \<exists>f p. (t, f, p) \<in> set items} = {t. \<exists>row \<in> set rows. moment starts row = Some t}"
    by (auto simp: item place_row_Some)
  finally show "(\<lambda>p. second_of (tp_at p)) ` set ts = second_of ` {t. \<exists>row \<in> set rows. moment starts row = Some t}" .
  let ?key = "\<lambda>p. (tp_recording_id p, tp_lat p, tp_lon p, tp_speed_kmh p, tp_at p)"
  have "List.map ?key ts = List.map ?key (chosen_rows items)" unfolding tsi by (rule drop_clip_breaks_map) simp
  from arg_cong [OF this, of set] have keys: "?key ` set ts = ?key ` set (chosen_rows items)" by simp
  show "\<forall>p \<in> set ts. \<exists>row \<in> set rows. moment starts row = Some (tp_at p) \<and>
      tl_recording_id row = tp_recording_id p \<and> (tl_lat row, tl_lon row, tl_speed_kmh row) = (tp_lat p, tp_lon p, tp_speed_kmh p) \<and>
      (front (tp_recording_id p) \<or>
       (\<forall>other \<in> set rows. \<forall>t. moment starts other = Some t \<and> second_of t = second_of (tp_at p) \<longrightarrow>
          \<not> front (tl_recording_id other)))"
  proof
    fix p
    assume "p \<in> set ts"
    then have "?key p \<in> ?key ` set (chosen_rows items)" unfolding keys [symmetric] by blast
    then obtain q where q: "q \<in> set (chosen_rows items)" "?key p = ?key q" by blast
    then obtain s f where b: "best_of items s = Some (f, q)" by (auto simp: chosen_rows_mem)
    from best_of_mem [OF b] obtain t row where r: "(t, f, q) \<in> set items" "second_of t = s"
      "row \<in> set rows" "place_row starts front row = Some (t, f, q)" using item by blast
    have pq: "tp_recording_id p = tp_recording_id q" "tp_lat p = tp_lat q" "tp_lon p = tp_lon q"
      "tp_speed_kmh p = tp_speed_kmh q" "tp_at p = tp_at q" using q(2) by simp_all
    have row: "moment starts row = Some (tp_at p)" "tl_recording_id row = tp_recording_id p"
      "(tl_lat row, tl_lon row, tl_speed_kmh row) = (tp_lat p, tp_lon p, tp_speed_kmh p)"
      "f = front (tp_recording_id p)"
      using r(4) own [OF r(1)] unfolding pq place_row_Some by simp_all
    have "f" if m: "other \<in> set rows" "moment starts other = Some u" "second_of u = s" "front (tl_recording_id other)"
      for other u
    proof -
      obtain x where "place_row starts front other = Some (u, True, x)"
        using m(2,4) by (simp add: place_row_Some)
      then have "(u, True, x) \<in> set items" using m(1) item by blast
      from best_of_front [OF this m(3) b] show f .
    qed
    moreover have "s = second_of (tp_at p)" using r(2) own [OF r(1)] pq by simp
    ultimately show "\<exists>row \<in> set rows. moment starts row = Some (tp_at p) \<and>
      tl_recording_id row = tp_recording_id p \<and> (tl_lat row, tl_lon row, tl_speed_kmh row) = (tp_lat p, tp_lon p, tp_speed_kmh p) \<and>
      (front (tp_recording_id p) \<or>
       (\<forall>other \<in> set rows. \<forall>t. moment starts other = Some t \<and> second_of t = second_of (tp_at p) \<longrightarrow>
          \<not> front (tl_recording_id other)))"
      using r(3) row by blast
  qed
  show "successively (\<lambda>p q. tp_breaks_segment q \<longrightarrow> tp_recording_id p = tp_recording_id q) ts"
    unfolding tsi by (rule drop_clip_breaks_same)
qed

text \<open>The drive has one position a second, in time order, and loses none. A second has a position exactly
  when some sample is placed in it; the position is that of a sample, and it is a front
  camera's wherever a front camera saw that second; and a break in the line is only ever
  marked between two positions of one recording.\<close>

theorem one_position_per_second:
  "let ts = single_track rows starts front in
    sorted_wrt (\<lambda>a b. tp_at a < tp_at b \<and> second_of (tp_at a) < second_of (tp_at b)) ts \<and>
    (\<lambda>p. second_of (tp_at p)) ` set ts = second_of ` {t. \<exists>row \<in> set rows. moment starts row = Some t} \<and>
    (\<forall>p \<in> set ts. \<exists>row \<in> set rows. moment starts row = Some (tp_at p) \<and>
      tl_recording_id row = tp_recording_id p \<and> (tl_lat row, tl_lon row, tl_speed_kmh row) = (tp_lat p, tp_lon p, tp_speed_kmh p) \<and>
      (front (tp_recording_id p) \<or>
       (\<forall>other \<in> set rows. \<forall>t. moment starts other = Some t \<and> second_of t = second_of (tp_at p) \<longrightarrow>
          \<not> front (tl_recording_id other)))) \<and>
    successively (\<lambda>p q. tp_breaks_segment q \<longrightarrow> tp_recording_id p = tp_recording_id q) ts"
  unfolding Let_def by (intro conjI single_track_spec)

text \<open>The rear camera's sample comes first within the second; the front one is the position.\<close>

definition sample_point :: "row_id \<Rightarrow> row_id \<Rightarrow> usec \<Rightarrow> telemetry_point" where
  "sample_point i rec t =
     \<lparr>tl_id = i, tl_recording_id = rec, tl_journey_id = None, tl_t_offset_s = 0, tl_captured_at = Some t,
      tl_lat = Some 10, tl_lon = Some 20, tl_has_fix = True, tl_speed_kmh = Some 40, tl_heading_deg = None,
      tl_gps_quality = Some QValid, tl_gps_reason = None, tl_breaks_segment = True\<rparr>"

lemma one_position_per_second_witness:
  "let ts = single_track [sample_point 1 7 5000100, sample_point 2 8 5000200] (\<lambda>_. None) (\<lambda>r. r = 8)
   in ts \<noteq> [] \<and> tp_recording_id (hd ts) = 8"
proof -
  let ?rows = "[sample_point 1 7 5000100, sample_point 2 8 5000200]"
  let ?ts = "single_track ?rows (\<lambda>_. None) (\<lambda>r. r = 8)"
  have m: "moment (\<lambda>_. None) (sample_point i r t) = Some t" for i r t
    by (simp add: moment_def sample_point_def moment_of_def clock_is_plausible_def)
  note spec = one_position_per_second [of ?rows "\<lambda>_. None" "\<lambda>r. r = 8", unfolded Let_def]
  have "{t. \<exists>row \<in> set ?rows. moment (\<lambda>_. None) row = Some t} = {5000100, 5000200}" by (auto simp: m)
  with spec have "(\<lambda>p. second_of (tp_at p)) ` set ?ts = {5}" by (simp add: second_of_def)
  then have s: "?ts \<noteq> []" "\<And>p. p \<in> set ?ts \<Longrightarrow> second_of (tp_at p) = 5" by auto
  have "\<exists>row \<in> set ?rows. tl_recording_id row = tp_recording_id (hd ?ts) \<and>
      (tp_recording_id (hd ?ts) = 8 \<or> (\<forall>other \<in> set ?rows. \<forall>t. moment (\<lambda>_. None) other = Some t \<and>
         second_of t = second_of (tp_at (hd ?ts)) \<longrightarrow> tl_recording_id other \<noteq> 8))"
    using spec hd_in_set [OF s(1)] by blast
  then show ?thesis
    using s(1) s(2) [OF hd_in_set [OF s(1)]]
    by (simp add: m Let_def second_of_def) (auto simp: sample_point_def)
qed

end
