(* ===== verification/Bisect.thy ===== *)
theory Bisect
  imports Prelude
begin

section \<open>Binary search in a sorted list of moments\<close>

text \<open>
  The standard library's \<^verbatim>\<open>bisect_left\<close> and \<^verbatim>\<open>bisect_right\<close>, by halving as it does
  it, and what they find in a sorted list. The movement assessment and the journey barriers
  search with them.
\<close>

text \<open>\<^verbatim>\<open>bisect_left\<close> by halving, as the library does it.\<close>

function bisect_left_from :: "usec list \<Rightarrow> usec \<Rightarrow> nat \<Rightarrow> nat \<Rightarrow> nat" where
  "bisect_left_from xs x lo hi =
     (if hi \<le> lo then lo
      else
        (let mid = (lo + hi) div 2
         in if xs ! mid < x then bisect_left_from xs x (mid + 1) hi else bisect_left_from xs x lo mid))"
  by pat_completeness auto
termination by (relation "measure (\<lambda>(xs, x, lo, hi). hi - lo)") auto

declare bisect_left_from.simps [simp del]

definition bisect_left :: "usec list \<Rightarrow> usec \<Rightarrow> nat" where
  "bisect_left xs x = bisect_left_from xs x 0 (length xs)"

lemma bisect_left_from_spec:
  assumes "sorted xs" and "lo \<le> hi" and "hi \<le> length xs"
    and "\<forall>k < lo. xs ! k < x" and "\<forall>k. hi \<le> k \<and> k < length xs \<longrightarrow> x \<le> xs ! k"
  shows "bisect_left_from xs x lo hi \<le> length xs \<and> (\<forall>k < bisect_left_from xs x lo hi. xs ! k < x) \<and>
    (\<forall>k. bisect_left_from xs x lo hi \<le> k \<and> k < length xs \<longrightarrow> x \<le> xs ! k)"
  using assms
proof (induction xs x lo hi rule: bisect_left_from.induct)
  case (1 xs x lo hi)
  let ?mid = "(lo + hi) div 2"
  show ?case
  proof (cases "hi \<le> lo")
    case True
    then have "bisect_left_from xs x lo hi = lo" by (subst bisect_left_from.simps) simp
    moreover have "lo = hi" using True 1(4) by simp
    ultimately show ?thesis using 1(5-7) by simp
  next
    case False
    then have mid: "lo \<le> ?mid" "?mid < hi" by simp_all
    show ?thesis
    proof (cases "xs ! ?mid < x")
      case True
      have less: "\<forall>k < ?mid + 1. xs ! k < x"
      proof (intro allI impI)
        fix k
        assume "k < ?mid + 1"
        then have "xs ! k \<le> xs ! ?mid" using 1(3,5) mid by (intro sorted_nth_mono) auto
        with True show "xs ! k < x" by simp
      qed
      have eq: "bisect_left_from xs x lo hi = bisect_left_from xs x (?mid + 1) hi"
        using False True by (subst bisect_left_from.simps) (simp add: Let_def)
      have "?mid + 1 \<le> hi" using mid by simp
      from 1(1) [OF False refl True 1(3) this 1(5) less 1(7)] show ?thesis unfolding eq .
    next
      case False': False
      have more: "\<forall>k. ?mid \<le> k \<and> k < length xs \<longrightarrow> x \<le> xs ! k"
      proof (intro allI impI)
        fix k
        assume "?mid \<le> k \<and> k < length xs"
        then have "xs ! ?mid \<le> xs ! k" using 1(3) by (intro sorted_nth_mono) auto
        with False' show "x \<le> xs ! k" by simp
      qed
      have eq: "bisect_left_from xs x lo hi = bisect_left_from xs x lo ?mid"
        using False False' by (subst bisect_left_from.simps) (simp add: Let_def)
      have "?mid \<le> length xs" using mid 1(5) by simp
      from 1(2) [OF False refl False' 1(3) mid(1) this 1(6) more] show ?thesis unfolding eq .
    qed
  qed
qed

lemma bisect_left_spec:
  assumes "sorted xs"
  shows "bisect_left xs x \<le> length xs" and "k < bisect_left xs x \<Longrightarrow> xs ! k < x"
    and "bisect_left xs x \<le> k \<Longrightarrow> k < length xs \<Longrightarrow> x \<le> xs ! k"
  using bisect_left_from_spec [of xs 0 "length xs" x] assms by (auto simp: bisect_left_def)

text \<open>\<^verbatim>\<open>bisect_right\<close>.\<close>

function bisect_right_from :: "usec list \<Rightarrow> usec \<Rightarrow> nat \<Rightarrow> nat \<Rightarrow> nat" where
  "bisect_right_from xs x lo hi =
     (if hi \<le> lo then lo
      else
        (let mid = (lo + hi) div 2
         in if x < xs ! mid then bisect_right_from xs x lo mid else bisect_right_from xs x (mid + 1) hi))"
  by pat_completeness auto
termination by (relation "measure (\<lambda>(xs, x, lo, hi). hi - lo)") auto

declare bisect_right_from.simps [simp del]

definition bisect_right :: "usec list \<Rightarrow> usec \<Rightarrow> nat" where
  "bisect_right xs x = bisect_right_from xs x 0 (length xs)"

text \<open>On whole numbers the one is the other for the next value.\<close>

lemma bisect_right_from_left: "bisect_right_from xs x lo hi = bisect_left_from xs (x + 1) lo hi"
proof (induction xs x lo hi rule: bisect_right_from.induct)
  case (1 xs x lo hi)
  then show ?case
    by (subst bisect_right_from.simps, subst bisect_left_from.simps) (auto simp: Let_def not_less)
qed

lemma bisect_right_spec:
  assumes "sorted xs"
  shows "bisect_right xs x \<le> length xs" and "k < bisect_right xs x \<Longrightarrow> xs ! k \<le> x"
    and "bisect_right xs x \<le> k \<Longrightarrow> k < length xs \<Longrightarrow> x < xs ! k"
  using bisect_left_spec [OF assms, where x = "x + 1"]
  by (auto simp: bisect_right_def bisect_left_def bisect_right_from_left add1_zle_eq)

end
