(* ===== verification/Motion.thy ===== *)
theory Motion
  imports DriveTrack Bisect
begin

section \<open>Did the car move?\<close>

text \<open>
  Models \<^verbatim>\<open>backend/app/journeys/motion.py\<close>: speed spikes are blanked against the median
  of their neighbourhood in time, and a drive counts as moving only on a sustained stretch of
  speed with real progress, or on two fixes across a dropout that agree with their speeds. The
  theorems say what evidence stands behind the verdict and what blanking can touch.
\<close>

definition MOTION_REVISION :: string where "MOTION_REVISION = ''motion-v1''"

datatype motion_status = Moving | Unconfirmed | MotionUnknown
datatype motion_reason = SustainedMovement | PlausibleSparseLeg | InsufficientEvidence

record motion_evidence =
  me_revision :: string
  me_status :: motion_status
  me_reason :: motion_reason
  me_samples :: nat
  me_rejected :: nat
  me_longest_movement_s :: real
  me_max_progress_m :: real

record motion_assessment =
  ma_track :: "track_point list"
  ma_rejected :: "(row_id \<times> real) list"
  ma_evidence :: motion_evidence

subsection \<open>Speed spikes\<close>

definition window_bounds :: "usec list \<Rightarrow> nat \<Rightarrow> nat \<times> nat" where
  "window_bounds ats i =
     (bisect_left ats (ats ! i - seconds 10), bisect_right ats (ats ! i + seconds 10))"

definition window_speeds :: "track_point list \<Rightarrow> nat \<times> nat \<Rightarrow> real list" where
  "window_speeds track w =
     (case w of (lo, hi) \<Rightarrow> List.map_filter tp_speed_kmh (take (hi - lo) (drop lo track)))"

definition spike :: "track_point list \<Rightarrow> nat \<Rightarrow> bool" where
  "spike track i =
     (case tp_speed_kmh (track ! i) of
        None \<Rightarrow> False
      | Some speed \<Rightarrow>
          (let ats = List.map tp_at track; w = window_bounds ats i; near = window_speeds track w;
               bounded = seconds 3 \<le> ats ! i - ats ! fst w \<and> seconds 3 \<le> ats ! (snd w - 1) - ats ! i;
               centre = median near
           in bounded \<and> 7 \<le> length near \<and> centre + max 20 (centre * 0.5) < speed))"

definition cleaned :: "track_point list \<Rightarrow> track_point list" where
  "cleaned track =
     List.map (\<lambda>i. if spike track i then (track ! i)\<lparr>tp_speed_kmh := None\<rparr> else track ! i) [0..<length track]"

definition rejected :: "track_point list \<Rightarrow> (row_id \<times> real) list" where
  "rejected track =
     remdups (List.map (\<lambda>i. (tp_recording_id (track ! i), tp_t_offset_s (track ! i)))
                (filter (spike track) [0..<length track]))"

subsection \<open>Sustained movement\<close>

definition rolling :: "track_point \<Rightarrow> bool" where
  "rolling p \<longleftrightarrow> tp_lat p \<noteq> None \<and> tp_lon p \<noteq> None \<and>
     (case tp_speed_kmh p of None \<Rightarrow> False | Some v \<Rightarrow> 5 \<le> v)"

text \<open>Only asked of points that have both coordinates.\<close>

definition spot :: "track_point \<Rightarrow> place" where
  "spot p = (case_option 0 id (tp_lat p), case_option 0 id (tp_lon p))"

record movement =
  mv_run :: "track_point list"
  mv_confirmed :: bool
  mv_longest_s :: real
  mv_progress_m :: real

definition movement_step :: "track_point \<Rightarrow> movement \<Rightarrow> movement" where
  "movement_step p m =
     (if \<not> rolling p then m\<lparr>mv_run := []\<rparr>
      else
        (let run = (if mv_run m \<noteq> [] \<and> (tp_breaks_segment p \<or> seconds 10 < tp_at p - tp_at (last (mv_run m)))
                    then [] else mv_run m);
             run = filter (\<lambda>q. tp_at p - tp_at q \<le> seconds 30) (run @ [p]);
             secs = secs_between (tp_at p) (tp_at (hd run));
             progress = metres (spot (hd run)) (spot p)
         in \<lparr>mv_run = run,
             mv_confirmed = (mv_confirmed m \<or> (10 \<le> secs \<and> 3 \<le> length run \<and> 50 \<le> progress)),
             mv_longest_s = max (mv_longest_s m) secs,
             mv_progress_m = max (mv_progress_m m) progress\<rparr>))"

definition movement_of :: "track_point list \<Rightarrow> movement" where
  "movement_of track =
     fold movement_step track
       \<lparr>mv_run = [], mv_confirmed = False, mv_longest_s = 0, mv_progress_m = 0\<rparr>"

subsection \<open>Two fixes across a dropout\<close>

definition sparse_leg :: "track_point \<Rightarrow> track_point \<Rightarrow> bool" where
  "sparse_leg before after =
     (if tp_breaks_segment after \<or> \<not> rolling before \<or> \<not> rolling after then False
      else
        (let elapsed = secs_between (tp_at after) (tp_at before) in
         if \<not> (10 < elapsed \<and> elapsed \<le> 300) then False
         else
           (let progress = metres (spot before) (spot after);
                implied = progress / elapsed * 3.6
            in 500 \<le> progress \<and> implied \<le> 200 \<and>
               list_all (\<lambda>v. v * 0.5 \<le> implied \<and> implied \<le> v * 1.5)
                 (List.map_filter tp_speed_kmh [before, after]))))"

definition has_sparse_leg :: "track_point list \<Rightarrow> bool" where
  "has_sparse_leg track = list_ex (\<lambda>(a, b). sparse_leg a b) (zip track (tl track))"

definition assess_motion :: "track_point list \<Rightarrow> motion_assessment" where
  "assess_motion track =
     (let clean = cleaned track; bad = rejected track; m = movement_of clean; sparse = has_sparse_leg clean
      in \<lparr>ma_track = clean, ma_rejected = bad,
          ma_evidence =
            \<lparr>me_revision = MOTION_REVISION,
             me_status = (if mv_confirmed m \<or> sparse then Moving
                          else if track \<noteq> [] then Unconfirmed else MotionUnknown),
             me_reason = (if mv_confirmed m then SustainedMovement
                          else if sparse then PlausibleSparseLeg else InsufficientEvidence),
             me_samples = length track,
             me_rejected = length bad,
             me_longest_movement_s = py_round 1 (mv_longest_s m),
             me_max_progress_m = py_round 1 (mv_progress_m m)\<rparr>\<rparr>)"

subsection \<open>What the verdict rests on\<close>

text \<open>
  A stretch: consecutive positions of the track, all of them rolling, none far from the one
  before, none marked as a break.
\<close>

definition links :: "track_point \<Rightarrow> track_point \<Rightarrow> bool" where
  "links a b \<longleftrightarrow> \<not> tp_breaks_segment b \<and> tp_at b - tp_at a \<le> seconds 10"

definition stretch :: "track_point list \<Rightarrow> bool" where
  "stretch ps \<longleftrightarrow> list_all rolling ps \<and> successively links ps"

definition proves_movement :: "track_point list \<Rightarrow> bool" where
  "proves_movement ps \<longleftrightarrow> stretch ps \<and> 3 \<le> length ps \<and> 50 \<le> metres (spot (hd ps)) (spot (last ps)) \<and>
     10 \<le> secs_between (tp_at (last ps)) (tp_at (hd ps)) \<and> secs_between (tp_at (last ps)) (tp_at (hd ps)) \<le> 30"

text \<open>\<open>part ps track\<close>: the points of \<open>ps\<close> follow each other in the track with nothing in between.\<close>

definition part :: "'a list \<Rightarrow> 'a list \<Rightarrow> bool" where
  "part ps track \<longleftrightarrow> (\<exists>us vs. track = us @ ps @ vs)"

lemma part_append: "part ps xs \<Longrightarrow> part ps (xs @ ys)"
  unfolding part_def by (metis append.assoc)

definition movement_inv :: "track_point list \<Rightarrow> movement \<Rightarrow> bool" where
  "movement_inv before m \<longleftrightarrow>
     (\<exists>us. before = us @ mv_run m) \<and> stretch (mv_run m) \<and>
     (mv_confirmed m \<longrightarrow> (\<exists>ps. part ps before \<and> proves_movement ps))"

lemma filter_recent:
  assumes "sorted (List.map tp_at xs)"
  shows "filter (\<lambda>q. t - tp_at q \<le> w) xs = dropWhile (\<lambda>q. \<not> t - tp_at q \<le> w) xs"
  using assms
proof (induction xs)
  case (Cons x xs)
  show ?case
  proof (cases "t - tp_at x \<le> w")
    case True
    with Cons.prems have "\<forall>y \<in> set xs. t - tp_at y \<le> w" by force
    with True show ?thesis by (simp add: filter_id_conv)
  qed (use Cons in simp)
qed simp

lemma stretch_suffix: "stretch (us @ ps) \<Longrightarrow> stretch ps"
  by (auto simp: stretch_def successively_append_iff)

lemma dropWhile_suffix: "\<exists>us. xs = us @ dropWhile P xs"
  by (metis takeWhile_dropWhile_id)

lemma movement_step_rolling:
  assumes "rolling p"
    and "run = (if mv_run m \<noteq> [] \<and> (tp_breaks_segment p \<or> seconds 10 < tp_at p - tp_at (last (mv_run m)))
      then [] else mv_run m)"
    and "kept = filter (\<lambda>q. tp_at p - tp_at q \<le> seconds 30) (run @ [p])"
  shows "mv_run (movement_step p m) = kept"
    and "mv_confirmed (movement_step p m) \<longleftrightarrow> mv_confirmed m \<or>
      (10 \<le> secs_between (tp_at p) (tp_at (hd kept)) \<and> 3 \<le> length kept \<and> 50 \<le> metres (spot (hd kept)) (spot p))"
  using assms(1) unfolding assms(2,3) movement_step_def Let_def by simp_all

lemma movement_step_inv:
  assumes inv: "movement_inv before m" and sorted: "sorted (List.map tp_at (before @ [p]))"
  shows "movement_inv (before @ [p]) (movement_step p m)"
proof (cases "rolling p")
  case False
  with inv show ?thesis
    by (auto simp: movement_step_def movement_inv_def stretch_def intro: part_append)
next
  case True
  obtain us where us: "before = us @ mv_run m" and st: "stretch (mv_run m)"
    using inv by (auto simp: movement_inv_def)
  define run where "run = (if mv_run m \<noteq> [] \<and> (tp_breaks_segment p \<or> seconds 10 < tp_at p - tp_at (last (mv_run m)))
    then [] else mv_run m)"
  have run: "\<exists>us. before = us @ run" "stretch (run @ [p])"
    using us st True by (auto simp: run_def stretch_def successively_append_iff links_def)
  define kept where "kept = filter (\<lambda>q. tp_at p - tp_at q \<le> seconds 30) (run @ [p])"
  have srt: "sorted (List.map tp_at (run @ [p]))"
    using sorted run(1) by (auto simp: sorted_append)
  have kept: "kept = dropWhile (\<lambda>q. \<not> tp_at p - tp_at q \<le> seconds 30) (run @ [p])"
    unfolding kept_def by (rule filter_recent [OF srt])
  obtain vs where vs: "run @ [p] = vs @ kept" using dropWhile_suffix [of "run @ [p]"] kept by metis
  have last: "kept \<noteq> []" "last kept = p"
  proof -
    have "p \<in> set kept" by (simp add: kept_def seconds_def)
    then show "kept \<noteq> []" by auto
    then show "last kept = p" using vs by (metis last_appendR last_snoc)
  qed
  have suffix: "\<exists>us. before @ [p] = us @ kept" using run(1) vs by (metis append.assoc)
  have "stretch kept" using run(2) vs stretch_suffix by metis
  have first: "tp_at p - tp_at (hd kept) \<le> seconds 30"
    using hd_in_set [OF last(1)] by (auto simp: kept_def)
  have "\<exists>ps. part ps (before @ [p]) \<and> proves_movement ps" if "mv_confirmed (movement_step p m)"
  proof (cases "mv_confirmed m")
    case True
    then obtain ps where "part ps before" "proves_movement ps" using inv by (auto simp: movement_inv_def)
    then show ?thesis by (blast intro: part_append)
  next
    case False
    then have "10 \<le> secs_between (tp_at p) (tp_at (hd kept))" "3 \<le> length kept"
      "50 \<le> metres (spot (hd kept)) (spot p)"
      using that movement_step_rolling(2) [OF \<open>rolling p\<close> run_def kept_def] by simp_all
    moreover have "secs_between (tp_at p) (tp_at (hd kept)) \<le> 30"
      using first by (simp add: secs_between_def seconds_def)
    moreover have "part kept (before @ [p])" using suffix unfolding part_def by fastforce
    ultimately show ?thesis using \<open>stretch kept\<close> last by (auto simp: proves_movement_def)
  qed
  moreover have "mv_run (movement_step p m) = kept"
    by (rule movement_step_rolling(1) [OF True run_def kept_def])
  ultimately show ?thesis using suffix \<open>stretch kept\<close> by (simp add: movement_inv_def)
qed

lemma movement_confirmed:
  assumes "sorted (List.map tp_at track)" and "mv_confirmed (movement_of track)"
  shows "\<exists>ps. part ps track \<and> proves_movement ps"
proof -
  let ?m = "\<lparr>mv_run = [], mv_confirmed = False, mv_longest_s = 0, mv_progress_m = 0\<rparr>"
  have "movement_inv track (fold movement_step track ?m)"
    using assms(1)
  proof (induction track rule: rev_induct)
    case Nil
    then show ?case by (simp add: movement_inv_def stretch_def)
  next
    case (snoc p track)
    then have "movement_inv track (fold movement_step track ?m)" by (simp add: sorted_append)
    from movement_step_inv [OF this snoc.prems] show ?case by simp
  qed
  with assms(2) show ?thesis by (simp add: movement_inv_def movement_of_def)
qed

lemma nth_cleaned:
  "i < length track \<Longrightarrow> cleaned track ! i = (if spike track i then (track ! i)\<lparr>tp_speed_kmh := None\<rparr> else track ! i)"
  by (simp add: cleaned_def)

lemma length_cleaned [simp]: "length (cleaned track) = length track"
  by (simp add: cleaned_def)

lemma map_cleaned:
  "(\<And>p v. g (p\<lparr>tp_speed_kmh := v\<rparr>) = g p) \<Longrightarrow> List.map g (cleaned track) = List.map g track"
  by (rule nth_equalityI) (simp_all add: nth_cleaned)

lemma single_track_sorted: "sorted (List.map tp_at (single_track rows starts front))"
  using single_track_spec(1) [of rows starts front]
  by (simp add: sorted_wrt_map) (erule sorted_wrt_mono_rel [rotated], simp)

lemma neighbours_part: "(a, b) \<in> set (zip xs (tl xs)) \<Longrightarrow> part [a, b] xs"
proof (induction xs)
  case (Cons x xs)
  show ?case
  proof (cases xs)
    case (Cons y ys)
    with Cons.prems consider "a = x" "b = y" | "(a, b) \<in> set (zip xs (tl xs))" by auto
    then show ?thesis
    proof cases
      case 1
      with Cons have "x # xs = [] @ [a, b] @ ys" by simp
      then show ?thesis unfolding part_def by blast
    next
      case 2
      from Cons.IH [OF this] obtain us vs where "xs = us @ [a, b] @ vs" by (auto simp: part_def)
      then have "x # xs = (x # us) @ [a, b] @ vs" by simp
      then show ?thesis unfolding part_def by blast
    qed
  qed (use Cons.prems in simp)
qed simp

text \<open>C23: a drive is called moving only on evidence. Either the assembled track holds an unbroken stretch of
  at least three positions over 10 to 30 seconds, every one located and at 5 km/h or more
  after spikes are blanked, none more than ten seconds after the one before, that ends 50
  metres or more from where it began; or it holds two neighbouring fixes, ten seconds to five
  minutes and at least 500 metres apart, whose speeds both agree with that distance.\<close>

theorem moving_needs_evidence:
  assumes "ma = assess_motion (single_track rows starts front)"
    and "me_status (ma_evidence ma) = Moving"
  shows "(\<exists>ps. part ps (ma_track ma) \<and> proves_movement ps) \<or>
    (\<exists>a b. part [a, b] (ma_track ma) \<and> sparse_leg a b)"
proof -
  let ?track = "single_track rows starts front"
  have ma: "ma_track ma = cleaned ?track" using assms(1) by (simp add: assess_motion_def Let_def)
  consider "mv_confirmed (movement_of (cleaned ?track))" | "has_sparse_leg (cleaned ?track)"
    using assms by (auto simp: assess_motion_def Let_def split: if_splits)
  then show ?thesis
  proof cases
    case 1
    have "sorted (List.map tp_at (cleaned ?track))"
      using single_track_sorted [of rows starts front] by (simp add: map_cleaned)
    from movement_confirmed [OF this 1] show ?thesis by (simp add: ma)
  next
    case 2
    then obtain a b where ab: "(a, b) \<in> set (zip (cleaned ?track) (tl (cleaned ?track)))" "sparse_leg a b"
      by (auto simp: has_sparse_leg_def list_ex_iff)
    have "part [a, b] (cleaned ?track)" using ab(1) by (rule neighbours_part)
    with ab(2) ma show ?thesis by metis
  qed
qed

text \<open>Three positions of a fast vehicle, five seconds apart, from the equator to the pole.\<close>

definition sample_drive :: "telemetry_point list" where
  "sample_drive =
     [(sample_point 1 7 0)\<lparr>tl_lat := Some 0, tl_breaks_segment := False\<rparr>,
      (sample_point 2 7 5000000)\<lparr>tl_lat := Some 0, tl_breaks_segment := False\<rparr>,
      (sample_point 3 7 10000000)\<lparr>tl_lat := Some 90, tl_breaks_segment := False\<rparr>]"

lemma quarter_meridian: "haversine_m 0 lon 90 lon = EARTH_RADIUS_M * pi / 2"
proof -
  have "0 < sin (pi / 4)" by (rule sin_gt_zero) auto
  moreover have "arcsin (sin (pi / 4)) = pi / 4" by (rule arcsin_sin) auto
  moreover have r: "(radians 90 - radians 0) / 2 = pi / 4" "radians (lon - lon) / 2 = 0"
    by (simp_all add: radians_def)
  have "haversine_m 0 lon 90 lon = 2 * EARTH_RADIUS_M * arcsin (sqrt ((sin (pi / 4))\<^sup>2))"
    unfolding haversine_m_def Let_def r by simp
  ultimately show ?thesis by simp
qed

lemma quarter_long: "50 \<le> EARTH_RADIUS_M * pi / 2"
proof -
  have "50 * 2 \<le> 6371008 * (2::real)" by simp
  also have "\<dots> \<le> EARTH_RADIUS_M * pi"
    using pi_ge_two by (intro mult_mono) (auto simp: EARTH_RADIUS_M_def)
  finally show ?thesis by simp
qed

lemma sample_drive_moving:
  "me_status (ma_evidence (assess_motion (single_track sample_drive (\<lambda>_. None) (\<lambda>_. True)))) = Moving"
proof -
  let ?p = "\<lambda>t lat. \<lparr>tp_recording_id = 7, tp_t_offset_s = 0, tp_lat = Some lat, tp_lon = Some 20,
    tp_speed_kmh = Some 40, tp_at = t, tp_breaks_segment = False\<rparr>"
  have track: "single_track sample_drive (\<lambda>_. None) (\<lambda>_. True) = [?p 0 0, ?p 5000000 0, ?p 10000000 90]"
    by (simp add: single_track_def placed_rows_def chosen_rows_def sample_drive_def sample_point_def
        place_row_def moment_of_def clock_is_plausible_def choose_second_def second_of_def map_filter_simps)
  have "\<not> spike [?p 0 0, ?p 5000000 0, ?p 10000000 90] i" if "i < 3" for i
  proof -
    have "length (window_speeds [?p 0 0, ?p 5000000 0, ?p 10000000 90] w) \<le> 3" for w
    proof -
      have "length (List.map_filter f xs) \<le> length xs" for f :: "track_point \<Rightarrow> real option" and xs
        by (induction xs) (auto simp: map_filter_simps split: option.split)
      from order_trans [OF this] show ?thesis by (auto simp: window_speeds_def split: prod.split)
    qed
    from this [of "window_bounds [0, 5000000, 10000000] i"] show ?thesis
      by (simp add: spike_def Let_def split: option.split)
  qed
  then have clean: "cleaned [?p 0 0, ?p 5000000 0, ?p 10000000 90] = [?p 0 0, ?p 5000000 0, ?p 10000000 90]"
    by (intro nth_equalityI) (auto simp: nth_cleaned)
  have "mv_confirmed (movement_of [?p 0 0, ?p 5000000 0, ?p 10000000 90])"
    using quarter_long
    by (simp add: movement_of_def movement_step_def rolling_def spot_def metres_def quarter_meridian
        secs_between_def seconds_def Let_def)
  then show ?thesis by (simp add: track clean assess_motion_def Let_def)
qed

lemma moving_needs_evidence_witness:
  "(\<exists>ps. part ps (ma_track (assess_motion (single_track sample_drive (\<lambda>_. None) (\<lambda>_. True)))) \<and> proves_movement ps) \<or>
   (\<exists>a b. part [a, b] (ma_track (assess_motion (single_track sample_drive (\<lambda>_. None) (\<lambda>_. True)))) \<and> sparse_leg a b)"
  by (rule moving_needs_evidence [OF refl sample_drive_moving])

text \<open>A steady drive is left alone. Where all speeds lie within 20 km/h of the slowest, or within half
  of it again, no sample is taken for a spike, however long the drive and however the samples
  are spaced.\<close>

theorem steady_speeds_kept:
  assumes "\<forall>p \<in> set track. \<forall>v. tp_speed_kmh p = Some v \<longrightarrow> low \<le> v \<and> v \<le> low + max 20 (low / 2)"
  shows "ma_track (assess_motion track) = track \<and> ma_rejected (assess_motion track) = []"
proof -
  have calm: "\<not> spike track i" if i: "i < length track" for i
  proof
    assume s: "spike track i"
    then obtain v where sp: "tp_speed_kmh (track ! i) = Some v" by (auto simp: spike_def split: option.splits)
    define w where "w = window_bounds (List.map tp_at track) i"
    have v: "7 \<le> length (window_speeds track w)"
      "median (window_speeds track w) + max 20 (median (window_speeds track w) * 0.5) < v"
      using s sp by (simp_all add: spike_def w_def Let_def)
    have "\<forall>x \<in> set (window_speeds track w). low \<le> x \<and> x \<le> low + max 20 (low / 2)"
      using assms by (auto simp: window_speeds_def mem_map_filter split: prod.splits dest!: in_set_takeD in_set_dropD)
    then have "filter (\<lambda>x. low \<le> x \<and> x \<le> low + max 20 (low / 2)) (window_speeds track w) = window_speeds track w"
      by (simp add: filter_id_conv)
    then have "low \<le> median (window_speeds track w)"
      
      using v(1) median_majority [of "window_speeds track w" low "low + max 20 (low / 2)"]
      by (cases "window_speeds track w") auto
    then have "low + max 20 (low / 2) < v" using v(2) by (simp add: max_def split: if_splits)
    moreover have "v \<le> low + max 20 (low / 2)" using assms nth_mem [OF i] sp by blast
    ultimately show False by simp
  qed
  then have "cleaned track = track" by (intro nth_equalityI) (simp_all add: nth_cleaned)
  moreover have "rejected track = []" using calm by (simp add: rejected_def filter_empty_conv)
  ultimately show ?thesis by (simp add: assess_motion_def Let_def)
qed

lemma steady_speeds_kept_witness:
  "ma_rejected (assess_motion (single_track sample_drive (\<lambda>_. None) (\<lambda>_. True))) = []"
proof -
  let ?track = "single_track sample_drive (\<lambda>_. None) (\<lambda>_. True)"
  have "\<forall>p \<in> set ?track. \<forall>v. tp_speed_kmh p = Some v \<longrightarrow> 40 \<le> v \<and> v \<le> 40 + max 20 (40 / 2)"
  proof
    fix p
    assume "p \<in> set ?track"
    then have "\<exists>row \<in> set sample_drive. (tl_lat row, tl_lon row, tl_speed_kmh row) = (tp_lat p, tp_lon p, tp_speed_kmh p)"
      using single_track_spec(3) [of sample_drive "\<lambda>_. None" "\<lambda>_. True"] by blast
    then show "\<forall>v. tp_speed_kmh p = Some v \<longrightarrow> 40 \<le> v \<and> v \<le> 40 + max 20 (40 / 2)"
      by (auto simp: sample_drive_def sample_point_def)
  qed
  from steady_speeds_kept [OF this] show ?thesis by simp
qed

end
