(* ===== verification/GapBarriers.thy ===== *)
theory GapBarriers
  imports Bisect "HOL-Library.Product_Lexorder"
begin

section \<open>Deliberate gaps between recordings\<close>

text \<open>
  Models the barriers of \<^verbatim>\<open>backend/app/ingest/clip_exclusions.py\<close>: the audited
  intervals in which the head unit left out quiet parked footage
  (\<^verbatim>\<open>intentional_intervals\<close>), merged into disjoint intervals
  (\<^verbatim>\<open>IntentionalGapBarriers.from_intervals\<close>), and the question whether one of them
  separates two recordings (\<^verbatim>\<open>blocks\<close>, a binary search over the merged intervals). The
  theorem gives the search its meaning: the intervals as they were audited.
\<close>

definition POLICY_VERSION :: string where "POLICY_VERSION = ''parked_visual_quiet_v1''"
definition REASON :: string where "REASON = ''parked_visual_quiet''"

record clip_exclusion =
  ex_started_at :: usec
  ex_ended_at :: usec
  ex_reason :: string
  ex_policy_version :: string

type_synonym interval = "usec \<times> usec"

definition intentional_intervals :: "clip_exclusion list \<Rightarrow> usec \<Rightarrow> usec \<Rightarrow> interval list" where
  "intentional_intervals rows start finish =
     (if finish \<le> start then []
      else
        List.map (\<lambda>x. (ex_started_at x, ex_ended_at x))
          (sort_key ex_started_at
             (filter (\<lambda>x. ex_reason x = REASON \<and> ex_policy_version x = POLICY_VERSION \<and>
                        ex_started_at x < finish \<and> start < ex_ended_at x) rows)))"

text \<open>The merged intervals, the latest first while they are built.\<close>

definition merge_interval :: "interval \<Rightarrow> interval list \<Rightarrow> interval list" where
  "merge_interval iv merged =
     (case iv of (a, b) \<Rightarrow>
        if b \<le> a then merged
        else case merged of
          [] \<Rightarrow> [(a, b)]
        | (c, d) # rest \<Rightarrow> if a \<le> d then (c, max b d) # rest else (a, b) # (c, d) # rest)"

record gap_barriers =
  gb_starts :: "usec list"
  gb_ends :: "usec list"

definition barriers_of :: "interval list \<Rightarrow> gap_barriers" where
  "barriers_of ivs =
     (let merged = rev (fold merge_interval (sort ivs) [])
      in \<lparr>gb_starts = List.map fst merged, gb_ends = List.map snd merged\<rparr>)"

definition no_barriers :: gap_barriers where
  "no_barriers = \<lparr>gb_starts = [], gb_ends = []\<rparr>"

definition blocks :: "gap_barriers \<Rightarrow> usec \<Rightarrow> usec \<Rightarrow> bool" where
  "blocks g available_end available_start =
     (if available_start \<le> available_end then False
      else
        (let index = bisect_left (gb_starts g) available_start
         in 0 < index \<and> available_end < gb_ends g ! (index - 1)))"

subsection \<open>Merging keeps what is covered\<close>

text \<open>An open window meets an interval.\<close>

definition meets :: "interval \<Rightarrow> usec \<Rightarrow> usec \<Rightarrow> bool" where
  "meets iv e s \<longleftrightarrow> fst iv < s \<and> e < snd iv \<and> fst iv < snd iv"

text \<open>Built latest first: each interval is proper and ends before the one in front of it starts.\<close>

fun apart :: "interval list \<Rightarrow> bool" where
  "apart [] \<longleftrightarrow> True"
| "apart [(a, b)] \<longleftrightarrow> a < b"
| "apart ((a, b) # (c, d) # rest) \<longleftrightarrow> a < b \<and> d < a \<and> apart ((c, d) # rest)"

lemma merge_apart:
  assumes "apart merged" and "\<forall>iv \<in> set merged. fst iv \<le> a"
  shows "apart (merge_interval (a, b) merged)" "\<forall>iv \<in> set (merge_interval (a, b) merged). fst iv \<le> a"
  using assms
  by (cases merged rule: apart.cases; auto simp: merge_interval_def)+

lemma merge_meets:
  assumes "e < s" and "\<forall>iv \<in> set merged. fst iv \<le> a" and "apart merged"
  shows "(\<exists>iv \<in> set (merge_interval (a, b) merged). meets iv e s) \<longleftrightarrow>
    meets (a, b) e s \<or> (\<exists>iv \<in> set merged. meets iv e s)"
  using assms
  by (cases merged rule: apart.cases)
    (auto simp: merge_interval_def meets_def not_le less_max_iff_disj)

lemma merge_all:
  assumes "sorted ivs" and "e < s" and "apart merged"
    and "\<forall>iv \<in> set merged. \<forall>jv \<in> set ivs. fst iv \<le> fst jv"
  shows "apart (fold merge_interval ivs merged) \<and>
    ((\<exists>iv \<in> set (fold merge_interval ivs merged). meets iv e s) \<longleftrightarrow>
      (\<exists>iv \<in> set ivs \<union> set merged. meets iv e s))"
  using assms
proof (induction ivs arbitrary: merged)
  case (Cons iv ivs)
  obtain a b where iv: "iv = (a, b)" by (cases iv)
  let ?m = "merge_interval (a, b) merged"
  have le: "\<forall>jv \<in> set ivs. a \<le> fst jv" using Cons.prems(1) iv by (auto simp: less_eq_prod_def)
  have m: "apart ?m" "\<forall>x \<in> set ?m. fst x \<le> a"
    using merge_apart [of merged a b] Cons.prems(3,4) iv by auto
  have "apart (fold merge_interval ivs ?m) \<and>
    ((\<exists>iv \<in> set (fold merge_interval ivs ?m). meets iv e s) \<longleftrightarrow> (\<exists>iv \<in> set ivs \<union> set ?m. meets iv e s))"
    using Cons.prems(1,2) m le by (intro Cons.IH) (auto intro: order_trans)
  moreover have "(\<exists>x \<in> set ?m. meets x e s) \<longleftrightarrow> meets (a, b) e s \<or> (\<exists>x \<in> set merged. meets x e s)"
    using Cons.prems iv by (intro merge_meets) auto
  ultimately show ?case using iv by auto
qed simp

lemma apart_nth:
  assumes "apart xs" and "i < j" and "j < length xs"
  shows "fst (xs ! j) < snd (xs ! j) \<and> snd (xs ! j) < fst (xs ! i)"
  using assms
proof (induction xs arbitrary: i j rule: apart.induct)
  case (3 a b c d rest)
  show ?case
  proof (cases i)
    case 0
    show ?thesis
    proof (cases "j = 1")
      case True
      then have "c < d" using 3(2) by (cases rest) auto
      with True 0 3(2) show ?thesis by simp
    next
      case False
      with 3 0 have "snd (((c, d) # rest) ! (j - 1)) < c"
        "fst (((c, d) # rest) ! (j - 1)) < snd (((c, d) # rest) ! (j - 1))"
        using "3.IH" [of 0 "j - 1"] by auto
      moreover have "c < d" using 3(2) by (cases rest) auto
      moreover have "((a, b) # (c, d) # rest) ! j = ((c, d) # rest) ! (j - 1)"
        using 3(3) by (cases j) auto
      ultimately show ?thesis using 0 3(2) by simp
    qed
  next
    case (Suc i')
    with 3 show ?thesis using "3.IH" [of i' "j - 1"] by (cases j) auto
  qed
qed auto

lemma apart_proper: "apart xs \<Longrightarrow> iv \<in> set xs \<Longrightarrow> fst iv < snd iv"
  by (induction xs rule: apart.induct) auto

lemma ex_nth_mem: "(\<exists>k < length m. P (m ! k)) \<longleftrightarrow> (\<exists>x \<in> set m. P x)"
  by (metis in_set_conv_nth)

text \<open>A barrier blocks two recordings exactly when the second starts after the first has ended and some
  audited interval, as it came, reaches into the time between them: sorting, merging and the
  binary search over the merged intervals decide just that.\<close>

theorem blocks_iff_interval:
  "blocks (barriers_of ivs) e s \<longleftrightarrow> e < s \<and> (\<exists>(a, b) \<in> set ivs. a < b \<and> a < s \<and> e < b)"
proof (cases "e < s")
  case True
  define acc where "acc = fold merge_interval (sort ivs) []"
  define m where "m = rev acc"
  have acc: "apart acc" and meet: "(\<exists>iv \<in> set acc. meets iv e s) \<longleftrightarrow> (\<exists>iv \<in> set ivs. meets iv e s)"
    using merge_all [of "sort ivs" e s "[]"] True by (simp_all add: acc_def)
  have before: "snd (m ! i) < fst (m ! j)" if "i < j" "j < length m" for i j
  proof -
    have "m ! k = acc ! (length acc - Suc k)" if "k < length m" for k
      using that by (simp add: m_def rev_nth)
    with apart_nth [OF acc, of "length acc - Suc j" "length acc - Suc i"] that
    show ?thesis by (simp add: m_def)
  qed
  have proper: "fst (m ! i) < snd (m ! i)" if "i < length m" for i
    using apart_proper [OF acc] that by (metis m_def nth_mem set_rev)
  have "sorted (List.map fst m)"
    unfolding sorted_iff_nth_mono_less
  proof (intro allI impI)
    fix i j
    assume "i < j" and j: "j < length (List.map fst m)"
    then have "fst (m ! i) < snd (m ! i)" "snd (m ! i) < fst (m ! j)" using before proper by simp_all
    with j \<open>i < j\<close> show "List.map fst m ! i \<le> List.map fst m ! j" by simp
  qed
  note bis = bisect_left_spec [OF this, where x = s]
  let ?i = "bisect_left (List.map fst m) s"
  have g: "gb_starts (barriers_of ivs) = List.map fst m" "gb_ends (barriers_of ivs) = List.map snd m"
    by (simp_all add: barriers_of_def m_def acc_def Let_def)
  have "blocks (barriers_of ivs) e s \<longleftrightarrow> 0 < ?i \<and> e < List.map snd m ! (?i - 1)"
    using True by (simp only: blocks_def g Let_def not_le [symmetric] if_False)
  also have "\<dots> \<longleftrightarrow> (\<exists>k < length m. fst (m ! k) < s \<and> e < snd (m ! k))"
  proof
    assume "0 < ?i \<and> e < List.map snd m ! (?i - 1)"
    then show "\<exists>k < length m. fst (m ! k) < s \<and> e < snd (m ! k)"
      using bis(1) bis(2) [of "?i - 1"] by (intro exI [of _ "?i - 1"]) auto
  next
    assume "\<exists>k < length m. fst (m ! k) < s \<and> e < snd (m ! k)"
    then obtain k where k: "k < length m" "fst (m ! k) < s" "e < snd (m ! k)" by blast
    then have "k < ?i" using bis(3) [of k] by (metis length_map not_le nth_map)
    then have i: "0 < ?i" "?i - 1 < length m" "k \<le> ?i - 1" using bis(1) by auto
    have "snd (m ! k) \<le> snd (m ! (?i - 1))"
    proof (cases "k = ?i - 1")
      case False
      with i before [of k "?i - 1"] proper [of "?i - 1"] show ?thesis by simp
    qed simp
    with i k show "0 < ?i \<and> e < List.map snd m ! (?i - 1)" by simp
  qed
  also have "\<dots> \<longleftrightarrow> (\<exists>k < length m. meets (m ! k) e s)"
    using proper by (auto simp: meets_def)
  also have "\<dots> \<longleftrightarrow> (\<exists>iv \<in> set m. meets iv e s)" by (rule ex_nth_mem)
  also have "\<dots> \<longleftrightarrow> (\<exists>iv \<in> set ivs. meets iv e s)" unfolding meet [symmetric] by (simp add: m_def)
  also have "\<dots> \<longleftrightarrow> (\<exists>(a, b) \<in> set ivs. a < b \<and> a < s \<and> e < b)"
    by (rule bex_cong) (auto simp: meets_def)
  finally have "blocks (barriers_of ivs) e s \<longleftrightarrow> (\<exists>(a, b) \<in> set ivs. a < b \<and> a < s \<and> e < b)" .
  with True show ?thesis by (simp only: simp_thms)
qed (auto simp: blocks_def)

end
