(* ===== verification/Models.thy ===== *)
theory Models
  imports Prelude "HOL-Library.Product_Lexorder"
begin

section \<open>The data layer: enumerations and rows\<close>

text \<open>
  Models \<^verbatim>\<open>backend/app/db/models.py\<close>: the lifecycle enumerations, and the
  \<^verbatim>\<open>recordings\<close>, \<^verbatim>\<open>processing_jobs\<close> and \<^verbatim>\<open>journeys\<close> rows with the columns that the
  modelled components read or write. A nullable column is an \<open>option\<close>, a timestamp is
  microseconds since the epoch (\<^verbatim>\<open>UtcDateTime\<close> makes every stored timestamp aware UTC),
  a \<^verbatim>\<open>Float\<close> column is a real number, a JSON column a dictionary. The database is the
  tables in primary-key order.
\<close>

subsection \<open>Enumerations\<close>

datatype recording_state =
    RDiscovered | RSettling | RMetadataExtracted | RQueued | RProcessing
  | RCompleted | RFailed | RInvalid | RIgnored | RDeleted

datatype stage_state = SPending | SRunning | SDone | SFailed | SSkipped

datatype job_state = JQueued | JRunning | JCompleted | JFailed | JCancelled

datatype job_kind = KProcess | KReprocess | KScan | KRetention | KThumbnail | KJourneyRebuild

fun recording_state_value :: "recording_state \<Rightarrow> string" where
  "recording_state_value RDiscovered = ''discovered''"
| "recording_state_value RSettling = ''settling''"
| "recording_state_value RMetadataExtracted = ''metadata_extracted''"
| "recording_state_value RQueued = ''queued''"
| "recording_state_value RProcessing = ''processing''"
| "recording_state_value RCompleted = ''completed''"
| "recording_state_value RFailed = ''failed''"
| "recording_state_value RInvalid = ''invalid''"
| "recording_state_value RIgnored = ''ignored''"
| "recording_state_value RDeleted = ''deleted''"

definition recording_states :: "recording_state list" where
  "recording_states = [RDiscovered, RSettling, RMetadataExtracted, RQueued, RProcessing,
     RCompleted, RFailed, RInvalid, RIgnored, RDeleted]"

text \<open>\<^verbatim>\<open>RecordingState(value)\<close>: the member with that value, or \<^verbatim>\<open>ValueError\<close>.\<close>

definition recording_state_of :: "string \<Rightarrow> py_error + recording_state" where
  "recording_state_of v =
     (case List.find (\<lambda>s. recording_state_value s = v) recording_states of
        Some s \<Rightarrow> Inr s | None \<Rightarrow> Inl ValueError)"

lemma recording_state_of_value [simp]: "recording_state_of (recording_state_value s) = Inr s"
  by (cases s) (simp_all add: recording_state_of_def recording_states_def)

subsection \<open>Priorities and durable probe keys\<close>

definition THUMBNAIL_PRIORITY :: int where "THUMBNAIL_PRIORITY = 0"
definition NEW_FOOTAGE_PRIORITY :: int where "NEW_FOOTAGE_PRIORITY = 100"
definition BULK_PRIORITY :: int where "BULK_PRIORITY = 200"

definition DURABLE_PROBE_KEYS :: "string list" where
  "DURABLE_PROBE_KEYS = [''media_failure_reviewed'', ''damaged_policy'']"

definition carry_probe_markers :: "json \<Rightarrow> jdict \<Rightarrow> jdict" where
  "carry_probe_markers previous fresh =
     (case previous of
        JObj p \<Rightarrow> fold (\<lambda>key f. case dict_get key p of Some v \<Rightarrow> dict_put key v f | None \<Rightarrow> f)
                   DURABLE_PROBE_KEYS fresh
      | _ \<Rightarrow> fresh)"

lemma carry_probe_markers_get:
  "dict_get k (carry_probe_markers (JObj p) fresh) =
     (if k \<in> set DURABLE_PROBE_KEYS \<and> dict_get k p \<noteq> None then dict_get k p
      else dict_get k fresh)"
  by (auto simp: carry_probe_markers_def DURABLE_PROBE_KEYS_def split: option.splits)

subsection \<open>Rows\<close>

record recording =
  r_id :: row_id
  r_rel_path :: string
  r_filename :: string
  r_camera_id :: "row_id option"
  r_journey_id :: "row_id option"
  r_size_bytes :: int
  r_mtime_ns :: int
  r_fingerprint :: "string option"
  r_fingerprint_size_bytes :: "int option"
  r_fingerprint_mtime_ns :: "int option"
  r_started_at :: "usec option"
  r_probe_json :: json
  r_state :: recording_state
  r_metadata_state :: stage_state
  r_telemetry_state :: stage_state
  r_detection_state :: stage_state
  r_plate_state :: stage_state
  r_metadata_revision :: "string option"
  r_telemetry_revision :: "string option"
  r_detection_revision :: "string option"
  r_plate_revision :: "string option"
  r_error_message :: "string option"
  r_distance_m :: "real option"
  r_max_speed_kmh :: "real option"
  r_vehicle_count :: int
  r_plate_count :: int
  r_thumbnail_path :: "string option"
  r_ignored :: bool
  r_protected :: bool
  r_event_type :: "string option"
  r_first_seen_at :: usec
  r_last_scanned_at :: "usec option"
  r_processed_at :: "usec option"
  r_file_missing :: bool
  r_deleted_at :: "usec option"
  r_error_count :: int
  r_last_error_at :: "usec option"

record job =
  j_id :: row_id
  j_recording_id :: "row_id option"
  j_kind :: job_kind
  j_stages :: "string list option"
  j_state :: job_state
  j_priority :: int
  j_attempts :: int
  j_max_attempts :: int
  j_progress :: real
  j_stage_current :: "string option"
  j_speed_realtime :: "real option"
  j_decoder :: "string option"
  j_inference_device :: "string option"
  j_resource_state :: "string option"
  j_worker_id :: "string option"
  j_heartbeat_at :: "usec option"
  j_queued_at :: usec
  j_started_at :: "usec option"
  j_finished_at :: "usec option"
  j_not_before :: "usec option"
  j_error_message :: "string option"
  j_result :: "json option"

record journey =
  jn_id :: row_id
  jn_avg_speed_kmh :: "real option"
  jn_max_speed_kmh :: "real option"

record db =
  db_recordings :: "recording list"
  db_jobs :: "job list"
  db_journeys :: "journey list"

abbreviation get_recording :: "row_id \<Rightarrow> db \<Rightarrow> recording option" where
  "get_recording i d \<equiv> get_row r_id i (db_recordings d)"

abbreviation get_job :: "row_id \<Rightarrow> db \<Rightarrow> job option" where
  "get_job i d \<equiv> get_row j_id i (db_jobs d)"

text \<open>\<^verbatim>\<open>state.in_([QUEUED, RUNNING])\<close>: the job still owns its recording.\<close>

definition live :: "job \<Rightarrow> bool" where
  "live j \<longleftrightarrow> j_state j = JQueued \<or> j_state j = JRunning"

definition db_update_jobs :: "(job \<Rightarrow> bool) \<Rightarrow> (job \<Rightarrow> job) \<Rightarrow> db \<Rightarrow> db" where
  "db_update_jobs P f d = d\<lparr>db_jobs := update_where P f (db_jobs d)\<rparr>"

definition db_update_recordings :: "(recording \<Rightarrow> bool) \<Rightarrow> (recording \<Rightarrow> recording) \<Rightarrow> db \<Rightarrow> db" where
  "db_update_recordings P f d = d\<lparr>db_recordings := update_where P f (db_recordings d)\<rparr>"

lemma db_update_jobs_sel [simp]:
  "db_jobs (db_update_jobs P f d) = update_where P f (db_jobs d)"
  "db_recordings (db_update_jobs P f d) = db_recordings d"
  "db_journeys (db_update_jobs P f d) = db_journeys d"
  by (simp_all add: db_update_jobs_def)

lemma db_update_recordings_sel [simp]:
  "db_recordings (db_update_recordings P f d) = update_where P f (db_recordings d)"
  "db_jobs (db_update_recordings P f d) = db_jobs d"
  "db_journeys (db_update_recordings P f d) = db_journeys d"
  by (simp_all add: db_update_recordings_def)

text \<open>Ids are primary keys.\<close>

definition db_keyed :: "db \<Rightarrow> bool" where
  "db_keyed d \<longleftrightarrow> keyed r_id (db_recordings d) \<and> keyed j_id (db_jobs d)"

text \<open>Some recordings shown to the user: rows that are not blacklisted.\<close>

definition visible_recording :: "db \<Rightarrow> row_id \<Rightarrow> bool" where
  "visible_recording d i \<longleftrightarrow> (\<exists>r \<in> set (db_recordings d). r_id r = i \<and> \<not> r_ignored r)"

text \<open>\<^verbatim>\<open>ORDER BY started_at ASC NULLS LAST, id ASC\<close>.\<close>

definition age_key :: "recording \<Rightarrow> bool \<times> usec \<times> row_id" where
  "age_key r =
     (r_started_at r = None, case r_started_at r of None \<Rightarrow> 0 | Some t \<Rightarrow> t, r_id r)"

text \<open>A row of each table, for the concrete instances of the theorems.\<close>

definition sample_recording :: recording where
  "sample_recording =
    \<lparr>r_id = 7, r_rel_path = ''DCIM/a.ts'', r_filename = ''a.ts'', r_camera_id = None, r_journey_id = None,
     r_size_bytes = 10, r_mtime_ns = 5, r_fingerprint = None, r_fingerprint_size_bytes = None,
     r_fingerprint_mtime_ns = None, r_started_at = Some 100, r_probe_json = JNull,
     r_state = RQueued, r_metadata_state = SDone, r_telemetry_state = SPending,
     r_detection_state = SPending, r_plate_state = SPending,
     r_metadata_revision = Some ''metadata-v2'', r_telemetry_revision = None,
     r_detection_revision = None, r_plate_revision = None, r_error_message = None,
     r_distance_m = None, r_max_speed_kmh = None, r_vehicle_count = 0, r_plate_count = 0,
     r_thumbnail_path = None, r_ignored = False, r_protected = False, r_event_type = None,
     r_first_seen_at = 0, r_last_scanned_at = None, r_processed_at = None, r_file_missing = False, r_deleted_at = None, r_error_count = 0,
     r_last_error_at = None\<rparr>"

definition sample_job :: job where
  "sample_job =
    \<lparr>j_id = 1, j_recording_id = Some 7, j_kind = KProcess, j_stages = None, j_state = JQueued,
     j_priority = 100, j_attempts = 0, j_max_attempts = 3, j_progress = 0, j_stage_current = None,
     j_speed_realtime = None, j_decoder = None, j_inference_device = None, j_resource_state = None,
     j_worker_id = None, j_heartbeat_at = None, j_queued_at = 50, j_started_at = None,
     j_finished_at = None, j_not_before = None, j_error_message = None, j_result = None\<rparr>"

end
