(* ===== verification/Orchestrator.thy ===== *)
theory Orchestrator
  imports Models
begin

section \<open>Stage sequencing for one recording\<close>

text \<open>
  Models \<^verbatim>\<open>backend/app/pipeline/orchestrator.py\<close> and \<^verbatim>\<open>pipeline/revisions.py\<close>, and the
  closing stage \<^verbatim>\<open>stage_summarise\<close> of \<^verbatim>\<open>pipeline/stages.py\<close>: the stage list a request
  expands to, the stages a recording still needs, the invalidation of stale results, and the
  run itself. A stage body decodes video or runs a model; it is the parameter \<open>body\<close>
  of the run and answers with one of the three endings the source distinguishes.
\<close>

subsection \<open>Stages\<close>

datatype stage = Metadata | Telemetry | Detection | Plates | Summarise

definition STAGE_ORDER :: "stage list" where
  "STAGE_ORDER = [Metadata, Telemetry, Detection, Plates, Summarise]"

fun stage_name :: "stage \<Rightarrow> string" where
  "stage_name Metadata = ''metadata''"
| "stage_name Telemetry = ''telemetry''"
| "stage_name Detection = ''detection''"
| "stage_name Plates = ''plates''"
| "stage_name Summarise = ''summarise''"

text \<open>\<^verbatim>\<open>STAGES\<close>: the stage a key names.\<close>

definition stage_of_name :: "string \<Rightarrow> stage option" where
  "stage_of_name k = List.find (\<lambda>s. stage_name s = k) STAGE_ORDER"

fun stage_index :: "stage \<Rightarrow> nat" where
  "stage_index Metadata = 0"
| "stage_index Telemetry = 1"
| "stage_index Detection = 2"
| "stage_index Plates = 3"
| "stage_index Summarise = 4"

instantiation stage :: linorder
begin

definition less_eq_stage :: "stage \<Rightarrow> stage \<Rightarrow> bool" where
  "less_eq_stage a b \<longleftrightarrow> stage_index a \<le> stage_index b"

definition less_stage :: "stage \<Rightarrow> stage \<Rightarrow> bool" where
  "less_stage a b \<longleftrightarrow> stage_index a < stage_index b"

instance
proof
  fix a b c :: stage
  show "a < b \<longleftrightarrow> a \<le> b \<and> \<not> b \<le> a" by (auto simp: less_eq_stage_def less_stage_def)
  show "a \<le> a" by (simp add: less_eq_stage_def)
  show "a \<le> b \<Longrightarrow> b \<le> c \<Longrightarrow> a \<le> c" by (simp add: less_eq_stage_def)
  show "a \<le> b \<Longrightarrow> b \<le> a \<Longrightarrow> a = b" by (cases a; cases b) (simp_all add: less_eq_stage_def)
  show "a \<le> b \<or> b \<le> a" by (auto simp: less_eq_stage_def)
qed

end

lemma set_STAGE_ORDER [simp]: "s \<in> set STAGE_ORDER"
  by (cases s) (simp_all add: STAGE_ORDER_def)

lemma sorted_STAGE_ORDER: "sorted STAGE_ORDER" and distinct_STAGE_ORDER: "distinct STAGE_ORDER"
  by (simp_all add: STAGE_ORDER_def less_eq_stage_def)

lemma finite_stages [simp]: "finite (A :: stage set)"
  by (rule finite_subset [of A "set STAGE_ORDER"]) auto

text \<open>\<^verbatim>\<open>REPROCESS_PRESETS\<close>.\<close>

definition preset :: "string \<Rightarrow> stage list option" where
  "preset k =
     (if k = ''metadata'' then Some [Metadata, Summarise]
      else if k = ''telemetry'' then Some [Telemetry, Summarise]
      else if k = ''detection'' then Some [Detection, Summarise]
      else if k = ''plates'' then Some [Plates, Summarise]
      else if k = ''everything'' then Some STAGE_ORDER
      else None)"

text \<open>\<^verbatim>\<open>_STAGE_DEPENDENTS\<close>.\<close>

fun dependents :: "stage \<Rightarrow> stage list" where
  "dependents Telemetry = [Detection, Plates]"
| "dependents Detection = [Plates]"
| "dependents _ = []"

text \<open>One pass of the closure loop over \<^verbatim>\<open>list(resolved)\<close>; a set is a list without repeats.\<close>

definition add_stage :: "stage \<Rightarrow> stage list \<Rightarrow> stage list" where
  "add_stage s xs = (if s \<in> set xs then xs else xs @ [s])"

definition add_dependents :: "stage list \<Rightarrow> stage list" where
  "add_dependents resolved = fold (\<lambda>name. fold add_stage (dependents name)) resolved resolved"

lemma add_stage_prefix: "\<exists>ys. add_stage s xs = xs @ ys"
  by (simp add: add_stage_def)

lemma fold_add_stage_prefix: "\<exists>ys. fold add_stage ss xs = xs @ ys"
proof (induction ss arbitrary: xs)
  case (Cons s ss)
  obtain ys where "add_stage s xs = xs @ ys" using add_stage_prefix by blast
  moreover obtain zs where "fold add_stage ss (xs @ ys) = (xs @ ys) @ zs" using Cons by blast
  ultimately show ?case by simp
qed simp

lemma set_fold_add_stage: "set (fold add_stage ss xs) = set xs \<union> set ss"
  by (induction ss arbitrary: xs) (auto simp: add_stage_def)

lemma set_add_dependents:
  "set (add_dependents xs) = set xs \<union> (\<Union>s \<in> set xs. set (dependents s))"
proof -
  have "set (fold (\<lambda>name. fold add_stage (dependents name)) ys zs) =
      set zs \<union> (\<Union>s \<in> set ys. set (dependents s))" for ys zs
    by (induction ys arbitrary: zs) (auto simp: set_fold_add_stage)
  then show ?thesis by (simp add: add_dependents_def)
qed

lemma distinct_add_dependents: "distinct xs \<Longrightarrow> distinct (add_dependents xs)"
proof -
  have inner: "distinct zs \<Longrightarrow> distinct (fold add_stage ss zs)" for ss zs
    by (induction ss arbitrary: zs) (simp_all add: add_stage_def)
  have "distinct zs \<Longrightarrow> distinct (fold (\<lambda>name. fold add_stage (dependents name)) ys zs)" for ys zs
    by (induction ys arbitrary: zs) (simp_all add: inner)
  then show "distinct xs \<Longrightarrow> distinct (add_dependents xs)" by (simp add: add_dependents_def)
qed

lemma add_dependents_fix: "set (add_dependents xs) = set xs \<Longrightarrow> add_dependents xs = xs"
proof -
  have inner: "set ss \<subseteq> set zs \<Longrightarrow> fold add_stage ss zs = zs" for ss zs
    by (induction ss) (simp_all add: add_stage_def)
  have "(\<Union>s \<in> set ys. set (dependents s)) \<subseteq> set zs \<Longrightarrow>
      fold (\<lambda>name. fold add_stage (dependents name)) ys zs = zs" for ys zs
    by (induction ys) (simp_all add: inner)
  then show "set (add_dependents xs) = set xs \<Longrightarrow> add_dependents xs = xs"
    unfolding add_dependents_def set_add_dependents [unfolded add_dependents_def] by blast
qed

lemma add_dependents_psubset: "add_dependents xs \<noteq> xs \<Longrightarrow> set xs \<subset> set (add_dependents xs)"
  using add_dependents_fix [of xs] set_add_dependents [of xs] by auto

lemma card_unresolved: "add_dependents xs \<noteq> xs \<Longrightarrow>
    card (UNIV - set (add_dependents xs)) < card (UNIV - set xs)"
  using add_dependents_psubset [of xs] by (intro psubset_card_mono) auto

function with_dependents :: "stage list \<Rightarrow> stage list" where
  "with_dependents resolved =
     (let next = add_dependents resolved
      in if next = resolved then resolved else with_dependents next)"
  by pat_completeness auto
termination
  by (relation "measure (\<lambda>xs. card (UNIV - set xs))") (auto simp: card_unresolved)

declare with_dependents.simps [simp del]

definition closed_stages :: "stage set \<Rightarrow> bool" where
  "closed_stages A \<longleftrightarrow> (\<forall>s \<in> A. set (dependents s) \<subseteq> A)"

lemma with_dependents_closed: "closed_stages (set (with_dependents xs))"
proof (induction xs rule: with_dependents.induct)
  case (1 xs)
  show ?case
  proof (cases "add_dependents xs = xs")
    case True
    then have "set xs \<union> (\<Union>s \<in> set xs. set (dependents s)) = set xs"
      using set_add_dependents [of xs] by simp
    then show ?thesis using True
      by (auto simp: with_dependents.simps [of xs] closed_stages_def)
  next
    case False
    with 1 show ?thesis by (simp add: with_dependents.simps [of xs] Let_def)
  qed
qed

lemma with_dependents_least:
  "set xs \<subseteq> set (with_dependents xs) \<and>
   (closed_stages A \<longrightarrow> set xs \<subseteq> A \<longrightarrow> set (with_dependents xs) \<subseteq> A)"
proof (induction xs rule: with_dependents.induct)
  case (1 xs)
  show ?case
  proof (cases "add_dependents xs = xs")
    case True
    then show ?thesis by (simp add: with_dependents.simps [of xs])
  next
    case False
    have "closed_stages A \<Longrightarrow> set xs \<subseteq> A \<Longrightarrow> set (add_dependents xs) \<subseteq> A"
      by (fastforce simp: set_add_dependents closed_stages_def)
    moreover have "set xs \<subseteq> set (add_dependents xs)" by (simp add: set_add_dependents)
    ultimately show ?thesis using 1 [OF refl False] False
      by (simp add: with_dependents.simps [of xs] Let_def) blast
  qed
qed

subsection \<open>Requests and needs\<close>

definition request_stages :: "string \<Rightarrow> stage list" where
  "request_stages item =
     (let key = lower (strip item) in
      case preset key of
        Some ss \<Rightarrow> ss
      | None \<Rightarrow> (case stage_of_name key of Some s \<Rightarrow> [s] | None \<Rightarrow> []))"

definition in_order :: "stage list \<Rightarrow> stage list" where
  "in_order wanted = filter (\<lambda>s. s \<in> set wanted) STAGE_ORDER"

definition expand_stages :: "string list option \<Rightarrow> stage list" where
  "expand_stages requested =
     (case requested of
        None \<Rightarrow> STAGE_ORDER
      | Some items \<Rightarrow>
          if items = [] then STAGE_ORDER
          else (let wanted = fold (\<lambda>item. fold add_stage (request_stages item)) items [] in
                if wanted = [] then STAGE_ORDER
                else in_order (add_stage Summarise (with_dependents wanted))))"

text \<open>\<^verbatim>\<open>_STAGE_FIELDS\<close> and \<^verbatim>\<open>REVISION_FIELDS\<close>: the columns of a stage; \<open>Summarise\<close> has none.\<close>

fun has_state :: "stage \<Rightarrow> bool" where
  "has_state Summarise = False"
| "has_state _ = True"

fun stage_state_of :: "stage \<Rightarrow> recording \<Rightarrow> stage_state" where
  "stage_state_of Metadata r = r_metadata_state r"
| "stage_state_of Telemetry r = r_telemetry_state r"
| "stage_state_of Detection r = r_detection_state r"
| "stage_state_of Plates r = r_plate_state r"
| "stage_state_of Summarise r = SDone"

fun set_stage_state :: "stage \<Rightarrow> stage_state \<Rightarrow> recording \<Rightarrow> recording" where
  "set_stage_state Metadata v r = r\<lparr>r_metadata_state := v\<rparr>"
| "set_stage_state Telemetry v r = r\<lparr>r_telemetry_state := v\<rparr>"
| "set_stage_state Detection v r = r\<lparr>r_detection_state := v\<rparr>"
| "set_stage_state Plates v r = r\<lparr>r_plate_state := v\<rparr>"
| "set_stage_state Summarise v r = r"

fun revision_of :: "stage \<Rightarrow> recording \<Rightarrow> string option" where
  "revision_of Metadata r = r_metadata_revision r"
| "revision_of Telemetry r = r_telemetry_revision r"
| "revision_of Detection r = r_detection_revision r"
| "revision_of Plates r = r_plate_revision r"
| "revision_of Summarise r = None"

fun set_revision :: "stage \<Rightarrow> string \<Rightarrow> recording \<Rightarrow> recording" where
  "set_revision Metadata v r = r\<lparr>r_metadata_revision := Some v\<rparr>"
| "set_revision Telemetry v r = r\<lparr>r_telemetry_revision := Some v\<rparr>"
| "set_revision Detection v r = r\<lparr>r_detection_revision := Some v\<rparr>"
| "set_revision Plates v r = r\<lparr>r_plate_revision := Some v\<rparr>"
| "set_revision Summarise v r = r"

text \<open>\<^verbatim>\<open>CURRENT_REVISIONS\<close>; \<open>Summarise\<close> is not a key of it.\<close>

fun CURRENT_REVISIONS :: "stage \<Rightarrow> string" where
  "CURRENT_REVISIONS Metadata = ''metadata-v2''"
| "CURRENT_REVISIONS Telemetry = ''telemetry-v5''"
| "CURRENT_REVISIONS Detection = ''detection-v3''"
| "CURRENT_REVISIONS Plates = ''plates-v5''"
| "CURRENT_REVISIONS Summarise = []"

definition INVALIDATED_REVISION :: string where
  "INVALIDATED_REVISION = ''invalidated''"

definition outdated_stages :: "recording \<Rightarrow> stage list" where
  "outdated_stages r =
     filter (\<lambda>s. has_state s \<and> revision_of s r \<noteq> Some (CURRENT_REVISIONS s)) STAGE_ORDER"

definition needs_stage :: "recording \<Rightarrow> stage \<Rightarrow> bool" where
  "needs_stage r s \<longleftrightarrow> has_state s \<and> stage_state_of s r \<in> {SPending, SFailed, SRunning}"

definition pending_stages :: "recording \<Rightarrow> stage list" where
  "pending_stages r =
     (let needed = filter (needs_stage r) STAGE_ORDER in
      if needed = [] then []
      else if Metadata \<in> set needed then STAGE_ORDER
      else in_order (add_stage Summarise (with_dependents needed)))"

subsection \<open>Invalidation\<close>

definition invalidate_stage :: "stage \<Rightarrow> recording \<Rightarrow> recording" where
  "invalidate_stage s r =
     (if has_state s then set_revision s INVALIDATED_REVISION (set_stage_state s SPending r) else r)"

definition invalidated_row :: "stage list \<Rightarrow> recording \<Rightarrow> recording" where
  "invalidated_row selected r =
     (let r1 = fold invalidate_stage selected r;
          r2 = (if Telemetry \<in> set selected
                then r1\<lparr>r_distance_m := None, r_max_speed_kmh := None\<rparr> else r1);
          r3 = (if Detection \<in> set selected then r2\<lparr>r_vehicle_count := 0\<rparr> else r2)
      in if Plates \<in> set selected then r3\<lparr>r_plate_count := 0\<rparr> else r3)"

definition invalidate_recordings :: "row_id list \<Rightarrow> string list option \<Rightarrow> db \<Rightarrow> stage list \<times> db" where
  "invalidate_recordings ids stages d =
     (let selected = expand_stages stages;
          d1 = db_update_recordings (\<lambda>r. r_id r \<in> set ids) (invalidated_row selected) d;
          touched = List.map_filter r_journey_id (filter (\<lambda>r. r_id r \<in> set ids) (db_recordings d1));
          d2 = (if ids \<noteq> [] \<and> Telemetry \<in> set selected
                then d1\<lparr>db_journeys := update_where (\<lambda>j. jn_id j \<in> set touched)
                       (\<lambda>j. j\<lparr>jn_avg_speed_kmh := None, jn_max_speed_kmh := None\<rparr>) (db_journeys d1)\<rparr>
                else d1)
      in (selected, d2))"

subsection \<open>Running the stages\<close>

text \<open>
  How a stage body ends. \<open>StageDone\<close> carries the recording as the stage left it and
  whether the result is retryable; the other two carry the unflushed evidence that
  \<^verbatim>\<open>_revive\<close> saves across the rollback (the entries of \<^verbatim>\<open>_PROBE_EVIDENCE_KEYS\<close>).
\<close>

datatype stage_outcome =
    StageDone recording bool
  | StageErr string (err_permanent: bool) (err_transient: bool) (err_evidence: jdict)
  | Raised string (raised_locked: bool) (raised_evidence: jdict)

record run_report =
  rp_stages :: "stage list"
  rp_ok :: bool
  rp_error :: "string option"
  rp_permanent :: bool
  rp_transient :: bool

definition PROBE_EVIDENCE_KEYS :: "string list" where
  "PROBE_EVIDENCE_KEYS = [''probe_failure'']"

text \<open>\<open>committed\<close> is the recording at the last commit, which is what a rollback leaves.\<close>

definition revive :: "jdict \<Rightarrow> recording \<Rightarrow> recording" where
  "revive evidence committed =
     (let carried = filter (\<lambda>(k, _). k \<in> set PROBE_EVIDENCE_KEYS) evidence in
      if carried = [] then committed
      else committed\<lparr>r_probe_json := JObj (fold (\<lambda>(k, v). dict_put k v) carried
             (case r_probe_json committed of JObj p \<Rightarrow> p | _ \<Rightarrow> []))\<rparr>)"

definition mark_stage :: "stage \<Rightarrow> stage_state \<Rightarrow> recording \<Rightarrow> recording" where
  "mark_stage s v r = (if has_state s then set_stage_state s v r else r)"

definition failed_stage ::
  "usec \<Rightarrow> stage \<Rightarrow> recording_state \<Rightarrow> string \<Rightarrow> recording \<Rightarrow> recording" where
  "failed_stage now s st msg r =
     (mark_stage s SFailed r)\<lparr>r_state := st, r_error_message := Some msg,
       r_error_count := r_error_count r + 1, r_last_error_at := Some now\<rparr>"

fun run_loop ::
  "usec \<Rightarrow> (stage \<Rightarrow> recording \<Rightarrow> stage_outcome) \<Rightarrow> stage list \<Rightarrow> recording \<Rightarrow> run_report \<Rightarrow>
   recording \<times> run_report" where
  "run_loop now body [] r rep = (r, rep)"
| "run_loop now body (s # ss) r rep =
     (let r0 = mark_stage s SRunning r in
      case body s r0 of
        StageDone r1 retryable \<Rightarrow>
          (let r2 = (if has_state s \<and> \<not> retryable then set_revision s (CURRENT_REVISIONS s) r1 else r1)
           in run_loop now body ss r2 (rep\<lparr>rp_stages := rp_stages rep @ [s]\<rparr>))
      | StageErr msg permanent transient evidence \<Rightarrow>
          (failed_stage now s (if permanent then RInvalid else RFailed) msg (revive evidence r0),
           rep\<lparr>rp_ok := False, rp_error := Some msg, rp_permanent := permanent,
               rp_transient := transient\<rparr>)
      | Raised msg locked evidence \<Rightarrow>
          (failed_stage now s RFailed msg (revive evidence r0),
           rep\<lparr>rp_ok := False, rp_error := Some msg, rp_transient := locked\<rparr>))"

definition empty_report :: run_report where
  "empty_report = \<lparr>rp_stages = [], rp_ok = True, rp_error = None, rp_permanent = False,
                   rp_transient = False\<rparr>"

definition run_stages ::
  "usec \<Rightarrow> (stage \<Rightarrow> recording \<Rightarrow> stage_outcome) \<Rightarrow> string list option \<Rightarrow> recording \<Rightarrow>
   recording \<times> run_report" where
  "run_stages now body stages r =
     run_loop now body (expand_stages stages) (r\<lparr>r_state := RProcessing\<rparr>) empty_report"

text \<open>\<^verbatim>\<open>stage_summarise\<close>: the counts are read from the track and observation tables.\<close>

definition summarised_row :: "usec \<Rightarrow> int \<Rightarrow> int \<Rightarrow> recording \<Rightarrow> recording" where
  "summarised_row now vehicle_count plate_count r =
     r\<lparr>r_processed_at := Some now, r_state := RCompleted, r_error_message := None,
       r_vehicle_count := vehicle_count, r_plate_count := plate_count\<rparr>"

subsection \<open>What a request expands to\<close>

lemma set_in_order [simp]: "set (in_order xs) = set xs"
  by (auto simp: in_order_def)

lemma sorted_in_order: "sorted (in_order xs)" "distinct (in_order xs)"
  by (simp_all add: in_order_def sorted_STAGE_ORDER distinct_STAGE_ORDER sorted_wrt_filter)

lemma set_add_stage [simp]: "set (add_stage s xs) = insert s (set xs)"
  by (auto simp: add_stage_def)

lemma closed_insert_Summarise: "closed_stages A \<Longrightarrow> closed_stages (insert Summarise A)"
  by (auto simp: closed_stages_def)

lemma closed_UNIV: "closed_stages (set STAGE_ORDER)"
  by (auto simp: closed_stages_def)

text \<open>Whatever is asked for, \<^verbatim>\<open>expand_stages\<close> gives stages in pipeline order without
  repeats, closed under "feeds into" (re-running telemetry re-runs detection and plates, and
  detection re-runs plates), and always ends with the summary; a stage asked for by name is
  in the list.\<close>

theorem expand_stages_closed:
  "sorted (expand_stages req) \<and> distinct (expand_stages req) \<and>
   closed_stages (set (expand_stages req)) \<and> last (expand_stages req) = Summarise \<and>
   (\<forall>items s. req = Some items \<and> stage_name s \<in> set (List.map (lower \<circ> strip) items) \<longrightarrow>
      s \<in> set (expand_stages req))"
proof -
  have full: "sorted STAGE_ORDER \<and> distinct STAGE_ORDER \<and> closed_stages (set STAGE_ORDER) \<and>
      last STAGE_ORDER = Summarise"
    using sorted_STAGE_ORDER distinct_STAGE_ORDER closed_UNIV by (simp add: STAGE_ORDER_def)
  have last_in: "last (in_order (add_stage Summarise xs)) = Summarise" for xs
    by (simp add: in_order_def STAGE_ORDER_def)
  have part: "sorted (in_order (add_stage Summarise (with_dependents xs))) \<and>
      distinct (in_order (add_stage Summarise (with_dependents xs))) \<and>
      closed_stages (set (in_order (add_stage Summarise (with_dependents xs)))) \<and>
      last (in_order (add_stage Summarise (with_dependents xs))) = Summarise" for xs
    using sorted_in_order last_in closed_insert_Summarise [OF with_dependents_closed] by simp
  have named: "s \<in> set (request_stages item)" if "lower (strip item) = stage_name s" for s item
    using that by (cases s) (simp_all add: request_stages_def preset_def stage_of_name_def STAGE_ORDER_def)
  have wanted: "set (fold (\<lambda>item. fold add_stage (request_stages item)) items ys) =
      set ys \<union> (\<Union>i \<in> set items. set (request_stages i))" for items ys
    by (induction items arbitrary: ys) (auto simp: set_fold_add_stage)
  have "s \<in> set (expand_stages (Some items))"
    if "stage_name s \<in> set (List.map (lower \<circ> strip) items)" for items s
  proof -
    have "s \<in> set (fold (\<lambda>item. fold add_stage (request_stages item)) items [])"
      using that named unfolding wanted by fastforce
    then show ?thesis
      using with_dependents_least [of "fold (\<lambda>item. fold add_stage (request_stages item)) items []"]
      by (auto simp: expand_stages_def Let_def)
  qed
  with full part show ?thesis by (auto simp: expand_stages_def Let_def split: option.splits)
qed

lemma expand_stages_closed_witness:
  "Plates \<in> set (expand_stages (Some ['' Telemetry '', ''bogus''])) \<and>
   Telemetry \<in> set (expand_stages (Some ['' Telemetry '', ''bogus''])) \<and>
   closed_stages (set (expand_stages (Some ['' Telemetry '', ''bogus''])))"
proof -
  have "stage_name Telemetry \<in> set (List.map (lower \<circ> strip) ['' Telemetry '', ''bogus''])"
    by code_simp
  with expand_stages_closed [of "Some ['' Telemetry '', ''bogus'']"]
  have "Telemetry \<in> set (expand_stages (Some ['' Telemetry '', ''bogus'']))"
    and "closed_stages (set (expand_stages (Some ['' Telemetry '', ''bogus''])))"
    by blast+
  then show ?thesis by (auto simp: closed_stages_def)
qed

subsection \<open>What a run leaves behind\<close>

lemma set_stage_state_id [simp]: "r_id (set_stage_state s v r) = r_id r"
  by (cases s) simp_all

lemma set_revision_id [simp]: "r_id (set_revision s v r) = r_id r"
  by (cases s) simp_all

lemma mark_stage_id [simp]: "r_id (mark_stage s v r) = r_id r"
  by (simp add: mark_stage_def)

lemma failed_stage_sel [simp]:
  "r_state (failed_stage now s st msg r) = st" "r_error_message (failed_stage now s st msg r) = Some msg"
  "has_state s \<Longrightarrow> stage_state_of s (failed_stage now s st msg r) = SFailed"
  by (cases s; simp add: failed_stage_def mark_stage_def)+

definition failed_at :: "stage \<Rightarrow> recording \<Rightarrow> run_report \<Rightarrow> bool" where
  "failed_at s r rep \<longleftrightarrow>
     (has_state s \<longrightarrow> stage_state_of s r = SFailed) \<and>
     rp_error rep = r_error_message r \<and> r_error_message r \<noteq> None \<and>
     r_state r = (if rp_permanent rep then RInvalid else RFailed)"

lemma run_loop_report:
  "run_loop now body ss r rep = (r', rep') \<Longrightarrow> rp_ok rep \<Longrightarrow> \<not> rp_permanent rep \<Longrightarrow>
   \<exists>fin rest. rp_stages rep' = rp_stages rep @ fin \<and> ss = fin @ rest \<and>
     (rp_ok rep' \<longleftrightarrow> rest = []) \<and> (rest \<noteq> [] \<longrightarrow> failed_at (hd rest) r' rep')"
proof (induction ss arbitrary: r rep)
  case (Cons s ss)
  show ?case
  proof (cases "body s (mark_stage s SRunning r)")
    case (StageDone r1 retryable)
    let ?r2 = "if has_state s \<and> \<not> retryable then set_revision s (CURRENT_REVISIONS s) r1 else r1"
    let ?rep = "rep\<lparr>rp_stages := rp_stages rep @ [s]\<rparr>"
    have "run_loop now body ss ?r2 ?rep = (r', rep')"
      using Cons.prems StageDone by (simp add: Let_def)
    then obtain fin rest where d: "rp_stages rep' = rp_stages ?rep @ fin" "ss = fin @ rest"
        "rp_ok rep' \<longleftrightarrow> rest = []" "rest \<noteq> [] \<longrightarrow> failed_at (hd rest) r' rep'"
      using Cons.IH [of ?r2 ?rep] Cons.prems by auto
    then show ?thesis by (intro exI [of _ "s # fin"] exI [of _ rest]) simp
  next
    case (StageErr msg permanent transient evidence)
    then show ?thesis using Cons.prems
      by (intro exI [of _ "[]"] exI [of _ "s # ss"]) (auto simp: Let_def failed_at_def)
  next
    case (Raised msg locked evidence)
    then show ?thesis using Cons.prems
      by (intro exI [of _ "[]"] exI [of _ "s # ss"]) (auto simp: Let_def failed_at_def)
  qed
qed simp

lemma revision_set_stage_state [simp]: "revision_of t (set_stage_state s v r) = revision_of t r"
  by (cases s; cases t) simp_all

lemma revision_mark_stage [simp]: "revision_of t (mark_stage s v r) = revision_of t r"
  by (simp add: mark_stage_def)

lemma revision_of_updates [simp]:
  "revision_of t (r\<lparr>r_state := v\<rparr>) = revision_of t r"
  "revision_of t (r\<lparr>r_probe_json := p\<rparr>) = revision_of t r"
  by (cases t; simp)+

lemma revision_failed_stage [simp]: "revision_of t (failed_stage now s st msg r) = revision_of t r"
proof -
  have "revision_of t (failed_stage now s st msg r) = revision_of t (mark_stage s SFailed r)"
    unfolding failed_stage_def by (cases t) (simp_all del: revision_mark_stage)
  then show ?thesis by (simp only: revision_mark_stage)
qed

lemma revision_revive [simp]: "revision_of t (revive evidence r) = revision_of t r"
  by (simp add: revive_def Let_def)

lemma revision_set_revision:
  "revision_of t (set_revision s v r) = (if t = s \<and> has_state s then Some v else revision_of t r)"
  by (cases s; cases t) simp_all

text \<open>
  \<open>retry s\<close>: the resource stage \<open>s\<close> needs is missing, so the stage skips itself; a stage
  writes its own state and results and never a revision.
\<close>

definition keeps_revisions :: "(stage \<Rightarrow> recording \<Rightarrow> stage_outcome) \<Rightarrow> (stage \<Rightarrow> bool) \<Rightarrow> bool" where
  "keeps_revisions body retry \<longleftrightarrow>
     (\<forall>s r r1 re. body s r = StageDone r1 re \<longrightarrow>
        re = retry s \<and> (\<forall>t. revision_of t r1 = revision_of t r))"

lemma run_loop_revisions:
  assumes "keeps_revisions body retry"
  shows "\<exists>ran. rp_stages (snd (run_loop now body ss r rep)) = rp_stages rep @ ran \<and>
    (\<forall>t. revision_of t (fst (run_loop now body ss r rep)) =
      (if has_state t \<and> t \<in> set ran \<and> \<not> retry t then Some (CURRENT_REVISIONS t)
       else revision_of t r))"
proof (induction ss arbitrary: r rep)
  case Nil
  show ?case by (intro exI [of _ "[]"]) simp
next
  case (Cons s ss)
  show ?case
  proof (cases "body s (mark_stage s SRunning r)")
    case (StageDone r1 re)
    let ?r2 = "if has_state s \<and> \<not> re then set_revision s (CURRENT_REVISIONS s) r1 else r1"
    let ?rep = "rep\<lparr>rp_stages := rp_stages rep @ [s]\<rparr>"
    have kept: "re = retry s" "revision_of t r1 = revision_of t r" for t
      using assms StageDone by (auto simp: keeps_revisions_def)
    obtain ran where ran: "rp_stages (snd (run_loop now body ss ?r2 ?rep)) = rp_stages ?rep @ ran"
      and rev: "\<And>t. revision_of t (fst (run_loop now body ss ?r2 ?rep)) =
        (if has_state t \<and> t \<in> set ran \<and> \<not> retry t then Some (CURRENT_REVISIONS t)
         else revision_of t ?r2)"
      using Cons.IH [of ?r2 ?rep] by blast
    have loop: "run_loop now body (s # ss) r rep = run_loop now body ss ?r2 ?rep"
      using StageDone by (simp add: Let_def)
    have two: "revision_of t ?r2 =
        (if t = s \<and> has_state s \<and> \<not> retry s then Some (CURRENT_REVISIONS s) else revision_of t r)" for t
      using kept by (simp add: revision_set_revision)
    show ?thesis
      unfolding loop rev two using ran by (intro exI [of _ "s # ran"]) auto
  next
    case (StageErr msg permanent transient evidence)
    then show ?thesis by (intro exI [of _ "[]"]) (simp add: Let_def)
  next
    case (Raised msg locked evidence)
    then show ?thesis by (intro exI [of _ "[]"]) (simp add: Let_def)
  qed
qed

text \<open>After any run, failed or not, the stages whose stored result is out of date are
  exactly those that were before, less the ones this run completed with their resource
  present: a stage that skipped itself because a model was missing stays "outdated", and a
  run that dies part-way keeps the revisions of the stages it finished.\<close>

theorem run_stages_outdated:
  assumes "keeps_revisions body retry"
    and "run_stages now body req r = (r', rep)"
  shows "outdated_stages r' =
    filter (\<lambda>s. \<not> (s \<in> set (rp_stages rep) \<and> \<not> retry s)) (outdated_stages r)"
proof -
  obtain ran where "rp_stages rep = ran" and
      rev: "\<And>t. revision_of t r' =
        (if has_state t \<and> t \<in> set ran \<and> \<not> retry t then Some (CURRENT_REVISIONS t)
         else revision_of t r)"
    using run_loop_revisions [OF assms(1), of now "expand_stages req" "r\<lparr>r_state := RProcessing\<rparr>"
        empty_report] assms(2)
    by (auto simp: run_stages_def empty_report_def)
  then show ?thesis by (auto simp: outdated_stages_def intro: filter_cong)
qed

text \<open>A run reports a prefix of the stages asked for, and is successful exactly when it
  is the whole list; otherwise the stage after the prefix is the one marked failed, the
  recording carries the reported error, and it is condemned (\<^verbatim>\<open>INVALID\<close>) exactly when the
  failure is a property of the file rather than of the attempt.\<close>

theorem run_stages_report:
  assumes "run_stages now body req r = (r', rep)"
  shows "\<exists>rest. expand_stages req = rp_stages rep @ rest \<and> (rp_ok rep \<longleftrightarrow> rest = []) \<and>
    (rest \<noteq> [] \<longrightarrow> failed_at (hd rest) r' rep)"
  using run_loop_report [OF assms [unfolded run_stages_def]] by (auto simp: empty_report_def)

definition sample_body :: "stage \<Rightarrow> recording \<Rightarrow> stage_outcome" where
  "sample_body s r =
     (if s = Plates then StageErr ''bad bitstream'' True False []
      else StageDone (mark_stage s SDone r) (s = Detection))"

lemma run_stages_outdated_witness:
  "keeps_revisions sample_body (\<lambda>s. s = Detection) \<and>
   outdated_stages sample_recording = [Telemetry, Detection, Plates] \<and>
   (\<exists>r' rep. run_stages 1 sample_body (Some [''telemetry'']) sample_recording = (r', rep) \<and>
      outdated_stages r' = filter (\<lambda>s. \<not> (s \<in> set (rp_stages rep) \<and> s \<noteq> Detection))
        [Telemetry, Detection, Plates])"
proof -
  have keeps: "keeps_revisions sample_body (\<lambda>s. s = Detection)"
    by (auto simp: keeps_revisions_def sample_body_def split: if_splits)
  have start: "outdated_stages sample_recording = [Telemetry, Detection, Plates]"
    by (simp add: outdated_stages_def sample_recording_def STAGE_ORDER_def)
  obtain r' rep where run: "run_stages 1 sample_body (Some [''telemetry'']) sample_recording = (r', rep)"
    by fastforce
  have "outdated_stages r' = filter (\<lambda>s. \<not> (s \<in> set (rp_stages rep) \<and> s \<noteq> Detection))
      [Telemetry, Detection, Plates]"
    using run_stages_outdated [OF keeps run] by (simp only: start)
  with keeps start run show ?thesis by blast
qed

lemma run_stages_report_witness:
  "\<exists>r' rep. run_stages 1 sample_body None sample_recording = (r', rep) \<and>
    rp_stages rep = [Metadata, Telemetry, Detection] \<and> failed_at Plates r' rep"
proof -
  obtain r' rep where run: "run_stages 1 sample_body None sample_recording = (r', rep)"
    by (cases "run_stages 1 sample_body None sample_recording")
  have stages: "rp_stages rep = [Metadata, Telemetry, Detection]"
    using run by (auto simp: run_stages_def expand_stages_def STAGE_ORDER_def sample_body_def
        empty_report_def Let_def)
  with run_stages_report [OF run] have "failed_at Plates r' rep"
    by (auto simp: expand_stages_def STAGE_ORDER_def)
  with run stages show ?thesis by blast
qed

end
