(* ===== verification/Journeys.thy ===== *)
theory Journeys
  imports Motion GapBarriers Orchestrator
begin

section \<open>Grouping recordings into journeys\<close>

text \<open>
  Models the pure half of \<^verbatim>\<open>backend/app/journeys/builder.py\<close>: which recordings form one
  journey (\<^verbatim>\<open>_cluster\<close>, \<^verbatim>\<open>_same_journey\<close>), and how far a drive went
  (\<^verbatim>\<open>_measure\<close>). A \<open>clip\<close> is the part of a \<^verbatim>\<open>Recording\<close> row that journeys read and
  write. The theorems tie the clusters to the coverage of the two cameras, and the distance to
  what a road vehicle can cover.
\<close>

record clip =
  cl_id :: row_id
  cl_journey_id :: "row_id option"
  cl_camera_id :: "row_id option"
  cl_started_at :: "usec option"
  cl_ended_at :: "usec option"
  cl_start_lat :: "real option"
  cl_start_lon :: "real option"
  cl_has_gps :: bool
  cl_gps_point_count :: int
  cl_gps_rejected_count :: int
  cl_gps_no_fix_count :: int
  cl_ignored :: bool
  cl_revisions :: "string option list"

record journey_settings =
  js_enabled :: bool
  js_gap :: usec
  js_min_recordings :: nat
  js_use_gps :: bool
  js_max_jump_m :: real
  js_min_move_m :: real

definition journey_ready :: "clip \<Rightarrow> bool" where
  "journey_ready c = list_all (\<lambda>r. r \<noteq> Some INVALIDATED_REVISION) (cl_revisions c)"

text \<open>\<^verbatim>\<open>ended_at or started_at\<close>. Only clips with a start are ever clustered.\<close>

definition end_or_start :: "clip \<Rightarrow> usec option" where
  "end_or_start c = (case cl_ended_at c of Some t \<Rightarrow> Some t | None \<Rightarrow> cl_started_at c)"

definition clip_end :: "clip \<Rightarrow> usec" where
  "clip_end c = (case end_or_start c of Some t \<Rightarrow> t | None \<Rightarrow> 0)"

definition clip_start :: "clip \<Rightarrow> usec" where
  "clip_start c = (case cl_started_at c of Some t \<Rightarrow> t | None \<Rightarrow> 0)"

definition jumped :: "journey_settings \<Rightarrow> clip \<Rightarrow> clip \<Rightarrow> real \<Rightarrow> bool" where
  "jumped cfg previous candidate elapsed =
     (if js_use_gps cfg \<and> 0 < js_max_jump_m cfg then
        (case (cl_start_lat previous, cl_start_lon previous, cl_start_lat candidate, cl_start_lon candidate) of
           (Some a, Some b, Some c, Some d) \<Rightarrow>
             (let jump = haversine_m a b c d
              in js_max_jump_m cfg < jump \<and> is_plausible_step jump elapsed)
         | _ \<Rightarrow> False)
      else False)"

definition same_journey :: "journey_settings \<Rightarrow> gap_barriers \<Rightarrow> clip \<Rightarrow> clip \<Rightarrow> bool" where
  "same_journey cfg gaps previous candidate =
     (case (end_or_start previous, cl_started_at candidate) of
        (Some prev_end, Some start) \<Rightarrow>
          if js_gap cfg < start - prev_end then False
          else if blocks gaps prev_end start then False
          else \<not> jumped cfg previous candidate (secs_between start prev_end)
      | _ \<Rightarrow> False)"

definition later_ending :: "clip \<Rightarrow> clip \<Rightarrow> clip" where
  "later_ending c previous = (if clip_end previous \<le> clip_end c then c else previous)"

fun cluster_from :: "journey_settings \<Rightarrow> gap_barriers \<Rightarrow> clip \<Rightarrow> clip list \<Rightarrow> clip list \<Rightarrow> clip list list" where
  "cluster_from cfg gaps previous current [] = [current]"
| "cluster_from cfg gaps previous current (c # cs) =
     (if same_journey cfg gaps previous c
      then cluster_from cfg gaps (later_ending c previous) (current @ [c]) cs
      else current # cluster_from cfg gaps (later_ending c previous) [c] cs)"

fun cluster :: "journey_settings \<Rightarrow> gap_barriers \<Rightarrow> clip list \<Rightarrow> clip list list" where
  "cluster cfg gaps [] = []"
| "cluster cfg gaps (c # cs) = cluster_from cfg gaps c [c] cs"

subsection \<open>Where the clusters begin\<close>

lemma cluster_from_concat:
  "concat (cluster_from cfg gaps p current cs) = current @ cs"
  by (induction cfg gaps p current cs rule: cluster_from.induct) simp_all

lemma cluster_concat [simp]: "concat (cluster cfg gaps cs) = cs"
  by (cases cs) (simp_all add: cluster_from_concat)

lemma cluster_from_nonempty: "current \<noteq> [] \<Longrightarrow> [] \<notin> set (cluster_from cfg gaps p current cs)"
  by (induction cfg gaps p current cs rule: cluster_from.induct) auto

lemma cluster_nonempty: "[] \<notin> set (cluster cfg gaps cs)"
  by (cases cs) (simp_all add: cluster_from_nonempty)

text \<open>The positions at which the parts of a cut list begin.\<close>

fun first_positions :: "nat \<Rightarrow> 'a list list \<Rightarrow> nat list" where
  "first_positions n [] = []"
| "first_positions n (xs # xss) = n # first_positions (n + length xs) xss"

text \<open>The clip among the first \<open>k\<close> that ends last.\<close>

definition latest :: "clip list \<Rightarrow> nat \<Rightarrow> clip" where
  "latest cs k = fold later_ending (tl (take k cs)) (hd cs)"

lemma latest_Cons: "latest (c # cs) (Suc k) = fold later_ending (take k cs) c"
  by (simp add: latest_def)

lemma latest_Suc:
  assumes "0 < k" and "k < length cs"
  shows "latest cs (Suc k) = later_ending (cs ! k) (latest cs k)"
proof -
  obtain c cs' k' where "cs = c # cs'" "k = Suc k'" using assms by (cases cs; cases k) auto
  with assms show ?thesis by (simp add: latest_Cons take_Suc_conv_app_nth)
qed

lemma latest_mem: "0 < k \<Longrightarrow> k \<le> length cs \<Longrightarrow> latest cs k \<in> set (take k cs)"
proof (induction k)
  case (Suc k)
  show ?case
  proof (cases "k = 0")
    case True
    with Suc.prems show ?thesis by (cases cs) (simp_all add: latest_def)
  next
    case False
    with Suc show ?thesis by (simp add: latest_Suc later_ending_def take_Suc_conv_app_nth)
  qed
qed simp

lemma latest_ge: "0 < k \<Longrightarrow> k \<le> length cs \<Longrightarrow> j < k \<Longrightarrow> clip_end (cs ! j) \<le> clip_end (latest cs k)"
proof (induction k)
  case (Suc k)
  show ?case
  proof (cases "k = 0")
    case True
    with Suc.prems show ?thesis by (cases cs) (simp_all add: latest_def)
  next
    case False
    with Suc show ?thesis by (cases "j = k") (auto simp: latest_Suc later_ending_def intro: order_trans)
  qed
qed simp

lemma cluster_from_positions:
  assumes "current \<noteq> []"
  shows "k \<in> set (first_positions n (cluster_from cfg gaps p current cs)) \<longleftrightarrow>
    k = n \<or> (\<exists>i < length cs. k = n + length current + i \<and>
      \<not> same_journey cfg gaps (fold later_ending (take i cs) p) (cs ! i))"
  using assms
proof (induction cs arbitrary: n p current)
  case (Cons c cs)
  have "(\<exists>i < length (c # cs). P i) \<longleftrightarrow> P 0 \<or> (\<exists>i < length cs. P (Suc i))" for P
    by (auto simp: less_Suc_eq_0_disj)
  from this [of "\<lambda>i. k = n + length current + i \<and>
      \<not> same_journey cfg gaps (fold later_ending (take i (c # cs)) p) ((c # cs) ! i)"]
  have split: "(\<exists>i < length (c # cs). k = n + length current + i \<and>
      \<not> same_journey cfg gaps (fold later_ending (take i (c # cs)) p) ((c # cs) ! i)) \<longleftrightarrow>
    k = n + length current \<and> \<not> same_journey cfg gaps p c \<or>
    (\<exists>i < length cs. k = n + length current + Suc i \<and>
      \<not> same_journey cfg gaps (fold later_ending (take i cs) (later_ending c p)) (cs ! i))"
    by simp
  show ?case
    unfolding split
    using Cons.IH [of "current @ [c]" n "later_ending c p"] Cons.IH [of "[c]" "n + length current" "later_ending c p"]
    by (cases "same_journey cfg gaps p c") auto
qed simp

text \<open>A clip begins a cluster exactly when it does not belong with the one that ends last before it.\<close>

lemma cluster_positions:
  assumes "0 < k" and "k < length cs"
  shows "k \<in> set (first_positions 0 (cluster cfg gaps cs)) \<longleftrightarrow> \<not> same_journey cfg gaps (latest cs k) (cs ! k)"
proof (cases cs)
  case (Cons c cs')
  obtain k' where k: "k = Suc k'" using assms(1) by (cases k) simp_all
  have l: "latest cs k = fold later_ending (take k' cs') c" "cs ! k = cs' ! k'" "k' < length cs'"
    using assms(2) Cons k by (simp_all add: latest_Cons)
  have "k \<in> set (first_positions 0 (cluster cfg gaps cs)) \<longleftrightarrow>
      (\<exists>i < length cs'. k = 1 + i \<and> \<not> same_journey cfg gaps (fold later_ending (take i cs') c) (cs' ! i))"
    using cluster_from_positions [of "[c]" k 0 cfg gaps c cs'] assms(1) Cons by simp
  then show ?thesis using l k by simp
qed (use assms in simp)

lemma end_or_start_started: "cl_started_at c \<noteq> None \<Longrightarrow> end_or_start c = Some (clip_end c)"
  by (auto simp: end_or_start_def clip_end_def split: option.splits)

text \<open>C19: journeys follow the coverage of both cameras together. Without the GPS rule, a recording starts a
  new journey exactly when it starts more than the permitted gap after every earlier
  recording has ended, or when an audited omission lies in time that no earlier recording
  covers; nothing else separates two recordings, and none is lost or reordered.\<close>

theorem journeys_follow_coverage:
  assumes "\<not> js_use_gps cfg" and "\<forall>c \<in> set cs. cl_started_at c \<noteq> None" and "0 < k" "k < length cs"
  shows "concat (cluster cfg (barriers_of ivs) cs) = cs \<and> [] \<notin> set (cluster cfg (barriers_of ivs) cs) \<and>
    (k \<in> set (first_positions 0 (cluster cfg (barriers_of ivs) cs)) \<longleftrightarrow>
      (\<forall>j < k. clip_end (cs ! j) + js_gap cfg < clip_start (cs ! k)) \<or>
      (\<forall>j < k. clip_end (cs ! j) < clip_start (cs ! k)) \<and>
        (\<exists>(a, b) \<in> set ivs. a < b \<and> a < clip_start (cs ! k) \<and> (\<forall>j < k. clip_end (cs ! j) < b)))"
proof -
  let ?l = "latest cs k" and ?s = "clip_start (cs ! k)"
  obtain i where i: "i < k" "?l = cs ! i"
    using latest_mem [of k cs] assms(3,4) by (auto simp: in_set_conv_nth)
  have top: "(\<forall>j < k. clip_end (cs ! j) < x) \<longleftrightarrow> clip_end ?l < x" for x
    using latest_ge [of k cs] assms(3,4) i by (metis less_imp_le_nat order.strict_trans1)
  have gap: "(\<forall>j < k. clip_end (cs ! j) + js_gap cfg < ?s) \<longleftrightarrow> clip_end ?l + js_gap cfg < ?s"
    using top [of "?s - js_gap cfg"] by (simp add: less_diff_eq)
  have "end_or_start ?l = Some (clip_end ?l)" "cl_started_at (cs ! k) = Some ?s"
    using assms(2,4) i by (auto simp: clip_start_def intro!: end_or_start_started split: option.split)
  then have "\<not> same_journey cfg (barriers_of ivs) ?l (cs ! k) \<longleftrightarrow>
      clip_end ?l + js_gap cfg < ?s \<or> blocks (barriers_of ivs) (clip_end ?l) ?s"
    using assms(1) by (auto simp: same_journey_def jumped_def)
  then show ?thesis
    using cluster_positions [OF assms(3,4), of cfg "barriers_of ivs"]
    by (simp add: gap top blocks_iff_interval cluster_nonempty)
qed

text \<open>The two cameras of one drive stay together. A recording that starts before some earlier one has
  ended is never cut off from the journey in front of it, whatever positions were read, as
  long as the permitted jump is not below what a vehicle covers in a second.\<close>

theorem overlap_never_split:
  assumes "0 \<le> js_gap cfg" and "112 \<le> js_max_jump_m cfg" and "\<forall>c \<in> set cs. cl_started_at c \<noteq> None"
    and "j < k" "k < length cs" "clip_start (cs ! k) \<le> clip_end (cs ! j)"
  shows "k \<notin> set (first_positions 0 (cluster cfg gaps cs))"
proof -
  let ?l = "latest cs k" and ?s = "clip_start (cs ! k)"
  have k: "0 < k" "k \<le> length cs" using assms(4,5) by simp_all
  have le: "?s \<le> clip_end ?l" using latest_ge [OF k assms(4)] assms(6) by simp
  have "?l \<in> set cs" using latest_mem [OF k] by (auto dest: in_set_takeD)
  then have e: "end_or_start ?l = Some (clip_end ?l)" "cl_started_at (cs ! k) = Some ?s"
    using assms(3,5) by (auto simp: clip_start_def intro!: end_or_start_started split: option.split)
  have "\<not> jumped cfg ?l (cs ! k) (secs_between ?s (clip_end ?l))"
  proof -
    have "secs_between ?s (clip_end ?l) \<le> 0" using le by (simp add: secs_between_def)
    then have "is_plausible_step d (secs_between ?s (clip_end ?l)) \<longleftrightarrow> d \<le> MAX_PLAUSIBLE_SPEED_MS" for d
      by (simp add: plausible_step_iff max_def)
    then show ?thesis
      using assms(2) by (auto simp: jumped_def MAX_PLAUSIBLE_SPEED_MS_def Let_def split: option.split)
  qed
  then have "same_journey cfg gaps ?l (cs ! k)"
    using le assms(1) by (simp add: same_journey_def e blocks_def)
  with cluster_positions [OF k(1) assms(5)] show ?thesis by simp
qed

text \<open>A front and a rear clip of one drive, and one an hour later.\<close>

definition sample_clip :: "row_id \<Rightarrow> usec \<Rightarrow> usec \<Rightarrow> clip" where
  "sample_clip i t u =
     \<lparr>cl_id = i, cl_journey_id = None, cl_camera_id = None, cl_started_at = Some t, cl_ended_at = Some u,
      cl_start_lat = None, cl_start_lon = None, cl_has_gps = False, cl_gps_point_count = 0,
      cl_gps_rejected_count = 0, cl_gps_no_fix_count = 0, cl_ignored = False, cl_revisions = []\<rparr>"

definition sample_settings :: journey_settings where
  "sample_settings =
     \<lparr>js_enabled = True, js_gap = seconds 60, js_min_recordings = 1, js_use_gps = False,
      js_max_jump_m = 5000, js_min_move_m = 15\<rparr>"

definition sample_clips :: "clip list" where
  "sample_clips = [sample_clip 1 0 (seconds 120), sample_clip 2 (seconds 1) (seconds 121),
     sample_clip 3 (seconds 3600) (seconds 3720)]"

lemma all_below3: "(\<forall>j < 2. P j) \<longleftrightarrow> P 0 \<and> P (1::nat)"
  by (auto simp: less_2_cases_iff)

lemma journeys_follow_coverage_witness:
  "2 \<in> set (first_positions 0 (cluster sample_settings (barriers_of []) sample_clips))"
proof -
  have "\<not> js_use_gps sample_settings" "\<forall>c \<in> set sample_clips. cl_started_at c \<noteq> None" "0 < (2::nat)"
    "2 < length sample_clips"
    by (simp_all add: sample_settings_def sample_clips_def sample_clip_def)
  from journeys_follow_coverage [OF this, of "[]"] show ?thesis
    by (simp add: all_below3 sample_clips_def sample_clip_def sample_settings_def clip_end_def
        clip_start_def end_or_start_def seconds_def)
qed

lemma overlap_never_split_witness:
  "1 \<notin> set (first_positions 0 (cluster sample_settings no_barriers sample_clips))"
  by (rule overlap_never_split [where j = 0])
    (simp_all add: sample_settings_def sample_clips_def sample_clip_def clip_end_def clip_start_def
      end_or_start_def seconds_def)

subsection \<open>How far the drive went\<close>

record odometer =
  om_distance :: real
  om_anchor :: "(place \<times> usec) option"
  om_sum :: real
  om_count :: nat

text \<open>
  The moment of a track point is always known, so the flat ceiling for legs without one is never
  used.
\<close>

definition count_speed :: "track_point \<Rightarrow> odometer \<Rightarrow> odometer" where
  "count_speed p m =
     (case tp_speed_kmh p of
        Some v \<Rightarrow> if 1 < v then m\<lparr>om_sum := om_sum m + v, om_count := om_count m + 1\<rparr> else m
      | None \<Rightarrow> m)"

definition leg_limit :: "usec \<Rightarrow> usec \<Rightarrow> real" where
  "leg_limit t t' = MAX_ROAD_SPEED_MS * max 1 \<bar>secs_between t t'\<bar>"

definition measure_leg :: "real \<Rightarrow> track_point \<Rightarrow> odometer \<Rightarrow> odometer" where
  "measure_leg min_move p m =
     (case (tp_lat p, tp_lon p) of
        (Some lat, Some lon) \<Rightarrow>
          (case om_anchor m of
             None \<Rightarrow> m\<lparr>om_anchor := Some ((lat, lon), tp_at p)\<rparr>
           | Some (a, t) \<Rightarrow>
               if tp_breaks_segment p then m\<lparr>om_anchor := Some ((lat, lon), tp_at p)\<rparr>
               else
                 (let step = metres a (lat, lon) in
                  if leg_limit (tp_at p) t < step then m
                  else if min_move \<le> step
                  then m\<lparr>om_distance := om_distance m + step, om_anchor := Some ((lat, lon), tp_at p)\<rparr>
                  else m))
      | _ \<Rightarrow> m)"

definition odometer_of :: "real \<Rightarrow> track_point list \<Rightarrow> odometer" where
  "odometer_of min_move track =
     fold (\<lambda>p m. measure_leg min_move p (count_speed p m)) track
       \<lparr>om_distance = 0, om_anchor = None, om_sum = 0, om_count = 0\<rparr>"

definition measure_drive :: "real \<Rightarrow> track_point list \<Rightarrow> real option \<times> real option" where
  "measure_drive min_move track =
     (if track = [] then (None, None)
      else
        (let m = odometer_of min_move track
         in (Some (py_round 1 (om_distance m)),
             Some (if om_count m = 0 then 0 else py_round 1 (om_sum m / real (om_count m))))))"

lemma round_half_even_close: "\<bar>real_of_int (round_half_even x) - x\<bar> \<le> 1 / 2"
proof -
  have "real_of_int \<lfloor>x\<rfloor> \<le> x" "x < real_of_int \<lfloor>x\<rfloor> + 1" by linarith+
  then show ?thesis by (auto simp: round_half_even_def Let_def abs_le_iff)
qed

lemma py_round_close: "\<bar>py_round 1 x - x\<bar> \<le> 1 / 20"
  using round_half_even_close [of "x * 10"] by (simp add: py_round_def abs_le_iff field_simps)

lemma count_speed_sel [simp]:
  "om_distance (count_speed p m) = om_distance m" "om_anchor (count_speed p m) = om_anchor m"
  by (auto simp: count_speed_def split: option.split)

text \<open>
  What a leg may cover is at least one second's worth. So the budget of a track is the elapsed
  time, a shorter gap between two positions counted as a second.
\<close>

fun road_seconds :: "track_point list \<Rightarrow> real" where
  "road_seconds (p # q # ps) = max 1 (secs_between (tp_at q) (tp_at p)) + road_seconds (q # ps)"
| "road_seconds _ = 0"

lemma road_seconds_snoc:
  "road_seconds (ps @ [p, q]) = road_seconds (ps @ [p]) + max 1 (secs_between (tp_at q) (tp_at p))"
proof (induction ps)
  case (Cons x ps)
  then show ?case by (cases ps) simp_all
qed simp

lemma road_seconds_nonneg: "0 \<le> road_seconds ps"
  by (induction ps rule: road_seconds.induct) (simp_all add: add_nonneg_nonneg)

text \<open>What was driven up to the anchor and could be driven since is within the budget.\<close>

definition odometer_inv :: "real \<Rightarrow> usec \<Rightarrow> odometer \<Rightarrow> bool" where
  "odometer_inv budget now m \<longleftrightarrow>
     0 \<le> budget \<and>
     (case om_anchor m of
        None \<Rightarrow> om_distance m = 0
      | Some (_, t) \<Rightarrow> t \<le> now \<and> om_distance m + MAX_ROAD_SPEED_MS * secs_between now t \<le> MAX_ROAD_SPEED_MS * budget)"

lemma MAX_ROAD_SPEED_pos: "0 < MAX_ROAD_SPEED_MS"
  by (simp add: MAX_ROAD_SPEED_MS_def)

lemma odometer_inv_count [simp]: "odometer_inv budget now (count_speed p m) = odometer_inv budget now m"
  by (simp add: odometer_inv_def cong: option.case_cong)

lemma secs_between_split: "secs_between v t = secs_between u t + secs_between v u"
  by (simp add: secs_between_def field_simps)

lemma odometer_inv_distance:
  assumes "odometer_inv budget now m"
  shows "om_distance m \<le> MAX_ROAD_SPEED_MS * budget"
proof (cases "om_anchor m")
  case None
  with assms show ?thesis using MAX_ROAD_SPEED_pos by (simp add: odometer_inv_def)
next
  case (Some x)
  obtain a t where x: "x = (a, t)" by (cases x)
  with assms Some have d: "t \<le> now"
    "om_distance m + MAX_ROAD_SPEED_MS * secs_between now t \<le> MAX_ROAD_SPEED_MS * budget"
    by (simp_all add: odometer_inv_def)
  have "0 \<le> MAX_ROAD_SPEED_MS * secs_between now t"
    using d(1) MAX_ROAD_SPEED_pos by (intro mult_nonneg_nonneg) (simp_all add: secs_between_def)
  with d(2) show ?thesis by linarith
qed

lemma odometer_inv_later:
  assumes inv: "odometer_inv budget now m" and now: "now \<le> now'"
  shows "odometer_inv (budget + max 1 (secs_between now' now)) now' m"
proof (cases "om_anchor m")
  case (Some x)
  obtain a t where x: "x = (a, t)" by (cases x)
  let ?g = "secs_between now' now"
  have d: "om_distance m + MAX_ROAD_SPEED_MS * secs_between now t \<le> MAX_ROAD_SPEED_MS * budget" "t \<le> now"
    using inv Some x by (simp_all add: odometer_inv_def)
  have "MAX_ROAD_SPEED_MS * ?g \<le> MAX_ROAD_SPEED_MS * max 1 ?g"
    using MAX_ROAD_SPEED_pos by (intro mult_left_mono) auto
  then have "om_distance m + MAX_ROAD_SPEED_MS * secs_between now' t \<le> MAX_ROAD_SPEED_MS * (budget + max 1 ?g)"
    using d(1) by (simp add: secs_between_split [of now' t now] distrib_left)
  with Some x d(2) now inv show ?thesis by (simp add: odometer_inv_def)
qed (use inv in \<open>simp add: odometer_inv_def\<close>)

lemma measure_leg_inv:
  assumes inv: "odometer_inv budget now m" and now: "now \<le> tp_at p"
  shows "odometer_inv (budget + max 1 (secs_between (tp_at p) now)) (tp_at p) (measure_leg min_move p m)"
proof -
  let ?B = "budget + max 1 (secs_between (tp_at p) now)" and ?g = "secs_between (tp_at p) now"
  have later: "odometer_inv ?B (tp_at p) m" using odometer_inv_later [OF inv now] .
  have anchored: "odometer_inv ?B (tp_at p) (m\<lparr>om_anchor := Some (a, tp_at p)\<rparr>)" for a
    using odometer_inv_distance [OF later] later by (simp add: odometer_inv_def secs_between_def)
  have leg: "om_distance m + leg_limit (tp_at p) t \<le> MAX_ROAD_SPEED_MS * ?B" if "om_anchor m = Some (a, t)" for a t
  proof (cases "1 \<le> secs_between (tp_at p) t")
    case True
    then have "leg_limit (tp_at p) t = MAX_ROAD_SPEED_MS * secs_between (tp_at p) t" by (simp add: leg_limit_def)
    then show ?thesis using later that by (simp add: odometer_inv_def)
  next
    case False
    have "0 \<le> secs_between (tp_at p) t" using later that by (simp add: odometer_inv_def secs_between_def)
    then have "leg_limit (tp_at p) t = MAX_ROAD_SPEED_MS" using False by (simp add: leg_limit_def)
    moreover have "MAX_ROAD_SPEED_MS * (budget + 1) \<le> MAX_ROAD_SPEED_MS * ?B"
      using MAX_ROAD_SPEED_pos by (intro mult_left_mono) auto
    ultimately show ?thesis using odometer_inv_distance [OF inv] by (simp add: distrib_left)
  qed
  have driven: "odometer_inv ?B (tp_at p) (m\<lparr>om_distance := om_distance m + s, om_anchor := Some (b, tp_at p)\<rparr>)"
    if "om_anchor m = Some (a, t)" "\<not> leg_limit (tp_at p) t < s" for a t s b
    using leg [OF that(1)] that(2) later by (simp add: odometer_inv_def secs_between_def)
  show ?thesis
    using later anchored driven by (auto simp: measure_leg_def Let_def split: option.split)
qed

lemma odometer_bound:
  assumes "sorted (List.map tp_at (p # track))"
  shows "odometer_inv (road_seconds (p # track)) (tp_at (last (p # track))) (odometer_of min_move (p # track))"
  using assms
proof (induction track rule: rev_induct)
  case Nil
  then show ?case
    using MAX_ROAD_SPEED_pos
    by (auto simp: odometer_of_def odometer_inv_def measure_leg_def secs_between_def split: option.split)
next
  case (snoc q track)
  let ?l = "last (p # track)"
  have "sorted (List.map tp_at (p # track))" and le: "tp_at ?l \<le> tp_at q"
    using snoc.prems by (auto simp: sorted_append)
  with snoc.IH have "odometer_inv (road_seconds (p # track)) (tp_at ?l) (count_speed q (odometer_of min_move (p # track)))"
    by simp
  from measure_leg_inv [OF this le]
  have "odometer_inv (road_seconds (p # track) + max 1 (secs_between (tp_at q) (tp_at ?l))) (tp_at q)
      (odometer_of min_move (p # track @ [q]))" by (simp add: odometer_of_def)
  moreover have "road_seconds (p # track @ [q]) = road_seconds (p # track) + max 1 (secs_between (tp_at q) (tp_at ?l))"
  proof -
    have "butlast (p # track) @ [?l] = p # track" by (rule append_butlast_last_id) simp
    then have "butlast (p # track) @ [?l, q] = p # track @ [q]" by (metis append.assoc append_Cons append_Nil)
    then show ?thesis
      using road_seconds_snoc [of "butlast (p # track)" ?l q] \<open>butlast (p # track) @ [?l] = p # track\<close> by (simp only:)
  qed
  ultimately show ?case by simp
qed

text \<open>C22: a distance is one a road vehicle can have driven. However many fixes were misread, the
  length given to a drive is at most what 160 km/h covers in the time between its positions, where
  two positions less than a second apart count as a second apart; so for positions at whole
  seconds it is 160 km/h over the elapsed time. Up to the rounding to 0.1 m.\<close>

theorem distance_within_road_speed:
  assumes "measure_drive min_move (single_track rows starts front) = (Some d, avg)"
  shows "d \<le> 160 / 3.6 * road_seconds (single_track rows starts front) + 0.05"
proof -
  obtain p track where ts: "single_track rows starts front = p # track"
    using assms by (cases "single_track rows starts front") (auto simp: measure_drive_def)
  let ?m = "odometer_of min_move (p # track)"
  have "d = py_round 1 (om_distance ?m)" using assms ts by (simp add: measure_drive_def Let_def)
  then have d: "d \<le> om_distance ?m + 1 / 20" using py_round_close [of "om_distance ?m"] by linarith
  have "sorted (List.map tp_at (p # track))" using single_track_sorted ts by metis
  then have "om_distance ?m \<le> MAX_ROAD_SPEED_MS * road_seconds (p # track)"
    by (rule odometer_inv_distance [OF odometer_bound])
  with d show ?thesis unfolding ts MAX_ROAD_SPEED_MS_def by simp
qed

lemma distance_within_road_speed_witness:
  "\<exists>d avg. measure_drive 15 (single_track sample_drive (\<lambda>_. None) (\<lambda>_. True)) = (Some d, avg) \<and>
    d \<le> 160 / 3.6 * road_seconds (single_track sample_drive (\<lambda>_. None) (\<lambda>_. True)) + 0.05"
proof -
  let ?ts = "single_track sample_drive (\<lambda>_. None) (\<lambda>_. True)"
  have "me_status (ma_evidence (assess_motion ?ts)) = Moving" by (rule sample_drive_moving)
  then have "?ts \<noteq> []"
    by (auto simp: assess_motion_def cleaned_def movement_of_def has_sparse_leg_def Let_def)
  then obtain d avg where m: "measure_drive 15 ?ts = (Some d, avg)" by (simp add: measure_drive_def Let_def)
  from distance_within_road_speed [OF m] m show ?thesis by blast
qed

end
