(* ===== verification/JourneyRefresh.thy ===== *)
theory JourneyRefresh
  imports Journeys
begin

section \<open>Deriving and publishing a journey\<close>

text \<open>
  Models \<^verbatim>\<open>refresh\<close> of \<^verbatim>\<open>backend/app/journeys/builder.py\<close>: the plan is derived from a
  reading of the tables (\<^verbatim>\<open>_prepare_refresh\<close>, \<^verbatim>\<open>_derive_refresh\<close>) and published
  only if nothing it rests on has changed since (\<^verbatim>\<open>_publish_refresh\<close>). Between the two
  other writers may commit, so each takes the library it meets. The library holds the columns
  that journeys read or write; counts of sightings and their positions stand for the tables of
  tracked objects and plate observations. Positions that are written in pairs are one column.
\<close>

subsection \<open>Tables\<close>

record drive_motion =
  dm_evidence :: motion_evidence
  dm_observed :: "(real option \<times> real option \<times> real option) option"

record drive =
  dr_id :: row_id
  dr_started_at :: usec
  dr_ended_at :: usec
  dr_duration_s :: real
  dr_distance_m :: "real option"
  dr_avg_speed_kmh :: "real option"
  dr_max_speed_kmh :: "real option"
  dr_start :: "place option"
  dr_end :: "place option"
  dr_bounds :: "(place \<times> place) option"
  dr_has_gps :: bool
  dr_recording_count :: nat
  dr_vehicle_count :: nat
  dr_plate_count :: nat
  dr_manual :: bool
  dr_title :: "string option"
  dr_motion :: "drive_motion option"
  dr_updated_at :: usec

record sighting =
  sg_id :: row_id
  sg_recording_id :: row_id
  sg_journey_id :: "row_id option"
  sg_plate_id :: "row_id option"
  sg_lat :: "real option"
  sg_lon :: "real option"

record library =
  lb_clips :: "clip list"
  lb_drives :: "drive list"
  lb_points :: "telemetry_point list"
  lb_tracks :: "sighting list"
  lb_plates :: "sighting list"
  lb_front_cameras :: "row_id list"
  lb_omissions :: "clip_exclusion list"

definition new_drive :: "usec \<Rightarrow> usec \<Rightarrow> usec \<Rightarrow> drive" where
  "new_drive now started ended =
     \<lparr>dr_id = 0, dr_started_at = started, dr_ended_at = ended, dr_duration_s = 0, dr_distance_m = None,
      dr_avg_speed_kmh = None, dr_max_speed_kmh = None, dr_start = None, dr_end = None, dr_bounds = None,
      dr_has_gps = False, dr_recording_count = 0, dr_vehicle_count = 0, dr_plate_count = 0,
      dr_manual = False, dr_title = None, dr_motion = None, dr_updated_at = now\<rparr>"

subsection \<open>Positions that cannot belong to the drive\<close>

definition NO_LOCK_FIX_RATIO :: int where "NO_LOCK_FIX_RATIO = 10"

definition located :: "telemetry_point list \<Rightarrow> telemetry_point list" where
  "located rows = filter (\<lambda>r. tl_lat r \<noteq> None \<and> tl_lon r \<noteq> None) rows"

definition point_place :: "telemetry_point \<Rightarrow> place" where
  "point_place r = (case_option 0 id (tl_lat r), case_option 0 id (tl_lon r))"

definition directly_read :: "telemetry_point \<Rightarrow> bool" where
  "directly_read r = (case tl_gps_quality r of None \<Rightarrow> True | Some q \<Rightarrow> q \<in> set TRUSTED)"

definition find_outliers :: "telemetry_point list \<Rightarrow> real \<Rightarrow> row_id list \<times> place option \<times> real" where
  "find_outliers rows secs =
     (let here = located rows; radius = plausible_radius_m secs in
      if length here < 3 then ([], None, radius)
      else
        (let places = List.map point_place here;
             out = spatial_outliers places secs (Some (List.map directly_read here));
             kept = List.map (\<lambda>i. places ! i) (filter (\<lambda>i. i \<notin> set out) [0..<length places])
         in (List.map (\<lambda>i. tl_id (here ! i)) out, robust_centre kept, radius)))"

definition is_no_lock_session :: "telemetry_point list \<Rightarrow> clip list \<Rightarrow> bool" where
  "is_no_lock_session rows clips =
     (let here = located rows in
      if here = [] then False
      else if sum_list (List.map cl_gps_no_fix_count clips) < int (length here) * NO_LOCK_FIX_RATIO then False
      else length (remdups (List.map point_place here)) = 1)"

definition stale_sightings :: "sighting list \<Rightarrow> row_id list \<Rightarrow> place option \<Rightarrow> real \<Rightarrow> bool \<Rightarrow> row_id list" where
  "stale_sightings rows ids centre radius reject_all =
     (if centre = None \<and> \<not> reject_all then []
      else
        List.map sg_id
          (filter (\<lambda>s. sg_recording_id s \<in> set ids \<and>
             (case (sg_lat s, sg_lon s) of
                (Some lat, Some lon) \<Rightarrow>
                  (case centre of None \<Rightarrow> True | Some c \<Rightarrow> radius < metres c (lat, lon))
              | _ \<Rightarrow> False)) rows))"

subsection \<open>Deriving\<close>

record refresh_projection =
  rf_drive :: drive
  rf_clips :: "clip list"
  rf_rejected :: "row_id list"
  rf_verdict :: "gps_quality \<times> gps_reason"
  rf_stale_tracks :: "row_id list"
  rf_stale_plates :: "row_id list"

definition min_list_opt :: "'a::linorder list \<Rightarrow> 'a option" where
  "min_list_opt xs = (case xs of [] \<Rightarrow> None | y # ys \<Rightarrow> Some (fold min ys y))"

definition max_list_opt :: "'a::linorder list \<Rightarrow> 'a option" where
  "max_list_opt xs = (case xs of [] \<Rightarrow> None | y # ys \<Rightarrow> Some (fold max ys y))"

text \<open>The earliest surviving fix of a recording; the first one read among equals.\<close>

definition first_fix :: "row_id \<Rightarrow> telemetry_point list \<Rightarrow> telemetry_point option" where
  "first_fix i rows =
     fold (\<lambda>p best. case best of
              None \<Rightarrow> Some p
            | Some b \<Rightarrow> if tl_t_offset_s p < tl_t_offset_s b then Some p else best)
       (filter (\<lambda>p. tl_recording_id p = i) rows) None"

definition count_for :: "row_id \<Rightarrow> telemetry_point list \<Rightarrow> int" where
  "count_for i rows = int (length (filter (\<lambda>p. tl_recording_id p = i) rows))"

definition project_clip :: "telemetry_point list \<Rightarrow> telemetry_point list \<Rightarrow> clip \<Rightarrow> clip" where
  "project_clip bad good c =
     (let p = first_fix (cl_id c) good;
          c1 = c\<lparr>cl_start_lat := Option.bind p tl_lat, cl_start_lon := Option.bind p tl_lon\<rparr>;
          rejected = count_for (cl_id c) bad; surviving = count_for (cl_id c) good
      in if rejected = 0 then c1
         else c1\<lparr>cl_gps_point_count := surviving, cl_has_gps := 0 < surviving,
                 cl_gps_rejected_count := cl_gps_rejected_count c + rejected\<rparr>)"

definition drive_span :: "clip list \<Rightarrow> drive \<Rightarrow> drive" where
  "drive_span clips d =
     (let timed = filter (\<lambda>c. cl_started_at c \<noteq> None) clips;
          d1 = d\<lparr>dr_recording_count := length clips,
                 dr_started_at := (case min_list_opt (List.map clip_start timed) of Some t \<Rightarrow> t | None \<Rightarrow> dr_started_at d),
                 dr_ended_at := (case max_list_opt (List.map clip_end timed) of Some t \<Rightarrow> t | None \<Rightarrow> dr_ended_at d)\<rparr>
      in d1\<lparr>dr_duration_s := max 0 (secs_between (dr_ended_at d1) (dr_started_at d1))\<rparr>)"

definition drive_of_track :: "real \<Rightarrow> telemetry_point list \<Rightarrow> track_point list \<Rightarrow> drive \<Rightarrow> drive" where
  "drive_of_track min_move good track d =
     (let motion = assess_motion track;
          observed = measure_drive min_move track;
          clean = ma_track motion;
          on_track = filter (\<lambda>p. tp_lat p \<noteq> None \<and> tp_lon p \<noteq> None) clean;
          measured = measure_drive min_move clean;
          moving = (me_status (ma_evidence motion) = Moving);
          lats = List.map (\<lambda>p. fst (point_place p)) good; lons = List.map (\<lambda>p. snd (point_place p)) good
      in d\<lparr>dr_motion := Some \<lparr>dm_evidence = ma_evidence motion,
              dm_observed = Some (fst observed, snd observed, max_list_opt (List.map_filter tp_speed_kmh track))\<rparr>,
            dr_has_gps := (good \<noteq> []),
            dr_bounds :=
              (case (min_list_opt lats, min_list_opt lons, max_list_opt lats, max_list_opt lons) of
                 (Some a, Some b, Some c, Some e) \<Rightarrow> Some ((a, b), (c, e))
               | _ \<Rightarrow> None),
            dr_start := (if on_track = [] then None else Some (spot (hd on_track))),
            dr_end := (if on_track = [] then None else Some (spot (last on_track))),
            dr_distance_m := (if moving then fst measured else None),
            dr_avg_speed_kmh := (if moving then snd measured else None),
            dr_max_speed_kmh := (if moving then max_list_opt (List.map_filter tp_speed_kmh clean) else None)\<rparr>)"

definition derive_refresh :: "library \<Rightarrow> journey_settings \<Rightarrow> drive \<Rightarrow> clip list \<Rightarrow> refresh_projection" where
  "derive_refresh lib cfg d clips =
     (if clips = [] then
        \<lparr>rf_drive = d\<lparr>dr_recording_count := 0,
           dr_motion := Some \<lparr>dm_evidence = ma_evidence (assess_motion []), dm_observed = None\<rparr>\<rparr>,
         rf_clips = [], rf_rejected = [], rf_verdict = (QRejected, IsolatedPositionOutlier),
         rf_stale_tracks = [], rf_stale_plates = []\<rparr>
      else
        (let d1 = drive_span clips d;
             ids = List.map cl_id clips;
             points = filter (\<lambda>p. tl_recording_id p \<in> set ids \<and> tl_has_fix p) (lb_points lib);
             (out, centre, radius) = find_outliers points (dr_duration_s d1);
             no_lock = is_no_lock_session points clips;
             rejected = (if no_lock then List.map tl_id (located points) else out);
             centre = (if no_lock then None else centre);
             good = filter (\<lambda>p. tl_id p \<notin> set rejected) points;
             bad = filter (\<lambda>p. tl_id p \<in> set rejected) points;
             front = (\<lambda>i. \<exists>c \<in> set (lb_clips lib). cl_id c = i \<and>
                        (case cl_camera_id c of Some k \<Rightarrow> k \<in> set (lb_front_cameras lib) | None \<Rightarrow> False));
             starts = (\<lambda>i. case List.find (\<lambda>c. cl_id c = i) clips of Some c \<Rightarrow> cl_started_at c | None \<Rightarrow> None);
             d2 = drive_of_track (js_min_move_m cfg) (located good) (single_track good starts front) d1;
             seen_in = (\<lambda>rows. filter (\<lambda>s. sg_recording_id s \<in> set ids) rows)
         in \<lparr>rf_drive = d2\<lparr>dr_vehicle_count := length (seen_in (lb_tracks lib)),
               dr_plate_count := length (remdups (List.map_filter sg_plate_id (seen_in (lb_plates lib))))\<rparr>,
             rf_clips = List.map (project_clip bad (located good)) clips,
             rf_rejected = rejected,
             rf_verdict = (if no_lock then (QNoFix, NoFix) else (QRejected, IsolatedPositionOutlier)),
             rf_stale_tracks = stale_sightings (lb_tracks lib) ids centre radius no_lock,
             rf_stale_plates = stale_sightings (lb_plates lib) ids centre radius no_lock\<rparr>))"

subsection \<open>Preparing a plan\<close>

record refresh_plan =
  rn_projection :: refresh_projection
  rn_expected :: "clip list"
  rn_expected_drive :: "(usec \<times> bool) option"
  rn_members :: "row_id list option"

datatype refresh_conflict =
    JourneyDisappeared | JourneyChangedBefore | RecordingDisappeared | MembershipChangedBefore
  | TargetChanged | JourneyChanged | RecordingChanged | MembershipChanged

text \<open>The journey to refresh: a row that was read, or one that is not stored yet.\<close>

datatype target = Stored drive | Fresh drive

definition target_drive :: "target \<Rightarrow> drive" where
  "target_drive t = (case t of Stored d \<Rightarrow> d | Fresh d \<Rightarrow> d)"

definition is_member :: "row_id \<Rightarrow> clip \<Rightarrow> bool" where
  "is_member i c \<longleftrightarrow> cl_journey_id c = Some i \<and> \<not> cl_ignored c \<and> journey_ready c"

definition member_ids :: "row_id \<Rightarrow> library \<Rightarrow> row_id list" where
  "member_ids i lib = List.map cl_id (filter (is_member i) (lb_clips lib))"

definition clip_snapshot :: "library \<Rightarrow> row_id list \<Rightarrow> clip list" where
  "clip_snapshot lib ids = filter (\<lambda>c. cl_id c \<in> set ids) (lb_clips lib)"

definition stored_stamp :: "library \<Rightarrow> target \<Rightarrow> refresh_conflict + (usec \<times> bool) option" where
  "stored_stamp lib t =
     (case t of
        Fresh d \<Rightarrow> Inr None
      | Stored d \<Rightarrow>
          (case get_row dr_id (dr_id d) (lb_drives lib) of
             None \<Rightarrow> Inl JourneyDisappeared
           | Some row \<Rightarrow>
               if (dr_updated_at row, dr_manual row) \<noteq> (dr_updated_at d, dr_manual d)
               then Inl JourneyChangedBefore
               else Inr (Some (dr_updated_at row, dr_manual row))))"

definition clip_order :: "clip \<Rightarrow> bool \<times> usec \<times> row_id" where
  "clip_order c = (cl_started_at c \<noteq> None, clip_start c, cl_id c)"

text \<open>
  \<open>pending\<close> is the recording whose stage is completing, with the fields it is about to write;
  \<open>chosen\<close> are the recordings of a planned cluster.
\<close>

definition prepare_refresh ::
  "library \<Rightarrow> journey_settings \<Rightarrow> target \<Rightarrow> clip option \<Rightarrow> row_id list option \<Rightarrow> refresh_conflict + refresh_plan" where
  "prepare_refresh lib cfg t pending chosen =
     (case stored_stamp lib t of
        Inl e \<Rightarrow> Inl e
      | Inr stamp \<Rightarrow>
          (let members =
                 (case chosen of
                    Some _ \<Rightarrow> None
                  | None \<Rightarrow> Some (case t of Stored d \<Rightarrow> member_ids (dr_id d) lib | Fresh _ \<Rightarrow> []));
               ids =
                 (case (chosen, members) of
                    (Some ids, _) \<Rightarrow> ids
                  | (None, Some ms) \<Rightarrow> ms @ (case pending of Some c \<Rightarrow> [cl_id c] | None \<Rightarrow> [])
                  | (None, None) \<Rightarrow> []);
               expected = clip_snapshot lib ids
           in if \<not> list_all (\<lambda>i. i \<in> set (List.map cl_id expected)) ids then Inl RecordingDisappeared
              else if (case pending of
                         None \<Rightarrow> False
                       | Some c \<Rightarrow> list_ex (\<lambda>x. cl_id x = cl_id c \<and>
                           (cl_journey_id x \<noteq> cl_journey_id c \<or> cl_ignored x \<noteq> cl_ignored c)) expected)
              then Inl MembershipChangedBefore
              else
                (let projected = sort_key clip_order
                       (List.map (\<lambda>x. case pending of
                                        Some c \<Rightarrow> if cl_id x = cl_id c then c else x
                                      | None \<Rightarrow> x) expected)
                 in Inr \<lparr>rn_projection = derive_refresh lib cfg (target_drive t) projected,
                         rn_expected = expected, rn_expected_drive = stamp, rn_members = members\<rparr>)))"

subsection \<open>Publishing it\<close>

definition publish_drive :: "usec \<Rightarrow> drive \<Rightarrow> drive \<Rightarrow> drive" where
  "publish_drive now shadow row =
     (let new = shadow\<lparr>dr_id := dr_id row, dr_manual := dr_manual row, dr_title := dr_title row,
                       dr_updated_at := dr_updated_at row\<rparr>
      in if new = row then row else new\<lparr>dr_updated_at := now\<rparr>)"

definition clear_position :: "gps_quality \<times> gps_reason \<Rightarrow> telemetry_point \<Rightarrow> telemetry_point" where
  "clear_position v p =
     p\<lparr>tl_has_fix := False, tl_lat := None, tl_lon := None, tl_heading_deg := None,
       tl_gps_quality := Some (fst v), tl_gps_reason := Some (snd v)\<rparr>"

definition clear_sighting :: "sighting \<Rightarrow> sighting" where
  "clear_sighting s = s\<lparr>sg_lat := None, sg_lon := None\<rparr>"

text \<open>\<^verbatim>\<open>_attach\<close>: four statements per batch of ids, which together touch every row once.\<close>

definition attach :: "row_id list \<Rightarrow> row_id option \<Rightarrow> library \<Rightarrow> library" where
  "attach ids j lib =
     lib\<lparr>lb_clips := update_where (\<lambda>c. cl_id c \<in> set ids) (\<lambda>c. c\<lparr>cl_journey_id := j\<rparr>) (lb_clips lib),
         lb_points := update_where (\<lambda>p. tl_recording_id p \<in> set ids) (\<lambda>p. p\<lparr>tl_journey_id := j\<rparr>) (lb_points lib),
         lb_tracks := update_where (\<lambda>s. sg_recording_id s \<in> set ids) (\<lambda>s. s\<lparr>sg_journey_id := j\<rparr>) (lb_tracks lib),
         lb_plates := update_where (\<lambda>s. sg_recording_id s \<in> set ids) (\<lambda>s. s\<lparr>sg_journey_id := j\<rparr>) (lb_plates lib)\<rparr>"

definition write_projection :: "usec \<Rightarrow> row_id \<Rightarrow> refresh_plan \<Rightarrow> library \<Rightarrow> library" where
  "write_projection now i plan lib =
     (let pr = rn_projection plan in
      lib\<lparr>lb_drives := update_row dr_id i (publish_drive now (rf_drive pr)) (lb_drives lib),
          lb_clips := List.map (\<lambda>c. case List.find (\<lambda>x. cl_id x = cl_id c) (rf_clips pr) of
                                      Some x \<Rightarrow> x | None \<Rightarrow> c) (lb_clips lib),
          lb_points := update_where (\<lambda>p. tl_id p \<in> set (rf_rejected pr)) (clear_position (rf_verdict pr)) (lb_points lib),
          lb_tracks := update_where (\<lambda>s. sg_id s \<in> set (rf_stale_tracks pr)) clear_sighting (lb_tracks lib),
          lb_plates := update_where (\<lambda>s. sg_id s \<in> set (rf_stale_plates pr)) clear_sighting (lb_plates lib)\<rparr>)"

text \<open>The checks made with the writer held; \<open>guarded\<close> callers have made their own.\<close>

definition plan_conflict :: "library \<Rightarrow> target \<Rightarrow> bool \<Rightarrow> refresh_plan \<Rightarrow> refresh_conflict option" where
  "plan_conflict lib t guarded plan =
     (let drive_changed =
            (case t of
               Stored d \<Rightarrow>
                 if guarded then None
                 else case rn_expected_drive plan of
                   None \<Rightarrow> Some TargetChanged
                 | Some stamp \<Rightarrow>
                     if list_ex (\<lambda>row. dr_id row = dr_id d \<and> (dr_updated_at row, dr_manual row) = stamp) (lb_drives lib)
                     then None else Some JourneyChanged
             | Fresh _ \<Rightarrow> None)
      in if drive_changed \<noteq> None then drive_changed
         else if clip_snapshot lib (List.map cl_id (rn_expected plan)) \<noteq> rn_expected plan then Some RecordingChanged
         else
           (case (rn_members plan, t) of
              (Some ms, Stored d) \<Rightarrow>
                if set (member_ids (dr_id d) lib) \<noteq> set ms then Some MembershipChanged else None
            | _ \<Rightarrow> None))"

text \<open>A new journey gets its row, and its id, when it is flushed.\<close>

definition store_target :: "target \<Rightarrow> library \<Rightarrow> row_id \<times> library" where
  "store_target t lib =
     (case t of
        Stored d \<Rightarrow> (dr_id d, lib)
      | Fresh d \<Rightarrow>
          (let i = next_id dr_id (lb_drives lib)
           in (i, lib\<lparr>lb_drives := lb_drives lib @ [d\<lparr>dr_id := i\<rparr>]\<rparr>)))"

definition publish_refresh ::
  "usec \<Rightarrow> library \<Rightarrow> target \<Rightarrow> bool \<Rightarrow> refresh_plan \<Rightarrow> refresh_conflict + (row_id \<times> library)" where
  "publish_refresh now lib t guarded plan =
     (case plan_conflict lib t guarded plan of
        Some e \<Rightarrow> Inl e
      | None \<Rightarrow>
          (let (i, lib1) = store_target t lib
           in Inr (i, attach (List.map cl_id (rn_expected plan)) (Some i) (write_projection now i plan lib1))))"

text \<open>
  \<^verbatim>\<open>refresh\<close>: the plan is made on \<open>lib\<close> and published on \<open>later\<close>, what other writers have
  made of it. A conflict rolls back, which leaves theirs.
\<close>

definition refresh ::
  "usec \<Rightarrow> journey_settings \<Rightarrow> target \<Rightarrow> clip option \<Rightarrow> library \<Rightarrow> library \<Rightarrow> refresh_conflict + (row_id \<times> library)" where
  "refresh now cfg t pending lib later =
     (case prepare_refresh lib cfg t pending None of
        Inl e \<Rightarrow> Inl e
      | Inr plan \<Rightarrow> publish_refresh now later t False plan)"

end
