(* ===== verification/JourneyBuild.thy ===== *)
theory JourneyBuild
  imports JourneyRefresh
begin

section \<open>Rebuilding the journeys\<close>

text \<open>
  Models the operations of \<^verbatim>\<open>JourneyBuilder\<close> in \<^verbatim>\<open>backend/app/journeys/builder.py\<close>:
  the rebuild of the whole library cluster by cluster, each in a transaction of its own and
  with other writers in between, the question whether a rebuild would change anything, the
  assignment of one finished recording, and the manual merge and split. The lock of one event
  loop makes rebuilds serial. What other writers commit is a function from library to library;
  the last phase of a rebuild, which settles the journeys it took recordings from, is taken
  without other writers between its steps.
\<close>

subsection \<open>Start positions\<close>

definition ID_CHUNK :: nat where "ID_CHUNK = 900"

definition earliest_fix :: "library \<Rightarrow> row_id \<Rightarrow> real option \<times> real option" where
  "earliest_fix lib i =
     (case first_fix i (located (filter tl_has_fix (lb_points lib))) of
        None \<Rightarrow> (None, None)
      | Some p \<Rightarrow> (tl_lat p, tl_lon p))"

definition refresh_start_positions :: "row_id list \<Rightarrow> library \<Rightarrow> library" where
  "refresh_start_positions ids lib =
     lib\<lparr>lb_clips := update_where (\<lambda>c. cl_id c \<in> set ids)
           (\<lambda>c. let (lat, lon) = earliest_fix lib (cl_id c)
                in if (cl_start_lat c, cl_start_lon c) \<noteq> (lat, lon)
                   then c\<lparr>cl_start_lat := lat, cl_start_lon := lon\<rparr> else c)
           (lb_clips lib)\<rparr>"

definition eligible :: "usec option \<Rightarrow> library \<Rightarrow> clip list" where
  "eligible since lib =
     sort_key (\<lambda>c. (clip_start c, cl_id c))
       (filter (\<lambda>c. cl_started_at c \<noteq> None \<and> \<not> cl_ignored c \<and> journey_ready c \<and>
                  (case since of None \<Rightarrow> True | Some t \<Rightarrow> t \<le> clip_start c)) (lb_clips lib))"

text \<open>\<^verbatim>\<open>repair_start_positions\<close>, in pages of ids.\<close>

definition repair_start_positions :: "library \<Rightarrow> library" where
  "repair_start_positions lib =
     fold refresh_start_positions
       (batches ID_CHUNK (List.map cl_id (filter (\<lambda>c. cl_started_at c \<noteq> None \<and> \<not> cl_ignored c \<and> journey_ready c)
                                           (lb_clips lib)))) lib"

subsection \<open>Planning\<close>

definition manual_ids :: "library \<Rightarrow> row_id list" where
  "manual_ids lib = List.map dr_id (filter dr_manual (lb_drives lib))"

definition in_manual :: "library \<Rightarrow> clip \<Rightarrow> bool" where
  "in_manual lib c = (case cl_journey_id c of None \<Rightarrow> False | Some j \<Rightarrow> j \<in> set (manual_ids lib))"

definition movable :: "usec option \<Rightarrow> library \<Rightarrow> clip list" where
  "movable since lib = filter (\<lambda>c. \<not> in_manual lib c) (eligible since lib)"

definition intentional_gaps :: "library \<Rightarrow> clip list \<Rightarrow> gap_barriers" where
  "intentional_gaps lib clips =
     (let timed = filter (\<lambda>c. cl_started_at c \<noteq> None) clips in
      case (min_list_opt (List.map clip_start timed), max_list_opt (List.map clip_end timed)) of
        (Some a, Some b) \<Rightarrow> barriers_of (intentional_intervals (lb_omissions lib) a b)
      | _ \<Rightarrow> no_barriers)"

definition plan_clusters :: "journey_settings \<Rightarrow> library \<Rightarrow> clip list \<Rightarrow> clip list list" where
  "plan_clusters cfg lib clips = cluster cfg (intentional_gaps lib clips) clips"

subsection \<open>Would a rebuild change anything?\<close>

fun grouping_differs :: "nat \<Rightarrow> row_id list \<Rightarrow> clip list list \<Rightarrow> bool" where
  "grouping_differs n claimed [] = False"
| "grouping_differs n claimed (cs # css) =
     (let ids = remdups (List.map cl_journey_id cs) in
      if length cs < n then (if ids \<noteq> [None] then True else grouping_differs n claimed css)
      else case ids of
        [Some j] \<Rightarrow> if j \<in> set claimed then True else grouping_differs n (j # claimed) css
      | _ \<Rightarrow> True)"

definition needs_recluster :: "journey_settings \<Rightarrow> library \<Rightarrow> bool" where
  "needs_recluster cfg lib =
     (let clips = movable None lib
      in if clips = [] then False
         else grouping_differs (js_min_recordings cfg) [] (plan_clusters cfg lib clips))"

subsection \<open>One cluster\<close>

record rebuild_state =
  rb_lib :: library
  rb_used :: "row_id list"
  rb_sources :: "row_id list"
  rb_deferred :: "row_id list"
  rb_count :: nat

definition journeys_of :: "clip list \<Rightarrow> row_id list" where
  "journeys_of cs = List.map_filter cl_journey_id cs"

text \<open>The last cluster that holds recordings of a journey now.\<close>

definition last_cluster :: "clip list list \<Rightarrow> row_id \<Rightarrow> nat option" where
  "last_cluster clusters j =
     List.find (\<lambda>n. j \<in> set (journeys_of (clusters ! n))) (rev [0..<length clusters])"

text \<open>What the plan expects of a row.\<close>

definition plan_key :: "clip \<Rightarrow> row_id option \<times> usec option \<times> usec option \<times> real option \<times> real option" where
  "plan_key c = (cl_journey_id c, cl_started_at c, cl_ended_at c, cl_start_lat c, cl_start_lon c)"

definition still_movable :: "library \<Rightarrow> row_id list \<Rightarrow> clip list" where
  "still_movable lib ids =
     filter (\<lambda>c. cl_id c \<in> set ids \<and> \<not> cl_ignored c \<and> journey_ready c \<and> \<not> in_manual lib c) (lb_clips lib)"

definition unchanged_rows :: "clip list \<Rightarrow> clip list \<Rightarrow> bool" where
  "unchanged_rows planned current \<longleftrightarrow>
     length current = length planned \<and>
     list_all (\<lambda>c. list_ex (\<lambda>p. cl_id p = cl_id c \<and> plan_key p = plan_key c) planned) current"

definition outside_member :: "usec option \<Rightarrow> library \<Rightarrow> row_id list \<Rightarrow> bool" where
  "outside_member since lib js =
     (case since of
        None \<Rightarrow> False
      | Some t \<Rightarrow>
          list_ex (\<lambda>c. (case cl_journey_id c of Some j \<Rightarrow> j \<in> set js | None \<Rightarrow> False) \<and>
             cl_started_at c \<noteq> None \<and> clip_start c < t \<and> \<not> cl_ignored c \<and> journey_ready c) (lb_clips lib))"

definition reusable :: "library \<Rightarrow> row_id list \<Rightarrow> row_id list \<Rightarrow> (row_id \<Rightarrow> nat option) \<Rightarrow> nat \<Rightarrow> row_id list \<Rightarrow> drive option" where
  "reusable lib old used final n ids =
     List.find (\<lambda>d. dr_id d \<notin> set used \<and> final (dr_id d) = Some n \<and> set (member_ids (dr_id d) lib) \<subseteq> set ids)
       (sort_key (\<lambda>d. (dr_title d = None, dr_id d))
          (filter (\<lambda>d. dr_id d \<in> set old \<and> \<not> dr_manual d) (lb_drives lib)))"

definition cluster_drive :: "usec \<Rightarrow> clip list \<Rightarrow> drive" where
  "cluster_drive now cs =
     new_drive now
       (case min_list_opt (List.map clip_start cs) of Some t \<Rightarrow> t | None \<Rightarrow> 0)
       (case max_list_opt (List.map clip_end cs) of Some t \<Rightarrow> t | None \<Rightarrow> 0)"

definition put_off :: "clip list \<Rightarrow> library \<Rightarrow> rebuild_state \<Rightarrow> rebuild_state" where
  "put_off cs lib st = st\<lparr>rb_lib := lib, rb_deferred := rb_deferred st @ journeys_of cs\<rparr>"

text \<open>
  \<open>before\<close> is what others commit before the cluster is planned, \<open>between\<close> what they commit while
  its plan is derived.
\<close>

definition rebuild_cluster ::
  "usec \<Rightarrow> journey_settings \<Rightarrow> usec option \<Rightarrow> (row_id \<Rightarrow> nat option) \<Rightarrow>
   (library \<Rightarrow> library) \<times> (library \<Rightarrow> library) \<Rightarrow> nat \<times> clip list \<Rightarrow> rebuild_state \<Rightarrow> rebuild_state" where
  "rebuild_cluster now cfg since final others planned st =
     (let (n, cs) = planned; (before, between) = others;
          ids = List.map cl_id cs;
          lib = before (rb_lib st)
      in case prepare_refresh lib cfg (Fresh (cluster_drive now cs)) None (Some ids) of
           Inl e \<Rightarrow> put_off cs lib st
         | Inr plan \<Rightarrow>
             (let lib = between lib; current = still_movable lib ids in
              if \<not> unchanged_rows cs current then put_off cs lib st
              else
                (let old = journeys_of current; st1 = st\<lparr>rb_sources := rb_sources st @ old\<rparr> in
                 if length current < js_min_recordings cfg then
                   if outside_member since lib old
                   then st1\<lparr>rb_lib := lib, rb_deferred := rb_deferred st @ old\<rparr>
                   else st1\<lparr>rb_lib := attach ids None lib\<rparr>
                 else
                   (let t = (case reusable lib old (rb_used st) final n ids of
                               Some d \<Rightarrow> Stored d | None \<Rightarrow> Fresh (cluster_drive now cs))
                    in case publish_refresh now lib t True plan of
                         Inl e \<Rightarrow> put_off cs lib st1
                       | Inr (j, lib') \<Rightarrow>
                           st1\<lparr>rb_lib := lib', rb_used := rb_used st @ [j], rb_count := rb_count st + 1\<rparr>))))"

subsection \<open>The journeys recordings were taken from\<close>

definition referenced :: "library \<Rightarrow> row_id \<Rightarrow> bool" where
  "referenced lib j \<longleftrightarrow>
     list_ex (\<lambda>c. cl_journey_id c = Some j) (lb_clips lib) \<or>
     list_ex (\<lambda>p. tl_journey_id p = Some j) (lb_points lib) \<or>
     list_ex (\<lambda>s. sg_journey_id s = Some j) (lb_tracks lib) \<or>
     list_ex (\<lambda>s. sg_journey_id s = Some j) (lb_plates lib)"

definition finish_source :: "usec \<Rightarrow> journey_settings \<Rightarrow> usec option \<Rightarrow> row_id \<Rightarrow> library \<Rightarrow> library" where
  "finish_source now cfg since j lib =
     (case get_row dr_id j (lb_drives lib) of
        None \<Rightarrow> lib
      | Some d \<Rightarrow>
          if dr_manual d then lib
          else if member_ids j lib \<noteq> [] then
            if outside_member since lib [j] then lib
            else (case refresh now cfg (Stored d) None lib lib of Inl e \<Rightarrow> lib | Inr (_, lib') \<Rightarrow> lib')
          else if dr_title d = None \<and> \<not> referenced lib j
          then lib\<lparr>lb_drives := filter (\<lambda>x. dr_id x \<noteq> j) (lb_drives lib)\<rparr>
          else lib)"

subsection \<open>The rebuild\<close>

type_synonym interference = "nat \<Rightarrow> (library \<Rightarrow> library) \<times> (library \<Rightarrow> library)"

definition prepare_positions :: "usec option \<Rightarrow> library \<Rightarrow> library" where
  "prepare_positions since lib =
     fold refresh_start_positions (batches ID_CHUNK (List.map cl_id (movable since lib))) lib"

definition planned_rows :: "usec option \<Rightarrow> library \<Rightarrow> clip list" where
  "planned_rows since lib =
     List.map_filter (\<lambda>c. get_row cl_id (cl_id c) (lb_clips (prepare_positions since lib))) (movable since lib)"

definition run_clusters ::
  "usec \<Rightarrow> journey_settings \<Rightarrow> usec option \<Rightarrow> interference \<Rightarrow> clip list list \<Rightarrow> library \<Rightarrow> rebuild_state" where
  "run_clusters now cfg since others clusters lib =
     fold (\<lambda>(n, cs). rebuild_cluster now cfg since (last_cluster clusters) (others n) (n, cs))
       (List.enumerate 0 clusters)
       \<lparr>rb_lib = lib, rb_used = [], rb_sources = [], rb_deferred = [], rb_count = 0\<rparr>"

definition rebuild :: "usec \<Rightarrow> journey_settings \<Rightarrow> usec option \<Rightarrow> interference \<Rightarrow> library \<Rightarrow> nat \<times> library" where
  "rebuild now cfg since others lib =
     (if \<not> js_enabled cfg \<or> eligible since lib = [] then (0, lib)
      else
        (let lib1 = prepare_positions since lib;
             st = run_clusters now cfg since others (plan_clusters cfg lib1 (planned_rows since lib)) lib1;
             donors = sort (remdups (filter (\<lambda>j. j \<notin> set (rb_used st) \<and> j \<notin> set (rb_deferred st)) (rb_sources st)))
         in (rb_count st, fold (finish_source now cfg since) donors (rb_lib st))))"

subsection \<open>Repairing stale rollups\<close>

definition IMPLAUSIBLE_M_PER_S :: real where "IMPLAUSIBLE_M_PER_S = 200 * 1000 / 3600"

definition never_computed :: "drive \<Rightarrow> bool" where
  "never_computed d \<longleftrightarrow>
     dr_has_gps d \<and> dr_distance_m d = None \<and>
     (case dr_motion d of None \<Rightarrow> True | Some m \<Rightarrow> me_status (dm_evidence m) = Moving)"

definition impossible_distance :: "drive \<Rightarrow> bool" where
  "impossible_distance d \<longleftrightarrow>
     (case dr_distance_m d of
        None \<Rightarrow> False
      | Some m \<Rightarrow> 0 < dr_duration_s d \<and> IMPLAUSIBLE_M_PER_S < m / dr_duration_s d)"

definition stale_drives :: "nat \<Rightarrow> library \<Rightarrow> drive list" where
  "stale_drives limit lib =
     take limit (sort_key (\<lambda>d. - dr_started_at d)
       (filter (\<lambda>d. never_computed d \<or> impossible_distance d) (lb_drives lib)))"

text \<open>Each refresh commits on its own; a conflict is raised and ends the pass.\<close>

fun repair_each ::
  "usec \<Rightarrow> journey_settings \<Rightarrow> interference \<Rightarrow> nat \<Rightarrow> drive list \<Rightarrow> library \<Rightarrow> refresh_conflict option \<times> library" where
  "repair_each now cfg others n [] lib = (None, lib)"
| "repair_each now cfg others n (d # ds) lib =
     (let (before, between) = others n; lib1 = before lib; lib2 = between lib1 in
      case refresh now cfg (Stored d) None lib1 lib2 of
        Inl e \<Rightarrow> (Some e, lib2)
      | Inr (_, lib') \<Rightarrow> repair_each now cfg others (Suc n) ds lib')"

definition repair_stale ::
  "usec \<Rightarrow> journey_settings \<Rightarrow> nat \<Rightarrow> interference \<Rightarrow> library \<Rightarrow> (refresh_conflict + nat) \<times> library" where
  "repair_stale now cfg limit others lib =
     (let stale = stale_drives limit lib; (failed, lib') = repair_each now cfg others 0 stale lib
      in (case failed of Some e \<Rightarrow> Inl e | None \<Rightarrow> Inr (length stale), lib'))"

subsection \<open>One finished recording\<close>

text \<open>
  Among the journeys near it in time, the latest first: a manual one takes it as it is, one
  without an audited omission near takes it, otherwise the clusters decide.
\<close>

definition takes :: "journey_settings \<Rightarrow> library \<Rightarrow> clip \<Rightarrow> drive \<Rightarrow> bool" where
  "takes cfg lib c d =
     (if dr_manual d then True
      else
        (let lo = min (dr_started_at d) (clip_start c); hi = max (dr_ended_at d) (clip_end c);
             gaps = barriers_of (intentional_intervals (lb_omissions lib) lo hi)
         in if gb_starts gaps = [] then True
            else
              (let members = filter (\<lambda>x. is_member (dr_id d) x \<and> cl_id x \<noteq> cl_id c \<and> cl_started_at x \<noteq> None)
                     (lb_clips lib);
                   combined = sort_key (\<lambda>x. (clip_start x, cl_id x)) (members @ [c])
               in list_ex (\<lambda>cs. c \<in> set cs \<and> list_ex (\<lambda>m. m \<in> set cs) members)
                    (cluster cfg gaps combined))))"

definition assign_recording ::
  "usec \<Rightarrow> journey_settings \<Rightarrow> clip \<Rightarrow> library \<Rightarrow> library \<Rightarrow> (refresh_conflict + (row_id \<times> library)) option" where
  "assign_recording now cfg c lib later =
     (if \<not> js_enabled cfg \<or> cl_started_at c = None then None
      else
        (let near = sort_key (\<lambda>d. - dr_started_at d)
               (filter (\<lambda>d. dr_started_at d \<le> clip_start c + js_gap cfg \<and> clip_start c - js_gap cfg \<le> dr_ended_at d)
                  (lb_drives lib));
             t = (case List.find (takes cfg lib c) near of
                    Some d \<Rightarrow> Stored d
                  | None \<Rightarrow> Fresh (new_drive now (clip_start c) (clip_end c)))
         in Some (refresh now cfg t (Some c) lib later)))"

subsection \<open>Manual edits\<close>

definition drop_drives :: "row_id list \<Rightarrow> library \<Rightarrow> library" where
  "drop_drives js lib =
     (let gone = (\<lambda>j. case j of None \<Rightarrow> None | Some i \<Rightarrow> if i \<in> set js then None else Some i) in
      lib\<lparr>lb_drives := filter (\<lambda>d. dr_id d \<notin> set js) (lb_drives lib),
          lb_clips := List.map (\<lambda>c. c\<lparr>cl_journey_id := gone (cl_journey_id c)\<rparr>) (lb_clips lib),
          lb_points := List.map (\<lambda>p. p\<lparr>tl_journey_id := gone (tl_journey_id p)\<rparr>) (lb_points lib),
          lb_tracks := List.map (\<lambda>s. s\<lparr>sg_journey_id := gone (sg_journey_id s)\<rparr>) (lb_tracks lib),
          lb_plates := List.map (\<lambda>s. s\<lparr>sg_journey_id := gone (sg_journey_id s)\<rparr>) (lb_plates lib)\<rparr>)"

definition drop_empty :: "library \<Rightarrow> nat \<times> library" where
  "drop_empty lib =
     (let orphans = List.map dr_id (filter (\<lambda>d. \<not> list_ex (\<lambda>c. cl_journey_id c = Some (dr_id d)) (lb_clips lib)) (lb_drives lib))
      in (length orphans, drop_drives orphans lib))"

definition move_clips :: "(clip \<Rightarrow> bool) \<Rightarrow> row_id \<Rightarrow> library \<Rightarrow> library" where
  "move_clips P j lib = lib\<lparr>lb_clips := update_where P (\<lambda>c. c\<lparr>cl_journey_id := Some j\<rparr>) (lb_clips lib)\<rparr>"

definition mark_manual :: "usec \<Rightarrow> row_id \<Rightarrow> library \<Rightarrow> library" where
  "mark_manual now j lib =
     lib\<lparr>lb_drives := update_row dr_id j
           (\<lambda>d. if dr_manual d then d else d\<lparr>dr_manual := True, dr_updated_at := now\<rparr>) (lb_drives lib)\<rparr>"

definition refresh_stored :: "usec \<Rightarrow> journey_settings \<Rightarrow> row_id \<Rightarrow> library \<Rightarrow> library" where
  "refresh_stored now cfg j lib =
     (case get_row dr_id j (lb_drives lib) of
        None \<Rightarrow> lib
      | Some d \<Rightarrow> (case refresh now cfg (Stored d) None lib lib of Inl e \<Rightarrow> lib | Inr (_, lib') \<Rightarrow> lib'))"

definition merge_journeys :: "usec \<Rightarrow> journey_settings \<Rightarrow> row_id list \<Rightarrow> library \<Rightarrow> (row_id \<times> library) option" where
  "merge_journeys now cfg js lib =
     (if length js < 2 then None
      else case sort_key dr_started_at (filter (\<lambda>d. dr_id d \<in> set js) (lb_drives lib)) of
        target # d # ds \<Rightarrow>
          (let rest = List.map dr_id (d # ds); i = dr_id target;
               lib1 = move_clips (\<lambda>c. case cl_journey_id c of Some j \<Rightarrow> j \<in> set rest | None \<Rightarrow> False) i lib;
               lib2 = mark_manual now i (drop_drives rest lib1)
           in Some (i, refresh_stored now cfg i lib2))
      | _ \<Rightarrow> None)"

definition split_journey ::
  "usec \<Rightarrow> journey_settings \<Rightarrow> row_id \<Rightarrow> row_id \<Rightarrow> library \<Rightarrow> (row_id \<times> row_id \<times> library) option" where
  "split_journey now cfg j first lib =
     (case get_row dr_id j (lb_drives lib) of
        None \<Rightarrow> None
      | Some d \<Rightarrow>
          (let clips = sort_key clip_order (filter (\<lambda>c. cl_journey_id c = Some j) (lb_clips lib));
               tail = dropWhile (\<lambda>c. cl_id c \<noteq> first) clips
           in if tail = [] \<or> length tail = length clips then None
              else
                (let k = next_id dr_id (lb_drives lib);
                     fresh = (new_drive now (clip_start (hd tail)) (fold max (List.map clip_end tail) (clip_end (hd tail))))
                               \<lparr>dr_id := k, dr_manual := True\<rparr>;
                     lib1 = lib\<lparr>lb_drives := lb_drives lib @ [fresh]\<rparr>;
                     lib2 = mark_manual now j
                              (move_clips (\<lambda>c. cl_id c \<in> set (List.map cl_id tail)) k lib1)
                 in Some (j, k, refresh_stored now cfg k (refresh_stored now cfg j lib2)))))"

end
