(* ===== verification/JourneyProps.thy ===== *)
theory JourneyProps
  imports JourneyBuild
begin

section \<open>A rebuild settles the grouping\<close>

text \<open>
  One relation carries the proofs: \<open>regroups\<close> says that an operation gave some recordings a
  journey and left everything that decides the clusters as it was. Publishing a plan, detaching
  a cluster and settling a donor all regroup; so an undisturbed rebuild stores exactly the
  grouping that the clusters call for, and asking again finds nothing to do. With the GPS rule
  this fails: publishing may move the start position that the clusters were made from.
\<close>

subsection \<open>What decides the clusters\<close>

definition ident :: "clip \<Rightarrow> row_id \<times> usec option \<times> usec option \<times> bool \<times> string option list" where
  "ident c = (cl_id c, cl_started_at c, cl_ended_at c, cl_ignored c, cl_revisions c)"

lemma ident_sel:
  assumes "ident c = ident d"
  shows "cl_id c = cl_id d" "cl_started_at c = cl_started_at d" "cl_ended_at c = cl_ended_at d"
    "cl_ignored c = cl_ignored d" "cl_revisions c = cl_revisions d"
    "journey_ready c = journey_ready d" "end_or_start c = end_or_start d" "clip_end c = clip_end d"
    "clip_start c = clip_start d"
  using assms
  by (simp_all add: ident_def journey_ready_def end_or_start_def clip_end_def clip_start_def cong: option.case_cong)

definition keeps_ident :: "(clip \<Rightarrow> clip) \<Rightarrow> clip list \<Rightarrow> bool" where
  "keeps_ident h cs \<longleftrightarrow> (\<forall>c \<in> set cs. ident (h c) = ident c)"

lemma sort_key_map: "sort_key f (List.map g xs) = List.map g (sort_key (\<lambda>x. f (g x)) xs)"
proof -
  have "insort_key f (g x) (List.map g ys) = List.map g (insort_key (\<lambda>x. f (g x)) x ys)" for x ys
    by (induction ys) auto
  then show ?thesis by (induction xs) auto
qed

lemma sort_key_cong: "(\<And>x. x \<in> set xs \<Longrightarrow> f x = g x) \<Longrightarrow> sort_key f xs = sort_key g xs"
proof (induction xs)
  case (Cons x xs)
  have "insort_key f x ys = insort_key g x ys" if "set ys \<subseteq> set (x # xs)" for ys
    using that Cons.prems by (induction ys) auto
  moreover have "sort_key f xs = sort_key g xs" using Cons by simp
  ultimately show ?case by (metis set_sort set_subset_Cons sort_key_simps(2))
qed simp

lemma eligible_map:
  assumes "lb_clips lib' = List.map h (lb_clips lib)" and "keeps_ident h (lb_clips lib)"
  shows "eligible since lib' = List.map h (eligible since lib)"
proof -
  let ?P = "\<lambda>c. cl_started_at c \<noteq> None \<and> \<not> cl_ignored c \<and> journey_ready c \<and>
      (case since of None \<Rightarrow> True | Some t \<Rightarrow> t \<le> clip_start c)"
  have id: "ident (h c) = ident c" if "c \<in> set (lb_clips lib)" for c using assms(2) that by (simp add: keeps_ident_def)
  note same = ident_sel [OF id]
  have "filter ?P (List.map h (lb_clips lib)) = List.map h (filter ?P (lb_clips lib))"
    unfolding filter_map by (intro arg_cong [of _ _ "List.map h"] filter_cong) (simp_all add: same cong: option.case_cong)
  moreover have "sort_key (\<lambda>c. (clip_start (h c), cl_id (h c))) (filter ?P (lb_clips lib)) =
      sort_key (\<lambda>c. (clip_start c, cl_id c)) (filter ?P (lb_clips lib))"
    by (intro sort_key_cong) (simp add: same)
  ultimately show ?thesis by (simp add: eligible_def assms(1) sort_key_map)
qed

lemma eligible_set: "set (eligible since lib) \<subseteq> set (lb_clips lib)"
  by (auto simp: eligible_def)

lemma same_journey_cong:
  assumes "\<not> js_use_gps cfg" and "ident a' = ident a" and "ident b' = ident b"
  shows "same_journey cfg gaps a' b' = same_journey cfg gaps a b"
  using assms ident_sel [OF assms(2)] ident_sel [OF assms(3)]
  by (simp add: same_journey_def jumped_def cong: option.case_cong)

lemma cluster_from_map:
  assumes "\<not> js_use_gps cfg" and "ident (h p) = ident p" and "keeps_ident h cs"
  shows "cluster_from cfg gaps (h p) (List.map h current) (List.map h cs) =
    List.map (List.map h) (cluster_from cfg gaps p current cs)"
  using assms(2,3)
proof (induction cs arbitrary: p current)
  case (Cons c cs)
  have c: "ident (h c) = ident c" "keeps_ident h cs" using Cons.prems by (simp_all add: keeps_ident_def)
  have "same_journey cfg gaps (h p) (h c) = same_journey cfg gaps p c"
    using same_journey_cong [OF assms(1) Cons.prems(1) c(1)] .
  moreover have "later_ending (h c) (h p) = h (later_ending c p)"
    using ident_sel(8) [OF c(1)] ident_sel(8) [OF Cons.prems(1)] by (simp add: later_ending_def)
  moreover have "ident (h (later_ending c p)) = ident (later_ending c p)"
    using c(1) Cons.prems(1) by (simp add: later_ending_def)
  ultimately show ?case
    using Cons.IH [of "later_ending c p" "current @ [c]"] Cons.IH [of "later_ending c p" "[c]"] c(2) by simp
qed simp

lemma cluster_map:
  assumes "\<not> js_use_gps cfg" and "keeps_ident h cs"
  shows "cluster cfg gaps (List.map h cs) = List.map (List.map h) (cluster cfg gaps cs)"
proof (cases cs)
  case (Cons c cs')
  with assms show ?thesis
    using cluster_from_map [of cfg h c cs' gaps "[c]"] by (simp add: keeps_ident_def)
qed simp

lemma intentional_gaps_map:
  assumes "keeps_ident h cs" and "lb_omissions lib' = lb_omissions lib"
  shows "intentional_gaps lib' (List.map h cs) = intentional_gaps lib cs"
proof -
  let ?P = "\<lambda>c. cl_started_at c \<noteq> None"
  have "ident (h c) = ident c" if "c \<in> set cs" for c using assms(1) that by (simp add: keeps_ident_def)
  note same = ident_sel [OF this]
  have "filter ?P (List.map h cs) = List.map h (filter ?P cs)"
    unfolding filter_map by (intro arg_cong [of _ _ "List.map h"] filter_cong) (simp_all add: same)
  moreover have "List.map clip_start (List.map h (filter ?P cs)) = List.map clip_start (filter ?P cs)"
    "List.map clip_end (List.map h (filter ?P cs)) = List.map clip_end (filter ?P cs)"
    by (simp_all add: same)
  ultimately show ?thesis unfolding intentional_gaps_def Let_def assms(2) by (simp only:)
qed

subsection \<open>Publishing regroups\<close>

definition regroups :: "row_id set \<Rightarrow> row_id option \<Rightarrow> library \<Rightarrow> library \<Rightarrow> bool" where
  "regroups ids j lib lib' \<longleftrightarrow>
     (\<exists>h. lb_clips lib' = List.map h (lb_clips lib) \<and> keeps_ident h (lb_clips lib) \<and>
        (\<forall>c \<in> set (lb_clips lib). if cl_id c \<in> ids then cl_journey_id (h c) = j else h c = c)) \<and>
     lb_omissions lib' = lb_omissions lib"

lemma attach_regroups: "regroups (set ids) j lib (attach ids j lib)"
  unfolding regroups_def
  by (intro conjI exI [of _ "\<lambda>c. if cl_id c \<in> set ids then c\<lparr>cl_journey_id := j\<rparr> else c"])
    (auto simp: attach_def update_where_def keeps_ident_def ident_def)

lemma project_clip_ident [simp]: "ident (project_clip bad good c) = ident c"
  by (simp add: project_clip_def ident_def Let_def)

lemma derive_clips:
  "\<exists>bad good. rf_clips (derive_refresh lib cfg d cs) = List.map (project_clip bad good) cs"
  by (cases "cs = []") (auto simp: derive_refresh_def Let_def split: prod.split)

lemma prepare_plan:
  assumes "prepare_refresh lib cfg t None chosen = Inr plan"
  shows "\<exists>bad good. rf_clips (rn_projection plan) = List.map (project_clip bad good) (sort_key clip_order (rn_expected plan))"
    and "chosen = Some ids \<Longrightarrow> rn_expected plan = clip_snapshot lib ids"
    and "chosen = Some ids \<Longrightarrow> rn_members plan = None"
    and "chosen = None \<Longrightarrow> t = Stored d \<Longrightarrow> rn_expected plan = clip_snapshot lib (member_ids (dr_id d) lib)"
  using assms derive_clips
  by (auto simp: prepare_refresh_def Let_def split: sum.splits if_splits option.splits)

lemma write_projection_clips:
  assumes "keyed cl_id (lb_clips lib)" and "set (rn_expected plan) \<subseteq> set (lb_clips lib)"
    and "rf_clips (rn_projection plan) = List.map (project_clip bad good) (sort_key clip_order (rn_expected plan))"
  shows "\<exists>h. lb_clips (write_projection now i plan lib) = List.map h (lb_clips lib) \<and> keeps_ident h (lb_clips lib) \<and>
    (\<forall>c \<in> set (lb_clips lib). cl_id c \<notin> cl_id ` set (rn_expected plan) \<longrightarrow> h c = c)"
proof -
  let ?find = "\<lambda>c. List.find (\<lambda>x. cl_id x = cl_id c) (rf_clips (rn_projection plan))"
  let ?h = "\<lambda>c. case ?find c of Some x \<Rightarrow> x | None \<Rightarrow> c"
  have mem: "set (rf_clips (rn_projection plan)) = project_clip bad good ` set (rn_expected plan)"
    using assms(3) by simp
  have "ident (?h c) = ident c" if c: "c \<in> set (lb_clips lib)" for c
  proof (cases "?find c")
    case (Some x)
    from find_SomeD [OF this] mem obtain y where y: "x = project_clip bad good y" "y \<in> set (rn_expected plan)"
      "cl_id x = cl_id c" by auto
    then have "cl_id y = cl_id c" using project_clip_ident [of bad good y] ident_sel(1) by metis
    then have "y = c" using keyed_inj [OF assms(1)] y(2) assms(2) c by blast
    with Some y show ?thesis by simp
  qed simp
  moreover have "?h c = c" if "cl_id c \<notin> cl_id ` set (rn_expected plan)" for c
  proof (cases "?find c")
    case (Some x)
    from find_SomeD [OF this] mem obtain y where "x = project_clip bad good y" "y \<in> set (rn_expected plan)"
      "cl_id x = cl_id c" by auto
    then show ?thesis using that project_clip_ident [of bad good y] ident_sel(1) by (metis image_eqI)
  qed simp
  moreover have "lb_clips (write_projection now i plan lib) = List.map ?h (lb_clips lib)"
    by (simp add: write_projection_def Let_def)
  ultimately show ?thesis unfolding keeps_ident_def by (intro exI [of _ ?h]) blast
qed

lemma regroups_compose:
  assumes "lb_clips lib1 = List.map h (lb_clips lib)" "keeps_ident h (lb_clips lib)" "lb_omissions lib1 = lb_omissions lib"
    and "\<forall>c \<in> set (lb_clips lib). cl_id c \<notin> ids \<longrightarrow> h c = c" and "regroups ids j lib1 lib'"
  shows "regroups ids j lib lib'"
proof -
  obtain g where g: "lb_clips lib' = List.map g (lb_clips lib1)" "keeps_ident g (lb_clips lib1)"
    "\<forall>c \<in> set (lb_clips lib1). if cl_id c \<in> ids then cl_journey_id (g c) = j else g c = c"
    "lb_omissions lib' = lb_omissions lib1" using assms(5) by (auto simp: regroups_def)
  have "ident (g (h c)) = ident c \<and> (if cl_id c \<in> ids then cl_journey_id (g (h c)) = j else g (h c) = c)"
    if c: "c \<in> set (lb_clips lib)" for c
  proof -
    have h: "h c \<in> set (lb_clips lib1)" "ident (h c) = ident c" using assms(1,2) c by (simp_all add: keeps_ident_def)
    with g(2,3) assms(4) c ident_sel(1) [OF h(2)] show ?thesis by (auto simp: keeps_ident_def)
  qed
  then show ?thesis
    using g(1,4) assms(1,3) unfolding regroups_def keeps_ident_def
    by (intro conjI exI [of _ "\<lambda>c. g (h c)"]) auto
qed

lemma publish_regroups:
  assumes key: "keyed cl_id (lb_clips lib)" and plan: "prepare_refresh lib0 cfg t None chosen = Inr plan"
    and out: "publish_refresh now lib t' g plan = Inr (i, lib')"
  shows "regroups (cl_id ` set (rn_expected plan)) (Some i) lib lib'"
proof -
  define lib1 where "lib1 = snd (store_target t' lib)"
  have lib1: "lb_clips lib1 = lb_clips lib" "lb_omissions lib1 = lb_omissions lib"
    by (simp_all add: lib1_def store_target_def Let_def split: target.split)
  have fst: "lib' = attach (List.map cl_id (rn_expected plan)) (Some i) (write_projection now i plan lib1)"
    and ok: "plan_conflict lib t' g plan = None"
    using out by (auto simp: publish_refresh_def lib1_def split: option.splits prod.splits)
  have snap: "clip_snapshot lib (List.map cl_id (rn_expected plan)) = rn_expected plan"
    using ok by (auto simp: plan_conflict_def Let_def split: if_splits)
  have "set (rn_expected plan) \<subseteq> set (lb_clips lib1)"
    unfolding lib1(1) by (subst snap [symmetric]) (auto simp: clip_snapshot_def)
  moreover obtain bad good where
    "rf_clips (rn_projection plan) = List.map (project_clip bad good) (sort_key clip_order (rn_expected plan))"
    using prepare_plan(1) [OF plan] by blast
  ultimately obtain h where h: "lb_clips (write_projection now i plan lib1) = List.map h (lb_clips lib)"
    "keeps_ident h (lb_clips lib)" "\<forall>c \<in> set (lb_clips lib). cl_id c \<notin> cl_id ` set (rn_expected plan) \<longrightarrow> h c = c"
    using write_projection_clips [of lib1 plan bad good now i] key lib1(1) by auto
  have "lb_omissions (write_projection now i plan lib1) = lb_omissions lib"
    using lib1(2) by (simp add: write_projection_def Let_def)
  from regroups_compose [OF h(1,2) this] h(3) attach_regroups [of "List.map cl_id (rn_expected plan)" "Some i"]
  show ?thesis unfolding fst by (metis (no_types, lifting) image_set)
qed

subsection \<open>Journeys are kept apart\<close>

lemma update_row_manual:
  assumes "\<And>d. dr_id (f d) = dr_id d" and "\<And>d. dr_manual (f d) = dr_manual d"
  shows "List.map dr_id (filter dr_manual (update_row dr_id i f ds)) = List.map dr_id (filter dr_manual ds)"
  using assms by (induction ds) (auto simp: update_row_def update_where_def)

lemma publish_drive_sel [simp]:
  "dr_id (publish_drive now shadow row) = dr_id row" "dr_manual (publish_drive now shadow row) = dr_manual row"
  by (auto simp: publish_drive_def Let_def)

lemma write_projection_drives:
  "List.map dr_id (lb_drives (write_projection now i plan lib)) = List.map dr_id (lb_drives lib)"
  "manual_ids (write_projection now i plan lib) = manual_ids lib"
proof -
  have d: "lb_drives (write_projection now i plan lib) =
      update_row dr_id i (publish_drive now (rf_drive (rn_projection plan))) (lb_drives lib)"
    by (simp add: write_projection_def Let_def)
  show "List.map dr_id (lb_drives (write_projection now i plan lib)) = List.map dr_id (lb_drives lib)"
    by (simp add: d update_row_def)
  show "manual_ids (write_projection now i plan lib) = manual_ids lib"
    unfolding manual_ids_def d by (rule update_row_manual) simp_all
qed

lemma attach_drives [simp]:
  "lb_drives (attach ids j lib) = lb_drives lib" "manual_ids (attach ids j lib) = manual_ids lib"
  "lb_omissions (attach ids j lib) = lb_omissions lib"
  by (simp_all add: attach_def manual_ids_def)

lemma publish_drives:
  assumes "publish_refresh now lib t g plan = Inr (i, lib')"
    and "case t of Stored d \<Rightarrow> d \<in> set (lb_drives lib) | Fresh d \<Rightarrow> \<not> dr_manual d"
    and "keyed dr_id (lb_drives lib)"
  shows "dr_id ` set (lb_drives lib') = insert i (dr_id ` set (lb_drives lib))"
    and "manual_ids lib' = manual_ids lib" and "keyed dr_id (lb_drives lib')"
    and "i \<in> (case t of Stored d \<Rightarrow> {dr_id d} | Fresh d \<Rightarrow> {next_id dr_id (lb_drives lib)})"
proof -
  define lib1 where "lib1 = snd (store_target t lib)"
  have i: "i = fst (store_target t lib)"
    and lib': "lib' = attach (List.map cl_id (rn_expected plan)) (Some i) (write_projection now i plan lib1)"
    using assms(1) by (auto simp: publish_refresh_def lib1_def split: option.splits prod.splits)
  have l: "List.map dr_id (lb_drives lib') = List.map dr_id (lb_drives lib1)" "manual_ids lib' = manual_ids lib1"
    by (simp_all add: lib' write_projection_drives)
  from arg_cong [OF l(1), of set] have ids: "dr_id ` set (lb_drives lib') = dr_id ` set (lb_drives lib1)" by simp
  show "i \<in> (case t of Stored d \<Rightarrow> {dr_id d} | Fresh d \<Rightarrow> {next_id dr_id (lb_drives lib)})"
    by (simp add: i store_target_def Let_def split: target.split)
  show "manual_ids lib' = manual_ids lib"
    unfolding l(2) using assms(2) by (auto simp: lib1_def store_target_def manual_ids_def Let_def split: target.splits)
  have "keyed dr_id (lb_drives lib1)"
    using assms(3) by (simp add: lib1_def store_target_def Let_def next_id_notin split: target.split)
  then show "keyed dr_id (lb_drives lib')" by (simp add: keyed_def l(1))
  show "dr_id ` set (lb_drives lib') = insert i (dr_id ` set (lb_drives lib))"
    using assms(2) by (auto simp: ids i lib1_def store_target_def Let_def split: target.splits)
qed

subsection \<open>One cluster without interference\<close>

definition rebuild_inv :: "nat \<Rightarrow> library \<Rightarrow> clip list list \<Rightarrow> rebuild_state \<Rightarrow> bool" where
  "rebuild_inv n base css st \<longleftrightarrow>
     (\<exists>h. lb_clips (rb_lib st) = List.map h (lb_clips base) \<and> keeps_ident h (lb_clips base) \<and>
        (\<forall>c \<in> set (lb_clips base). cl_id c \<notin> cl_id ` set (concat css) \<longrightarrow> h c = c) \<and>
        (\<forall>cs \<in> set css. \<forall>c \<in> set cs.
           cl_journey_id (h c) = (if length cs < n then None else cl_journey_id (h (hd cs)))) \<and>
        List.map (\<lambda>cs. cl_journey_id (h (hd cs))) (filter (\<lambda>cs. n \<le> length cs) css) = List.map Some (rb_used st)) \<and>
     set (concat css) \<subseteq> set (lb_clips base) \<and> [] \<notin> set css \<and>
     lb_omissions (rb_lib st) = lb_omissions base \<and> keyed dr_id (lb_drives (rb_lib st)) \<and>
     set (manual_ids (rb_lib st)) = set (manual_ids base) \<and>
     set (rb_used st) \<subseteq> dr_id ` set (lb_drives (rb_lib st)) \<and> distinct (rb_used st) \<and>
     set (rb_used st) \<inter> set (manual_ids base) = {} \<and> rb_deferred st = []"

text \<open>What a regrouping of a further cluster does to the invariant.\<close>

lemma rebuild_inv_snoc:
  assumes inv: "rebuild_inv n base css st" and key: "keyed cl_id (lb_clips base)"
    and cs: "cs \<noteq> []" "set cs \<subseteq> set (lb_clips base)" "cl_id ` set cs \<inter> cl_id ` set (concat css) = {}"
    and moved: "regroups (cl_id ` set cs) j (rb_lib st) (rb_lib st')"
    and drives: "keyed dr_id (lb_drives (rb_lib st'))" "set (manual_ids (rb_lib st')) = set (manual_ids base)"
      "dr_id ` set (lb_drives (rb_lib st)) \<subseteq> dr_id ` set (lb_drives (rb_lib st'))" "rb_deferred st' = []"
    and used: "if length cs < n then j = None \<and> rb_used st' = rb_used st
      else \<exists>i. j = Some i \<and> rb_used st' = rb_used st @ [i] \<and> i \<notin> set (rb_used st) \<and>
             i \<in> dr_id ` set (lb_drives (rb_lib st')) \<and> i \<notin> set (manual_ids base)"
  shows "rebuild_inv n base (css @ [cs]) st'"
proof -
  obtain h where h: "lb_clips (rb_lib st) = List.map h (lb_clips base)" "keeps_ident h (lb_clips base)"
    "\<forall>c \<in> set (lb_clips base). cl_id c \<notin> cl_id ` set (concat css) \<longrightarrow> h c = c"
    "\<forall>cs \<in> set css. \<forall>c \<in> set cs. cl_journey_id (h c) = (if length cs < n then None else cl_journey_id (h (hd cs)))"
    "List.map (\<lambda>cs. cl_journey_id (h (hd cs))) (filter (\<lambda>cs. n \<le> length cs) css) = List.map Some (rb_used st)"
    using inv by (auto simp: rebuild_inv_def)
  obtain g where g: "lb_clips (rb_lib st') = List.map g (lb_clips (rb_lib st))" "keeps_ident g (lb_clips (rb_lib st))"
    "\<forall>c \<in> set (lb_clips (rb_lib st)). if cl_id c \<in> cl_id ` set cs then cl_journey_id (g c) = j else g c = c"
    "lb_omissions (rb_lib st') = lb_omissions (rb_lib st)" using moved by (auto simp: regroups_def)
  have base: "set (concat css) \<subseteq> set (lb_clips base)" "[] \<notin> set css" using inv by (auto simp: rebuild_inv_def)
  let ?k = "\<lambda>c. g (h c)"
  have hin: "h c \<in> set (lb_clips (rb_lib st))" "cl_id (h c) = cl_id c" if "c \<in> set (lb_clips base)" for c
    using h(1,2) that ident_sel(1) [of "h c" c] by (simp_all add: keeps_ident_def)
  have old: "?k c = h c" if "c \<in> set (lb_clips base)" "cl_id c \<notin> cl_id ` set cs" for c
    using g(3) hin that by simp
  have new: "cl_journey_id (?k c) = j" if "c \<in> set cs" for c
    using g(3) hin cs(2) that by (metis image_eqI subsetD)
  have prev: "?k c = h c" if "c \<in> set (concat css)" for c
    using old base(1) cs(3) that by blast
  have hd_prev: "?k (hd ds) = h (hd ds)" if "ds \<in> set css" for ds
  proof (rule prev)
    have "hd ds \<in> set ds" using that base(2) by (intro hd_in_set) auto
    with that show "hd ds \<in> set (concat css)" by auto
  qed
  have "cl_journey_id (?k c) = (if length ds < n then None else cl_journey_id (?k (hd ds)))"
    if "ds \<in> set (css @ [cs])" "c \<in> set ds" for ds c
  proof (cases "ds \<in> set css")
    case True
    then have "c \<in> set (concat css)" using that(2) by auto
    then show ?thesis using h(4) prev hd_prev [OF True] True that(2) by simp
  next
    case False
    then have "ds = cs" using that(1) by simp
    then show ?thesis using new that(2) cs(1) used by (auto split: if_splits)
  qed
  moreover have "List.map (\<lambda>cs. cl_journey_id (?k (hd cs))) (filter (\<lambda>cs. n \<le> length cs) (css @ [cs])) =
      List.map Some (rb_used st')"
  proof -
    have "List.map (\<lambda>cs. cl_journey_id (?k (hd cs))) (filter (\<lambda>cs. n \<le> length cs) css) = List.map Some (rb_used st)"
      unfolding h(5) [symmetric] using hd_prev by simp
    moreover have "hd cs \<in> set cs" using cs(1) by simp
    ultimately show ?thesis using used new by (auto simp: not_less split: if_splits)
  qed
  moreover have "?k c = c" if "c \<in> set (lb_clips base)" "cl_id c \<notin> cl_id ` set (concat (css @ [cs]))" for c
    using old [of c] h(3) that by (simp add: image_Un)
  moreover have "keeps_ident ?k (lb_clips base)"
    using h(2) g(2) hin unfolding keeps_ident_def by metis
  moreover have "lb_clips (rb_lib st') = List.map ?k (lb_clips base)" using g(1) h(1) by simp
  moreover have "set (rb_used st') \<subseteq> dr_id ` set (lb_drives (rb_lib st'))" "distinct (rb_used st')"
    "set (rb_used st') \<inter> set (manual_ids base) = {}"
    using used inv drives(3) by (auto simp: rebuild_inv_def split: if_splits)
  ultimately show ?thesis
    unfolding rebuild_inv_def using drives(1,2,4) g(4) inv base cs(1,2)
    by (intro conjI exI [of _ ?k]) (auto simp: rebuild_inv_def)
qed

text \<open>The rows of a planned cluster are still as they were planned.\<close>

lemma cluster_rows_unchanged:
  assumes inv: "rebuild_inv n base css st" and key: "keyed cl_id (lb_clips base)"
    and cs: "set cs \<subseteq> set (movable None base)" "cl_id ` set cs \<inter> cl_id ` set (concat css) = {}" "distinct (List.map cl_id cs)"
  shows "keyed cl_id (lb_clips (rb_lib st))" and "set cs \<subseteq> set (lb_clips (rb_lib st))"
    and "unchanged_rows cs (still_movable (rb_lib st) (List.map cl_id cs))"
    and "length (still_movable (rb_lib st) (List.map cl_id cs)) = length cs"
proof -
  let ?lib = "rb_lib st"
  obtain h where h: "lb_clips ?lib = List.map h (lb_clips base)" "keeps_ident h (lb_clips base)"
    "\<forall>c \<in> set (lb_clips base). cl_id c \<notin> cl_id ` set (concat css) \<longrightarrow> h c = c"
    and man: "set (manual_ids ?lib) = set (manual_ids base)"
    using inv by (auto simp: rebuild_inv_def)
  have "cl_id (h c) = cl_id c" if "c \<in> set (lb_clips base)" for c
    using h(2) that by (intro ident_sel(1)) (simp add: keeps_ident_def)
  then have "List.map cl_id (lb_clips ?lib) = List.map cl_id (lb_clips base)" by (simp add: h(1))
  then show key': "keyed cl_id (lb_clips ?lib)" using key by (simp add: keyed_def)
  have mov: "c \<in> set (lb_clips base)" "\<not> cl_ignored c" "journey_ready c" "\<not> in_manual base c" if "c \<in> set cs" for c
    using cs(1) that by (auto simp: movable_def eligible_def)
  have same: "h c = c" if "c \<in> set cs" for c using h(3) mov(1) [OF that] cs(2) that by blast
  show sub: "set cs \<subseteq> set (lb_clips ?lib)"
  proof
    fix c
    assume c: "c \<in> set cs"
    then have "h c \<in> h ` set (lb_clips base)" using mov(1) by blast
    then show "c \<in> set (lb_clips ?lib)" using same [OF c] h(1) by simp
  qed
  have "in_manual ?lib c = in_manual base c" for c unfolding in_manual_def man ..
  then have "set cs \<subseteq> set (still_movable ?lib (List.map cl_id cs))"
    using mov sub by (auto simp: still_movable_def)
  moreover have "x \<in> set cs" if x: "x \<in> set (still_movable ?lib (List.map cl_id cs))" for x
  proof -
    obtain y where "y \<in> set cs" "x \<in> set (lb_clips ?lib)" "cl_id x = cl_id y"
      using x by (auto simp: still_movable_def)
    moreover from this have "x = y" using sub by (intro keyed_inj [OF key']) auto
    ultimately show ?thesis by simp
  qed
  ultimately have set: "set (still_movable ?lib (List.map cl_id cs)) = set cs" by blast
  have "distinct (still_movable ?lib (List.map cl_id cs))"
    using key' by (simp add: still_movable_def keyed_def distinct_map)
  moreover have "distinct cs" using cs(3) by (simp add: distinct_map)
  ultimately show len: "length (still_movable ?lib (List.map cl_id cs)) = length cs"
    using set by (metis distinct_card)
  show "unchanged_rows cs (still_movable ?lib (List.map cl_id cs))"
    using set len by (auto simp: unchanged_rows_def list_all_iff list_ex_iff)
qed

lemma prepare_fresh:
  assumes "set (List.map cl_id cs) \<subseteq> cl_id ` set (lb_clips lib)"
  shows "\<exists>plan. prepare_refresh lib cfg (Fresh d) None (Some (List.map cl_id cs)) = Inr plan"
proof -
  have "list_all (\<lambda>i. i \<in> set (List.map cl_id (clip_snapshot lib (List.map cl_id cs)))) (List.map cl_id cs)"
    using assms by (force simp: list_all_iff clip_snapshot_def)
  then show ?thesis by (simp add: prepare_refresh_def stored_stamp_def Let_def)
qed

lemma rebuild_cluster_step:
  assumes inv: "rebuild_inv (js_min_recordings cfg) base css st" and key: "keyed cl_id (lb_clips base)"
    and cs: "cs \<noteq> []" "set cs \<subseteq> set (movable None base)" "cl_id ` set cs \<inter> cl_id ` set (concat css) = {}"
      "distinct (List.map cl_id cs)"
  shows "rebuild_inv (js_min_recordings cfg) base (css @ [cs])
    (rebuild_cluster now cfg None final (id, id) (n, cs) st)"
proof -
  let ?lib = "rb_lib st" and ?ids = "List.map cl_id cs"
  note rows = cluster_rows_unchanged [OF inv key cs(2,3,4)]
  have keyd: "keyed dr_id (lb_drives ?lib)" and def: "rb_deferred st = []"
    and man: "set (manual_ids ?lib) = set (manual_ids base)"
    and used: "set (rb_used st) \<subseteq> dr_id ` set (lb_drives ?lib)"
    using inv by (auto simp: rebuild_inv_def)
  have sub: "set cs \<subseteq> set (lb_clips base)" using cs(2) eligible_set by (fastforce simp: movable_def)
  obtain plan where plan: "prepare_refresh ?lib cfg (Fresh (cluster_drive now cs)) None (Some ?ids) = Inr plan"
    using prepare_fresh [of cs ?lib] rows(2) by fastforce
  have exp: "rn_expected plan = clip_snapshot ?lib ?ids" "rn_members plan = None"
    using prepare_plan(2,3) [OF plan refl] by simp_all
  have eids: "cl_id ` set (rn_expected plan) = cl_id ` set cs" using rows(2) by (auto simp: exp(1) clip_snapshot_def)
  define t where "t = (case reusable ?lib (journeys_of (still_movable ?lib ?ids)) (rb_used st) final n ?ids of
      Some d \<Rightarrow> Stored d | None \<Rightarrow> Fresh (cluster_drive now cs))"
  have snap: "clip_snapshot ?lib (List.map cl_id (rn_expected plan)) = rn_expected plan"
    using eids by (simp add: clip_snapshot_def exp(1))
  have "plan_conflict ?lib t True plan = None"
    using snap exp(2) by (simp add: plan_conflict_def split: target.split)
  then obtain i lib' where out: "publish_refresh now ?lib t True plan = Inr (i, lib')"
    by (cases "store_target t ?lib") (auto simp: publish_refresh_def Let_def)
  let ?st1 = "st\<lparr>rb_sources := rb_sources st @ journeys_of (still_movable ?lib ?ids)\<rparr>"
  have step: "rebuild_cluster now cfg None final (id, id) (n, cs) st =
      (if length cs < js_min_recordings cfg then ?st1\<lparr>rb_lib := attach ?ids None ?lib\<rparr>
       else ?st1\<lparr>rb_lib := lib', rb_used := rb_used st @ [i], rb_count := rb_count st + 1\<rparr>)"
    using plan rows(3,4) out
    by (simp add: rebuild_cluster_def outside_member_def t_def [symmetric] Let_def)
  show ?thesis
  proof (cases "length cs < js_min_recordings cfg")
    case True
    with step show ?thesis
      using attach_regroups [of ?ids None ?lib] keyd man def
      by (intro rebuild_inv_snoc [OF inv key cs(1) sub cs(3), where j = None]) simp_all
  next
    case False
    have t: "case t of Stored d \<Rightarrow> d \<in> set (lb_drives ?lib) \<and> dr_id d \<notin> set (rb_used st) \<and> \<not> dr_manual d
        | Fresh d \<Rightarrow> \<not> dr_manual d"
      by (auto simp: t_def reusable_def cluster_drive_def new_drive_def split: option.split dest!: find_SomeD)
    then have t': "case t of Stored d \<Rightarrow> d \<in> set (lb_drives ?lib) | Fresh d \<Rightarrow> \<not> dr_manual d"
      by (auto split: target.splits)
    note pub = publish_drives [OF out t' keyd]
    have sub_man: "set (manual_ids ?lib) \<subseteq> dr_id ` set (lb_drives ?lib)" by (auto simp: manual_ids_def)
    have "i \<notin> set (rb_used st)" "i \<notin> set (manual_ids ?lib)"
    proof -
      show "i \<notin> set (rb_used st)"
        using pub(4) t used next_id_notin [of dr_id "lb_drives ?lib"] by (auto split: target.splits)
      show "i \<notin> set (manual_ids ?lib)"
        using pub(4) t sub_man next_id_notin [of dr_id "lb_drives ?lib"] keyed_inj [OF keyd]
        by (auto simp: manual_ids_def split: target.splits)
    qed
    moreover have "regroups (cl_id ` set cs) (Some i) ?lib lib'"
      using publish_regroups [OF rows(1) plan out] eids by simp
    ultimately show ?thesis
      using step False pub man def
      by (intro rebuild_inv_snoc [OF inv key cs(1) sub cs(3), where j = "Some i"]) (simp_all add: subset_insertI)
  qed
qed

lemma rebuild_clusters_inv:
  assumes key: "keyed cl_id (lb_clips base)"
    and "rebuild_inv (js_min_recordings cfg) base css st" and "[] \<notin> set rest"
    and "set (concat rest) \<subseteq> set (movable None base)" and "distinct (List.map cl_id (concat (css @ rest)))"
  shows "rebuild_inv (js_min_recordings cfg) base (css @ rest)
    (fold (\<lambda>(n, cs). rebuild_cluster now cfg None final (id, id) (n, cs)) (List.enumerate k rest) st)"
  using assms(2-5)
proof (induction rest arbitrary: css st k)
  case (Cons cs rest)
  have dis: "cl_id ` set cs \<inter> cl_id ` set (concat css) = {}" "distinct (List.map cl_id cs)"
    using Cons.prems(4) by (simp_all add: Int_commute Int_Un_distrib image_Un)
  have "rebuild_inv (js_min_recordings cfg) base (css @ [cs]) (rebuild_cluster now cfg None final (id, id) (k, cs) st)"
    using Cons.prems(2,3) dis by (intro rebuild_cluster_step [OF Cons.prems(1) key]) auto
  from Cons.IH [OF this, of "Suc k"] Cons.prems(2-4) show ?case by (simp add: id_def)
qed simp

subsection \<open>Settling the donors\<close>

definition same_groups :: "library \<Rightarrow> library \<Rightarrow> bool" where
  "same_groups lib lib' \<longleftrightarrow>
     (\<exists>h. lb_clips lib' = List.map h (lb_clips lib) \<and> keeps_ident h (lb_clips lib) \<and>
        (\<forall>c \<in> set (lb_clips lib). cl_journey_id (h c) = cl_journey_id c)) \<and>
     lb_omissions lib' = lb_omissions lib \<and> set (manual_ids lib') = set (manual_ids lib) \<and>
     (keyed dr_id (lb_drives lib) \<longrightarrow> keyed dr_id (lb_drives lib'))"

lemma same_groups_refl [simp]: "same_groups lib lib"
  unfolding same_groups_def by (intro conjI exI [of _ "\<lambda>c. c"]) (simp_all add: keeps_ident_def)

lemma same_groups_trans:
  assumes "same_groups a b" and "same_groups b c"
  shows "same_groups a c"
proof -
  obtain g where g: "lb_clips b = List.map g (lb_clips a)" "keeps_ident g (lb_clips a)"
    "\<forall>x \<in> set (lb_clips a). cl_journey_id (g x) = cl_journey_id x" using assms(1) by (auto simp: same_groups_def)
  obtain h where h: "lb_clips c = List.map h (lb_clips b)" "keeps_ident h (lb_clips b)"
    "\<forall>x \<in> set (lb_clips b). cl_journey_id (h x) = cl_journey_id x" using assms(2) by (auto simp: same_groups_def)
  have "ident (h (g x)) = ident x \<and> cl_journey_id (h (g x)) = cl_journey_id x" if "x \<in> set (lb_clips a)" for x
    using g h that by (simp add: keeps_ident_def)
  then show ?thesis
    using assms g(1) h(1) unfolding same_groups_def keeps_ident_def
    by (intro conjI exI [of _ "\<lambda>x. h (g x)"]) auto
qed

lemma same_groups_keyed:
  assumes "same_groups lib lib'" and "keyed cl_id (lb_clips lib)"
  shows "keyed cl_id (lb_clips lib')"
proof -
  obtain h where h: "lb_clips lib' = List.map h (lb_clips lib)" "keeps_ident h (lb_clips lib)"
    using assms(1) by (auto simp: same_groups_def)
  have "cl_id (h c) = cl_id c" if "c \<in> set (lb_clips lib)" for c
    using h(2) that by (intro ident_sel(1)) (simp add: keeps_ident_def)
  then have "List.map cl_id (lb_clips lib') = List.map cl_id (lb_clips lib)" by (simp add: h(1))
  with assms(2) show ?thesis by (simp add: keyed_def)
qed

lemma refresh_same_groups:
  assumes key: "keyed cl_id (lb_clips lib)" "keyed dr_id (lb_drives lib)" and d: "d \<in> set (lb_drives lib)"
    and out: "refresh now cfg (Stored d) None lib lib = Inr (i, lib')"
  shows "same_groups lib lib'"
proof -
  obtain plan where plan: "prepare_refresh lib cfg (Stored d) None None = Inr plan"
    and pub: "publish_refresh now lib (Stored d) False plan = Inr (i, lib')"
    using out by (auto simp: refresh_def split: sum.splits)
  have exp: "rn_expected plan = clip_snapshot lib (member_ids (dr_id d) lib)"
    using prepare_plan(4) [OF plan refl refl] .
  have ds: "i = dr_id d" "set (manual_ids lib') = set (manual_ids lib)" "keyed dr_id (lb_drives lib')"
    using publish_drives [OF pub] d key(2) by simp_all
  obtain h where h: "lb_clips lib' = List.map h (lb_clips lib)" "keeps_ident h (lb_clips lib)"
    "\<forall>c \<in> set (lb_clips lib). if cl_id c \<in> cl_id ` set (rn_expected plan) then cl_journey_id (h c) = Some i else h c = c"
    "lb_omissions lib' = lb_omissions lib"
    using publish_regroups [OF key(1) plan pub] by (auto simp: regroups_def)
  have "cl_journey_id c = Some i" if "c \<in> set (lb_clips lib)" "cl_id c \<in> cl_id ` set (rn_expected plan)" for c
  proof -
    have "cl_id c \<in> set (member_ids (dr_id d) lib)" using that(2) by (auto simp: exp clip_snapshot_def)
    then obtain x where x: "x \<in> set (lb_clips lib)" "cl_id x = cl_id c" "is_member (dr_id d) x"
      by (auto simp: member_ids_def)
    then have "x = c" using keyed_inj [OF key(1)] that(1) by blast
    with x(3) ds(1) show ?thesis by (simp add: is_member_def)
  qed
  note here = this
  have "cl_journey_id (h c) = cl_journey_id c" if c: "c \<in> set (lb_clips lib)" for c
  proof (cases "cl_id c \<in> cl_id ` set (rn_expected plan)")
    case True
    with bspec [OF h(3) c] have "cl_journey_id (h c) = Some i" by (simp only: if_True simp_thms)
    then show ?thesis unfolding here [OF c True] .
  next
    case False
    with bspec [OF h(3) c] show ?thesis by (simp only: if_False simp_thms)
  qed
  then have "\<forall>c \<in> set (lb_clips lib). cl_journey_id (h c) = cl_journey_id c" by blast
  with h ds show ?thesis unfolding same_groups_def by blast
qed

lemma finish_source_same:
  assumes "keyed cl_id (lb_clips lib)" and "keyed dr_id (lb_drives lib)"
  shows "same_groups lib (finish_source now cfg since j lib)"
proof (cases "get_row dr_id j (lb_drives lib)")
  case (Some d)
  note d = conjunct1 [OF get_row_Some [OF Some]] conjunct2 [OF get_row_Some [OF Some]]
  have "set (manual_ids (lib\<lparr>lb_drives := filter (\<lambda>x. dr_id x \<noteq> j) (lb_drives lib)\<rparr>)) = set (manual_ids lib)"
    if "\<not> dr_manual d"
    using that d keyed_inj [OF assms(2)] by (auto simp: manual_ids_def)
  moreover have "keyed dr_id (filter (\<lambda>x. dr_id x \<noteq> j) (lb_drives lib))"
    using assms(2) by (simp add: keyed_def distinct_map_filter)
  ultimately have "same_groups lib (lib\<lparr>lb_drives := filter (\<lambda>x. dr_id x \<noteq> j) (lb_drives lib)\<rparr>)" if "\<not> dr_manual d"
    using that unfolding same_groups_def by (intro conjI exI [of _ "\<lambda>c. c"]) (simp_all add: keeps_ident_def)
  with Some d refresh_same_groups [OF assms d(1)] show ?thesis
    by (auto simp: finish_source_def split: sum.split)
qed (simp add: finish_source_def)

lemma finish_sources_same:
  assumes "keyed cl_id (lb_clips lib)" and "keyed dr_id (lb_drives lib)"
  shows "same_groups lib (fold (finish_source now cfg since) js lib)"
  using assms
proof (induction js arbitrary: lib)
  case (Cons j js)
  let ?lib = "finish_source now cfg since j lib"
  have s: "same_groups lib ?lib" using Cons.prems by (rule finish_source_same)
  then have "keyed cl_id (lb_clips ?lib)" "keyed dr_id (lb_drives ?lib)"
    using same_groups_keyed Cons.prems by (auto simp: same_groups_def)
  from Cons.IH [OF this] s show ?case using same_groups_trans by fastforce
qed simp

subsection \<open>The whole rebuild\<close>

lemma positions_clips:
  "\<exists>h. lb_clips (refresh_start_positions ids lib) = List.map h (lb_clips lib) \<and>
    (\<forall>c. ident (h c) = ident c \<and> cl_journey_id (h c) = cl_journey_id c)"
  by (rule exI [of _ "\<lambda>c. if cl_id c \<in> set ids then
        (let (lat, lon) = earliest_fix lib (cl_id c)
         in if (cl_start_lat c, cl_start_lon c) \<noteq> (lat, lon)
            then c\<lparr>cl_start_lat := lat, cl_start_lon := lon\<rparr> else c) else c"])
    (auto simp: refresh_start_positions_def update_where_def ident_def Let_def split: prod.split)

lemma positions_other [simp]:
  "lb_drives (refresh_start_positions ids lib) = lb_drives lib"
  "lb_omissions (refresh_start_positions ids lib) = lb_omissions lib"
  by (simp_all add: refresh_start_positions_def)

lemma fold_positions_clips:
  "\<exists>h. lb_clips (fold refresh_start_positions idss lib) = List.map h (lb_clips lib) \<and>
    (\<forall>c. ident (h c) = ident c \<and> cl_journey_id (h c) = cl_journey_id c) \<and>
    lb_drives (fold refresh_start_positions idss lib) = lb_drives lib \<and>
    lb_omissions (fold refresh_start_positions idss lib) = lb_omissions lib"
proof (induction idss arbitrary: lib)
  case Nil
  show ?case by (intro exI [of _ "\<lambda>c. c"]) simp
next
  case (Cons ids idss)
  obtain g where g: "lb_clips (refresh_start_positions ids lib) = List.map g (lb_clips lib)"
    "\<forall>c. ident (g c) = ident c \<and> cl_journey_id (g c) = cl_journey_id c" using positions_clips by blast
  obtain h where "lb_clips (fold refresh_start_positions idss (refresh_start_positions ids lib)) =
      List.map h (lb_clips (refresh_start_positions ids lib))"
    "\<forall>c. ident (h c) = ident c \<and> cl_journey_id (h c) = cl_journey_id c"
    "lb_drives (fold refresh_start_positions idss (refresh_start_positions ids lib)) = lb_drives lib"
    "lb_omissions (fold refresh_start_positions idss (refresh_start_positions ids lib)) = lb_omissions lib"
    using Cons.IH [of "refresh_start_positions ids lib"] by (auto simp only: positions_other)
  with g show ?case by (intro exI [of _ "\<lambda>c. h (g c)"]) simp
qed

lemma movable_map:
  assumes "lb_clips lib' = List.map h (lb_clips lib)" and "keeps_ident h (lb_clips lib)"
    and "\<And>c. c \<in> set (eligible since lib) \<Longrightarrow> in_manual lib' (h c) = in_manual lib c"
  shows "movable since lib' = List.map h (movable since lib)"
  unfolding movable_def eligible_map [OF assms(1,2)] filter_map
  by (intro arg_cong [of _ _ "List.map h"] filter_cong) (simp_all add: assms(3))

lemma map_filter_all: "(\<And>x. x \<in> set xs \<Longrightarrow> f x = Some (h x)) \<Longrightarrow> List.map_filter f xs = List.map h xs"
  by (induction xs) (simp_all add: map_filter_simps)

lemma planned_rows_movable:
  assumes key: "keyed cl_id (lb_clips lib)"
  shows "planned_rows since lib = movable since (prepare_positions since lib)"
proof -
  let ?base = "prepare_positions since lib"
  obtain h where h: "lb_clips ?base = List.map h (lb_clips lib)"
    "\<forall>c. ident (h c) = ident c \<and> cl_journey_id (h c) = cl_journey_id c" "lb_drives ?base = lb_drives lib"
    using fold_positions_clips unfolding prepare_positions_def by blast
  have id: "cl_id (h c) = cl_id c" for c using h(2) ident_sel(1) by blast
  have "List.map cl_id (lb_clips ?base) = List.map cl_id (lb_clips lib)" by (simp add: h(1) id)
  then have key': "keyed cl_id (lb_clips ?base)" using key by (simp add: keyed_def)
  have "get_row cl_id (cl_id c) (lb_clips ?base) = Some (h c)" if "c \<in> set (movable since lib)" for c
  proof -
    have "c \<in> set (lb_clips lib)" using that eligible_set by (auto simp: movable_def)
    then have "h c \<in> set (lb_clips ?base)" by (simp add: h(1))
    from get_row_mem [OF key' this] show ?thesis by (simp add: id)
  qed
  then have "planned_rows since lib = List.map h (movable since lib)"
    unfolding planned_rows_def by (rule map_filter_all)
  also have "\<dots> = movable since ?base"
  proof (rule movable_map [symmetric, OF h(1)])
    show "keeps_ident h (lb_clips lib)" unfolding keeps_ident_def using h(2) by blast
    have "cl_journey_id (h c) = cl_journey_id c" for c using h(2) by blast
    moreover have "manual_ids ?base = manual_ids lib" by (simp only: manual_ids_def h(3))
    ultimately show "in_manual ?base (h c) = in_manual lib c" for c unfolding in_manual_def by (simp only:)
  qed
  finally show ?thesis .
qed

lemma grouping_kept:
  assumes "\<forall>cs \<in> set css. cs \<noteq> [] \<and> (\<forall>c \<in> set cs. cl_journey_id c = (if length cs < n then None else cl_journey_id (hd cs)))"
    and "List.map (\<lambda>cs. cl_journey_id (hd cs)) (filter (\<lambda>cs. n \<le> length cs) css) = List.map Some js"
    and "distinct js" and "set js \<inter> set claimed = {}"
  shows "\<not> grouping_differs n claimed css"
  using assms
proof (induction css arbitrary: js claimed)
  case (Cons cs css)
  have same: "remdups (List.map f cs) = [x]" if "cs \<noteq> []" "\<forall>c \<in> set cs. f c = x" for f :: "clip \<Rightarrow> row_id option" and x
  proof -
    have "List.map f cs = replicate (length cs) x" using that(2) by (simp add: map_replicate_const [symmetric])
    moreover have "remdups (replicate (Suc n) x) = [x]" for n by (induction n) auto
    moreover have "length cs = Suc (length cs - 1)" using \<open>cs \<noteq> []\<close> by simp
    ultimately show ?thesis by metis
  qed
  show ?case
  proof (cases "length cs < n")
    case True
    then have "remdups (List.map cl_journey_id cs) = [None]" using Cons.prems(1) by (intro same) auto
    with True Cons.IH [of js claimed] Cons.prems show ?thesis by simp
  next
    case False
    then obtain j js' where js: "js = j # js'" "cl_journey_id (hd cs) = Some j" using Cons.prems(2) by (cases js) auto
    then have "remdups (List.map cl_journey_id cs) = [Some j]" using Cons.prems(1) False by (intro same) auto
    with False js Cons.IH [of js' "j # claimed"] Cons.prems show ?thesis by simp
  qed
qed simp

lemma rebuild_final:
  assumes inv: "rebuild_inv (js_min_recordings cfg) base css st" and key: "keyed cl_id (lb_clips base)"
    and css: "concat css = movable None base" "plan_clusters cfg base (movable None base) = css"
    and gps: "\<not> js_use_gps cfg" and settled_lib: "same_groups (rb_lib st) lib'"
  shows "\<not> needs_recluster cfg lib'"
proof -
  let ?n = "js_min_recordings cfg" and ?rows = "movable None base"
  obtain h where h: "lb_clips (rb_lib st) = List.map h (lb_clips base)" "keeps_ident h (lb_clips base)"
    "\<forall>c \<in> set (lb_clips base). cl_id c \<notin> cl_id ` set (concat css) \<longrightarrow> h c = c"
    "\<forall>cs \<in> set css. \<forall>c \<in> set cs. cl_journey_id (h c) = (if length cs < ?n then None else cl_journey_id (h (hd cs)))"
    "List.map (\<lambda>cs. cl_journey_id (h (hd cs))) (filter (\<lambda>cs. ?n \<le> length cs) css) = List.map Some (rb_used st)"
    using inv by (auto simp: rebuild_inv_def)
  have rest: "[] \<notin> set css" "lb_omissions (rb_lib st) = lb_omissions base"
    "set (manual_ids (rb_lib st)) = set (manual_ids base)" "distinct (rb_used st)"
    "set (rb_used st) \<inter> set (manual_ids base) = {}" using inv by (auto simp: rebuild_inv_def)
  obtain g where g: "lb_clips lib' = List.map g (lb_clips (rb_lib st))" "keeps_ident g (lb_clips (rb_lib st))"
    "\<forall>c \<in> set (lb_clips (rb_lib st)). cl_journey_id (g c) = cl_journey_id c"
    "lb_omissions lib' = lb_omissions (rb_lib st)" "set (manual_ids lib') = set (manual_ids (rb_lib st))"
    using settled_lib by (auto simp: same_groups_def)
  let ?k = "\<lambda>c. g (h c)"
  have k: "lb_clips lib' = List.map ?k (lb_clips base)" using g(1) h(1) by simp
  have ident: "keeps_ident ?k (lb_clips base)" using g(2) h(1,2) by (simp add: keeps_ident_def)
  have grouped: "cl_journey_id (?k c) = cl_journey_id (h c)" if "c \<in> set (lb_clips base)" for c
    using g(3) h(1) that by simp
  have man: "set (manual_ids lib') = set (manual_ids base)" using g(5) rest(3) by simp
  have rows: "set ?rows \<subseteq> set (lb_clips base)" using eligible_set by (fastforce simp: movable_def)
  have "in_manual lib' (?k c) = in_manual base c" if c: "c \<in> set (eligible None base)" for c
  proof (cases "c \<in> set ?rows")
    case True
    then obtain cs where cs: "cs \<in> set css" "c \<in> set cs" using css(1) by (metis UN_E set_concat)
    have "cl_journey_id (h c) = None \<or> (\<exists>i \<in> set (rb_used st). cl_journey_id (h c) = Some i)"
    proof (cases "length cs < ?n")
      case False
      then have "cl_journey_id (h (hd cs)) \<in> set (List.map Some (rb_used st))"
        using cs(1) unfolding h(5) [symmetric] by auto
      then show ?thesis using h(4) cs False by auto
    qed (use h(4) cs in auto)
    moreover have "cl_journey_id (?k c) = cl_journey_id (h c)" using grouped True rows by blast
    ultimately have "\<not> in_manual lib' (?k c)"
      using man rest(5) by (auto simp: in_manual_def)
    with True show ?thesis by (simp add: movable_def)
  next
    case False
    have "c \<in> set (lb_clips base)" using c eligible_set by blast
    moreover have "cl_id c \<notin> cl_id ` set ?rows"
      using False keyed_inj [OF key] rows calculation by blast
    ultimately have "h c = c" "cl_journey_id (?k c) = cl_journey_id (h c)"
      unfolding css(1) [symmetric] using h(3) grouped by blast+
    then have "cl_journey_id (?k c) = cl_journey_id c" by simp
    then show ?thesis by (simp only: in_manual_def man)
  qed
  from movable_map [OF k ident this] have mov: "movable None lib' = List.map ?k ?rows" .
  have keep: "keeps_ident ?k ?rows" using ident rows by (auto simp: keeps_ident_def)
  have "plan_clusters cfg lib' (List.map ?k ?rows) = List.map (List.map ?k) css"
    using css(2) g(4) rest(2) intentional_gaps_map [OF keep, of lib' base]
    by (simp add: plan_clusters_def cluster_map [OF gps keep])
  moreover have "\<not> grouping_differs ?n [] (List.map (List.map ?k) css)"
  proof (rule grouping_kept)
    have base: "c \<in> set (lb_clips base)" if "cs \<in> set css" "c \<in> set cs" for cs c
    proof -
      have "c \<in> set (concat css)" using that by auto
      with rows show ?thesis unfolding css(1) by blast
    qed
    have "List.map (\<lambda>cs. cl_journey_id (hd (List.map ?k cs))) (filter (\<lambda>cs. ?n \<le> length cs) css) =
        List.map (\<lambda>cs. cl_journey_id (h (hd cs))) (filter (\<lambda>cs. ?n \<le> length cs) css)"
    proof (intro map_cong refl)
      fix cs assume "cs \<in> set (filter (\<lambda>cs. ?n \<le> length cs) css)"
      then have cs: "cs \<in> set css" "cs \<noteq> []" using rest(1) by auto
      then show "cl_journey_id (hd (List.map ?k cs)) = cl_journey_id (h (hd cs))"
        using grouped [OF base [OF cs(1)]] by (simp add: hd_map)
    qed
    then show "List.map (\<lambda>cs. cl_journey_id (hd cs)) (filter (\<lambda>cs. ?n \<le> length cs) (List.map (List.map ?k) css)) =
        List.map Some (rb_used st)"
      by (simp add: filter_map comp_def h(5))
    show "\<forall>cs \<in> set (List.map (List.map ?k) css). cs \<noteq> [] \<and>
        (\<forall>c \<in> set cs. cl_journey_id c = (if length cs < ?n then None else cl_journey_id (hd cs)))"
    proof
      fix ks assume "ks \<in> set (List.map (List.map ?k) css)"
      then obtain cs where cs: "cs \<in> set css" "ks = List.map ?k cs" by auto
      have ne: "cs \<noteq> []" using cs(1) rest(1) by auto
      have all: "cl_journey_id (?k c) = (if length cs < ?n then None else cl_journey_id (?k (hd cs)))" if "c \<in> set cs" for c
        using bspec [OF bspec [OF h(4) cs(1)] that] grouped [OF base [OF cs(1) that]] grouped [OF base [OF cs(1) hd_in_set [OF ne]]]
        by simp
      then show "ks \<noteq> [] \<and> (\<forall>c \<in> set ks. cl_journey_id c = (if length ks < ?n then None else cl_journey_id (hd ks)))"
        unfolding cs(2) set_map ball_simps length_map hd_map [OF ne] using ne all by blast
    qed
  qed (use rest(4) in simp_all)
  ultimately show ?thesis by (simp add: needs_recluster_def mov Let_def)
qed

abbreviation undisturbed :: interference where "undisturbed \<equiv> \<lambda>_. (id, id)"

lemma undisturbed_run:
  assumes "js_enabled cfg" and "eligible None lib \<noteq> []"
    and "keyed cl_id (lb_clips lib)" and "keyed dr_id (lb_drives lib)"
  shows "\<exists>css st. concat css = movable None (prepare_positions None lib) \<and>
    plan_clusters cfg (prepare_positions None lib) (movable None (prepare_positions None lib)) = css \<and>
    rebuild_inv (js_min_recordings cfg) (prepare_positions None lib) css st \<and>
    keyed cl_id (lb_clips (prepare_positions None lib)) \<and>
    same_groups (rb_lib st) (snd (rebuild now cfg None undisturbed lib))"
proof -
  let ?base = "prepare_positions None lib"
  let ?css = "plan_clusters cfg ?base (movable None ?base)"
  define st where "st = run_clusters now cfg None undisturbed ?css ?base"
  obtain h where h: "lb_clips ?base = List.map h (lb_clips lib)"
    "\<forall>c. ident (h c) = ident c \<and> cl_journey_id (h c) = cl_journey_id c" "lb_drives ?base = lb_drives lib"
    using fold_positions_clips unfolding prepare_positions_def by blast
  have "cl_id (h c) = cl_id c" for c using h(2) ident_sel(1) by blast
  then have "List.map cl_id (lb_clips ?base) = List.map cl_id (lb_clips lib)" by (simp add: h(1))
  then have key: "keyed cl_id (lb_clips ?base)" using assms(3) by (simp add: keyed_def)
  have css: "concat ?css = movable None ?base" "[] \<notin> set ?css"
    using cluster_concat cluster_nonempty by (auto simp: plan_clusters_def)
  have "distinct (List.map cl_id (movable None ?base))"
    using key by (auto simp: movable_def eligible_def keyed_def distinct_map intro: inj_on_subset)
  moreover have "rebuild_inv (js_min_recordings cfg) ?base []
      \<lparr>rb_lib = ?base, rb_used = [], rb_sources = [], rb_deferred = [], rb_count = 0\<rparr>"
    unfolding rebuild_inv_def using assms(4) h(3) by (intro conjI exI [of _ "\<lambda>c. c"]) (simp_all add: keeps_ident_def)
  ultimately have inv: "rebuild_inv (js_min_recordings cfg) ?base ?css st"
    using rebuild_clusters_inv [OF key, of cfg "[]" _ ?css now "last_cluster ?css" 0] css
    by (simp add: st_def run_clusters_def id_def)
  have key': "keyed cl_id (lb_clips (rb_lib st))" "keyed dr_id (lb_drives (rb_lib st))"
    using cluster_rows_unchanged(1) [OF inv key, of "[]"] inv by (simp_all add: rebuild_inv_def)
  have "snd (rebuild now cfg None undisturbed lib) =
      fold (finish_source now cfg None) (sort (remdups (filter (\<lambda>j. j \<notin> set (rb_used st) \<and> j \<notin> set (rb_deferred st)) (rb_sources st)))) (rb_lib st)"
    using assms(1,2) planned_rows_movable [OF assms(3), of None] by (simp add: rebuild_def st_def Let_def)
  with finish_sources_same [OF key'] have same: "same_groups (rb_lib st) (snd (rebuild now cfg None undisturbed lib))"
    by (simp only:)
  show ?thesis by (intro exI [of _ ?css] exI [of _ st] conjI css(1) refl inv key same)
qed

text \<open>C14: a rebuild settles the grouping. Where the GPS rule is off and nothing else writes while it
  runs, a rebuild of the whole library leaves every cluster that is long enough in a journey of
  its own, every other recording in none, and the manual journeys as they were: asked right
  after it, the repair finds nothing to do, so the worker does not rebuild in a loop.\<close>

theorem rebuild_settles:
  assumes "js_enabled cfg" and "\<not> js_use_gps cfg"
    and "keyed cl_id (lb_clips lib)" and "keyed dr_id (lb_drives lib)"
  shows "\<not> needs_recluster cfg (snd (rebuild now cfg None undisturbed lib))"
proof (cases "eligible None lib = []")
  case True
  then show ?thesis by (simp add: rebuild_def needs_recluster_def movable_def)
next
  case False
  from undisturbed_run [OF assms(1) False assms(3,4), of now] obtain css st where run:
    "concat css = movable None (prepare_positions None lib)"
    "plan_clusters cfg (prepare_positions None lib) (movable None (prepare_positions None lib)) = css"
    "rebuild_inv (js_min_recordings cfg) (prepare_positions None lib) css st"
    "keyed cl_id (lb_clips (prepare_positions None lib))"
    "same_groups (rb_lib st) (snd (rebuild now cfg None undisturbed lib))" by (elim exE conjE)
  show ?thesis by (rule rebuild_final [OF run(3,4,1,2) assms(2) run(5)])
qed

definition sample_library :: library where
  "sample_library =
     \<lparr>lb_clips = sample_clips, lb_drives = [], lb_points = [], lb_tracks = [], lb_plates = [],
      lb_front_cameras = [], lb_omissions = []\<rparr>"

lemma rebuild_settles_witness:
  "needs_recluster sample_settings sample_library \<and>
   \<not> needs_recluster sample_settings
       (snd (rebuild 0 sample_settings None undisturbed sample_library))"
proof
  show "\<not> needs_recluster sample_settings
       (snd (rebuild 0 sample_settings None undisturbed sample_library))"
    by (rule rebuild_settles)
      (simp_all add: sample_settings_def sample_library_def sample_clips_def sample_clip_def keyed_def)
qed (simp add: needs_recluster_def movable_def eligible_def plan_clusters_def intentional_gaps_def sample_library_def
    sample_clips_def sample_clip_def sample_settings_def clip_start_def clip_end_def end_or_start_def journey_ready_def
    in_manual_def manual_ids_def same_journey_def jumped_def blocks_def barriers_of_def intentional_intervals_def no_barriers_def seconds_def
    min_list_opt_def max_list_opt_def later_ending_def)

subsection \<open>A rebuild among other writers\<close>

text \<open>
  For the journeys of the user nothing may be assumed about the others: they commit before each
  cluster is planned and while its plan is derived. What a cluster of a rebuild goes by is the
  library it meets when it publishes.
\<close>

definition met ::
  "usec \<Rightarrow> journey_settings \<Rightarrow> (library \<Rightarrow> library) \<times> (library \<Rightarrow> library) \<Rightarrow> clip list \<Rightarrow> library \<Rightarrow> library" where
  "met now cfg others cs lib =
     (case prepare_refresh (fst others lib) cfg (Fresh (cluster_drive now cs)) None (Some (List.map cl_id cs)) of
        Inl e \<Rightarrow> fst others lib
      | Inr plan \<Rightarrow> snd others (fst others lib))"

definition stores_keyed :: "library \<Rightarrow> bool" where
  "stores_keyed lib \<longleftrightarrow> keyed cl_id (lb_clips lib) \<and> keyed dr_id (lb_drives lib)"

definition held_by_user :: "row_id \<Rightarrow> row_id \<Rightarrow> library \<Rightarrow> bool" where
  "held_by_user i j lib \<longleftrightarrow>
     list_ex (\<lambda>c. cl_id c = i \<and> cl_journey_id c = Some j) (lb_clips lib) \<and> j \<in> set (manual_ids lib)"

lemma regroups_keeps:
  assumes "regroups ids k lib lib'" and "set (manual_ids lib') = set (manual_ids lib)"
    and "keyed dr_id (lb_drives lib')" and "stores_keyed lib"
  shows "stores_keyed lib'" and "i \<notin> ids \<Longrightarrow> held_by_user i j lib \<Longrightarrow> held_by_user i j lib'"
proof -
  obtain h where h: "lb_clips lib' = List.map h (lb_clips lib)" "keeps_ident h (lb_clips lib)"
    "\<forall>c \<in> set (lb_clips lib). if cl_id c \<in> ids then cl_journey_id (h c) = k else h c = c"
    using assms(1) by (auto simp: regroups_def)
  have "cl_id (h c) = cl_id c" if "c \<in> set (lb_clips lib)" for c
  proof -
    have "ident (h c) = ident c" using h(2) that by (simp add: keeps_ident_def)
    then show ?thesis by (rule ident_sel(1))
  qed
  then have "List.map cl_id (lb_clips lib') = List.map cl_id (lb_clips lib)" by (simp add: h(1))
  then show "stores_keyed lib'" using assms(3,4) by (simp add: stores_keyed_def keyed_def)
  show "held_by_user i j lib'" if "i \<notin> ids" "held_by_user i j lib"
  proof -
    from that(2) obtain c where c: "c \<in> set (lb_clips lib)" "cl_id c = i" "cl_journey_id c = Some j"
      by (auto simp: held_by_user_def list_ex_iff)
    then have "h c = c" using h(3) that(1) by auto
    then have "c \<in> set (lb_clips lib')" using c(1) h(1) by (metis image_eqI set_map)
    moreover have "j \<in> set (manual_ids lib')" using that(2) assms(2) by (simp add: held_by_user_def)
    ultimately show ?thesis using c(2,3) unfolding held_by_user_def list_ex_iff by blast
  qed
qed

text \<open>The rows read again before the attach are the planned ones only if none is the user's.\<close>

lemma unchanged_none_manual:
  assumes "keyed cl_id (lb_clips lib)" and "distinct (List.map cl_id cs)"
    and "unchanged_rows cs (still_movable lib (List.map cl_id cs))"
    and "held_by_user i j lib"
  shows "i \<notin> set (List.map cl_id cs)"
proof
  let ?now = "still_movable lib (List.map cl_id cs)"
  assume i: "i \<in> set (List.map cl_id cs)"
  have "distinct (List.map cl_id ?now)"
    using assms(1) by (simp add: still_movable_def keyed_def distinct_map_filter)
  moreover have "length ?now = length cs" using assms(3) by (simp add: unchanged_rows_def)
  moreover have "set (List.map cl_id ?now) \<subseteq> set (List.map cl_id cs)" by (auto simp: still_movable_def)
  ultimately have "set (List.map cl_id ?now) = set (List.map cl_id cs)"
    using assms(2) by (metis card_subset_eq distinct_card length_map List.finite_set)
  with i have "i \<in> set (List.map cl_id ?now)" by (simp only:)
  then obtain c where c: "c \<in> set (lb_clips lib)" "cl_id c = i" "\<not> in_manual lib c"
    by (auto simp: still_movable_def)
  obtain c' where "c' \<in> set (lb_clips lib)" "cl_id c' = i" "in_manual lib c'"
    using assms(4) by (auto simp: held_by_user_def list_ex_iff in_manual_def)
  with c show False using keyed_inj [OF assms(1)] by metis
qed

lemma rebuild_cluster_lib:
  assumes "prepare_refresh (before (rb_lib st)) cfg (Fresh (cluster_drive now cs)) None (Some (List.map cl_id cs)) = Inr plan"
    and "m = between (before (rb_lib st))" and "current = still_movable m (List.map cl_id cs)"
    and "unchanged_rows cs current"
    and "t = (case reusable m (journeys_of current) (rb_used st) final n (List.map cl_id cs) of
          Some d \<Rightarrow> Stored d | None \<Rightarrow> Fresh (cluster_drive now cs))"
  shows "rb_lib (rebuild_cluster now cfg since final (before, between) (n, cs) st) =
    (if length current < js_min_recordings cfg
     then if outside_member since m (journeys_of current) then m else attach (List.map cl_id cs) None m
     else case publish_refresh now m t True plan of Inl e \<Rightarrow> m | Inr r \<Rightarrow> snd r)"
  using assms by (simp add: rebuild_cluster_def put_off_def Let_def split: sum.split prod.split)

lemma rebuild_cluster_keeps:
  fixes n :: nat and final :: "row_id \<Rightarrow> nat option" and since :: "usec option"
  assumes "stores_keyed (met now cfg others cs (rb_lib st))" and "distinct (List.map cl_id cs)"
  defines "lib' \<equiv> rb_lib (rebuild_cluster now cfg since final others (n, cs) st)"
  shows "stores_keyed lib'"
    and "held_by_user i j (met now cfg others cs (rb_lib st)) \<Longrightarrow> held_by_user i j lib'"
proof -
  let ?ids = "List.map cl_id cs" and ?m = "met now cfg others cs (rb_lib st)"
  have "stores_keyed lib' \<and> (held_by_user i j ?m \<longrightarrow> held_by_user i j lib')"
  proof (cases "prepare_refresh (fst others (rb_lib st)) cfg (Fresh (cluster_drive now cs)) None (Some ?ids)")
    case (Inl e)
    then have "lib' = ?m" by (simp add: lib'_def rebuild_cluster_def put_off_def met_def Let_def case_prod_unfold)
    with assms(1) show ?thesis by simp
  next
    case (Inr plan)
    then have m: "?m = snd others (fst others (rb_lib st))" by (simp add: met_def)
    let ?now = "still_movable ?m ?ids"
    show ?thesis
    proof (cases "unchanged_rows cs ?now")
      case False
      then have "lib' = ?m"
        using Inr by (simp add: lib'_def rebuild_cluster_def put_off_def Let_def case_prod_unfold m)
      with assms(1) show ?thesis by simp
    next
      case True
      have free: "i \<notin> set ?ids" if "held_by_user i j ?m"
        using unchanged_none_manual [OF _ assms(2) True that] assms(1) by (simp add: stores_keyed_def)
      define t where "t = (case reusable ?m (journeys_of ?now) (rb_used st) final n ?ids of
          Some d \<Rightarrow> Stored d | None \<Rightarrow> Fresh (cluster_drive now cs))"
      consider "lib' = ?m" | "lib' = attach ?ids None ?m"
        | k where "publish_refresh now ?m t True plan = Inr (k, lib')"
      proof -
        have "lib' = (if length ?now < js_min_recordings cfg
            then if outside_member since ?m (journeys_of ?now) then ?m else attach ?ids None ?m
            else case publish_refresh now ?m t True plan of Inl e \<Rightarrow> ?m | Inr r \<Rightarrow> snd r)"
          using rebuild_cluster_lib [of "fst others" st cfg now cs plan ?m "snd others", OF Inr m refl True t_def]
          by (simp add: lib'_def)
        then show thesis using that by (auto split: if_splits sum.splits)
      qed
      then show ?thesis
      proof cases
        case 1
        with assms(1) show ?thesis by simp
      next
        case 2
        have "regroups (set ?ids) None ?m lib'" unfolding 2 by (rule attach_regroups)
        from regroups_keeps [OF this _ _ assms(1)] show ?thesis
          using assms(1) free by (simp add: 2 stores_keyed_def)
      next
        case 3
        have t: "case t of Stored d \<Rightarrow> d \<in> set (lb_drives ?m) | Fresh d \<Rightarrow> \<not> dr_manual d"
          by (auto simp: t_def reusable_def cluster_drive_def new_drive_def dest!: find_SomeD split: option.split)
        have key: "keyed cl_id (lb_clips ?m)" "keyed dr_id (lb_drives ?m)"
          using assms(1) by (simp_all add: stores_keyed_def)
        note d = publish_drives [OF 3 t key(2)]
        have "rn_expected plan = clip_snapshot (fst others (rb_lib st)) ?ids" using prepare_plan(2) [OF Inr] by simp
        then have "cl_id ` set (rn_expected plan) \<subseteq> set ?ids" by (auto simp: clip_snapshot_def)
        with free have "i \<notin> cl_id ` set (rn_expected plan)" if "held_by_user i j ?m" using that by blast
        with regroups_keeps [OF publish_regroups [OF key(1) Inr 3] _ d(3) assms(1)] d(2)
        show ?thesis by simp
      qed
    qed
  qed
  then show "stores_keyed lib'" "held_by_user i j ?m \<Longrightarrow> held_by_user i j lib'" by blast+
qed

text \<open>The states between the clusters, and the moments at which the user may have stepped in.\<close>

definition clusters_of :: "journey_settings \<Rightarrow> usec option \<Rightarrow> library \<Rightarrow> clip list list" where
  "clusters_of cfg since lib = plan_clusters cfg (prepare_positions since lib) (planned_rows since lib)"

definition left_by ::
  "usec \<Rightarrow> journey_settings \<Rightarrow> usec option \<Rightarrow> interference \<Rightarrow> library \<Rightarrow> nat \<Rightarrow> rebuild_state" where
  "left_by now cfg since others lib n =
     fold (\<lambda>(k, cs). rebuild_cluster now cfg since (last_cluster (clusters_of cfg since lib)) (others k) (k, cs))
       (take n (List.enumerate 0 (clusters_of cfg since lib)))
       \<lparr>rb_lib = prepare_positions since lib, rb_used = [], rb_sources = [], rb_deferred = [], rb_count = 0\<rparr>"

fun library_at ::
  "usec \<Rightarrow> journey_settings \<Rightarrow> usec option \<Rightarrow> interference \<Rightarrow> library \<Rightarrow> nat \<Rightarrow> library" where
  "library_at now cfg since others lib 0 = lib"
| "library_at now cfg since others lib (Suc n) =
     met now cfg (others n) (clusters_of cfg since lib ! n) (rb_lib (left_by now cfg since others lib n))"

lemma left_by_Suc:
  assumes "n < length (clusters_of cfg since lib)"
  shows "left_by now cfg since others lib (Suc n) =
    rebuild_cluster now cfg since (last_cluster (clusters_of cfg since lib)) (others n)
      (n, clusters_of cfg since lib ! n) (left_by now cfg since others lib n)"
  using assms by (simp add: left_by_def take_Suc_conv_app_nth nth_enumerate_eq)

lemma positions_kept:
  assumes "stores_keyed lib"
  shows "stores_keyed (prepare_positions since lib)"
    and "held_by_user i j lib \<Longrightarrow> held_by_user i j (prepare_positions since lib)"
proof -
  let ?base = "prepare_positions since lib"
  obtain h where h: "lb_clips ?base = List.map h (lb_clips lib)"
    "\<forall>c. ident (h c) = ident c \<and> cl_journey_id (h c) = cl_journey_id c" "lb_drives ?base = lb_drives lib"
    using fold_positions_clips unfolding prepare_positions_def by blast
  have id: "cl_id (h c) = cl_id c" for c using h(2) ident_sel(1) by blast
  have j: "cl_journey_id (h c) = cl_journey_id c" for c using h(2) by blast
  have "List.map cl_id (lb_clips ?base) = List.map cl_id (lb_clips lib)" by (simp add: h(1) id)
  then show "stores_keyed ?base" using assms h(3) by (simp add: stores_keyed_def keyed_def)
  show "held_by_user i j lib \<Longrightarrow> held_by_user i j ?base"
    by (auto simp: held_by_user_def list_ex_iff h(1) id j manual_ids_def h(3))
qed

lemma clusters_distinct:
  assumes "stores_keyed lib" and "cs \<in> set (clusters_of cfg since lib)"
  shows "distinct (List.map cl_id cs)"
proof -
  have key: "keyed cl_id (lb_clips lib)" "keyed cl_id (lb_clips (prepare_positions since lib))"
    using assms(1) positions_kept(1) [OF assms(1)] by (simp_all add: stores_keyed_def)
  have "concat (clusters_of cfg since lib) = movable since (prepare_positions since lib)"
    unfolding clusters_of_def plan_clusters_def planned_rows_movable [OF key(1)] by (rule cluster_concat)
  moreover have "distinct (List.map cl_id (movable since (prepare_positions since lib)))"
    using key(2) by (auto simp: movable_def eligible_def keyed_def distinct_map intro: inj_on_subset)
  ultimately have "distinct (concat (List.map (List.map cl_id) (clusters_of cfg since lib)))"
    by (metis map_concat)
  then show ?thesis using assms(2) by (auto simp: distinct_concat_iff)
qed

definition keys_respected :: "interference \<Rightarrow> bool" where
  "keys_respected others \<longleftrightarrow>
     (\<forall>n l. stores_keyed l \<longrightarrow> stores_keyed (fst (others n) l) \<and> stores_keyed (snd (others n) l))"

definition user_respected :: "row_id \<Rightarrow> row_id \<Rightarrow> (library \<Rightarrow> library) \<times> (library \<Rightarrow> library) \<Rightarrow> bool" where
  "user_respected i j writers \<longleftrightarrow>
     (\<forall>l. held_by_user i j l \<longrightarrow> held_by_user i j (fst writers l) \<and> held_by_user i j (snd writers l))"

lemma met_keeps:
  "keys_respected others \<Longrightarrow> stores_keyed l \<Longrightarrow> stores_keyed (met now cfg (others n) cs l)"
  "user_respected i j (others n) \<Longrightarrow> held_by_user i j l \<Longrightarrow> held_by_user i j (met now cfg (others n) cs l)"
  by (auto simp: met_def keys_respected_def user_respected_def split: sum.split)

lemma left_by_keyed:
  assumes "stores_keyed lib" and "keys_respected others"
  shows "n \<le> length (clusters_of cfg since lib) \<Longrightarrow> stores_keyed (rb_lib (left_by now cfg since others lib n))"
proof (induction n)
  case 0
  then show ?case using positions_kept(1) [OF assms(1)] by (simp add: left_by_def)
next
  case (Suc n)
  let ?css = "clusters_of cfg since lib"
  have n: "n < length ?css" and m: "stores_keyed (rb_lib (left_by now cfg since others lib n))" using Suc by simp_all
  show ?case
    unfolding left_by_Suc [OF n]
    by (rule rebuild_cluster_keeps(1) [OF met_keeps(1) [OF assms(2) m] clusters_distinct [OF assms(1) nth_mem [OF n]]])
qed

lemma left_by_held:
  assumes "stores_keyed lib" and "keys_respected others"
    and held: "held_by_user i j (rb_lib (left_by now cfg since others lib n))"
    and "\<forall>k. n \<le> k \<longrightarrow> user_respected i j (others k)"
  shows "n \<le> m \<Longrightarrow> m \<le> length (clusters_of cfg since lib) \<Longrightarrow>
    held_by_user i j (rb_lib (left_by now cfg since others lib m))"
proof (induction m rule: dec_induct)
  case base
  show ?case by (rule held)
next
  case (step m)
  let ?css = "clusters_of cfg since lib" and ?l = "rb_lib (left_by now cfg since others lib m)"
  have m: "m < length ?css" and ih: "held_by_user i j ?l" using step by simp_all
  have key: "stores_keyed ?l" using left_by_keyed [OF assms(1,2)] m by simp
  have "user_respected i j (others m)" using assms(4) step.hyps(1) by blast
  then have "held_by_user i j (met now cfg (others m) (?css ! m) ?l)" by (rule met_keeps(2) [OF _ ih])
  then show ?case
    unfolding left_by_Suc [OF m]
    by (rule rebuild_cluster_keeps(2) [OF met_keeps(1) [OF assms(2) key] clusters_distinct [OF assms(1) nth_mem [OF m]]])
qed

lemma same_groups_held:
  "same_groups lib lib' \<Longrightarrow> held_by_user i j lib \<Longrightarrow> held_by_user i j lib'"
proof -
  assume "same_groups lib lib'" and held: "held_by_user i j lib"
  then obtain g where g: "lb_clips lib' = List.map g (lb_clips lib)" "keeps_ident g (lb_clips lib)"
    "\<forall>c \<in> set (lb_clips lib). cl_journey_id (g c) = cl_journey_id c"
    "set (manual_ids lib') = set (manual_ids lib)" by (auto simp: same_groups_def)
  obtain c where c: "c \<in> set (lb_clips lib)" "cl_id c = i" "cl_journey_id c = Some j"
    using held by (auto simp: held_by_user_def list_ex_iff)
  then have "ident (g c) = ident c" using g(2) by (simp add: keeps_ident_def)
  from ident_sel(1) [OF this] c g(3) have "cl_id (g c) = i" "cl_journey_id (g c) = Some j" by simp_all
  moreover have "g c \<in> set (lb_clips lib')" using c(1) by (simp add: g(1))
  moreover have "j \<in> set (manual_ids lib')" using held g(4) by (simp add: held_by_user_def)
  ultimately show "held_by_user i j lib'" unfolding held_by_user_def list_ex_iff by blast
qed

text \<open>C15: a rebuild leaves the journeys of the user alone, whatever else is written while it runs.
  Take a recording that is in a journey edited by hand when the rebuild starts, or that comes to
  be in one (the user merges or splits) before any of the clusters is published, its own cluster
  included, and that nobody else takes out again. After the rebuild, of the whole library or of
  what is newer than a cutoff, the recording is still in that journey and the journey is still
  the user's: each cluster reads its rows again before it attaches them. Other writers are
  arbitrary functions that keep the primary keys; they do not write during the closing phase,
  which only recomputes journeys that recordings were taken from.\<close>

theorem manual_journeys_kept:
  assumes "js_enabled cfg" and "stores_keyed lib" and "keys_respected others"
    and "k \<le> length (clusters_of cfg since lib)"
    and "held_by_user i j (library_at now cfg since others lib k)"
    and "\<forall>n. k \<le> Suc n \<longrightarrow> user_respected i j (others n)"
  shows "held_by_user i j (snd (rebuild now cfg since others lib))"
proof (cases "eligible since lib = []")
  case True
  then have "clusters_of cfg since lib = []"
    by (simp add: clusters_of_def plan_clusters_def planned_rows_def movable_def map_filter_simps)
  with True assms(4,5) show ?thesis by (simp add: rebuild_def)
next
  case False
  let ?css = "clusters_of cfg since lib" and ?left = "left_by now cfg since others lib"
  obtain k' where k': "k' \<le> length ?css" "held_by_user i j (rb_lib (?left k'))"
    "\<forall>n. k' \<le> n \<longrightarrow> user_respected i j (others n)"
  proof (cases k)
    case 0
    have "held_by_user i j (rb_lib (?left 0))"
      using 0 assms(5) positions_kept(2) [OF assms(2)] by (simp add: left_by_def)
    with 0 assms(6) show thesis by (intro that [of 0]) simp_all
  next
    case (Suc n)
    then have n: "n < length ?css" using assms(4) by simp
    have key: "stores_keyed (rb_lib (?left n))" using left_by_keyed [OF assms(2,3)] n by simp
    have "held_by_user i j (rb_lib (?left (Suc n)))"
      using rebuild_cluster_keeps(2) [OF met_keeps(1) [OF assms(3) key] clusters_distinct [OF assms(2) nth_mem [OF n]]]
        assms(5) Suc by (simp add: left_by_Suc [OF n])
    with Suc assms(4,6) show thesis by (intro that [of k]) simp_all
  qed
  define st where "st = ?left (length ?css)"
  have st: "st = run_clusters now cfg since others ?css (prepare_positions since lib)"
    by (simp add: st_def left_by_def run_clusters_def)
  have held: "held_by_user i j (rb_lib st)"
    unfolding st_def using left_by_held [OF assms(2,3) k'(2,3)] k'(1) by blast
  have "stores_keyed (rb_lib st)" unfolding st_def using left_by_keyed [OF assms(2,3)] by blast
  then have "same_groups (rb_lib st) (fold (finish_source now cfg since) js (rb_lib st))" for js
    by (intro finish_sources_same) (simp_all add: stores_keyed_def)
  from same_groups_held [OF this held] False assms(1) show ?thesis
    by (simp add: rebuild_def Let_def st clusters_of_def)
qed

definition edited_library :: library where
  "edited_library = sample_library\<lparr>lb_drives := [(new_drive 0 0 1)\<lparr>dr_id := 9, dr_manual := True\<rparr>],
     lb_clips := List.map (\<lambda>c. if cl_id c = 2 then c\<lparr>cl_journey_id := Some 9\<rparr> else c) sample_clips\<rparr>"

text \<open>Journey 9 holds recording 2; while the plan of its cluster is being derived the user
  makes the journey his own.\<close>

definition grouped_library :: library where
  "grouped_library = edited_library\<lparr>lb_drives := [(new_drive 0 0 1)\<lparr>dr_id := 9\<rparr>]\<rparr>"

definition user_steps_in :: interference where
  "user_steps_in n = (id, if n = 0 then mark_manual 5 9 else id)"

lemma user_steps_in_respects: "keys_respected user_steps_in" "user_respected i j (user_steps_in n)"
proof -
  have "d \<in> set (lb_drives (mark_manual 5 9 l))" if "d \<in> set (lb_drives l)" "dr_manual d" for d l
    using that by (force simp: mark_manual_def update_row_def set_update_where)
  then have "set (manual_ids l) \<subseteq> set (manual_ids (mark_manual 5 9 l))" for l
    by (auto simp: manual_ids_def)
  moreover have "lb_clips (mark_manual 5 9 l) = lb_clips l" for l by (simp add: mark_manual_def)
  ultimately show "user_respected i j (user_steps_in n)"
    by (auto simp: user_respected_def user_steps_in_def held_by_user_def)
  show "keys_respected user_steps_in"
    by (simp add: keys_respected_def user_steps_in_def stores_keyed_def mark_manual_def update_row_def)
qed

lemma grouped_positions: "prepare_positions since grouped_library = grouped_library"
proof -
  have "refresh_start_positions ids grouped_library = grouped_library" for ids
    by (simp add: grouped_library_def edited_library_def sample_library_def sample_clips_def sample_clip_def
        refresh_start_positions_def earliest_fix_def located_def first_fix_def update_where_def)
  then have "fold refresh_start_positions idss grouped_library = grouped_library" for idss
    by (induction idss) simp_all
  then show ?thesis by (simp add: prepare_positions_def)
qed

lemma grouped_clusters:
  "List.map (List.map cl_id) (clusters_of sample_settings None grouped_library) = [[1, 2], [3]]"
proof -
  have "keyed cl_id (lb_clips grouped_library)"
    by (simp add: keyed_def grouped_library_def edited_library_def sample_clips_def sample_clip_def)
  then have "planned_rows None grouped_library = movable None grouped_library"
    using planned_rows_movable [of grouped_library None] by (simp only: grouped_positions)
  moreover have "movable None grouped_library = lb_clips grouped_library"
    by (simp add: movable_def eligible_def grouped_library_def edited_library_def sample_library_def sample_clips_def
        sample_clip_def in_manual_def manual_ids_def new_drive_def clip_start_def journey_ready_def seconds_def)
  ultimately show ?thesis
    unfolding clusters_of_def grouped_positions
    by (simp add: plan_clusters_def intentional_gaps_def grouped_library_def edited_library_def sample_library_def
        sample_clips_def sample_clip_def sample_settings_def clip_start_def clip_end_def end_or_start_def
        same_journey_def jumped_def blocks_def barriers_of_def intentional_intervals_def no_barriers_def seconds_def
        min_list_opt_def max_list_opt_def later_ending_def)
qed

lemma manual_journeys_kept_witness:
  "\<not> held_by_user 2 9 grouped_library \<and>
   held_by_user 2 9 (snd (rebuild 0 sample_settings None user_steps_in grouped_library))"
proof
  let ?lib = grouped_library and ?css = "clusters_of sample_settings None grouped_library"
  have css: "length ?css = 2" "List.map cl_id (?css ! 0) = [1, 2]"
    using arg_cong [OF grouped_clusters, of length] arg_cong [OF grouped_clusters, of "\<lambda>x. x ! 0"]
    by simp_all
  have "rb_lib (left_by 0 sample_settings None user_steps_in ?lib 0) = ?lib"
    by (simp add: left_by_def grouped_positions)
  moreover have "prepare_refresh ?lib sample_settings (Fresh d) None (Some [1, 2]) \<noteq> Inl e" for d e
    by (simp add: prepare_refresh_def stored_stamp_def clip_snapshot_def Let_def grouped_library_def edited_library_def
        sample_clips_def sample_clip_def)
  ultimately have "library_at 0 sample_settings None user_steps_in ?lib (Suc 0) = mark_manual 5 9 ?lib"
    by (auto simp: met_def css(2) user_steps_in_def split: sum.split)
  moreover have "held_by_user 2 9 (mark_manual 5 9 ?lib)"
    by (simp add: held_by_user_def mark_manual_def manual_ids_def update_row_def update_where_def grouped_library_def
        edited_library_def sample_clips_def sample_clip_def new_drive_def)
  ultimately have at: "held_by_user 2 9 (library_at 0 sample_settings None user_steps_in ?lib (Suc 0))" by (simp only:)
  have "js_enabled sample_settings" "stores_keyed ?lib"
    by (simp_all add: sample_settings_def stores_keyed_def keyed_def grouped_library_def edited_library_def
        sample_clips_def sample_clip_def)
  from manual_journeys_kept [OF this user_steps_in_respects(1) _ at] user_steps_in_respects(2) css(1)
  show "held_by_user 2 9 (snd (rebuild 0 sample_settings None user_steps_in ?lib))" by simp
  show "\<not> held_by_user 2 9 ?lib"
    by (simp add: held_by_user_def manual_ids_def grouped_library_def new_drive_def)
qed

text \<open>C16: a refresh publishes only onto what it has read. When the refresh of a stored journey
  commits, after whatever others wrote in the meantime, the journey row had neither been edited
  nor become the user's, it has the very members that were read, and every row of them is the
  row that was read; otherwise nothing is written.\<close>

theorem refresh_is_compare_and_swap:
  assumes "refresh now cfg (Stored d) None lib later = Inr (i, lib')"
  shows "\<exists>row row'. get_row dr_id (dr_id d) (lb_drives lib) = Some row \<and>
    row' \<in> set (lb_drives later) \<and> dr_id row' = dr_id d \<and>
    dr_updated_at row' = dr_updated_at row \<and> dr_manual row' = dr_manual row \<and>
    set (member_ids (dr_id d) later) = set (member_ids (dr_id d) lib) \<and>
    clip_snapshot later (member_ids (dr_id d) later) = clip_snapshot lib (member_ids (dr_id d) lib)"
proof -
  obtain plan where plan: "prepare_refresh lib cfg (Stored d) None None = Inr plan"
    and ok: "plan_conflict later (Stored d) False plan = None"
    using assms by (auto simp: refresh_def publish_refresh_def split: sum.splits option.splits)
  obtain stamp where stamp: "stored_stamp lib (Stored d) = Inr stamp" "rn_expected_drive plan = stamp"
    "rn_expected plan = clip_snapshot lib (member_ids (dr_id d) lib)"
    "rn_members plan = Some (member_ids (dr_id d) lib)"
    using plan by (auto simp: prepare_refresh_def Let_def split: sum.splits if_splits)
  obtain row where row: "get_row dr_id (dr_id d) (lb_drives lib) = Some row"
    "rn_expected_drive plan = Some (dr_updated_at row, dr_manual row)"
    using stamp(1,2) by (auto simp: stored_stamp_def split: option.splits if_splits)
  note row = row stamp(3,4)
  have same: "clip_snapshot later (List.map cl_id (rn_expected plan)) = rn_expected plan"
    "set (member_ids (dr_id d) later) = set (member_ids (dr_id d) lib)"
    "list_ex (\<lambda>r. dr_id r = dr_id d \<and> (dr_updated_at r, dr_manual r) = (dr_updated_at row, dr_manual row)) (lb_drives later)"
    using ok unfolding plan_conflict_def row(2,4) by (simp_all add: Let_def split: if_splits)
  have "set (List.map cl_id (rn_expected plan)) = set (member_ids (dr_id d) lib)"
    by (force simp: row(3) clip_snapshot_def member_ids_def)
  then have "clip_snapshot later (member_ids (dr_id d) later) = clip_snapshot later (List.map cl_id (rn_expected plan))"
    by (simp only: clip_snapshot_def same(2))
  with same row(1,3) show ?thesis by (auto simp: list_ex_iff)
qed

definition edited_drive :: drive where
  "edited_drive = (new_drive 0 0 1)\<lparr>dr_id := 9, dr_manual := True\<rparr>"

lemma refresh_is_compare_and_swap_witness:
  "\<exists>row row'. get_row dr_id 9 (lb_drives edited_library) = Some row \<and>
    row' \<in> set (lb_drives edited_library) \<and> dr_id row' = 9 \<and>
    dr_updated_at row' = dr_updated_at row \<and> dr_manual row' = dr_manual row \<and>
    set (member_ids 9 edited_library) = set (member_ids 9 edited_library) \<and>
    clip_snapshot edited_library (member_ids 9 edited_library) = clip_snapshot edited_library (member_ids 9 edited_library)"
proof -
  have d: "dr_id edited_drive = 9" by (simp add: edited_drive_def)
  have row: "get_row dr_id 9 (lb_drives edited_library) = Some edited_drive"
    by (simp add: edited_library_def edited_drive_def get_row_def new_drive_def)
  have ids: "member_ids 9 edited_library = [2]"
    by (simp add: member_ids_def is_member_def edited_library_def sample_clips_def sample_clip_def journey_ready_def
        sample_library_def)
  have "\<exists>r. refresh 0 sample_settings (Stored edited_drive) None edited_library edited_library = Inr r"
    using row ids d
    by (auto simp: refresh_def prepare_refresh_def stored_stamp_def clip_snapshot_def publish_refresh_def
        plan_conflict_def store_target_def edited_library_def sample_clips_def sample_clip_def Let_def edited_drive_def
        sample_library_def new_drive_def)
  then obtain i lib' where
    "refresh 0 sample_settings (Stored edited_drive) None edited_library edited_library = Inr (i, lib')" by auto
  from refresh_is_compare_and_swap [OF this] show ?thesis unfolding d .
qed

subsection \<open>Stale rollups\<close>

lemma emptied_keeps_distance:
  "impossible_distance (rf_drive (derive_refresh lib cfg d [])) = impossible_distance d"
  by (simp add: derive_refresh_def impossible_distance_def cong: option.case_cong)

text \<open>A refreshed journey is not asked for again. Whatever its recordings, their telemetry and the
  row it started from, a journey that has just been recomputed never claims positions, a drive
  and no distance, which is the state the repair looks for: the pass over unset rollups reaches a
  fixed point.\<close>

theorem refreshed_is_computed: "\<not> never_computed (rf_drive (derive_refresh lib cfg d cs))"
proof (cases "cs = []")
  case True
  have "me_status (ma_evidence (assess_motion [])) = MotionUnknown"
    by (simp add: assess_motion_def cleaned_def movement_of_def has_sparse_leg_def Let_def)
  with True show ?thesis by (simp add: never_computed_def derive_refresh_def)
next
  case False
  have "\<not> never_computed ((drive_of_track m good track e)\<lparr>dr_vehicle_count := v, dr_plate_count := w\<rparr>)"
    for m good track e v w
  proof (cases "me_status (ma_evidence (assess_motion track)) = Moving")
    case True
    then have "track \<noteq> []"
      by (auto simp: assess_motion_def cleaned_def movement_of_def has_sparse_leg_def Let_def)
    then have "ma_track (assess_motion track) \<noteq> []" by (simp add: assess_motion_def cleaned_def Let_def)
    with True show ?thesis by (simp add: never_computed_def drive_of_track_def measure_drive_def Let_def)
  qed (simp add: never_computed_def drive_of_track_def Let_def)
  with False show ?thesis by (simp add: derive_refresh_def Let_def split: prod.split)
qed

end
