(* ===== verification/Queue.thy ===== *)
theory Queue
  imports Models "HOL-Library.Product_Lexorder"
begin

section \<open>The durable work queue\<close>

text \<open>
  Models \<^verbatim>\<open>backend/app/workers/queue.py\<close> over the \<^verbatim>\<open>processing_jobs\<close> and
  \<^verbatim>\<open>recordings\<close> tables: pause and reset markers, enqueue, claim, heartbeat, complete,
  fail with its retry budgets, clear, cancel, retry, the three start-up reconciliations, the
  two reclaims, the release of stranded recordings and the statistics. The clock
  (\<^verbatim>\<open>datetime.now(UTC)\<close>) is the argument \<open>now\<close>, one instant for one call; a setting is an
  argument; logging is left out. A query without an \<^verbatim>\<open>ORDER BY\<close>, and a tie in one, is
  answered in primary-key order.
\<close>

subsection \<open>Constants\<close>

definition RESET_REASON :: string where
  "RESET_REASON = ''cleared by a full reprocess reset''"

definition BACKOFF_S :: "int list" where
  "BACKOFF_S = [30, 300, 1800]"

definition CONTENTION_BACKOFF_S :: int where
  "CONTENTION_BACKOFF_S = 20"

definition MAX_CONTENTION_RETRIES :: int where
  "MAX_CONTENTION_RETRIES = 6"

subsection \<open>The pause flag and the reset epoch\<close>

text \<open>
  The two module globals and the two marker files beside the database. The content of the
  reset marker is what \<^verbatim>\<open>datetime.fromisoformat\<close> makes of it; \<open>io\<close> says whether the
  filesystem call of an operation succeeds (an \<^verbatim>\<open>OSError\<close> is logged and swallowed).
\<close>

datatype iso_text = IsoAware usec | IsoNaive usec | IsoMalformed

record run_flags =
  paused :: bool
  pause_marker :: bool
  reset_at :: "usec option"
  reset_marker :: "iso_text option"

definition restore_reset_epoch :: "bool \<Rightarrow> run_flags \<Rightarrow> usec option \<times> run_flags" where
  "restore_reset_epoch io f =
     (let f0 = f\<lparr>reset_at := None\<rparr> in
      if \<not> io then (None, f0)
      else case reset_marker f0 of
             None \<Rightarrow> (None, f0)
           | Some IsoMalformed \<Rightarrow> (None, f0)
           | Some (IsoAware t) \<Rightarrow> (Some t, f0\<lparr>reset_at := Some t\<rparr>)
           | Some (IsoNaive t) \<Rightarrow> (Some t, f0\<lparr>reset_at := Some t\<rparr>))"

definition record_reset :: "bool \<Rightarrow> usec \<Rightarrow> run_flags \<Rightarrow> run_flags" where
  "record_reset io moment f =
     (let f1 = f\<lparr>reset_at := Some moment\<rparr> in
      if io then f1\<lparr>reset_marker := Some (IsoAware moment)\<rparr> else f1)"

definition current_run :: "run_flags \<Rightarrow> job \<Rightarrow> bool" where
  "current_run f j = (case reset_at f of None \<Rightarrow> True | Some epoch \<Rightarrow> epoch \<le> j_queued_at j)"

definition restore_pause_state :: "bool \<Rightarrow> run_flags \<Rightarrow> bool \<times> run_flags" where
  "restore_pause_state io f =
     (let p = (if io then pause_marker f else False) in (p, f\<lparr>paused := p\<rparr>))"

definition pause :: "bool \<Rightarrow> run_flags \<Rightarrow> run_flags" where
  "pause io f = (let f1 = f\<lparr>paused := True\<rparr> in if io then f1\<lparr>pause_marker := True\<rparr> else f1)"

definition resume :: "bool \<Rightarrow> run_flags \<Rightarrow> run_flags" where
  "resume io f = (let f1 = f\<lparr>paused := False\<rparr> in if io then f1\<lparr>pause_marker := False\<rparr> else f1)"

subsection \<open>Enqueue\<close>

definition live_job_of :: "row_id \<Rightarrow> db \<Rightarrow> job option" where
  "live_job_of i d = List.find (\<lambda>j. j_recording_id j = Some i \<and> live j) (db_jobs d)"

definition supersede :: "usec \<Rightarrow> row_id \<Rightarrow> db \<Rightarrow> db" where
  "supersede now i d =
     db_update_jobs
       (\<lambda>j. j_recording_id j = Some i \<and> (j_state j = JQueued \<or> j_state j = JFailed))
       (\<lambda>j. j\<lparr>j_state := JCancelled, j_finished_at := Some now, j_worker_id := None,
              j_error_message := Some ''superseded by a newer request''\<rparr>) d"

definition new_job ::
  "int \<Rightarrow> usec \<Rightarrow> row_id option \<Rightarrow> job_kind \<Rightarrow> string list option \<Rightarrow> int \<Rightarrow> db \<Rightarrow> job" where
  "new_job retry_max now rid kind stages priority d =
     \<lparr>j_id = next_id j_id (db_jobs d), j_recording_id = rid, j_kind = kind, j_stages = stages,
      j_state = JQueued, j_priority = priority, j_attempts = 0, j_max_attempts = retry_max + 1,
      j_progress = 0, j_stage_current = None, j_speed_realtime = None, j_decoder = None,
      j_inference_device = None, j_resource_state = None, j_worker_id = None,
      j_heartbeat_at = None, j_queued_at = now, j_started_at = None, j_finished_at = None,
      j_not_before = None, j_error_message = None, j_result = None\<rparr>"

definition insert_job :: "job \<Rightarrow> db \<Rightarrow> db" where
  "insert_job j d = d\<lparr>db_jobs := db_jobs d @ [j]\<rparr>"

definition mark_recording_queued :: "row_id option \<Rightarrow> db \<Rightarrow> db" where
  "mark_recording_queued rid d =
     (case rid of
        None \<Rightarrow> d
      | Some i \<Rightarrow> db_update_recordings
          (\<lambda>r. r_id r = i \<and> r_state r \<noteq> RProcessing \<and> r_state r \<noteq> RQueued)
          (\<lambda>r. r\<lparr>r_state := RQueued\<rparr>) d)"

definition add_job ::
  "int \<Rightarrow> usec \<Rightarrow> row_id option \<Rightarrow> job_kind \<Rightarrow> string list option \<Rightarrow> int \<Rightarrow> db \<Rightarrow> job \<times> db" where
  "add_job retry_max now rid kind stages priority d =
     (let j = new_job retry_max now rid kind stages priority d
      in (j, mark_recording_queued rid (insert_job j d)))"

definition enqueue ::
  "int \<Rightarrow> usec \<Rightarrow> row_id option \<Rightarrow> job_kind \<Rightarrow> string list option \<Rightarrow> int \<Rightarrow> bool \<Rightarrow> db \<Rightarrow> job \<times> db" where
  "enqueue retry_max now rid kind stages priority force d =
     (case rid of
        None \<Rightarrow> add_job retry_max now rid kind stages priority d
      | Some i \<Rightarrow>
          if force then add_job retry_max now rid kind stages priority (supersede now i d)
          else (case live_job_of i d of
                  Some j \<Rightarrow> (j, d)
                | None \<Rightarrow> add_job retry_max now rid kind stages priority d))"

subsection \<open>Claim\<close>

definition due :: "usec \<Rightarrow> job \<Rightarrow> bool" where
  "due now j = (case j_not_before j of None \<Rightarrow> True | Some t \<Rightarrow> t \<le> now)"

definition already_running :: "db \<Rightarrow> job \<Rightarrow> bool" where
  "already_running d j \<longleftrightarrow>
     (\<exists>b \<in> set (db_jobs d). j_state b = JRunning \<and> j_recording_id b \<noteq> None \<and>
        j_recording_id b = j_recording_id j)"

definition claimable :: "usec \<Rightarrow> row_id list \<Rightarrow> db \<Rightarrow> job \<Rightarrow> bool" where
  "claimable now active d j \<longleftrightarrow>
     j_state j = JQueued \<and> due now j \<and> \<not> already_running d j \<and>
     (case j_recording_id j of
        None \<Rightarrow> True
      | Some i \<Rightarrow> i \<notin> set active \<and> visible_recording d i)"

definition recording_started :: "db \<Rightarrow> job \<Rightarrow> usec option" where
  "recording_started d j =
     Option.bind (j_recording_id j) (\<lambda>i. Option.bind (get_recording i d) r_started_at)"

text \<open>\<^verbatim>\<open>ORDER BY priority, started_at IS NULL, started_at, queued_at\<close>.\<close>

definition claim_key :: "db \<Rightarrow> job \<Rightarrow> int \<times> bool \<times> usec \<times> usec" where
  "claim_key d j =
     (j_priority j, recording_started d j = None,
      (case recording_started d j of None \<Rightarrow> 0 | Some t \<Rightarrow> t), j_queued_at j)"

definition next_queued :: "usec \<Rightarrow> row_id list \<Rightarrow> db \<Rightarrow> job option" where
  "next_queued now active d =
     (case filter (claimable now active d) (db_jobs d) of
        [] \<Rightarrow> None
      | j # js \<Rightarrow> Some (arg_min_list (claim_key d) (j # js)))"

definition claimed_row :: "usec \<Rightarrow> string \<Rightarrow> job \<Rightarrow> job" where
  "claimed_row now worker j =
     j\<lparr>j_state := JRunning, j_worker_id := Some worker, j_started_at := Some now,
       j_heartbeat_at := Some now, j_attempts := j_attempts j + 1, j_progress := 0,
       j_finished_at := None, j_error_message := None\<rparr>"

definition clear_recording_error :: "row_id option \<Rightarrow> db \<Rightarrow> db" where
  "clear_recording_error rid d =
     (case rid of None \<Rightarrow> d
      | Some i \<Rightarrow> db_update_recordings (\<lambda>r. r_id r = i) (\<lambda>r. r\<lparr>r_error_message := None\<rparr>) d)"

definition claim_next ::
  "run_flags \<Rightarrow> usec \<Rightarrow> string \<Rightarrow> row_id list \<Rightarrow> db \<Rightarrow> job option \<times> db" where
  "claim_next f now worker active d =
     (if paused f then (None, d)
      else if \<not> (\<exists>j \<in> set (db_jobs d). j_state j = JQueued \<and> due now j) then (None, d)
      else case next_queued now active d of
             None \<Rightarrow> (None, d)
           | Some j \<Rightarrow>
               (Some (claimed_row now worker j),
                clear_recording_error (j_recording_id j)
                  (db_update_jobs (\<lambda>k. j_id k = j_id j \<and> j_state k = JQueued)
                     (claimed_row now worker) d)))"

subsection \<open>Heartbeat and outcomes\<close>

definition set_if :: "'a option \<Rightarrow> ('a \<Rightarrow> 'r \<Rightarrow> 'r) \<Rightarrow> 'r \<Rightarrow> 'r" where
  "set_if v upd r = (case v of None \<Rightarrow> r | Some x \<Rightarrow> upd x r)"

definition heartbeat_row ::
  "usec \<Rightarrow> real option \<Rightarrow> string option \<Rightarrow> real option \<Rightarrow> string option \<Rightarrow> string option \<Rightarrow>
   string option \<Rightarrow> job \<Rightarrow> job" where
  "heartbeat_row now progress stage speed decoder device resource j =
     set_if resource (\<lambda>x r. r\<lparr>j_resource_state := Some x\<rparr>)
      (set_if device (\<lambda>x r. r\<lparr>j_inference_device := Some x\<rparr>)
       (set_if decoder (\<lambda>x r. r\<lparr>j_decoder := Some x\<rparr>)
        (set_if speed (\<lambda>x r. r\<lparr>j_speed_realtime := Some x\<rparr>)
         (set_if stage (\<lambda>x r. r\<lparr>j_stage_current := Some x\<rparr>)
          (set_if progress (\<lambda>x r. r\<lparr>j_progress := max 0 (min 1 x)\<rparr>)
            (j\<lparr>j_heartbeat_at := Some now\<rparr>))))))"

definition heartbeat ::
  "usec \<Rightarrow> row_id \<Rightarrow> real option \<Rightarrow> string option \<Rightarrow> real option \<Rightarrow> string option \<Rightarrow>
   string option \<Rightarrow> string option \<Rightarrow> db \<Rightarrow> job_state option \<times> db" where
  "heartbeat now i progress stage speed decoder device resource d =
     (let d' = db_update_jobs (\<lambda>j. j_id j = i)
                 (heartbeat_row now progress stage speed decoder device resource) d
      in (map_option j_state (get_job i d'), d'))"

definition put_job :: "job \<Rightarrow> db \<Rightarrow> db" where
  "put_job j d = db_update_jobs (\<lambda>k. j_id k = j_id j) (\<lambda>_. j) d"

definition follow_up_after_thumbnail :: "int \<Rightarrow> usec \<Rightarrow> job \<Rightarrow> db \<Rightarrow> db" where
  "follow_up_after_thumbnail retry_max now j d =
     (case j_recording_id j of
        None \<Rightarrow> d
      | Some i \<Rightarrow>
          if j_kind j \<noteq> KThumbnail then d
          else case get_recording i d of
                 None \<Rightarrow> d
               | Some r \<Rightarrow>
                   if r_ignored r then d
                   else snd (enqueue retry_max now (Some i)
                          (if r_processed_at r \<noteq> None then KReprocess else KProcess)
                          (if j_stages j = Some [] then None else j_stages j)
                          BULK_PRIORITY False d))"

definition completed_row ::
  "usec \<Rightarrow> json \<Rightarrow> real option \<Rightarrow> string option \<Rightarrow> string option \<Rightarrow> job \<Rightarrow> job" where
  "completed_row now result speed decoder device j =
     set_if device (\<lambda>x r. r\<lparr>j_inference_device := Some x\<rparr>)
      (set_if decoder (\<lambda>x r. r\<lparr>j_decoder := Some x\<rparr>)
       (set_if speed (\<lambda>x r. r\<lparr>j_speed_realtime := Some x\<rparr>)
         (j\<lparr>j_state := JCompleted, j_finished_at := Some now, j_progress := 1,
            j_stage_current := None, j_result := Some result, j_error_message := None,
            j_resource_state := None\<rparr>)))"

definition complete ::
  "int \<Rightarrow> usec \<Rightarrow> json \<Rightarrow> real option \<Rightarrow> string option \<Rightarrow> string option \<Rightarrow> job \<Rightarrow> db \<Rightarrow> db" where
  "complete retry_max now result speed decoder device j d =
     (let j' = completed_row now result speed decoder device j
      in follow_up_after_thumbnail retry_max now j' (put_job j' d))"

text \<open>\<^verbatim>\<open>job.result or {}\<close>: anything but a dictionary with entries counts as empty.\<close>

definition result_dict :: "job \<Rightarrow> jdict" where
  "result_dict j = (case j_result j of Some (JObj r) \<Rightarrow> r | _ \<Rightarrow> [])"

definition contention_retries :: "job \<Rightarrow> py_error + int" where
  "contention_retries j =
     (case dict_get ''contention_retries'' (result_dict j) of
        None \<Rightarrow> Inr 0 | Some v \<Rightarrow> py_int v)"

definition failing_row :: "usec \<Rightarrow> string \<Rightarrow> job \<Rightarrow> job" where
  "failing_row now message j =
     j\<lparr>j_error_message := Some (take 2000 message), j_finished_at := Some now,
       j_stage_current := None, j_worker_id := None\<rparr>"

definition backoff_delay :: "job \<Rightarrow> int" where
  "backoff_delay j =
     BACKOFF_S ! nat (min (max 0 (j_attempts j - 1)) (int (length BACKOFF_S) - 1))"

definition fail_normally :: "int \<Rightarrow> usec \<Rightarrow> string \<Rightarrow> job \<Rightarrow> db \<Rightarrow> db" where
  "fail_normally retry_max now message j d =
     (if j_attempts j < j_max_attempts j then
        put_job (j\<lparr>j_state := JQueued, j_not_before := Some (now + seconds (backoff_delay j)),
                   j_result := Some (JObj (dict_put ''last_error'' (JStr (take 2000 message))
                                             (result_dict j))),
                   j_error_message := None\<rparr>) d
      else
        (let j' = j\<lparr>j_state := JFailed\<rparr>
         in follow_up_after_thumbnail retry_max now j' (put_job j' d)))"

definition refunded_row :: "usec \<Rightarrow> int \<Rightarrow> job \<Rightarrow> job" where
  "refunded_row now granted j =
     j\<lparr>j_attempts := max 0 (j_attempts j - 1), j_state := JQueued,
       j_not_before := Some (now + seconds CONTENTION_BACKOFF_S),
       j_result := Some (JObj (dict_put ''contention_retries'' (JInt granted) (result_dict j)))\<rparr>"

definition fail :: "int \<Rightarrow> usec \<Rightarrow> bool \<Rightarrow> bool \<Rightarrow> string \<Rightarrow> job \<Rightarrow> db \<Rightarrow> py_error + db" where
  "fail retry_max now permanent transient message j d =
     (let j0 = failing_row now message j in
      if permanent then
        (let j' = j0\<lparr>j_state := JFailed\<rparr>
         in Inr (follow_up_after_thumbnail retry_max now j' (put_job j' d)))
      else if transient then
        (case contention_retries j of
           Inl e \<Rightarrow> Inl e
         | Inr n \<Rightarrow>
             if n + 1 \<le> MAX_CONTENTION_RETRIES then Inr (put_job (refunded_row now (n + 1) j0) d)
             else Inr (fail_normally retry_max now message j0 d))
      else Inr (fail_normally retry_max now message j0 d))"
end
