(* ===== verification/QueueRecovery.thy ===== *)
theory QueueRecovery
  imports Queue
begin

section \<open>The work queue: clearing, cancelling, retrying, reconciling, reclaiming\<close>

text \<open>
  The second half of \<^verbatim>\<open>backend/app/workers/queue.py\<close>: the operator's gestures (clear,
  cancel, retry failed), the three reconciliations run when the pool starts, the two
  reclaims of jobs whose worker is gone, the release of stranded recordings, and the
  statistics of the queue page.
\<close>

subsection \<open>Clear\<close>

definition retired_states :: "job_state list" where
  "retired_states = [JQueued, JRunning, JFailed]"

definition cleared_row :: "usec \<Rightarrow> string \<Rightarrow> job \<Rightarrow> job" where
  "cleared_row now reason j =
     j\<lparr>j_state := JCancelled, j_finished_at := Some now, j_worker_id := None, j_progress := 0,
       j_stage_current := None, j_resource_state := None, j_not_before := None,
       j_heartbeat_at := None, j_error_message := Some reason\<rparr>"

definition count_state :: "db \<Rightarrow> job_state \<Rightarrow> nat" where
  "count_state d s = length (filter (\<lambda>j. j_state j = s) (db_jobs d))"

definition clear :: "usec \<Rightarrow> string \<Rightarrow> db \<Rightarrow> (job_state \<times> nat) list \<times> db" where
  "clear now reason d =
     (filter (\<lambda>(s, n). 0 < n) (List.map (\<lambda>s. (s, count_state d s)) retired_states),
      db_update_jobs (\<lambda>j. j_state j \<in> set retired_states) (cleared_row now reason) d)"

subsection \<open>Cancel\<close>

definition other_live_job :: "job \<Rightarrow> row_id \<Rightarrow> db \<Rightarrow> bool" where
  "other_live_job j i d \<longleftrightarrow>
     (\<exists>k \<in> set (db_jobs d). j_recording_id k = Some i \<and> j_id k \<noteq> j_id j \<and> live k)"

definition cancel :: "usec \<Rightarrow> row_id \<Rightarrow> db \<Rightarrow> bool \<times> db" where
  "cancel now i d =
     (case get_job i d of
        None \<Rightarrow> (False, d)
      | Some j \<Rightarrow>
          if \<not> live j then (False, d)
          else
            (let d1 = put_job (j\<lparr>j_state := JCancelled, j_finished_at := Some now,
                                 j_worker_id := None\<rparr>) d
             in (True,
                 case j_recording_id j of
                   None \<Rightarrow> d1
                 | Some rid \<Rightarrow>
                     if other_live_job j rid d1 then d1
                     else db_update_recordings
                       (\<lambda>r. r_id r = rid \<and> (r_state r = RQueued \<or> r_state r = RProcessing))
                       (\<lambda>r. r\<lparr>r_state := RFailed,
                              r_error_message := Some ''processing was cancelled''\<rparr>) d1)))"

subsection \<open>Retry failed\<close>

definition same_recording :: "job \<Rightarrow> job \<Rightarrow> bool" where
  "same_recording k j \<longleftrightarrow> j_recording_id k \<noteq> None \<and> j_recording_id k = j_recording_id j"

definition retryable :: "db \<Rightarrow> job \<Rightarrow> bool" where
  "retryable d j \<longleftrightarrow>
     j_state j = JFailed \<and>
     \<not> (\<exists>k \<in> set (db_jobs d). live k \<and> same_recording k j) \<and>
     \<not> (\<exists>k \<in> set (db_jobs d). j_state k = JFailed \<and> same_recording k j \<and> j_id j < j_id k) \<and>
     (case j_recording_id j of None \<Rightarrow> True | Some i \<Rightarrow> visible_recording d i)"

definition retried_row :: "job \<Rightarrow> job" where
  "retried_row j =
     j\<lparr>j_state := JQueued, j_attempts := 0, j_not_before := None, j_error_message := None,
       j_worker_id := None, j_finished_at := None, j_result := Some JNull\<rparr>"

definition retry_failed :: "db \<Rightarrow> nat \<times> db" where
  "retry_failed d =
     (length (filter (retryable d) (db_jobs d)), db_update_jobs (retryable d) retried_row d)"

subsection \<open>Reconciliations at start-up\<close>

definition LOCKED :: string where
  "LOCKED = ''database is locked''"

definition newer_job :: "job \<Rightarrow> db \<Rightarrow> bool" where
  "newer_job j d \<longleftrightarrow>
     (\<exists>k \<in> set (db_jobs d). j_recording_id j \<noteq> None \<and> j_recording_id k = j_recording_id j \<and>
        j_id j < j_id k \<and> j_state k \<noteq> JCancelled)"

definition legacy_candidates :: "db \<Rightarrow> job list" where
  "legacy_candidates d =
     rev (sort_key j_id (filter (\<lambda>j. j_state j = JFailed \<and> j_result j = None \<and>
                            ilike_contains LOCKED (j_error_message j)) (db_jobs d)))"

definition job_recording :: "job \<Rightarrow> db \<Rightarrow> recording option" where
  "job_recording j d = Option.bind (j_recording_id j) (\<lambda>i. get_recording i d)"

definition restarted_row :: "job \<Rightarrow> job" where
  "restarted_row j =
     j\<lparr>j_state := JQueued, j_attempts := 0, j_progress := 0, j_stage_current := None,
       j_not_before := None, j_error_message := None, j_worker_id := None,
       j_started_at := None, j_finished_at := None\<rparr>"

definition reconcile_one_legacy :: "job \<Rightarrow> nat \<times> nat \<times> db \<Rightarrow> nat \<times> nat \<times> db" where
  "reconcile_one_legacy j = (\<lambda>(requeued, superseded, d).
     (let rec = job_recording j d; newer = newer_job j d;
          on_rec = (\<lambda>P f d. case rec of None \<Rightarrow> d
                     | Some r \<Rightarrow> db_update_recordings (\<lambda>x. r_id x = r_id r \<and> P x) f d) in
      if newer \<or> (case rec of Some r \<Rightarrow> r_ignored r | None \<Rightarrow> False) then
        (requeued, superseded + 1,
         on_rec
           (\<lambda>x. ilike_contains LOCKED (r_error_message x) \<and>
                (r_state x = RQueued \<or> r_state x = RProcessing))
           (\<lambda>x. x\<lparr>r_error_message := None\<rparr>)
           (put_job (j\<lparr>j_state := JCancelled, j_worker_id := None, j_stage_current := None,
                       j_error_message := Some
                         (if newer
                          then ''superseded by a newer processing job after a historical database lock''
                          else ''recording was blacklisted after a historical database lock'')\<rparr>) d))
      else
        (requeued + 1, superseded,
         on_rec (\<lambda>_. True) (\<lambda>x. x\<lparr>r_state := RQueued, r_error_message := None\<rparr>)
           (put_job (restarted_row j) d))))"

definition reconcile_legacy_contention_failures :: "db \<Rightarrow> nat \<times> nat \<times> db" where
  "reconcile_legacy_contention_failures d =
     fold reconcile_one_legacy (legacy_candidates d) (0, 0, d)"

definition PROBE_CRASH :: string where
  "PROBE_CRASH = ''ffprobe produced no output for ''"

definition probe_dict :: "recording \<Rightarrow> jdict" where
  "probe_dict r = (case r_probe_json r of JObj p \<Rightarrow> p | _ \<Rightarrow> [])"

definition get_or_null :: "string \<Rightarrow> jdict \<Rightarrow> json" where
  "get_or_null k p = (case dict_get k p of None \<Rightarrow> JNull | Some v \<Rightarrow> v)"

definition positive_verdict :: "jdict \<Rightarrow> bool" where
  "positive_verdict p =
     (case get_or_null ''probe_failure'' p of
        JObj f \<Rightarrow> dict_get ''permanent'' f = Some (JBool True) | _ \<Rightarrow> False)"

definition cleaned_probe :: "jdict \<Rightarrow> jdict" where
  "cleaned_probe p =
     (let p1 = (if is_obj (get_or_null ''damaged_policy'' p) then dict_pop ''damaged_policy'' p else p)
      in if \<not> truthy (get_or_null ''source_unusable'' p1) \<and> \<not> truthy (get_or_null ''warnings'' p1)
         then dict_pop ''source_damaged'' p1 else p1)"

definition requeue_kind :: "recording \<Rightarrow> job_kind" where
  "requeue_kind r = (if r_processed_at r \<noteq> None then KReprocess else KProcess)"

definition requeue_priority :: "recording \<Rightarrow> int" where
  "requeue_priority r = (if r_processed_at r \<noteq> None then BULK_PRIORITY else NEW_FOOTAGE_PRIORITY)"

definition last_probe_failure :: "row_id \<Rightarrow> db \<Rightarrow> job option" where
  "last_probe_failure i d =
     (case rev (sort_key j_id (filter (\<lambda>j. j_recording_id j = Some i \<and> j_state j = JFailed \<and>
                 ilike_prefix PROBE_CRASH (j_error_message j)) (db_jobs d))) of
        [] \<Rightarrow> None | j # _ \<Rightarrow> Some j)"

definition misclassified :: "recording \<Rightarrow> bool" where
  "misclassified r \<longleftrightarrow>
     r_state r = RInvalid \<and> \<not> r_file_missing r \<and> ilike_prefix PROBE_CRASH (r_error_message r)"

definition restore_misclassified :: "int \<Rightarrow> usec \<Rightarrow> recording \<Rightarrow> db \<Rightarrow> db" where
  "restore_misclassified retry_max now r d =
     (let p = probe_dict r in
      if positive_verdict p then d
      else
        (let d1 = db_update_recordings (\<lambda>x. r_id x = r_id r)
                    (\<lambda>x. x\<lparr>r_probe_json := JObj (cleaned_probe p), r_ignored := False,
                           r_state := RQueued, r_metadata_state := SPending,
                           r_error_message := None\<rparr>) d
         in case last_probe_failure (r_id r) d1 of
              Some j \<Rightarrow> put_job ((restarted_row j)\<lparr>j_result := Some JNull\<rparr>) d1
            | None \<Rightarrow> snd (enqueue retry_max now (Some (r_id r)) (requeue_kind r) None
                              (requeue_priority r) False d1)))"

definition reconcile_misclassified_probe_crashes :: "int \<Rightarrow> usec \<Rightarrow> db \<Rightarrow> nat \<times> db" where
  "reconcile_misclassified_probe_crashes retry_max now d =
     (let rows = filter misclassified (db_recordings d);
          d' = fold (restore_misclassified retry_max now) rows d
      in (length (filter (\<lambda>r. case get_recording (r_id r) d' of
                       Some x \<Rightarrow> r_state x = RQueued \<and> r_error_message x = None
                     | None \<Rightarrow> False) rows), d'))"

definition MEDIA_REVIEW_KEY :: string where
  "MEDIA_REVIEW_KEY = hd DURABLE_PROBE_KEYS"

text \<open>SQLite's \<^verbatim>\<open>json_extract(...) == 1\<close>: true, or the number one.\<close>

fun json_is_one :: "json \<Rightarrow> bool" where
  "json_is_one (JBool b) = b"
| "json_is_one (JInt n) = (n = 1)"
| "json_is_one (JReal x) = (x = 1)"
| "json_is_one _ = False"

definition media_hidden :: "recording \<Rightarrow> bool" where
  "media_hidden r \<longleftrightarrow>
     r_ignored r \<and> \<not> r_file_missing r \<and>
     json_is_one (get_or_null ''source_unusable'' (probe_dict r)) \<and>
     get_or_null MEDIA_REVIEW_KEY (probe_dict r) = JNull"

definition reviewed_probe :: "jdict \<Rightarrow> jdict" where
  "reviewed_probe p =
     dict_put MEDIA_REVIEW_KEY (JBool True)
       (dict_pop ''source_unusable'' (dict_pop ''source_damaged'' (dict_pop ''damaged_policy'' p)))"

definition restore_media_hidden :: "int \<Rightarrow> usec \<Rightarrow> recording \<Rightarrow> db \<Rightarrow> db" where
  "restore_media_hidden retry_max now r d =
     snd (enqueue retry_max now (Some (r_id r)) (requeue_kind r) None (requeue_priority r) False
       (db_update_recordings (\<lambda>x. r_id x = r_id r)
          (\<lambda>x. x\<lparr>r_probe_json := JObj (reviewed_probe (probe_dict r)), r_ignored := False,
                 r_error_message := None, r_state := RQueued, r_metadata_state := SPending,
                 r_thumbnail_path := None\<rparr>) d))"

definition reconcile_media_failure_hides :: "int \<Rightarrow> usec \<Rightarrow> db \<Rightarrow> nat \<times> db" where
  "reconcile_media_failure_hides retry_max now d =
     (let rows = filter media_hidden (db_recordings d)
      in (length rows, fold (restore_media_hidden retry_max now) rows d))"

subsection \<open>Reclaiming jobs whose worker is gone\<close>

definition stale :: "usec \<Rightarrow> int \<Rightarrow> job \<Rightarrow> bool" where
  "stale now timeout_s j \<longleftrightarrow>
     j_state j = JRunning \<and>
     (case j_heartbeat_at j of None \<Rightarrow> True | Some h \<Rightarrow> h < now - seconds timeout_s)"

definition recordings_of :: "(job \<Rightarrow> bool) \<Rightarrow> db \<Rightarrow> row_id list" where
  "recordings_of P d = List.map_filter j_recording_id (filter P (db_jobs d))"

definition requeue_recordings :: "row_id list \<Rightarrow> db \<Rightarrow> db" where
  "requeue_recordings ids d =
     db_update_recordings (\<lambda>r. r_id r \<in> set ids \<and> r_state r = RProcessing)
       (\<lambda>r. r\<lparr>r_state := RQueued\<rparr>) d"

definition reclaim_stale :: "usec \<Rightarrow> int \<Rightarrow> db \<Rightarrow> nat \<times> db" where
  "reclaim_stale now timeout_s d =
     (let ids = recordings_of (stale now timeout_s) d
      in (length ids,
          requeue_recordings ids
            (db_update_jobs (stale now timeout_s)
              (\<lambda>j. j\<lparr>j_state := JQueued, j_worker_id := None, j_progress := 0,
                     j_stage_current := None\<rparr>) d)))"

definition interrupted_row :: "job \<Rightarrow> job" where
  "interrupted_row j =
     j\<lparr>j_state := JQueued, j_worker_id := None, j_attempts := max 0 (j_attempts j - 1),
       j_progress := 0, j_stage_current := None, j_resource_state := None,
       j_not_before := None, j_started_at := None, j_heartbeat_at := None,
       j_speed_realtime := None, j_decoder := None, j_inference_device := None\<rparr>"

definition reclaim_interrupted :: "db \<Rightarrow> nat \<times> db" where
  "reclaim_interrupted d =
     (let ids = recordings_of (\<lambda>j. j_state j = JRunning) d
      in (length ids,
          requeue_recordings ids
            (db_update_jobs (\<lambda>j. j_state j = JRunning) interrupted_row d)))"

subsection \<open>Stranded recordings\<close>

definition has_live_job :: "db \<Rightarrow> row_id \<Rightarrow> bool" where
  "has_live_job d i \<longleftrightarrow> (\<exists>j \<in> set (db_jobs d). j_recording_id j = Some i \<and> live j)"

definition cancelled_last :: "db \<Rightarrow> row_id \<Rightarrow> bool" where
  "cancelled_last d i \<longleftrightarrow>
     (\<exists>j \<in> set (db_jobs d). j_recording_id j = Some i \<and> j_state j = JCancelled \<and>
        \<not> (\<exists>k \<in> set (db_jobs d). j_recording_id k = Some i \<and> j_id j < j_id k))"

definition stranded :: "db \<Rightarrow> recording \<Rightarrow> bool" where
  "stranded d r \<longleftrightarrow>
     (r_state r = RProcessing \<or> r_state r = RQueued) \<and>
     \<not> has_live_job d (r_id r) \<and> \<not> cancelled_last d (r_id r)"

definition release_stranded_recordings :: "db \<Rightarrow> nat \<times> db" where
  "release_stranded_recordings d =
     (length (filter (stranded d) (db_recordings d)),
      db_update_recordings (stranded d) (\<lambda>r. r\<lparr>r_state := RDiscovered\<rparr>) d)"

subsection \<open>Statistics\<close>

datatype phase = Thumbnails | Analysis | Idle

record queue_stats =
  qs_queued :: nat
  qs_running :: nat
  qs_failed :: nat
  qs_completed :: nat
  qs_cancelled :: nat
  qs_completed_today :: nat
  qs_thumbnails_pending :: nat
  qs_phase :: phase
  qs_paused :: bool
  qs_throughput_per_hour :: "real option"
  qs_estimated_minutes_remaining :: "real option"

definition job_visible :: "db \<Rightarrow> job \<Rightarrow> bool" where
  "job_visible d j =
     (case j_recording_id j of None \<Rightarrow> True | Some i \<Rightarrow> visible_recording d i)"

definition count_jobs :: "(job \<Rightarrow> bool) \<Rightarrow> db \<Rightarrow> nat" where
  "count_jobs P d = length (filter P (db_jobs d))"

definition finished_recently :: "usec \<Rightarrow> job \<Rightarrow> bool" where
  "finished_recently now j \<longleftrightarrow>
     j_state j = JCompleted \<and> j_started_at j \<noteq> None \<and> j_recording_id j \<noteq> None \<and>
     j_kind j \<noteq> KThumbnail \<and>
     (case j_finished_at j of None \<Rightarrow> False | Some t \<Rightarrow> now - seconds (24 * 3600) \<le> t)"

definition recent_jobs :: "usec \<Rightarrow> db \<Rightarrow> job list" where
  "recent_jobs now d =
     take 100 (sort_key (\<lambda>j. - the (j_finished_at j)) (filter (finished_recently now) (db_jobs d)))"

definition durations :: "usec \<Rightarrow> db \<Rightarrow> real list" where
  "durations now d =
     List.map_filter
       (\<lambda>j. case (j_started_at j, j_finished_at j) of
              (Some s, Some f) \<Rightarrow> if s < f then Some (real_of_int (f - s) / 1000000) else None
            | _ \<Rightarrow> None) (recent_jobs now d)"

definition throughput :: "int \<Rightarrow> real list \<Rightarrow> real option" where
  "throughput workers ds =
     (if ds = [] then None
      else Some (py_round 1 (real_of_int workers * 3600 / (sum_list ds / real (length ds)))))"

definition stats :: "run_flags \<Rightarrow> usec \<Rightarrow> usec \<Rightarrow> int \<Rightarrow> db \<Rightarrow> queue_stats" where
  "stats f now midnight workers d =
     (let counted = (\<lambda>s. count_jobs (\<lambda>j. job_visible d j \<and> current_run f j \<and> j_state j = s) d);
          thumbnails = count_jobs (\<lambda>j. job_visible d j \<and> current_run f j \<and>
                                     j_kind j = KThumbnail \<and> live j) d;
          tput = throughput workers (durations now d)
      in \<lparr>qs_queued = counted JQueued, qs_running = counted JRunning,
          qs_failed = counted JFailed, qs_completed = counted JCompleted,
          qs_cancelled = counted JCancelled,
          qs_completed_today = count_jobs (\<lambda>j. j_state j = JCompleted \<and> current_run f j \<and>
             job_visible d j \<and> (case j_finished_at j of None \<Rightarrow> False | Some t \<Rightarrow> midnight \<le> t)) d,
          qs_thumbnails_pending = thumbnails,
          qs_phase = (if thumbnails \<noteq> 0 then Thumbnails
                      else if counted JQueued \<noteq> 0 \<or> counted JRunning \<noteq> 0 then Analysis else Idle),
          qs_paused = paused f,
          qs_throughput_per_hour = tput,
          qs_estimated_minutes_remaining =
            (case tput of
               None \<Rightarrow> None
             | Some t \<Rightarrow> if 0 < t
                 then Some (py_round 1 (real (counted JQueued - thumbnails) / t * 60))
                 else None)\<rparr>)"

end
