(* ===== verification/QueueProps.thy ===== *)
theory QueueProps
  imports QueueRecovery
begin

section \<open>What every queue operation keeps\<close>

text \<open>
  The well-formedness of the two tables (\<open>wf_queue\<close>): primary keys are unique, at most one
  running job per recording, and every row is in a sensible state. All operations but the
  claim only move rows away from \<open>JRunning\<close>; they are instances of one relation between
  databases, \<open>evolves\<close>, which is reflexive and transitive, so the folds of the
  reconciliations need no induction of their own.
\<close>

subsection \<open>Rows and tables\<close>

definition job_ok :: "job \<Rightarrow> bool" where
  "job_ok j \<longleftrightarrow>
     0 \<le> j_attempts j \<and> 0 \<le> j_progress j \<and> j_progress j \<le> 1 \<and>
     (j_state j = JRunning \<longrightarrow> j_worker_id j \<noteq> None \<and> j_started_at j \<noteq> None) \<and>
     (j_state j = JQueued \<longrightarrow> j_worker_id j = None)"

definition exclusive :: "db \<Rightarrow> bool" where
  "exclusive d \<longleftrightarrow>
     (\<forall>a \<in> set (db_jobs d). \<forall>b \<in> set (db_jobs d).
        j_state a = JRunning \<and> j_state b = JRunning \<and> same_recording a b \<longrightarrow> j_id a = j_id b)"

definition wf_queue :: "db \<Rightarrow> bool" where
  "wf_queue d \<longleftrightarrow> db_keyed d \<and> exclusive d \<and> (\<forall>j \<in> set (db_jobs d). job_ok j)"

text \<open>
  How one row may change outside a claim: it keeps its key and its recording, stays
  sensible, never becomes running, and a cancelled row is final.
\<close>

definition job_evolves :: "job \<Rightarrow> job \<Rightarrow> bool" where
  "job_evolves j j' \<longleftrightarrow>
     j_id j' = j_id j \<and> j_recording_id j' = j_recording_id j \<and>
     (job_ok j \<longrightarrow> job_ok j') \<and>
     (j_state j' = JRunning \<longrightarrow> j_state j = JRunning) \<and>
     (j_state j = JCancelled \<longrightarrow> j_state j' = JCancelled)"

definition evolves :: "db \<Rightarrow> db \<Rightarrow> bool" where
  "evolves d d' \<longleftrightarrow>
     (\<exists>js extra. db_jobs d' = js @ extra \<and> list_all2 job_evolves (db_jobs d) js \<and>
        (\<forall>j \<in> set extra. job_ok j \<and> j_state j \<noteq> JRunning)) \<and>
     (keyed j_id (db_jobs d) \<longrightarrow> keyed j_id (db_jobs d')) \<and>
     List.map r_id (db_recordings d') = List.map r_id (db_recordings d)"

lemma job_evolves_refl [simp]: "job_evolves j j"
  by (simp add: job_evolves_def)

lemma job_evolves_trans: "job_evolves a b \<Longrightarrow> job_evolves b c \<Longrightarrow> job_evolves a c"
  unfolding job_evolves_def by metis

lemma list_all2_job_evolves_refl [simp]: "list_all2 job_evolves js js"
  by (simp add: list.rel_refl)

lemma evolves_refl [simp]: "evolves d d"
  unfolding evolves_def by (intro conjI exI [of _ "db_jobs d"] exI [of _ "[]"]) auto

lemma evolves_trans:
  assumes "evolves a b" and "evolves b c"
  shows "evolves a c"
proof -
  obtain js extra where b: "db_jobs b = js @ extra" "list_all2 job_evolves (db_jobs a) js"
      "\<forall>j \<in> set extra. job_ok j \<and> j_state j \<noteq> JRunning"
    using assms(1) unfolding evolves_def by blast
  obtain ks more where c: "db_jobs c = ks @ more" "list_all2 job_evolves (js @ extra) ks"
      "\<forall>j \<in> set more. job_ok j \<and> j_state j \<noteq> JRunning"
    using assms(2) b(1) unfolding evolves_def by auto
  from c(2) obtain k1 k2 where k: "ks = k1 @ k2" "list_all2 job_evolves js k1"
      "list_all2 job_evolves extra k2"
    by (auto simp: list_all2_append1)
  have "list_all2 job_evolves (db_jobs a) k1"
    using list_all2_trans [OF job_evolves_trans b(2) k(2)] by simp
  moreover have "\<forall>j \<in> set (k2 @ more). job_ok j \<and> j_state j \<noteq> JRunning"
    using k(3) b(3) c(3)
    by (auto simp: list_all2_conv_all_nth in_set_conv_nth job_evolves_def) (metis nth_mem)+
  ultimately have "\<exists>js extra. db_jobs c = js @ extra \<and> list_all2 job_evolves (db_jobs a) js \<and>
        (\<forall>j \<in> set extra. job_ok j \<and> j_state j \<noteq> JRunning)"
    using c(1) k(1) by (intro exI [of _ k1] exI [of _ "k2 @ more"]) simp
  with assms show ?thesis unfolding evolves_def by simp
qed

lemma evolves_fold:
  "(\<And>x d. evolves d (f x d)) \<Longrightarrow> evolves d (fold f xs d)"
  by (induction xs arbitrary: d) (auto intro: evolves_trans)

lemma evolves_update_jobs:
  assumes "\<And>j. j \<in> set (db_jobs d) \<Longrightarrow> P j \<Longrightarrow> job_evolves j (f j)"
    and "\<And>j. P j \<Longrightarrow> j_id (f j) = j_id j"
  shows "evolves d (db_update_jobs P f d)"
proof -
  have ids: "List.map j_id (update_where P f (db_jobs d)) = List.map j_id (db_jobs d)"
    using assms(2) by (simp add: update_where_def)
  have "list_all2 job_evolves (db_jobs d) (update_where P f (db_jobs d))"
    using assms(1) by (auto simp: update_where_def list_all2_conv_all_nth)
  then show ?thesis
    unfolding evolves_def keyed_def
    by (intro conjI exI [of _ "update_where P f (db_jobs d)"] exI [of _ "[]"])
      (simp_all add: ids)
qed

lemma evolves_update_recordings [simp]:
  "(\<And>r. r_id (f r) = r_id r) \<Longrightarrow> evolves d (db_update_recordings P f d)"
  unfolding evolves_def
  by (intro conjI exI [of _ "db_jobs d"] exI [of _ "[]"]) auto

lemma evolves_put_job:
  assumes "keyed j_id (db_jobs d)" and "j \<in> set (db_jobs d)" and "job_evolves j j'"
  shows "evolves d (put_job j' d)"
  unfolding put_job_def
  using assms by (intro evolves_update_jobs) (auto simp: job_evolves_def dest: keyed_inj)

lemma evolves_insert_job:
  assumes "j_id j = next_id j_id (db_jobs d)" and "job_ok j" and "j_state j \<noteq> JRunning"
  shows "evolves d (insert_job j d)"
  using assms next_id_notin [of j_id "db_jobs d"]
  unfolding evolves_def insert_job_def
  by (intro conjI exI [of _ "db_jobs d"] exI [of _ "[j]"]) auto

lemma evolves_wf: "evolves d d' \<Longrightarrow> wf_queue d \<Longrightarrow> wf_queue d'"
proof -
  assume ev: "evolves d d'" and wf: "wf_queue d"
  obtain js extra where e: "db_jobs d' = js @ extra" "list_all2 job_evolves (db_jobs d) js"
      "\<forall>j \<in> set extra. job_ok j \<and> j_state j \<noteq> JRunning"
    using ev unfolding evolves_def by blast
  have src: "\<exists>j \<in> set (db_jobs d). job_evolves j j'" if "j' \<in> set js" for j'
    using that e(2) by (metis list_all2_conv_all_nth in_set_conv_nth)
  have running: "\<exists>j \<in> set (db_jobs d). j_state j = JRunning \<and> j_id j = j_id j' \<and>
       j_recording_id j = j_recording_id j'"
    if "j' \<in> set (db_jobs d')" and "j_state j' = JRunning" for j'
  proof -
    have "j' \<in> set js" using that e(1,3) by auto
    then obtain j where "j \<in> set (db_jobs d)" "job_evolves j j'" using src by blast
    with that(2) show ?thesis unfolding job_evolves_def by metis
  qed
  have "exclusive d'"
    unfolding exclusive_def same_recording_def
  proof (intro ballI impI)
    fix a b assume ab: "a \<in> set (db_jobs d')" "b \<in> set (db_jobs d')"
      and h: "j_state a = JRunning \<and> j_state b = JRunning \<and>
         j_recording_id a \<noteq> None \<and> j_recording_id a = j_recording_id b"
    obtain a0 b0 where "a0 \<in> set (db_jobs d)" "b0 \<in> set (db_jobs d)" "j_state a0 = JRunning"
        "j_state b0 = JRunning" "j_id a0 = j_id a" "j_id b0 = j_id b"
        "j_recording_id a0 = j_recording_id a" "j_recording_id b0 = j_recording_id b"
      using running ab h by metis
    with wf h show "j_id a = j_id b"
      unfolding wf_queue_def exclusive_def same_recording_def by metis
  qed
  moreover have "\<forall>j \<in> set (db_jobs d'). job_ok j"
    using e(1,3) src wf by (auto simp: wf_queue_def job_evolves_def)
  moreover have "db_keyed d'"
    using ev wf by (simp add: evolves_def wf_queue_def db_keyed_def keyed_def)
  ultimately show ?thesis by (simp add: wf_queue_def)
qed

lemma evolves_cancelled:
  assumes "evolves d d'" and "j \<in> set (db_jobs d)" and "j_state j = JCancelled"
  shows "\<exists>j' \<in> set (db_jobs d'). j_id j' = j_id j \<and> j_state j' = JCancelled"
proof -
  obtain js extra where e: "db_jobs d' = js @ extra" "list_all2 job_evolves (db_jobs d) js"
    using assms(1) unfolding evolves_def by blast
  obtain i where i: "i < length (db_jobs d)" "db_jobs d ! i = j"
    using assms(2) by (auto simp: in_set_conv_nth)
  with e(2) have "job_evolves j (js ! i)" "i < length js"
    by (auto simp: list_all2_conv_all_nth)
  with assms(3) e(1) show ?thesis by (force simp: job_evolves_def)
qed

subsection \<open>Every operation but the claim evolves the database\<close>

lemma new_job_ok: "job_ok (new_job m now rid kind stages priority d)"
  by (simp add: new_job_def job_ok_def)

lemma evolves_mark_recording_queued [simp]: "evolves d (mark_recording_queued rid d)"
  by (cases rid) (simp_all add: mark_recording_queued_def)

lemma evolves_add_job: "evolves d (snd (add_job m now rid kind stages priority d))"
proof -
  have "evolves d (insert_job (new_job m now rid kind stages priority d) d)"
    by (rule evolves_insert_job [OF _ new_job_ok]) (simp_all add: new_job_def)
  then show ?thesis by (auto simp: add_job_def Let_def intro: evolves_trans)
qed

lemma evolves_supersede: "evolves d (supersede now i d)"
  unfolding supersede_def
  by (rule evolves_update_jobs) (auto simp: job_evolves_def job_ok_def)

lemma evolves_enqueue: "evolves d (snd (enqueue m now rid kind stages priority force d))"
  by (auto simp: enqueue_def evolves_add_job split: option.splits
      intro: evolves_trans [OF evolves_supersede evolves_add_job])

lemma evolves_heartbeat: "evolves d (snd (heartbeat now i p s v dc dv rs d))"
  unfolding heartbeat_def Let_def snd_conv
  by (rule evolves_update_jobs)
    (auto simp: job_evolves_def job_ok_def heartbeat_row_def set_if_def split: option.splits)

lemma evolves_follow_up: "evolves d (follow_up_after_thumbnail m now j d)"
  by (auto simp: follow_up_after_thumbnail_def evolves_enqueue split: option.splits)

lemma evolves_complete:
  assumes "keyed j_id (db_jobs d)" and "j \<in> set (db_jobs d)" and "j_state j \<noteq> JCancelled"
  shows "evolves d (complete m now res sp dc dv j d)"
  unfolding complete_def Let_def
  by (rule evolves_trans [OF evolves_put_job [OF assms(1,2)] evolves_follow_up])
    (use assms(3) in \<open>auto simp: job_evolves_def job_ok_def completed_row_def set_if_def
       split: option.splits\<close>)

lemma evolves_fail_normally:
  assumes "keyed j_id (db_jobs d)" and "j \<in> set (db_jobs d)" and "j_state j \<noteq> JCancelled"
  shows "evolves d (fail_normally m now msg (failing_row now msg j) d)"
  unfolding fail_normally_def Let_def
  using assms(3)
  by (auto simp: job_evolves_def job_ok_def failing_row_def
      intro!: evolves_put_job [OF assms(1,2)]
        evolves_trans [OF evolves_put_job [OF assms(1,2)] evolves_follow_up])

lemma evolves_fail:
  assumes "keyed j_id (db_jobs d)" and "j \<in> set (db_jobs d)" and "j_state j \<noteq> JCancelled"
    and "fail m now permanent transient msg j d = Inr d'"
  shows "evolves d d'"
  using assms(3,4)
  by (auto simp: fail_def Let_def job_evolves_def job_ok_def failing_row_def refunded_row_def
      intro!: evolves_put_job [OF assms(1,2)]
        evolves_trans [OF evolves_put_job [OF assms(1,2)] evolves_follow_up]
        evolves_fail_normally [OF assms(1,2), unfolded failing_row_def]
      split: if_splits sum.splits)

lemma evolves_clear: "evolves d (snd (clear now reason d))"
  unfolding clear_def snd_conv
  by (rule evolves_update_jobs)
    (auto simp: job_evolves_def job_ok_def cleared_row_def retired_states_def)

lemma evolves_cancel:
  assumes "keyed j_id (db_jobs d)"
  shows "evolves d (snd (cancel now i d))"
proof (cases "get_job i d")
  case None
  then show ?thesis by (simp add: cancel_def)
next
  case (Some j)
  let ?j = "j\<lparr>j_state := JCancelled, j_finished_at := Some now, j_worker_id := None\<rparr>"
  have "evolves d (put_job ?j d)"
    using get_row_Some [OF Some] by (intro evolves_put_job [OF assms, of j])
      (auto simp: job_evolves_def job_ok_def)
  then show ?thesis
    using Some by (auto simp: cancel_def Let_def intro: evolves_trans split: option.splits)
qed

lemma evolves_retry_failed: "evolves d (snd (retry_failed d))"
  unfolding retry_failed_def snd_conv
  by (rule evolves_update_jobs)
    (auto simp: job_evolves_def job_ok_def retried_row_def retryable_def)

lemma evolves_requeue_recordings [simp]: "evolves d (requeue_recordings ids d)"
  by (simp add: requeue_recordings_def)

lemma evolves_reclaim_stale: "evolves d (snd (reclaim_stale now t d))"
  unfolding reclaim_stale_def Let_def snd_conv
  by (rule evolves_trans [OF evolves_update_jobs evolves_requeue_recordings])
    (auto simp: job_evolves_def job_ok_def stale_def)

lemma evolves_reclaim_interrupted: "evolves d (snd (reclaim_interrupted d))"
  unfolding reclaim_interrupted_def Let_def snd_conv
  by (rule evolves_trans [OF evolves_update_jobs evolves_requeue_recordings])
    (auto simp: job_evolves_def job_ok_def interrupted_row_def)

lemma evolves_release_stranded: "evolves d (snd (release_stranded_recordings d))"
  by (simp add: release_stranded_recordings_def)

lemma evolves_restore_media_hidden: "evolves d (restore_media_hidden m now r d)"
  unfolding restore_media_hidden_def
  by (rule evolves_trans [OF evolves_update_recordings evolves_enqueue]) simp

lemma evolves_reconcile_media: "evolves d (snd (reconcile_media_failure_hides m now d))"
  unfolding reconcile_media_failure_hides_def Let_def snd_conv
  by (rule evolves_fold) (rule evolves_restore_media_hidden)

text \<open>
  The two reconciliations that write job rows read before the loop need the keys to be
  unique; the legacy one moreover that the rows still to come are untouched.
\<close>

lemma evolves_keyed: "evolves d d' \<Longrightarrow> keyed j_id (db_jobs d) \<Longrightarrow> keyed j_id (db_jobs d')"
  by (simp add: evolves_def)

lemma evolves_fold_keyed:
  assumes "\<And>x d. keyed j_id (db_jobs d) \<Longrightarrow> evolves d (f x d)"
  shows "keyed j_id (db_jobs d) \<Longrightarrow> evolves d (fold f xs d)"
proof (induction xs arbitrary: d)
  case (Cons x xs)
  have "evolves d (f x d)" using assms Cons.prems .
  moreover have "evolves (f x d) (fold f xs (f x d))"
    using Cons.IH evolves_keyed [OF \<open>evolves d (f x d)\<close> Cons.prems] .
  ultimately show ?case by (auto intro: evolves_trans)
qed simp

lemma case_list_mem:
  "(case xs of [] \<Rightarrow> None | x # ys \<Rightarrow> Some x) = Some y \<Longrightarrow> y \<in> set xs"
  by (cases xs) auto

lemma evolves_restore_misclassified:
  assumes "keyed j_id (db_jobs d)"
  shows "evolves d (restore_misclassified m now r d)"
proof (cases "positive_verdict (probe_dict r)")
  case True
  then show ?thesis by (simp add: restore_misclassified_def Let_def)
next
  case False
  define d1 where "d1 = db_update_recordings (\<lambda>x. r_id x = r_id r)
      (\<lambda>x. x\<lparr>r_probe_json := JObj (cleaned_probe (probe_dict r)), r_ignored := False,
             r_state := RQueued, r_metadata_state := SPending, r_error_message := None\<rparr>) d"
  have d1: "evolves d d1" "keyed j_id (db_jobs d1)"
    using assms by (auto simp: d1_def)
  have eq: "restore_misclassified m now r d =
      (case last_probe_failure (r_id r) d1 of
         Some j \<Rightarrow> put_job ((restarted_row j)\<lparr>j_result := Some JNull\<rparr>) d1
       | None \<Rightarrow> snd (enqueue m now (Some (r_id r)) (requeue_kind r) None
                         (requeue_priority r) False d1))"
    using False unfolding restore_misclassified_def Let_def d1_def by simp
  show ?thesis
  proof (cases "last_probe_failure (r_id r) d1")
    case None
    with eq d1 show ?thesis by (auto intro: evolves_trans evolves_enqueue)
  next
    case (Some j)
    from case_list_mem [OF this [unfolded last_probe_failure_def]]
    have "j \<in> set (db_jobs d1)" "j_state j = JFailed" by auto
    then have "evolves d1 (put_job ((restarted_row j)\<lparr>j_result := Some JNull\<rparr>) d1)"
      by (intro evolves_put_job [OF d1(2), of j])
        (auto simp: job_evolves_def job_ok_def restarted_row_def)
    with eq Some d1(1) show ?thesis by (auto intro: evolves_trans)
  qed
qed

lemma evolves_reconcile_misclassified:
  "keyed j_id (db_jobs d) \<Longrightarrow> evolves d (snd (reconcile_misclassified_probe_crashes m now d))"
  unfolding reconcile_misclassified_probe_crashes_def Let_def snd_conv
  by (rule evolves_fold_keyed [OF evolves_restore_misclassified])

lemma put_job_other:
  "k \<in> set (db_jobs d) \<Longrightarrow> j_id k \<noteq> j_id j \<Longrightarrow> k \<in> set (db_jobs (put_job j d))"
  by (auto simp: put_job_def set_update_where)

lemma reconcile_one_legacy_jobs:
  "\<exists>j'. db_jobs (snd (snd (reconcile_one_legacy j (a, b, d)))) = db_jobs (put_job j' d) \<and>
     List.map r_id (db_recordings (snd (snd (reconcile_one_legacy j (a, b, d))))) =
       List.map r_id (db_recordings d) \<and>
     j_id j' = j_id j \<and> (j_state j = JFailed \<longrightarrow> job_evolves j j')"
  by (rule exI [of _ "if newer_job j d \<or> (case job_recording j d of Some r \<Rightarrow> r_ignored r | None \<Rightarrow> False)
        then j\<lparr>j_state := JCancelled, j_worker_id := None, j_stage_current := None,
               j_error_message := Some
                 (if newer_job j d
                  then ''superseded by a newer processing job after a historical database lock''
                  else ''recording was blacklisted after a historical database lock'')\<rparr>
        else restarted_row j"])
    (auto simp: reconcile_one_legacy_def Let_def job_evolves_def job_ok_def restarted_row_def
       put_job_def split: option.splits)

lemma evolves_same_jobs:
  assumes "evolves d x" and "db_jobs y = db_jobs x"
    and "List.map r_id (db_recordings y) = List.map r_id (db_recordings d)"
  shows "evolves d y"
  using assms by (simp add: evolves_def)

lemma evolves_legacy_fold:
  "keyed j_id (db_jobs d) \<Longrightarrow> distinct (List.map j_id js) \<Longrightarrow>
   (\<forall>j \<in> set js. j \<in> set (db_jobs d) \<and> j_state j = JFailed) \<Longrightarrow>
   evolves d (snd (snd (fold reconcile_one_legacy js (a, b, d))))"
proof (induction js arbitrary: a b d)
  case (Cons j js)
  obtain a1 b1 d1 where s1: "reconcile_one_legacy j (a, b, d) = (a1, b1, d1)"
    by (cases "reconcile_one_legacy j (a, b, d)") auto
  obtain j' where j': "db_jobs d1 = db_jobs (put_job j' d)"
      "List.map r_id (db_recordings d1) = List.map r_id (db_recordings d)"
      "j_id j' = j_id j" "job_evolves j j'"
    using reconcile_one_legacy_jobs [of j a b d] s1 Cons.prems(3) by auto
  have ev: "evolves d d1"
    using evolves_same_jobs [OF evolves_put_job [OF Cons.prems(1) _ j'(4)] j'(1,2)]
      Cons.prems(3) by simp
  have "evolves d1 (snd (snd (fold reconcile_one_legacy js (a1, b1, d1))))"
  proof (rule Cons.IH)
    show "keyed j_id (db_jobs d1)" using ev Cons.prems(1) by (rule evolves_keyed)
    show "\<forall>j \<in> set js. j \<in> set (db_jobs d1) \<and> j_state j = JFailed"
    proof
      fix k assume k: "k \<in> set js"
      then have "j_id k \<in> j_id ` set js" by (rule imageI)
      then have "j_id k \<noteq> j_id j'" using Cons.prems(2) j'(3) by auto
      with k Cons.prems(3) put_job_other [of k d j'] j'(1)
      show "k \<in> set (db_jobs d1) \<and> j_state k = JFailed" by simp
    qed
  qed (use Cons.prems(2) in simp)
  with ev s1 show ?case by (auto intro: evolves_trans)
qed simp

lemma evolves_reconcile_legacy:
  assumes "keyed j_id (db_jobs d)"
  shows "evolves d (snd (snd (reconcile_legacy_contention_failures d)))"
  unfolding reconcile_legacy_contention_failures_def
proof (rule evolves_legacy_fold [OF assms])
  have "distinct (List.map j_id (filter P (db_jobs d)))" for P
    using assms by (simp add: keyed_def distinct_map_filter)
  then show "distinct (List.map j_id (legacy_candidates d))"
    by (simp add: legacy_candidates_def distinct_map inj_on_def)
  show "\<forall>j \<in> set (legacy_candidates d). j \<in> set (db_jobs d) \<and> j_state j = JFailed"
    by (auto simp: legacy_candidates_def)
qed

subsection \<open>The claim\<close>

lemma next_queued_Some:
  assumes "next_queued now active d = Some j"
  shows "j \<in> set (db_jobs d)" and "claimable now active d j"
    and "k \<in> set (db_jobs d) \<Longrightarrow> claimable now active d k \<Longrightarrow> claim_key d j \<le> claim_key d k"
proof -
  let ?js = "filter (claimable now active d) (db_jobs d)"
  have ne: "?js \<noteq> []" and j: "j = arg_min_list (claim_key d) ?js"
    using assms by (auto simp: next_queued_def split: list.splits)
  have "j \<in> set ?js" using arg_min_list_in [OF ne] j by simp
  then show "j \<in> set (db_jobs d)" and "claimable now active d j" by auto
  assume "k \<in> set (db_jobs d)" and "claimable now active d k"
  then have "k \<in> set ?js" by simp
  then have "Min (claim_key d ` set ?js) \<le> claim_key d k" by simp
  then show "claim_key d j \<le> claim_key d k"
    using f_arg_min_list_f [OF ne, of "claim_key d"] j by simp
qed

lemma next_queued_None:
  "next_queued now active d = None \<longleftrightarrow> (\<forall>j \<in> set (db_jobs d). \<not> claimable now active d j)"
proof (cases "filter (claimable now active d) (db_jobs d)")
  case Nil
  then show ?thesis by (simp add: next_queued_def filter_empty_conv)
next
  case (Cons j js)
  then have "j \<in> set (filter (claimable now active d) (db_jobs d))" by simp
  then have "j \<in> set (db_jobs d)" "claimable now active d j" by simp_all
  with Cons show ?thesis by (auto simp: next_queued_def)
qed

lemma claim_next_None:
  "fst (claim_next f now w active d) = None \<Longrightarrow> snd (claim_next f now w active d) = d"
  by (auto simp: claim_next_def split: option.splits if_splits)

lemma claim_next_Some:
  assumes "claim_next f now w active d = (Some j', d')"
  shows "\<exists>j. next_queued now active d = Some j \<and> j' = claimed_row now w j \<and>
     d' = clear_recording_error (j_recording_id j)
       (db_update_jobs (\<lambda>k. j_id k = j_id j \<and> j_state k = JQueued) (claimed_row now w) d)"
  using assms by (auto simp: claim_next_def split: option.splits if_splits)

lemma clear_recording_error_sel [simp]:
  "db_jobs (clear_recording_error rid d) = db_jobs d"
  "List.map r_id (db_recordings (clear_recording_error rid d)) = List.map r_id (db_recordings d)"
  by (auto simp: clear_recording_error_def split: option.splits)

lemma claimed_row_id [simp]: "j_id (claimed_row now w j) = j_id j"
  "j_recording_id (claimed_row now w j) = j_recording_id j"
  by (simp_all add: claimed_row_def)

lemma claim_jobs:
  assumes "keyed j_id (db_jobs d)" and "claim_next f now w active d = (Some j', d')"
  shows "\<exists>j \<in> set (db_jobs d). j_state j = JQueued \<and> claimable now active d j \<and>
     j' = claimed_row now w j \<and>
     db_jobs d' = update_where (\<lambda>k. k = j) (claimed_row now w) (db_jobs d)"
proof -
  obtain j where j: "next_queued now active d = Some j" "j' = claimed_row now w j"
      "d' = clear_recording_error (j_recording_id j)
         (db_update_jobs (\<lambda>k. j_id k = j_id j \<and> j_state k = JQueued) (claimed_row now w) d)"
    using claim_next_Some [OF assms(2)] by blast
  note m = next_queued_Some(1,2) [OF j(1)]
  have "update_where (\<lambda>k. j_id k = j_id j \<and> j_state k = JQueued) (claimed_row now w) (db_jobs d) =
      update_where (\<lambda>k. k = j) (claimed_row now w) (db_jobs d)"
    unfolding update_where_def
    using keyed_inj [OF assms(1) _ m(1)] m(2) by (auto simp: claimable_def)
  with j m show ?thesis by (auto simp: claimable_def)
qed

lemma claim_wf:
  assumes "wf_queue d" and "claim_next f now w active d = (r, d')"
  shows "wf_queue d'"
proof (cases r)
  case None
  with assms claim_next_None [of f now w active d] show ?thesis by simp
next
  case (Some j')
  have k: "keyed j_id (db_jobs d)" using assms(1) by (simp add: wf_queue_def db_keyed_def)
  obtain j where j: "j \<in> set (db_jobs d)" "j_state j = JQueued" "claimable now active d j"
      "j' = claimed_row now w j"
      "db_jobs d' = update_where (\<lambda>k. k = j) (claimed_row now w) (db_jobs d)"
    using claim_jobs [OF k] assms(2) Some by blast
  have rows: "x = claimed_row now w j \<or> x \<in> set (db_jobs d)" if "x \<in> set (db_jobs d')" for x
    using that j(5) by (auto simp: set_update_where)
  have recs: "List.map r_id (db_recordings d') = List.map r_id (db_recordings d)"
    using claim_next_Some [of f now w active d j' d'] assms(2) Some by auto
  have free: "\<not> same_recording b j" if "b \<in> set (db_jobs d)" "j_state b = JRunning" for b
    using j(3) that by (auto simp: claimable_def already_running_def same_recording_def)
  have new: "job_ok (claimed_row now w j)"
    using assms(1) j(1) by (auto simp: wf_queue_def job_ok_def claimed_row_def)
  have "exclusive d'"
    unfolding exclusive_def
  proof (intro ballI impI)
    fix a b assume ab: "a \<in> set (db_jobs d')" "b \<in> set (db_jobs d')"
      and h: "j_state a = JRunning \<and> j_state b = JRunning \<and> same_recording a b"
    have c: "j_recording_id (claimed_row now w j) = j_recording_id j" "j_id (claimed_row now w j) = j_id j"
      by (simp_all add: claimed_row_def)
    show "j_id a = j_id b"
      using rows [OF ab(1)] rows [OF ab(2)] h free c assms(1)
      unfolding wf_queue_def exclusive_def same_recording_def by metis
  qed
  moreover have "\<forall>x \<in> set (db_jobs d'). job_ok x"
    using rows new assms(1) unfolding wf_queue_def by metis
  moreover have "db_keyed d'"
    using assms(1) recs j(5) by (simp add: wf_queue_def db_keyed_def keyed_def claimed_row_def)
  ultimately show ?thesis by (simp add: wf_queue_def)
qed

end
