(* ===== verification/QueueSpecs.thy ===== *)
theory QueueSpecs
  imports QueueProps
begin

section \<open>What each queue operation promises\<close>

subsection \<open>Claiming\<close>

lemma claim_next_None_iff:
  "fst (claim_next f now w active d) = None \<longleftrightarrow>
      paused f \<or> (\<forall>j \<in> set (db_jobs d). \<not> claimable now active d j)"
proof -
  have none: "\<not> claimable now active d j"
    if "\<not> (\<exists>j \<in> set (db_jobs d). j_state j = JQueued \<and> due now j)" "j \<in> set (db_jobs d)" for j
    using that by (auto simp: claimable_def)
  show ?thesis
    using none next_queued_None [of now active d]
    by (auto simp: claim_next_def split: option.splits if_splits)
qed

text \<open>A claim answers with nothing exactly when the queue is paused or no job is claimable;
  otherwise it takes the claimable job that comes first by priority, then by footage time
  with undated footage last, then by queueing time, marks just that row running for the
  worker, and counts one attempt.\<close>

theorem claim_takes_first:
  assumes "keyed j_id (db_jobs d)"
  shows "(fst (claim_next f now w active d) = None \<longleftrightarrow>
      paused f \<or> (\<forall>j \<in> set (db_jobs d). \<not> claimable now active d j)) \<and>
    (\<forall>j' d'. claim_next f now w active d = (Some j', d') \<longrightarrow>
      (\<exists>j \<in> set (db_jobs d). claimable now active d j \<and> j' = claimed_row now w j \<and>
        (\<forall>k \<in> set (db_jobs d). claimable now active d k \<longrightarrow> claim_key d j \<le> claim_key d k) \<and>
        db_jobs d' = update_where (\<lambda>k. k = j) (claimed_row now w) (db_jobs d)))"
proof (intro conjI allI impI)
  show "fst (claim_next f now w active d) = None \<longleftrightarrow>
      paused f \<or> (\<forall>j \<in> set (db_jobs d). \<not> claimable now active d j)"
    by (rule claim_next_None_iff)
next
  fix j' d' assume c: "claim_next f now w active d = (Some j', d')"
  obtain j where j: "next_queued now active d = Some j" "j' = claimed_row now w j"
    using claim_next_Some [OF c] by blast
  obtain k where k: "k \<in> set (db_jobs d)" "j' = claimed_row now w k"
      "db_jobs d' = update_where (\<lambda>x. x = k) (claimed_row now w) (db_jobs d)"
    using claim_jobs [OF assms c] by blast
  have "j_id j = j_id k" using j(2) k(2) by (metis claimed_row_id)
  then have "j = k" using keyed_inj [OF assms next_queued_Some(1) [OF j(1)] k(1)] by simp
  with next_queued_Some [OF j(1)] j(2) k(3)
  show "\<exists>j \<in> set (db_jobs d). claimable now active d j \<and> j' = claimed_row now w j \<and>
      (\<forall>k \<in> set (db_jobs d). claimable now active d k \<longrightarrow> claim_key d j \<le> claim_key d k) \<and>
      db_jobs d' = update_where (\<lambda>k. k = j) (claimed_row now w) (db_jobs d)"
    by blast
qed

text \<open>Two workers never get the same work: while a claimed job runs, a later claim returns
  neither that job nor any other job of its recording.\<close>

theorem claim_excludes:
  assumes "keyed j_id (db_jobs d)" and "claim_next f now w active d = (Some j, d')"
    and "claim_next f2 now2 w2 active2 d' = (Some k, d'')"
  shows "j_id k \<noteq> j_id j \<and> (j_recording_id j \<noteq> None \<longrightarrow> j_recording_id k \<noteq> j_recording_id j)"
proof -
  obtain j0 where j0: "j0 \<in> set (db_jobs d)" "j = claimed_row now w j0"
      "db_jobs d' = update_where (\<lambda>x. x = j0) (claimed_row now w) (db_jobs d)"
    using claim_jobs [OF assms(1,2)] by blast
  have keyed': "keyed j_id (db_jobs d')" using assms(1) j0(3) by simp
  have run: "j \<in> set (db_jobs d')" "j_state j = JRunning"
    using j0 by (auto simp: set_update_where claimed_row_def)
  obtain k0 where k0: "k0 \<in> set (db_jobs d')" "j_state k0 = JQueued" "claimable now2 active2 d' k0"
      "k = claimed_row now2 w2 k0"
    using claim_jobs [OF keyed' assms(3)] by blast
  have "j_id k0 \<noteq> j_id j" using keyed_inj [OF keyed' k0(1) run(1)] k0(2) run(2) by auto
  moreover have "\<not> (j_recording_id j \<noteq> None \<and> j_recording_id k0 = j_recording_id j)"
    using k0(3) run by (auto simp: claimable_def already_running_def)
  ultimately show ?thesis using k0(4) by auto
qed

subsection \<open>Enqueueing\<close>

definition jobs_of :: "row_id \<Rightarrow> (job \<Rightarrow> bool) \<Rightarrow> db \<Rightarrow> job list" where
  "jobs_of i P d = filter (\<lambda>j. j_recording_id j = Some i \<and> P j) (db_jobs d)"

abbreviation queued :: "job \<Rightarrow> bool" where "queued j \<equiv> j_state j = JQueued"
abbreviation running :: "job \<Rightarrow> bool" where "running j \<equiv> j_state j = JRunning"

lemma mark_recording_queued_jobs [simp]: "db_jobs (mark_recording_queued rid d) = db_jobs d"
  by (simp add: mark_recording_queued_def split: option.splits)

lemma add_job_jobs:
  "add_job m now rid kind stages priority d = (j, d') \<Longrightarrow>
   db_jobs d' = db_jobs d @ [j] \<and> j = new_job m now rid kind stages priority d"
  by (auto simp: add_job_def insert_job_def Let_def)

lemma new_job_sel [simp]:
  "j_recording_id (new_job m now rid kind stages priority d) = rid"
  "j_state (new_job m now rid kind stages priority d) = JQueued"
  by (simp_all add: new_job_def)

lemma live_job_of_None: "live_job_of i d = None \<longleftrightarrow> jobs_of i live d = []"
  by (auto simp: live_job_of_def jobs_of_def find_None_iff filter_empty_conv)

lemma jobs_of_supersede:
  "jobs_of i queued (supersede now i d) = []" "jobs_of i running (supersede now i d) = jobs_of i running d"
proof -
  show "jobs_of i queued (supersede now i d) = []"
    by (auto simp: jobs_of_def supersede_def update_where_def filter_empty_conv)
  have "filter (\<lambda>j. j_recording_id j = Some i \<and> running j)
      (List.map (\<lambda>r. if j_recording_id r = Some i \<and> (j_state r = JQueued \<or> j_state r = JFailed)
          then f r else r) js) = filter (\<lambda>j. j_recording_id j = Some i \<and> running j) js"
    if "\<And>r. j_state (f r) = JCancelled" for f js
    using that by (induction js) auto
  then show "jobs_of i running (supersede now i d) = jobs_of i running d"
    by (simp add: jobs_of_def supersede_def update_where_def)
qed

text \<open>Work never stacks on request. A plain request for a recording with a queued or
  running job returns that job and changes nothing; otherwise exactly one live job, the new
  one, is added. A forced request leaves the returned job as the recording's only queued
  one and does not touch a running one, so presses never accumulate.\<close>

theorem enqueue_does_not_stack:
  assumes "enqueue m now (Some i) kind stages priority force d = (j, d')"
  shows "if force then jobs_of i queued d' = [j] \<and> jobs_of i running d' = jobs_of i running d
    else if jobs_of i live d \<noteq> [] then d' = d \<and> j = hd (jobs_of i live d)
    else jobs_of i live d' = [j] \<and> j_stages j = stages \<and> j_kind j = kind"
proof (cases force)
  case True
  then have "add_job m now (Some i) kind stages priority (supersede now i d) = (j, d')"
    using assms by (simp add: enqueue_def)
  from add_job_jobs [OF this] jobs_of_supersede [where i = i and now = now and d = d] True show ?thesis
    by (simp add: jobs_of_def)
next
  case False
  show ?thesis
  proof (cases "live_job_of i d")
    case None
    then have "add_job m now (Some i) kind stages priority d = (j, d')"
      using assms False by (simp add: enqueue_def)
    from add_job_jobs [OF this] None False show ?thesis
      by (simp add: live_job_of_None jobs_of_def live_def) (simp add: new_job_def)
  next
    case (Some k)
    then have "d' = d" "j = k" using assms False by (simp_all add: enqueue_def)
    moreover have "jobs_of i live d \<noteq> []" using Some live_job_of_None [of i d] by auto
    moreover have "find P xs = Some x \<Longrightarrow> hd (filter P xs) = x" for P xs and x :: job
      by (induction xs) (auto split: if_splits)
    ultimately show ?thesis using False Some by (simp add: live_job_of_def jobs_of_def)
  qed
qed

subsection \<open>Clearing\<close>

lemma list_all2_refl_on: "(\<And>x. P x x) \<Longrightarrow> list_all2 P xs xs"
  by (induction xs) simp_all

text \<open>After a clear nothing is queued, running or failed; every job that was is cancelled and
  detached from its worker, completed and cancelled jobs and all recordings are untouched,
  and the counts handed to the user are those of the rows retired.\<close>

theorem clear_empties:
  assumes "clear now reason d = (counts, d')"
  shows "(\<forall>j \<in> set (db_jobs d'). j_state j = JCompleted \<or> j_state j = JCancelled) \<and>
    list_all2 (\<lambda>j j'. j_id j' = j_id j \<and>
        (if j_state j \<in> {JCompleted, JCancelled} then j' = j
         else j_state j' = JCancelled \<and> j_worker_id j' = None \<and> j_heartbeat_at j' = None))
      (db_jobs d) (db_jobs d') \<and>
    db_recordings d' = db_recordings d \<and>
    (\<forall>s n. (s, n) \<in> set counts \<longleftrightarrow> s \<in> {JQueued, JRunning, JFailed} \<and> 0 < n \<and> n = count_state d s)"
proof -
  have d': "d' = db_update_jobs (\<lambda>j. j_state j \<in> set retired_states) (cleared_row now reason) d"
    and counts: "counts = filter (\<lambda>(s, n). 0 < n) (List.map (\<lambda>s. (s, count_state d s)) retired_states)"
    using assms by (simp_all add: clear_def)
  have state: "j_state j \<in> {JCompleted, JCancelled} \<longleftrightarrow> j_state j \<notin> set retired_states" for j
    by (cases "j_state j") (simp_all add: retired_states_def)
  have "list_all2 (\<lambda>j j'. j_id j' = j_id j \<and>
        (if j_state j \<in> {JCompleted, JCancelled} then j' = j
         else j_state j' = JCancelled \<and> j_worker_id j' = None \<and> j_heartbeat_at j' = None))
      js (update_where (\<lambda>j. j_state j \<in> set retired_states) (cleared_row now reason) js)" for js
    unfolding state update_where_def list_all2_map2
    by (rule list_all2_refl_on) (simp add: cleared_row_def)
  moreover have "\<forall>j \<in> set (db_jobs d'). j_state j = JCompleted \<or> j_state j = JCancelled"
  proof
    fix j assume "j \<in> set (db_jobs d')"
    then consider "j_state j \<notin> set retired_states" | "j_state j = JCancelled"
      unfolding d' by (auto simp: set_update_where cleared_row_def)
    then show "j_state j = JCompleted \<or> j_state j = JCancelled" using state [of j] by blast
  qed
  moreover have "\<forall>s n. (s, n) \<in> set counts \<longleftrightarrow>
      s \<in> {JQueued, JRunning, JFailed} \<and> 0 < n \<and> n = count_state d s"
    unfolding counts by (auto simp: retired_states_def)
  ultimately show ?thesis by (simp add: d')
qed

subsection \<open>Failing is bounded\<close>

lemma get_job_put: "get_job (j_id k) d = Some j \<Longrightarrow> get_job (j_id k) (put_job k d) = Some k"
proof -
  have "get_row j_id (j_id k) js = Some j \<Longrightarrow>
      get_row j_id (j_id k) (update_where (\<lambda>x. j_id x = j_id k) (\<lambda>_. k) js) = Some k" for js
    by (induction js) (auto simp: get_row_def update_where_def)
  then show "get_job (j_id k) d = Some j \<Longrightarrow> get_job (j_id k) (put_job k d) = Some k"
    by (simp add: put_job_def)
qed

lemma get_job_follow_up:
  "get_job i d = Some j \<Longrightarrow> get_job i (follow_up_after_thumbnail m now k d) = Some j"
  by (auto simp: follow_up_after_thumbnail_def enqueue_def add_job_def insert_job_def Let_def
      get_row_append split: option.splits)

text \<open>
  A job that fails every time it is claimed: one entry per run, the instant, whether the
  failure was a lock held elsewhere, and its text.
\<close>

fun failing_runs :: "int \<Rightarrow> row_id \<Rightarrow> (usec \<times> bool \<times> string) list \<Rightarrow> db \<Rightarrow> py_error + db" where
  "failing_runs m i [] d = Inr d"
| "failing_runs m i ((now, transient, msg) # fs) d =
     (case get_job i d of
        None \<Rightarrow> Inr d
      | Some j \<Rightarrow>
          if j_state j \<noteq> JQueued then Inr d
          else (let j1 = claimed_row now ''w'' j
                in case fail m now False transient msg j1 (put_job j1 d) of
                     Inl e \<Rightarrow> Inl e | Inr d' \<Rightarrow> failing_runs m i fs d'))"

definition runs_left :: "int \<Rightarrow> job \<Rightarrow> nat" where
  "runs_left c j = nat (j_max_attempts j - 1 - j_attempts j) + nat (MAX_CONTENTION_RETRIES - c)"

lemma contention_failing [simp]:
  "contention_retries (failing_row now msg j) = contention_retries j"
  "contention_retries (claimed_row now w j) = contention_retries j"
  by (simp_all add: contention_retries_def result_dict_def failing_row_def claimed_row_def)

lemma failing_run:
  assumes j: "get_job i d = Some j" and a: "0 \<le> j_attempts j" and c: "contention_retries j = Inr c"
  shows "\<exists>d' j'. fail m now False transient msg (claimed_row now ''w'' j)
      (put_job (claimed_row now ''w'' j) d) = Inr d' \<and> get_job i d' = Some j' \<and>
    (j_state j' = JFailed \<or>
     j_state j' = JQueued \<and> 0 \<le> j_attempts j' \<and> (\<exists>c'. contention_retries j' = Inr c' \<and>
       runs_left c' j' < runs_left c j))"
proof -
  let ?j1 = "claimed_row now ''w'' j" and ?d1 = "put_job (claimed_row now ''w'' j) d"
  let ?j0 = "failing_row now msg ?j1"
  have id: "j_id ?j0 = i" "j_id ?j1 = i" using get_row_Some [OF j] by (simp_all add: failing_row_def)
  have d1: "get_job i ?d1 = Some ?j1" using get_job_put [of ?j1 d j] j id by simp
  have put: "j_id k = i \<Longrightarrow> get_job i (put_job k ?d1) = Some k" for k
    using get_job_put [of k ?d1 ?j1] d1 by auto
  have normal: "\<exists>j'. get_job i (fail_normally m now msg ?j0 ?d1) = Some j' \<and>
      (j_state j' = JFailed \<or> j_state j' = JQueued \<and> 0 \<le> j_attempts j' \<and>
        (\<exists>c'. contention_retries j' = Inr c' \<and> runs_left c' j' < runs_left c j))"
  proof (cases "j_attempts ?j0 < j_max_attempts ?j0")
    case True
    let ?q = "?j0\<lparr>j_state := JQueued, j_not_before := Some (now + seconds (backoff_delay ?j0)),
        j_result := Some (JObj (dict_put ''last_error'' (JStr (take 2000 msg)) (result_dict ?j0))),
        j_error_message := None\<rparr>"
    have "fail_normally m now msg ?j0 ?d1 = put_job ?q ?d1"
      using True by (simp add: fail_normally_def)
    moreover have "get_job i (put_job ?q ?d1) = Some ?q" using put id by simp
    moreover have "contention_retries ?q = Inr c"
      using c
      by (simp add: contention_retries_def result_dict_def failing_row_def claimed_row_def)
    moreover have "runs_left c ?q < runs_left c j" "0 \<le> j_attempts ?q"
      using True a by (simp_all add: runs_left_def failing_row_def claimed_row_def)
    ultimately show ?thesis by (intro exI [of _ ?q]) auto
  next
    case False
    let ?q = "?j0\<lparr>j_state := JFailed\<rparr>"
    have "get_job i (put_job ?q ?d1) = Some ?q" using put id by simp
    then have "get_job i (fail_normally m now msg ?j0 ?d1) = Some ?q"
      using False get_job_follow_up by (simp add: fail_normally_def Let_def)
    then show ?thesis by (intro exI [of _ ?q]) simp
  qed
  show ?thesis
  proof (cases "transient \<and> c + 1 \<le> MAX_CONTENTION_RETRIES")
    case True
    let ?q = "refunded_row now (c + 1) ?j0"
    have "fail m now False transient msg ?j1 ?d1 = Inr (put_job ?q ?d1)"
      using True c by (simp add: fail_def Let_def)
    moreover have "get_job i (put_job ?q ?d1) = Some ?q" using put id by (simp add: refunded_row_def)
    moreover have "contention_retries ?q = Inr (c + 1)"
      by (simp add: refunded_row_def contention_retries_def result_dict_def)
    moreover have "runs_left (c + 1) ?q < runs_left c j" "0 \<le> j_attempts ?q"
      using True a by (simp_all add: runs_left_def refunded_row_def failing_row_def claimed_row_def)
    ultimately show ?thesis
      by (intro exI [of _ "put_job ?q ?d1"] exI [of _ ?q]) (auto simp: refunded_row_def)
  next
    case False
    then have "fail m now False transient msg ?j1 ?d1 = Inr (fail_normally m now msg ?j0 ?d1)"
      using c by (auto simp: fail_def Let_def)
    with normal show ?thesis by simp
  qed
qed

text \<open>C4: no job is retried for ever. Whatever mixture of defects and lock contention its runs
  end with, a job fails for good after at most its remaining attempts plus its remaining
  contention refunds; a fresh job with \<open>m\<close> retries runs at most \<open>m + 7\<close> times.\<close>

theorem failing_runs_end:
  assumes "get_job i d = Some j" and "j_state j = JQueued" and "0 \<le> j_attempts j"
    and "contention_retries j = Inr c" and "runs_left c j < length fs"
  shows "\<exists>d' j'. failing_runs m i fs d = Inr d' \<and> get_job i d' = Some j' \<and> j_state j' = JFailed"
  using assms
proof (induction fs arbitrary: d j c)
  case (Cons f fs)
  obtain now transient msg where f: "f = (now, transient, msg)" by (cases f)
  obtain d' j' where fd: "fail m now False transient msg (claimed_row now ''w'' j)
      (put_job (claimed_row now ''w'' j) d) = Inr d'" "get_job i d' = Some j'"
    and out: "j_state j' = JFailed \<or>
      j_state j' = JQueued \<and> 0 \<le> j_attempts j' \<and> (\<exists>c'. contention_retries j' = Inr c' \<and>
        runs_left c' j' < runs_left c j)"
    using failing_run [OF Cons.prems(1,3,4)] by blast
  have step: "failing_runs m i (f # fs) d = failing_runs m i fs d'"
    using Cons.prems(1,2) fd(1) f by (simp add: Let_def)
  from out show ?case
  proof
    assume failed: "j_state j' = JFailed"
    then have "failing_runs m i fs d' = Inr d'" using fd(2) by (cases fs) auto
    with step fd(2) failed show ?thesis by simp
  next
    assume "j_state j' = JQueued \<and> 0 \<le> j_attempts j' \<and> (\<exists>c'. contention_retries j' = Inr c' \<and>
        runs_left c' j' < runs_left c j)"
    then obtain c' where "j_state j' = JQueued" "0 \<le> j_attempts j'" "contention_retries j' = Inr c'"
        "runs_left c' j' < length fs"
      using Cons.prems(5) by auto
    from Cons.IH [OF fd(2) this] step show ?thesis by simp
  qed
qed simp

subsection \<open>Nothing is stranded, nothing is retried twice\<close>

text \<open>After the release no recording claims to be queued or processing without a job that
  owns it, unless the last word on it was a cancellation; a recording that has such a job
  keeps its state, and a second release changes nothing.\<close>

theorem release_stranded_complete:
  assumes "release_stranded_recordings d = (n, d')"
  shows "(\<forall>r \<in> set (db_recordings d'). r_state r \<in> {RQueued, RProcessing} \<longrightarrow>
      has_live_job d' (r_id r) \<or> cancelled_last d' (r_id r)) \<and>
    (\<forall>r \<in> set (db_recordings d). has_live_job d (r_id r) \<longrightarrow> r \<in> set (db_recordings d')) \<and>
    release_stranded_recordings d' = (0, d')"
proof -
  have d': "d' = db_update_recordings (stranded d) (\<lambda>r. r\<lparr>r_state := RDiscovered\<rparr>) d"
    using assms by (simp add: release_stranded_recordings_def)
  have jobs: "db_jobs d' = db_jobs d" by (simp add: d')
  then have same: "has_live_job d' i = has_live_job d i" "cancelled_last d' i = cancelled_last d i" for i
    by (simp_all only: has_live_job_def cancelled_last_def)
  have settled: "\<not> stranded d' r" if "r \<in> set (db_recordings d')" for r
    using that same by (auto simp: d' set_update_where stranded_def)
  have "db_update_recordings (stranded d') f d' = d'" for f
  proof -
    have "update_where (stranded d') f (db_recordings d') = db_recordings d'"
      using settled by (auto simp: update_where_def intro: map_idI)
    then show ?thesis by (simp add: db_update_recordings_def)
  qed
  moreover have "filter (stranded d') (db_recordings d') = []"
    using settled by (simp add: filter_empty_conv)
  ultimately have "release_stranded_recordings d' = (0, d')"
    by (simp add: release_stranded_recordings_def)
  moreover have "r \<in> set (db_recordings d')" if "r \<in> set (db_recordings d)" "has_live_job d (r_id r)" for r
    using that by (simp add: d' set_update_where stranded_def)
  moreover have "has_live_job d' (r_id r) \<or> cancelled_last d' (r_id r)"
    if "r \<in> set (db_recordings d')" "r_state r \<in> {RQueued, RProcessing}" for r
    using settled [OF that(1)] that(2) by (auto simp: stranded_def)
  ultimately show ?thesis by blast
qed

text \<open>Retrying failures never stacks: a recording ends with at most one live job if it had at
  most one, a recording with live work keeps its failures as history, and of several failures
  of one recording only the newest is queued again, with a fresh attempt budget.\<close>

theorem retry_failed_single:
  assumes "keyed j_id (db_jobs d)" and "retry_failed d = (n, d')" and "length (jobs_of i live d) \<le> 1"
  shows "length (jobs_of i live d') \<le> 1 \<and>
    (\<forall>j' \<in> set (jobs_of i live d'). j' \<in> set (jobs_of i live d) \<or>
       j_attempts j' = 0 \<and> (\<exists>j \<in> set (db_jobs d). j_id j = j_id j' \<and> j_state j = JFailed \<and>
         jobs_of i live d = [] \<and>
         (\<forall>k \<in> set (db_jobs d). j_recording_id k = Some i \<and> j_state k = JFailed \<longrightarrow> j_id k \<le> j_id j)))"
proof -
  have d': "db_jobs d' = update_where (retryable d) retried_row (db_jobs d)"
    using assms(2) by (auto simp: retry_failed_def)
  have row: "j' \<in> set (jobs_of i live d) \<or>
      (\<exists>j \<in> set (db_jobs d). j' = retried_row j \<and> retryable d j \<and> j_recording_id j = Some i)"
    if "j' \<in> set (jobs_of i live d')" for j'
    using that by (auto simp: jobs_of_def d' set_update_where retried_row_def)
  have newest: "jobs_of i live d = [] \<and>
      (\<forall>k \<in> set (db_jobs d). j_recording_id k = Some i \<and> j_state k = JFailed \<longrightarrow> j_id k \<le> j_id j)"
    if "retryable d j" "j_recording_id j = Some i" for j
    using that by (force simp: retryable_def same_recording_def jobs_of_def filter_empty_conv)
  have "\<forall>j' \<in> set (jobs_of i live d'). j' \<in> set (jobs_of i live d) \<or>
       j_attempts j' = 0 \<and> (\<exists>j \<in> set (db_jobs d). j_id j = j_id j' \<and> j_state j = JFailed \<and>
         jobs_of i live d = [] \<and>
         (\<forall>k \<in> set (db_jobs d). j_recording_id k = Some i \<and> j_state k = JFailed \<longrightarrow> j_id k \<le> j_id j))"
  proof
    fix j' assume "j' \<in> set (jobs_of i live d')"
    from row [OF this] show "j' \<in> set (jobs_of i live d) \<or>
       j_attempts j' = 0 \<and> (\<exists>j \<in> set (db_jobs d). j_id j = j_id j' \<and> j_state j = JFailed \<and>
         jobs_of i live d = [] \<and>
         (\<forall>k \<in> set (db_jobs d). j_recording_id k = Some i \<and> j_state k = JFailed \<longrightarrow> j_id k \<le> j_id j))"
    proof
      assume "j' \<in> set (jobs_of i live d)"
      then show ?thesis ..
    next
      assume "\<exists>j \<in> set (db_jobs d). j' = retried_row j \<and> retryable d j \<and> j_recording_id j = Some i"
      then obtain j where j: "j \<in> set (db_jobs d)" "j' = retried_row j" "retryable d j"
          "j_recording_id j = Some i" by blast
      then have "j_attempts j' = 0" "j_id j = j_id j'" "j_state j = JFailed"
        by (simp_all add: retried_row_def retryable_def)
      with newest [OF j(3,4)] j(1) show ?thesis by blast
    qed
  qed
  moreover have "length (jobs_of i live d') \<le> 1"
  proof (cases "\<exists>j \<in> set (db_jobs d). retryable d j \<and> j_recording_id j = Some i")
    case True
    then obtain j where j: "j \<in> set (db_jobs d)" "retryable d j" "j_recording_id j = Some i" by blast
    note new = newest [OF j(2,3)]
    have "k = j" if "k \<in> set (db_jobs d)" "retryable d k" "j_recording_id k = Some i" for k
      using newest [OF that(2,3)] new j that keyed_inj [OF assms(1)]
      unfolding retryable_def by (metis order_antisym)
    then have "set (jobs_of i live d') \<subseteq> {retried_row j}"
      using row new by fastforce
    moreover have "distinct (jobs_of i live d')"
    proof -
      have "keyed j_id (db_jobs d')" using assms(1) by (simp add: d' retried_row_def)
      then show ?thesis unfolding keyed_def jobs_of_def by (simp add: distinct_map)
    qed
    ultimately have "card (set (jobs_of i live d')) \<le> 1"
      using card_mono [of "{retried_row j}" "set (jobs_of i live d')"] by simp
    with \<open>distinct (jobs_of i live d')\<close> show ?thesis by (simp add: distinct_card)
  next
    case False
    have "filter (\<lambda>j. j_recording_id j = Some i \<and> live j)
        (List.map (\<lambda>r. if retryable d r then retried_row r else r) js) =
        filter (\<lambda>j. j_recording_id j = Some i \<and> live j) js"
      if "set js \<subseteq> set (db_jobs d)" for js
      using that False by (induction js) (auto simp: retried_row_def retryable_def live_def)
    then show ?thesis using assms(3) by (simp add: jobs_of_def d' update_where_def)
  qed
  ultimately show ?thesis by blast
qed

subsection \<open>Instances\<close>

definition sample_flags :: run_flags where
  "sample_flags = \<lparr>paused = False, pause_marker = False, reset_at = None, reset_marker = None\<rparr>"

definition sample_queue :: db where
  "sample_queue = \<lparr>db_recordings = [sample_recording],
     db_jobs = [sample_job, sample_job\<lparr>j_id := 2, j_recording_id := None, j_priority := 200\<rparr>],
     db_journeys = []\<rparr>"

lemma sample_job_id: "j_id sample_job = 1"
  by (simp add: sample_job_def)

lemma jobs_of_live:
  "jobs_of i running d = [] \<Longrightarrow> jobs_of i live d = jobs_of i queued d"
  by (auto simp: jobs_of_def live_def filter_empty_conv intro!: filter_cong)

lemma sample_queue_keyed: "keyed j_id (db_jobs sample_queue)"
  by (simp add: sample_queue_def keyed_def sample_job_def)

lemmas sample_queue_simps = sample_queue_def sample_job_def sample_recording_def sample_flags_def

lemma sample_claimable:
  "claimable 60 [] sample_queue sample_job"
  "claimable 60 [] sample_queue (sample_job\<lparr>j_id := 2, j_recording_id := None, j_priority := 200\<rparr>)"
  by (simp_all add: claimable_def due_def already_running_def visible_recording_def sample_queue_simps)

lemma sample_next: "next_queued 60 [] sample_queue = Some sample_job"
proof -
  have "filter (claimable 60 [] sample_queue) (db_jobs sample_queue) = db_jobs sample_queue"
    using sample_claimable by (simp add: sample_queue_def)
  then show ?thesis
    by (simp add: next_queued_def) (simp add: sample_queue_def claim_key_def sample_job_def)
qed

lemma sample_claim: "\<exists>d'. claim_next sample_flags 60 ''w0'' [] sample_queue =
    (Some (claimed_row 60 ''w0'' sample_job), d')"
  using sample_next
  by (simp add: claim_next_def) (simp add: sample_queue_simps due_def)

lemma claim_takes_first_witness:
  "\<exists>j \<in> set (db_jobs sample_queue). claimable 60 [] sample_queue j \<and> j_id j = 1 \<and>
     (\<forall>k \<in> set (db_jobs sample_queue). claimable 60 [] sample_queue k \<longrightarrow>
        claim_key sample_queue j \<le> claim_key sample_queue k)"
proof -
  obtain d' where c: "claim_next sample_flags 60 ''w0'' [] sample_queue =
      (Some (claimed_row 60 ''w0'' sample_job), d')"
    using sample_claim by blast
  from claim_takes_first [OF sample_queue_keyed] c obtain j where
    "j \<in> set (db_jobs sample_queue)" "claimable 60 [] sample_queue j"
    "claimed_row 60 ''w0'' sample_job = claimed_row 60 ''w0'' j"
    "\<forall>k \<in> set (db_jobs sample_queue). claimable 60 [] sample_queue k \<longrightarrow>
        claim_key sample_queue j \<le> claim_key sample_queue k"
    by blast
  moreover from this(3) have "j_id j = 1" by (metis claimed_row_id(1) sample_job_id)
  ultimately show ?thesis by blast
qed

lemma claim_excludes_witness:
  "\<exists>j d' k d''. claim_next sample_flags 60 ''w0'' [] sample_queue = (Some j, d') \<and>
     claim_next sample_flags 61 ''w1'' [] d' = (Some k, d'') \<and> j_id k \<noteq> j_id j"
proof -
  obtain d' where c: "claim_next sample_flags 60 ''w0'' [] sample_queue =
      (Some (claimed_row 60 ''w0'' sample_job), d')"
    using sample_claim by blast
  let ?k = "sample_job\<lparr>j_id := 2, j_recording_id := None, j_priority := 200\<rparr>"
  have jobs: "db_jobs d' = [claimed_row 60 ''w0'' sample_job, ?k]"
    using claim_next_Some [OF c] sample_next
    by (auto simp: sample_queue_def update_where_def sample_job_def)
  then have "claimable 61 [] d' ?k"
    by (simp add: claimable_def due_def already_running_def claimed_row_def sample_job_def)
  moreover have "?k \<in> set (db_jobs d')" using jobs by simp
  moreover have keyed: "keyed j_id (db_jobs d')" using jobs by (simp add: keyed_def sample_job_def)
  ultimately have "fst (claim_next sample_flags 61 ''w1'' [] d') \<noteq> None"
    using claim_next_None_iff [of sample_flags 61 "''w1''" "[]" d'] by (auto simp: sample_flags_def)
  then obtain k d'' where k: "claim_next sample_flags 61 ''w1'' [] d' = (Some k, d'')"
    by (cases "claim_next sample_flags 61 ''w1'' [] d'") auto
  with claim_excludes [OF sample_queue_keyed c k] c show ?thesis by blast
qed

lemma enqueue_does_not_stack_witness:
  "\<exists>j d'. enqueue 2 70 (Some 7) KReprocess None 200 True sample_queue = (j, d') \<and>
     jobs_of 7 queued d' = [j] \<and>
     enqueue 2 71 (Some 7) KProcess None 100 False d' = (j, d')"
proof -
  obtain j d' where e: "enqueue 2 70 (Some 7) KReprocess None 200 True sample_queue = (j, d')"
    by fastforce
  from enqueue_does_not_stack [OF e] have one: "jobs_of 7 queued d' = [j]"
    and none: "jobs_of 7 running d' = jobs_of 7 running sample_queue"
    by simp_all
  have "jobs_of 7 running d' = []" unfolding none
    by (simp add: jobs_of_def sample_queue_def sample_job_def)
  then have live: "jobs_of 7 live d' = [j]"
    using one by (simp add: jobs_of_live)
  obtain k d'' where e2: "enqueue 2 71 (Some 7) KProcess None 100 False d' = (k, d'')"
    by fastforce
  from enqueue_does_not_stack [OF e2] live e2 e one show ?thesis by auto
qed

lemma clear_empties_witness:
  "\<exists>counts d'. clear 80 RESET_REASON sample_queue = (counts, d') \<and> (JQueued, 2) \<in> set counts \<and>
     (\<forall>j \<in> set (db_jobs d'). j_state j = JCompleted \<or> j_state j = JCancelled)"
proof -
  obtain counts d' where c: "clear 80 RESET_REASON sample_queue = (counts, d')" by fastforce
  have "count_state sample_queue JQueued = 2"
    by (simp add: count_state_def sample_queue_def sample_job_def)
  with clear_empties [OF c] c show ?thesis by simp
qed

lemma failing_runs_end_witness:
  "\<exists>d' j'. failing_runs 2 1 (replicate 9 (100, True, ''database is locked'')) sample_queue = Inr d' \<and>
     get_job 1 d' = Some j' \<and> j_state j' = JFailed"
  by (rule failing_runs_end [of 1 sample_queue sample_job 0])
    (simp_all add: sample_queue_def get_row_def sample_job_def contention_retries_def result_dict_def
      runs_left_def MAX_CONTENTION_RETRIES_def)

lemma release_stranded_complete_witness:
  "\<exists>n d'. release_stranded_recordings (sample_queue\<lparr>db_jobs := []\<rparr>) = (n, d') \<and> n = 1 \<and>
     release_stranded_recordings d' = (0, d')"
proof -
  obtain n d' where r: "release_stranded_recordings (sample_queue\<lparr>db_jobs := []\<rparr>) = (n, d')" by fastforce
  then have "n = 1"
    by (auto simp: release_stranded_recordings_def sample_queue_def stranded_def has_live_job_def
        cancelled_last_def sample_recording_def)
  with release_stranded_complete [OF r] r show ?thesis by blast
qed

lemma retry_failed_single_witness:
  "\<exists>n d'. retry_failed (sample_queue\<lparr>db_jobs := [sample_job\<lparr>j_state := JFailed\<rparr>,
       sample_job\<lparr>j_id := 5, j_state := JFailed\<rparr>]\<rparr>) = (n, d') \<and> length (jobs_of 7 live d') \<le> 1"
proof -
  let ?d = "sample_queue\<lparr>db_jobs := [sample_job\<lparr>j_state := JFailed\<rparr>, sample_job\<lparr>j_id := 5, j_state := JFailed\<rparr>]\<rparr>"
  obtain n d' where r: "retry_failed ?d = (n, d')" by fastforce
  have "keyed j_id (db_jobs ?d)" by (simp add: keyed_def sample_job_def)
  moreover have "length (jobs_of 7 live ?d) \<le> 1" by (simp add: jobs_of_def live_def)
  ultimately show ?thesis using retry_failed_single [OF _ r] r by blast
qed

text \<open>The promise holds for requests, not for every path into the queue: a forced request
  leaves the running job alone, and when that job then fails it is requeued beside the
  replacement, so the recording has two queued jobs and is analysed twice.\<close>

lemma force_then_failure_stacks:
  "\<exists>j d1 d2. enqueue 2 70 (Some 7) KReprocess None 200 True
       (sample_queue\<lparr>db_jobs := [claimed_row 60 ''w0'' sample_job]\<rparr>) = (j, d1) \<and>
     fail 2 90 False False ''ffmpeg died'' (claimed_row 60 ''w0'' sample_job) d1 = Inr d2 \<and>
     length (jobs_of 7 queued d2) = 2"
  by (simp add: enqueue_def add_job_def supersede_def insert_job_def mark_recording_queued_def
      new_job_def next_id_def fail_def fail_normally_def put_job_def update_where_def jobs_of_def
      failing_row_def claimed_row_def sample_job_def sample_queue_def Let_def)

end
