(* ===== verification/Retention.thy ===== *)
theory Retention
  imports Models Paths "HOL-Library.Product_Lexorder"
begin

section \<open>Retention: when footage may be deleted, and which\<close>

text \<open>
  Models \<^verbatim>\<open>backend/app/retention/safety.py\<close> and \<^verbatim>\<open>retention/planner.py\<close>. What the
  filesystem answers is the record \<open>share_view\<close>: every answer is an option, \<open>None\<close> when
  the call raises. The footage tree of an execution is a map from the resolved path of a
  regular file to its size.
\<close>

subsection \<open>Settings and observations\<close>

record storage_settings =
  ss_require_mountpoint :: bool
  ss_min_expected_files :: int
  ss_enable_deletion :: bool
  ss_max_footage_gb :: int
  ss_delete_oldest :: bool
  ss_min_age_days :: int
  ss_keep_with_detections :: bool
  ss_keep_events :: bool
  ss_max_delete_fraction :: real
  ss_delete_idle :: bool
  ss_idle_speed_kmh :: real
  ss_delete_parked :: bool
  ss_min_avg_speed_kmh :: real
  ss_min_top_speed_kmh :: real

record share_view =
  sv_dir :: string
  sv_data_dir :: string
  sv_exists :: "bool option"
  sv_resolve :: "string \<Rightarrow> string option"
  sv_mounted :: "bool option"
  sv_measure :: "(int \<times> int) option"
  sv_writable :: "bool option"

datatype check_name =
    DirectoryExists | NotDataDirectory | NotSystemRoot | IsMountPoint | MinimumFiles
  | ConsistentWithIndex | WritableCheck | Evaluation

datatype refusal =
    NotADirectory string
  | OverlapsDataDirectory string
  | SystemDirectory string
  | NotMounted string
  | TooFewFiles int int
  | IndexMismatch int int
  | ReadOnlyMount string
  | EvaluationRaised
  | ChecksDidNotPass
  | DeletionDisabled
  | MountedReadOnly
  | DeleteOldestOff
  | FractionExceeded

record safety_report =
  sr_ok :: bool
  sr_checks :: "(check_name \<times> bool \<times> refusal option) list"
  sr_blocked_reason :: "refusal option"
  sr_footage_dir :: "string option"
  sr_file_count :: int
  sr_total_bytes :: int
  sr_indexed_count :: int
  sr_writable :: bool

subsection \<open>\<^verbatim>\<open>evaluate_safety\<close>\<close>

definition add_check :: "check_name \<Rightarrow> bool \<Rightarrow> refusal \<Rightarrow> safety_report \<Rightarrow> safety_report" where
  "add_check name passed reason rep =
     rep\<lparr>sr_checks := sr_checks rep @ [(name, passed, if passed then None else Some reason)]\<rparr>"

definition failed_checks :: "safety_report \<Rightarrow> (check_name \<times> bool \<times> refusal option) list" where
  "failed_checks rep = filter (\<lambda>(_, passed, _). \<not> passed) (sr_checks rep)"

definition blocked_report :: "safety_report \<Rightarrow> safety_report" where
  "blocked_report rep =
     rep\<lparr>sr_ok := False,
          sr_blocked_reason := (case failed_checks rep of
             [] \<Rightarrow> Some ChecksDidNotPass | (_, _, reason) # _ \<Rightarrow> reason)\<rparr>"

definition raised_report :: "safety_report \<Rightarrow> safety_report" where
  "raised_report rep = blocked_report (add_check Evaluation False EvaluationRaised rep)"

definition DISK_VS_INDEX_MIN_RATIO :: real where
  "DISK_VS_INDEX_MIN_RATIO = 1 / 2"

definition unsafe_roots :: "string list" where
  "unsafe_roots = [''/'', ''/home'', ''/root'', ''/etc'', ''/usr'', ''/var'', ''/tmp'']"

definition indexed_count :: "db \<Rightarrow> int" where
  "indexed_count d = int (length (filter (\<lambda>r. \<not> r_file_missing r) (db_recordings d)))"

definition overlaps_data :: "(string \<Rightarrow> string option) \<Rightarrow> string \<Rightarrow> string \<Rightarrow> bool" where
  "overlaps_data resolve data resolved \<longleftrightarrow>
     resolved = data \<or> is_within resolve data resolved \<or> is_within resolve resolved data"

definition index_consistent :: "int \<Rightarrow> int \<Rightarrow> bool" where
  "index_consistent indexed files \<longleftrightarrow>
     indexed = 0 \<or> real_of_int indexed * DISK_VS_INDEX_MIN_RATIO \<le> real_of_int files"

text \<open>Guards 5 to 7, then the verdict.\<close>

definition evaluate_contents ::
  "storage_settings \<Rightarrow> share_view \<Rightarrow> db \<Rightarrow> string \<Rightarrow> safety_report \<Rightarrow> safety_report" where
  "evaluate_contents cfg sv d resolved rep =
     (case sv_measure sv of
        None \<Rightarrow> raised_report rep
      | Some (bytes, files) \<Rightarrow>
          (let minimum = ss_min_expected_files cfg;
               rep5 = add_check MinimumFiles (minimum \<le> files) (TooFewFiles files minimum)
                        (rep\<lparr>sr_total_bytes := bytes, sr_file_count := files\<rparr>)
           in if \<not> minimum \<le> files then blocked_report rep5
              else
                (let indexed = indexed_count d;
                     ok6 = index_consistent indexed files;
                     rep6 = add_check ConsistentWithIndex ok6 (IndexMismatch files indexed)
                              (rep5\<lparr>sr_indexed_count := indexed\<rparr>)
                 in if \<not> ok6 then blocked_report rep6
                    else case sv_writable sv of
                           None \<Rightarrow> raised_report rep6
                         | Some w \<Rightarrow>
                             (add_check WritableCheck w (ReadOnlyMount resolved)
                                (rep6\<lparr>sr_writable := w\<rparr>))\<lparr>sr_ok := True\<rparr>)))"

text \<open>Guards 2 to 4.\<close>

definition evaluate_location ::
  "storage_settings \<Rightarrow> share_view \<Rightarrow> db \<Rightarrow> string \<Rightarrow> string \<Rightarrow> safety_report \<Rightarrow> safety_report" where
  "evaluate_location cfg sv d resolved data rep =
     (let collides = overlaps_data (sv_resolve sv) data resolved;
          rep2 = add_check NotDataDirectory (\<not> collides) (OverlapsDataDirectory data) rep
      in if collides then blocked_report rep2
         else
           (let unsafe = resolved \<in> set unsafe_roots;
                rep3 = add_check NotSystemRoot (\<not> unsafe) (SystemDirectory resolved) rep2
            in if unsafe then blocked_report rep3
               else case sv_mounted sv of
                      None \<Rightarrow> raised_report rep3
                    | Some mounted \<Rightarrow>
                        (let ok4 = (mounted \<or> \<not> ss_require_mountpoint cfg);
                             rep4 = add_check IsMountPoint ok4 (NotMounted resolved) rep3
                         in if \<not> ok4 then blocked_report rep4
                            else evaluate_contents cfg sv d resolved rep4)))"

definition evaluate_safety :: "storage_settings \<Rightarrow> share_view \<Rightarrow> db \<Rightarrow> safety_report" where
  "evaluate_safety cfg sv d =
     (let rep0 = \<lparr>sr_ok = False, sr_checks = [], sr_blocked_reason = None,
                  sr_footage_dir = Some (sv_dir sv), sr_file_count = 0, sr_total_bytes = 0,
                  sr_indexed_count = 0, sr_writable = False\<rparr>
      in case sv_exists sv of
           None \<Rightarrow> raised_report rep0
         | Some ex \<Rightarrow>
             (let rep1 = add_check DirectoryExists ex (NotADirectory (sv_dir sv)) rep0
              in if \<not> ex then blocked_report rep1
                 else case sv_resolve sv (sv_dir sv) of
                        None \<Rightarrow> raised_report rep1
                      | Some resolved \<Rightarrow>
                          (case sv_resolve sv (sv_data_dir sv) of
                             None \<Rightarrow> raised_report rep1
                           | Some data \<Rightarrow> evaluate_location cfg sv d resolved data rep1)))"

definition can_delete :: "safety_report \<Rightarrow> bool \<Rightarrow> bool \<times> refusal option" where
  "can_delete rep deletion_enabled =
     (if \<not> sr_ok rep then
        (False, case sr_blocked_reason rep of None \<Rightarrow> Some ChecksDidNotPass | Some r \<Rightarrow> Some r)
      else if \<not> deletion_enabled then (False, Some DeletionDisabled)
      else if \<not> sr_writable rep then (False, Some MountedReadOnly)
      else (True, None))"

subsection \<open>The plan\<close>

definition GB :: int where
  "GB = 1024 ^ 3"

record candidate =
  ca_id :: row_id
  ca_rel_path :: string
  ca_filename :: string
  ca_size :: int
  ca_started :: "usec option"

datatype skip_reason = TooRecent | ContainsDetections | EventRecording | CurrentlyProcessing

record retention_plan =
  pl_bytes_before :: int
  pl_bytes_limit :: int
  pl_bytes_to_free :: int
  pl_candidates :: "candidate list"
  pl_blocked :: bool
  pl_blocked_reason :: "refusal option"
  pl_deletion_enabled :: bool
  pl_exclude_from_stats :: bool
  pl_safety :: "safety_report option"
  pl_skipped :: "(skip_reason \<times> nat) list"

definition would_free :: "retention_plan \<Rightarrow> int" where
  "would_free p = sum_list (List.map ca_size (pl_candidates p))"

definition empty_plan :: retention_plan where
  "empty_plan =
     \<lparr>pl_bytes_before = 0, pl_bytes_limit = 0, pl_bytes_to_free = 0, pl_candidates = [],
      pl_blocked = False, pl_blocked_reason = None, pl_deletion_enabled = False,
      pl_exclude_from_stats = False, pl_safety = None, pl_skipped = []\<rparr>"

definition active_recordings :: "db \<Rightarrow> row_id list" where
  "active_recordings d = List.map_filter j_recording_id (filter live (db_jobs d))"

definition is_event :: "recording \<Rightarrow> bool" where
  "is_event r \<longleftrightarrow> r_protected r \<or> (case r_event_type r of None \<Rightarrow> False | Some t \<Rightarrow> t \<noteq> [])"

definition plannable :: "db \<Rightarrow> recording \<Rightarrow> bool" where
  "plannable d r \<longleftrightarrow>
     \<not> r_file_missing r \<and> r_state r \<noteq> RDeleted \<and> r_id r \<notin> set (active_recordings d)"

definition plan_rows :: "db \<Rightarrow> recording list" where
  "plan_rows d = sort_key age_key (filter (plannable d) (db_recordings d))"

definition too_recent :: "storage_settings \<Rightarrow> usec \<Rightarrow> recording \<Rightarrow> bool" where
  "too_recent cfg now r \<longleftrightarrow>
     0 < ss_min_age_days cfg \<and>
     (case r_started_at r of
        None \<Rightarrow> False | Some t \<Rightarrow> now - seconds (ss_min_age_days cfg * 86400) < t)"

definition skip_of :: "storage_settings \<Rightarrow> usec \<Rightarrow> recording \<Rightarrow> skip_reason option" where
  "skip_of cfg now r =
     (if too_recent cfg now r then Some TooRecent
      else if ss_keep_with_detections cfg \<and> (r_vehicle_count r \<noteq> 0 \<or> r_plate_count r \<noteq> 0)
        then Some ContainsDetections
      else if ss_keep_events cfg \<and> is_event r then Some EventRecording
      else if r_state r = RProcessing then Some CurrentlyProcessing
      else None)"

definition candidate_of :: "recording \<Rightarrow> candidate" where
  "candidate_of r =
     \<lparr>ca_id = r_id r, ca_rel_path = r_rel_path r, ca_filename = r_filename r,
      ca_size = r_size_bytes r, ca_started = r_started_at r\<rparr>"

text \<open>
  The streaming loop: it stops fetching once enough has been chosen. The reasons of the rows
  it passed over are tallied.
\<close>

definition bump :: "skip_reason \<Rightarrow> (skip_reason \<times> nat) list \<Rightarrow> (skip_reason \<times> nat) list" where
  "bump k m = AList.update k ((case map_of m k of None \<Rightarrow> 0 | Some n \<Rightarrow> n) + 1) m"

fun choose_candidates ::
  "storage_settings \<Rightarrow> usec \<Rightarrow> int \<Rightarrow> int \<Rightarrow> (skip_reason \<times> nat) list \<Rightarrow> recording list \<Rightarrow>
   candidate list \<times> (skip_reason \<times> nat) list" where
  "choose_candidates cfg now to_free freed skipped [] = ([], skipped)"
| "choose_candidates cfg now to_free freed skipped (r # rs) =
     (if to_free \<le> freed then ([], skipped)
      else case skip_of cfg now r of
             Some k \<Rightarrow> choose_candidates cfg now to_free freed (bump k skipped) rs
           | None \<Rightarrow>
               (let (cs, sk) = choose_candidates cfg now to_free (freed + r_size_bytes r) skipped rs
                in (candidate_of r # cs, sk)))"

definition indexed_bytes :: "db \<Rightarrow> int" where
  "indexed_bytes d =
     sum_list (List.map r_size_bytes (filter (\<lambda>r. \<not> r_file_missing r) (db_recordings d)))"

definition fraction_guard :: "storage_settings \<Rightarrow> db \<Rightarrow> retention_plan \<Rightarrow> retention_plan" where
  "fraction_guard cfg d p =
     (if indexed_bytes d \<noteq> 0 \<and>
         real_of_int (indexed_bytes d) * ss_max_delete_fraction cfg < real_of_int (would_free p)
      then p\<lparr>pl_blocked := True, pl_blocked_reason := Some FractionExceeded\<rparr> else p)"

definition plan :: "storage_settings \<Rightarrow> safety_report \<Rightarrow> usec \<Rightarrow> db \<Rightarrow> retention_plan" where
  "plan cfg rep now d =
     (let p0 = empty_plan\<lparr>pl_safety := Some rep, pl_deletion_enabled := ss_enable_deletion cfg,
                 pl_bytes_limit := ss_max_footage_gb cfg * GB, pl_bytes_before := sr_total_bytes rep\<rparr>
      in if \<not> sr_ok rep then p0\<lparr>pl_blocked := True, pl_blocked_reason := sr_blocked_reason rep\<rparr>
         else
           (let p1 = p0\<lparr>pl_bytes_to_free := max 0 (pl_bytes_before p0 - pl_bytes_limit p0)\<rparr>
            in if pl_bytes_to_free p1 \<le> 0 then p1
               else if \<not> ss_delete_oldest cfg
                 then p1\<lparr>pl_blocked := True, pl_blocked_reason := Some DeleteOldestOff\<rparr>
               else
                 (let (cs, skipped) =
                        choose_candidates cfg now (pl_bytes_to_free p1) 0 [] (plan_rows d)
                  in fraction_guard cfg d (p1\<lparr>pl_candidates := cs, pl_skipped := skipped\<rparr>))))"

subsection \<open>Carrying it out\<close>

type_synonym files = "string \<Rightarrow> int option"

record retention_run =
  rr_dry_run :: bool
  rr_blocked :: bool
  rr_blocked_reason :: "refusal option"
  rr_bytes_before :: int
  rr_candidate_count :: nat
  rr_candidate_bytes :: int
  rr_deleted_count :: nat
  rr_deleted_bytes :: int

text \<open>\<open>refuses p\<close>: the unlink of \<open>p\<close> fails with an \<^verbatim>\<open>OSError\<close>.\<close>

definition unlink_candidate ::
  "(string \<Rightarrow> string option) \<Rightarrow> string \<Rightarrow> (string \<Rightarrow> bool) \<Rightarrow> candidate \<Rightarrow> files \<Rightarrow>
   int option \<times> files" where
  "unlink_candidate resolve base refuses c fs =
     (case safe_join resolve base [ca_rel_path c] of
        Inl _ \<Rightarrow> (None, fs)
      | Inr target \<Rightarrow>
          (case fs target of
             None \<Rightarrow> (None, fs)
           | Some sz \<Rightarrow> if refuses target then (None, fs) else (Some sz, fs(target := None))))"

text \<open>The row as it is at the moment of the removal decides.\<close>

definition still_deletable :: "bool \<Rightarrow> db \<Rightarrow> candidate \<Rightarrow> bool" where
  "still_deletable spare_events d c =
     (case get_recording (ca_id c) d of
        None \<Rightarrow> False
      | Some r \<Rightarrow>
          r_rel_path r = ca_rel_path c \<and> \<not> r_file_missing r \<and>
          r_state r \<noteq> RDeleted \<and> r_state r \<noteq> RProcessing \<and>
          r_id r \<notin> set (active_recordings d) \<and>
          \<not> (spare_events \<and> is_event r))"

text \<open>
  \<open>others\<close> are the committed changes of other requests, one batch before each candidate is
  read again (a missing batch changes nothing).
\<close>

fun delete_loop ::
  "(string \<Rightarrow> string option) \<Rightarrow> string \<Rightarrow> (string \<Rightarrow> bool) \<Rightarrow> bool \<Rightarrow> (db \<Rightarrow> db) list \<Rightarrow>
   candidate list \<Rightarrow> row_id list \<Rightarrow> int \<Rightarrow> db \<Rightarrow> files \<Rightarrow> row_id list \<times> int \<times> db \<times> files" where
  "delete_loop resolve base refuses spare others [] ids bytes d fs = (ids, bytes, d, fs)"
| "delete_loop resolve base refuses spare others (c # cs) ids bytes d fs =
     (let d1 = (case others of [] \<Rightarrow> d | f # _ \<Rightarrow> f d);
          later = (case others of [] \<Rightarrow> [] | _ # g \<Rightarrow> g)
      in if \<not> still_deletable spare d1 c
         then delete_loop resolve base refuses spare later cs ids bytes d1 fs
         else case unlink_candidate resolve base refuses c fs of
                (None, fs1) \<Rightarrow> delete_loop resolve base refuses spare later cs ids bytes d1 fs1
              | (Some sz, fs1) \<Rightarrow>
                  delete_loop resolve base refuses spare later cs (ids @ [ca_id c]) (bytes + sz)
                    d1 fs1)"

definition ROW_UPDATE_BATCH :: nat where
  "ROW_UPDATE_BATCH = 500"

definition tombstone :: "usec \<Rightarrow> bool \<Rightarrow> recording \<Rightarrow> recording" where
  "tombstone now exclude r =
     (let t = r\<lparr>r_file_missing := True, r_deleted_at := Some now, r_state := RDeleted\<rparr>
      in if exclude then t\<lparr>r_ignored := True\<rparr> else t)"

definition mark_deleted :: "usec \<Rightarrow> bool \<Rightarrow> row_id list \<Rightarrow> db \<Rightarrow> db" where
  "mark_deleted now exclude ids d =
     fold (\<lambda>batch. db_update_recordings (\<lambda>r. r_id r \<in> set batch) (tombstone now exclude))
       (batches ROW_UPDATE_BATCH ids) d"

definition execute ::
  "storage_settings \<Rightarrow> (string \<Rightarrow> string option) \<Rightarrow> string \<Rightarrow> (string \<Rightarrow> bool) \<Rightarrow> (db \<Rightarrow> db) list \<Rightarrow>
   usec \<Rightarrow> safety_report \<Rightarrow> retention_plan \<Rightarrow> bool \<Rightarrow> db \<Rightarrow> files \<Rightarrow> retention_run \<times> db \<times> files" where
  "execute cfg resolve base refuses others now fallback p dry_run d fs =
     (let (allowed, refusal) =
            can_delete (case pl_safety p of Some rep \<Rightarrow> rep | None \<Rightarrow> fallback) (pl_deletion_enabled p);
          really = (allowed \<and> \<not> dry_run \<and> \<not> pl_blocked p);
          run = \<lparr>rr_dry_run = \<not> really, rr_blocked = (pl_blocked p \<or> \<not> allowed),
                 rr_blocked_reason = (case pl_blocked_reason p of None \<Rightarrow> refusal | Some r \<Rightarrow> Some r),
                 rr_bytes_before = pl_bytes_before p,
                 rr_candidate_count = length (pl_candidates p), rr_candidate_bytes = would_free p,
                 rr_deleted_count = 0, rr_deleted_bytes = 0\<rparr>
      in if \<not> really then (run, d, fs)
         else case delete_loop resolve base refuses (pl_exclude_from_stats p \<or> ss_keep_events cfg)
                     others (pl_candidates p) [] 0 d fs of
                (ids, bytes, d1, fs1) \<Rightarrow>
                  (run\<lparr>rr_deleted_count := length ids, rr_deleted_bytes := bytes\<rparr>,
                   mark_deleted now (pl_exclude_from_stats p) ids d1, fs1))"

end
