(* ===== verification/RetentionProps.thy ===== *)
theory RetentionProps
  imports Retention
begin

section \<open>Retention fails closed and spares what it must\<close>

subsection \<open>The guards\<close>

lemma blocked_report_sel [simp]: "sr_ok (blocked_report rep) = False"
  "sr_writable (blocked_report rep) = sr_writable rep"
  by (simp_all add: blocked_report_def)

lemma raised_report_sel [simp]: "sr_ok (raised_report rep) = False"
  by (simp add: raised_report_def)

lemma add_check_sel [simp]:
  "sr_ok (add_check n b x rep) = sr_ok rep" "sr_writable (add_check n b x rep) = sr_writable rep"
  by (simp_all add: add_check_def)

text \<open>Every guard holds and every question was answered.\<close>

definition safe_contents :: "storage_settings \<Rightarrow> share_view \<Rightarrow> db \<Rightarrow> bool" where
  "safe_contents cfg sv d \<longleftrightarrow>
     (\<exists>bytes files. sv_measure sv = Some (bytes, files) \<and> ss_min_expected_files cfg \<le> files \<and>
        index_consistent (indexed_count d) files) \<and> sv_writable sv \<noteq> None"

definition safe_location :: "storage_settings \<Rightarrow> share_view \<Rightarrow> bool" where
  "safe_location cfg sv \<longleftrightarrow>
     sv_exists sv = Some True \<and>
     (\<exists>resolved data. sv_resolve sv (sv_dir sv) = Some resolved \<and>
        sv_resolve sv (sv_data_dir sv) = Some data \<and>
        \<not> overlaps_data (sv_resolve sv) data resolved \<and> resolved \<notin> set unsafe_roots) \<and>
     (sv_mounted sv = Some True \<or> sv_mounted sv = Some False \<and> \<not> ss_require_mountpoint cfg)"

lemma evaluate_contents_ok:
  assumes "\<not> sr_ok rep"
  shows "sr_ok (evaluate_contents cfg sv d resolved rep) \<longleftrightarrow> safe_contents cfg sv d"
    and "sr_ok (evaluate_contents cfg sv d resolved rep) \<Longrightarrow>
      Some (sr_writable (evaluate_contents cfg sv d resolved rep)) = sv_writable sv"
  using assms
  unfolding evaluate_contents_def safe_contents_def Let_def
  by (auto split: option.splits prod.splits if_splits)

lemma evaluate_location_ok:
  assumes "\<not> sr_ok rep"
  shows "sr_ok (evaluate_location cfg sv d resolved data rep) \<longleftrightarrow>
      \<not> overlaps_data (sv_resolve sv) data resolved \<and> resolved \<notin> set unsafe_roots \<and>
      (sv_mounted sv = Some True \<or> sv_mounted sv = Some False \<and> \<not> ss_require_mountpoint cfg) \<and>
      safe_contents cfg sv d"
    and "sr_ok (evaluate_location cfg sv d resolved data rep) \<Longrightarrow>
      Some (sr_writable (evaluate_location cfg sv d resolved data rep)) = sv_writable sv"
  using assms
  unfolding evaluate_location_def Let_def
  by (auto simp: evaluate_contents_ok split: option.splits if_splits)

lemma evaluate_safety_ok:
  "sr_ok (evaluate_safety cfg sv d) \<longleftrightarrow> safe_location cfg sv \<and> safe_contents cfg sv d"
  "sr_ok (evaluate_safety cfg sv d) \<Longrightarrow>
    Some (sr_writable (evaluate_safety cfg sv d)) = sv_writable sv"
  unfolding evaluate_safety_def safe_location_def Let_def
  by (auto simp: evaluate_location_ok split: option.splits if_splits)

text \<open>C8: the final gate opens exactly when every guard holds, no filesystem question
  raised, the share is genuinely writable and deletion was opted into; a refusal always
  carries a reason. An absent, empty, unmounted, shrunken or unreadable share refuses.\<close>

theorem can_delete_iff:
  "(fst (can_delete (evaluate_safety cfg sv d) enabled) \<longleftrightarrow>
      safe_location cfg sv \<and> safe_contents cfg sv d \<and> sv_writable sv = Some True \<and> enabled) \<and>
   (fst (can_delete (evaluate_safety cfg sv d) enabled) \<longleftrightarrow>
      snd (can_delete (evaluate_safety cfg sv d) enabled) = None)"
  using evaluate_safety_ok [of cfg sv d]
  by (auto simp: can_delete_def split: option.splits)

subsection \<open>The plan\<close>

definition eligible_rows :: "storage_settings \<Rightarrow> usec \<Rightarrow> recording list \<Rightarrow> recording list" where
  "eligible_rows cfg now rs = filter (\<lambda>r. skip_of cfg now r = None) rs"

definition bytes_of :: "recording list \<Rightarrow> int" where
  "bytes_of rs = sum_list (List.map r_size_bytes rs)"

lemma choose_candidates_prefix:
  "\<exists>n \<le> length (eligible_rows cfg now rs).
     fst (choose_candidates cfg now to_free freed sk rs) =
       List.map candidate_of (take n (eligible_rows cfg now rs)) \<and>
     (\<forall>m < n. freed + bytes_of (take m (eligible_rows cfg now rs)) < to_free) \<and>
     (n = length (eligible_rows cfg now rs) \<or>
      to_free \<le> freed + bytes_of (take n (eligible_rows cfg now rs)))"
proof (induction rs arbitrary: freed sk)
  case (Cons r rs)
  show ?case
  proof (cases "to_free \<le> freed")
    case True
    then show ?thesis by (intro exI [of _ 0]) (simp add: bytes_of_def)
  next
    case False
    show ?thesis
    proof (cases "skip_of cfg now r")
      case (Some k)
      then have "eligible_rows cfg now (r # rs) = eligible_rows cfg now rs"
        by (simp add: eligible_rows_def)
      with Cons.IH [of freed "bump k sk"] False Some show ?thesis by simp
    next
      case None
      then have e: "eligible_rows cfg now (r # rs) = r # eligible_rows cfg now rs"
        by (simp add: eligible_rows_def)
      obtain n where n: "n \<le> length (eligible_rows cfg now rs)"
        "fst (choose_candidates cfg now to_free (freed + r_size_bytes r) sk rs) =
           List.map candidate_of (take n (eligible_rows cfg now rs))"
        "\<forall>m < n. freed + r_size_bytes r + bytes_of (take m (eligible_rows cfg now rs)) < to_free"
        "n = length (eligible_rows cfg now rs) \<or>
         to_free \<le> freed + r_size_bytes r + bytes_of (take n (eligible_rows cfg now rs))"
        using Cons.IH [of "freed + r_size_bytes r" sk] by blast
      have "freed + bytes_of (take m (r # eligible_rows cfg now rs)) < to_free" if "m < Suc n" for m
        using that n(3) False by (cases m) (auto simp: bytes_of_def)
      with n None False e show ?thesis
        by (intro exI [of _ "Suc n"]) (auto simp: bytes_of_def split: prod.splits)
    qed
  qed
qed (simp add: eligible_rows_def bytes_of_def)

lemma fraction_guard_sel [simp]:
  "pl_candidates (fraction_guard cfg d p) = pl_candidates p"
  "pl_bytes_to_free (fraction_guard cfg d p) = pl_bytes_to_free p"
  "pl_safety (fraction_guard cfg d p) = pl_safety p"
  by (simp_all add: fraction_guard_def)

text \<open>Over the limit, the plan is the shortest run of the oldest eligible recordings that
  frees enough (all of them when even that is too little): undated files come last, and a
  file too recent, with detections or an event (where the settings keep those), in
  processing, or with a live job is never in it.\<close>

theorem plan_oldest_first:
  assumes "sr_ok rep" and "ss_delete_oldest cfg"
    and "0 < pl_bytes_to_free (plan cfg rep now d)"
  shows "\<exists>n. pl_candidates (plan cfg rep now d) =
      List.map candidate_of (take n (eligible_rows cfg now (plan_rows d))) \<and>
    (\<forall>m < n. bytes_of (take m (eligible_rows cfg now (plan_rows d))) <
       pl_bytes_to_free (plan cfg rep now d)) \<and>
    (n = length (eligible_rows cfg now (plan_rows d)) \<or>
     pl_bytes_to_free (plan cfg rep now d) \<le> would_free (plan cfg rep now d)) \<and>
    sorted (List.map age_key (eligible_rows cfg now (plan_rows d)))"
proof -
  let ?free = "max 0 (sr_total_bytes rep - ss_max_footage_gb cfg * GB)"
  let ?c = "choose_candidates cfg now ?free 0 [] (plan_rows d)"
  have p: "pl_candidates (plan cfg rep now d) = fst ?c" "pl_bytes_to_free (plan cfg rep now d) = ?free"
    using assms by (auto simp: plan_def Let_def split: if_splits prod.splits)
  obtain n where n: "fst ?c = List.map candidate_of (take n (eligible_rows cfg now (plan_rows d)))"
      "\<forall>m < n. bytes_of (take m (eligible_rows cfg now (plan_rows d))) < ?free"
      "n = length (eligible_rows cfg now (plan_rows d)) \<or>
       ?free \<le> bytes_of (take n (eligible_rows cfg now (plan_rows d)))"
    using choose_candidates_prefix [of cfg now "plan_rows d" ?free 0 "[]"] by auto
  have "would_free (plan cfg rep now d) = bytes_of (take n (eligible_rows cfg now (plan_rows d)))"
    unfolding would_free_def p(1) n(1) bytes_of_def by (simp add: candidate_of_def comp_def)
  moreover have "sorted (List.map age_key (eligible_rows cfg now (plan_rows d)))"
    unfolding eligible_rows_def plan_rows_def by (intro sorted_filter sorted_sort_key)
  ultimately show ?thesis using p n by (intro exI [of _ n]) simp
qed

subsection \<open>The deletion loop\<close>

definition after :: "(db \<Rightarrow> db) list \<Rightarrow> db \<Rightarrow> db" where
  "after fs d = fold (\<lambda>f. f) fs d"

text \<open>The database as candidate \<open>n\<close> is read again, behind the commits of other requests.\<close>

definition seen :: "(db \<Rightarrow> db) list \<Rightarrow> nat \<Rightarrow> db \<Rightarrow> db" where
  "seen others n d = after (take (Suc n) others) d"

definition removed_at ::
  "(string \<Rightarrow> string option) \<Rightarrow> string \<Rightarrow> bool \<Rightarrow> (db \<Rightarrow> db) list \<Rightarrow> candidate list \<Rightarrow> db \<Rightarrow>
   nat \<Rightarrow> string \<Rightarrow> bool" where
  "removed_at resolve base spare others cs d n p \<longleftrightarrow>
     n < length cs \<and> safe_join resolve base [ca_rel_path (cs ! n)] = Inr p \<and>
     still_deletable spare (seen others n d) (cs ! n)"

lemma seen_Suc:
  "seen others (Suc n) d =
     seen (case others of [] \<Rightarrow> [] | _ # g \<Rightarrow> g) n (case others of [] \<Rightarrow> d | f # _ \<Rightarrow> f d)"
  by (cases others) (simp_all add: seen_def after_def)

lemma seen_0: "seen others 0 d = (case others of [] \<Rightarrow> d | f # _ \<Rightarrow> f d)"
  by (cases others) (simp_all add: seen_def after_def)

lemma removed_at_Suc:
  "removed_at resolve base spare others (c # cs) d (Suc n) p \<longleftrightarrow>
     removed_at resolve base spare (case others of [] \<Rightarrow> [] | _ # g \<Rightarrow> g) cs
       (case others of [] \<Rightarrow> d | f # _ \<Rightarrow> f d) n p"
  by (simp add: removed_at_def seen_Suc)

lemma unlink_candidate_cases:
  assumes "unlink_candidate resolve base refuses c fs = (r, fs1)"
  obtains "r = None" "fs1 = fs"
  | target sz where "r = Some sz" "safe_join resolve base [ca_rel_path c] = Inr target"
      "fs target = Some sz" "fs1 = fs(target := None)"
proof (cases "safe_join resolve base [ca_rel_path c]")
  case (Inl e)
  with assms that(1) show ?thesis by (simp add: unlink_candidate_def)
next
  case (Inr target)
  show ?thesis
  proof (cases "fs target")
    case None
    with Inr assms that(1) show ?thesis by (simp add: unlink_candidate_def)
  next
    case (Some sz)
    with Inr assms have "unlink_candidate resolve base refuses c fs =
        (if refuses target then (None, fs) else (Some sz, fs(target := None)))"
      by (simp only: unlink_candidate_def sum.case option.case)
    with assms have "refuses target \<and> r = None \<and> fs1 = fs \<or> r = Some sz \<and> fs1 = fs(target := None)"
      by (cases "refuses target") (simp_all only: if_True if_False prod.inject simp_thms)
    with Inr Some that show ?thesis by blast
  qed
qed

lemma delete_loop_removes:
  "delete_loop resolve base refuses spare others cs ids bytes d fs = (ids', bytes', d', fs') \<Longrightarrow>
   (\<forall>p. fs' p \<noteq> fs p \<longrightarrow> fs' p = None \<and>
      (\<exists>n. removed_at resolve base spare others cs d n p \<and> ca_id (cs ! n) \<in> set ids')) \<and>
   (\<forall>i \<in> set ids' - set ids. \<exists>n p. removed_at resolve base spare others cs d n p \<and>
      ca_id (cs ! n) = i \<and> fs p \<noteq> None \<and> fs' p = None) \<and>
   set ids \<subseteq> set ids'"
proof (induction cs arbitrary: others ids bytes d fs)
  case (Cons c cs)
  let ?d1 = "case others of [] \<Rightarrow> d | f # _ \<Rightarrow> f d"
  let ?later = "case others of [] \<Rightarrow> [] | _ # g \<Rightarrow> g"
  let ?R = "removed_at resolve base spare others (c # cs) d"
  let ?R1 = "removed_at resolve base spare ?later cs ?d1"
  have skip: ?case
    if loop: "delete_loop resolve base refuses spare ?later cs ids bytes ?d1 fs = (ids', bytes', d', fs')"
  proof -
    have "\<forall>p. fs' p \<noteq> fs p \<longrightarrow> fs' p = None \<and>
        (\<exists>n. ?R (Suc n) p \<and> ca_id ((c # cs) ! Suc n) \<in> set ids')"
      and "\<forall>i \<in> set ids' - set ids. \<exists>n p. ?R (Suc n) p \<and>
        ca_id ((c # cs) ! Suc n) = i \<and> fs p \<noteq> None \<and> fs' p = None"
      and "set ids \<subseteq> set ids'"
      unfolding removed_at_Suc nth_Cons_Suc using Cons.IH [OF loop] by blast+
    then show ?thesis by meson
  qed
  show ?case
  proof (cases "still_deletable spare ?d1 c")
    case False
    with Cons.prems show ?thesis by (intro skip) (simp add: Let_def)
  next
    case True
    obtain r fs1 where u: "unlink_candidate resolve base refuses c fs = (r, fs1)" by fastforce
    from u show ?thesis
    proof (cases rule: unlink_candidate_cases)
      case 1
      with Cons.prems True u show ?thesis by (intro skip) (simp add: Let_def)
    next
      case (2 target sz)
      then have loop: "delete_loop resolve base refuses spare ?later cs (ids @ [ca_id c]) (bytes + sz)
          ?d1 fs1 = (ids', bytes', d', fs')"
        using Cons.prems True u by (simp add: Let_def)
      have here: "?R 0 target" using True 2 by (simp add: removed_at_def seen_0)
      have IH: "\<forall>p. fs' p \<noteq> fs1 p \<longrightarrow> fs' p = None \<and>
          (\<exists>n. ?R (Suc n) p \<and> ca_id ((c # cs) ! Suc n) \<in> set ids')"
        "\<forall>i \<in> set ids' - set (ids @ [ca_id c]). \<exists>n p. ?R (Suc n) p \<and>
          ca_id ((c # cs) ! Suc n) = i \<and> fs1 p \<noteq> None \<and> fs' p = None"
        "set (ids @ [ca_id c]) \<subseteq> set ids'"
        unfolding removed_at_Suc nth_Cons_Suc using Cons.IH [OF loop] by blast+
      have gone: "fs' target = None" using IH(1) 2(4) by (metis fun_upd_same)
      have "fs' p = None \<and> (\<exists>n. ?R n p \<and> ca_id ((c # cs) ! n) \<in> set ids')" if "fs' p \<noteq> fs p" for p
      proof (cases "p = target")
        case True
        with here gone IH(3) show ?thesis by (auto intro!: exI [of _ 0])
      next
        case False
        with that IH(1) 2(4) show ?thesis by (metis fun_upd_other)
      qed
      moreover have "\<exists>n p. ?R n p \<and> ca_id ((c # cs) ! n) = i \<and> fs p \<noteq> None \<and> fs' p = None"
        if "i \<in> set ids' - set ids" for i
      proof (cases "i = ca_id c")
        case True
        with here gone 2(3) show ?thesis by (intro exI [of _ 0] exI [of _ target]) simp
      next
        case False
        with that have "i \<in> set ids' - set (ids @ [ca_id c])" by simp
        with IH(2) obtain n p where np: "?R (Suc n) p" "ca_id ((c # cs) ! Suc n) = i"
            "fs1 p \<noteq> None" "fs' p = None"
          by blast
        with 2(4) have "fs p \<noteq> None" by (auto split: if_splits)
        with np show ?thesis by blast
      qed
      moreover have "set ids \<subseteq> set ids'" using IH(3) by simp
      ultimately show ?thesis by blast
    qed
  qed
qed simp

lemma delete_loop_db:
  "delete_loop resolve base refuses spare others cs ids bytes d fs = (ids', bytes', d', fs') \<Longrightarrow>
   d' = after (take (length cs) others) d"
proof (induction cs arbitrary: others ids bytes d fs)
  case (Cons c cs)
  have "after (take (Suc (length cs)) others) d =
      after (take (length cs) (case others of [] \<Rightarrow> [] | _ # g \<Rightarrow> g)) (case others of [] \<Rightarrow> d | f # _ \<Rightarrow> f d)"
    by (cases others) (simp_all add: after_def)
  with Cons show ?case by (auto simp: Let_def split: if_splits prod.splits option.splits)
qed (simp add: after_def)

lemma tombstone_twice [simp]: "tombstone now e (tombstone now e r) = tombstone now e r"
  by (simp add: tombstone_def Let_def)

lemma tombstone_id [simp]: "r_id (tombstone now e r) = r_id r"
  by (simp add: tombstone_def Let_def)

lemma mark_deleted_eq:
  "mark_deleted now e ids d =
     db_update_recordings (\<lambda>r. r_id r \<in> set ids) (tombstone now e) d"
proof -
  have step: "db_update_recordings (\<lambda>r. r_id r \<in> B) (tombstone now e)
      (db_update_recordings (\<lambda>r. r_id r \<in> A) (tombstone now e) x) =
      db_update_recordings (\<lambda>r. r_id r \<in> A \<union> B) (tombstone now e) x" for A B x
    by (simp add: db_update_recordings_def update_where_def comp_def)
  have "fold (\<lambda>b. db_update_recordings (\<lambda>r. r_id r \<in> set b) (tombstone now e)) bs
      (db_update_recordings (\<lambda>r. r_id r \<in> A) (tombstone now e) x) =
      db_update_recordings (\<lambda>r. r_id r \<in> A \<union> set (concat bs)) (tombstone now e) x" for bs A x
  proof (induction bs arbitrary: A)
    case (Cons b bs)
    have "A \<union> set b \<union> set (concat bs) = A \<union> set (concat (b # bs))" by auto
    with Cons.IH [of "A \<union> set b"] show ?case by (simp only: fold_simps step)
  qed simp
  from this [of "batches ROW_UPDATE_BATCH ids" "{}" d] show ?thesis
    by (simp add: mark_deleted_def concat_batches ROW_UPDATE_BATCH_def
        db_update_recordings_def update_where_def)
qed

subsection \<open>What an execution removes\<close>

text \<open>The verdict of the final gate for a plan, and whether the run is a real one.\<close>

definition permitted :: "safety_report \<Rightarrow> retention_plan \<Rightarrow> bool \<Rightarrow> bool" where
  "permitted fallback p dry_run \<longleftrightarrow>
     fst (can_delete (case pl_safety p of Some rep \<Rightarrow> rep | None \<Rightarrow> fallback) (pl_deletion_enabled p)) \<and>
     \<not> dry_run \<and> \<not> pl_blocked p"

lemma execute_cases:
  assumes "execute cfg resolve base refuses others now fallback p dry_run d fs = (run, d', fs')"
  shows "if permitted fallback p dry_run
    then \<exists>ids bytes d1. delete_loop resolve base refuses (pl_exclude_from_stats p \<or> ss_keep_events cfg)
           others (pl_candidates p) [] 0 d fs = (ids, bytes, d1, fs') \<and>
         d' = mark_deleted now (pl_exclude_from_stats p) ids d1 \<and>
         rr_deleted_count run = length ids \<and> rr_deleted_bytes run = bytes \<and> \<not> rr_dry_run run
    else d' = d \<and> fs' = fs \<and> rr_deleted_count run = 0 \<and> rr_dry_run run"
  using assms unfolding execute_def permitted_def Let_def
  by (auto split: prod.splits if_splits)

text \<open>C2: a file disappears only in a real, permitted, unblocked run, and only the file of a
  candidate whose row, read again at that moment behind everything other requests committed
  meanwhile, still names that path, is neither deleted nor in processing, has no live job,
  and is no event when events are kept. Nothing else on the share changes.\<close>

theorem execute_removes:
  assumes "execute cfg resolve base refuses others now fallback p dry_run d fs = (run, d', fs')"
    and "fs' q \<noteq> fs q"
  shows "permitted fallback p dry_run \<and> fs' q = None \<and>
    (\<exists>n r. n < length (pl_candidates p) \<and>
       safe_join resolve base [ca_rel_path (pl_candidates p ! n)] = Inr q \<and>
       get_recording (ca_id (pl_candidates p ! n)) (seen others n d) = Some r \<and>
       r_rel_path r = ca_rel_path (pl_candidates p ! n) \<and>
       r_state r \<noteq> RDeleted \<and> r_state r \<noteq> RProcessing \<and>
       r_id r \<notin> set (active_recordings (seen others n d)) \<and>
       \<not> ((pl_exclude_from_stats p \<or> ss_keep_events cfg) \<and> is_event r))"
proof (cases "permitted fallback p dry_run")
  case True
  then obtain ids bytes d1 where loop: "delete_loop resolve base refuses
      (pl_exclude_from_stats p \<or> ss_keep_events cfg) others (pl_candidates p) [] 0 d fs =
      (ids, bytes, d1, fs')"
    using execute_cases [OF assms(1)] by auto
  have "fs' q = None \<and> (\<exists>n. removed_at resolve base (pl_exclude_from_stats p \<or> ss_keep_events cfg)
      others (pl_candidates p) d n q)"
    using delete_loop_removes [OF loop] assms(2) by blast
  then show ?thesis
    using True by (auto simp: removed_at_def still_deletable_def split: option.splits)
next
  case False
  with execute_cases [OF assms(1)] assms(2) show ?thesis by simp
qed

text \<open>After a real run the rows marked deleted are exactly the candidates whose file was
  unlinked in it, in one consistent update whatever the batch size: every marked row lost an
  existing file, every lost file's row is marked, all other rows and all jobs are as the other
  requests left them.\<close>

theorem execute_tombstones:
  assumes "execute cfg resolve base refuses others now fallback p dry_run d fs = (run, d', fs')"
    and "\<not> rr_dry_run run"
  shows "\<exists>ids. rr_deleted_count run = length ids \<and>
    d' = db_update_recordings (\<lambda>r. r_id r \<in> set ids) (tombstone now (pl_exclude_from_stats p))
           (after (take (length (pl_candidates p)) others) d) \<and>
    (\<forall>i \<in> set ids. \<exists>n q. n < length (pl_candidates p) \<and> ca_id (pl_candidates p ! n) = i \<and>
       safe_join resolve base [ca_rel_path (pl_candidates p ! n)] = Inr q \<and>
       fs q \<noteq> None \<and> fs' q = None) \<and>
    (\<forall>q. fs' q \<noteq> fs q \<longrightarrow> (\<exists>n < length (pl_candidates p). ca_id (pl_candidates p ! n) \<in> set ids \<and>
       safe_join resolve base [ca_rel_path (pl_candidates p ! n)] = Inr q))"
proof -
  have "permitted fallback p dry_run"
    using execute_cases [OF assms(1)] assms(2) by (simp split: if_splits)
  then obtain ids bytes d1 where loop: "delete_loop resolve base refuses
      (pl_exclude_from_stats p \<or> ss_keep_events cfg) others (pl_candidates p) [] 0 d fs =
      (ids, bytes, d1, fs')" and d': "d' = mark_deleted now (pl_exclude_from_stats p) ids d1"
      and count: "rr_deleted_count run = length ids"
    using execute_cases [OF assms(1)] by auto
  have "d' = db_update_recordings (\<lambda>r. r_id r \<in> set ids) (tombstone now (pl_exclude_from_stats p))
      (after (take (length (pl_candidates p)) others) d)"
    using delete_loop_db [OF loop] d' by (simp add: mark_deleted_eq)
  then show ?thesis
    using delete_loop_removes [OF loop] count
    unfolding removed_at_def by (intro exI [of _ ids]) (simp, meson)
qed

subsection \<open>Instances\<close>

definition sample_settings :: storage_settings where
  "sample_settings =
     \<lparr>ss_require_mountpoint = True, ss_min_expected_files = 1, ss_enable_deletion = True,
      ss_max_footage_gb = 1, ss_delete_oldest = True, ss_min_age_days = 0,
      ss_keep_with_detections = True, ss_keep_events = True, ss_max_delete_fraction = 1,
      ss_delete_idle = True, ss_idle_speed_kmh = 3, ss_delete_parked = True,
      ss_min_avg_speed_kmh = 5, ss_min_top_speed_kmh = 10\<rparr>"

definition sample_share :: share_view where
  "sample_share =
     \<lparr>sv_dir = ''/share'', sv_data_dir = ''/data'', sv_exists = Some True, sv_resolve = Some,
      sv_mounted = Some True, sv_measure = Some (GB + 8, 2), sv_writable = Some True\<rparr>"

definition sample_db :: db where
  "sample_db =
     \<lparr>db_recordings = [sample_recording\<lparr>r_id := 8, r_rel_path := ''b.ts'', r_state := RCompleted,
                         r_started_at := None\<rparr>,
                       sample_recording\<lparr>r_state := RCompleted\<rparr>],
      db_jobs = [], db_journeys = []\<rparr>"

lemma sample_safety: "sr_ok (evaluate_safety sample_settings sample_share sample_db)"
  "sr_total_bytes (evaluate_safety sample_settings sample_share sample_db) = GB + 8"
  "sr_writable (evaluate_safety sample_settings sample_share sample_db)"
  by (simp_all add: evaluate_safety_def evaluate_location_def evaluate_contents_def sample_share_def
      sample_settings_def sample_db_def overlaps_data_def is_within_def path_contains_def
      starts_with_def with_sep_def ends_with_sep_def unsafe_roots_def indexed_count_def
      index_consistent_def DISK_VS_INDEX_MIN_RATIO_def sample_recording_def add_check_def)

lemma can_delete_iff_witness:
  "fst (can_delete (evaluate_safety sample_settings sample_share sample_db) True) \<and>
   safe_location sample_settings sample_share \<and>
   \<not> fst (can_delete (evaluate_safety sample_settings (sample_share\<lparr>sv_measure := Some (0, 0)\<rparr>) sample_db) True)"
proof -
  have "fst (can_delete (evaluate_safety sample_settings sample_share sample_db) True)"
    using sample_safety by (simp add: can_delete_def)
  moreover from this can_delete_iff [of sample_settings sample_share sample_db True]
  have "safe_location sample_settings sample_share" by blast
  moreover have "\<not> safe_contents sample_settings (sample_share\<lparr>sv_measure := Some (0, 0)\<rparr>) sample_db"
    by (simp add: safe_contents_def sample_settings_def)
  with can_delete_iff [of sample_settings "sample_share\<lparr>sv_measure := Some (0, 0)\<rparr>" sample_db True]
  have "\<not> fst (can_delete (evaluate_safety sample_settings (sample_share\<lparr>sv_measure := Some (0, 0)\<rparr>) sample_db) True)"
    by blast
  ultimately show ?thesis by blast
qed

definition sample_plan :: retention_plan where
  "sample_plan = plan sample_settings (evaluate_safety sample_settings sample_share sample_db) 1000 sample_db"

lemma sample_plan_free: "pl_bytes_to_free sample_plan = 8"
  using sample_safety
  by (simp add: sample_plan_def plan_def Let_def sample_settings_def empty_plan_def GB_def case_prod_unfold)

lemma sample_plan_rows: "plan_rows sample_db =
    [sample_recording\<lparr>r_state := RCompleted\<rparr>,
     sample_recording\<lparr>r_id := 8, r_rel_path := ''b.ts'', r_state := RCompleted, r_started_at := None\<rparr>]"
  by (simp add: plan_rows_def sample_db_def plannable_def active_recordings_def sample_recording_def
      age_key_def map_filter_def)

lemma plan_oldest_first_witness:
  "0 < pl_bytes_to_free sample_plan \<and>
   (\<exists>n. pl_candidates sample_plan =
      List.map candidate_of (take n (eligible_rows sample_settings 1000 (plan_rows sample_db))))"
proof -
  have "ss_delete_oldest sample_settings" by (simp add: sample_settings_def)
  with plan_oldest_first [OF sample_safety(1) this, of 1000 sample_db] show ?thesis
    using sample_plan_free unfolding sample_plan_def by fastforce
qed

lemma sample_plan_candidates: "pl_candidates sample_plan =
    [candidate_of (sample_recording\<lparr>r_state := RCompleted\<rparr>)]"
  using sample_safety
  by (simp add: sample_plan_def plan_def Let_def case_prod_unfold sample_plan_rows)
    (simp add: sample_settings_def empty_plan_def GB_def
      skip_of_def too_recent_def is_event_def sample_recording_def)

lemma sample_plan_flags: "\<not> pl_blocked sample_plan" "pl_deletion_enabled sample_plan"
  "pl_safety sample_plan = Some (evaluate_safety sample_settings sample_share sample_db)"
  "\<not> pl_exclude_from_stats sample_plan"
  using sample_safety
  by (simp_all add: sample_plan_def plan_def Let_def case_prod_unfold fraction_guard_def would_free_def
      sample_plan_rows)
    (simp_all add: sample_settings_def empty_plan_def GB_def
      skip_of_def too_recent_def is_event_def sample_recording_def indexed_bytes_def sample_db_def
      candidate_of_def)

definition sample_files :: files where
  "sample_files = (\<lambda>_. None)(''/share/DCIM/a.ts'' := Some 10, ''/share/b.ts'' := Some 10)"

definition sample_run :: "retention_run \<times> db \<times> files" where
  "sample_run = execute sample_settings Some ''/share'' (\<lambda>_. False) [] 1000
     (evaluate_safety sample_settings sample_share sample_db) sample_plan False sample_db sample_files"

lemma sample_join: "safe_join Some ''/share'' [''DCIM/a.ts''] = Inr ''/share/DCIM/a.ts''"
  by code_simp

lemma sample_deletable:
  "still_deletable True sample_db (candidate_of (sample_recording\<lparr>r_state := RCompleted\<rparr>))"
  by (simp add: still_deletable_def sample_db_def sample_recording_def candidate_of_def get_row_def
      active_recordings_def is_event_def map_filter_def)

lemma sample_run_effect:
  "snd (snd sample_run) = sample_files(''/share/DCIM/a.ts'' := None) \<and> \<not> rr_dry_run (fst sample_run)"
  using sample_safety sample_plan_flags sample_join sample_deletable
  by (simp add: sample_run_def execute_def can_delete_def sample_plan_candidates case_prod_unfold
      unlink_candidate_def Let_def candidate_of_def sample_files_def)
    (simp add: sample_recording_def sample_settings_def)

lemma execute_removes_witness:
  "snd (snd sample_run) ''/share/DCIM/a.ts'' = None \<and>
   permitted (evaluate_safety sample_settings sample_share sample_db) sample_plan False"
proof -
  obtain run d' fs' where run: "sample_run = (run, d', fs')" by (cases sample_run)
  have "fs' ''/share/DCIM/a.ts'' \<noteq> sample_files ''/share/DCIM/a.ts''"
    using sample_run_effect unfolding run by (simp add: sample_files_def)
  from execute_removes [OF run [unfolded sample_run_def] this] show ?thesis unfolding run by simp
qed

lemma execute_tombstones_witness:
  "\<not> rr_dry_run (fst sample_run) \<and>
   (\<exists>ids. rr_deleted_count (fst sample_run) = length ids \<and> set ids = {7 :: row_id})"
proof -
  obtain run d' fs' where run: "sample_run = (run, d', fs')" by (cases sample_run)
  have real: "\<not> rr_dry_run run" using sample_run_effect unfolding run by simp
  from execute_tombstones [OF run [unfolded sample_run_def] real]
  obtain ids where ids: "rr_deleted_count run = length ids"
      "\<forall>i \<in> set ids. \<exists>n q. n < length (pl_candidates sample_plan) \<and>
         ca_id (pl_candidates sample_plan ! n) = i"
      "\<forall>q. fs' q \<noteq> sample_files q \<longrightarrow> (\<exists>n < length (pl_candidates sample_plan).
         ca_id (pl_candidates sample_plan ! n) \<in> set ids)"
    by blast
  have "fs' ''/share/DCIM/a.ts'' \<noteq> sample_files ''/share/DCIM/a.ts''"
    using sample_run_effect unfolding run by (simp add: sample_files_def)
  with ids(3) have "7 \<in> set ids"
    by (auto simp: sample_plan_candidates candidate_of_def sample_recording_def)
  moreover have "i = 7" if "i \<in> set ids" for i
    using ids(2) that by (auto simp: sample_plan_candidates candidate_of_def sample_recording_def)
  ultimately have "set ids = {7}" by blast
  with ids(1) real show ?thesis unfolding run fst_conv by blast
qed

end
