(* ===== verification/Damaged.thy ===== *)
theory Damaged
  imports RetentionProps
begin

section \<open>The policy for damaged footage\<close>

text \<open>
  Models \<^verbatim>\<open>backend/app/damaged_policy.py\<close>: which recording counts as damaged, hiding and
  restoring it, deleting it behind the retention guards, and the reconciliation after a scan.
  \<open>stamp\<close> is \<^verbatim>\<open>datetime.now(UTC).isoformat()\<close>; \<open>shown\<close> is the text \<^verbatim>\<open>str()\<close> makes of an item
  that is not a string. A value of \<^verbatim>\<open>warnings\<close> that is not a sequence counts as none.
\<close>

subsection \<open>Classification\<close>

definition POLICY_KEY :: string where "POLICY_KEY = ''damaged_policy''"

definition UNUSABLE_WARNING :: string where
  "UNUSABLE_WARNING = ''no usable frame could be decoded''"

definition probe_of :: "recording \<Rightarrow> jdict" where
  "probe_of r = (case r_probe_json r of JObj p \<Rightarrow> p | _ \<Rightarrow> [])"

definition str_item :: "(json \<Rightarrow> string) \<Rightarrow> json \<Rightarrow> string" where
  "str_item shown j = (case j of JStr s \<Rightarrow> s | _ \<Rightarrow> shown j)"

definition warnings_of :: "(json \<Rightarrow> string) \<Rightarrow> jdict \<Rightarrow> string list" where
  "warnings_of shown p =
     (case dict_get ''warnings'' p of
        Some (JList xs) \<Rightarrow> List.map (str_item shown) xs
      | Some (JStr s) \<Rightarrow> List.map (\<lambda>c. [c]) s
      | Some (JObj d) \<Rightarrow> List.map fst d
      | _ \<Rightarrow> [])"

definition flag :: "string \<Rightarrow> jdict \<Rightarrow> bool" where
  "flag k p = (case dict_get k p of None \<Rightarrow> False | Some v \<Rightarrow> truthy v)"

definition is_damaged :: "(json \<Rightarrow> string) \<Rightarrow> recording \<Rightarrow> bool" where
  "is_damaged shown r \<longleftrightarrow>
     r_state r = RInvalid \<or> flag ''source_unusable'' (probe_of r) \<or>
     (\<exists>w \<in> set (warnings_of shown (probe_of r)). contains UNUSABLE_WARNING (lower w))"

definition damage_reason :: "(json \<Rightarrow> string) \<Rightarrow> recording \<Rightarrow> string" where
  "damage_reason shown r =
     (case r_error_message r of
        Some m \<Rightarrow> if m \<noteq> [] then m
          else (case warnings_of shown (probe_of r) of
                  [] \<Rightarrow> ''source classified as damaged'' | w # _ \<Rightarrow> w)
      | None \<Rightarrow> (case warnings_of shown (probe_of r) of
                  [] \<Rightarrow> ''source classified as damaged'' | w # _ \<Rightarrow> w))"

subsection \<open>Hide and restore\<close>

definition remember_original_state :: "(json \<Rightarrow> string) \<Rightarrow> recording \<Rightarrow> jdict \<Rightarrow> jdict" where
  "remember_original_state shown r probe =
     (let fresh = [(''previous_state'', JStr (recording_state_value (r_state r))),
                   (''reason'', JStr (damage_reason shown r))]
      in case dict_get POLICY_KEY probe of
           Some (JObj existing) \<Rightarrow> if flag ''previous_state'' existing then existing else fresh
         | _ \<Rightarrow> fresh)"

fun update_dict :: "jdict \<Rightarrow> jdict \<Rightarrow> jdict" where
  "update_dict d [] = d"
| "update_dict d ((k, v) # kvs) = update_dict (dict_put k v d) kvs"

definition with_policy :: "jdict \<Rightarrow> recording \<Rightarrow> recording" where
  "with_policy policy r =
     r\<lparr>r_probe_json := JObj (dict_put ''source_damaged'' (JBool True)
          (dict_put POLICY_KEY (JObj policy) (probe_of r))),
       r_ignored := True\<rparr>"

definition hide :: "(json \<Rightarrow> string) \<Rightarrow> string \<Rightarrow> string \<Rightarrow> json \<Rightarrow> recording \<Rightarrow> recording" where
  "hide shown stamp status detail r =
     with_policy
       (update_dict (remember_original_state shown r (probe_of r))
          [(''action'', JStr ''hide''), (''status'', JStr status), (''detail'', detail),
           (''applied_at'', JStr stamp)]) r"

definition restore_policy_hidden :: "(json \<Rightarrow> string) \<Rightarrow> recording \<Rightarrow> bool \<times> recording" where
  "restore_policy_hidden shown r =
     (case dict_get POLICY_KEY (probe_of r) of
        Some (JObj policy) \<Rightarrow>
          if r_state r = RDeleted then (False, r)
          else
            (let previous = (case dict_get ''previous_state'' policy of
                   Some v \<Rightarrow> if truthy v then str_item shown v else recording_state_value RInvalid
                 | None \<Rightarrow> recording_state_value RInvalid);
                 restored = (case recording_state_of previous of
                   Inr s \<Rightarrow> s
                 | Inl _ \<Rightarrow> if is_damaged shown r then RInvalid else RDiscovered);
                 r1 = r\<lparr>r_probe_json := JObj (dict_pop POLICY_KEY (probe_of r)), r_ignored := False\<rparr>
             in (True, if r_state r = RIgnored then r1\<lparr>r_state := restored\<rparr> else r1))
      | _ \<Rightarrow> (False, r))"

subsection \<open>The policy\<close>

datatype policy_outcome = Kept | Restored | Hidden | Deleted | Blocked

definition keep_or_restore :: "(json \<Rightarrow> string) \<Rightarrow> recording \<Rightarrow> policy_outcome \<times> recording" where
  "keep_or_restore shown r =
     (let (restored, r') = restore_policy_hidden shown r in (if restored then Restored else Kept, r'))"

definition already_hidden :: "recording \<Rightarrow> bool" where
  "already_hidden r \<longleftrightarrow>
     r_ignored r \<and>
     (case dict_get POLICY_KEY (probe_of r) of
        Some (JObj e) \<Rightarrow> dict_get ''status'' e = Some (JStr ''hidden'') | _ \<Rightarrow> False)"

text \<open>\<open>message\<close> is the text of the error or refusal that the blocked deletion records.\<close>

definition delete_blocked ::
  "(json \<Rightarrow> string) \<Rightarrow> string \<Rightarrow> string \<Rightarrow> recording \<Rightarrow> policy_outcome \<times> recording" where
  "delete_blocked shown stamp message r =
     (Blocked, hide shown stamp ''delete_blocked'' (JStr message) r)"

definition deleted_row :: "(json \<Rightarrow> string) \<Rightarrow> usec \<Rightarrow> string \<Rightarrow> recording \<Rightarrow> recording" where
  "deleted_row shown now stamp r =
     (with_policy
        (update_dict (remember_original_state shown r (probe_of r))
          [(''action'', JStr ''delete''), (''status'', JStr ''deleted''), (''applied_at'', JStr stamp)]) r)
       \<lparr>r_file_missing := True, r_deleted_at := Some now, r_state := RDeleted\<rparr>"

record policy_env =
  pe_shown :: "json \<Rightarrow> string"
  pe_now :: usec
  pe_stamp :: string
  pe_resolve :: "string \<Rightarrow> string option"
  pe_base :: string
  pe_refuses :: "string \<Rightarrow> bool"
  pe_refusal_text :: "refusal \<Rightarrow> string"
  pe_error_text :: "path_error \<Rightarrow> string"
  pe_os_error_text :: string

definition delete_damaged ::
  "policy_env \<Rightarrow> safety_report \<Rightarrow> recording \<Rightarrow> files \<Rightarrow> policy_outcome \<times> recording \<times> files" where
  "delete_damaged env rep r fs =
     (let blocked = (\<lambda>m. case delete_blocked (pe_shown env) (pe_stamp env) m r of (k, r') \<Rightarrow> (k, r', fs))
      in if \<not> sr_ok rep \<or> \<not> sr_writable rep then
           blocked (case sr_blocked_reason rep of
                      Some reason \<Rightarrow> pe_refusal_text env reason
                    | None \<Rightarrow> ''footage directory is read-only'')
         else case safe_join (pe_resolve env) (pe_base env) [r_rel_path r] of
                Inl e \<Rightarrow> blocked (pe_error_text env e)
              | Inr target \<Rightarrow>
                  if fs target = None then blocked ''source file is not a regular file''
                  else if pe_refuses env target then blocked (pe_os_error_text env)
                  else (Deleted, deleted_row (pe_shown env) (pe_now env) (pe_stamp env) r,
                        fs(target := None)))"

definition apply_damaged_policy ::
  "policy_env \<Rightarrow> string \<Rightarrow> safety_report \<Rightarrow> recording \<Rightarrow> files \<Rightarrow>
   policy_outcome \<times> recording \<times> files" where
  "apply_damaged_policy env action rep r fs =
     (if action = ''keep'' \<or> \<not> is_damaged (pe_shown env) r then
        (case keep_or_restore (pe_shown env) r of (k, r') \<Rightarrow> (k, r', fs))
      else if r_file_missing r then (Kept, r, fs)
      else if action = ''hide'' then
        (if already_hidden r then (Kept, r, fs)
         else (Hidden, hide (pe_shown env) (pe_stamp env) ''hidden'' JNull r, fs))
      else delete_damaged env rep r fs)"

subsection \<open>The reconciliation after a scan\<close>

definition policy_row :: "string \<Rightarrow> recording \<Rightarrow> bool" where
  "policy_row action r \<longleftrightarrow>
     \<not> r_file_missing r \<and>
     (if action = ''keep'' then r_ignored r
      else r_state r = RInvalid \<or> r_state r = RIgnored \<or>
           (case dict_get ''source_damaged'' (probe_of r) of
              Some (JBool b) \<Rightarrow> b | Some (JInt n) \<Rightarrow> n = 1 | Some (JReal x) \<Rightarrow> x = 1 | _ \<Rightarrow> False))"

record policy_summary =
  ps_hidden :: nat
  ps_deleted :: nat
  ps_restored :: nat
  ps_blocked :: nat

definition count_outcome :: "policy_outcome \<Rightarrow> policy_summary \<Rightarrow> policy_summary" where
  "count_outcome k s =
     (case k of
        Hidden \<Rightarrow> s\<lparr>ps_hidden := ps_hidden s + 1\<rparr>
      | Deleted \<Rightarrow> s\<lparr>ps_deleted := ps_deleted s + 1\<rparr>
      | Restored \<Rightarrow> s\<lparr>ps_restored := ps_restored s + 1\<rparr>
      | Blocked \<Rightarrow> s\<lparr>ps_blocked := ps_blocked s + 1\<rparr>
      | Kept \<Rightarrow> s)"

fun apply_all ::
  "policy_env \<Rightarrow> string \<Rightarrow> safety_report \<Rightarrow> recording list \<Rightarrow> policy_summary \<times> db \<times> files \<Rightarrow>
   policy_summary \<times> db \<times> files" where
  "apply_all env action rep [] acc = acc"
| "apply_all env action rep (r # rs) (s, d, fs) =
     (case apply_damaged_policy env action rep r fs of
        (k, r', fs') \<Rightarrow>
          apply_all env action rep rs
            (count_outcome k s, db_update_recordings (\<lambda>x. r_id x = r_id r) (\<lambda>_. r') d, fs'))"

definition apply_known_damaged_policy ::
  "policy_env \<Rightarrow> string \<Rightarrow> safety_report \<Rightarrow> db \<Rightarrow> files \<Rightarrow> policy_summary \<times> db \<times> files" where
  "apply_known_damaged_policy env action rep d fs =
     apply_all env action rep (filter (policy_row action) (db_recordings d))
       (\<lparr>ps_hidden = 0, ps_deleted = 0, ps_restored = 0, ps_blocked = 0\<rparr>, d, fs)"

subsection \<open>What the policy may do\<close>

lemma probe_of_update [simp]:
  "probe_of (r\<lparr>r_probe_json := JObj p\<rparr>) = p"
  by (simp add: probe_of_def)

lemma with_policy_sel [simp]:
  "probe_of (with_policy pol r) =
     dict_put ''source_damaged'' (JBool True) (dict_put POLICY_KEY (JObj pol) (probe_of r))"
  "r_ignored (with_policy pol r)" "r_state (with_policy pol r) = r_state r"
  "r_file_missing (with_policy pol r) = r_file_missing r"
  "r_id (with_policy pol r) = r_id r" "r_rel_path (with_policy pol r) = r_rel_path r"
  "r_error_message (with_policy pol r) = r_error_message r"
  by (simp_all add: with_policy_def probe_of_def)

lemma flag_with_policy [simp]:
  "k \<noteq> POLICY_KEY \<Longrightarrow> k \<noteq> ''source_damaged'' \<Longrightarrow>
    dict_get k (probe_of (with_policy pol r)) = dict_get k (probe_of r)"
  by simp

lemma is_damaged_with_policy [simp]: "is_damaged shown (with_policy pol r) = is_damaged shown r"
  by (simp add: is_damaged_def flag_def warnings_of_def POLICY_KEY_def)

lemma delete_damaged_files:
  assumes "delete_damaged env rep r fs = (k, r', fs')"
  shows "k = Deleted \<and> sr_ok rep \<and> sr_writable rep \<and>
      r' = deleted_row (pe_shown env) (pe_now env) (pe_stamp env) r \<and>
      (\<exists>q. safe_join (pe_resolve env) (pe_base env) [r_rel_path r] = Inr q \<and> fs q \<noteq> None \<and>
         fs' = fs(q := None)) \<or>
    k = Blocked \<and> fs' = fs \<and> r_ignored r' \<and> r_state r' = r_state r \<and>
      r_file_missing r' = r_file_missing r"
  using assms
  by (auto simp: delete_damaged_def delete_blocked_def hide_def Let_def split: sum.splits if_splits)

text \<open>Under any setting a recording that is not damaged keeps its file and its row's
  lifecycle, and is never hidden: at most a hiding of an earlier policy is undone.\<close>

theorem damaged_policy_spares_playable:
  assumes "\<not> is_damaged (pe_shown env) r"
    and "apply_damaged_policy env action rep r fs = (k, r', fs')"
  shows "fs' = fs \<and> (k = Kept \<and> r' = r \<or> k = Restored \<and> \<not> r_ignored r') \<and>
    r_file_missing r' = r_file_missing r \<and> (r_state r \<noteq> RIgnored \<longrightarrow> r_state r' = r_state r)"
  using assms
  by (auto simp: apply_damaged_policy_def keep_or_restore_def restore_policy_hidden_def Let_def
      split: prod.splits if_splits option.splits json.splits)

text \<open>C24: a file disappears only under an explicit delete setting, for a recording that is
  damaged, with the retention guards passed and the share writable, inside the footage root;
  it is the recording's own file, and the row says deleted exactly then.\<close>

theorem damaged_delete_guarded:
  assumes "apply_damaged_policy env action rep r fs = (k, r', fs')"
  shows "(fs' \<noteq> fs \<longleftrightarrow> k = Deleted) \<and>
    (k = Deleted \<longrightarrow> action \<noteq> ''keep'' \<and> action \<noteq> ''hide'' \<and> is_damaged (pe_shown env) r \<and>
       \<not> r_file_missing r \<and> sr_ok rep \<and> sr_writable rep \<and>
       r_state r' = RDeleted \<and> r_file_missing r' \<and>
       (\<exists>q. safe_join (pe_resolve env) (pe_base env) [r_rel_path r] = Inr q \<and>
          fs' = fs(q := None)))"
proof (cases "action = ''keep'' \<or> \<not> is_damaged (pe_shown env) r \<or> r_file_missing r \<or> action = ''hide''")
  case True
  then have "fs' = fs \<and> k \<noteq> Deleted"
    using assms
    by (auto simp: apply_damaged_policy_def keep_or_restore_def split: prod.splits if_splits)
  then show ?thesis by simp
next
  case False
  then have "delete_damaged env rep r fs = (k, r', fs')"
    using assms by (simp add: apply_damaged_policy_def)
  from delete_damaged_files [OF this] False show ?thesis
    by (auto simp: deleted_row_def fun_eq_iff)
qed

lemma already_hidden_hide:
  "already_hidden (hide shown stamp ''hidden'' detail r)"
  by (simp add: already_hidden_def hide_def POLICY_KEY_def)

text \<open>Hiding happens once and can be taken back: a second reconciliation changes nothing
  and reports nothing, and switching the setting to keep shows the recording again with its
  lifecycle state as it was, the policy's own note gone from the probe data.\<close>

theorem hide_then_keep:
  assumes "is_damaged (pe_shown env) r" and "\<not> r_file_missing r" and "\<not> already_hidden r"
    and "r_state r \<noteq> RDeleted" and "r_state r \<noteq> RIgnored"
  shows "\<exists>r1 r2. apply_damaged_policy env ''hide'' rep r fs = (Hidden, r1, fs) \<and> r_ignored r1 \<and>
    apply_damaged_policy env ''hide'' rep r1 fs = (Kept, r1, fs) \<and>
    apply_damaged_policy env ''keep'' rep r1 fs = (Restored, r2, fs) \<and>
    \<not> r_ignored r2 \<and> r_state r2 = r_state r \<and>
    (\<forall>key. key \<noteq> POLICY_KEY \<and> key \<noteq> ''source_damaged'' \<longrightarrow>
       dict_get key (probe_of r2) = dict_get key (probe_of r)) \<and>
    dict_get POLICY_KEY (probe_of r2) = None"
proof -
  let ?r1 = "hide (pe_shown env) (pe_stamp env) ''hidden'' JNull r"
  obtain pol where pol: "?r1 = with_policy pol r" by (simp add: hide_def)
  let ?r2 = "?r1\<lparr>r_probe_json := JObj (dict_pop POLICY_KEY (probe_of ?r1)), r_ignored := False\<rparr>"
  have one: "apply_damaged_policy env ''hide'' rep r fs = (Hidden, ?r1, fs)"
    using assms(1-3) by (simp add: apply_damaged_policy_def)
  have dam: "is_damaged (pe_shown env) ?r1" using assms(1) by (simp add: pol)
  then have two: "apply_damaged_policy env ''hide'' rep ?r1 fs = (Kept, ?r1, fs)"
    using already_hidden_hide by (simp add: apply_damaged_policy_def)
  have "dict_get POLICY_KEY (probe_of ?r1) = Some (JObj pol)" by (simp add: pol POLICY_KEY_def)
  then have three: "apply_damaged_policy env ''keep'' rep ?r1 fs = (Restored, ?r2, fs)"
    using assms(4,5)
    by (simp add: apply_damaged_policy_def keep_or_restore_def restore_policy_hidden_def Let_def pol)
  have "probe_of ?r2 = dict_pop POLICY_KEY (probe_of ?r1)" by (simp add: probe_of_def)
  then have "\<forall>key. key \<noteq> POLICY_KEY \<and> key \<noteq> ''source_damaged'' \<longrightarrow>
      dict_get key (probe_of ?r2) = dict_get key (probe_of r)"
    and "dict_get POLICY_KEY (probe_of ?r2) = None"
    by (simp_all add: pol)
  moreover have "r_ignored ?r1" "r_state ?r2 = r_state r" "\<not> r_ignored ?r2" by (simp_all add: pol)
  ultimately show ?thesis using one two three by blast
qed

definition sample_env :: policy_env where
  "sample_env =
     \<lparr>pe_shown = (\<lambda>_. ''?''), pe_now = 1000, pe_stamp = ''2026-01-01T00:00:00+00:00'',
      pe_resolve = Some, pe_base = ''/share'', pe_refuses = (\<lambda>_. False),
      pe_refusal_text = (\<lambda>_. ''blocked''), pe_error_text = (\<lambda>_. ''outside''),
      pe_os_error_text = ''EROFS''\<rparr>"

definition broken_recording :: recording where
  "broken_recording = sample_recording\<lparr>r_state := RInvalid, r_error_message := Some ''moov atom not found''\<rparr>"

lemma broken_is_damaged: "is_damaged (pe_shown sample_env) broken_recording"
  by (simp add: is_damaged_def broken_recording_def)

lemma sample_not_damaged: "\<not> is_damaged (pe_shown sample_env) sample_recording"
  by (simp add: is_damaged_def sample_recording_def probe_of_def flag_def warnings_of_def)

lemma damaged_policy_spares_playable_witness:
  "apply_damaged_policy sample_env ''delete'' (evaluate_safety sample_settings sample_share sample_db)
     sample_recording sample_files = (Kept, sample_recording, sample_files)"
proof -
  obtain k r' fs' where a: "apply_damaged_policy sample_env ''delete''
      (evaluate_safety sample_settings sample_share sample_db) sample_recording sample_files = (k, r', fs')"
    by (metis prod_cases3)
  have "k \<noteq> Restored"
    using a sample_not_damaged
    by (auto simp: apply_damaged_policy_def keep_or_restore_def restore_policy_hidden_def
        sample_recording_def probe_of_def)
  with damaged_policy_spares_playable [OF sample_not_damaged a] a show ?thesis by blast
qed

lemma damaged_delete_guarded_witness:
  "\<exists>r' fs'. apply_damaged_policy sample_env ''delete''
     (evaluate_safety sample_settings sample_share sample_db) broken_recording sample_files =
       (Deleted, r', fs') \<and> fs' \<noteq> sample_files \<and> r_file_missing r'"
proof -
  obtain k r' fs' where a: "apply_damaged_policy sample_env ''delete''
      (evaluate_safety sample_settings sample_share sample_db) broken_recording sample_files = (k, r', fs')"
    by (metis prod_cases3)
  have "r_rel_path broken_recording = ''DCIM/a.ts''" "\<not> r_file_missing broken_recording"
    by (simp_all add: broken_recording_def sample_recording_def)
  then have "k = Deleted"
    using a broken_is_damaged sample_safety sample_join
    by (simp add: apply_damaged_policy_def delete_damaged_def sample_env_def Let_def sample_files_def)
  with damaged_delete_guarded [OF a] a show ?thesis by blast
qed

lemma hide_then_keep_witness:
  "\<exists>r1 r2. apply_damaged_policy sample_env ''hide''
       (evaluate_safety sample_settings sample_share sample_db) broken_recording sample_files =
       (Hidden, r1, sample_files) \<and>
     apply_damaged_policy sample_env ''keep''
       (evaluate_safety sample_settings sample_share sample_db) r1 sample_files =
       (Restored, r2, sample_files) \<and> r_state r2 = RInvalid"
proof -
  have "\<not> r_file_missing broken_recording" "\<not> already_hidden broken_recording"
    "r_state broken_recording = RInvalid"
    by (simp_all add: broken_recording_def sample_recording_def already_hidden_def)
  with hide_then_keep [OF broken_is_damaged, of
      "evaluate_safety sample_settings sample_share sample_db" sample_files]
  show ?thesis by auto
qed

end
