(* ===== verification/Worker.thy ===== *)
theory Worker
  imports QueueProps Orchestrator Damaged
begin

section \<open>The worker pool\<close>

text \<open>
  Models \<^verbatim>\<open>backend/app/workers/worker.py\<close>: how the supervisor resizes the pool, the claim
  and its registration, the heartbeat that notices a cancellation, the ways a run ends and
  how its outcome is written, and the abort of everything in flight. A run is an entry of
  \<^verbatim>\<open>_active\<close>; \<^verbatim>\<open>_work\<close> and \<^verbatim>\<open>_runs\<close> hold its tasks under the same key.
\<close>

subsection \<open>Resizing\<close>

record pool =
  po_workers :: "nat list"
  po_retiring :: "nat list"
  po_busy :: "nat list"
  po_cancelled :: "nat list"

definition drop_finished :: "nat list \<Rightarrow> pool \<Rightarrow> pool" where
  "drop_finished fin p =
     (let gone = filter (\<lambda>i. i \<in> set fin) (po_workers p)
      in p\<lparr>po_workers := filter (\<lambda>i. i \<notin> set gone) (po_workers p),
           po_retiring := filter (\<lambda>i. i \<notin> set gone) (po_retiring p),
           po_busy := filter (\<lambda>i. i \<notin> set gone) (po_busy p)\<rparr>)"

text \<open>Workers that are to stay, as \<^verbatim>\<open>len(self._workers) - len(self._retiring)\<close>.\<close>

definition staying :: "pool \<Rightarrow> int" where
  "staying p = int (length (po_workers p)) - int (length (po_retiring p))"

text \<open>\<^verbatim>\<open>next(i for i in range(desired + 1) if i not in self._workers)\<close>.\<close>

definition free_index :: "int \<Rightarrow> nat list \<Rightarrow> nat option" where
  "free_index desired ws = List.find (\<lambda>i. i \<notin> set ws) [0..<nat (desired + 1)]"

lemma fold_min_in: "fold min rs (r::nat) \<in> set (r # rs)"
  by (induction rs arbitrary: r) (auto simp: min_def)

lemma length_removeAll_mem: "x \<in> set xs \<Longrightarrow> length (removeAll x xs) < length xs"
  by (simp add: length_removeAll_less)

text \<open>\<open>None\<close>: the search ran out of indices and raised.\<close>

function grow :: "int \<Rightarrow> pool \<Rightarrow> pool option" where
  "grow desired p =
     (if staying p < desired then
        (case po_retiring p of
           r # rs \<Rightarrow>
             (let revived = fold min rs r
              in grow desired (p\<lparr>po_retiring := removeAll revived (po_retiring p)\<rparr>))
         | [] \<Rightarrow>
             (case free_index desired (po_workers p) of
                None \<Rightarrow> None
              | Some i \<Rightarrow> grow desired (p\<lparr>po_workers := po_workers p @ [i]\<rparr>)))
      else Some p)"
  by pat_completeness auto

termination
proof (relation "measure (\<lambda>(desired, p). nat (desired - staying p))", goal_cases)
  case (3 desired p r rs revived)
  then have "revived \<in> set (po_retiring p)" using fold_min_in [of rs r] by simp
  from length_removeAll_mem [OF this] 3 show ?case by (simp add: staying_def)
qed (simp_all add: staying_def)

definition idle_or_retire :: "nat \<Rightarrow> pool \<Rightarrow> pool" where
  "idle_or_retire i p =
     (if i \<in> set (po_busy p) then p\<lparr>po_retiring := po_retiring p @ [i]\<rparr>
      else p\<lparr>po_workers := removeAll i (po_workers p), po_cancelled := po_cancelled p @ [i]\<rparr>)"

lemma fold_max_in: "fold max rs (r::nat) \<in> set (r # rs)"
  by (induction rs arbitrary: r) (auto simp: max_def)

function shrink :: "int \<Rightarrow> pool \<Rightarrow> pool option" where
  "shrink desired p =
     (if desired < staying p then
        (case filter (\<lambda>i. i \<notin> set (po_retiring p)) (po_workers p) of
           [] \<Rightarrow> None
         | i # js \<Rightarrow> shrink desired (idle_or_retire (fold max js i) p))
      else Some p)"
  by pat_completeness auto

termination
proof (relation "measure (\<lambda>(desired, p). nat (staying p - desired))", goal_cases)
  case (2 desired p i js)
  have "fold max js i \<in> set (filter (\<lambda>i. i \<notin> set (po_retiring p)) (po_workers p))"
    using fold_max_in [of js i] 2(2) by simp
  then have "fold max js i \<in> set (po_workers p)" by simp
  from length_removeAll_mem [OF this] 2 show ?case
    by (simp add: staying_def idle_or_retire_def)
qed simp

declare grow.simps [simp del] shrink.simps [simp del]

definition resize :: "int \<Rightarrow> nat list \<Rightarrow> pool \<Rightarrow> pool option" where
  "resize max_workers fin p =
     (let desired = max 1 (min 16 max_workers)
      in Option.bind (grow desired (drop_finished fin p)) (shrink desired))"

subsection \<open>Runs in flight\<close>

record active_job =
  aj_job :: row_id
  aj_recording :: "row_id option"
  aj_stage :: string
  aj_progress :: real
  aj_speed :: "real option"
  aj_decoder :: "string option"
  aj_device :: "string option"
  aj_cancelled :: bool

definition new_active :: "row_id \<Rightarrow> row_id option \<Rightarrow> active_job" where
  "new_active j rid = \<lparr>aj_job = j, aj_recording = rid, aj_stage = ''starting'', aj_progress = 0,
     aj_speed = None, aj_decoder = None, aj_device = None, aj_cancelled = False\<rparr>"

record system =
  sy_db :: db
  sy_flags :: run_flags
  sy_active :: "active_job list"

definition put_active :: "active_job \<Rightarrow> active_job list \<Rightarrow> active_job list" where
  "put_active a as =
     (if \<exists>b \<in> set as. aj_job b = aj_job a
      then List.map (\<lambda>b. if aj_job b = aj_job a then a else b) as else as @ [a])"

definition pop_active :: "row_id \<Rightarrow> active_job list \<Rightarrow> active_job list" where
  "pop_active i as = filter (\<lambda>a. aj_job a \<noteq> i) as"

definition active_ids :: "system \<Rightarrow> row_id list" where
  "active_ids sy = List.map_filter aj_recording (sy_active sy)"

definition claim_pass :: "usec \<Rightarrow> string \<Rightarrow> system \<Rightarrow> system" where
  "claim_pass now worker sy =
     (case claim_next (sy_flags sy) now worker (active_ids sy) (sy_db sy) of
        (None, d) \<Rightarrow> sy\<lparr>sy_db := d\<rparr>
      | (Some j, d) \<Rightarrow>
          sy\<lparr>sy_db := d, sy_active := put_active (new_active (j_id j) (j_recording_id j)) (sy_active sy)\<rparr>)"

definition find_active :: "row_id \<Rightarrow> system \<Rightarrow> active_job option" where
  "find_active i sy = List.find (\<lambda>a. aj_job a = i) (sy_active sy)"

text \<open>One beat; \<open>ok\<close> says whether the write succeeded (a failed beat is logged and retried).\<close>

definition heartbeat_pass :: "usec \<Rightarrow> bool \<Rightarrow> row_id \<Rightarrow> system \<Rightarrow> system" where
  "heartbeat_pass now ok i sy =
     (case find_active i sy of
        None \<Rightarrow> sy
      | Some a \<Rightarrow>
          if \<not> ok then sy
          else
            (let (state, d) = heartbeat now i (Some (aj_progress a)) (Some (aj_stage a)) (aj_speed a)
                   (aj_decoder a) (aj_device a)
                   (Some (if aj_decoder a = Some ''vaapi-waiting'' then ''waiting_for_vaapi''
                          else ''running'')) (sy_db sy)
             in sy\<lparr>sy_db := d,
                  sy_active := (if state = Some JCancelled \<and> \<not> aj_cancelled a
                    then List.map (\<lambda>b. if aj_job b = i then b\<lparr>aj_cancelled := True\<rparr> else b) (sy_active sy)
                    else sy_active sy)\<rparr>))"

subsection \<open>What a run executes\<close>

text \<open>\<^verbatim>\<open>stages or list(pending_stages(recording)) or None\<close>.\<close>

definition selected_stages :: "string list option \<Rightarrow> recording \<Rightarrow> string list option" where
  "selected_stages stages r =
     (case stages of
        Some (s # ss) \<Rightarrow> Some (s # ss)
      | _ \<Rightarrow> (case pending_stages r of [] \<Rightarrow> None | p # ps \<Rightarrow> Some (List.map stage_name (p # ps))))"

definition process_recording ::
  "policy_env \<Rightarrow> string \<Rightarrow> safety_report \<Rightarrow> (stage \<Rightarrow> recording \<Rightarrow> stage_outcome) \<Rightarrow> row_id \<Rightarrow>
   string list option \<Rightarrow> db \<Rightarrow> files \<Rightarrow> (run_report option) \<times> db \<times> files" where
  "process_recording env action rep body i stages d fs =
     (case get_recording i d of
        None \<Rightarrow> (None, d, fs)
      | Some r \<Rightarrow>
          (let (r1, report) = run_stages (pe_now env) body (selected_stages stages r) r;
               (_, r2, fs1) = apply_damaged_policy env action rep r1 fs
           in (Some report, db_update_recordings (\<lambda>x. r_id x = i) (\<lambda>_. r2) d, fs1)))"

text \<open>\<^verbatim>\<open>_make_thumbnail\<close>: the recording's lifecycle state is left alone.\<close>

datatype thumbnail_result = ThumbnailEnded | ThumbnailError string bool bool

definition make_thumbnail ::
  "(recording \<Rightarrow> thumbnail_result \<times> string option) \<Rightarrow> row_id \<Rightarrow> db \<Rightarrow> run_report option \<times> db" where
  "make_thumbnail ensure i d =
     (case get_recording i d of
        None \<Rightarrow> (None, d)
      | Some r \<Rightarrow>
          (case ensure r of
             (ThumbnailEnded, path) \<Rightarrow>
               (Some empty_report,
                db_update_recordings (\<lambda>x. r_id x = i) (\<lambda>x. x\<lparr>r_thumbnail_path := path\<rparr>) d)
           | (ThumbnailError msg permanent transient, path) \<Rightarrow>
               (Some (empty_report\<lparr>rp_ok := False, rp_error := Some msg, rp_permanent := permanent,
                                   rp_transient := transient\<rparr>),
                db_update_recordings (\<lambda>x. r_id x = i) (\<lambda>x. x\<lparr>r_thumbnail_path := path\<rparr>) d)))"

subsection \<open>The outcome\<close>

datatype outcome =
    ReportOutcome run_report json
  | FailOutcome string bool bool
  | NoteOutcome string

definition error_text :: "run_report \<Rightarrow> string" where
  "error_text rep =
     (case rp_error rep of None \<Rightarrow> ''processing failed''
      | Some m \<Rightarrow> if m = [] then ''processing failed'' else m)"

definition analysed_by :: "outcome \<Rightarrow> job \<Rightarrow> row_id option" where
  "analysed_by out j =
     (case out of
        ReportOutcome rep _ \<Rightarrow>
          if rp_ok rep \<and> (j_kind j = KProcess \<or> j_kind j = KReprocess) then j_recording_id j else None
      | _ \<Rightarrow> None)"

text \<open>
  One transaction of \<^verbatim>\<open>_finish_under_barrier\<close>: whether an outcome was recorded, the
  recording whose idle clean-up is requested, and the database.
\<close>

definition finish_once ::
  "int \<Rightarrow> usec \<Rightarrow> active_job \<Rightarrow> outcome \<Rightarrow> db \<Rightarrow> py_error + bool \<times> row_id option \<times> db" where
  "finish_once retry_max now a out d =
     (case get_job (aj_job a) d of
        None \<Rightarrow> Inr (False, None, d)
      | Some j \<Rightarrow>
          if j_state j = JCancelled then Inr (False, None, d)
          else
            (let failed = (\<lambda>msg permanent transient.
                   case fail retry_max now permanent transient msg j d of
                     Inl e \<Rightarrow> Inl e | Inr d' \<Rightarrow> Inr (True, None, d'));
                 completed = (\<lambda>payload.
                   Inr (True, analysed_by out j,
                     complete retry_max now payload (aj_speed a) (aj_decoder a) (aj_device a) j d))
             in case out of
                  FailOutcome msg permanent transient \<Rightarrow> failed msg permanent transient
                | ReportOutcome rep payload \<Rightarrow>
                    if rp_ok rep then completed payload
                    else failed (error_text rep) (rp_permanent rep) (rp_transient rep)
                | NoteOutcome note \<Rightarrow> completed (JObj [(''note'', JStr note)])))"

definition FINISH_ATTEMPTS :: nat where
  "FINISH_ATTEMPTS = 4"

text \<open>The instants of the attempts, each with whether its transaction commits.\<close>

fun finish_attempts ::
  "int \<Rightarrow> active_job \<Rightarrow> outcome \<Rightarrow> (usec \<times> bool) list \<Rightarrow> db \<Rightarrow> bool \<times> row_id option \<times> db" where
  "finish_attempts retry_max a out [] d = (False, None, d)"
| "finish_attempts retry_max a out ((now, commits) # ts) d =
     (case finish_once retry_max now a out d of
        Inl _ \<Rightarrow> finish_attempts retry_max a out ts d
      | Inr r \<Rightarrow> if commits then r else finish_attempts retry_max a out ts d)"

definition finish_under_barrier ::
  "int \<Rightarrow> active_job \<Rightarrow> outcome \<Rightarrow> (nat \<Rightarrow> usec \<times> bool) \<Rightarrow> db \<Rightarrow> bool \<times> row_id option \<times> db" where
  "finish_under_barrier retry_max a out ts d =
     finish_attempts retry_max a out (List.map ts [0..<FINISH_ATTEMPTS]) d"

text \<open>How \<^verbatim>\<open>await work\<close> ends.\<close>

datatype run_end =
    Interrupted
  | RunRaised string bool
  | RunReturned "(run_report \<times> json) option"

definition outcome_of :: "row_id option \<Rightarrow> run_end \<Rightarrow> outcome option" where
  "outcome_of rid e =
     (case e of
        Interrupted \<Rightarrow> None
      | RunRaised msg locked \<Rightarrow> Some (FailOutcome msg False locked)
      | RunReturned res \<Rightarrow>
          (case rid of
             None \<Rightarrow> Some (NoteOutcome ''no recording attached'')
           | Some _ \<Rightarrow>
               (case res of
                  None \<Rightarrow> Some (FailOutcome ''recording no longer exists'' True False)
                | Some (rep, payload) \<Rightarrow> Some (ReportOutcome rep payload))))"

definition run_over :: "int \<Rightarrow> (nat \<Rightarrow> usec \<times> bool) \<Rightarrow> row_id \<Rightarrow> run_end \<Rightarrow> system \<Rightarrow> system" where
  "run_over retry_max ts i e sy =
     (case find_active i sy of
        None \<Rightarrow> sy
      | Some a \<Rightarrow>
          (let d = (case outcome_of (aj_recording a) e of
                      None \<Rightarrow> sy_db sy
                    | Some out \<Rightarrow> snd (snd (finish_under_barrier retry_max a out ts (sy_db sy))))
           in sy\<lparr>sy_db := d, sy_active := pop_active i (sy_active sy)\<rparr>))"

text \<open>
  \<^verbatim>\<open>abort_active\<close>: \<open>stopped\<close> says whether every interrupted run confirmed within the grace
  period; otherwise it raises \<^verbatim>\<open>ProcessingStillRunningError\<close>, the runs still in flight.
\<close>

definition abort_active :: "bool \<Rightarrow> system \<Rightarrow> nat option \<times> system" where
  "abort_active stopped sy =
     (if sy_active sy = [] then (Some 0, sy)
      else if stopped then (Some (length (sy_active sy)), sy\<lparr>sy_active := []\<rparr>)
      else (None, sy\<lparr>sy_active := List.map (\<lambda>a. a\<lparr>aj_cancelled := True\<rparr>) (sy_active sy)\<rparr>))"

text \<open>\<^verbatim>\<open>stop\<close> and \<^verbatim>\<open>start\<close> of the pool.\<close>

definition stop_pool :: "system \<Rightarrow> system" where
  "stop_pool sy = sy\<lparr>sy_db := snd (reclaim_interrupted (sy_db sy)), sy_active := []\<rparr>"

definition start_pool :: "int \<Rightarrow> usec \<Rightarrow> system \<Rightarrow> system" where
  "start_pool retry_max now sy =
     sy\<lparr>sy_db :=
       snd (reconcile_media_failure_hides retry_max now
        (snd (reconcile_misclassified_probe_crashes retry_max now
         (snd (snd (reconcile_legacy_contention_failures
          (snd (release_stranded_recordings
           (snd (reclaim_interrupted (sy_db sy)))))))))))\<rparr>"

end
