(* ===== verification/WorkerProps.thy ===== *)
theory WorkerProps
  imports Worker
begin

section \<open>The pool keeps its promises\<close>

subsection \<open>Resizing\<close>

definition wf_pool :: "pool \<Rightarrow> bool" where
  "wf_pool p \<longleftrightarrow>
     distinct (po_workers p) \<and> distinct (po_retiring p) \<and> set (po_retiring p) \<subseteq> set (po_workers p)"

lemma free_index_exists:
  assumes "length ws < nat desired"
  shows "\<exists>i. free_index desired ws = Some i \<and> i \<notin> set ws"
proof -
  have "\<not> set [0..<nat (desired + 1)] \<subseteq> set ws"
  proof
    assume "set [0..<nat (desired + 1)] \<subseteq> set ws"
    then have "card (set [0..<nat (desired + 1)]) \<le> card (set ws)" by (rule card_mono [rotated]) simp
    with card_length [of ws] assms show False by simp
  qed
  then have "find (\<lambda>i. i \<notin> set ws) [0..<nat (desired + 1)] \<noteq> None"
    by (auto simp: find_None_iff)
  then show ?thesis by (auto simp: free_index_def find_Some_iff)
qed

lemma length_removeAll_distinct:
  "distinct xs \<Longrightarrow> x \<in> set xs \<Longrightarrow> length (removeAll x xs) = length xs - 1"
  by (simp add: distinct_remove1_removeAll [symmetric] length_remove1)

lemma grow_spec:
  "wf_pool p \<Longrightarrow> 0 \<le> staying p \<Longrightarrow>
   \<exists>p'. grow desired p = Some p' \<and> wf_pool p' \<and> staying p' = max desired (staying p) \<and>
     po_busy p' = po_busy p \<and> po_cancelled p' = po_cancelled p \<and>
     set (po_workers p) \<subseteq> set (po_workers p')"
proof (induction desired p rule: grow.induct)
  case (1 desired p)
  show ?case
  proof (cases "staying p < desired")
    case False
    with 1 show ?thesis by (simp add: grow.simps [of desired p])
  next
    case True
    show ?thesis
    proof (cases "po_retiring p")
      case (Cons r rs)
      let ?x = "fold min rs r"
      let ?q = "p\<lparr>po_retiring := removeAll ?x (po_retiring p)\<rparr>"
      have x: "?x \<in> set (po_retiring p)" using fold_min_in [of rs r] Cons by simp
      have "length (removeAll ?x (po_retiring p)) = length (po_retiring p) - 1"
        using 1(3) x by (intro length_removeAll_distinct) (simp_all add: wf_pool_def)
      moreover have "1 \<le> length (po_retiring p)" using x by (cases "po_retiring p") auto
      ultimately have st: "staying ?q = staying p + 1" by (simp add: staying_def of_nat_diff)
      have wf: "wf_pool ?q" using 1(3) by (auto simp: wf_pool_def distinct_removeAll)
      obtain p' where p': "grow desired ?q = Some p'" "wf_pool p'" "staying p' = max desired (staying ?q)"
          "po_busy p' = po_busy ?q" "po_cancelled p' = po_cancelled ?q"
          "set (po_workers ?q) \<subseteq> set (po_workers p')"
        using 1(2) [OF True Cons refl wf] st 1(4) by auto
      have "grow desired p = grow desired ?q"
        using True Cons by (simp add: grow.simps [of desired p] Let_def)
      with p' st True show ?thesis by auto
    next
      case Nil
      then have "length (po_workers p) < nat desired" using True by (simp add: staying_def)
      from free_index_exists [OF this] obtain i where
        i: "free_index desired (po_workers p) = Some i" "i \<notin> set (po_workers p)" by blast
      let ?q = "p\<lparr>po_workers := po_workers p @ [i]\<rparr>"
      have st: "staying ?q = staying p + 1" by (simp add: staying_def)
      have wf: "wf_pool ?q" using 1(3) i(2) by (auto simp: wf_pool_def)
      obtain p' where p': "grow desired ?q = Some p'" "wf_pool p'" "staying p' = max desired (staying ?q)"
          "po_busy p' = po_busy ?q" "po_cancelled p' = po_cancelled ?q"
          "set (po_workers ?q) \<subseteq> set (po_workers p')"
        using 1(1) [OF True Nil i(1) wf] st 1(4) by auto
      have "grow desired p = grow desired ?q"
        using True Nil i by (simp add: grow.simps [of desired p])
      with p' st True show ?thesis by auto
    qed
  qed
qed

lemma shrink_spec:
  "wf_pool p \<Longrightarrow> 0 \<le> desired \<Longrightarrow>
   \<exists>p'. shrink desired p = Some p' \<and> wf_pool p' \<and> staying p' = min desired (staying p) \<and>
     po_busy p' = po_busy p \<and>
     set (po_cancelled p') \<inter> set (po_busy p) \<subseteq> set (po_cancelled p) \<and>
     set (po_workers p) \<inter> set (po_busy p) \<subseteq> set (po_workers p')"
proof (induction desired p rule: shrink.induct)
  case (1 desired p)
  show ?case
  proof (cases "desired < staying p")
    case False
    with 1 show ?thesis by (simp add: shrink.simps [of desired p])
  next
    case True
    let ?stay = "filter (\<lambda>i. i \<notin> set (po_retiring p)) (po_workers p)"
    have "?stay \<noteq> []"
    proof
      assume "?stay = []"
      then have "set (po_workers p) \<subseteq> set (po_retiring p)" by (auto simp: filter_empty_conv)
      then have "card (set (po_workers p)) \<le> card (set (po_retiring p))" by (intro card_mono) auto
      with True 1(2,3) show False by (simp add: wf_pool_def staying_def distinct_card)
    qed
    then obtain i js where stay: "?stay = i # js" by (cases ?stay) auto
    let ?x = "fold max js i" and ?q = "idle_or_retire (fold max js i) p"
    have "?x \<in> set ?stay" using fold_max_in [of js i] stay by simp
    then have x: "?x \<in> set (po_workers p)" "?x \<notin> set (po_retiring p)" by auto
    have "length (removeAll ?x (po_workers p)) = length (po_workers p) - 1"
      using 1(2) x(1) by (intro length_removeAll_distinct) (simp_all add: wf_pool_def)
    moreover have "1 \<le> length (po_workers p)" using x by (cases "po_workers p") auto
    ultimately have st: "staying ?q = staying p - 1" by (simp add: staying_def idle_or_retire_def of_nat_diff)
    have wf: "wf_pool ?q"
      using 1(2) x by (auto simp: wf_pool_def idle_or_retire_def distinct_removeAll)
    obtain p' where p': "shrink desired ?q = Some p'" "wf_pool p'" "staying p' = min desired (staying ?q)"
        "po_busy p' = po_busy ?q" "set (po_cancelled p') \<inter> set (po_busy ?q) \<subseteq> set (po_cancelled ?q)"
        "set (po_workers ?q) \<inter> set (po_busy ?q) \<subseteq> set (po_workers p')"
      using 1(1) [OF True stay wf 1(3)] by auto
    have "shrink desired p = shrink desired ?q"
      using True stay by (simp add: shrink.simps [of desired p])
    moreover have "po_busy ?q = po_busy p"
      "set (po_cancelled ?q) \<inter> set (po_busy p) \<subseteq> set (po_cancelled p)"
      "set (po_workers p) \<inter> set (po_busy p) \<subseteq> set (po_workers ?q)"
      by (auto simp: idle_or_retire_def)
    ultimately show ?thesis using p' st True by (intro exI [of _ p']) auto
  qed
qed

lemma drop_finished_wf: "wf_pool p \<Longrightarrow> wf_pool (drop_finished fin p)"
  by (auto simp: wf_pool_def drop_finished_def Let_def)

lemma staying_nonneg: "wf_pool p \<Longrightarrow> 0 \<le> staying p"
  unfolding wf_pool_def staying_def
  by (metis card_mono distinct_card finite_set diff_ge_0_iff_ge of_nat_le_iff)

text \<open>Whatever the setting says, one pass of the supervisor ends with exactly the clamped
  number (1 to 16) of workers that are to stay, never runs out of indices, never cancels a
  worker that is in the middle of a run, and keeps every such worker in the pool.\<close>

theorem resize_exact:
  assumes "wf_pool p"
  shows "\<exists>p'. resize max_workers fin p = Some p' \<and> wf_pool p' \<and>
    staying p' = max 1 (min 16 max_workers) \<and>
    set (po_cancelled p') \<inter> set (po_busy p') \<subseteq> set (po_cancelled p) \<and>
    (\<forall>i \<in> set (po_workers p) \<inter> set (po_busy p). i \<notin> set fin \<longrightarrow> i \<in> set (po_workers p'))"
proof -
  let ?n = "max 1 (min 16 max_workers)" and ?d = "drop_finished fin p"
  note wf = drop_finished_wf [OF assms, of fin]
  obtain g where g: "grow ?n ?d = Some g" "wf_pool g" "staying g = max ?n (staying ?d)"
      "po_busy g = po_busy ?d" "po_cancelled g = po_cancelled ?d" "set (po_workers ?d) \<subseteq> set (po_workers g)"
    using grow_spec [OF wf staying_nonneg [OF wf]] by blast
  have "0 \<le> ?n" by simp
  from shrink_spec [OF g(2) this] obtain s where s: "shrink ?n g = Some s" "wf_pool s"
      "staying s = min ?n (staying g)" "po_busy s = po_busy g"
      "set (po_cancelled s) \<inter> set (po_busy g) \<subseteq> set (po_cancelled g)"
      "set (po_workers g) \<inter> set (po_busy g) \<subseteq> set (po_workers s)"
    by blast
  have "resize max_workers fin p = Some s" using g(1) s(1) by (simp add: resize_def Let_def)
  moreover have "staying s = ?n" using s(3) g(3) by simp
  moreover have "po_cancelled ?d = po_cancelled p" by (simp add: drop_finished_def Let_def)
  moreover have "i \<in> set (po_workers ?d) \<inter> set (po_busy ?d)"
    if "i \<in> set (po_workers p) \<inter> set (po_busy p)" "i \<notin> set fin" for i
    using that by (simp add: drop_finished_def Let_def)
  ultimately show ?thesis using s g by (intro exI [of _ s]) auto
qed

definition sample_pool :: pool where
  "sample_pool = \<lparr>po_workers = [0, 1, 2], po_retiring = [], po_busy = [2], po_cancelled = []\<rparr>"

lemma resize_exact_witness:
  "\<exists>p'. resize 1 [] sample_pool = Some p' \<and> staying p' = 1 \<and> 2 \<in> set (po_workers p')"
  using resize_exact [of sample_pool 1 "[]"] by (auto simp: sample_pool_def wf_pool_def)

end
