(* ===== verification/Naming.thy ===== *)
theory Naming
  imports Models
begin

section \<open>Recording names\<close>

text \<open>
  Models \<^verbatim>\<open>backend/app/scanner/naming.py\<close>: the four filename patterns with the calendar check
  of \<^verbatim>\<open>strptime\<close>, the camera position a token names, the camera row of a token, and the
  pairing of front and rear footage by time. A naive \<^verbatim>\<open>datetime\<close> is its six fields; text is
  ASCII, as everywhere in the development.
\<close>

subsection \<open>Calendar\<close>

record naive =
  nv_year :: int
  nv_month :: int
  nv_day :: int
  nv_hour :: int
  nv_minute :: int
  nv_second :: int

definition leap_year :: "int \<Rightarrow> bool" where
  "leap_year y \<longleftrightarrow> y mod 4 = 0 \<and> (y mod 100 \<noteq> 0 \<or> y mod 400 = 0)"

definition days_in_month :: "int \<Rightarrow> int \<Rightarrow> int" where
  "days_in_month y m =
     (if m = 2 then (if leap_year y then 29 else 28)
      else if m = 4 \<or> m = 6 \<or> m = 9 \<or> m = 11 then 30 else 31)"

definition valid_naive :: "naive \<Rightarrow> bool" where
  "valid_naive t \<longleftrightarrow>
     1 \<le> nv_year t \<and> nv_year t \<le> 9999 \<and> 1 \<le> nv_month t \<and> nv_month t \<le> 12 \<and>
     1 \<le> nv_day t \<and> nv_day t \<le> days_in_month (nv_year t) (nv_month t) \<and>
     0 \<le> nv_hour t \<and> nv_hour t \<le> 23 \<and> 0 \<le> nv_minute t \<and> nv_minute t \<le> 59 \<and>
     0 \<le> nv_second t \<and> nv_second t \<le> 59"

definition number :: "string \<Rightarrow> int" where
  "number s = foldl (\<lambda>n c. n * 10 + digit_value c) 0 s"

text \<open>
  \<^verbatim>\<open>datetime.strptime\<close> on the fourteen digits of a stamp, cut by the format; a stamp the
  calendar does not have raises \<^verbatim>\<open>ValueError\<close>. Where every field of the text has its full width
  this is the only way the format can consume all of it.
\<close>

definition strptime_digits :: "string \<Rightarrow> py_error + naive" where
  "strptime_digits ds =
     (let t = \<lparr>nv_year = number (take 4 ds), nv_month = number (take 2 (drop 4 ds)),
               nv_day = number (take 2 (drop 6 ds)), nv_hour = number (take 2 (drop 8 ds)),
               nv_minute = number (take 2 (drop 10 ds)), nv_second = number (take 2 (drop 12 ds))\<rparr>
      in if valid_naive t then Inr t else Inl ValueError)"

subsection \<open>The patterns\<close>

text \<open>
  A pattern returns the text of its \<^verbatim>\<open>ts\<close> group as the digits the format reads (\<open>None\<close> when a
  separator is not the one of the format) and its \<^verbatim>\<open>cam\<close> group; \<open>None\<close> is no match. \<^verbatim>\<open>$\<close>
  also matches before a newline that ends the text.
\<close>

type_synonym name_match = "string option \<times> string option"

definition digits_of :: "nat \<Rightarrow> string \<Rightarrow> (string \<times> string) option" where
  "digits_of n s =
     (if n \<le> length s \<and> list_all is_digit (take n s) then Some (take n s, drop n s) else None)"

definition one_of :: "string \<Rightarrow> string \<Rightarrow> (char \<times> string) option" where
  "one_of cs s = (case s of [] \<Rightarrow> None | c # r \<Rightarrow> if c \<in> set cs then Some (c, r) else None)"

definition optional :: "string \<Rightarrow> string \<Rightarrow> string" where
  "optional cs s = (case one_of cs s of None \<Rightarrow> s | Some (_, r) \<Rightarrow> r)"

definition ends_here :: "string \<Rightarrow> bool" where
  "ends_here s \<longleftrightarrow> s = [] \<or> s = [CHR 0x0A]"

definition is_letter :: "char \<Rightarrow> bool" where
  "is_letter c \<longleftrightarrow> is_upper_letter (upper_char c)"

definition is_word :: "char \<Rightarrow> bool" where
  "is_word c \<longleftrightarrow> is_letter c \<or> is_digit c \<or> c = CHR ''_''"

text \<open>A greedy optional group of \<open>P\<close> characters up to the end of the text.\<close>

definition tail_group :: "(char \<Rightarrow> bool) \<Rightarrow> string \<Rightarrow> string option option" where
  "tail_group P s =
     (let g = takeWhile P s in
      if \<not> ends_here (dropWhile P s) then None else if g = [] then Some None else Some (Some g))"

definition camera_pattern :: "string \<Rightarrow> name_match option" where
  "camera_pattern s =
     (case digits_of 14 s of
        Some (ds, r) \<Rightarrow>
          if lower (take 8 r) = ''_camera_'' then
            (case tail_group is_digit (drop 8 r) of
               Some (Some n) \<Rightarrow> Some (Some ds, Some (drop 1 (take 8 r) @ n))
             | _ \<Rightarrow> None)
          else None
      | None \<Rightarrow> None)"

definition stamp_pattern :: "string \<Rightarrow> name_match option" where
  "stamp_pattern s =
     (case digits_of 14 s of
        Some (ds, r) \<Rightarrow> if ends_here r then Some (Some ds, None) else None
      | None \<Rightarrow> None)"

definition split_pattern :: "string \<Rightarrow> name_match option" where
  "split_pattern s =
     (case digits_of 8 s of
        Some (ds, r) \<Rightarrow>
          (case one_of ''_'' r of
             Some (_, r1) \<Rightarrow>
               (case digits_of 6 r1 of
                  Some (ts, r2) \<Rightarrow>
                    map_option (\<lambda>cam. (Some (ds @ ts), cam))
                      (tail_group is_word (optional ''_'' r2))
                | None \<Rightarrow> None)
           | None \<Rightarrow> None)
      | None \<Rightarrow> None)"

fun fields_with :: "(nat \<times> string) list \<Rightarrow> string \<Rightarrow> (string \<times> string \<times> string) option" where
  "fields_with [] s = Some ([], [], s)"
| "fields_with ((n, seps) # fs) s =
     (case digits_of n s of
        None \<Rightarrow> None
      | Some (ds, r) \<Rightarrow>
          if seps = [] then map_option (\<lambda>(x, y, z). (ds @ x, y, z)) (fields_with fs r)
          else (case one_of seps r of
                  None \<Rightarrow> None
                | Some (c, r1) \<Rightarrow> map_option (\<lambda>(x, y, z). (ds @ x, c # y, z)) (fields_with fs r1)))"

definition dashed_pattern :: "string \<Rightarrow> name_match option" where
  "dashed_pattern s =
     (case fields_with [(4, ''-''), (2, ''-''), (2, ''_ ''), (2, ''-''), (2, ''-''), (2, [])] s of
        Some (ds, seps, r) \<Rightarrow>
          map_option (\<lambda>cam. (if seps = ''--_--'' then Some ds else None, cam))
            (tail_group is_letter (optional ''-_'' r))
      | None \<Rightarrow> None)"

definition PATTERNS :: "(string \<Rightarrow> name_match option) list" where
  "PATTERNS = [camera_pattern, stamp_pattern, split_pattern, dashed_pattern]"

subsection \<open>Camera roles\<close>

datatype camera_role = Front | Rear | Cabin | Other

definition ends_in :: "string \<Rightarrow> string \<Rightarrow> bool" where
  "ends_in p s \<longleftrightarrow> p = drop (length s - length p) s"

text \<open>\<^verbatim>\<open>re.IGNORECASE\<close>: the key is compared in lower case; a key never holds a newline.\<close>

definition role_hint :: "string list \<Rightarrow> string list \<Rightarrow> string list \<Rightarrow> string \<Rightarrow> bool" where
  "role_hint words exact suffixes key \<longleftrightarrow>
     (\<exists>w \<in> set words. contains w (lower key)) \<or> lower key \<in> set exact \<or>
     (\<exists>x \<in> set suffixes. ends_in x (lower key))"

definition role_for :: "string \<Rightarrow> camera_role" where
  "role_for key =
     (if lower key = ''camera_0'' then Front
      else if lower key = ''camera_1'' then Rear
      else if role_hint [''front''] [''f''] [''_f'', ''_a''] key then Front
      else if role_hint [''rear'', ''back''] [''r''] [''_r'', ''_b''] key then Rear
      else if role_hint [''cabin'', ''interior'', ''inside''] [] [''_i''] key then Cabin
      else Other)"

record parsed_name =
  pn_started_at :: naive
  pn_camera_key :: string
  pn_role :: camera_role

text \<open>\<^verbatim>\<open>filename.rsplit(".", 1)[0]\<close>.\<close>

definition stem :: "string \<Rightarrow> string" where
  "stem name =
     (let r = dropWhile (\<lambda>c. c \<noteq> CHR ''.'') (rev name) in if r = [] then name else rev (tl r))"

definition named :: "naive \<Rightarrow> string option \<Rightarrow> parsed_name" where
  "named t cam =
     (let key = lower (case cam of None \<Rightarrow> ''camera_0'' | Some c \<Rightarrow> c)
      in \<lparr>pn_started_at = t, pn_camera_key = key, pn_role = role_for key\<rparr>)"

fun first_name :: "(string \<Rightarrow> name_match option) list \<Rightarrow> string \<Rightarrow> parsed_name option" where
  "first_name [] s = None"
| "first_name (p # ps) s =
     (case p s of
        Some (Some ds, cam) \<Rightarrow>
          (case strptime_digits ds of Inr t \<Rightarrow> Some (named t cam) | Inl _ \<Rightarrow> first_name ps s)
      | _ \<Rightarrow> first_name ps s)"

definition parse_recording_name :: "string \<Rightarrow> parsed_name option" where
  "parse_recording_name filename = first_name PATTERNS (stem filename)"

subsection \<open>Camera rows\<close>

record camera =
  cam_id :: row_id
  cam_key :: string
  cam_name :: string
  cam_role :: camera_role

fun title_from :: "bool \<Rightarrow> string \<Rightarrow> string" where
  "title_from after_letter [] = []"
| "title_from after_letter (c # s) =
     (if is_letter c then (if after_letter then lower_char c else upper_char c) # title_from True s
      else c # title_from False s)"

definition camera_name :: "string \<Rightarrow> string" where
  "camera_name key =
     (case role_for key of
        Front \<Rightarrow> ''Front'' | Rear \<Rightarrow> ''Rear'' | Cabin \<Rightarrow> ''Cabin''
      | Other \<Rightarrow> title_from False (List.map (\<lambda>c. if c = CHR ''_'' then CHR '' '' else c) key))"

definition resolve_camera :: "string \<Rightarrow> camera list \<Rightarrow> row_id \<times> camera list" where
  "resolve_camera key cams =
     (case List.find (\<lambda>c. cam_key c = key) cams of
        Some c \<Rightarrow> (cam_id c, cams)
      | None \<Rightarrow>
          (let i = next_id cam_id cams
           in (i, cams @ [\<lparr>cam_id = i, cam_key = key, cam_name = camera_name key,
                           cam_role = role_for key\<rparr>])))"

subsection \<open>Pairing by time\<close>

definition DEFAULT_PAIR_WINDOW :: usec where "DEFAULT_PAIR_WINDOW = seconds 5"

fun nearest :: "usec \<Rightarrow> row_id option \<times> usec \<Rightarrow> (usec \<times> row_id) list \<Rightarrow> row_id option" where
  "nearest target (best, delta) [] = best"
| "nearest target (best, delta) ((tm, i) # cs) =
     nearest target (if abs (tm - target) \<le> delta then (Some i, abs (tm - target)) else (best, delta)) cs"

definition find_time_pair :: "usec \<Rightarrow> (usec \<times> row_id) list \<Rightarrow> usec \<Rightarrow> row_id option" where
  "find_time_pair target candidates window = nearest target (None, window) candidates"

subsection \<open>Stamps read back\<close>

text \<open>How a camera writes a stamp: zero-padded decimal fields (\<^verbatim>\<open>strftime\<close>).\<close>

definition digit_char :: "int \<Rightarrow> char" where
  "digit_char n = char_of (nat n + 48)"

definition pad2 :: "int \<Rightarrow> string" where
  "pad2 n = [digit_char (n div 10), digit_char (n mod 10)]"

definition pad4 :: "int \<Rightarrow> string" where
  "pad4 n = pad2 (n div 100) @ pad2 (n mod 100)"

definition stamp :: "naive \<Rightarrow> string" where
  "stamp t = pad4 (nv_year t) @ pad2 (nv_month t) @ pad2 (nv_day t) @
     pad2 (nv_hour t) @ pad2 (nv_minute t) @ pad2 (nv_second t)"

lemma digit_char:
  assumes "0 \<le> n" "n \<le> 9"
  shows "digit_value (digit_char n) = n" and "is_digit (digit_char n)"
proof -
  have "of_char (char_of (nat n + 48) :: char) = (nat n + 48 :: nat)"
    using assms by (simp add: of_char_of)
  then show "digit_value (digit_char n) = n" and "is_digit (digit_char n)"
    using assms by (simp_all add: digit_value_def digit_char_def is_digit_def Let_def)
qed

lemma length_pad [simp]: "length (pad2 n) = 2" "length (pad4 n) = 4"
  by (simp_all add: pad2_def pad4_def)

lemma pad2:
  assumes "0 \<le> n" "n \<le> 99"
  shows "number (pad2 n) = n" and "list_all is_digit (pad2 n)"
  using assms digit_char [of "n div 10"] digit_char [of "n mod 10"]
  by (simp_all add: number_def pad2_def)

lemma pad4:
  assumes "0 \<le> n" "n \<le> 9999"
  shows "number (pad4 n) = n" and "list_all is_digit (pad4 n)"
proof -
  have d: "0 \<le> n div 100" "n div 100 \<le> 99" "0 \<le> n mod 100" "n mod 100 \<le> 99"
    using assms by auto
  have "number (pad4 n) = number (pad2 (n div 100)) * 100 + number (pad2 (n mod 100))"
    by (simp add: number_def pad4_def pad2_def algebra_simps)
  with d show "number (pad4 n) = n" by (simp add: pad2(1))
  show "list_all is_digit (pad4 n)" using d by (simp add: pad4_def pad2(2))
qed

lemma valid_naive_fields:
  assumes "valid_naive t"
  shows "0 \<le> nv_year t" "nv_year t \<le> 9999" "0 \<le> nv_month t" "nv_month t \<le> 99"
    "0 \<le> nv_day t" "nv_day t \<le> 99" "0 \<le> nv_hour t" "nv_hour t \<le> 99"
    "0 \<le> nv_minute t" "nv_minute t \<le> 99" "0 \<le> nv_second t" "nv_second t \<le> 99"
  using assms by (auto simp: valid_naive_def days_in_month_def split: if_splits)

lemma length_stamp [simp]: "length (stamp t) = 14"
  by (simp add: stamp_def)

lemma digits_stamp:
  assumes "valid_naive t"
  shows "digits_of 14 (stamp t @ r) = Some (stamp t, r)"
proof -
  note f = valid_naive_fields [OF assms]
  have "list_all is_digit (stamp t)"
    using pad2(2) f pad4(2) by (simp add: stamp_def)
  then show ?thesis by (simp add: digits_of_def)
qed

lemma strptime_stamp:
  assumes "valid_naive t"
  shows "strptime_digits (stamp t) = Inr t"
proof -
  note f = valid_naive_fields [OF assms]
  have "take 4 (stamp t) = pad4 (nv_year t)" "take 2 (drop 4 (stamp t)) = pad2 (nv_month t)"
    "take 2 (drop 6 (stamp t)) = pad2 (nv_day t)" "take 2 (drop 8 (stamp t)) = pad2 (nv_hour t)"
    "take 2 (drop 10 (stamp t)) = pad2 (nv_minute t)" "take 2 (drop 12 (stamp t)) = pad2 (nv_second t)"
    by (simp_all add: stamp_def)
  then show ?thesis
    using assms f by (cases t) (simp add: strptime_digits_def Let_def pad2(1) pad4(1))
qed

lemma dot_free_stem:
  assumes "CHR ''.'' \<notin> set ext"
  shows "stem (s @ ''.'' @ ext) = s"
proof -
  have "dropWhile (\<lambda>c. c \<noteq> CHR ''.'') (rev ext @ CHR ''.'' # rev s) = CHR ''.'' # rev s"
    using assms by (subst dropWhile_append2) auto
  then show ?thesis by (simp add: stem_def)
qed

text \<open>C40: names the corpus uses are read back exactly: a file named with any calendar stamp, the token
  \<^verbatim>\<open>camera_N\<close> in any case and any extension yields that start time, the token in lower case and
  the position of that camera.\<close>

lemma recording_name_roundtrip:
  assumes "valid_naive t" and "list_all is_digit n" and "n \<noteq> []" and "lower tok = ''camera_''"
    and "CHR ''.'' \<notin> set ext"
  shows "parse_recording_name (stamp t @ ''_'' @ tok @ n @ ''.'' @ ext) =
    Some \<lparr>pn_started_at = t, pn_camera_key = ''camera_'' @ lower n,
          pn_role = role_for (''camera_'' @ lower n)\<rparr>"
proof -
  have len: "length tok = 7" using arg_cong [OF assms(4), of length] by (simp add: lower_def)
  have n: "takeWhile is_digit n = n" "dropWhile is_digit n = []"
    using assms(2) by (simp_all add: list_all_iff takeWhile_eq_all_conv dropWhile_eq_Nil_conv)
  have us: "lower_char CHR ''_'' = CHR ''_''" by code_simp
  have "stem (stamp t @ ''_'' @ tok @ n @ ''.'' @ ext) = stamp t @ ''_'' @ tok @ n"
    using dot_free_stem [OF assms(5), of "stamp t @ ''_'' @ tok @ n"] by simp
  moreover have "camera_pattern (stamp t @ ''_'' @ tok @ n) = Some (Some (stamp t), Some (tok @ n))"
    using assms(3,4) len us digits_stamp [OF assms(1)]
    by (simp add: camera_pattern_def lower_def tail_group_def ends_here_def n)
  moreover have "lower (tok @ n) = ''camera_'' @ lower n"
    using assms(4) by (simp add: lower_def)
  ultimately show ?thesis
    by (simp add: parse_recording_name_def PATTERNS_def strptime_stamp [OF assms(1)] named_def Let_def)
qed

lemma recording_name_roundtrip_witness:
  "parse_recording_name (''20260804174353'' @ ''_'' @ ''Camera_'' @ ''1'' @ ''.'' @ ''ts'') =
     Some \<lparr>pn_started_at = \<lparr>nv_year = 2026, nv_month = 8, nv_day = 4, nv_hour = 17, nv_minute = 43,
        nv_second = 53\<rparr>, pn_camera_key = ''camera_1'', pn_role = Rear\<rparr>"
proof -
  let ?t = "\<lparr>nv_year = 2026, nv_month = 8, nv_day = 4, nv_hour = 17, nv_minute = 43, nv_second = 53\<rparr>"
  have v: "valid_naive ?t" by code_simp
  have d: "list_all is_digit ''1''" "''1'' \<noteq> []" "lower ''Camera_'' = ''camera_''"
    "CHR ''.'' \<notin> set ''ts''" "role_for (''camera_'' @ lower ''1'') = Rear" "lower ''1'' = ''1''"
    by code_simp+
  have s: "stamp ?t = ''20260804174353''" by code_simp
  show ?thesis
    using recording_name_roundtrip [OF v d(1-4)] d(5,6) s by simp
qed

text \<open>A start time is only ever a moment the calendar has.\<close>

lemma strptime_valid: "strptime_digits ds = Inr t \<Longrightarrow> valid_naive t"
  by (auto simp: strptime_digits_def Let_def split: if_splits)

lemma first_name_valid: "first_name ps s = Some p \<Longrightarrow> valid_naive (pn_started_at p)"
proof (induction ps)
  case (Cons q ps)
  show ?case
  proof (rule ccontr)
    assume bad: "\<not> valid_naive (pn_started_at p)"
    with Cons have "first_name ps s \<noteq> Some p" by blast
    with Cons.prems obtain ds t where "strptime_digits ds = Inr t" "pn_started_at p = t"
      by (auto simp: named_def Let_def split: option.splits sum.splits)
    with strptime_valid bad show False by blast
  qed
qed simp

lemma parsed_start_valid:
  "parse_recording_name name = Some p \<Longrightarrow> valid_naive (pn_started_at p)"
  unfolding parse_recording_name_def by (rule first_name_valid)

text \<open>The fourth pattern admits a space between date and time that its format never reads.\<close>

lemma spaced_stamp_unrecognised:
  "dashed_pattern ''2026-08-04 17-43-53'' = Some (None, None)"
  "parse_recording_name ''2026-08-04 17-43-53.ts'' = None"
  "parse_recording_name ''2026-08-04_17-43-53.ts'' \<noteq> None"
  by code_simp+

subsection \<open>Pairs\<close>

lemma nearest_Some:
  assumes "nearest target (best, delta) cs = Some i"
  shows "(best = Some i \<and> (\<forall>(tm, k) \<in> set cs. delta < abs (tm - target))) \<or>
    (\<exists>tm. (tm, i) \<in> set cs \<and> abs (tm - target) \<le> delta \<and>
      (\<forall>(tm', k) \<in> set cs. abs (tm - target) \<le> abs (tm' - target)))"
  using assms
proof (induction cs arbitrary: best delta)
  case (Cons c cs)
  obtain tm k where c: "c = (tm, k)" by (cases c)
  show ?case
  proof (cases "abs (tm - target) \<le> delta")
    case True
    with Cons.prems c have n: "nearest target (Some k, abs (tm - target)) cs = Some i" by simp
    have "\<exists>tm'. (tm', i) \<in> set (c # cs) \<and> abs (tm' - target) \<le> abs (tm - target) \<and>
      (\<forall>(t, k) \<in> set cs. abs (tm' - target) \<le> abs (t - target))"
      using Cons.IH [OF n]
    proof
      assume "Some k = Some i \<and> (\<forall>(t, k) \<in> set cs. abs (tm - target) < abs (t - target))"
      then show ?thesis using c by (intro exI [of _ tm]) auto
    next
      assume "\<exists>tm'. (tm', i) \<in> set cs \<and> abs (tm' - target) \<le> abs (tm - target) \<and>
        (\<forall>(t, k) \<in> set cs. abs (tm' - target) \<le> abs (t - target))"
      then show ?thesis by auto
    qed
    then obtain tm' where t: "(tm', i) \<in> set (c # cs)" "abs (tm' - target) \<le> abs (tm - target)"
      "\<forall>(t, k) \<in> set cs. abs (tm' - target) \<le> abs (t - target)"
      by blast
    have "abs (tm' - target) \<le> delta" using t(2) True by linarith
    with t c show ?thesis by (intro disjI2 exI [of _ tm']) simp
  next
    case False
    with Cons.prems c have n: "nearest target (best, delta) cs = Some i" by simp
    from Cons.IH [OF n] show ?thesis
    proof
      assume "best = Some i \<and> (\<forall>(t, k) \<in> set cs. delta < abs (t - target))"
      then show ?thesis using False c by auto
    next
      assume "\<exists>tm'. (tm', i) \<in> set cs \<and> abs (tm' - target) \<le> delta \<and>
        (\<forall>(t, k) \<in> set cs. abs (tm' - target) \<le> abs (t - target))"
      then obtain tm' where t: "(tm', i) \<in> set cs" "abs (tm' - target) \<le> delta"
        "\<forall>(t, k) \<in> set cs. abs (tm' - target) \<le> abs (t - target)"
        by blast
      with False c show ?thesis by (intro disjI2 exI [of _ tm']) simp
    qed
  qed
qed auto

lemma nearest_None:
  "nearest target (best, delta) cs = None \<Longrightarrow>
    best = None \<and> (\<forall>(tm, k) \<in> set cs. delta < abs (tm - target))"
proof (induction cs arbitrary: best delta)
  case (Cons c cs)
  obtain tm k where c: "c = (tm, k)" by (cases c)
  show ?case
  proof (cases "abs (tm - target) \<le> delta")
    case True
    with Cons.prems c have "nearest target (Some k, abs (tm - target)) cs = None" by simp
    from Cons.IH [OF this] show ?thesis by simp
  next
    case False
    with Cons.prems c have "nearest target (best, delta) cs = None" by simp
    from Cons.IH [OF this] False c show ?thesis by simp
  qed
qed simp

text \<open>Pairing is by proximity: the answer is a candidate within the window that no other candidate
  beats, and there is none only when every candidate lies outside it.\<close>

lemma find_time_pair_nearest:
  "case find_time_pair target cs window of
     Some i \<Rightarrow> \<exists>tm. (tm, i) \<in> set cs \<and> abs (tm - target) \<le> window \<and>
       (\<forall>(tm', k) \<in> set cs. abs (tm - target) \<le> abs (tm' - target))
   | None \<Rightarrow> \<forall>(tm, k) \<in> set cs. window < abs (tm - target)"
  using nearest_Some [of target None window cs] nearest_None [of target None window cs]
  by (auto simp: find_time_pair_def split: option.splits)

text \<open>A token has one camera row, whoever asks first.\<close>

lemma resolve_camera_row:
  assumes "resolve_camera key cams = (i, cams')"
  shows "\<exists>c \<in> set cams'. cam_id c = i \<and> cam_key c = key" and "set cams \<subseteq> set cams'"
    and "resolve_camera key cams' = (i, cams')"
proof -
  let ?P = "\<lambda>c. cam_key c = key"
  have "(\<exists>c \<in> set cams'. cam_id c = i \<and> cam_key c = key) \<and> set cams \<subseteq> set cams' \<and>
    resolve_camera key cams' = (i, cams')"
  proof (cases "List.find ?P cams")
    case (Some c)
    then have "c \<in> set cams" "cam_key c = key" by (auto simp: find_Some_iff)
    with Some assms show ?thesis by (auto simp: resolve_camera_def)
  next
    case None
    then have n: "\<forall>c \<in> set cams. cam_key c \<noteq> key" by (auto simp: find_None_iff)
    then have "List.find ?P (cams @ [c]) = Some c" if "cam_key c = key" for c
      using that by (induction cams) auto
    with None assms show ?thesis by (auto simp: resolve_camera_def Let_def)
  qed
  then show "\<exists>c \<in> set cams'. cam_id c = i \<and> cam_key c = key" and "set cams \<subseteq> set cams'"
    and "resolve_camera key cams' = (i, cams')"
    by blast+
qed

end
