(* ===== verification/Scanner.thy ===== *)
theory Scanner
  imports Naming Queue Damaged Measure
begin

section \<open>The footage scanner\<close>

text \<open>
  Models \<^verbatim>\<open>backend/app/scanner\<close>: the stability verdict (\<^verbatim>\<open>stability.py\<close>), the fingerprint of a
  file (\<^verbatim>\<open>fingerprint.py\<close>), and from \<^verbatim>\<open>discovery.py\<close> the walk of the footage tree, the
  reconciliation of one file with its row, batches, the refusal to conclude anything from a bad
  view of the share, the marking of missing files, the whole scan, and the queueing of what a
  scan left to do. What the file system answers while a file is read (its digest, the \<^verbatim>\<open>stat\<close>
  after the read, either of which may raise) and whether a batch's commit fails are arguments;
  one clock reading stands for those of a scan.
\<close>

subsection \<open>Stability\<close>

datatype settle_cause = RecentlyModified int | ChangedSinceLastScan int int

datatype verdict = Ready | Settling settle_cause | Invalid string

definition assess :: "int \<Rightarrow> int \<Rightarrow> int \<Rightarrow> int \<Rightarrow> (int \<times> int) option \<Rightarrow> verdict" where
  "assess sz mtime_ns now_ns settle_ns previous =
     (let age_ns = now_ns - mtime_ns in
      if settle_ns > 0 \<and> 0 \<le> age_ns \<and> age_ns < settle_ns then Settling (RecentlyModified age_ns)
      else if previous \<noteq> None \<and> previous \<noteq> Some (sz, mtime_ns) then
        Settling (ChangedSinceLastScan (fst (the previous)) sz)
      else if sz = 0 then Invalid ''the file is empty (0 bytes)''
      else Ready)"

subsection \<open>Fingerprints\<close>

text \<open>
  The bytes \<^verbatim>\<open>_fingerprint_sync\<close> feeds to its hash: the decimal length, then the whole of a
  small file or three windows of a large one. \<open>hash\<close> is BLAKE2b with a 16 byte digest.
\<close>

function decimal :: "nat \<Rightarrow> string" where
  "decimal n = (if n < 10 then [char_of (n + 48)] else decimal (n div 10) @ [char_of (n mod 10 + 48)])"
  by pat_completeness auto
termination by (relation "measure (\<lambda>n. n)") auto

declare decimal.simps [simp del]

definition read_at :: "nat \<Rightarrow> nat \<Rightarrow> 'b list \<Rightarrow> 'b list" where
  "read_at offset n content = take n (drop offset content)"

definition hashed_bytes :: "(char \<Rightarrow> 'b) \<Rightarrow> nat \<Rightarrow> 'b list \<Rightarrow> 'b list" where
  "hashed_bytes ascii sample content =
     (let sz = length content in
      List.map ascii (decimal sz) @
      (if sz \<le> sample * 3 then content
       else concat (List.map (\<lambda>offset. read_at offset sample content)
              [0, (sz - sample) div 2, sz - sample])))"

definition fingerprint_sync :: "('b list \<Rightarrow> string) \<Rightarrow> (char \<Rightarrow> 'b) \<Rightarrow> nat \<Rightarrow> 'b list \<Rightarrow> string" where
  "fingerprint_sync hash ascii sample content = hash (hashed_bytes ascii sample content)"

subsection \<open>The walk\<close>

text \<open>
  What \<^verbatim>\<open>os.scandir\<close> shows, links already followed or not as the setting says. The listing of a
  directory may fail after some of its entries (\<open>False\<close>); an entry whose inspection raises is
  \<open>Unreadable\<close>.
\<close>

datatype dir_item =
    Subdir string "dir_item list" bool
  | RegularFile string int int
  | OtherItem string
  | Unreadable string

record entry =
  en_rel :: string
  en_name :: string
  en_size :: int
  en_mtime_ns :: int

datatype walk_event = Found entry | Failed string

type_synonym listing = "string \<times> dir_item list \<times> bool"

definition under :: "string \<Rightarrow> string \<Rightarrow> string" where
  "under parent name = (if parent = [] then name else parent @ ''/'' @ name)"

definition is_media :: "string list \<Rightarrow> string \<Rightarrow> bool" where
  "is_media extensions name \<longleftrightarrow> lower (splitext_ext name) \<in> set extensions"

fun visit :: "string list \<Rightarrow> string \<Rightarrow> dir_item \<Rightarrow> listing list \<times> walk_event list \<Rightarrow>
    listing list \<times> walk_event list" where
  "visit exts parent (Subdir name items fine) (stack, evs) =
     (if starts_with ''.'' name then (stack, evs) else ((under parent name, items, fine) # stack, evs))"
| "visit exts parent (RegularFile name sz mt) (stack, evs) =
     (if is_media exts name then
        (stack, evs @ [Found \<lparr>en_rel = under parent name, en_name = name, en_size = sz,
                              en_mtime_ns = mt\<rparr>])
      else (stack, evs))"
| "visit exts parent (OtherItem name) acc = acc"
| "visit exts parent (Unreadable name) acc = acc"

fun item_weight :: "dir_item \<Rightarrow> nat" where
  "item_weight (Subdir _ items _) = Suc (sum_list (List.map item_weight items))"
| "item_weight _ = 0"

definition listing_weight :: "listing list \<Rightarrow> nat" where
  "listing_weight st = sum_list (List.map (\<lambda>(_, items, _). Suc (sum_list (List.map item_weight items))) st)"

lemma visit_weight:
  "listing_weight (fst (fold (visit exts p) items (st, evs))) \<le>
    listing_weight st + sum_list (List.map item_weight items)"
proof (induction items arbitrary: st evs)
  case (Cons i items)
  obtain st1 evs1 where v: "visit exts p i (st, evs) = (st1, evs1)" by (metis surj_pair)
  have "listing_weight st1 \<le> listing_weight st + item_weight i"
    using v by (cases i) (auto simp: listing_weight_def split: if_splits)
  with Cons.IH [of st1 evs1] v show ?case by simp
qed simp

function walk_stack :: "string list \<Rightarrow> listing list \<Rightarrow> walk_event list" where
  "walk_stack exts [] = []"
| "walk_stack exts ((path, items, fine) # stack) =
     (let r = fold (visit exts path) items (stack, []) in
      snd r @ (if fine then [] else [Failed path]) @ walk_stack exts (fst r))"
  by pat_completeness auto
termination
proof (relation "measure (\<lambda>(_, st). listing_weight st)", goal_cases)
  case (2 exts path items fine stack r)
  then show ?case
    using visit_weight [of exts path items stack "[]"] by (simp add: listing_weight_def)
qed simp

definition walk_tree :: "string list \<Rightarrow> dir_item list \<Rightarrow> bool \<Rightarrow> walk_event list" where
  "walk_tree exts items fine = walk_stack exts [([], items, fine)]"

subsection \<open>Reconciling one file with its row\<close>

definition QUEUEABLE_STATES :: "recording_state list" where
  "QUEUEABLE_STATES = [RDiscovered, RMetadataExtracted]"

record scan_env =
  se_extensions :: "string list"
  se_settle_ns :: int
  se_now_ns :: int
  se_now :: usec
  se_tz :: "naive \<Rightarrow> usec"
  se_digest :: "string \<Rightarrow> string option"
  se_after :: "string \<Rightarrow> (int \<times> int) option"
  se_commit_error :: "nat \<Rightarrow> string option"

datatype tally = Uncounted | Unsettled | CountedInvalid | Changed

definition mark_invalid :: "string \<Rightarrow> usec \<Rightarrow> recording \<Rightarrow> recording" where
  "mark_invalid reason now r =
     r\<lparr>r_state := RInvalid, r_error_message := Some reason, r_last_error_at := Some now,
       r_fingerprint := None, r_fingerprint_size_bytes := None, r_fingerprint_mtime_ns := None\<rparr>"

definition verdict_of :: "scan_env \<Rightarrow> entry \<Rightarrow> recording option \<Rightarrow> verdict" where
  "verdict_of env e row =
     assess (en_size e) (en_mtime_ns e) (se_now_ns env) (se_settle_ns env)
       (map_option (\<lambda>r. (r_size_bytes r, r_mtime_ns r)) row)"

text \<open>A file without a row: \<^verbatim>\<open>Recording(...)\<close> with the defaults of its columns.\<close>

definition first_sighting :: "scan_env \<Rightarrow> entry \<Rightarrow> row_id \<Rightarrow> row_id option \<Rightarrow> usec option \<Rightarrow> recording" where
  "first_sighting env e i cam started =
     \<lparr>r_id = i, r_rel_path = en_rel e, r_filename = en_name e, r_camera_id = cam,
      r_journey_id = None, r_size_bytes = en_size e, r_mtime_ns = en_mtime_ns e,
      r_fingerprint = None, r_fingerprint_size_bytes = None, r_fingerprint_mtime_ns = None,
      r_started_at = started, r_probe_json = JNull, r_state = RDiscovered,
      r_metadata_state = SPending, r_telemetry_state = SPending, r_detection_state = SPending,
      r_plate_state = SPending, r_metadata_revision = None, r_telemetry_revision = None,
      r_detection_revision = None, r_plate_revision = None, r_error_message = None,
      r_distance_m = None, r_max_speed_kmh = None, r_vehicle_count = 0, r_plate_count = 0,
      r_thumbnail_path = None, r_ignored = False, r_protected = False, r_event_type = None,
      r_first_seen_at = se_now env, r_last_scanned_at = Some (se_now env), r_processed_at = None,
      r_file_missing = False, r_deleted_at = None, r_error_count = 0, r_last_error_at = None\<rparr>"

text \<open>The row to add with its counter; \<open>None\<close> when reading the file raised.\<close>

definition add_file :: "scan_env \<Rightarrow> entry \<Rightarrow> recording \<Rightarrow> (recording \<times> tally) option" where
  "add_file env e r =
     (case verdict_of env e None of
        Ready \<Rightarrow>
          (case (se_digest env (en_rel e), se_after env (en_rel e)) of
             (Some fp, Some st) \<Rightarrow>
               if st = (en_size e, en_mtime_ns e) then
                 Some (r\<lparr>r_fingerprint := Some fp, r_fingerprint_size_bytes := Some (en_size e),
                         r_fingerprint_mtime_ns := Some (en_mtime_ns e)\<rparr>, Uncounted)
               else Some (r\<lparr>r_size_bytes := fst st, r_mtime_ns := snd st, r_state := RSettling\<rparr>,
                          Unsettled)
           | _ \<Rightarrow> None)
      | Invalid reason \<Rightarrow> Some (mark_invalid reason (se_now env) r, CountedInvalid)
      | Settling _ \<Rightarrow> Some (r\<lparr>r_state := RSettling\<rparr>, Unsettled))"

definition reappeared :: "recording \<Rightarrow> recording" where
  "reappeared r =
     (if r_file_missing r then
        (let r1 = r\<lparr>r_file_missing := False, r_deleted_at := None\<rparr>
         in if r_state r1 = RFailed then r1\<lparr>r_state := RDiscovered, r_error_message := None\<rparr> else r1)
      else r)"

definition hold_back :: "recording \<Rightarrow> recording" where
  "hold_back r =
     (if r_state r \<in> set QUEUEABLE_STATES \<or> (r_state r = RInvalid \<and> r_fingerprint r = None)
      then r\<lparr>r_state := RSettling, r_error_message := None\<rparr> else r)"

definition known_bytes :: "entry \<Rightarrow> recording \<Rightarrow> bool" where
  "known_bytes e r \<longleftrightarrow>
     r_fingerprint r \<noteq> None \<and>
     (r_fingerprint_size_bytes r, r_fingerprint_mtime_ns r) = (Some (en_size e), Some (en_mtime_ns e))"

definition changed_content :: "string \<Rightarrow> recording \<Rightarrow> recording" where
  "changed_content fp r =
     r\<lparr>r_fingerprint := Some fp, r_state := RDiscovered, r_metadata_state := SPending,
       r_telemetry_state := SPending, r_detection_state := SPending, r_plate_state := SPending,
       r_error_message := None, r_error_count := 0\<rparr>"

definition wake :: "recording \<Rightarrow> recording" where
  "wake r = (if r_state r = RSettling \<and> r_fingerprint r \<noteq> None then r\<lparr>r_state := RDiscovered\<rparr> else r)"

text \<open>A settled file whose bytes the row does not know; \<open>True\<close> when reading it raised.\<close>

definition read_file :: "scan_env \<Rightarrow> entry \<Rightarrow> recording \<Rightarrow> recording \<times> tally \<times> bool" where
  "read_file env e r =
     (case (se_digest env (en_rel e), se_after env (en_rel e)) of
        (Some fp, Some st) \<Rightarrow>
          if st \<noteq> (en_size e, en_mtime_ns e) then
            (let r1 = r\<lparr>r_size_bytes := fst st, r_mtime_ns := snd st\<rparr>
             in (if r_state r1 \<in> set QUEUEABLE_STATES \<or> r_state r1 = RSettling
                 then r1\<lparr>r_state := RSettling, r_error_message := None\<rparr> else r1, Unsettled, False))
          else
            (let r1 = r\<lparr>r_fingerprint_size_bytes := Some (en_size e),
                        r_fingerprint_mtime_ns := Some (en_mtime_ns e)\<rparr>
             in if r_fingerprint r1 = Some fp then
                  (if r_state r1 = RSettling then r1\<lparr>r_state := RDiscovered\<rparr> else r1, Uncounted, False)
                else (changed_content fp r1, Changed, False))
      | _ \<Rightarrow> (r, Uncounted, True))"

definition reconcile_row :: "scan_env \<Rightarrow> entry \<Rightarrow> recording \<Rightarrow> recording \<times> tally \<times> bool" where
  "reconcile_row env e row =
     (let verdict = verdict_of env e (Some row);
          r = reappeared row;
          size_changed = (r_size_bytes r \<noteq> en_size e \<or> r_mtime_ns r \<noteq> en_mtime_ns e);
          r1 = r\<lparr>r_size_bytes := en_size e, r_mtime_ns := en_mtime_ns e\<rparr>
      in case verdict of
           Settling _ \<Rightarrow> (hold_back r1, Unsettled, False)
         | Invalid reason \<Rightarrow>
             if r_state r1 \<noteq> RInvalid \<or> size_changed
             then (mark_invalid reason (se_now env) r1, CountedInvalid, False)
             else (r1, Uncounted, False)
         | Ready \<Rightarrow>
             (let r2 = wake r1 in
              if known_bytes e r2 then (r2, Uncounted, False) else read_file env e r2))"

subsection \<open>Batches\<close>

record scan_run =
  sr_id :: row_id
  sr_trigger :: string
  sr_finished_at :: "usec option"
  sr_files_seen :: nat
  sr_files_new :: nat
  sr_files_changed :: nat
  sr_files_missing :: nat
  sr_files_unsettled :: nat
  sr_errors :: nat
  sr_duration :: "usec option"
  sr_error_message :: "string option"

record catalogue =
  ct_db :: db
  ct_cameras :: "camera list"
  ct_runs :: "scan_run list"

record scan_summary =
  sm_scan_run_id :: "row_id option"
  sm_seen :: nat
  sm_new :: nat
  sm_changed :: nat
  sm_unsettled :: nat
  sm_invalid :: nat
  sm_damaged :: policy_summary
  sm_missing :: nat
  sm_errors :: nat
  sm_queued :: nat
  sm_duration :: usec
  sm_error_message :: "string option"

definition new_summary :: scan_summary where
  "new_summary =
     \<lparr>sm_scan_run_id = None, sm_seen = 0, sm_new = 0, sm_changed = 0, sm_unsettled = 0,
      sm_invalid = 0, sm_damaged = \<lparr>ps_hidden = 0, ps_deleted = 0, ps_restored = 0, ps_blocked = 0\<rparr>,
      sm_missing = 0, sm_errors = 0, sm_queued = 0, sm_duration = 0, sm_error_message = None\<rparr>"

fun tally_up :: "tally \<Rightarrow> scan_summary \<Rightarrow> scan_summary" where
  "tally_up Uncounted s = s"
| "tally_up Unsettled s = s\<lparr>sm_unsettled := sm_unsettled s + 1\<rparr>"
| "tally_up CountedInvalid s = s\<lparr>sm_invalid := sm_invalid s + 1\<rparr>"
| "tally_up Changed s = s\<lparr>sm_changed := sm_changed s + 1\<rparr>"

definition raise_error :: "scan_summary \<Rightarrow> scan_summary" where
  "raise_error s = s\<lparr>sm_errors := sm_errors s + 1\<rparr>"

definition on_cat_db :: "(db \<Rightarrow> db) \<Rightarrow> catalogue \<Rightarrow> catalogue" where
  "on_cat_db f c = c\<lparr>ct_db := f (ct_db c)\<rparr>"

definition add_new :: "scan_env \<Rightarrow> entry \<Rightarrow> catalogue \<times> scan_summary \<Rightarrow> catalogue \<times> scan_summary" where
  "add_new env e cs =
     (let (c, s) = cs;
          parsed = parse_recording_name (en_name e);
          (cam, cams) = (case parsed of
              None \<Rightarrow> (None, ct_cameras c)
            | Some p \<Rightarrow> map_prod Some id (resolve_camera (pn_camera_key p) (ct_cameras c)));
          started = map_option (\<lambda>p. se_tz env (pn_started_at p)) parsed;
          c1 = c\<lparr>ct_cameras := cams\<rparr>;
          i = next_id r_id (db_recordings (ct_db c))
      in case add_file env e (first_sighting env e i cam started) of
           None \<Rightarrow> (c1, raise_error s)
         | Some (r, t) \<Rightarrow>
             (let s1 = tally_up t s in
              (on_cat_db (\<lambda>d. d\<lparr>db_recordings := db_recordings d @ [r]\<rparr>) c1,
               s1\<lparr>sm_new := sm_new s1 + 1\<rparr>)))"

definition update_known ::
  "scan_env \<Rightarrow> entry \<Rightarrow> recording \<Rightarrow> catalogue \<times> scan_summary \<Rightarrow> catalogue \<times> scan_summary" where
  "update_known env e row cs =
     (let (c, s) = cs; (r, t, raised) = reconcile_row env e row;
          r' = (if \<not> raised \<and> r \<noteq> row then r\<lparr>r_last_scanned_at := Some (se_now env)\<rparr> else r)
      in (on_cat_db (db_update_recordings (\<lambda>x. r_id x = r_id row) (\<lambda>_. r')) c,
          (if raised then raise_error else id) (tally_up t s)))"

definition existing_rows :: "entry list \<Rightarrow> db \<Rightarrow> recording list" where
  "existing_rows batch d = filter (\<lambda>r. r_rel_path r \<in> set (List.map en_rel batch)) (db_recordings d)"

definition process_entry ::
  "scan_env \<Rightarrow> recording list \<Rightarrow> entry \<Rightarrow> catalogue \<times> scan_summary \<Rightarrow> catalogue \<times> scan_summary" where
  "process_entry env existing e cs =
     (case List.find (\<lambda>r. r_rel_path r = en_rel e) existing of
        None \<Rightarrow> add_new env e cs
      | Some row \<Rightarrow> update_known env e row cs)"

definition process_batch ::
  "scan_env \<Rightarrow> entry list \<Rightarrow> catalogue \<times> scan_summary \<Rightarrow> catalogue \<times> scan_summary" where
  "process_batch env batch cs =
     fold (process_entry env (existing_rows batch (ct_db (fst cs)))) batch cs"

subsection \<open>The scan\<close>

definition BATCH_SIZE :: nat where "BATCH_SIZE = 200"

text \<open>
  \<^verbatim>\<open>itertools.islice(walker, n)\<close>: the next \<open>n\<close> entries, the directories that failed on the way,
  and what the walk has left.
\<close>

fun pull :: "nat \<Rightarrow> walk_event list \<Rightarrow> entry list \<times> string list \<times> walk_event list" where
  "pull 0 evs = ([], [], evs)"
| "pull n [] = ([], [], [])"
| "pull (Suc n) (Found e # evs) = (case pull n evs of (es, fs, rest) \<Rightarrow> (e # es, fs, rest))"
| "pull (Suc n) (Failed p # evs) = (case pull (Suc n) evs of (es, fs, rest) \<Rightarrow> (es, p # fs, rest))"

lemma pull_shrinks: "pull (Suc n) evs = (e # es, fs, rest) \<Longrightarrow> length rest < length evs"
proof -
  have le: "length (snd (snd (pull k xs))) \<le> length xs" for k xs
    by (induction k xs rule: pull.induct) (auto split: prod.splits)
  have "fst (pull (Suc n) evs) \<noteq> [] \<Longrightarrow> length (snd (snd (pull (Suc n) evs))) < length evs"
  proof (induction evs)
    case (Cons ev evs)
    show ?case
    proof (cases ev)
      case (Found x)
      then show ?thesis using le [of n evs] by (auto split: prod.splits)
    next
      case (Failed p)
      with Cons show ?thesis by (auto split: prod.splits)
    qed
  qed simp
  then show "pull (Suc n) evs = (e # es, fs, rest) \<Longrightarrow> length rest < length evs" by simp
qed

lemma pull_batch_shrinks: "pull BATCH_SIZE evs = (e # es, fs, rest) \<Longrightarrow> length rest < length evs"
  using pull_shrinks [of "BATCH_SIZE - 1"] by (simp add: BATCH_SIZE_def)

type_synonym scan_progress = "catalogue \<times> scan_summary \<times> string list \<times> string list"

text \<open>
  The loop of \<^verbatim>\<open>_scan\<close> over the \<open>k\<close>th batch and the rest: the index, the summary, the paths seen
  and the directories that failed. A batch whose commit fails is rolled back and ends the walk.
\<close>

function scan_loop :: "scan_env \<Rightarrow> nat \<Rightarrow> walk_event list \<Rightarrow> scan_progress \<Rightarrow> scan_progress" where
  "scan_loop env k evs (c, s, seen_paths, failed) =
     (case pull BATCH_SIZE evs of
        ([], fs, rest) \<Rightarrow> (c, s, seen_paths, failed @ fs)
      | (e # es, fs, rest) \<Rightarrow>
          (let batch = e # es;
               s1 = s\<lparr>sm_seen := sm_seen s + length batch\<rparr>;
               (c2, s2) = process_batch env batch (c, s1);
               seen' = seen_paths @ List.map en_rel batch
           in case se_commit_error env k of
                Some message \<Rightarrow>
                  (c, s2\<lparr>sm_errors := sm_errors s2 + 1, sm_error_message := Some message\<rparr>, seen',
                   failed @ fs)
              | None \<Rightarrow> scan_loop env (Suc k) rest (c2, s2, seen', failed @ fs)))"
  by pat_completeness auto
termination
proof (relation "measure (\<lambda>(_, _, evs, _). length evs)", goal_cases)
  case (2 env k evs c s seen_paths failed x pulled e es fs rest)
  then have "pull BATCH_SIZE evs = (e # es, fs, rest)" by simp
  from pull_batch_shrinks [OF this] show ?case by simp
qed simp

declare scan_loop.simps [simp del]

datatype skip_reason = WalkErrors nat | LooksEmpty nat | TooFew nat nat

definition listed_count :: "db \<Rightarrow> nat" where
  "listed_count d = length (filter (\<lambda>r. \<not> r_file_missing r) (db_recordings d))"

definition reconciliation_blocked :: "scan_summary \<Rightarrow> db \<Rightarrow> skip_reason option" where
  "reconciliation_blocked s d =
     (let indexed = listed_count d in
      if sm_errors s \<noteq> 0 then Some (WalkErrors (sm_errors s))
      else if indexed = 0 then None
      else if sm_seen s = 0 then Some (LooksEmpty indexed)
      else if real (sm_seen s) < real indexed * DISK_VS_INDEX_MIN_RATIO
           then Some (TooFew (sm_seen s) indexed)
      else None)"

definition absent :: "string list \<Rightarrow> recording \<Rightarrow> bool" where
  "absent seen_paths r \<longleftrightarrow> \<not> r_file_missing r \<and> r_rel_path r \<notin> set seen_paths"

definition mark_missing :: "usec \<Rightarrow> string list \<Rightarrow> db \<Rightarrow> nat \<times> db" where
  "mark_missing now seen_paths d =
     (length (filter (absent seen_paths) (db_recordings d)),
      db_update_recordings (absent seen_paths)
        (\<lambda>r. r\<lparr>r_file_missing := True, r_deleted_at := Some now\<rparr>) d)"

text \<open>
  \<open>finish_now\<close> and \<open>elapsed\<close> are the clock readings of \<^verbatim>\<open>_finish_run\<close>; the run row always
  exists, the scan inserted it.
\<close>

definition finish_run :: "usec \<Rightarrow> usec \<Rightarrow> row_id \<Rightarrow> scan_summary \<Rightarrow> catalogue \<Rightarrow> catalogue" where
  "finish_run finish_now elapsed i s c =
     c\<lparr>ct_runs := update_where (\<lambda>r. sr_id r = i)
         (\<lambda>r. r\<lparr>sr_finished_at := Some finish_now, sr_files_seen := sm_seen s, sr_files_new := sm_new s,
                sr_files_changed := sm_changed s, sr_files_missing := sm_missing s,
                sr_files_unsettled := sm_unsettled s, sr_errors := sm_errors s,
                sr_duration := Some elapsed, sr_error_message := sm_error_message s\<rparr>) (ct_runs c)\<rparr>"

definition new_run :: "string \<Rightarrow> row_id \<Rightarrow> scan_run" where
  "new_run trigger i =
     \<lparr>sr_id = i, sr_trigger = trigger, sr_finished_at = None, sr_files_seen = 0, sr_files_new = 0,
      sr_files_changed = 0, sr_files_missing = 0, sr_files_unsettled = 0, sr_errors = 0,
      sr_duration = None, sr_error_message = None\<rparr>"

text \<open>The end of the walk: either the absences count, or the reason they do not is recorded.\<close>

definition conclude_absences ::
  "(skip_reason \<Rightarrow> string) \<Rightarrow> usec \<Rightarrow> scan_progress \<Rightarrow> catalogue \<times> scan_summary" where
  "conclude_absences reason_text now p =
     (let (c, s, seen_paths, failed) = p;
          s1 = s\<lparr>sm_errors := sm_errors s + length failed\<rparr>
      in case reconciliation_blocked s1 (ct_db c) of
           None \<Rightarrow>
             (let (n, d) = mark_missing now seen_paths (ct_db c)
              in (c\<lparr>ct_db := d\<rparr>, s1\<lparr>sm_missing := n\<rparr>))
         | Some reason \<Rightarrow>
             (c, case sm_error_message s1 of
                   Some m \<Rightarrow> if m = [] then s1\<lparr>sm_error_message := Some (reason_text reason)\<rparr> else s1
                 | None \<Rightarrow> s1\<lparr>sm_error_message := Some (reason_text reason)\<rparr>))"

text \<open>
  \<^verbatim>\<open>_scan\<close>: \<open>root_dir\<close> is the footage tree, or \<open>None\<close> when the directory is not available;
  \<open>policy\<close> is \<^verbatim>\<open>apply_known_damaged_policy\<close> with its own arguments.
\<close>

definition scan_once ::
  "scan_env \<Rightarrow> (skip_reason \<Rightarrow> string) \<Rightarrow> string \<Rightarrow> usec \<times> usec \<Rightarrow> string \<Rightarrow>
   (dir_item list \<times> bool) option \<Rightarrow> (db \<Rightarrow> policy_summary \<times> db) \<Rightarrow> catalogue \<Rightarrow>
   catalogue \<times> scan_summary" where
  "scan_once env reason_text unavailable finish trigger root_dir policy c0 =
     (let i = next_id sr_id (ct_runs c0);
          c1 = c0\<lparr>ct_runs := ct_runs c0 @ [new_run trigger i]\<rparr>;
          s1 = new_summary\<lparr>sm_scan_run_id := Some i\<rparr>
      in case root_dir of
           None \<Rightarrow>
             (let s2 = s1\<lparr>sm_error_message := Some unavailable, sm_duration := snd finish\<rparr>
              in (finish_run (fst finish) (snd finish) i s2 c1, s2))
         | Some (items, fine) \<Rightarrow>
             (let evs = walk_tree (se_extensions env) items fine;
                  (c2, s2) = conclude_absences reason_text (se_now env)
                               (scan_loop env 0 evs (c1, s1, [], []));
                  (damaged, d3) = policy (ct_db c2);
                  s3 = s2\<lparr>sm_damaged := damaged, sm_duration := snd finish\<rparr>
              in (finish_run (fst finish) (snd finish) i s3 (c2\<lparr>ct_db := d3\<rparr>), s3)))"

text \<open>\<^verbatim>\<open>Scanner.scan\<close>: a scan under way makes a second one fail at once.\<close>

datatype scan_error = AlreadyScanning

definition scan_guarded :: "bool \<Rightarrow> 'r \<Rightarrow> scan_error + 'r" where
  "scan_guarded locked result = (if locked then Inl AlreadyScanning else Inr result)"

subsection \<open>Queueing what a scan left\<close>

definition never_processed :: "recording \<Rightarrow> bool" where
  "never_processed r \<longleftrightarrow> r_processed_at r = None \<and> \<not> r_ignored r \<and> \<not> r_file_missing r"

definition stolen :: "db \<Rightarrow> job \<Rightarrow> bool" where
  "stolen d j \<longleftrightarrow>
     (\<exists>r \<in> set (db_recordings d). never_processed r \<and> j_recording_id j = Some (r_id r)) \<and>
     j_state j = JQueued \<and> j_kind j = KReprocess \<and> j_priority j > NEW_FOOTAGE_PRIORITY"

definition promote_new_footage :: "db \<Rightarrow> db" where
  "promote_new_footage d =
     db_update_jobs (stolen d)
       (\<lambda>j. j\<lparr>j_kind := KProcess, j_stages := None, j_priority := NEW_FOOTAGE_PRIORITY\<rparr>) d"

definition unprocessed :: "db \<Rightarrow> recording \<Rightarrow> bool" where
  "unprocessed d r \<longleftrightarrow>
     \<not> r_ignored r \<and> \<not> r_file_missing r \<and> r_state r \<in> set QUEUEABLE_STATES \<and>
     r_fingerprint r \<noteq> None \<and>
     \<not> (\<exists>j \<in> set (db_jobs d). live j \<and> j_recording_id j = Some (r_id r))"

definition newest_key :: "recording \<Rightarrow> bool \<times> usec" where
  "newest_key r = (r_started_at r = None, case r_started_at r of None \<Rightarrow> 0 | Some t \<Rightarrow> - t)"

text \<open>\<^verbatim>\<open>ProcessingJob(...)\<close> with the defaults of its columns.\<close>

definition scan_job :: "usec \<Rightarrow> recording \<Rightarrow> db \<Rightarrow> job" where
  "scan_job now r d =
     (new_job 0 now (Some (r_id r)) KProcess None NEW_FOOTAGE_PRIORITY d)\<lparr>j_max_attempts := 3\<rparr>"

definition queue_one :: "usec \<Rightarrow> recording \<Rightarrow> db \<Rightarrow> db" where
  "queue_one now r d =
     db_update_recordings (\<lambda>x. r_id x = r_id r) (\<lambda>x. x\<lparr>r_state := RQueued\<rparr>)
       (d\<lparr>db_jobs := db_jobs d @ [scan_job now r d]\<rparr>)"

definition queue_unprocessed :: "usec \<Rightarrow> nat option \<Rightarrow> db \<Rightarrow> nat \<times> db" where
  "queue_unprocessed now limit d0 =
     (let d = promote_new_footage d0;
          rows = sort_key newest_key (filter (unprocessed d) (db_recordings d));
          chosen = (case limit of None \<Rightarrow> rows | Some n \<Rightarrow> take n rows)
      in (length chosen, fold (queue_one now) chosen d))"

definition pending_count :: "db \<Rightarrow> nat" where
  "pending_count d =
     length (filter (\<lambda>r. \<not> r_ignored r \<and> \<not> r_file_missing r \<and>
       r_state r \<in> {RDiscovered, RMetadataExtracted, RQueued}) (db_recordings d))"

end
