(* ===== verification/ScannerProps.thy ===== *)
theory ScannerProps
  imports Scanner QueueSpecs
begin

section \<open>What the scanner guarantees\<close>

text \<open>
  The walk finds every media file once and reports every directory it could not list; a hash
  never confuses files of different lengths; only settled files become work; a file that stops
  changing is read within two scans and costs nothing afterwards; nothing is marked missing on a
  view of the share that cannot be trusted.
\<close>

subsection \<open>The walk, as a specification\<close>

text \<open>Every media file outside the dot-directories, and every directory whose listing failed.\<close>

fun item_events :: "string list \<Rightarrow> string \<Rightarrow> dir_item \<Rightarrow> walk_event multiset" where
  "item_events exts parent (Subdir name items fine) =
     (if starts_with ''.'' name then {#}
      else \<Sum>\<^sub># (mset (List.map (item_events exts (under parent name)) items)) +
           (if fine then {#} else {#Failed (under parent name)#}))"
| "item_events exts parent (RegularFile name sz mt) =
     (if is_media exts name then
        {#Found \<lparr>en_rel = under parent name, en_name = name, en_size = sz, en_mtime_ns = mt\<rparr>#}
      else {#})"
| "item_events exts parent (OtherItem name) = {#}"
| "item_events exts parent (Unreadable name) = {#}"

definition listing_events :: "string list \<Rightarrow> listing \<Rightarrow> walk_event multiset" where
  "listing_events exts l =
     (case l of (path, items, fine) \<Rightarrow>
        \<Sum>\<^sub># (mset (List.map (item_events exts path) items)) +
        (if fine then {#} else {#Failed path#}))"

definition stack_events :: "string list \<Rightarrow> listing list \<Rightarrow> walk_event multiset" where
  "stack_events exts st = \<Sum>\<^sub># (mset (List.map (listing_events exts) st))"

lemma visit_events:
  "fold (visit exts p) items (st, evs) = (st', evs') \<Longrightarrow>
    stack_events exts st' + mset evs' =
    stack_events exts st + mset evs + \<Sum>\<^sub># (mset (List.map (item_events exts p) items))"
proof (induction items arbitrary: st evs)
  case (Cons i items)
  obtain st1 evs1 where v: "visit exts p i (st, evs) = (st1, evs1)" by (metis surj_pair)
  have "stack_events exts st1 + mset evs1 = stack_events exts st + mset evs + item_events exts p i"
    using v by (cases i) (auto simp: stack_events_def listing_events_def split: if_splits)
  with Cons v show ?case by simp
qed simp

lemma walk_stack_events: "mset (walk_stack exts st) = stack_events exts st"
proof (induction exts st rule: walk_stack.induct)
  case (2 exts path items fine stack)
  obtain st1 evs1 where v: "fold (visit exts path) items (stack, []) = (st1, evs1)"
    by (metis surj_pair)
  from 2 visit_events [OF v] v show ?case
    by (simp add: stack_events_def listing_events_def ac_simps)
qed (simp add: stack_events_def)

text \<open>The loop over a stack of directories ends on every tree and yields, in some order, exactly
  the media files outside the dot-directories, each once with the \<^verbatim>\<open>stat\<close> of its listing, and one
  failure for every directory whose listing broke off.\<close>

lemma walk_finds_all:
  "mset (walk_tree exts items fine) = listing_events exts ([], items, fine)"
  unfolding walk_tree_def walk_stack_events stack_events_def by simp

subsection \<open>Fingerprints\<close>

lemma decimal_digits: "set (decimal n) \<subseteq> char_of ` {48..57 :: nat}"
proof (induction n rule: decimal.induct)
  case (1 n)
  have d: "char_of (k + 48) \<in> char_of ` {48..57 :: nat}" if "k < 10" for k :: nat
    using that by (intro imageI) simp
  show ?case
  proof (cases "n < 10")
    case True
    then show ?thesis using d by (subst decimal.simps) simp
  next
    case False
    with 1 d [of "n mod 10"] show ?thesis by (subst decimal.simps) simp
  qed
qed

lemma number_decimal: "number (decimal n) = int n"
proof (induction n rule: decimal.induct)
  case (1 n)
  have d: "digit_value (char_of (k + 48)) = int k" if "k < 10" for k :: nat
    using that by (simp add: digit_value_def of_char_of)
  show ?case
  proof (cases "n < 10")
    case True
    then show ?thesis using d by (subst decimal.simps) (simp add: number_def)
  next
    case False
    have "int (n div 10) * 10 + int (n mod 10) = int n"
      by (simp only: of_nat_mult [symmetric, of _ 10, simplified] of_nat_add [symmetric] mult.commute)
        presburger
    with False 1 d [of "n mod 10"] show ?thesis by (subst decimal.simps) (simp add: number_def)
  qed
qed

lemma decimal_inj: "decimal m = decimal n \<Longrightarrow> m = n"
  by (metis number_decimal of_nat_eq_iff)

lemma length_decimal_mono: "m \<le> n \<Longrightarrow> length (decimal m) \<le> length (decimal n)"
proof (induction m arbitrary: n rule: decimal.induct)
  case (1 m)
  show ?case
  proof (cases "m < 10")
    case True
    then have "length (decimal m) = 1" by (simp add: decimal.simps [of m])
    moreover have "1 \<le> length (decimal n)" by (simp add: decimal.simps [of n])
    ultimately show ?thesis by simp
  next
    case False
    then have "length (decimal (m div 10)) \<le> length (decimal (n div 10))"
      using 1 by (simp add: div_le_mono)
    with False 1(2) show ?thesis by (simp add: decimal.simps [of m] decimal.simps [of n])
  qed
qed

lemma length_hashed_bytes:
  "length (hashed_bytes ascii sample c) = length (decimal (length c)) + min (length c) (sample * 3)"
proof (cases "length c \<le> sample * 3")
  case False
  then have "(length c - sample) div 2 + sample \<le> length c" by linarith
  with False show ?thesis by (simp add: hashed_bytes_def Let_def read_at_def min_def)
qed (simp add: hashed_bytes_def Let_def)

text \<open>Files of different lengths never feed the hash the same bytes, a small file is hashed whole,
  and of a large one the first, middle and last windows are: equal hash input means equal
  length, and equal content wherever it was sampled.\<close>

lemma fingerprint_separates:
  assumes "hashed_bytes ascii sample a = hashed_bytes ascii sample b"
    and "inj_on ascii (char_of ` {48..57 :: nat})"
  shows "length a = length b \<and>
    (if length a \<le> sample * 3 then a = b
     else \<forall>offset \<in> {0, (length a - sample) div 2, length a - sample}.
       read_at offset sample a = read_at offset sample b)"
proof -
  let ?d = "\<lambda>x. length (decimal (length x)) + min (length x) (sample * 3)"
  have l: "?d a = ?d b"
    using arg_cong [OF assms(1), of length] by (simp add: length_hashed_bytes)
  have le: "length (decimal (length a)) = length (decimal (length b))"
    using l length_decimal_mono [of "length a" "length b"] length_decimal_mono [of "length b" "length a"]
    by (cases "length a \<le> length b") (auto simp: min_def split: if_splits)
  have parts: "List.map ascii (decimal (length a)) = List.map ascii (decimal (length b))"
    "drop (length (decimal (length a))) (hashed_bytes ascii sample a) =
     drop (length (decimal (length b))) (hashed_bytes ascii sample b)"
    using assms(1) le by (simp_all add: hashed_bytes_def Let_def)
  have "decimal (length a) = decimal (length b)"
    using parts(1) decimal_digits assms(2) by (intro map_inj_on [OF parts(1)]) (auto intro: inj_on_subset)
  then have len: "length a = length b" by (rule decimal_inj)
  have win: "(length a - sample) div 2 + sample \<le> length a" if "\<not> length a \<le> sample * 3"
    using that by linarith
  show ?thesis
    using parts(2) len win by (auto simp: hashed_bytes_def Let_def read_at_def)
qed

lemma fingerprint_separates_witness:
  "read_at 0 2 ''abcdXYghijk'' = read_at 0 2 ''abQQXYQQQjk'' \<and>
   hashed_bytes id 2 ''abcdXYghijk'' = hashed_bytes id 2 ''abQQXYQQQjk''"
proof -
  have h: "hashed_bytes id 2 ''abcdXYghijk'' = hashed_bytes id 2 ''abQQXYQQQjk''"
    by (simp add: hashed_bytes_def decimal.simps read_at_def)
  from fingerprint_separates [OF h] h show ?thesis by simp
qed

subsection \<open>One file\<close>

lemma queueable_simps [simp]:
  "RDiscovered \<in> set QUEUEABLE_STATES" "RSettling \<notin> set QUEUEABLE_STATES"
  "RInvalid \<notin> set QUEUEABLE_STATES" "RQueued \<notin> set QUEUEABLE_STATES"
  by (simp_all add: QUEUEABLE_STATES_def)

lemma reappeared_sel [simp]:
  "r_id (reappeared r) = r_id r" "r_rel_path (reappeared r) = r_rel_path r"
  "r_fingerprint (reappeared r) = r_fingerprint r"
  "r_fingerprint_size_bytes (reappeared r) = r_fingerprint_size_bytes r"
  "r_fingerprint_mtime_ns (reappeared r) = r_fingerprint_mtime_ns r"
  "r_size_bytes (reappeared r) = r_size_bytes r" "r_mtime_ns (reappeared r) = r_mtime_ns r"
  "\<not> r_file_missing (reappeared r)"
  by (simp_all add: reappeared_def Let_def)

lemma wake_sel [simp]:
  "r_id (wake r) = r_id r" "r_rel_path (wake r) = r_rel_path r"
  "r_fingerprint (wake r) = r_fingerprint r"
  "r_fingerprint_size_bytes (wake r) = r_fingerprint_size_bytes r"
  "r_fingerprint_mtime_ns (wake r) = r_fingerprint_mtime_ns r"
  "r_size_bytes (wake r) = r_size_bytes r" "r_mtime_ns (wake r) = r_mtime_ns r"
  "r_file_missing (wake r) = r_file_missing r"
  "r_fingerprint r \<noteq> None \<Longrightarrow> r_state (wake r) \<noteq> RSettling"
  by (simp_all add: wake_def)

lemma hold_back_sel [simp]:
  "r_id (hold_back r) = r_id r" "r_rel_path (hold_back r) = r_rel_path r"
  "r_fingerprint (hold_back r) = r_fingerprint r"
  "r_fingerprint_size_bytes (hold_back r) = r_fingerprint_size_bytes r"
  "r_fingerprint_mtime_ns (hold_back r) = r_fingerprint_mtime_ns r"
  "r_size_bytes (hold_back r) = r_size_bytes r" "r_mtime_ns (hold_back r) = r_mtime_ns r"
  "r_state (hold_back r) \<notin> set QUEUEABLE_STATES"
  by (simp_all add: hold_back_def)

lemma mark_invalid_sel [simp]:
  "r_id (mark_invalid m now r) = r_id r" "r_rel_path (mark_invalid m now r) = r_rel_path r"
  "r_state (mark_invalid m now r) = RInvalid"
  by (simp_all add: mark_invalid_def)

lemma changed_content_sel [simp]:
  "r_id (changed_content fp r) = r_id r" "r_rel_path (changed_content fp r) = r_rel_path r"
  "r_fingerprint (changed_content fp r) = Some fp"
  "r_fingerprint_size_bytes (changed_content fp r) = r_fingerprint_size_bytes r"
  "r_fingerprint_mtime_ns (changed_content fp r) = r_fingerprint_mtime_ns r"
  "r_size_bytes (changed_content fp r) = r_size_bytes r"
  "r_mtime_ns (changed_content fp r) = r_mtime_ns r"
  "r_file_missing (changed_content fp r) = r_file_missing r"
  "r_state (changed_content fp r) = RDiscovered"
  by (simp_all add: changed_content_def)

lemma read_file_identity:
  assumes "read_file env e r0 = (r, t, raised)"
  shows "r_id r = r_id r0 \<and> r_rel_path r = r_rel_path r0"
  using assms by (auto simp: read_file_def Let_def split: if_splits option.splits)

lemma reconcile_identity:
  assumes "reconcile_row env e row = (r, t, raised)"
  shows "r_id r = r_id row \<and> r_rel_path r = r_rel_path row"
  using assms
  by (auto simp: reconcile_row_def Let_def split: verdict.splits if_splits dest!: read_file_identity)

text \<open>Whatever happens while a file is read, only a settled one ends up ready for the queue.\<close>

lemma reconcile_ready:
  assumes "reconcile_row env e row = (r, t, raised)" and "r_state r \<in> set QUEUEABLE_STATES"
    and "r_fingerprint r \<noteq> None"
  shows "verdict_of env e (Some row) = Ready"
  using assms
  by (auto simp: reconcile_row_def Let_def split: verdict.splits if_splits)

lemma add_file_ready:
  assumes "add_file env e (first_sighting env e i cam st) = Some (r, t)"
    and "r_state r \<in> set QUEUEABLE_STATES"
  shows "verdict_of env e None = Ready \<and> known_bytes e r"
  using assms
  by (auto simp: add_file_def mark_invalid_def known_bytes_def split: verdict.splits if_splits option.splits)

text \<open>A file nobody touched since it was read costs its \<^verbatim>\<open>stat\<close> and nothing else.\<close>

definition stable_at :: "scan_env \<Rightarrow> entry \<Rightarrow> bool" where
  "stable_at env e \<longleftrightarrow>
     en_size e \<noteq> 0 \<and>
     (se_settle_ns env > 0 \<longrightarrow>
        \<not> (0 \<le> se_now_ns env - en_mtime_ns e \<and> se_now_ns env - en_mtime_ns e < se_settle_ns env))"

definition in_step :: "entry \<Rightarrow> recording \<Rightarrow> bool" where
  "in_step e r \<longleftrightarrow>
     known_bytes e r \<and> r_size_bytes r = en_size e \<and> r_mtime_ns r = en_mtime_ns e \<and>
     \<not> r_file_missing r \<and> r_state r \<noteq> RSettling"

lemma verdict_stable:
  "stable_at env e \<Longrightarrow>
    verdict_of env e (Some row) =
      (if (r_size_bytes row, r_mtime_ns row) = (en_size e, en_mtime_ns e) then Ready
       else Settling (ChangedSinceLastScan (r_size_bytes row) (en_size e)))"
  by (auto simp: stable_at_def verdict_of_def assess_def Let_def)

lemma reconcile_in_step:
  assumes "stable_at env e" and "in_step e r"
  shows "reconcile_row env e r = (r, Uncounted, False)"
proof -
  have eta: "r\<lparr>r_size_bytes := en_size e, r_mtime_ns := en_mtime_ns e\<rparr> = r"
    using assms(2) by (cases r) (simp add: in_step_def)
  show ?thesis
    using assms
    by (simp add: reconcile_row_def in_step_def verdict_stable reappeared_def wake_def Let_def eta)
qed

text \<open>One scan of a stable file in the state the previous scan left it.\<close>

definition same_stat :: "entry \<Rightarrow> recording \<Rightarrow> bool" where
  "same_stat e r \<longleftrightarrow> r_size_bytes r = en_size e \<and> r_mtime_ns r = en_mtime_ns e"

definition quiet :: "scan_env \<Rightarrow> entry \<Rightarrow> string \<Rightarrow> bool" where
  "quiet env e fp \<longleftrightarrow>
     stable_at env e \<and> se_digest env (en_rel e) = Some fp \<and>
     se_after env (en_rel e) = Some (en_size e, en_mtime_ns e)"

definition fresh_work :: "recording \<Rightarrow> bool" where
  "fresh_work r \<longleftrightarrow>
     r_state r = RDiscovered \<and> r_metadata_state r = SPending \<and> r_telemetry_state r = SPending \<and>
     r_detection_state r = SPending \<and> r_plate_state r = SPending"

lemma reconcile_settled:
  assumes "quiet env e fp" and "same_stat e row"
    and "known_bytes e row \<longrightarrow> r_fingerprint row = Some fp"
    and "reconcile_row env e row = (r, t, raised)"
  shows "in_step e r \<and> r_fingerprint r = Some fp \<and> \<not> raised \<and>
    (r_fingerprint row \<noteq> Some fp \<longrightarrow> fresh_work r)"
proof -
  have v: "verdict_of env e (Some row) = Ready"
    using assms(1,2) by (simp add: quiet_def same_stat_def verdict_stable)
  let ?r = "wake (reappeared row)"
  have "(reappeared row)\<lparr>r_size_bytes := r_size_bytes (reappeared row),
      r_mtime_ns := r_mtime_ns (reappeared row)\<rparr> = reappeared row"
    by simp
  then have obs: "(reappeared row)\<lparr>r_size_bytes := en_size e, r_mtime_ns := en_mtime_ns e\<rparr> = reappeared row"
    using assms(2) by (simp add: same_stat_def)
  have step: "(if known_bytes e ?r then (?r, Uncounted, False) else read_file env e ?r) = (r, t, raised)"
    using assms(4) v by (simp add: reconcile_row_def Let_def obs)
  show ?thesis
  proof (cases "known_bytes e row")
    case True
    then have fp: "r_fingerprint row \<noteq> None" "known_bytes e ?r" by (simp_all add: known_bytes_def)
    then have "r = ?r" "\<not> raised" using step by auto
    with True fp assms(2,3) show ?thesis by (simp add: in_step_def same_stat_def)
  next
    case False
    moreover have "known_bytes e ?r = known_bytes e row" by (simp add: known_bytes_def)
    ultimately have "read_file env e ?r = (r, t, raised)" using step by simp
    with assms(1,2) show ?thesis
      by (auto simp: read_file_def quiet_def Let_def in_step_def same_stat_def known_bytes_def
          fresh_work_def changed_content_def [of _ "_\<lparr>r_fingerprint_mtime_ns := _\<rparr>"] split: if_splits)
  qed
qed

lemma reconcile_moved:
  assumes "quiet env e fp" and "\<not> same_stat e row"
    and "reconcile_row env e row = (r, t, raised)"
  shows "same_stat e r \<and> r_fingerprint r = r_fingerprint row \<and>
    (known_bytes e r \<longrightarrow> known_bytes e row)"
proof -
  have "r = hold_back ((reappeared row)\<lparr>r_size_bytes := en_size e, r_mtime_ns := en_mtime_ns e\<rparr>)"
    using assms by (auto simp: reconcile_row_def quiet_def verdict_stable same_stat_def Let_def)
  then show ?thesis by (simp add: same_stat_def known_bytes_def)
qed

text \<open>C35: a file that has stopped changing is caught up with in two scans. Where the row
  does not claim to know the present bytes under another digest, the row then holds the digest of the file's bytes and the \<^verbatim>\<open>stat\<close> they were read at, a row whose
  digest was another one is fresh work with every stage pending, and no later scan of the
  unchanged file reads it again or touches the row.\<close>

lemma caught_up_in_two_scans:
  assumes "quiet env1 e fp" and "quiet env2 e fp"
    and "known_bytes e row \<longrightarrow> r_fingerprint row = Some fp"
    and "reconcile_row env1 e row = (r1, t1, raised1)" and "reconcile_row env2 e r1 = (r2, t2, raised2)"
  shows "r_fingerprint r2 = Some fp \<and> known_bytes e r2 \<and> r_state r2 \<noteq> RSettling \<and>
    (r_fingerprint row \<noteq> Some fp \<longrightarrow> fresh_work r2) \<and>
    (stable_at env3 e \<longrightarrow> reconcile_row env3 e r2 = (r2, Uncounted, False))"
proof (cases "same_stat e row")
  case True
  have one: "in_step e r1" "r_fingerprint r1 = Some fp"
    "r_fingerprint row \<noteq> Some fp \<longrightarrow> fresh_work r1"
    using reconcile_settled [OF assms(1) True assms(3,4)] by auto
  have "r2 = r1"
    using reconcile_in_step [of env2 e r1] one(1) assms(2,5) by (simp add: quiet_def)
  with one reconcile_in_step [of env3 e r1] show ?thesis by (auto simp: in_step_def)
next
  case False
  have moved: "same_stat e r1" "r_fingerprint r1 = r_fingerprint row"
    "known_bytes e r1 \<longrightarrow> known_bytes e row"
    using reconcile_moved [OF assms(1) False assms(4)] by auto
  then have "known_bytes e r1 \<longrightarrow> r_fingerprint r1 = Some fp" using assms(3) by simp
  from reconcile_settled [OF assms(2) moved(1) this assms(5)] moved(2) reconcile_in_step [of env3 e r2]
  show ?thesis by (auto simp: in_step_def)
qed

definition sample_env :: scan_env where
  "sample_env =
     \<lparr>se_extensions = [''.ts''], se_settle_ns = 60, se_now_ns = 1000, se_now = 77,
      se_tz = (\<lambda>t. nv_second t), se_digest = (\<lambda>_. Some ''d2''), se_after = (\<lambda>_. Some (20, 500)),
      se_commit_error = (\<lambda>_. None)\<rparr>"

definition sample_entry :: entry where
  "sample_entry = \<lparr>en_rel = ''DCIM/a.ts'', en_name = ''a.ts'', en_size = 20, en_mtime_ns = 500\<rparr>"

text \<open>A completed recording whose file was replaced at another size.\<close>

definition replaced_recording :: recording where
  "replaced_recording =
     sample_recording\<lparr>r_state := RCompleted, r_fingerprint := Some ''d1'',
       r_fingerprint_size_bytes := Some 10, r_fingerprint_mtime_ns := Some 5\<rparr>"

lemma caught_up_in_two_scans_witness:
  "fresh_work (fst (reconcile_row sample_env sample_entry
     (fst (reconcile_row sample_env sample_entry replaced_recording))))"
proof -
  have q: "quiet sample_env sample_entry ''d2''"
    by (simp add: quiet_def stable_at_def sample_env_def sample_entry_def)
  have k: "\<not> known_bytes sample_entry replaced_recording" "r_fingerprint replaced_recording \<noteq> Some ''d2''"
    by (simp_all add: known_bytes_def replaced_recording_def sample_entry_def)
  obtain r1 t1 x1 where 1: "reconcile_row sample_env sample_entry replaced_recording = (r1, t1, x1)"
    by (metis prod_cases3)
  obtain r2 t2 x2 where 2: "reconcile_row sample_env sample_entry r1 = (r2, t2, x2)"
    by (metis prod_cases3)
  from caught_up_in_two_scans [OF q q _ 1 2] k 1 2 show ?thesis by simp
qed

subsection \<open>A batch\<close>

definition row_of :: "string \<Rightarrow> db \<Rightarrow> recording option" where
  "row_of rel d = List.find (\<lambda>r. r_rel_path r = rel) (db_recordings d)"

text \<open>Both keys of the index are unique.\<close>

definition indexed :: "db \<Rightarrow> bool" where
  "indexed d \<longleftrightarrow> keyed r_id (db_recordings d) \<and> distinct (List.map r_rel_path (db_recordings d))"

text \<open>What a batch may have made of the row of one of its files.\<close>

definition file_outcome :: "scan_env \<Rightarrow> entry \<Rightarrow> recording option \<Rightarrow> recording option \<Rightarrow> bool" where
  "file_outcome env e old new \<longleftrightarrow>
     (case old of
        None \<Rightarrow> new = None \<or>
          (\<exists>i cam st r t. add_file env e (first_sighting env e i cam st) = Some (r, t) \<and> new = Some r)
      | Some row \<Rightarrow>
          (let (r, t, raised) = reconcile_row env e row
           in new = Some (if \<not> raised \<and> r \<noteq> row then r\<lparr>r_last_scanned_at := Some (se_now env)\<rparr> else r)))"

lemma row_of_mem:
  "row_of rel d = Some r \<Longrightarrow> r \<in> set (db_recordings d) \<and> r_rel_path r = rel"
  by (auto simp: row_of_def find_Some_iff)

lemma row_of_iff:
  assumes "indexed d"
  shows "row_of rel d = Some r \<longleftrightarrow> r \<in> set (db_recordings d) \<and> r_rel_path r = rel"
proof
  assume r: "r \<in> set (db_recordings d) \<and> r_rel_path r = rel"
  then obtain r' where r': "row_of rel d = Some r'"
    by (cases "row_of rel d") (auto simp: row_of_def find_None_iff)
  with r row_of_mem [OF r'] assms have "r' = r"
    by (auto simp: indexed_def distinct_map dest: inj_onD)
  with r' show "row_of rel d = Some r" by simp
qed (rule row_of_mem)

lemma row_of_None: "row_of rel d = None \<longleftrightarrow> rel \<notin> r_rel_path ` set (db_recordings d)"
  by (auto simp: row_of_def find_None_iff)

lemma row_of_cong:
  assumes "indexed d" and "indexed d'"
    and "\<And>r. r_rel_path r = rel \<Longrightarrow> r \<in> set (db_recordings d') \<longleftrightarrow> r \<in> set (db_recordings d)"
  shows "row_of rel d' = row_of rel d"
  using assms(3) row_of_iff [OF assms(1), of rel] row_of_iff [OF assms(2), of rel]
  by (metis not_Some_eq)

lemma row_of_replace:
  assumes "indexed d" and "row_of rel d = Some row" and "r_id r' = r_id row" and "r_rel_path r' = rel"
  shows "indexed (db_update_recordings (\<lambda>x. r_id x = r_id row) (\<lambda>_. r') d)"
    and "row_of q (db_update_recordings (\<lambda>x. r_id x = r_id row) (\<lambda>_. r') d) =
      (if q = rel then Some r' else row_of q d)"
proof -
  let ?d = "db_update_recordings (\<lambda>x. r_id x = r_id row) (\<lambda>_. r') d"
  have row: "row \<in> set (db_recordings d)" "r_rel_path row = rel"
    using assms(1,2) by (simp_all add: row_of_iff)
  have only: "x = row" if "x \<in> set (db_recordings d)" "r_id x = r_id row" for x
    by (rule keyed_inj [OF _ that(1) row(1) that(2)]) (use assms(1) in \<open>simp add: indexed_def\<close>)
  have eq: "db_recordings ?d = List.map (\<lambda>x. if x = row then r' else x) (db_recordings d)"
    using only by (auto simp: update_where_def)
  have ids: "List.map r_id (db_recordings ?d) = List.map r_id (db_recordings d)"
    "List.map r_rel_path (db_recordings ?d) = List.map r_rel_path (db_recordings d)"
    unfolding eq List.map_map by (rule map_cong; use assms(3,4) row in simp)+
  show ix: "indexed ?d"
    using assms(1) ids by (simp add: indexed_def keyed_def)
  show "row_of q ?d = (if q = rel then Some r' else row_of q d)"
  proof (cases "q = rel")
    case True
    have "r' \<in> set (db_recordings ?d)" unfolding eq using row(1) by (auto simp: image_iff)
    with True show ?thesis using assms(4) row_of_iff [OF ix] by simp
  next
    case False
    have "r \<in> set (db_recordings ?d) \<longleftrightarrow> r \<in> set (db_recordings d)" if "r_rel_path r = q" for r
      unfolding eq using that False row assms(4) by (auto simp: image_iff)
    then have "row_of q ?d = row_of q d" by (rule row_of_cong [OF assms(1) ix])
    with False show ?thesis by simp
  qed
qed

lemma row_of_add:
  assumes "indexed d" and "row_of (r_rel_path r) d = None" and "r_id r = next_id r_id (db_recordings d)"
    and "d' = d\<lparr>db_recordings := db_recordings d @ [r]\<rparr>"
  shows "indexed d'" and "row_of q d' = (if q = r_rel_path r then Some r else row_of q d)"
proof -
  show ix: "indexed d'"
    using assms next_id_notin [of r_id "db_recordings d"]
    by (auto simp: indexed_def row_of_None)
  show "row_of q d' = (if q = r_rel_path r then Some r else row_of q d)"
  proof (cases "q = r_rel_path r")
    case True
    then show ?thesis using row_of_iff [OF ix] assms(4) by simp
  next
    case False
    have "row_of q d' = row_of q d"
      by (rule row_of_cong [OF assms(1) ix]) (use False assms(4) in auto)
    with False show ?thesis by simp
  qed
qed

lemma add_file_identity:
  assumes "add_file env e (first_sighting env e i cam st) = Some (r, t)"
  shows "r_id r = i \<and> r_rel_path r = en_rel e"
  using assms
  by (auto simp: add_file_def first_sighting_def split: verdict.splits option.splits if_splits)

lemma process_entry_outcome:
  assumes ix: "indexed (ct_db c)"
    and find: "List.find (\<lambda>r. r_rel_path r = en_rel e) existing = row_of (en_rel e) (ct_db c)"
    and step: "process_entry env existing e (c, s) = (c', s')"
  shows "indexed (ct_db c') \<and>
    file_outcome env e (row_of (en_rel e) (ct_db c)) (row_of (en_rel e) (ct_db c')) \<and>
    (\<forall>q. q \<noteq> en_rel e \<longrightarrow> row_of q (ct_db c') = row_of q (ct_db c)) \<and>
    db_jobs (ct_db c') = db_jobs (ct_db c)"
proof (cases "row_of (en_rel e) (ct_db c)")
  case None
  let ?d = "ct_db c"
  obtain cam cams where cc: "(case parse_recording_name (en_name e) of None \<Rightarrow> (None, ct_cameras c)
      | Some p \<Rightarrow> map_prod Some id (resolve_camera (pn_camera_key p) (ct_cameras c))) = (cam, cams)"
    by (metis surj_pair)
  define i where "i = next_id r_id (db_recordings ?d)"
  define st where "st = map_option (\<lambda>p. se_tz env (pn_started_at p)) (parse_recording_name (en_name e))"
  define new where "new = add_file env e (first_sighting env e i cam st)"
  have db: "ct_db c' = (case new of None \<Rightarrow> ?d
      | Some (r, t) \<Rightarrow> ?d\<lparr>db_recordings := db_recordings ?d @ [r]\<rparr>)"
    using step find None cc
    by (auto simp: process_entry_def add_new_def Let_def on_cat_db_def i_def st_def new_def
        split: option.splits)
  show ?thesis
  proof (cases new)
    case None
    with db ix \<open>row_of (en_rel e) ?d = None\<close> show ?thesis by (simp add: file_outcome_def)
  next
    case (Some rt)
    then obtain r t where rt: "new = Some (r, t)" by (cases rt) simp
    then have id: "r_id r = i" "r_rel_path r = en_rel e"
      using add_file_identity unfolding new_def by blast+
    have d': "ct_db c' = ?d\<lparr>db_recordings := db_recordings ?d @ [r]\<rparr>" using db rt by simp
    have fresh: "row_of (r_rel_path r) ?d = None" "r_id r = next_id r_id (db_recordings ?d)"
      using None id by (simp_all add: i_def)
    have "row_of (en_rel e) (ct_db c') = Some r"
      using row_of_add(2) [OF ix fresh d', of "en_rel e"] id(2) by simp
    moreover have "file_outcome env e None (Some r)"
      using rt unfolding file_outcome_def new_def by auto
    ultimately show ?thesis
      using row_of_add [OF ix fresh d'] None id(2) d' by simp
  qed
next
  case (Some row)
  obtain r t raised where r: "reconcile_row env e row = (r, t, raised)" by (metis prod_cases3)
  define r' where "r' = (if \<not> raised \<and> r \<noteq> row then r\<lparr>r_last_scanned_at := Some (se_now env)\<rparr> else r)"
  have rel: "r_rel_path row = en_rel e" using Some ix by (simp add: row_of_iff)
  have r': "r_id r' = r_id row" "r_rel_path r' = en_rel e"
    using reconcile_identity [OF r] rel by (simp_all add: r'_def)
  have db: "ct_db c' = db_update_recordings (\<lambda>x. r_id x = r_id row) (\<lambda>_. r') (ct_db c)"
    using step find Some r
    by (auto simp: process_entry_def update_known_def on_cat_db_def r'_def Let_def)
  show ?thesis
    using row_of_replace [OF ix Some r'] Some r by (simp add: db file_outcome_def r'_def)
qed

lemma fold_entries_outcome:
  assumes "distinct (List.map en_rel es)" and "indexed (ct_db c)"
    and "\<forall>e \<in> set es. List.find (\<lambda>r. r_rel_path r = en_rel e) existing = row_of (en_rel e) (ct_db c)"
    and "fold (process_entry env existing) es (c, s) = (c', s')"
  shows "indexed (ct_db c') \<and>
    (\<forall>e \<in> set es. file_outcome env e (row_of (en_rel e) (ct_db c)) (row_of (en_rel e) (ct_db c'))) \<and>
    (\<forall>q. q \<notin> set (List.map en_rel es) \<longrightarrow> row_of q (ct_db c') = row_of q (ct_db c)) \<and>
    db_jobs (ct_db c') = db_jobs (ct_db c)"
  using assms
proof (induction es arbitrary: c s)
  case (Cons e es)
  obtain c1 s1 where one: "process_entry env existing e (c, s) = (c1, s1)" by (metis surj_pair)
  from process_entry_outcome [OF Cons.prems(2) _ one] Cons.prems(3)
  have first: "indexed (ct_db c1)"
    "file_outcome env e (row_of (en_rel e) (ct_db c)) (row_of (en_rel e) (ct_db c1))"
    "\<forall>q. q \<noteq> en_rel e \<longrightarrow> row_of q (ct_db c1) = row_of q (ct_db c)"
    "db_jobs (ct_db c1) = db_jobs (ct_db c)"
    by auto
  have apart: "en_rel x \<noteq> en_rel e" if "x \<in> set es" for x using that Cons.prems(1) by (auto simp: image_iff)
  have "\<forall>x \<in> set es. List.find (\<lambda>r. r_rel_path r = en_rel x) existing = row_of (en_rel x) (ct_db c1)"
    using Cons.prems(3) first(3) apart by simp
  from Cons.IH [OF _ first(1) this] Cons.prems(1,4) one
  have rest: "indexed (ct_db c')"
    "\<forall>x \<in> set es. file_outcome env x (row_of (en_rel x) (ct_db c1)) (row_of (en_rel x) (ct_db c'))"
    "\<forall>q. q \<notin> set (List.map en_rel es) \<longrightarrow> row_of q (ct_db c') = row_of q (ct_db c1)"
    "db_jobs (ct_db c') = db_jobs (ct_db c1)"
    by auto
  moreover have "row_of (en_rel e) (ct_db c') = row_of (en_rel e) (ct_db c1)"
    using rest(3) Cons.prems(1) by auto
  ultimately show ?case using first apart by auto
qed simp

lemma find_filter: "(\<And>x. P x \<Longrightarrow> Q x) \<Longrightarrow> List.find P (filter Q xs) = List.find P xs"
  by (induction xs) auto

lemma process_batch_outcome:
  assumes "distinct (List.map en_rel batch)" and "indexed (ct_db c)"
    and "process_batch env batch (c, s) = (c', s')"
  shows "indexed (ct_db c') \<and>
    (\<forall>e \<in> set batch. file_outcome env e (row_of (en_rel e) (ct_db c)) (row_of (en_rel e) (ct_db c'))) \<and>
    (\<forall>q. q \<notin> set (List.map en_rel batch) \<longrightarrow> row_of q (ct_db c') = row_of q (ct_db c)) \<and>
    db_jobs (ct_db c') = db_jobs (ct_db c)"
proof (rule fold_entries_outcome [OF assms(1,2)])
  show "fold (process_entry env (existing_rows batch (ct_db c))) batch (c, s) = (c', s')"
    using assms(3) by (simp add: process_batch_def)
  show "\<forall>e \<in> set batch. List.find (\<lambda>r. r_rel_path r = en_rel e) (existing_rows batch (ct_db c)) =
      row_of (en_rel e) (ct_db c)"
    by (simp add: existing_rows_def row_of_def find_filter)
qed

lemma file_outcome_ready:
  assumes "file_outcome env e old (Some r)" and "r_state r \<in> set QUEUEABLE_STATES"
    and "r_fingerprint r \<noteq> None"
  shows "verdict_of env e old = Ready"
proof (cases old)
  case None
  with assms add_file_ready show ?thesis by (auto simp: file_outcome_def)
next
  case (Some row)
  obtain r0 t raised where r0: "reconcile_row env e row = (r0, t, raised)" by (metis prod_cases3)
  with assms(1) Some have "r_state r = r_state r0" "r_fingerprint r = r_fingerprint r0"
    by (auto simp: file_outcome_def split: if_splits)
  with reconcile_ready [OF r0] assms(2,3) Some show ?thesis by simp
qed

subsection \<open>The queue after a scan\<close>

lemma queue_one_sel [simp]:
  "db_jobs (queue_one now r d) = db_jobs d @ [scan_job now r d]"
  by (simp add: queue_one_def)

lemma scan_job_sel [simp]:
  "j_recording_id (scan_job now r d) = Some (r_id r)" "j_state (scan_job now r d) = JQueued"
  "j_kind (scan_job now r d) = KProcess" "j_priority (scan_job now r d) = NEW_FOOTAGE_PRIORITY"
  by (simp_all add: scan_job_def new_job_def)

lemma fold_queue_one:
  "\<exists>extra. db_jobs (fold (queue_one now) rs d) = db_jobs d @ extra \<and>
    List.map j_recording_id extra = List.map (\<lambda>r. Some (r_id r)) rs"
proof (induction rs arbitrary: d)
  case (Cons r rs)
  from Cons.IH [of "queue_one now r d"] obtain extra
    where "db_jobs (fold (queue_one now) rs (queue_one now r d)) =
        (db_jobs d @ [scan_job now r d]) @ extra"
      "List.map j_recording_id extra = List.map (\<lambda>r. Some (r_id r)) rs"
    by auto
  then show ?case by (intro exI [of _ "scan_job now r d # extra"]) simp
qed simp

lemma promote_sel [simp]:
  "db_recordings (promote_new_footage d) = db_recordings d"
  "List.map j_id (db_jobs (promote_new_footage d)) = List.map j_id (db_jobs d)"
  by (simp_all add: promote_new_footage_def)

lemma queue_unprocessed_jobs:
  assumes "queue_unprocessed now limit d = (n, d')"
  obtains extra chosen where "db_jobs d' = db_jobs (promote_new_footage d) @ extra"
    and "List.map j_recording_id extra = List.map (\<lambda>r. Some (r_id r)) chosen"
    and "length chosen = n"
    and "\<forall>r \<in> set chosen. r \<in> set (db_recordings d) \<and> unprocessed (promote_new_footage d) r"
proof -
  let ?rows = "sort_key newest_key (filter (unprocessed (promote_new_footage d)) (db_recordings d))"
  define chosen where "chosen = (case limit of None \<Rightarrow> ?rows | Some k \<Rightarrow> take k ?rows)"
  have res: "length chosen = n" "d' = fold (queue_one now) chosen (promote_new_footage d)"
    using assms unfolding queue_unprocessed_def Let_def promote_sel(1) chosen_def [symmetric]
    by simp_all
  obtain extra where ex: "db_jobs d' = db_jobs (promote_new_footage d) @ extra"
    "List.map j_recording_id extra = List.map (\<lambda>r. Some (r_id r)) chosen"
    using fold_queue_one [of now chosen "promote_new_footage d"] res(2) by blast
  have "set chosen \<subseteq> set ?rows"
    using set_take_subset by (fastforce simp: chosen_def split: option.splits)
  then have "\<forall>r \<in> set chosen. r \<in> set (db_recordings d) \<and> unprocessed (promote_new_footage d) r"
    by auto
  from that [OF ex res(1) this] show thesis .
qed

lemma evolves_promote: "evolves d (promote_new_footage d)"
  unfolding promote_new_footage_def
  by (rule evolves_update_jobs) (auto simp: job_evolves_def job_ok_def)

lemma evolves_queue_one: "evolves d (queue_one now r d)"
proof -
  have "evolves d (insert_job (scan_job now r d) d)"
    by (rule evolves_insert_job) (simp_all add: scan_job_def new_job_def job_ok_def)
  then show ?thesis
    by (auto simp: queue_one_def insert_job_def intro: evolves_trans)
qed

lemma evolves_queue_unprocessed: "evolves d (snd (queue_unprocessed now limit d))"
  unfolding queue_unprocessed_def Let_def snd_conv
  by (rule evolves_trans [OF evolves_promote evolves_fold]) (rule evolves_queue_one)

subsection \<open>Nothing is missing until the view can be trusted\<close>

definition found_paths :: "walk_event list \<Rightarrow> string list" where
  "found_paths evs = concat (List.map (\<lambda>ev. case ev of Found e \<Rightarrow> [en_rel e] | Failed _ \<Rightarrow> []) evs)"

definition failed_dirs :: "walk_event list \<Rightarrow> string list" where
  "failed_dirs evs = concat (List.map (\<lambda>ev. case ev of Found _ \<Rightarrow> [] | Failed p \<Rightarrow> [p]) evs)"

lemma pull_paths:
  "pull n evs = (es, fs, rest) \<Longrightarrow>
    found_paths evs = List.map en_rel es @ found_paths rest \<and> failed_dirs evs = fs @ failed_dirs rest"
  by (induction n evs arbitrary: es fs rule: pull.induct)
    (auto simp: found_paths_def failed_dirs_def split: prod.splits)

lemma pull_none: "pull (Suc n) evs = ([], fs, rest) \<Longrightarrow> rest = []"
  by (induction evs arbitrary: fs) (auto split: walk_event.splits prod.splits elim!: pull.elims)

lemma tally_up_sel [simp]:
  "sm_errors (tally_up t s) = sm_errors s" "sm_seen (tally_up t s) = sm_seen s"
  by (cases t; simp)+

lemma process_entry_counts:
  "sm_seen (snd (process_entry env ex e cs)) = sm_seen (snd cs) \<and>
   sm_errors (snd cs) \<le> sm_errors (snd (process_entry env ex e cs))"
  by (cases cs)
    (auto simp: process_entry_def add_new_def update_known_def raise_error_def Let_def
      split: option.splits prod.splits)

lemma fold_entry_counts:
  "sm_seen (snd (fold (process_entry env ex) es cs)) = sm_seen (snd cs) \<and>
   sm_errors (snd cs) \<le> sm_errors (snd (fold (process_entry env ex) es cs))"
proof (induction es arbitrary: cs)
  case (Cons e es)
  from Cons [of "process_entry env ex e cs"] process_entry_counts [of env ex e cs]
  show ?case by simp
qed simp

text \<open>A walk that ran to its end without an error saw everything there was.\<close>

lemma scan_loop_clean:
  assumes "scan_loop env k evs (c, s, paths, failed) = (c', s', paths', failed')"
    and "sm_errors s' = 0"
  shows "paths' = paths @ found_paths evs \<and> failed' = failed @ failed_dirs evs \<and>
    sm_seen s' = sm_seen s + length (found_paths evs)"
  using assms
proof (induction env k evs "(c, s, paths, failed)" arbitrary: c s paths failed rule: scan_loop.induct)
  case (1 env k evs c s paths failed)
  obtain es fs rest where p: "pull BATCH_SIZE evs = (es, fs, rest)" by (metis prod_cases3)
  note paths = pull_paths [OF p]
  show ?case
  proof (cases es)
    case Nil
    with p have "rest = []" by (auto simp: BATCH_SIZE_def intro: pull_none [of 199])
    with p Nil paths 1(2) show ?thesis
      by (subst (asm) scan_loop.simps) (auto simp: found_paths_def failed_dirs_def)
  next
    case (Cons e es')
    define s1 where "s1 = s\<lparr>sm_seen := sm_seen s + length (e # es')\<rparr>"
    obtain c2 s2 where b: "process_batch env (e # es') (c, s1) = (c2, s2)" by (metis surj_pair)
    have seen2: "sm_seen s2 = sm_seen s + length (e # es')"
      using fold_entry_counts [of env "existing_rows (e # es') (ct_db c)" "e # es'" "(c, s1)"] b
      by (simp add: process_batch_def s1_def)
    show ?thesis
    proof (cases "se_commit_error env k")
      case None
      have next_batch: "scan_loop env (Suc k) rest (c2, s2, paths @ List.map en_rel (e # es'), failed @ fs) =
          (c', s', paths', failed')"
        using 1(2) p Cons None
        by (subst (asm) scan_loop.simps) (simp add: Let_def b [unfolded s1_def, simplified])
      have "paths' = (paths @ List.map en_rel (e # es')) @ found_paths rest \<and>
          failed' = (failed @ fs) @ failed_dirs rest \<and>
          sm_seen s' = sm_seen s2 + length (found_paths rest)"
        by (rule 1(1) [of es "(fs, rest)" e es' fs rest "e # es'" s1 "(c2, s2)" c2 s2])
          (use p Cons b None next_batch 1(3) in \<open>simp_all add: s1_def\<close>)
      then show ?thesis using paths Cons seen2 by simp
    next
      case (Some m)
      with 1(2,3) p Cons b show ?thesis
        by (subst (asm) scan_loop.simps) (auto simp: Let_def s1_def)
    qed
  qed
qed

lemma mark_missing_row:
  assumes "keyed r_id (db_recordings d)" and "r \<in> set (db_recordings d)"
    and "mark_missing now paths d = (n, d')"
  shows "get_recording (r_id r) d' =
    Some (if absent paths r then r\<lparr>r_file_missing := True, r_deleted_at := Some now\<rparr> else r)"
  using assms get_row_mem [OF assms(1,2)]
  by (auto simp: mark_missing_def get_row_update_where)

text \<open>C36: nothing is marked missing on a view with a counted gap. A recording is marked missing only by
  a scan in which the listing of every directory it entered came to its end, no error was counted, at
  least half as many files were seen as the index holds, and this file was not among them. So an
  unmounted or empty share, or one with an unreadable directory, marks nothing. Not excluded is an
  entry whose own inspection fails: the walk skips it without counting an error, as the code does,
  and its file is then not seen (\<open>unreadable_entry_marked_missing\<close>).\<close>

lemma missing_needs_trusted_view:
  assumes "scan_loop env 0 evs (c, s, [], []) = (c1, s1, paths, failed)" and "sm_seen s = 0"
    and "keyed r_id (db_recordings (ct_db c1))"
    and "conclude_absences reason_text now (c1, s1, paths, failed) = (c2, s2)"
    and "r \<in> set (db_recordings (ct_db c1))" and "\<not> r_file_missing r"
    and "get_recording (r_id r) (ct_db c2) = Some r'" and "r_file_missing r'"
  shows "failed_dirs evs = [] \<and> sm_errors s1 = 0 \<and> r_rel_path r \<notin> set (found_paths evs) \<and>
    0 < length (found_paths evs) \<and> listed_count (ct_db c1) \<le> 2 * length (found_paths evs)"
proof -
  let ?s = "s1\<lparr>sm_errors := sm_errors s1 + length failed\<rparr>"
  have unblocked: "reconciliation_blocked ?s (ct_db c1) = None"
  proof (rule ccontr)
    assume "reconciliation_blocked ?s (ct_db c1) \<noteq> None"
    then have "c2 = c1" using assms(4) by (auto simp: conclude_absences_def Let_def)
    with assms(5-8) get_row_mem [OF assms(3,5)] show False by simp
  qed
  have "listed_count (ct_db c1) \<noteq> 0"
    using assms(5,6) by (auto simp: listed_count_def filter_empty_conv)
  with unblocked have ok: "sm_errors s1 = 0" "failed = []" "sm_seen s1 \<noteq> 0"
    "\<not> real (sm_seen s1) < real (listed_count (ct_db c1)) * DISK_VS_INDEX_MIN_RATIO"
    by (auto simp: reconciliation_blocked_def Let_def split: if_splits)
  note clean = scan_loop_clean [OF assms(1) ok(1)]
  obtain n d where m: "mark_missing now paths (ct_db c1) = (n, d)" by (metis surj_pair)
  then have "ct_db c2 = d" using assms(4) unblocked by (auto simp: conclude_absences_def Let_def)
  with mark_missing_row [OF assms(3,5) m] assms(6-8) have "absent paths r"
    by (auto split: if_splits)
  with clean ok assms(2) show ?thesis
    by (auto simp: absent_def DISK_VS_INDEX_MIN_RATIO_def not_less)
qed

text \<open>
  Two indexed recordings; one is listed, the inspection of the other raises. The walk leaves no
  trace of the second, so the scan counts no error and takes the file for deleted.
\<close>

definition sample_tree :: "dir_item list" where
  "sample_tree = [Subdir ''DCIM'' [RegularFile ''a.ts'' 20 500, Unreadable ''gone.ts''] True]"

definition known_recording :: recording where
  "known_recording =
     sample_recording\<lparr>r_state := RCompleted, r_size_bytes := 20, r_mtime_ns := 500,
       r_fingerprint := Some ''d2'', r_fingerprint_size_bytes := Some 20,
       r_fingerprint_mtime_ns := Some 500\<rparr>"

definition unseen_recording :: recording where
  "unseen_recording = sample_recording\<lparr>r_id := 8, r_rel_path := ''DCIM/gone.ts''\<rparr>"

definition sample_index :: db where
  "sample_index = \<lparr>db_recordings = [known_recording, unseen_recording], db_jobs = [], db_journeys = []\<rparr>"

definition sample_catalogue :: catalogue where
  "sample_catalogue = \<lparr>ct_db = sample_index, ct_cameras = [], ct_runs = []\<rparr>"

lemma sample_rows:
  "r_rel_path known_recording = ''DCIM/a.ts''" "r_rel_path unseen_recording = ''DCIM/gone.ts''"
  "r_id known_recording = 7" "r_id unseen_recording = 8"
  "\<not> r_file_missing known_recording" "\<not> r_file_missing unseen_recording"
  "en_rel sample_entry = ''DCIM/a.ts''" "db_recordings sample_index = [known_recording, unseen_recording]"
  "ct_db sample_catalogue = sample_index"
  by (simp_all add: known_recording_def unseen_recording_def sample_recording_def sample_entry_def
      sample_index_def sample_catalogue_def)

lemma sample_walk: "walk_tree [''.ts''] sample_tree True = [Found sample_entry]"
proof -
  have "is_media [''.ts''] ''a.ts''" "\<not> starts_with ''.'' ''DCIM''" by code_simp+
  then show ?thesis
    by (simp add: walk_tree_def sample_tree_def under_def sample_entry_def)
qed

lemma pull_Nil: "pull n [] = ([], [], [])"
  by (cases n) simp_all

lemma sample_batch:
  "process_batch sample_env [sample_entry] (sample_catalogue, s) = (sample_catalogue, s)"
proof -
  have r: "reconcile_row sample_env sample_entry known_recording = (known_recording, Uncounted, False)"
    by (rule reconcile_in_step)
      (simp_all add: stable_at_def in_step_def known_bytes_def sample_env_def sample_entry_def
        known_recording_def sample_recording_def)
  have "db_update_recordings (\<lambda>x. r_id x = 7) (\<lambda>_. known_recording) sample_index = sample_index"
    using sample_rows by (simp add: db_update_recordings_def sample_index_def update_where_def)
  with r sample_rows show ?thesis
    by (simp add: process_batch_def existing_rows_def process_entry_def update_known_def on_cat_db_def)
qed

lemma sample_scan:
  "scan_loop sample_env 0 [Found sample_entry] (sample_catalogue, new_summary, [], []) =
    (sample_catalogue, new_summary\<lparr>sm_seen := 1\<rparr>, [''DCIM/a.ts''], [])"
proof -
  have p: "pull BATCH_SIZE [Found sample_entry] = ([sample_entry], [], [])"
    using pull.simps(3) [of 199 sample_entry "[]"] by (simp add: BATCH_SIZE_def pull_Nil)
  have e: "se_commit_error sample_env k = None" "sm_seen new_summary = 0" for k
    by (simp_all add: sample_env_def new_summary_def)
  show ?thesis
    by (subst scan_loop.simps)
      (simp add: p sample_batch e pull_Nil scan_loop.simps [of _ _ "[]"] sample_rows)
qed

lemma unreadable_entry_marked_missing:
  assumes "conclude_absences reason_text now
     (scan_loop sample_env 0 (walk_tree [''.ts''] sample_tree True)
        (sample_catalogue, new_summary, [], [])) = (c, s)"
  shows "sm_errors s = 0 \<and> sm_missing s = 1 \<and>
    get_recording 8 (ct_db c) = Some (unseen_recording\<lparr>r_file_missing := True, r_deleted_at := Some now\<rparr>)"
proof -
  have s0: "sm_errors new_summary = 0" by (simp add: new_summary_def)
  have "reconciliation_blocked (new_summary\<lparr>sm_seen := 1, sm_errors := 0\<rparr>) sample_index = None"
    using sample_rows
    by (simp add: reconciliation_blocked_def listed_count_def DISK_VS_INDEX_MIN_RATIO_def)
  with assms s0 sample_rows show ?thesis
    by (auto simp: sample_walk sample_scan conclude_absences_def mark_missing_def absent_def
        get_row_def update_where_def)
qed

lemma missing_needs_trusted_view_witness:
  "failed_dirs [Found sample_entry] = [] \<and> listed_count sample_index \<le> 2"
proof -
  let ?p = "(sample_catalogue, new_summary\<lparr>sm_seen := 1\<rparr>, [''DCIM/a.ts''], [])"
  obtain c s where fin: "conclude_absences (\<lambda>_. []) 9 ?p = (c, s)" by (metis surj_pair)
  have gone: "get_recording 8 (ct_db c) =
      Some (unseen_recording\<lparr>r_file_missing := True, r_deleted_at := Some 9\<rparr>)"
    using unreadable_entry_marked_missing [of "\<lambda>_. []" 9 c s] fin by (simp add: sample_walk sample_scan)
  have k: "keyed r_id (db_recordings (ct_db sample_catalogue))"
    "unseen_recording \<in> set (db_recordings (ct_db sample_catalogue))"
    using sample_rows by (simp_all add: keyed_def)
  have "sm_seen new_summary = 0" by (simp add: new_summary_def)
  from missing_needs_trusted_view [OF sample_scan this k(1) fin k(2)] sample_rows gone
  show ?thesis by (simp add: found_paths_def)
qed

subsection \<open>A whole scan and the queue\<close>

definition found_entries :: "walk_event list \<Rightarrow> entry list" where
  "found_entries evs = List.map_filter (\<lambda>ev. case ev of Found e \<Rightarrow> Some e | Failed _ \<Rightarrow> None) evs"

lemma pull_entries:
  "pull n evs = (es, fs, rest) \<Longrightarrow> found_entries evs = es @ found_entries rest"
  by (induction n evs arbitrary: es fs rule: pull.induct)
    (auto simp: found_entries_def List.map_filter_simps split: prod.splits)

lemma found_paths_entries: "found_paths evs = List.map en_rel (found_entries evs)"
  by (induction evs) (auto simp: found_paths_def found_entries_def List.map_filter_simps split: walk_event.split)

lemma scan_loop_outcome:
  assumes "scan_loop env k evs (c, s, paths, failed) = (c', s', paths', failed')"
    and "\<forall>n. se_commit_error env n = None" and "distinct (found_paths evs)" and "indexed (ct_db c)"
  shows "indexed (ct_db c') \<and> db_jobs (ct_db c') = db_jobs (ct_db c) \<and>
    (\<forall>e \<in> set (found_entries evs).
       file_outcome env e (row_of (en_rel e) (ct_db c)) (row_of (en_rel e) (ct_db c'))) \<and>
    (\<forall>q. q \<notin> set (found_paths evs) \<longrightarrow> row_of q (ct_db c') = row_of q (ct_db c))"
  using assms
proof (induction env k evs "(c, s, paths, failed)" arbitrary: c s paths failed rule: scan_loop.induct)
  case (1 env k evs c s paths failed)
  obtain es fs rest where p: "pull BATCH_SIZE evs = (es, fs, rest)" by (metis prod_cases3)
  note split = pull_entries [OF p]
  show ?case
  proof (cases es)
    case Nil
    with p have "rest = []" by (auto simp: BATCH_SIZE_def intro: pull_none [of 199])
    with p Nil 1(2,5) split show ?thesis
      by (subst (asm) scan_loop.simps) (auto simp: found_entries_def List.map_filter_simps)
  next
    case (Cons e es')
    define s1 where "s1 = s\<lparr>sm_seen := sm_seen s + length (e # es')\<rparr>"
    obtain c2 s2 where b: "process_batch env (e # es') (c, s1) = (c2, s2)" by (metis surj_pair)
    have none: "se_commit_error env k = None" using 1(3) by blast
    have next_batch: "scan_loop env (Suc k) rest (c2, s2, paths @ List.map en_rel (e # es'), failed @ fs) =
        (c', s', paths', failed')"
      using 1(2) p Cons none
      by (subst (asm) scan_loop.simps) (simp add: Let_def b [unfolded s1_def, simplified])
    have apart: "distinct (List.map en_rel (e # es'))" "distinct (found_paths rest)"
      "set (List.map en_rel (e # es')) \<inter> set (found_paths rest) = {}"
      using 1(4) split Cons by (auto simp: found_paths_entries)
    note batch = process_batch_outcome [OF apart(1) 1(5) b]
    have rest: "indexed (ct_db c') \<and> db_jobs (ct_db c') = db_jobs (ct_db c2) \<and>
        (\<forall>e \<in> set (found_entries rest).
           file_outcome env e (row_of (en_rel e) (ct_db c2)) (row_of (en_rel e) (ct_db c'))) \<and>
        (\<forall>q. q \<notin> set (found_paths rest) \<longrightarrow> row_of q (ct_db c') = row_of q (ct_db c2))"
      by (rule 1(1) [of es "(fs, rest)" e es' fs rest "e # es'" s1 "(c2, s2)" c2 s2])
        (use p Cons b none next_batch 1(3) apart(2) batch in \<open>simp_all add: s1_def\<close>)
    have all: "found_entries evs = (e # es') @ found_entries rest" using split Cons by simp
    have "file_outcome env x (row_of (en_rel x) (ct_db c)) (row_of (en_rel x) (ct_db c'))"
      if x: "x \<in> set (found_entries evs)" for x
    proof (cases "x \<in> set (e # es')")
      case True
      then have "en_rel x \<notin> set (found_paths rest)" using apart(3) by auto
      then have "row_of (en_rel x) (ct_db c') = row_of (en_rel x) (ct_db c2)" using rest by blast
      with True batch show ?thesis by metis
    next
      case False
      then have rx: "x \<in> set (found_entries rest)" using x all by auto
      then have "en_rel x \<in> set (found_paths rest)" by (simp add: found_paths_entries)
      then have "en_rel x \<notin> set (List.map en_rel (e # es'))" using apart(3) by blast
      then have "row_of (en_rel x) (ct_db c2) = row_of (en_rel x) (ct_db c)" using batch by blast
      with rest rx show ?thesis by metis
    qed
    moreover have "row_of q (ct_db c') = row_of q (ct_db c)" if "q \<notin> set (found_paths evs)" for q
    proof -
      have "q \<notin> set (found_paths rest)" "q \<notin> set (List.map en_rel (e # es'))"
        using that all by (auto simp: found_paths_entries)
      with rest batch show ?thesis by metis
    qed
    ultimately show ?thesis using rest batch by metis
  qed
qed

text \<open>What the end of a scan may change of a row that counts here: the policy may bring a row back
  from the state IGNORED, which only its own marker allows.\<close>

definition policy_note :: "recording \<Rightarrow> bool" where
  "policy_note r \<longleftrightarrow> (\<exists>p. dict_get POLICY_KEY (probe_of r) = Some (JObj p))"

definition carried :: "recording \<Rightarrow> recording \<Rightarrow> bool" where
  "carried r r' \<longleftrightarrow>
     r_id r' = r_id r \<and> r_rel_path r' = r_rel_path r \<and> r_fingerprint r' = r_fingerprint r \<and>
     (r_state r' = r_state r \<or> r_state r' = RDeleted \<or> r_state r = RIgnored \<and> policy_note r)"

lemma carried_refl [simp]: "carried r r"
  by (simp add: carried_def)

lemma restore_carried: "carried r (snd (restore_policy_hidden shown r))"
  by (auto simp: restore_policy_hidden_def carried_def policy_note_def Let_def split: option.split json.split)

lemma hide_carried: "carried r (hide shown moment status detail r)"
  by (simp add: hide_def with_policy_def carried_def)

lemma apply_policy_carried:
  assumes "apply_damaged_policy penv action rep r fs = (k, r', fs')"
  shows "carried r r'"
proof -
  have "carried r (deleted_row shown now moment r)" for shown now moment
    by (simp add: deleted_row_def with_policy_def carried_def)
  with assms restore_carried hide_carried show ?thesis
    by (auto simp: apply_damaged_policy_def keep_or_restore_def delete_damaged_def delete_blocked_def
        case_prod_unfold Let_def split: if_splits sum.splits option.splits)
qed

lemma apply_all_rows:
  assumes "apply_all penv action rep rs (s, d, fs) = (s', d', fs')"
  shows "set (db_recordings d') \<subseteq> set (db_recordings d) \<union> {r'. \<exists>r \<in> set rs. carried r r'}"
    and "List.map r_id (db_recordings d') = List.map r_id (db_recordings d)" and "db_jobs d' = db_jobs d"
proof -
  have "set (db_recordings d') \<subseteq> set (db_recordings d) \<union> {r'. \<exists>r \<in> set rs. carried r r'} \<and>
      List.map r_id (db_recordings d') = List.map r_id (db_recordings d) \<and> db_jobs d' = db_jobs d"
    using assms
  proof (induction rs arbitrary: s d fs)
    case (Cons r rs)
    obtain k r1 fs1 where one: "apply_damaged_policy penv action rep r fs = (k, r1, fs1)" by (metis prod_cases3)
    note c = apply_policy_carried [OF one]
    let ?d = "db_update_recordings (\<lambda>x. r_id x = r_id r) (\<lambda>_. r1) d"
    have "apply_all penv action rep rs (count_outcome k s, ?d, fs1) = (s', d', fs')" using Cons.prems one by simp
    note rest = Cons.IH [OF this]
    have "set (db_recordings ?d) \<subseteq> set (db_recordings d) \<union> {r1}" by (auto simp: set_update_where)
    moreover have "List.map r_id (db_recordings ?d) = List.map r_id (db_recordings d)"
      using c by (auto simp: update_where_def carried_def)
    ultimately show ?case using rest c by auto
  qed simp
  then show "set (db_recordings d') \<subseteq> set (db_recordings d) \<union> {r'. \<exists>r \<in> set rs. carried r r'}"
    "List.map r_id (db_recordings d') = List.map r_id (db_recordings d)" "db_jobs d' = db_jobs d" by blast+
qed

lemma apply_known_rows:
  assumes "apply_known_damaged_policy penv action rep d fs = (s', d', fs')"
  shows "\<forall>r' \<in> set (db_recordings d'). \<exists>r \<in> set (db_recordings d). carried r r'"
    and "List.map r_id (db_recordings d') = List.map r_id (db_recordings d)" and "db_jobs d' = db_jobs d"
proof -
  note rows = apply_all_rows [OF assms [unfolded apply_known_damaged_policy_def]]
  show "\<forall>r' \<in> set (db_recordings d'). \<exists>r \<in> set (db_recordings d). carried r r'"
  proof
    fix r' assume "r' \<in> set (db_recordings d')"
    with rows(1) have "r' \<in> set (db_recordings d) \<or> (\<exists>r \<in> set (db_recordings d). carried r r')" by auto
    then show "\<exists>r \<in> set (db_recordings d). carried r r'" using carried_refl by blast
  qed
  show "List.map r_id (db_recordings d') = List.map r_id (db_recordings d)" "db_jobs d' = db_jobs d"
    using rows(2,3) by simp_all
qed

lemma conclude_rows:
  assumes "conclude_absences reason_text now (c, s, paths, failed) = (c', s')"
  shows "\<forall>r' \<in> set (db_recordings (ct_db c')). \<exists>r \<in> set (db_recordings (ct_db c)).
      carried r r' \<and> r_state r' = r_state r \<and> r_probe_json r' = r_probe_json r"
    and "List.map r_id (db_recordings (ct_db c')) = List.map r_id (db_recordings (ct_db c))"
    and "db_jobs (ct_db c') = db_jobs (ct_db c)"
proof -
  let ?f = "\<lambda>r. r\<lparr>r_file_missing := True, r_deleted_at := Some now\<rparr>"
  have "ct_db c' = ct_db c \<or> ct_db c' = db_update_recordings (absent paths) ?f (ct_db c)"
    using assms by (auto simp: conclude_absences_def mark_missing_def Let_def split: option.splits)
  moreover have marked: "\<exists>r \<in> set rows. carried r r' \<and> r_state r' = r_state r \<and> r_probe_json r' = r_probe_json r"
    if "r' \<in> set (update_where (absent paths) ?f rows)" for r' rows
  proof -
    from that obtain r where "r \<in> set rows" "r' = r \<or> r' = ?f r" by (auto simp: set_update_where)
    then show ?thesis by (intro bexI [of _ r]) (auto simp: carried_def)
  qed
  ultimately show "\<forall>r' \<in> set (db_recordings (ct_db c')). \<exists>r \<in> set (db_recordings (ct_db c)).
      carried r r' \<and> r_state r' = r_state r \<and> r_probe_json r' = r_probe_json r"
  proof (elim disjE)
    assume same: "ct_db c' = ct_db c"
    show ?thesis unfolding same using carried_refl by blast
  next
    assume "ct_db c' = db_update_recordings (absent paths) ?f (ct_db c)"
    then have "db_recordings (ct_db c') = update_where (absent paths) ?f (db_recordings (ct_db c))" by simp
    then show ?thesis using marked by simp
  qed
  show "List.map r_id (db_recordings (ct_db c')) = List.map r_id (db_recordings (ct_db c))"
    "db_jobs (ct_db c') = db_jobs (ct_db c)"
    using \<open>ct_db c' = ct_db c \<or> _\<close> by auto
qed

text \<open>A file's row stays IGNORED through the walk only if it was so before, marker included.\<close>

lemma read_file_ignored:
  assumes "read_file env e r0 = (r, t, raised)" and "r_state r = RIgnored"
  shows "r_state r0 = RIgnored" and "r_probe_json r = r_probe_json r0"
  using assms by (auto simp: read_file_def changed_content_def Let_def split: if_splits option.splits)

lemma reconcile_ignored:
  assumes "reconcile_row env e row = (r, t, raised)" and "r_state r = RIgnored"
  shows "r_state row = RIgnored" and "r_probe_json r = r_probe_json row"
proof -
  have re: "r_state (reappeared x) = RIgnored \<Longrightarrow> r_state x = RIgnored"
    "r_probe_json (reappeared x) = r_probe_json x" for x
    by (auto simp: reappeared_def Let_def split: if_splits)
  have hb: "r_state (hold_back x) = RIgnored \<Longrightarrow> r_state x = RIgnored"
    "r_probe_json (hold_back x) = r_probe_json x" for x
    by (auto simp: hold_back_def split: if_splits)
  have wk: "r_state (wake x) = RIgnored \<Longrightarrow> r_state x = RIgnored" "r_probe_json (wake x) = r_probe_json x" for x
    by (auto simp: wake_def split: if_splits)
  have "r_state row = RIgnored \<and> r_probe_json r = r_probe_json row"
    using assms
    by (auto simp: reconcile_row_def Let_def re(2) hb(2) wk(2) split: verdict.splits if_splits
        dest!: re(1) hb(1) wk(1) dest: read_file_ignored)
  then show "r_state row = RIgnored" "r_probe_json r = r_probe_json row" by blast+
qed

lemma file_outcome_ignored:
  assumes "file_outcome env e old (Some r)" and "r_state r = RIgnored"
  shows "\<exists>row. old = Some row \<and> r_state row = RIgnored \<and> r_probe_json r = r_probe_json row"
proof (cases old)
  case None
  have "r_state r' \<noteq> RIgnored" if "add_file env e x = Some (r', t)" "r_state x = RDiscovered" for x r' t
    using that by (auto simp: add_file_def split: verdict.splits option.splits if_splits)
  moreover have "r_state (first_sighting env e i cam st) = RDiscovered" for i cam st by (simp add: first_sighting_def)
  ultimately show ?thesis using assms None unfolding file_outcome_def by auto
next
  case (Some row)
  obtain r0 t raised where r0: "reconcile_row env e row = (r0, t, raised)" by (metis prod_cases3)
  with assms(1) Some have "r_state r = r_state r0" "r_probe_json r = r_probe_json r0"
    by (auto simp: file_outcome_def split: if_splits)
  with reconcile_ignored [OF r0] assms(2) Some show ?thesis by simp
qed

text \<open>C34: a scan hands a file that is still being written to no worker. Take a whole scan whose batches
  all committed, the damaged-footage policy that ends it included, and the queueing pass after it. Whatever the file
  system answers while files are read, when the pass creates a job for the recording of a file that
  the walk found, that file was settled in this very scan: outside the settle window, with the
  size and time the previous scan recorded (when there was one), and not empty. The one exception
  is a row that entered the scan in the state IGNORED with the policy's own note, which the policy may
  restore to a queueable state without looking at the file.\<close>

theorem only_settled_files_queued:
  assumes "indexed (ct_db c)" and "\<forall>k. se_commit_error env k = None"
    and "distinct (found_paths (walk_tree (se_extensions env) items fine))"
    and "scan_once env reason_text unavailable finish trigger (Some (items, fine))
       (\<lambda>d. case apply_known_damaged_policy penv action rep d fs of (ps, d', fs') \<Rightarrow> (ps, d')) c = (c', s')"
    and "queue_unprocessed now limit (ct_db c') = (n, d)"
    and "j \<in> set (db_jobs d)" and "j_id j \<notin> j_id ` set (db_jobs (ct_db c'))"
    and "r \<in> set (db_recordings (ct_db c'))" and "j_recording_id j = Some (r_id r)"
    and "Found e \<in> set (walk_tree (se_extensions env) items fine)" and "r_rel_path r = en_rel e"
  shows "verdict_of env e (row_of (en_rel e) (ct_db c)) = Ready \<or>
    (\<exists>row. row_of (en_rel e) (ct_db c) = Some row \<and> r_state row = RIgnored \<and> policy_note row)"
proof -
  let ?evs = "walk_tree (se_extensions env) items fine" and ?d = "ct_db c'"
  define c0 where "c0 = c\<lparr>ct_runs := ct_runs c @ [new_run trigger (next_id sr_id (ct_runs c))]\<rparr>"
  define s0 where "s0 = new_summary\<lparr>sm_scan_run_id := Some (next_id sr_id (ct_runs c))\<rparr>"
  obtain c1 s1 paths failed where loop: "scan_loop env 0 ?evs (c0, s0, [], []) = (c1, s1, paths, failed)"
    by (metis prod_cases4)
  obtain c2 s2 where fin: "conclude_absences reason_text (se_now env) (c1, s1, paths, failed) = (c2, s2)"
    by (metis surj_pair)
  obtain ps d3 fs3 where pol: "apply_known_damaged_policy penv action rep (ct_db c2) fs = (ps, d3, fs3)"
    by (metis prod_cases3)
  have d: "?d = d3"
    using assms(4) loop fin pol by (auto simp: scan_once_def Let_def c0_def s0_def finish_run_def)
  have c0: "ct_db c0 = ct_db c" by (simp add: c0_def)
  note walk = scan_loop_outcome [OF loop assms(2,3) assms(1) [folded c0]]
  note ends = conclude_rows [OF fin] apply_known_rows [OF pol]
  have ids: "List.map r_id (db_recordings ?d) = List.map r_id (db_recordings (ct_db c1))"
    using ends(2,5) d by simp
  then have key: "keyed r_id (db_recordings ?d)" using walk by (simp add: indexed_def keyed_def)
  obtain extra chosen where q: "db_jobs d = db_jobs (promote_new_footage ?d) @ extra"
    "List.map j_recording_id extra = List.map (\<lambda>r. Some (r_id r)) chosen"
    "\<forall>r \<in> set chosen. r \<in> set (db_recordings ?d) \<and> unprocessed (promote_new_footage ?d) r"
    using queue_unprocessed_jobs [OF assms(5)] by metis
  have "set (List.map j_id (db_jobs (promote_new_footage ?d))) = set (List.map j_id (db_jobs ?d))"
    by (simp only: promote_sel)
  then have "j \<notin> set (db_jobs (promote_new_footage ?d))" using assms(7) by (metis image_eqI set_map)
  then have "j \<in> set extra" using q(1) assms(6) by simp
  then have "j_recording_id j \<in> set (List.map (\<lambda>r. Some (r_id r)) chosen)"
    using q(2) by (metis image_eqI set_map)
  then obtain x where x: "x \<in> set chosen" "r_id x = r_id r" using assms(9) by auto
  have "x = r" using keyed_inj [OF key _ assms(8) x(2)] x(1) q(3) by blast
  with x(1) q(3) have ready: "r_state r \<in> set QUEUEABLE_STATES" "r_fingerprint r \<noteq> None"
    by (auto simp: unprocessed_def)
  obtain r2 where r2: "r2 \<in> set (db_recordings (ct_db c2))" "carried r2 r" using ends(4) assms(8) d by blast
  obtain r1 where r1: "r1 \<in> set (db_recordings (ct_db c1))" "carried r1 r2" "r_state r2 = r_state r1"
    "r_probe_json r2 = r_probe_json r1" using ends(1) r2(1) by blast
  have same: "r_rel_path r1 = en_rel e" "r_fingerprint r1 \<noteq> None"
    using r1(2) r2(2) assms(11) ready(2) by (simp_all add: carried_def)
  have "row_of (en_rel e) (ct_db c1) = Some r1" using walk r1(1) same(1) by (simp add: row_of_iff)
  moreover have "e \<in> set (found_entries ?evs)" using assms(10) by (force simp: found_entries_def in_map_filter)
  ultimately have out: "file_outcome env e (row_of (en_rel e) (ct_db c)) (Some r1)"
    using walk c0 by metis
  have "r_state r \<noteq> RDeleted" using ready(1) by (auto simp: QUEUEABLE_STATES_def)
  then consider "r_state r = r_state r1" | "r_state r1 = RIgnored" "policy_note r1"
    using r2(2) r1(3,4) by (auto simp: carried_def policy_note_def probe_of_def)
  then show ?thesis
  proof cases
    case 1
    then show ?thesis using file_outcome_ready [OF out] ready(1) same(2) by simp
  next
    case 2
    then show ?thesis using file_outcome_ignored [OF out] by (auto simp: policy_note_def probe_of_def)
  qed
qed

text \<open>One settled new file, one that is still growing; the scan queues the first.\<close>

definition growing_tree :: "dir_item list" where
  "growing_tree = [Subdir ''DCIM'' [RegularFile ''a.ts'' 20 500, RegularFile ''b.ts'' 7 990] True]"

definition empty_catalogue :: catalogue where
  "empty_catalogue = \<lparr>ct_db = \<lparr>db_recordings = [], db_jobs = [], db_journeys = []\<rparr>,
     ct_cameras = [], ct_runs = []\<rparr>"

definition sample_report :: safety_report where
  "sample_report =
     \<lparr>sr_ok = False, sr_checks = [], sr_blocked_reason = None, sr_footage_dir = None, sr_file_count = 0,
      sr_total_bytes = 0, sr_indexed_count = 0, sr_writable = False\<rparr>"

definition keep_policy :: "db \<Rightarrow> policy_summary \<times> db" where
  "keep_policy d = (case apply_known_damaged_policy Damaged.sample_env ''keep'' sample_report d (\<lambda>_. None) of
     (ps, d', fs') \<Rightarrow> (ps, d'))"

definition scanned :: "dir_item list \<Rightarrow> catalogue \<Rightarrow> db" where
  "scanned items c = ct_db (fst (scan_once sample_env (\<lambda>_. []) [] (80, 1) ''manual'' (Some (items, True)) keep_policy c))"

lemma scanned_pair:
  "List.map (\<lambda>r. (r_id r, r_rel_path r)) (db_recordings (scanned growing_tree empty_catalogue)) =
     [(1, ''DCIM/a.ts''), (2, ''DCIM/b.ts'')]"
  "db_jobs (scanned growing_tree empty_catalogue) = []"
  "List.map (\<lambda>j. (j_id j, j_recording_id j)) (db_jobs (snd (queue_unprocessed 80 None (scanned growing_tree empty_catalogue)))) = [(1, Some 1)]"
  by code_simp+

lemma only_settled_files_queued_witness:
  "\<exists>e. en_rel e = ''DCIM/a.ts'' \<and> verdict_of sample_env e None = Ready \<and>
     List.map j_recording_id (db_jobs (snd (queue_unprocessed 80 None (scanned growing_tree empty_catalogue)))) = [Some 1]"
proof -
  let ?d = "scanned growing_tree empty_catalogue"
  let ?e = "\<lparr>en_rel = ''DCIM/a.ts'', en_name = ''a.ts'', en_size = 20, en_mtime_ns = 500\<rparr>"
  obtain c' s' where scan: "scan_once sample_env (\<lambda>_. []) [] (80, 1) ''manual'' (Some (growing_tree, True))
      keep_policy empty_catalogue = (c', s')" by (metis surj_pair)
  have d: "ct_db c' = ?d" by (simp add: scanned_def scan)
  obtain n q where q: "queue_unprocessed 80 None (ct_db c') = (n, q)" by (metis surj_pair)
  have walk: "walk_tree (se_extensions sample_env) growing_tree True =
      [Found ?e, Found \<lparr>en_rel = ''DCIM/b.ts'', en_name = ''b.ts'', en_size = 7, en_mtime_ns = 990\<rparr>]"
    by code_simp
  have "List.map (\<lambda>j. (j_id j, j_recording_id j)) (db_jobs q) = [(1, Some 1)]" using scanned_pair(3) q d by simp
  then obtain j where j: "db_jobs q = [j]" "j_recording_id j = Some 1" by auto
  obtain r x where r: "db_recordings (ct_db c') = [r, x]" "r_id r = 1" "r_rel_path r = ''DCIM/a.ts''"
    using scanned_pair(1) d by auto
  have none: "row_of (en_rel ?e) (ct_db empty_catalogue) = None" by (simp add: row_of_def empty_catalogue_def)
  have "verdict_of sample_env ?e (row_of (en_rel ?e) (ct_db empty_catalogue)) = Ready \<or>
      (\<exists>row. row_of (en_rel ?e) (ct_db empty_catalogue) = Some row \<and> r_state row = RIgnored \<and> policy_note row)"
  proof (rule only_settled_files_queued [where j = j and r = r and d = q and n = n and now = 80 and limit = None])
    show "indexed (ct_db empty_catalogue)" by (simp add: indexed_def empty_catalogue_def keyed_def)
    show "\<forall>k. se_commit_error sample_env k = None" by (simp add: sample_env_def)
    show "distinct (found_paths (walk_tree (se_extensions sample_env) growing_tree True))"
      unfolding walk by (simp add: found_paths_def)
    show "scan_once sample_env (\<lambda>_. []) [] (80, 1) ''manual'' (Some (growing_tree, True))
        (\<lambda>d. case apply_known_damaged_policy Damaged.sample_env ''keep'' sample_report d (\<lambda>_. None) of
           (ps, d', fs') \<Rightarrow> (ps, d')) empty_catalogue = (c', s')"
      using scan by (simp add: keep_policy_def [abs_def])
    show "Found ?e \<in> set (walk_tree (se_extensions sample_env) growing_tree True)" unfolding walk by simp
  qed (use q j r d scanned_pair(2) in simp_all)
  then have "verdict_of sample_env ?e None = Ready" unfolding none by simp
  with q d j show ?thesis by (intro exI [of _ ?e]) simp
qed

text \<open>The exception: a hidden row whose file still grows is restored by the policy and queued.\<close>

definition hidden_growing :: recording where
  "hidden_growing = sample_recording\<lparr>r_state := RIgnored, r_ignored := True, r_fingerprint := Some ''d1'',
     r_rel_path := ''DCIM/b.ts'',
     r_probe_json := JObj [(''damaged_policy'', JObj [(''previous_state'', JStr ''discovered'')])]\<rparr>"

definition hidden_catalogue :: catalogue where
  "hidden_catalogue = \<lparr>ct_db = \<lparr>db_recordings = [hidden_growing], db_jobs = [], db_journeys = []\<rparr>,
     ct_cameras = [], ct_runs = []\<rparr>"

lemma restored_while_growing_queued:
  "verdict_of sample_env \<lparr>en_rel = ''DCIM/b.ts'', en_name = ''b.ts'', en_size = 7, en_mtime_ns = 990\<rparr>
     (Some hidden_growing) \<noteq> Ready"
  "List.map j_recording_id (db_jobs (snd (queue_unprocessed 80 None (scanned growing_tree hidden_catalogue)))) =
     [Some (r_id hidden_growing), Some (r_id hidden_growing + 1)]"
  by code_simp+

end
