(* ===== verification/Machine.thy ===== *)
theory Machine
  imports WorkerProps QueueSpecs ScannerProps
begin

section \<open>Queue and pool as one machine\<close>

text \<open>
  What touches the queue, as events of a machine over the database, the pause
  flag and the runs in flight: requests of the API and the scheduler (the retry of one job by
  its id included), the queueing pass of a scan, the workers' claims,
  heartbeats and outcomes, the wipe with its abort, a restart of the pool, and arbitrary
  rewriting of recording rows by scans, stages and retention. A locale of the prelude is
  interpreted on this step function. The nightly pruning of old finished rows
  (\<^verbatim>\<open>prune_job_history\<close>) is not an event: it deletes rows and nothing else.
\<close>

subsection \<open>Retrying one job\<close>

text \<open>
  \<^verbatim>\<open>retry_job\<close> of \<^verbatim>\<open>backend/app/api/routes/content.py\<close>. It refuses an unknown job (404),
  a blacklisted recording and a recording with another live job (409); whatever else the state
  of the job is, it is queued again with a clean slate.
\<close>

datatype retry_refusal = JobNotFound | RecordingBlacklisted | RecordingBusy

definition requeued :: "job \<Rightarrow> job" where
  "requeued j = j\<lparr>j_state := JQueued, j_attempts := 0, j_not_before := None,
     j_error_message := None, j_worker_id := None, j_result := None\<rparr>"

definition retry_job :: "row_id \<Rightarrow> db \<Rightarrow> (retry_refusal + job) \<times> db" where
  "retry_job i d =
     (case get_job i d of
        None \<Rightarrow> (Inl JobNotFound, d)
      | Some j \<Rightarrow>
          (let refused =
             (case j_recording_id j of
                None \<Rightarrow> None
              | Some rid \<Rightarrow>
                  if (case get_recording rid d of None \<Rightarrow> False | Some r \<Rightarrow> r_ignored r)
                  then Some RecordingBlacklisted
                  else if list_ex (\<lambda>k. j_recording_id k = Some rid \<and> j_id k \<noteq> j_id j \<and> live k) (db_jobs d)
                  then Some RecordingBusy
                  else None)
           in case refused of
                Some e \<Rightarrow> (Inl e, d)
              | None \<Rightarrow> (Inr (requeued j), put_job (requeued j) d)))"

subsection \<open>Events\<close>

datatype event =
    Enqueue usec "row_id option" job_kind "string list option" int bool
  | Claim usec string
  | Beat usec bool row_id
  | RunOver "nat \<Rightarrow> usec \<times> bool" row_id run_end
  | CancelJob usec row_id
  | ClearAndAbort usec string bool
  | RetryFailed
  | RetryJob row_id
  | ReclaimStale usec int
  | ReleaseStranded
  | QueueUnprocessed usec "nat option"
  | Pause bool
  | Resume bool
  | Restart usec
  | AddRecording recording
  | RewriteRecordings "recording \<Rightarrow> recording"

definition on_db :: "(db \<Rightarrow> db) \<Rightarrow> system \<Rightarrow> system" where
  "on_db f sy = sy\<lparr>sy_db := f (sy_db sy)\<rparr>"

fun queue_step :: "int \<Rightarrow> system \<Rightarrow> event \<Rightarrow> system" where
  "queue_step m sy (Enqueue now rid kind stages priority force) =
     on_db (\<lambda>d. snd (enqueue m now rid kind stages priority force d)) sy"
| "queue_step m sy (Claim now worker) = claim_pass now worker sy"
| "queue_step m sy (Beat now ok i) = heartbeat_pass now ok i sy"
| "queue_step m sy (RunOver ts i e) = run_over m ts i e sy"
| "queue_step m sy (CancelJob now i) = on_db (\<lambda>d. snd (cancel now i d)) sy"
| "queue_step m sy (ClearAndAbort now reason stopped) =
     snd (abort_active stopped (on_db (\<lambda>d. snd (clear now reason d)) sy))"
| "queue_step m sy RetryFailed = on_db (\<lambda>d. snd (retry_failed d)) sy"
| "queue_step m sy (RetryJob i) = on_db (\<lambda>d. snd (retry_job i d)) sy"
| "queue_step m sy (ReclaimStale now t) = on_db (\<lambda>d. snd (reclaim_stale now t d)) sy"
| "queue_step m sy ReleaseStranded = on_db (\<lambda>d. snd (release_stranded_recordings d)) sy"
| "queue_step m sy (QueueUnprocessed now limit) = on_db (\<lambda>d. snd (queue_unprocessed now limit d)) sy"
| "queue_step m sy (Pause io) = sy\<lparr>sy_flags := pause io (sy_flags sy)\<rparr>"
| "queue_step m sy (Resume io) = sy\<lparr>sy_flags := resume io (sy_flags sy)\<rparr>"
| "queue_step m sy (Restart now) = start_pool m now (stop_pool sy)"
| "queue_step m sy (AddRecording r) =
     on_db (\<lambda>d. d\<lparr>db_recordings := db_recordings d @
       [r\<lparr>r_id := next_id r_id (db_recordings d)\<rparr>]\<rparr>) sy"
| "queue_step m sy (RewriteRecordings f) =
     on_db (db_update_recordings (\<lambda>_. True) (\<lambda>r. (f r)\<lparr>r_id := r_id r\<rparr>)) sy"

subsection \<open>The invariant\<close>

definition registered :: "db \<Rightarrow> active_job list \<Rightarrow> bool" where
  "registered d as \<longleftrightarrow>
     distinct (List.map aj_job as) \<and>
     (\<forall>a \<in> set as. \<forall>b \<in> set as.
        aj_recording a \<noteq> None \<and> aj_recording a = aj_recording b \<longrightarrow> aj_job a = aj_job b) \<and>
     (\<forall>a \<in> set as. \<exists>j \<in> set (db_jobs d). j_id j = aj_job a \<and> j_recording_id j = aj_recording a)"

definition sys_inv :: "system \<Rightarrow> bool" where
  "sys_inv sy \<longleftrightarrow> wf_queue (sy_db sy) \<and> registered (sy_db sy) (sy_active sy)"

lemma evolves_rows:
  assumes "evolves d d'" and "j \<in> set (db_jobs d)"
  shows "\<exists>j' \<in> set (db_jobs d'). j_id j' = j_id j \<and> j_recording_id j' = j_recording_id j"
proof -
  obtain js extra where e: "db_jobs d' = js @ extra" "list_all2 job_evolves (db_jobs d) js"
    using assms(1) unfolding evolves_def by blast
  obtain i where i: "i < length (db_jobs d)" "db_jobs d ! i = j"
    using assms(2) by (auto simp: in_set_conv_nth)
  with e(2) have "job_evolves j (js ! i)" "i < length js"
    by (auto simp: list_all2_conv_all_nth)
  with e(1) show ?thesis by (force simp: job_evolves_def)
qed

lemma evolves_registered:
  assumes "evolves d d'" and "registered d as"
  shows "registered d' as"
  using assms(2) evolves_rows [OF assms(1)] unfolding registered_def by metis

lemma evolves_inv:
  "evolves (sy_db sy) d \<Longrightarrow> sys_inv sy \<Longrightarrow> sys_inv (sy\<lparr>sy_db := d\<rparr>)"
  by (simp add: sys_inv_def evolves_wf evolves_registered)

lemma inv_keyed: "sys_inv sy \<Longrightarrow> keyed j_id (db_jobs (sy_db sy))"
  by (simp add: sys_inv_def wf_queue_def db_keyed_def)

subsection \<open>Runs and outcomes\<close>

lemma finish_once_evolves:
  assumes "keyed j_id (db_jobs d)" and "finish_once m now a out d = Inr (b, c, d')"
  shows "evolves d d'"
proof (cases "get_job (aj_job a) d")
  case None
  with assms(2) show ?thesis by (simp add: finish_once_def)
next
  case (Some j)
  note j = get_row_Some [OF Some]
  show ?thesis
  proof (cases "j_state j = JCancelled")
    case True
    with Some assms(2) show ?thesis by (simp add: finish_once_def)
  next
    case False
    note ev = evolves_fail [OF assms(1) _ False] evolves_complete [OF assms(1) _ False]
    show ?thesis
      using assms(2) Some False j ev
      by (cases out) (auto simp: finish_once_def Let_def split: sum.splits if_splits)
  qed
qed

lemma finish_attempts_evolves:
  "keyed j_id (db_jobs d) \<Longrightarrow> evolves d (snd (snd (finish_attempts m a out ts d)))"
proof (induction ts)
  case (Cons t ts)
  obtain now commits where t: "t = (now, commits)" by (cases t)
  show ?case
  proof (cases "finish_once m now a out d")
    case (Inr r)
    then obtain b c d' where r: "finish_once m now a out d = Inr (b, c, d')" by (cases r) auto
    from finish_once_evolves [OF Cons.prems r] Cons t r show ?thesis by auto
  qed (use Cons t in simp)
qed simp

text \<open>A cancellation is the last word about a run: whatever a worker reports for a job that
  has meanwhile been cancelled or deleted, on whichever of its four attempts, nothing is
  written and no clean-up is requested; and when no attempt commits nothing is written.\<close>

theorem finish_respects_cancellation:
  assumes "(\<forall>j. get_job (aj_job a) d = Some j \<longrightarrow> j_state j = JCancelled) \<or>
    (\<forall>k < 4. \<not> snd (ts k))"
  shows "finish_under_barrier m a out ts d = (False, None, d)"
proof -
  have noop: "finish_attempts m a out xs d = (False, None, d)"
    if "\<forall>j. get_job (aj_job a) d = Some j \<longrightarrow> j_state j = JCancelled" for xs
    using that
    by (induction xs) (auto simp: finish_once_def split: option.splits)
  have lost: "finish_attempts m a out xs d = (False, None, d)" if "\<forall>x \<in> set xs. \<not> snd x" for xs
    using that by (induction xs) (auto split: sum.splits)
  have "\<forall>x \<in> set (List.map ts [0..<FINISH_ATTEMPTS]). \<not> snd x" if "\<forall>k < 4. \<not> snd (ts k)"
    using that by (auto simp: FINISH_ATTEMPTS_def)
  with noop lost assms show ?thesis unfolding finish_under_barrier_def by blast
qed

lemma registered_filter: "registered d as \<Longrightarrow> registered d (filter P as)"
  unfolding registered_def by (simp add: distinct_map_filter) blast

lemma registered_map:
  assumes r: "registered d as"
    and same: "\<And>a. a \<in> set as \<Longrightarrow> aj_job (f a) = aj_job a \<and> aj_recording (f a) = aj_recording a"
  shows "registered d (List.map f as)"
  unfolding registered_def
proof (intro conjI ballI impI)
  have "List.map aj_job (List.map f as) = List.map aj_job as" using same by simp
  then show "distinct (List.map aj_job (List.map f as))" using r by (simp only: registered_def)
next
  fix x y assume xy: "x \<in> set (List.map f as)" "y \<in> set (List.map f as)"
    "aj_recording x \<noteq> None \<and> aj_recording x = aj_recording y"
  then obtain a b where "a \<in> set as" "b \<in> set as" "x = f a" "y = f b" by auto
  with xy(3) same r show "aj_job x = aj_job y" unfolding registered_def by metis
next
  fix x assume "x \<in> set (List.map f as)"
  then obtain a where "a \<in> set as" "x = f a" by auto
  with same r show "\<exists>j \<in> set (db_jobs d). j_id j = aj_job x \<and> j_recording_id j = aj_recording x"
    unfolding registered_def by metis
qed

lemma run_over_inv: "sys_inv sy \<Longrightarrow> sys_inv (run_over m ts i e sy)"
proof (cases "find_active i sy")
  case (Some a)
  assume inv: "sys_inv sy"
  define d where "d = (case outcome_of (aj_recording a) e of None \<Rightarrow> sy_db sy
    | Some out \<Rightarrow> snd (snd (finish_under_barrier m a out ts (sy_db sy))))"
  have "evolves (sy_db sy) d"
    unfolding d_def finish_under_barrier_def
    using finish_attempts_evolves [OF inv_keyed [OF inv]] by (auto split: option.splits)
  from evolves_inv [OF this inv] have "sys_inv (sy\<lparr>sy_db := d\<rparr>)" .
  moreover have "run_over m ts i e sy = sy\<lparr>sy_db := d, sy_active := pop_active i (sy_active sy)\<rparr>"
    using Some by (simp add: run_over_def d_def Let_def)
  ultimately show ?thesis by (simp add: sys_inv_def pop_active_def registered_filter)
qed (simp add: run_over_def)

lemma heartbeat_pass_inv: "sys_inv sy \<Longrightarrow> sys_inv (heartbeat_pass now ok i sy)"
proof (cases "find_active i sy")
  case (Some a)
  assume inv: "sys_inv sy"
  show ?thesis
  proof (cases ok)
    case True
    obtain st d where h: "heartbeat now i (Some (aj_progress a)) (Some (aj_stage a)) (aj_speed a)
        (aj_decoder a) (aj_device a)
        (Some (if aj_decoder a = Some ''vaapi-waiting'' then ''waiting_for_vaapi'' else ''running''))
        (sy_db sy) = (st, d)"
      by fastforce
    then have "evolves (sy_db sy) d"
      using evolves_heartbeat [of "sy_db sy" now i] by (metis snd_conv)
    from evolves_inv [OF this inv]
    have "wf_queue d" "registered d (sy_active sy)" by (simp_all add: sys_inv_def)
    with True Some h show ?thesis
      by (auto simp: heartbeat_pass_def sys_inv_def Let_def intro: registered_map)
  qed (use inv Some in \<open>simp add: heartbeat_pass_def\<close>)
qed (simp add: heartbeat_pass_def)

subsection \<open>The claim registers a run for a recording that has none\<close>

lemma claim_evolves_rows:
  assumes "keyed j_id (db_jobs d)" and "claim_next f now w active d = (r, d')" and "j \<in> set (db_jobs d)"
  shows "\<exists>j' \<in> set (db_jobs d'). j_id j' = j_id j \<and> j_recording_id j' = j_recording_id j \<and>
    (j_state j = JCancelled \<longrightarrow> j_state j' = JCancelled)"
proof (cases r)
  case None
  then have "d' = d" using claim_next_None [of f now w active d] assms(2) by simp
  with assms(3) show ?thesis by blast
next
  case (Some j0)
  obtain k where k: "j_state k = JQueued"
      "db_jobs d' = update_where (\<lambda>x. x = k) (claimed_row now w) (db_jobs d)"
    using claim_jobs [OF assms(1)] assms(2) Some by blast
  show ?thesis
  proof (cases "j = k")
    case True
    then have "claimed_row now w j \<in> set (db_jobs d')" using k assms(3) by (simp add: set_update_where)
    with True k(1) show ?thesis by (intro bexI [of _ "claimed_row now w j"]) (simp_all add: claimed_row_def)
  next
    case False
    then have "j \<in> set (db_jobs d')" using k assms(3) by (simp add: set_update_where)
    then show ?thesis by blast
  qed
qed

lemma active_ids_mem:
  "a \<in> set (sy_active sy) \<Longrightarrow> aj_recording a = Some i \<Longrightarrow> i \<in> set (active_ids sy)"
  by (force simp: active_ids_def map_filter_def)

lemma claim_pass_inv:
  assumes "sys_inv sy"
  shows "sys_inv (claim_pass now w sy)"
proof -
  obtain r d where c: "claim_next (sy_flags sy) now w (active_ids sy) (sy_db sy) = (r, d)" by fastforce
  note keyed = inv_keyed [OF assms]
  have wf: "wf_queue d" using claim_wf [OF _ c] assms by (simp add: sys_inv_def)
  have old: "registered d (sy_active sy)"
    using assms claim_evolves_rows [OF keyed c] unfolding sys_inv_def registered_def by metis
  show ?thesis
  proof (cases r)
    case None
    with c wf old show ?thesis by (simp add: claim_pass_def sys_inv_def)
  next
    case (Some j')
    obtain j where j: "j \<in> set (db_jobs (sy_db sy))" "claimable now (active_ids sy) (sy_db sy) j"
        "j' = claimed_row now w j"
        "db_jobs d = update_where (\<lambda>k. k = j) (claimed_row now w) (db_jobs (sy_db sy))"
      using claim_jobs [OF keyed] c Some by blast
    let ?n = "new_active (j_id j') (j_recording_id j')"
    have ids: "aj_job ?n = j_id j" "aj_recording ?n = j_recording_id j"
      by (simp_all add: new_active_def j(3) claimed_row_def)
    have row: "\<exists>k \<in> set (db_jobs d). j_id k = aj_job ?n \<and> j_recording_id k = aj_recording ?n"
      using j by (intro bexI [of _ "claimed_row now w j"])
        (simp_all add: new_active_def claimed_row_def set_update_where)
    have fresh: "aj_recording b \<noteq> j_recording_id j"
      if "b \<in> set (sy_active sy)" "j_recording_id j \<noteq> None" for b
      using j(2) that active_ids_mem [OF that(1)] by (auto simp: claimable_def)
    have same: "aj_recording b = j_recording_id j" if "b \<in> set (sy_active sy)" "aj_job b = j_id j" for b
      using assms that keyed_inj [OF keyed _ j(1)]
      unfolding sys_inv_def registered_def by metis
    have "registered d (put_active ?n (sy_active sy))"
    proof (cases "\<exists>b \<in> set (sy_active sy). aj_job b = aj_job ?n")
      case True
      then have none: "j_recording_id j = None" using same fresh ids by metis
      have "put_active ?n (sy_active sy) = List.map (\<lambda>b. if aj_job b = aj_job ?n then ?n else b) (sy_active sy)"
        using True by (simp add: put_active_def)
      moreover have "registered d (List.map (\<lambda>b. if aj_job b = aj_job ?n then ?n else b) (sy_active sy))"
        using same ids by (intro registered_map [OF old]) simp
      ultimately show ?thesis by simp
    next
      case False
      then have "put_active ?n (sy_active sy) = sy_active sy @ [?n]" by (auto simp: put_active_def)
      moreover have "registered d (sy_active sy @ [?n])"
        unfolding registered_def
      proof (intro conjI)
        show "distinct (List.map aj_job (sy_active sy @ [?n]))"
          using old False by (auto simp: registered_def)
        show "\<forall>a \<in> set (sy_active sy @ [?n]). \<exists>k \<in> set (db_jobs d).
            j_id k = aj_job a \<and> j_recording_id k = aj_recording a"
          using old row by (simp add: registered_def)
        have pair: "aj_job a = aj_job b"
          if ab: "a \<in> insert ?n (set (sy_active sy))" "b \<in> insert ?n (set (sy_active sy))"
            and h: "aj_recording a \<noteq> None" "aj_recording a = aj_recording b" for a b
        proof (cases "a = ?n \<or> b = ?n")
          case True
          then have "j_recording_id j \<noteq> None" using h ids(2) by metis
          then have "a = ?n \<and> b = ?n" using True ab h ids(2) fresh by (metis insertE)
          then show ?thesis by simp
        next
          case False
          then have "a \<in> set (sy_active sy)" "b \<in> set (sy_active sy)" using ab by blast+
          with old h show ?thesis unfolding registered_def by metis
        qed
        have all: "set (sy_active sy @ [?n]) = insert ?n (set (sy_active sy))" by simp
        show "\<forall>a \<in> set (sy_active sy @ [?n]). \<forall>b \<in> set (sy_active sy @ [?n]).
            aj_recording a \<noteq> None \<and> aj_recording a = aj_recording b \<longrightarrow> aj_job a = aj_job b"
          unfolding all by (intro ballI impI, elim conjE, rule pair)
      qed
      ultimately show ?thesis by simp
    qed
    with c Some wf show ?thesis by (simp add: claim_pass_def sys_inv_def)
  qed
qed

subsection \<open>Interpreting the machine\<close>

lemma on_db_inv: "evolves (sy_db sy) (f (sy_db sy)) \<Longrightarrow> sys_inv sy \<Longrightarrow> sys_inv (on_db f sy)"
  unfolding on_db_def by (rule evolves_inv)

lemma abort_active_inv: "sys_inv sy \<Longrightarrow> sys_inv (snd (abort_active stopped sy))"
  by (auto simp: abort_active_def sys_inv_def registered_map) (simp add: registered_def)

lemma start_evolves:
  assumes "keyed j_id (db_jobs d)"
  shows "evolves d
    (snd (reconcile_media_failure_hides m now
      (snd (reconcile_misclassified_probe_crashes m now
       (snd (snd (reconcile_legacy_contention_failures
        (snd (release_stranded_recordings
         (snd (reclaim_interrupted d))))))))))) "
proof -
  let ?d1 = "snd (reclaim_interrupted d)"
  let ?d2 = "snd (release_stranded_recordings ?d1)"
  let ?d3 = "snd (snd (reconcile_legacy_contention_failures ?d2))"
  let ?d4 = "snd (reconcile_misclassified_probe_crashes m now ?d3)"
  have 1: "evolves d ?d2"
    using evolves_trans [OF evolves_reclaim_interrupted evolves_release_stranded] .
  note k2 = evolves_keyed [OF 1 assms]
  have 2: "evolves d ?d3" using evolves_trans [OF 1 evolves_reconcile_legacy [OF k2]] .
  note k3 = evolves_keyed [OF 2 assms]
  have 3: "evolves d ?d4" using evolves_trans [OF 2 evolves_reconcile_misclassified [OF k3]] .
  show ?thesis using evolves_trans [OF 3 evolves_reconcile_media] .
qed

lemma restart_evolves:
  "keyed j_id (db_jobs (sy_db sy)) \<Longrightarrow>
    evolves (sy_db sy) (sy_db (start_pool m now (stop_pool sy)))"
  using start_evolves [OF evolves_keyed [OF evolves_reclaim_interrupted]]
  by (auto simp: start_pool_def stop_pool_def intro: evolves_trans [OF evolves_reclaim_interrupted])

lemma registered_jobs: "db_jobs d = db_jobs d' \<Longrightarrow> registered d as = registered d' as"
  unfolding registered_def by (simp only:)

lemma exclusive_jobs: "db_jobs d = db_jobs d' \<Longrightarrow> exclusive d = exclusive d'"
  unfolding exclusive_def by (simp only:)

lemma add_recording_inv:
  "sys_inv sy \<Longrightarrow> sys_inv (on_db (\<lambda>d. d\<lparr>db_recordings := db_recordings d @
     [r\<lparr>r_id := next_id r_id (db_recordings d)\<rparr>]\<rparr>) sy)"
  using next_id_notin [of r_id "db_recordings (sy_db sy)"]
    registered_jobs [of "sy_db sy\<lparr>db_recordings := x\<rparr>" "sy_db sy" for x]
    exclusive_jobs [of "sy_db sy\<lparr>db_recordings := x\<rparr>" "sy_db sy" for x]
  by (simp add: on_db_def sys_inv_def wf_queue_def db_keyed_def)

lemma requeued_sel [simp]:
  "j_id (requeued j) = j_id j" "j_recording_id (requeued j) = j_recording_id j" "j_state (requeued j) = JQueued"
  by (simp_all add: requeued_def)

lemma retry_job_effect:
  "snd (retry_job i d) = d \<or>
    (\<exists>j \<in> set (db_jobs d). j_id j = i \<and> snd (retry_job i d) = put_job (requeued j) d)"
proof (cases "get_job i d")
  case (Some j)
  have "snd (retry_job i d) = d \<or> snd (retry_job i d) = put_job (requeued j) d"
    unfolding retry_job_def Some Let_def by (simp split: option.split)
  with get_row_Some [OF Some] show ?thesis by blast
qed (simp add: retry_job_def)

text \<open>A retried job may have been cancelled, so this is no evolution; it keeps the invariant.\<close>

lemma requeue_inv:
  assumes inv: "sys_inv sy" and j: "j \<in> set (db_jobs (sy_db sy))"
  shows "sys_inv (sy\<lparr>sy_db := put_job (requeued j) (sy_db sy)\<rparr>)"
proof -
  let ?d = "sy_db sy" and ?d' = "put_job (requeued j) (sy_db sy)"
  have rows: "set (db_jobs ?d') = {k \<in> set (db_jobs ?d). j_id k \<noteq> j_id j} \<union> {requeued j}"
    using j by (auto simp: put_job_def set_update_where)
  have ok: "\<forall>k \<in> set (db_jobs ?d). job_ok k" and ex: "exclusive ?d" and key: "db_keyed ?d"
    using inv by (simp_all add: sys_inv_def wf_queue_def)
  have "job_ok (requeued j)" using ok j by (simp add: job_ok_def requeued_def)
  then have "\<forall>k \<in> set (db_jobs ?d'). job_ok k" using ok unfolding rows by blast
  moreover have "exclusive ?d'" using ex unfolding exclusive_def rows by simp
  moreover have "List.map j_id (db_jobs ?d') = List.map j_id (db_jobs ?d)"
    by (simp add: put_job_def update_where_def)
  then have "db_keyed ?d'" using key by (simp add: db_keyed_def keyed_def put_job_def)
  moreover have "registered ?d' (sy_active sy)"
  proof -
    have "\<exists>k' \<in> set (db_jobs ?d'). j_id k' = j_id k \<and> j_recording_id k' = j_recording_id k"
      if k: "k \<in> set (db_jobs ?d)" for k
    proof (cases "j_id k = j_id j")
      case True
      then have "k = j" using keyed_inj [OF inv_keyed [OF inv] k j] by simp
      then show ?thesis unfolding rows by (intro bexI [of _ "requeued j"]) simp_all
    qed (use k in \<open>auto simp: rows\<close>)
    with inv show ?thesis unfolding sys_inv_def registered_def by metis
  qed
  ultimately show ?thesis by (simp add: sys_inv_def wf_queue_def)
qed

lemma retry_job_inv: "sys_inv sy \<Longrightarrow> sys_inv (on_db (\<lambda>d. snd (retry_job i d)) sy)"
  using retry_job_effect [of i "sy_db sy"] by (auto simp: on_db_def requeue_inv)

lemma queue_step_inv: "sys_inv sy \<Longrightarrow> sys_inv (queue_step m sy e)"
proof (cases e)
  case (Restart now)
  assume inv: "sys_inv sy"
  have "evolves (sy_db sy) (sy_db (start_pool m now (stop_pool sy)))"
    using restart_evolves [OF inv_keyed [OF inv]] .
  then have "wf_queue (sy_db (start_pool m now (stop_pool sy)))"
    using inv by (simp add: sys_inv_def evolves_wf)
  with Restart show "sys_inv (queue_step m sy e)"
    by (simp add: sys_inv_def start_pool_def stop_pool_def registered_def)
next
  case (ClearAndAbort now reason stopped)
  then show "sys_inv sy \<Longrightarrow> sys_inv (queue_step m sy e)"
    by (simp add: abort_active_inv on_db_inv evolves_clear)
next
  case (RewriteRecordings f)
  have "evolves d (db_update_recordings (\<lambda>_. True) (\<lambda>r. (f r)\<lparr>r_id := r_id r\<rparr>) d)" for d
    by (rule evolves_update_recordings) simp
  with RewriteRecordings show "sys_inv sy \<Longrightarrow> sys_inv (queue_step m sy e)"
    by (simp add: on_db_inv)
next
  case (Pause io)
  then show "sys_inv sy \<Longrightarrow> sys_inv (queue_step m sy e)" by (simp add: sys_inv_def)
next
  case (Resume io)
  then show "sys_inv sy \<Longrightarrow> sys_inv (queue_step m sy e)" by (simp add: sys_inv_def)
qed (simp_all add: on_db_inv evolves_enqueue claim_pass_inv heartbeat_pass_inv run_over_inv
      evolves_cancel inv_keyed evolves_retry_failed evolves_reclaim_stale evolves_release_stranded evolves_queue_unprocessed
      add_recording_inv retry_job_inv)

definition cancelled_ids :: "system \<Rightarrow> row_id set" where
  "cancelled_ids sy = j_id ` {j \<in> set (db_jobs (sy_db sy)). j_state j = JCancelled}"

lemma evolves_cancelled_ids:
  "evolves (sy_db sy) (sy_db sy') \<Longrightarrow> cancelled_ids sy \<subseteq> cancelled_ids sy'"
proof
  fix i assume ev: "evolves (sy_db sy) (sy_db sy')" and "i \<in> cancelled_ids sy"
  then obtain j where "j \<in> set (db_jobs (sy_db sy))" "j_state j = JCancelled" "i = j_id j"
    by (auto simp: cancelled_ids_def)
  with evolves_cancelled [OF ev] obtain j' where "j' \<in> set (db_jobs (sy_db sy'))" "i = j_id j'"
      "j_state j' = JCancelled" by metis
  then show "i \<in> cancelled_ids sy'" by (simp add: cancelled_ids_def)
qed

lemma claim_pass_cancelled:
  assumes "sys_inv sy"
  shows "cancelled_ids sy \<subseteq> cancelled_ids (claim_pass now w sy)"
proof
  fix i assume "i \<in> cancelled_ids sy"
  then obtain j where j: "j \<in> set (db_jobs (sy_db sy))" "j_state j = JCancelled" "i = j_id j"
    by (auto simp: cancelled_ids_def)
  obtain r d where c: "claim_next (sy_flags sy) now w (active_ids sy) (sy_db sy) = (r, d)" by fastforce
  have "sy_db (claim_pass now w sy) = d" using c by (cases r) (simp_all add: claim_pass_def)
  moreover obtain j' where "j' \<in> set (db_jobs d)" "j_id j' = i" "j_state j' = JCancelled"
    using claim_evolves_rows [OF inv_keyed [OF assms] c j(1)] j by blast
  ultimately show "i \<in> cancelled_ids (claim_pass now w sy)" unfolding cancelled_ids_def by blast
qed

lemma run_over_evolves:
  "sys_inv sy \<Longrightarrow> evolves (sy_db sy) (sy_db (run_over m ts i e sy))"
  using finish_attempts_evolves [OF inv_keyed]
  by (auto simp: run_over_def finish_under_barrier_def Let_def split: option.splits)

lemma heartbeat_pass_evolves: "evolves (sy_db sy) (sy_db (heartbeat_pass now ok i sy))"
proof (cases "find_active i sy")
  case (Some a)
  have "evolves (sy_db sy) (snd (heartbeat now i x1 x2 x3 x4 x5 x6 (sy_db sy)))" for x1 x2 x3 x4 x5 x6
    by (rule evolves_heartbeat)
  with Some show ?thesis by (auto simp: heartbeat_pass_def Let_def case_prod_unfold)
qed (simp add: heartbeat_pass_def)

lemma abort_active_db [simp]: "sy_db (snd (abort_active stopped sy)) = sy_db sy"
  by (simp add: abort_active_def)

text \<open>The one event that revives a cancelled job is the retry of that very job.\<close>

definition retries :: "row_id \<Rightarrow> event \<Rightarrow> bool" where
  "retries i e = (case e of RetryJob k \<Rightarrow> k = i | _ \<Rightarrow> False)"

lemma retry_job_cancelled:
  "cancelled_ids sy - {i} \<subseteq> cancelled_ids (on_db (\<lambda>d. snd (retry_job i d)) sy)"
proof (cases "snd (retry_job i (sy_db sy)) = sy_db sy")
  case False
  then obtain j where "j_id j = i" "snd (retry_job i (sy_db sy)) = put_job (requeued j) (sy_db sy)"
    using retry_job_effect [of i "sy_db sy"] by blast
  then have "{k \<in> set (db_jobs (sy_db sy)). j_id k \<noteq> i} \<subseteq>
      set (db_jobs (sy_db (on_db (\<lambda>d. snd (retry_job i d)) sy)))"
    by (auto simp: on_db_def put_job_def set_update_where)
  then show ?thesis unfolding cancelled_ids_def by blast
qed (simp add: on_db_def cancelled_ids_def)

lemma queue_step_cancelled:
  assumes "sys_inv sy" and "\<not> retries i e" and "i \<in> cancelled_ids sy"
  shows "i \<in> cancelled_ids (queue_step m sy e)"
proof -
  have "cancelled_ids sy - {k. retries k e} \<subseteq> cancelled_ids (queue_step m sy e)"
  proof (cases e)
    case (Claim now w)
    then show ?thesis using claim_pass_cancelled [OF assms(1)] by auto
  next
    case (AddRecording r)
    then show ?thesis by (auto simp: cancelled_ids_def on_db_def)
  next
    case (RewriteRecordings f)
    then show ?thesis by (auto simp: cancelled_ids_def on_db_def)
  next
    case (RetryJob k)
    then show ?thesis using retry_job_cancelled [of sy k] by (simp add: retries_def)
  qed (rule order_trans [OF Diff_subset evolves_cancelled_ids],
      simp add: on_db_def assms(1) evolves_enqueue heartbeat_pass_evolves run_over_evolves evolves_cancel inv_keyed
        evolves_retry_failed evolves_reclaim_stale evolves_release_stranded evolves_queue_unprocessed
        restart_evolves evolves_clear)+
  with assms(2,3) show ?thesis by blast
qed

interpretation queueing: machine "queue_step m" sys_inv
  by unfold_locales (rule queue_step_inv)

text \<open>C1: no interleaving of requests, scans' queueing passes, claims, heartbeats, outcomes, cancellations, wipes,
  reclaims, restarts and row rewrites ever has two running jobs for one recording, or two
  runs in flight for one recording; the tables stay well-formed.\<close>

theorem one_run_per_recording:
  assumes "sys_inv sy"
  shows "wf_queue (sy_db (foldl (queue_step m) sy es)) \<and>
    (\<forall>a \<in> set (sy_active (foldl (queue_step m) sy es)).
     \<forall>b \<in> set (sy_active (foldl (queue_step m) sy es)).
       aj_recording a \<noteq> None \<and> aj_recording a = aj_recording b \<longrightarrow> a = b)"
proof -
  let ?s = "foldl (queue_step m) sy es"
  have inv: "sys_inv ?s" using queueing.run_inv [OF assms] .
  then have "distinct (List.map aj_job (sy_active ?s))"
    and "\<forall>a \<in> set (sy_active ?s). \<forall>b \<in> set (sy_active ?s).
       aj_recording a \<noteq> None \<and> aj_recording a = aj_recording b \<longrightarrow> aj_job a = aj_job b"
    unfolding sys_inv_def registered_def by blast+
  then have "\<forall>a \<in> set (sy_active ?s). \<forall>b \<in> set (sy_active ?s).
       aj_recording a \<noteq> None \<and> aj_recording a = aj_recording b \<longrightarrow> a = b"
    by (metis distinct_map inj_onD)
  with inv show ?thesis by (simp add: sys_inv_def)
qed

text \<open>C9: only a retry of that very job revives a cancelled job. Through every sequence of the
  machine's events none of which is \<^verbatim>\<open>POST /jobs/{id}/retry\<close> for its id, a cancelled job
  stays cancelled: no outcome of a run that was still in flight, no bulk retry, retry of another
  job, reclaim, reconciliation or restart brings it back. The pruning of old rows, which deletes
  it, is not among the events.\<close>

theorem cancelled_is_final:
  assumes "sys_inv sy" and "j \<in> set (db_jobs (sy_db sy))" and "j_state j = JCancelled"
    and "list_all (\<lambda>e. \<not> retries (j_id j) e) es"
  shows "\<exists>j' \<in> set (db_jobs (sy_db (foldl (queue_step m) sy es))). j_id j' = j_id j \<and> j_state j' = JCancelled"
proof -
  have "j_id j \<in> cancelled_ids sy" using assms(2,3) by (simp add: cancelled_ids_def)
  then have "j_id j \<in> cancelled_ids (foldl (queue_step m) sy es)"
    using queueing.run_keeps [where P = "\<lambda>s. j_id j \<in> cancelled_ids s" and m = m,
        OF queue_step_cancelled assms(1,4)] by simp
  then show ?thesis by (auto simp: cancelled_ids_def)
qed

text \<open>The exception is real: the retry of a cancelled job with nothing else live queues it again.\<close>

lemma retry_revives:
  assumes "get_job i d = Some j" and "j_recording_id j = None"
  shows "fst (retry_job i d) = Inr (requeued j)"
  using assms by (simp add: retry_job_def)

subsection \<open>Instances\<close>

definition sample_system :: system where
  "sample_system =
     \<lparr>sy_db = \<lparr>db_recordings = [sample_recording],
               db_jobs = [sample_job, sample_job\<lparr>j_id := 2, j_state := JCancelled\<rparr>], db_journeys = []\<rparr>,
      sy_flags = sample_flags, sy_active = []\<rparr>"

lemma sample_system_inv: "sys_inv sample_system"
  by (simp add: sys_inv_def sample_system_def wf_queue_def db_keyed_def keyed_def exclusive_def
      registered_def job_ok_def sample_job_def sample_recording_def)

lemma one_run_per_recording_witness:
  "sys_inv sample_system \<and>
   wf_queue (sy_db (foldl (queue_step 2) sample_system
     [Claim 60 ''w0'', ReclaimStale 1000000000 300, Claim 70 ''w1'', RunOver (\<lambda>_. (80, True)) 1 Interrupted]))"
  using one_run_per_recording [OF sample_system_inv] sample_system_inv by blast

lemma cancelled_is_final_witness:
  "\<exists>j' \<in> set (db_jobs (sy_db (foldl (queue_step 2) sample_system
       [RetryFailed, RetryJob 1, Restart 90, Claim 100 ''w0'']))).
     j_id j' = 2 \<and> j_state j' = JCancelled"
  using cancelled_is_final [OF sample_system_inv, of "sample_job\<lparr>j_id := 2, j_state := JCancelled\<rparr>"
      "[RetryFailed, RetryJob 1, Restart 90, Claim 100 ''w0'']" 2]
  by (simp add: sample_system_def retries_def)

lemma finish_respects_cancellation_witness:
  "finish_under_barrier 2 (new_active 2 (Some 7)) (NoteOutcome ''x'') (\<lambda>_. (0, True)) (sy_db sample_system) =
     (False, None, sy_db sample_system)"
  by (rule finish_respects_cancellation)
    (simp add: sample_system_def get_row_def sample_job_def new_active_def)

end
