(* ===== verification/Reset.thy ===== *)
theory Reset
  imports Machine "HOL-Library.Char_ord" "HOL-Library.List_Lexorder"
begin

section \<open>Wiping the queue and rebuilding it\<close>

text \<open>
  Models \<^verbatim>\<open>backend/app/workers/reset.py\<close> on the whole system: the wipe, the abort of the
  runs in flight, the reset epoch, and the new queue derived from the recordings.
  \<open>usable\<close> is \<^verbatim>\<open>thumbnail_is_usable\<close>, which asks the media volume; \<open>stopped\<close> says whether the
  interrupted runs stop within the grace period, \<open>io\<close> whether the reset marker can be
  written. The whole reset runs under the barrier, at one instant.
\<close>

record rebuild_summary =
  rb_cleared :: "(job_state \<times> nat) list"
  rb_aborted :: nat
  rb_recordings :: nat
  rb_thumbnails :: nat
  rb_analysis :: nat
  rb_released :: nat
  rb_stages :: "string list"
  rb_started_at :: usec

definition RESET_BATCH :: nat where "RESET_BATCH = 500"

definition resettable :: "recording \<Rightarrow> bool" where
  "resettable r \<longleftrightarrow>
     \<not> r_ignored r \<and> \<not> r_file_missing r \<and> r_state r \<noteq> RInvalid \<and> r_state r \<noteq> RSettling \<and>
     (r_fingerprint r \<noteq> None \<or> r_processed_at r \<noteq> None)"

definition reset_rows :: "db \<Rightarrow> recording list" where
  "reset_rows d = sort_key age_key (filter resettable (db_recordings d))"

definition needs_thumbnail :: "(string option \<Rightarrow> bool) \<Rightarrow> recording list \<Rightarrow> row_id list" where
  "needs_thumbnail usable rows =
     List.map r_id (filter (\<lambda>r. \<not> usable (r_thumbnail_path r)) rows)"

definition retire_analysis :: "string list option \<Rightarrow> row_id list \<Rightarrow> db \<Rightarrow> stage list \<times> db" where
  "retire_analysis stages ids d =
     fold (\<lambda>batch (sel, d). case invalidate_recordings batch stages d of
             (s, d') \<Rightarrow> (fold add_stage s sel, d'))
       (batches RESET_BATCH ids) ([], d)"

definition rebuild_job ::
  "int \<Rightarrow> usec \<Rightarrow> row_id list \<Rightarrow> string list option \<Rightarrow> recording \<Rightarrow> db \<Rightarrow> db" where
  "rebuild_job retry_max now missing stages r d =
     (let analysed = (r_processed_at r \<noteq> None);
          sts = (if analysed then stages else None)
      in if r_id r \<in> set missing
         then snd (enqueue retry_max now (Some (r_id r)) KThumbnail sts THUMBNAIL_PRIORITY False d)
         else snd (enqueue retry_max now (Some (r_id r))
                     (if analysed then KReprocess else KProcess) sts BULK_PRIORITY False d))"

text \<open>The \<^verbatim>\<open>queued\<close> set guards against a recording listed twice.\<close>

fun rebuild_jobs ::
  "int \<Rightarrow> usec \<Rightarrow> row_id list \<Rightarrow> string list option \<Rightarrow> row_id list \<Rightarrow> recording list \<Rightarrow>
   nat \<times> nat \<times> db \<Rightarrow> nat \<times> nat \<times> db" where
  "rebuild_jobs retry_max now missing stages old [] acc = acc"
| "rebuild_jobs retry_max now missing stages old (r # rs) (thumbs, analyses, d) =
     (if r_id r \<in> set old then rebuild_jobs retry_max now missing stages old rs (thumbs, analyses, d)
      else rebuild_jobs retry_max now missing stages (r_id r # old) rs
        (if r_id r \<in> set missing then thumbs + 1 else thumbs,
         if r_id r \<in> set missing then analyses else analyses + 1,
         rebuild_job retry_max now missing stages r d))"

definition reset_recordings :: "row_id list \<Rightarrow> db \<Rightarrow> db" where
  "reset_recordings ids d =
     fold (\<lambda>batch. db_update_recordings (\<lambda>r. r_id r \<in> set batch)
             (\<lambda>r. r\<lparr>r_state := RQueued, r_error_message := None\<rparr>))
       (batches RESET_BATCH ids) d"

definition reset_under_barrier ::
  "int \<Rightarrow> usec \<Rightarrow> (string option \<Rightarrow> bool) \<Rightarrow> bool \<Rightarrow> bool \<Rightarrow> string list option \<Rightarrow> system \<Rightarrow>
   rebuild_summary option \<times> system" where
  "reset_under_barrier retry_max now usable stopped io stages sy =
     (let (cleared, d1) = clear now RESET_REASON (sy_db sy);
          (aborted, sy1) = abort_active stopped (sy\<lparr>sy_db := d1\<rparr>)
      in case aborted of
           None \<Rightarrow> (None, sy1)
         | Some n \<Rightarrow>
             (let rows = reset_rows d1;
                  ids = List.map r_id rows;
                  (selected, d2) = retire_analysis stages ids d1;
                  (thumbs, analyses, d3) =
                    rebuild_jobs retry_max now (needs_thumbnail usable rows) stages [] rows (0, 0, d2);
                  (released, d5) = release_stranded_recordings (reset_recordings ids d3)
              in (Some \<lparr>rb_cleared = cleared, rb_aborted = n, rb_recordings = length rows,
                        rb_thumbnails = thumbs, rb_analysis = analyses, rb_released = released,
                        rb_stages = (if selected = []
                                     then (case stages of None \<Rightarrow> [] | Some ss \<Rightarrow> ss)
                                     else sort (List.map stage_name selected)),
                        rb_started_at = now\<rparr>,
                  sy1\<lparr>sy_db := d5, sy_flags := record_reset io now (sy_flags sy1)\<rparr>)))"

subsection \<open>Jobs through the rebuild\<close>

lemma invalidate_jobs [simp]: "db_jobs (snd (invalidate_recordings ids stages d)) = db_jobs d"
  by (simp add: invalidate_recordings_def Let_def)

lemma retire_jobs [simp]: "db_jobs (snd (retire_analysis stages ids d)) = db_jobs d"
proof -
  have "db_jobs (snd (fold (\<lambda>batch (sel, d). case invalidate_recordings batch stages d of
      (s, d') \<Rightarrow> (fold add_stage s sel, d')) bs acc)) = db_jobs (snd acc)" for bs acc
    by (induction bs arbitrary: acc)
      (auto simp: case_prod_unfold)
  then show ?thesis by (simp add: retire_analysis_def)
qed

text \<open>The job a rebuild queues for a recording.\<close>

definition rebuilt :: "usec \<Rightarrow> row_id list \<Rightarrow> string list option \<Rightarrow> recording \<Rightarrow> job \<Rightarrow> bool" where
  "rebuilt now missing stages r j \<longleftrightarrow>
     j_recording_id j = Some (r_id r) \<and> j_state j = JQueued \<and> j_attempts j = 0 \<and>
     j_queued_at j = now \<and> j_not_before j = None \<and>
     (if r_id r \<in> set missing then j_kind j = KThumbnail \<and> j_priority j = THUMBNAIL_PRIORITY
      else j_kind j = (if r_processed_at r \<noteq> None then KReprocess else KProcess) \<and>
           j_priority j = BULK_PRIORITY) \<and>
     j_stages j = (if r_processed_at r \<noteq> None then stages else None)"

lemma rebuild_job_jobs:
  assumes "jobs_of (r_id r) live d = []"
  shows "\<exists>j. db_jobs (rebuild_job m now missing stages r d) = db_jobs d @ [j] \<and>
    rebuilt now missing stages r j"
proof -
  have none: "live_job_of (r_id r) d = None" using assms by (simp add: live_job_of_None)
  have "\<exists>j. db_jobs (snd (enqueue m now (Some (r_id r)) k s p False d)) = db_jobs d @ [j] \<and>
      j = new_job m now (Some (r_id r)) k s p d" for k s p
    using none add_job_jobs [of m now "Some (r_id r)" k s p d]
    by (cases "add_job m now (Some (r_id r)) k s p d") (simp add: enqueue_def)
  then show ?thesis
    by (auto simp: rebuild_job_def rebuilt_def Let_def new_job_def)
qed

lemma rebuild_jobs_jobs:
  assumes "distinct (List.map r_id rs)" and "set (List.map r_id rs) \<inter> set old = {}"
    and "\<forall>r \<in> set rs. jobs_of (r_id r) live d = []"
  shows "\<exists>js. db_jobs (snd (snd (rebuild_jobs m now missing stages old rs (t, a, d)))) = db_jobs d @ js \<and>
    list_all2 (rebuilt now missing stages) rs js"
  using assms
proof (induction rs arbitrary: old t a d)
  case (Cons r rs)
  let ?d = "rebuild_job m now missing stages r d"
  obtain j where j: "db_jobs ?d = db_jobs d @ [j]" "rebuilt now missing stages r j"
    using rebuild_job_jobs Cons.prems(3) by (metis list.set_intros(1))
  have "jobs_of (r_id x) live ?d = []" if "x \<in> set rs" for x
    using that Cons.prems(1,3) j by (auto simp: jobs_of_def rebuilt_def)
  then have fresh: "\<forall>x \<in> set rs. jobs_of (r_id x) live ?d = []" by blast
  have "distinct (List.map r_id rs)" "set (List.map r_id rs) \<inter> set (r_id r # old) = {}"
    using Cons.prems(1,2) by auto
  from Cons.IH [OF this fresh]
  obtain js where js: "db_jobs (snd (snd (rebuild_jobs m now missing stages (r_id r # old) rs
      (if r_id r \<in> set missing then t + 1 else t, if r_id r \<in> set missing then a else a + 1, ?d)))) =
      db_jobs ?d @ js" "list_all2 (rebuilt now missing stages) rs js"
    by blast
  have "r_id r \<notin> set old" using Cons.prems(2) by auto
  with j js show ?case by (intro exI [of _ "j # js"]) simp
qed simp

lemma rebuild_job_evolves: "evolves d (rebuild_job m now missing stages r d)"
  by (simp add: rebuild_job_def Let_def evolves_enqueue)

lemma rebuild_jobs_recordings:
  "List.map r_id (db_recordings (snd (snd (rebuild_jobs m now missing stages old rs acc)))) =
     List.map r_id (db_recordings (snd (snd acc)))"
proof (induction rs arbitrary: old acc)
  case (Cons r rs)
  obtain t a d where acc: "acc = (t, a, d)" by (cases acc)
  have "List.map r_id (db_recordings (rebuild_job m now missing stages r d)) = List.map r_id (db_recordings d)"
    using rebuild_job_evolves unfolding evolves_def by blast
  with Cons acc show ?case by simp
qed simp

subsection \<open>Recordings through the rebuild\<close>

lemma reset_recordings_eq:
  "reset_recordings ids d =
     db_update_recordings (\<lambda>r. r_id r \<in> set ids) (\<lambda>r. r\<lparr>r_state := RQueued, r_error_message := None\<rparr>) d"
proof -
  let ?f = "\<lambda>r. r\<lparr>r_state := RQueued, r_error_message := None\<rparr>"
  have step: "db_update_recordings (\<lambda>r. r_id r \<in> B) ?f (db_update_recordings (\<lambda>r. r_id r \<in> A) ?f x) =
      db_update_recordings (\<lambda>r. r_id r \<in> A \<union> B) ?f x" for A B x
    by (simp add: db_update_recordings_def update_where_def comp_def)
  have "fold (\<lambda>b. db_update_recordings (\<lambda>r. r_id r \<in> set b) ?f) bs
      (db_update_recordings (\<lambda>r. r_id r \<in> A) ?f x) =
      db_update_recordings (\<lambda>r. r_id r \<in> A \<union> set (concat bs)) ?f x" for bs A x
  proof (induction bs arbitrary: A)
    case (Cons b bs)
    have "A \<union> set b \<union> set (concat bs) = A \<union> set (concat (b # bs))" by auto
    with Cons.IH [of "A \<union> set b"] show ?case by (simp only: fold_simps step)
  qed simp
  from this [of "batches RESET_BATCH ids" "{}" d] show ?thesis
    by (simp add: reset_recordings_def concat_batches RESET_BATCH_def
        db_update_recordings_def update_where_def)
qed

lemma reset_recordings_jobs [simp]: "db_jobs (reset_recordings ids d) = db_jobs d"
  by (simp add: reset_recordings_eq)

lemma reset_success:
  assumes "reset_under_barrier m now usable stopped io stages sy = (Some summary, sy')"
  obtains d1 counts d2 rows where "clear now RESET_REASON (sy_db sy) = (counts, d1)"
    and "d2 = snd (retire_analysis stages (List.map r_id (reset_rows d1)) d1)"
    and "rows = reset_rows d1"
    and "sy_db sy' = snd (release_stranded_recordings (reset_recordings (List.map r_id rows)
           (snd (snd (rebuild_jobs m now (needs_thumbnail usable rows) stages [] rows (0, 0, d2))))))"
    and "sy_active sy' = []" and "sy_flags sy' = record_reset io now (sy_flags sy)"
    and "rb_recordings summary = length rows"
proof -
  obtain counts d1 where c: "clear now RESET_REASON (sy_db sy) = (counts, d1)" by fastforce
  obtain ab sy1 where a: "abort_active stopped (sy\<lparr>sy_db := d1\<rparr>) = (ab, sy1)" by fastforce
  have "ab \<noteq> None" using assms c a by (cases ab) (simp_all add: reset_under_barrier_def)
  then have "sy_active sy1 = [] \<and> sy_flags sy1 = sy_flags sy"
    using a by (auto simp: abort_active_def split: if_splits)
  with assms c a \<open>ab \<noteq> None\<close> show thesis
    by (intro that [OF c refl refl]) (auto simp: reset_under_barrier_def Let_def case_prod_unfold)
qed

lemma clear_reset_rows:
  "clear now RESET_REASON d = (counts, d1) \<Longrightarrow> reset_rows d1 = reset_rows d"
  by (auto simp: clear_def reset_rows_def)

lemma clear_no_live:
  assumes "clear now RESET_REASON d = (counts, d1)"
  shows "filter live (db_jobs d1) = []"
proof -
  have "\<forall>j \<in> set (db_jobs d1). j_state j = JCompleted \<or> j_state j = JCancelled"
    using clear_empties [OF assms] by blast
  then show ?thesis by (auto simp: live_def filter_empty_conv)
qed

lemma keyed_recordings_clear:
  "clear now RESET_REASON d = (counts, d1) \<Longrightarrow> db_recordings d1 = db_recordings d"
  by (auto simp: clear_def)

text \<open>C3: a reset that goes through leaves a queue that is a function of the footage alone:
  no run in flight, and exactly one live job for each recording that can be processed, in
  footage order, queued at this instant with a fresh budget, a thumbnail job when the picture
  is missing and the analysis otherwise; each of those recordings waits without an error.
  Nothing of the old queue, however it got there, survives.\<close>

theorem reset_rebuilds:
  assumes "keyed r_id (db_recordings (sy_db sy))"
    and "reset_under_barrier m now usable stopped io stages sy = (Some summary, sy')"
  shows "sy_active sy' = [] \<and>
    list_all2 (rebuilt now (needs_thumbnail usable (reset_rows (sy_db sy))) stages)
      (reset_rows (sy_db sy)) (filter live (db_jobs (sy_db sy'))) \<and>
    (\<forall>r \<in> set (db_recordings (sy_db sy')). r_id r \<in> r_id ` set (reset_rows (sy_db sy)) \<longrightarrow>
       r_state r = RQueued \<and> r_error_message r = None)"
proof -
  from reset_success [OF assms(2)] obtain d1 counts d2 rows where
    c: "clear now RESET_REASON (sy_db sy) = (counts, d1)"
    and d2: "d2 = snd (retire_analysis stages (List.map r_id (reset_rows d1)) d1)"
    and rows: "rows = reset_rows d1"
    and d': "sy_db sy' = snd (release_stranded_recordings (reset_recordings (List.map r_id rows)
           (snd (snd (rebuild_jobs m now (needs_thumbnail usable rows) stages [] rows (0, 0, d2))))))"
    and active: "sy_active sy' = []"
    by metis
  define d3 where "d3 = snd (snd (rebuild_jobs m now (needs_thumbnail usable rows) stages [] rows (0, 0, d2)))"
  let ?d4 = "reset_recordings (List.map r_id rows) d3"
  have same: "rows = reset_rows (sy_db sy)" using rows clear_reset_rows [OF c] by simp
  have dist: "distinct (List.map r_id rows)"
    using assms(1) unfolding same reset_rows_def keyed_def
    by (simp add: distinct_map_filter distinct_map inj_on_def)
  have none: "filter live (db_jobs d2) = []"
    using clear_no_live [OF c] by (simp add: d2)
  then have "jobs_of (r_id r) live d2 = []" for r
    by (auto simp: jobs_of_def filter_empty_conv)
  then obtain js where js: "db_jobs d3 = db_jobs d2 @ js"
      "list_all2 (rebuilt now (needs_thumbnail usable rows) stages) rows js"
    using rebuild_jobs_jobs [OF dist, of "[]" d2 m now "needs_thumbnail usable rows" stages 0 0]
    unfolding d3_def by auto
  have "\<forall>j \<in> set js. live j"
    using js(2) by (auto simp: list_all2_conv_all_nth in_set_conv_nth rebuilt_def live_def)
  then have "filter live (db_jobs d3) = js" using js(1) none by (simp add: filter_id_conv)
  moreover have "db_jobs (sy_db sy') = db_jobs d3"
    unfolding d' by (simp add: release_stranded_recordings_def d3_def)
  moreover have "r_state r = RQueued \<and> r_error_message r = None"
    if member: "r \<in> set (db_recordings (sy_db sy'))" and in_rows: "r_id r \<in> r_id ` set rows" for r
  proof -
    obtain i where i: "i < length rows" "r_id r = r_id (rows ! i)"
      using in_rows by (auto simp: in_set_conv_nth)
    then have "rebuilt now (needs_thumbnail usable rows) stages (rows ! i) (js ! i)" "i < length js"
      using js(2) by (auto simp: list_all2_conv_all_nth)
    then have "has_live_job ?d4 (r_id r)"
      using js(1) i by (auto simp: has_live_job_def rebuilt_def live_def intro!: bexI [of _ "js ! i"])
    moreover obtain r0 where "r0 \<in> set (db_recordings ?d4)"
        "r = (if stranded ?d4 r0 then r0\<lparr>r_state := RDiscovered\<rparr> else r0)"
      using member unfolding d' d3_def [symmetric]
      by (auto simp: release_stranded_recordings_def set_update_where)
    ultimately have "r \<in> set (db_recordings ?d4)" by (auto simp: stranded_def split: if_splits)
    with in_rows show ?thesis by (auto simp: reset_recordings_eq set_update_where)
  qed
  ultimately show ?thesis using active js(2) same by simp
qed

text \<open>A reset that cannot stop a run queues nothing: the old jobs are cancelled, the runs
  still in flight are flagged, and no replacement job exists for any of them to race with.\<close>

theorem reset_refuses_to_race:
  assumes "sy_active sy \<noteq> []"
  shows "\<exists>sy'. reset_under_barrier m now usable False io stages sy = (None, sy') \<and>
    filter live (db_jobs (sy_db sy')) = [] \<and>
    List.map j_id (db_jobs (sy_db sy')) = List.map j_id (db_jobs (sy_db sy)) \<and>
    (\<forall>a \<in> set (sy_active sy'). aj_cancelled a) \<and> sy_flags sy' = sy_flags sy"
proof -
  obtain counts d1 where c: "clear now RESET_REASON (sy_db sy) = (counts, d1)" by fastforce
  have "List.map j_id (db_jobs d1) = List.map j_id (db_jobs (sy_db sy))"
    using c by (auto simp: clear_def update_where_def cleared_row_def)
  with assms c clear_no_live [OF c] show ?thesis
    by (auto simp: reset_under_barrier_def abort_active_def Let_def)
qed

definition stable_recording :: recording where
  "stable_recording = sample_recording\<lparr>r_fingerprint := Some ''f''\<rparr>"

definition reset_system :: system where
  "reset_system = sample_system
     \<lparr>sy_db := (sy_db sample_system)\<lparr>db_recordings := [stable_recording]\<rparr>,
      sy_active := [new_active 1 (Some 7)]\<rparr>"

lemma reset_rebuilds_witness:
  "\<exists>summary sy'. reset_under_barrier 2 500 (\<lambda>_. False) True True None reset_system = (Some summary, sy') \<and>
     length (filter live (db_jobs (sy_db sy'))) = 1"
proof -
  have rows: "reset_rows (sy_db reset_system) = [stable_recording]"
    by (simp add: reset_rows_def reset_system_def resettable_def stable_recording_def
        sample_recording_def)
  have keyed: "keyed r_id (db_recordings (sy_db reset_system))"
    by (simp add: reset_system_def keyed_def)
  obtain res sy' where r: "reset_under_barrier 2 500 (\<lambda>_. False) True True None reset_system = (res, sy')"
    by fastforce
  then obtain summary where "res = Some summary"
    by (auto simp: reset_under_barrier_def abort_active_def Let_def case_prod_unfold reset_system_def)
  with r have s: "reset_under_barrier 2 500 (\<lambda>_. False) True True None reset_system = (Some summary, sy')"
    by simp
  from reset_rebuilds [OF keyed s] have "length (filter live (db_jobs (sy_db sy'))) = 1"
    unfolding rows by (auto dest: list_all2_lengthD)
  with s show ?thesis by blast
qed

lemma reset_refuses_to_race_witness:
  "\<exists>sy'. reset_under_barrier 2 500 (\<lambda>_. False) False True None reset_system = (None, sy') \<and>
     filter live (db_jobs (sy_db sy')) = []"
  using reset_refuses_to_race [of reset_system 2 500 "\<lambda>_. False" True None]
  by (auto simp: reset_system_def)

end
