(* ===== verification/Cleanup.thy ===== *)
theory Cleanup
  imports Orchestrator RetentionProps
begin

section \<open>The two clean-ups that authorise themselves\<close>

text \<open>
  Models \<^verbatim>\<open>backend/app/retention/idle.py\<close> (clips in which nothing happened) and
  \<^verbatim>\<open>retention/parked.py\<close> (journeys that never became a drive). Both hand a plan to
  \<open>execute\<close>. A SQL condition is three-valued; a row passes only if it is true, which the
  definitions write out for the columns that can be null.
\<close>

subsection \<open>Conditions\<close>

definition settled :: "recording \<Rightarrow> bool" where
  "settled r \<longleftrightarrow>
     r_state r = RCompleted \<and> \<not> r_ignored r \<and> r_processed_at r \<noteq> None \<and>
     r_metadata_state r = SDone \<and> r_telemetry_state r = SDone \<and> r_detection_state r = SDone \<and>
     (r_plate_state r = SDone \<or> r_plate_state r = SSkipped) \<and>
     r_metadata_revision r = Some (CURRENT_REVISIONS Metadata) \<and>
     r_telemetry_revision r = Some (CURRENT_REVISIONS Telemetry) \<and>
     r_detection_revision r = Some (CURRENT_REVISIONS Detection) \<and>
     r_plate_revision r = Some (CURRENT_REVISIONS Plates)"

definition spared :: "recording \<Rightarrow> bool" where
  "spared r \<longleftrightarrow> \<not> r_protected r \<and> r_event_type r = None"

definition IDLE_DISTANCE_M :: real where
  "IDLE_DISTANCE_M = 50"

definition static_clip :: "real \<Rightarrow> recording \<Rightarrow> bool" where
  "static_clip threshold r \<longleftrightarrow>
     settled r \<and>
     (case r_max_speed_kmh r of None \<Rightarrow> False | Some v \<Rightarrow> v < threshold) \<and>
     (case r_distance_m r of None \<Rightarrow> True | Some m \<Rightarrow> m < IDLE_DISTANCE_M) \<and>
     r_vehicle_count r = 0 \<and> r_plate_count r = 0 \<and> spared r"

definition live_row :: "recording \<Rightarrow> bool" where
  "live_row r \<longleftrightarrow> \<not> r_file_missing r \<and> r_state r \<noteq> RDeleted"

definition limited_to :: "row_id list option \<Rightarrow> recording \<Rightarrow> bool" where
  "limited_to ids r \<longleftrightarrow> (case ids of None \<Rightarrow> True | Some xs \<Rightarrow> r_id r \<in> set xs)"

subsection \<open>\<^verbatim>\<open>plan_idle\<close>\<close>

definition discard_plan :: "storage_settings \<Rightarrow> db \<Rightarrow> recording list \<Rightarrow> retention_plan \<Rightarrow> retention_plan" where
  "discard_plan cfg d rows p =
     fraction_guard cfg d
       (p\<lparr>pl_candidates := List.map candidate_of rows, pl_bytes_before := indexed_bytes d\<rparr>)"

definition idle_row :: "storage_settings \<Rightarrow> row_id list option \<Rightarrow> db \<Rightarrow> recording \<Rightarrow> bool" where
  "idle_row cfg ids d r \<longleftrightarrow>
     live_row r \<and> static_clip (ss_idle_speed_kmh cfg) r \<and> r_state r \<noteq> RProcessing \<and>
     r_id r \<notin> set (active_recordings d) \<and> limited_to ids r"

definition plan_idle ::
  "storage_settings \<Rightarrow> safety_report \<Rightarrow> row_id list option \<Rightarrow> db \<Rightarrow> retention_plan" where
  "plan_idle cfg rep ids d =
     (let p0 = empty_plan\<lparr>pl_exclude_from_stats := True, pl_safety := Some rep\<rparr>
      in if \<not> ss_delete_idle cfg then p0
         else
           (let p1 = p0\<lparr>pl_deletion_enabled := True\<rparr>
            in if \<not> sr_ok rep
               then p1\<lparr>pl_blocked := True, pl_blocked_reason := sr_blocked_reason rep,
                       pl_bytes_before := sr_total_bytes rep\<rparr>
               else if ids = Some [] then p1
               else discard_plan cfg d (filter (idle_row cfg ids d) (db_recordings d)) p1))"

subsection \<open>\<^verbatim>\<open>plan_parked\<close>\<close>

definition below :: "real \<Rightarrow> real option \<Rightarrow> bool" where
  "below limit v \<longleftrightarrow> 0 < limit \<and> (case v of None \<Rightarrow> False | Some x \<Rightarrow> x < limit)"

definition parked_journey :: "storage_settings \<Rightarrow> journey \<Rightarrow> bool" where
  "parked_journey cfg j \<longleftrightarrow>
     jn_avg_speed_kmh j \<noteq> None \<and> jn_max_speed_kmh j \<noteq> None \<and>
     (below (ss_min_avg_speed_kmh cfg) (jn_avg_speed_kmh j) \<or>
      below (ss_min_top_speed_kmh cfg) (jn_max_speed_kmh j))"

definition parked_journey_ids :: "storage_settings \<Rightarrow> db \<Rightarrow> row_id list" where
  "parked_journey_ids cfg d = List.map jn_id (filter (parked_journey cfg) (db_journeys d))"

definition members :: "row_id \<Rightarrow> db \<Rightarrow> recording list" where
  "members i d = filter (\<lambda>r. r_journey_id r = Some i \<and> live_row r) (db_recordings d)"

text \<open>The group is counted, and the group of a live member is never empty.\<close>

definition fully_settled :: "row_id \<Rightarrow> db \<Rightarrow> bool" where
  "fully_settled i d \<longleftrightarrow>
     members i d \<noteq> [] \<and> length (members i d) = length (filter settled (members i d))"

definition busy_journey :: "row_id \<Rightarrow> db \<Rightarrow> bool" where
  "busy_journey i d \<longleftrightarrow>
     (\<exists>r \<in> set (db_recordings d). r_journey_id r = Some i \<and> r_id r \<in> set (active_recordings d))"

definition parked_row :: "storage_settings \<Rightarrow> row_id list option \<Rightarrow> db \<Rightarrow> recording \<Rightarrow> bool" where
  "parked_row cfg ids d r \<longleftrightarrow>
     live_row r \<and> settled r \<and> spared r \<and> r_state r \<noteq> RProcessing \<and>
     (case r_journey_id r of
        None \<Rightarrow> False
      | Some i \<Rightarrow> i \<in> set (parked_journey_ids cfg d) \<and> fully_settled i d \<and> \<not> busy_journey i d) \<and>
     limited_to ids r"

definition plan_parked ::
  "storage_settings \<Rightarrow> safety_report \<Rightarrow> row_id list option \<Rightarrow> db \<Rightarrow> retention_plan" where
  "plan_parked cfg rep ids d =
     (let p0 = empty_plan\<lparr>pl_exclude_from_stats := True, pl_safety := Some rep\<rparr>
      in if \<not> ss_delete_parked cfg then p0
         else
           (let p1 = p0\<lparr>pl_deletion_enabled := True\<rparr>
            in if \<not> sr_ok rep
               then p1\<lparr>pl_blocked := True, pl_blocked_reason := sr_blocked_reason rep,
                       pl_bytes_before := sr_total_bytes rep\<rparr>
               else if ss_min_avg_speed_kmh cfg \<le> 0 \<and> ss_min_top_speed_kmh cfg \<le> 0 then p1
               else if ids = Some [] then p1
               else discard_plan cfg d (filter (parked_row cfg ids d) (db_recordings d)) p1))"

subsection \<open>What they may pick\<close>

lemma settled_nothing_pending: "settled r \<Longrightarrow> pending_stages r = []"
  by (auto simp: settled_def pending_stages_def needs_stage_def STAGE_ORDER_def)

lemma settled_not_outdated: "settled r \<Longrightarrow> outdated_stages r = []"
  by (auto simp: settled_def outdated_stages_def STAGE_ORDER_def)

lemma spared_no_event: "spared r \<Longrightarrow> \<not> is_event r"
  by (simp add: spared_def is_event_def)

lemma discard_candidates [simp]: "pl_candidates (discard_plan cfg d rows p) = List.map candidate_of rows"
  by (simp add: discard_plan_def)

lemma plan_idle_candidates:
  "c \<in> set (pl_candidates (plan_idle cfg rep ids d)) \<Longrightarrow>
   \<exists>r \<in> set (db_recordings d). c = candidate_of r \<and> idle_row cfg ids d r \<and> sr_ok rep \<and> ss_delete_idle cfg"
  by (auto simp: plan_idle_def Let_def empty_plan_def split: if_splits)

lemma plan_parked_candidates:
  "c \<in> set (pl_candidates (plan_parked cfg rep ids d)) \<Longrightarrow>
   \<exists>r \<in> set (db_recordings d). c = candidate_of r \<and> parked_row cfg ids d r \<and> sr_ok rep \<and>
     ss_delete_parked cfg"
  by (auto simp: plan_parked_def Let_def empty_plan_def split: if_splits)

text \<open>A clip the static rule picks has every stage finished and none outdated under the
  pipeline's own tests, a recorded speed under the threshold, no distance to speak of, no
  detection, no protection or event, and no queued or running job.\<close>

theorem idle_candidates_proven_empty:
  assumes "c \<in> set (pl_candidates (plan_idle cfg rep ids d))"
  shows "\<exists>r \<in> set (db_recordings d). c = candidate_of r \<and> sr_ok rep \<and>
    pending_stages r = [] \<and> outdated_stages r = [] \<and>
    (\<exists>v. r_max_speed_kmh r = Some v \<and> v < ss_idle_speed_kmh cfg) \<and>
    (\<forall>m. r_distance_m r = Some m \<longrightarrow> m < 50) \<and>
    r_vehicle_count r = 0 \<and> r_plate_count r = 0 \<and> \<not> is_event r \<and>
    (\<forall>j \<in> set (db_jobs d). j_recording_id j = Some (r_id r) \<longrightarrow> \<not> live j)"
proof -
  obtain r where r: "r \<in> set (db_recordings d)" "c = candidate_of r" "idle_row cfg ids d r" "sr_ok rep"
    using plan_idle_candidates [OF assms] by blast
  then have s: "settled r" "spared r" by (simp_all add: idle_row_def static_clip_def)
  have "\<forall>j \<in> set (db_jobs d). j_recording_id j = Some (r_id r) \<longrightarrow> \<not> live j"
    using r(3) by (force simp: idle_row_def active_recordings_def map_filter_def)
  with r settled_nothing_pending [OF s(1)] settled_not_outdated [OF s(1)] spared_no_event [OF s(2)]
  show ?thesis
    by (auto simp: idle_row_def static_clip_def IDLE_DISTANCE_M_def split: option.splits)
qed

text \<open>The parked rule picks a clip only on positive evidence about its whole journey: both
  speeds are on record and one is under its limit, every live recording of the journey has
  finished its analysis, and no recording of it has a job queued or running.\<close>

theorem parked_candidates_proven_parked:
  assumes "c \<in> set (pl_candidates (plan_parked cfg rep ids d))"
  shows "\<exists>r \<in> set (db_recordings d). \<exists>i. \<exists>jn \<in> set (db_journeys d).
    c = candidate_of r \<and> sr_ok rep \<and> \<not> is_event r \<and> r_journey_id r = Some i \<and> jn_id jn = i \<and>
    (\<exists>avg top. jn_avg_speed_kmh jn = Some avg \<and> jn_max_speed_kmh jn = Some top \<and>
       (avg < ss_min_avg_speed_kmh cfg \<or> top < ss_min_top_speed_kmh cfg)) \<and>
    (\<forall>m \<in> set (db_recordings d). r_journey_id m = Some i \<longrightarrow>
       (live_row m \<longrightarrow> pending_stages m = [] \<and> outdated_stages m = []) \<and>
       (\<forall>j \<in> set (db_jobs d). j_recording_id j = Some (r_id m) \<longrightarrow> \<not> live j))"
proof -
  obtain r where r: "r \<in> set (db_recordings d)" "c = candidate_of r" "parked_row cfg ids d r" "sr_ok rep"
    using plan_parked_candidates [OF assms] by blast
  then obtain i where i: "r_journey_id r = Some i" "i \<in> set (parked_journey_ids cfg d)"
      "fully_settled i d" "\<not> busy_journey i d" "spared r"
    by (auto simp: parked_row_def split: option.splits)
  obtain jn where jn: "jn \<in> set (db_journeys d)" "jn_id jn = i" "parked_journey cfg jn"
    using i(2) by (auto simp: parked_journey_ids_def)
  have "filter settled (members i d) = members i d"
    using i(3) unfolding fully_settled_def
    by (metis filter_True length_filter_less less_irrefl)
  then have "\<forall>m \<in> set (members i d). settled m" by (simp only: filter_id_conv)
  then have "settled m" if "m \<in> set (db_recordings d)" "r_journey_id m = Some i" "live_row m" for m
    using that by (simp add: members_def)
  moreover have "\<not> live j"
    if "m \<in> set (db_recordings d)" "r_journey_id m = Some i" "j \<in> set (db_jobs d)"
      "j_recording_id j = Some (r_id m)" for m j
    using i(4) that by (force simp: busy_journey_def active_recordings_def map_filter_def)
  moreover have "\<exists>avg top. jn_avg_speed_kmh jn = Some avg \<and> jn_max_speed_kmh jn = Some top \<and>
      (avg < ss_min_avg_speed_kmh cfg \<or> top < ss_min_top_speed_kmh cfg)"
    using jn(3) by (auto simp: parked_journey_def below_def)
  ultimately show ?thesis
    using r i jn spared_no_event settled_nothing_pending settled_not_outdated by metis
qed

definition settled_recording :: recording where
  "settled_recording = sample_recording
     \<lparr>r_state := RCompleted, r_processed_at := Some 900, r_telemetry_state := SDone,
      r_detection_state := SDone, r_plate_state := SSkipped,
      r_telemetry_revision := Some ''telemetry-v5'', r_detection_revision := Some ''detection-v3'',
      r_plate_revision := Some ''plates-v5'', r_max_speed_kmh := Some 0, r_journey_id := Some 3\<rparr>"

definition parked_db :: db where
  "parked_db =
     \<lparr>db_recordings = [settled_recording], db_jobs = [sample_job\<lparr>j_state := JCompleted\<rparr>],
      db_journeys = [\<lparr>jn_id = 3, jn_avg_speed_kmh = Some 0, jn_max_speed_kmh = Some 4\<rparr>]\<rparr>"

lemma settled_sample: "settled settled_recording" "spared settled_recording" "live_row settled_recording"
  "r_id settled_recording = 7" "r_journey_id settled_recording = Some 3"
  "r_max_speed_kmh settled_recording = Some 0" "r_distance_m settled_recording = None"
  "r_vehicle_count settled_recording = 0" "r_plate_count settled_recording = 0"
  "r_state settled_recording = RCompleted"
  by (simp_all add: settled_def spared_def live_row_def settled_recording_def sample_recording_def)

lemma parked_db_inactive: "active_recordings parked_db = []"
  by (simp add: active_recordings_def parked_db_def sample_job_def live_def map_filter_def)

lemma idle_candidates_proven_empty_witness:
  "candidate_of settled_recording \<in> set (pl_candidates (plan_idle sample_settings
     (evaluate_safety sample_settings sample_share sample_db) None parked_db)) \<and>
   pending_stages settled_recording = []"
proof -
  have "idle_row sample_settings None parked_db settled_recording"
    using settled_sample parked_db_inactive
    by (simp add: idle_row_def static_clip_def limited_to_def sample_settings_def)
  then have mem: "candidate_of settled_recording \<in> set (pl_candidates (plan_idle sample_settings
      (evaluate_safety sample_settings sample_share sample_db) None parked_db))"
    using sample_safety(1)
    by (simp add: plan_idle_def Let_def parked_db_def) (simp add: sample_settings_def)
  from idle_candidates_proven_empty [OF mem] mem show ?thesis
    by (simp add: parked_db_def)
qed

lemma parked_candidates_proven_parked_witness:
  "candidate_of settled_recording \<in> set (pl_candidates (plan_parked sample_settings
     (evaluate_safety sample_settings sample_share sample_db) None parked_db)) \<and>
   outdated_stages settled_recording = []"
proof -
  have "parked_journey_ids sample_settings parked_db = [3]"
    by (simp add: parked_journey_ids_def parked_journey_def below_def parked_db_def sample_settings_def)
  then have "parked_row sample_settings None parked_db settled_recording"
    using settled_sample
    by (simp add: parked_row_def limited_to_def fully_settled_def members_def busy_journey_def
        parked_db_inactive)
      (simp add: parked_db_def settled_sample)
  then have mem: "candidate_of settled_recording \<in> set (pl_candidates (plan_parked sample_settings
      (evaluate_safety sample_settings sample_share sample_db) None parked_db))"
    using sample_safety(1)
    by (simp add: plan_parked_def Let_def parked_db_def) (simp add: sample_settings_def)
  from parked_candidates_proven_parked [OF mem] mem settled_sample show ?thesis
    by (simp add: parked_db_def)
qed

end
