(* ===== verification/ObdProtocol.thy ===== *)
theory ObdProtocol
  imports Prelude "HOL-Library.Word"
begin

section \<open>OBD-II: from adapter text to checked frames\<close>

text \<open>
  Models \<^verbatim>\<open>backend/app/obd/protocol.py\<close>: the text an ELM327 adapter returns is cut into
  lines, the lines into byte frames, single-byte runs are split where an ISO 9141 checksum
  proves a boundary, and a payload is only taken from a frame that passes its checks. Bytes
  are \<^typ>\<open>8 word\<close>; the checksum adds them as unbounded integers and masks, as the code does.
  Text is ASCII, which is what \<^verbatim>\<open>decode("ascii", errors="ignore")\<close> leaves. Decoded
  values are exact reals.
\<close>

type_synonym byte = "8 word"

subsection \<open>Text\<close>

datatype obd_raw = RawBytes "byte list" | RawText string

fun response_text :: "obd_raw \<Rightarrow> string" where
  "response_text (RawText s) = filter (\<lambda>c. c \<noteq> CHR 0x00) s"
| "response_text (RawBytes bs) =
     filter (\<lambda>c. c \<noteq> CHR 0x00) (List.map (\<lambda>b. char_of (unat b)) (filter (\<lambda>b. unat b < 128) bs))"

definition normalize_command :: "string \<Rightarrow> string" where
  "normalize_command s = upper (filter (\<lambda>c. \<not> is_space c) s)"

definition NO_DATA_MARKERS :: "string list" where
  "NO_DATA_MARKERS = [''NO DATA'']"

definition TRANSPORT_ERROR_MARKERS :: "string list" where
  "TRANSPORT_ERROR_MARKERS =
     [''UNABLE TO CONNECT'', ''BUS INIT: ERROR'', ''CAN ERROR'', ''STOPPED'', ''BUFFER FULL'',
      ''RX ERROR'']"

definition response_has_no_data :: "obd_raw \<Rightarrow> bool" where
  "response_has_no_data raw \<longleftrightarrow>
     (let u = upper (response_text raw) in \<exists>m \<in> set NO_DATA_MARKERS. contains m u)"

definition response_transport_error :: "obd_raw \<Rightarrow> string option" where
  "response_transport_error raw =
     (let u = upper (response_text raw) in List.find (\<lambda>m. contains m u) TRANSPORT_ERROR_MARKERS)"

text \<open>
  \<^verbatim>\<open>re.split\<close> on runs of line ends, after a prompt has become a line end. Splitting at every
  single one only adds empty lines, and those are dropped by the next step anyway.
\<close>

definition is_line_end :: "char \<Rightarrow> bool" where
  "is_line_end c \<longleftrightarrow> c = CHR 0x0D \<or> c = CHR 0x0A"

fun split_lines :: "string \<Rightarrow> string list" where
  "split_lines [] = [[]]"
| "split_lines (c # cs) =
     (if is_line_end c then [] # split_lines cs
      else case split_lines cs of [] \<Rightarrow> [[c]] | w # ws \<Rightarrow> (c # w) # ws)"

text \<open>One turn of the loop of \<^verbatim>\<open>cleaned_response_lines\<close>: the line it keeps, if any.\<close>

definition kept_line :: "string option \<Rightarrow> string \<Rightarrow> string option" where
  "kept_line expected_echo original =
     (let line = strip original in
      if line = [] then None
      else if expected_echo \<noteq> None \<and> expected_echo \<noteq> Some [] \<and>
              Some (normalize_command line) = expected_echo then None
      else
        let line = (if starts_with ''SEARCHING...'' (upper line)
                    then strip (drop (length ''SEARCHING...'') line) else line);
            u = upper line in
        if line = [] then None
        else if u \<in> {''OK'', ''?'', ''BUS INIT: OK''} then None
        else if \<exists>m \<in> set (NO_DATA_MARKERS @ TRANSPORT_ERROR_MARKERS). contains m u then None
        else Some line)"

definition expected_echo_of :: "string option \<Rightarrow> string option" where
  "expected_echo_of command =
     (case command of None \<Rightarrow> None | Some c \<Rightarrow> if c = [] then None else Some (normalize_command c))"

definition cleaned_response_lines :: "obd_raw \<Rightarrow> string option \<Rightarrow> string list" where
  "cleaned_response_lines raw command =
     (let text = List.map (\<lambda>c. if c = CHR ''>'' then CHR 0x0D else c) (response_text raw) in
      List.map_filter (kept_line (expected_echo_of command)) (split_lines text))"

subsection \<open>Hexadecimal lines\<close>

definition hex_value :: "char \<Rightarrow> nat option" where
  "hex_value c =
     (let n = of_char c :: nat in
      if 48 \<le> n \<and> n \<le> 57 then Some (n - 48)
      else if 65 \<le> n \<and> n \<le> 70 then Some (n - 55)
      else if 97 \<le> n \<and> n \<le> 102 then Some (n - 87)
      else None)"

definition is_hex :: "char \<Rightarrow> bool" where
  "is_hex c \<longleftrightarrow> hex_value c \<noteq> None"

fun hex_bytes :: "string \<Rightarrow> byte list option" where
  "hex_bytes [] = Some []"
| "hex_bytes [_] = None"
| "hex_bytes (a # b # cs) =
     (case (hex_value a, hex_value b, hex_bytes cs) of
        (Some x, Some y, Some bs) \<Rightarrow> Some (of_nat (16 * x + y) # bs)
      | _ \<Rightarrow> None)"

text \<open>
  The group of \<^verbatim>\<open>_INDEXED_HEX_LINE\<close>: hex digits, a colon, white space, then hex digits and
  spaces. (A line whose rest is white space only has a group of spaces or no match; either
  way it yields no bytes.)
\<close>

definition indexed_hex :: "string \<Rightarrow> string option" where
  "indexed_hex line =
     (case dropWhile is_hex line of
        c # rest \<Rightarrow>
          let body = dropWhile is_space rest in
          if c = CHR '':'' \<and> takeWhile is_hex line \<noteq> [] \<and>
             (\<forall>x \<in> set body. is_hex x \<or> x = CHR '' '')
          then Some body else None
      | [] \<Rightarrow> None)"

definition line_to_bytes :: "string \<Rightarrow> byte list option" where
  "line_to_bytes line =
     (let hex = (case indexed_hex line of
                   Some body \<Rightarrow> Some body
                 | None \<Rightarrow> if line \<noteq> [] \<and> (\<forall>x \<in> set line. is_hex x \<or> x = CHR '' '')
                           then Some line else None) in
      case hex of
        None \<Rightarrow> None
      | Some l \<Rightarrow>
          let compact = filter (\<lambda>c. c \<noteq> CHR '' '') l in
          if length compact < 2 \<or> odd (length compact) then None else hex_bytes compact)"

subsection \<open>Splitting a run of single bytes\<close>

text \<open>The test both the splitter and the frame check use: the last byte is the checksum.\<close>

definition checksum_ok :: "byte list \<Rightarrow> bool" where
  "checksum_ok f \<longleftrightarrow>
     5 \<le> length f \<and> take_bit 8 (sum_list (List.map unat (butlast f))) = unat (last f)"

definition slice :: "nat \<Rightarrow> nat \<Rightarrow> 'a list \<Rightarrow> 'a list" where
  "slice a b xs = take (b - a) (drop a xs)"

definition ISO_HEADER :: "byte list" where
  "ISO_HEADER = [0x48, 0x6B]"

definition iso_headers :: "byte list \<Rightarrow> nat list" where
  "iso_headers data = filter (\<lambda>i. slice i (i + 2) data = ISO_HEADER) [0..<length data - 2]"

text \<open>The first later boundary at which the frame from \<open>start\<close> has a valid checksum.\<close>

definition frame_end :: "byte list \<Rightarrow> nat list \<Rightarrow> nat \<Rightarrow> nat option" where
  "frame_end data ends start = List.find (\<lambda>e. checksum_ok (slice start e data)) ends"

text \<open>\<^verbatim>\<open>valid\<close>: the dictionary from the starts that have an end to that end.\<close>

fun valid_frames :: "byte list \<Rightarrow> nat list \<Rightarrow> (nat \<times> nat) list" where
  "valid_frames data [] = []"
| "valid_frames data (start # later) =
     (case frame_end data (later @ [length data]) start of
        Some e \<Rightarrow> (start, e) # valid_frames data later
      | None \<Rightarrow> valid_frames data later)"

text \<open>
  The cursor loop. A step of the code whose frame does not advance the cursor would loop for
  ever; the dictionary never holds such a frame (\<open>valid_frames_bounds\<close> below), and the guard
  here returns the pieces so far.
\<close>

function split_from :: "byte list \<Rightarrow> (nat \<times> nat) list \<Rightarrow> nat \<Rightarrow> byte list list" where
  "split_from data valid cursor =
     (if length data \<le> cursor then []
      else case List.find (\<lambda>v. cursor \<le> fst v) valid of
        None \<Rightarrow> [drop cursor data]
      | Some (start, e) \<Rightarrow>
          (if cursor < start then [slice cursor start data] else []) @ [slice start e data] @
          (if cursor < e then split_from data valid e else []))"
  by pat_completeness auto
termination
  by (relation "measure (\<lambda>(data, valid, cursor). length data - cursor)") auto

declare split_from.simps [simp del]

definition split_iso_byte_run :: "byte list \<Rightarrow> byte list list" where
  "split_iso_byte_run data =
     (if length data < 5 then [data]
      else
        let valid = valid_frames data (iso_headers data) in
        if valid = [] then [data]
        else filter (\<lambda>p. p \<noteq> []) (split_from data valid 0))"

subsection \<open>Frames\<close>

definition flush :: "byte list \<Rightarrow> byte list list" where
  "flush run = (if run = [] then [] else split_iso_byte_run run)"

fun frame_loop :: "byte list \<Rightarrow> string list \<Rightarrow> byte list list" where
  "frame_loop run [] = flush run"
| "frame_loop run (line # later) =
     (case line_to_bytes line of
        None \<Rightarrow> flush run @ frame_loop [] later
      | Some parsed \<Rightarrow>
          if length parsed = 1 then frame_loop (run @ parsed) later
          else flush run @ [parsed] @ frame_loop [] later)"

definition response_frames :: "obd_raw \<Rightarrow> string option \<Rightarrow> byte list list" where
  "response_frames raw command = frame_loop [] (cleaned_response_lines raw command)"

definition valid_frame ::
    "byte list \<Rightarrow> nat \<Rightarrow> bool \<Rightarrow> byte option \<Rightarrow> nat option \<Rightarrow> bool" where
  "valid_frame frame marker_index strict_iso expected_source exact_end \<longleftrightarrow>
     (let ok = (marker_index \<noteq> 3 \<or> checksum_ok frame) in
      if strict_iso then
        if marker_index \<noteq> 3 \<or> length frame < 5 \<or> take 2 frame \<noteq> ISO_HEADER \<or> \<not> ok then False
        else if (case expected_source of None \<Rightarrow> False | Some s \<Rightarrow> frame ! 2 \<noteq> s) then False
        else (case exact_end of None \<Rightarrow> True | Some e \<Rightarrow> length frame = e + 1)
      else ok)"

text \<open>\<^verbatim>\<open>bytes.find\<close>: the first index at which the marker occurs.\<close>

fun find_marker :: "byte list \<Rightarrow> byte list \<Rightarrow> nat option" where
  "find_marker m [] = (if m = [] then Some 0 else None)"
| "find_marker m (b # bs) =
     (if take (length m) (b # bs) = m then Some 0 else map_option Suc (find_marker m bs))"

definition payload_of ::
    "byte list \<Rightarrow> nat \<Rightarrow> bool \<Rightarrow> byte option \<Rightarrow> byte list \<Rightarrow> byte list option" where
  "payload_of marker expected_length strict_iso expected_source frame =
     (case find_marker marker frame of
        None \<Rightarrow> None
      | Some start \<Rightarrow>
          let payload_end = start + length marker + expected_length in
          if valid_frame frame start strict_iso expected_source (Some payload_end)
          then Some (slice (start + length marker) payload_end frame) else None)"

fun first_some :: "('a \<Rightarrow> 'b option) \<Rightarrow> 'a list \<Rightarrow> 'b option" where
  "first_some f [] = None"
| "first_some f (x # xs) = (case f x of Some y \<Rightarrow> Some y | None \<Rightarrow> first_some f xs)"

definition extract_pid_payload ::
    "obd_raw \<Rightarrow> byte \<Rightarrow> nat \<Rightarrow> byte \<Rightarrow> string option \<Rightarrow> bool \<Rightarrow> byte option \<Rightarrow> byte list option" where
  "extract_pid_payload raw pid expected_length mode command strict_iso expected_source =
     first_some (payload_of [mode + 0x40, pid] expected_length strict_iso expected_source)
       (response_frames raw command)"

definition iso_source_of :: "byte list \<Rightarrow> byte list \<Rightarrow> byte option" where
  "iso_source_of marker frame =
     (if find_marker marker frame = Some 3 \<and> 5 \<le> length frame \<and> take 2 frame = ISO_HEADER \<and>
         checksum_ok frame
      then Some (frame ! 2) else None)"

definition extract_iso_source ::
    "obd_raw \<Rightarrow> byte \<Rightarrow> byte option \<Rightarrow> string option \<Rightarrow> byte option" where
  "extract_iso_source raw mode pid command =
     first_some
       (iso_source_of (case pid of None \<Rightarrow> [mode + 0x40] | Some p \<Rightarrow> [mode + 0x40, p]))
       (response_frames raw command)"

definition mode_payload_of :: "byte \<Rightarrow> bool \<Rightarrow> byte option \<Rightarrow> byte list \<Rightarrow> byte list option" where
  "mode_payload_of mode strict_iso expected_source frame =
     (case find_marker [mode + 0x40] frame of
        None \<Rightarrow> None
      | Some index \<Rightarrow>
          if \<not> valid_frame frame index strict_iso expected_source None then None
          else
            let payload = drop (index + 1) frame;
                payload = (if 3 \<le> index \<and> payload \<noteq> [] then butlast payload else payload) in
            if payload = [] then None else Some payload)"

definition extract_mode_payloads ::
    "obd_raw \<Rightarrow> byte \<Rightarrow> string option \<Rightarrow> bool \<Rightarrow> byte option \<Rightarrow> byte list list" where
  "extract_mode_payloads raw mode command strict_iso expected_source =
     List.map_filter (mode_payload_of mode strict_iso expected_source)
       (response_frames raw command)"

end
