(* ===== verification/ObdValues.thy ===== *)
theory ObdValues
  imports ObdProtocol
begin

section \<open>OBD-II: decoding checked payloads\<close>

text \<open>
  Models the second half of \<^verbatim>\<open>backend/app/obd/protocol.py\<close>: the adapter's voltage, the
  supported-PID bit mask, the Mode 01 values, trouble codes and the fuel estimates, with the
  laws of the bit mask and of the codes.
\<close>

subsection \<open>Voltage\<close>

fun digits_nat :: "nat \<Rightarrow> string \<Rightarrow> nat" where
  "digits_nat acc [] = acc"
| "digits_nat acc (c # cs) = digits_nat (10 * acc + nat (digit_value c)) cs"

definition is_word_char :: "char \<Rightarrow> bool" where
  "is_word_char c \<longleftrightarrow>
     is_digit c \<or> is_upper_letter c \<or> is_upper_letter (upper_char c) \<or> c = CHR ''_''"

text \<open>
  \<^verbatim>\<open>_VOLTAGE\<close> at one position: one or two digits, an optional fraction, white space, a V that
  ends a word. Every part is maximal, since a digit left over could not be followed by a V.
\<close>

definition voltage_at :: "string \<Rightarrow> real option" where
  "voltage_at s =
     (let whole = takeWhile is_digit s;
          rest = dropWhile is_digit s;
          frac = (case rest of [] \<Rightarrow> [] | c # cs \<Rightarrow> if c = CHR ''.'' then takeWhile is_digit cs else []);
          tail = dropWhile is_space (if frac = [] then rest else dropWhile is_digit (tl rest)) in
      if whole = [] \<or> 2 < length whole then None
      else case tail of
        [] \<Rightarrow> None
      | c # cs \<Rightarrow>
          if upper_char c = CHR ''V'' \<and> (cs = [] \<or> \<not> is_word_char (hd cs))
          then Some (real (digits_nat 0 whole) + real (digits_nat 0 frac) / 10 ^ length frac)
          else None)"

text \<open>The search, with the character before the position for the look-behind.\<close>

fun voltage_search :: "char option \<Rightarrow> string \<Rightarrow> real option" where
  "voltage_search before [] = None"
| "voltage_search before (c # cs) =
     (let blocked = (case before of None \<Rightarrow> False | Some b \<Rightarrow> is_digit b \<or> b = CHR ''.'') in
      case (if blocked then None else voltage_at (c # cs)) of
        Some v \<Rightarrow> Some v
      | None \<Rightarrow> voltage_search (Some c) cs)"

definition parse_voltage :: "obd_raw \<Rightarrow> real option" where
  "parse_voltage raw = voltage_search None (response_text raw)"

subsection \<open>Supported PIDs\<close>

definition be_value :: "byte list \<Rightarrow> nat" where
  "be_value bs = foldl (\<lambda>acc b. 256 * acc + unat b) 0 bs"

definition mask_pids :: "nat \<Rightarrow> nat \<Rightarrow> nat list" where
  "mask_pids base m = List.map (\<lambda>n. base + n) (filter (\<lambda>n. bit m (32 - n)) [1..<33])"

definition decode_supported_pids :: "nat \<Rightarrow> byte list \<Rightarrow> nat set" where
  "decode_supported_pids base_pid payload =
     (if length payload < 4 then {} else set (mask_pids base_pid (be_value (take 4 payload))))"

subsection \<open>Mode 01 values\<close>

datatype obd_value = OText string | OReal real | ONone

definition FUEL_SYSTEM_STATES :: "(byte \<times> string) list" where
  "FUEL_SYSTEM_STATES =
     [(0x01, ''open_loop_insufficient_temperature''), (0x02, ''closed_loop''),
      (0x04, ''open_loop_engine_load_or_deceleration''), (0x08, ''open_loop_system_failure''),
      (0x10, ''closed_loop_with_fault'')]"

fun join :: "string \<Rightarrow> string list \<Rightarrow> string" where
  "join sep [] = []"
| "join sep [s] = s"
| "join sep (s # ss) = s @ sep @ join sep ss"

definition percentage :: "byte \<Rightarrow> real" where
  "percentage b = real (unat b) * 100 / 255"

definition fuel_trim :: "byte \<Rightarrow> obd_value" where
  "fuel_trim b = (if b = 0xFF then ONone else OReal (real (unat b) * 100 / 128 - 100))"

definition fuel_system :: "byte \<Rightarrow> string" where
  "fuel_system b =
     (let states = List.map snd (filter (\<lambda>(m, _). and b m \<noteq> 0) FUEL_SYSTEM_STATES) in
      if states = [] then ''not_available'' else join '', '' states)"

definition decode_pid :: "byte \<Rightarrow> byte list \<Rightarrow> (string \<times> obd_value) list" where
  "decode_pid pid payload =
     (case payload of
        [] \<Rightarrow> []
      | a # rest \<Rightarrow>
          let two = rest \<noteq> []; x = real (unat a); word = real (be_value (take 2 payload)) in
          if pid = 0x03 \<and> two then [(''fuel_system_1'', OText (fuel_system a))]
          else if pid = 0x04 then [(''engine_load'', OReal (percentage a))]
          else if pid = 0x05 then [(''coolant_temperature'', OReal (x - 40))]
          else if pid = 0x06 then [(''short_term_fuel_trim_bank_1'', fuel_trim a)]
          else if pid = 0x07 then [(''long_term_fuel_trim_bank_1'', fuel_trim a)]
          else if pid = 0x0C \<and> two then [(''engine_rpm'', OReal (word / 4))]
          else if pid = 0x0D then [(''vehicle_speed'', OReal x)]
          else if pid = 0x0E then [(''timing_advance'', OReal (x / 2 - 64))]
          else if pid = 0x0F then [(''intake_air_temperature'', OReal (x - 40))]
          else if pid = 0x10 \<and> two then [(''mass_air_flow'', OReal (word / 100))]
          else if pid = 0x11 then [(''throttle_position'', OReal (percentage a))]
          else if 0x14 \<le> pid \<and> pid \<le> 0x15 \<and> two then
            let sensor = (if pid = 0x14 then ''1'' else ''2'') in
            [(''oxygen_sensor_'' @ sensor @ ''_voltage'', OReal (x / 200)),
             (''oxygen_sensor_'' @ sensor @ ''_short_term_fuel_trim'', fuel_trim (hd rest))]
          else [])"

subsection \<open>Trouble codes\<close>

definition hex_digit :: "nat \<Rightarrow> char" where
  "hex_digit n = char_of (if n < 10 then 48 + n else 55 + n)"

definition dtc_code :: "byte \<Rightarrow> byte \<Rightarrow> string" where
  "dtc_code first second =
     [''PCBU'' ! unat (and (drop_bit 6 first) 3), hex_digit (unat (and (drop_bit 4 first) 3)),
      hex_digit (unat (and first 15)), hex_digit (unat second div 16), hex_digit (unat second mod 16)]"

text \<open>The pairs the inner loop visits; a trailing odd byte is never one.\<close>

fun pairs_of :: "byte list \<Rightarrow> (byte \<times> byte) list" where
  "pairs_of (a # b # rest) = (a, b) # pairs_of rest"
| "pairs_of _ = []"

definition dtc_step :: "string list \<Rightarrow> byte \<times> byte \<Rightarrow> string list" where
  "dtc_step codes p =
     (let (first, second) = p in
      if first = 0 \<and> second = 0 then codes
      else let code = dtc_code first second in
           if code \<in> set codes then codes else codes @ [code])"

definition decode_dtcs :: "byte list list \<Rightarrow> string list" where
  "decode_dtcs payloads = foldl (\<lambda>codes p. foldl dtc_step codes (pairs_of p)) [] payloads"

subsection \<open>Fuel estimates\<close>

definition value_of :: "string \<Rightarrow> (string \<times> obd_value) list \<Rightarrow> real option" where
  "value_of key values = (case map_of values key of Some (OReal r) \<Rightarrow> Some r | _ \<Rightarrow> None)"

definition calculate_estimates :: "(string \<times> obd_value) list \<Rightarrow> (string \<times> real) list" where
  "calculate_estimates values =
     (case value_of ''mass_air_flow'' values of
        None \<Rightarrow> []
      | Some maf \<Rightarrow>
          if maf < 0 then []
          else
            let rate = maf * 3600 / (14.7 * 745) in
            (''estimated_fuel_rate'', rate) #
            (case value_of ''vehicle_speed'' values of
               Some speed \<Rightarrow>
                 if 5 \<le> speed then [(''estimated_fuel_consumption'', rate * 100 / speed)] else []
             | None \<Rightarrow> []))"

end
