(* ===== verification/ObdProps.thy ===== *)
theory ObdProps
  imports ObdValues
begin

section \<open>OBD-II: what the framing and the decoding guarantee\<close>

text \<open>
  No byte is lost or moved by the framing, well-formed ISO frames are recovered from a run of
  single bytes, an accepted strict payload is one that a checksum-valid frame carries, and a
  printed answer is read back. Then the laws of the bit mask and of the trouble codes.
\<close>

subsection \<open>The splitter loses nothing\<close>

lemma slice_append_drop:
  "a \<le> b \<Longrightarrow> slice a b xs @ drop b xs = drop a xs"
  by (simp add: slice_def flip: drop_drop) (metis append_take_drop_id drop_drop le_add_diff_inverse2)

lemma length_slice: "b \<le> length xs \<Longrightarrow> length (slice a b xs) = b - a"
  by (simp add: slice_def)

lemma set_valid_frames:
  "set (valid_frames data hs) \<subseteq>
     {(s, e). s \<in> set hs \<and> e \<in> insert (length data) (set hs) \<and> checksum_ok (slice s e data)}"
proof (induction hs)
  case (Cons h hs)
  have "frame_end data (hs @ [length data]) h = Some e \<Longrightarrow>
      e \<in> insert (length data) (set hs) \<and> checksum_ok (slice h e data)" for e
    by (auto simp: frame_end_def find_Some_iff) (metis nth_append nth_mem length_append
        nth_append_length less_antisym length_append_singleton)+
  with Cons show ?case by (auto split: option.splits)
qed simp

text \<open>A checksum-valid slice has at least five bytes, so its end lies well past its start.\<close>

lemma valid_frames_bounds:
  assumes "(s, e) \<in> set (valid_frames data (iso_headers data))"
  shows "s + 5 \<le> e \<and> e \<le> length data"
proof -
  have "e \<le> length data" "checksum_ok (slice s e data)"
    using subsetD [OF set_valid_frames assms] by (auto simp: iso_headers_def)
  then show ?thesis by (auto simp: checksum_ok_def slice_def)
qed

lemma split_from_concat:
  assumes "\<And>s e. (s, e) \<in> set valid \<Longrightarrow> s < e \<and> e \<le> length data"
  shows "concat (split_from data valid cursor) = drop cursor data"
proof (induction "length data - cursor" arbitrary: cursor rule: less_induct)
  case less
  show ?case
  proof (cases "length data \<le> cursor \<or> List.find (\<lambda>v. cursor \<le> fst v) valid = None")
    case True
    then show ?thesis by (subst split_from.simps) auto
  next
    case False
    then obtain s e where f: "List.find (\<lambda>v. cursor \<le> fst v) valid = Some (s, e)" by fastforce
    then have "(s, e) \<in> set valid" "cursor \<le> s" using find_SomeD [OF f] by auto
    with assms have b: "cursor \<le> s" "s < e" "e \<le> length data" by blast+
    have "concat (split_from data valid e) = drop e data"
      by (rule less) (use b False in linarith)
    then have "concat (split_from data valid cursor) =
        (if cursor < s then slice cursor s data else []) @ slice s e data @ drop e data"
      using f b False by (subst split_from.simps) simp
    also have "\<dots> = (if cursor < s then slice cursor s data else []) @ drop s data"
      using b by (simp add: slice_append_drop)
    also have "\<dots> = drop cursor data"
      using b by (auto simp: slice_append_drop)
    finally show ?thesis .
  qed
qed

lemma concat_filter_nonempty: "concat (filter (\<lambda>p. p \<noteq> []) xs) = concat xs"
  by (induction xs) auto

lemma concat_split [simp]: "concat (split_iso_byte_run data) = data"
proof -
  have "concat (split_from data (valid_frames data (iso_headers data)) 0) = drop 0 data"
    by (rule split_from_concat) (use valid_frames_bounds in fastforce)
  then show ?thesis by (simp add: split_iso_byte_run_def concat_filter_nonempty Let_def)
qed

lemma split_no_empty: "data \<noteq> [] \<Longrightarrow> [] \<notin> set (split_iso_byte_run data)"
  by (auto simp: split_iso_byte_run_def Let_def)

lemma line_to_bytes_nonempty: "line_to_bytes l = Some bs \<Longrightarrow> bs \<noteq> []"
proof -
  have "hex_bytes cs = Some bs \<Longrightarrow> \<not> length cs < 2 \<Longrightarrow> bs \<noteq> []" for cs
    by (induction cs rule: hex_bytes.induct) (auto split: option.splits)
  then show "line_to_bytes l = Some bs \<Longrightarrow> bs \<noteq> []"
    by (auto simp: line_to_bytes_def Let_def split: option.splits if_splits)
qed

lemma frame_loop_lossless:
  "concat (frame_loop run ls) = run @ concat (List.map_filter line_to_bytes ls) \<and>
   [] \<notin> set (frame_loop run ls)"
proof (induction run ls rule: frame_loop.induct)
  case (1 run)
  then show ?case by (simp add: flush_def split_no_empty)
next
  case (2 run line later)
  then show ?case
    by (auto simp: flush_def split_no_empty List.map_filter_simps line_to_bytes_nonempty
        dest: line_to_bytes_nonempty split: option.splits)
qed

text \<open>
  The frames of a response, joined, are exactly the bytes of its hexadecimal lines in order,
  and no frame is empty.
\<close>

lemma response_frames_lossless:
  "concat (response_frames raw command) =
     concat (List.map_filter line_to_bytes (cleaned_response_lines raw command)) \<and>
   [] \<notin> set (response_frames raw command)"
  using frame_loop_lossless [of "[]" "cleaned_response_lines raw command"]
  by (simp add: response_frames_def)

subsection \<open>Well-formed frames are recovered from a run of bytes\<close>

text \<open>
  An ISO frame as the vehicle sends it. The header pattern may recur inside it, as long as what
  stands before the recurrence does not end in its own checksum: of such a frame no splitter by
  checksums can tell where it ends.
\<close>

definition iso_frame_ok :: "byte list \<Rightarrow> bool" where
  "iso_frame_ok f \<longleftrightarrow> checksum_ok f \<and> take 2 f = ISO_HEADER \<and>
     list_all (\<lambda>i. slice i (i + 2) f = ISO_HEADER \<longrightarrow> \<not> checksum_ok (take i f)) [1..<length f - 1]"

lemma iso_frame_length: "iso_frame_ok f \<Longrightarrow> 5 \<le> length f"
  by (simp add: iso_frame_ok_def checksum_ok_def)

lemma iso_frame_shape:
  assumes "iso_frame_ok f" obtains g where "f = 0x48 # 0x6B # g"
  using assms iso_frame_length [OF assms]
  by (cases f rule: List.list.exhaust; cases "tl f") (auto simp: iso_frame_ok_def ISO_HEADER_def)

lemma slice_prefix: "b \<le> length xs \<Longrightarrow> slice a b (xs @ ys) = slice a b xs"
  by (cases "a \<le> length xs") (auto simp: slice_def)

lemma slice_shift: "length pre \<le> a \<Longrightarrow> a \<le> b \<Longrightarrow> slice a b (pre @ xs) = slice (a - length pre) (b - length pre) xs"
  by (simp add: slice_def)

lemma slice_two: "i + 2 \<le> length xs \<Longrightarrow> slice i (i + 2) xs = [xs ! i, xs ! (i + 1)]"
  by (simp add: slice_def numeral_2_eq_2 take_Suc_conv_app_nth)

text \<open>A header strictly inside one frame of a sequence lies wholly in it, so the bytes before it are
  no frame.\<close>

lemma no_frame_before_header:
  assumes f: "iso_frame_ok f" and fs: "\<forall>g \<in> set fs. iso_frame_ok g"
    and i: "0 < i" "i < length f" "i + 2 < length (f @ concat fs)"
    and head: "slice i (i + 2) (f @ concat fs) = ISO_HEADER"
  shows "\<not> checksum_ok (take i f)"
proof (cases "i + 2 \<le> length f")
  case True
  then have "slice i (i + 2) f = ISO_HEADER" using head by (simp add: slice_prefix)
  moreover have "i \<in> set [1..<length f - 1]" using True i(1) by simp
  ultimately show ?thesis using f unfolding iso_frame_ok_def list_all_iff by blast
next
  case False
  then have last: "i + 1 = length f" using i by linarith
  then have "fs \<noteq> []" using i by auto
  then obtain g gs where "fs = g # gs" by (cases fs) auto
  moreover from this obtain h where "g = 0x48 # 0x6B # h" using fs iso_frame_shape by auto
  ultimately have "slice i (i + 2) (f @ concat fs) = [f ! i, 0x48]"
    using i last by (subst slice_two) (auto simp: nth_append)
  with head show ?thesis by (simp add: ISO_HEADER_def)
qed

text \<open>The first match in a sorted list.\<close>

lemma find_least:
  assumes "sorted xs" and "x \<in> set xs" and "Q x" and "\<And>y. y \<in> set xs \<Longrightarrow> y < x \<Longrightarrow> \<not> Q y"
  shows "List.find Q xs = Some (x :: nat)"
  using assms
proof (induction xs)
  case (Cons a xs)
  show ?case
  proof (cases "a = x")
    case False
    then have "x \<in> set xs" "a < x" using Cons.prems(1,2) by auto
    with Cons show ?thesis by simp
  qed (use Cons.prems(3) in simp)
qed simp

lemma find_start:
  fixes s e :: nat
  assumes "sorted_wrt (<) (List.map fst vs)" and "(s, e) \<in> set vs"
  shows "List.find (\<lambda>v. s \<le> fst v) vs = Some (s, e)"
  using assms
proof (induction vs)
  case (Cons v vs)
  show ?case
  proof (cases "v = (s, e)")
    case False
    then have "(s, e) \<in> set vs" using Cons.prems(2) by simp
    moreover from this have "fst v < s" using Cons.prems(1) by force
    ultimately show ?thesis using Cons by simp
  qed simp
qed simp

lemma valid_frames_starts:
  "sorted_wrt (<) hs \<Longrightarrow> sorted_wrt (<) (List.map fst (valid_frames data hs)) \<and>
    fst ` set (valid_frames data hs) \<subseteq> set hs"
  by (induction hs) (auto split: option.split)

lemma valid_frames_mem:
  "frame_end data (later @ [length data]) s = Some e \<Longrightarrow> (s, e) \<in> set (valid_frames data (hs @ s # later))"
  by (induction hs) (auto split: option.split)

lemma iso_headers_sorted: "sorted_wrt (<) (iso_headers data)"
  unfolding iso_headers_def by (intro sorted_wrt_filter) simp

text \<open>The search for a checksum ends exactly at the end of a frame of the run.\<close>

lemma frame_recorded:
  assumes ok: "\<forall>g \<in> set (f # fs). iso_frame_ok g" and data: "data = pre @ f @ concat fs"
  shows "(length pre, length pre + length f) \<in> set (valid_frames data (iso_headers data))"
proof -
  let ?P = "\<lambda>i. slice i (i + 2) data = ISO_HEADER" and ?n = "length pre" and ?m = "length pre + length f"
  have len: "5 \<le> length f" using ok by (simp add: iso_frame_length)
  have at: "slice a b data = slice (a - ?n) (b - ?n) (f @ concat fs)" if "?n \<le> a" "a \<le> b" for a b
    using that by (simp add: data slice_shift)
  define later where "later = filter ?P [Suc ?n..<length data - 2]"
  have "slice ?n (?n + 2) data = slice 0 2 (f @ concat fs)" by (subst at) simp_all
  also have "\<dots> = ISO_HEADER" using ok len by (simp add: slice_def iso_frame_ok_def)
  finally have "?P ?n" .
  moreover have "[0..<length data - 2] = [0..<?n] @ ?n # [Suc ?n..<length data - 2]"
    using upt_add_eq_append [of 0 ?n "length data - 2 - ?n"] len by (simp add: data upt_conv_Cons)
  ultimately have hs: "iso_headers data = filter ?P [0..<?n] @ ?n # later"
    by (simp add: iso_headers_def later_def)
  have "List.find (\<lambda>e. checksum_ok (slice ?n e data)) (later @ [length data]) = Some ?m"
  proof (rule find_least)
    have "sorted later" unfolding later_def by (intro sorted_wrt_filter) simp
    then show "sorted (later @ [length data])" by (auto simp: sorted_append later_def)
    show "?m \<in> set (later @ [length data])"
    proof (cases fs)
      case (Cons g gs)
      then have "5 \<le> length g" "take 2 g = ISO_HEADER" using ok by (simp_all add: iso_frame_length iso_frame_ok_def)
      moreover have "slice ?m (?m + 2) data = slice (length f) (length f + 2) (f @ concat fs)" by (subst at) simp_all
      ultimately have "?P ?m" by (simp add: slice_def Cons)
      moreover have "?m < length data - 2" using \<open>5 \<le> length g\<close> by (simp add: data Cons)
      ultimately show ?thesis using len by (simp add: later_def)
    qed (simp add: data)
    have "slice ?n ?m data = f" by (simp add: slice_def data)
    then show "checksum_ok (slice ?n ?m data)" using ok by (simp add: iso_frame_ok_def)
    fix y assume y: "y \<in> set (later @ [length data])" "y < ?m"
    then have y': "Suc ?n \<le> y" "y < length data - 2" "?P y" by (auto simp: later_def data)
    let ?i = "y - ?n"
    have "slice ?i (?i + 2) (f @ concat fs) = ISO_HEADER" using y' at [of y "y + 2"] by (simp add: Suc_diff_le)
    moreover have "?i + 2 < length (f @ concat fs)" using y'(1,2) by (simp add: data)
    ultimately have "\<not> checksum_ok (take ?i f)"
      using no_frame_before_header [of f fs ?i] ok y(2) y'(1) by simp
    moreover have "slice ?n y data = take ?i f" using y(2) y'(1) by (simp add: slice_def data)
    ultimately show "\<not> checksum_ok (slice ?n y data)" by simp
  qed
  then have "frame_end data (later @ [length data]) ?n = Some ?m" by (simp add: frame_end_def)
  then show ?thesis unfolding hs by (rule valid_frames_mem)
qed

lemma split_from_frames:
  assumes "\<forall>f \<in> set fs. iso_frame_ok f" and "data = pre @ concat fs"
  shows "split_from data (valid_frames data (iso_headers data)) (length pre) = fs"
  using assms
proof (induction fs arbitrary: pre)
  case Nil
  then show ?case by (subst split_from.simps) simp
next
  case (Cons f fs)
  have len: "5 \<le> length f" using Cons.prems by (simp add: iso_frame_length)
  have "split_from data (valid_frames data (iso_headers data)) (length pre + length f) = fs"
    using Cons.IH [of "pre @ f"] Cons.prems by simp
  moreover have "slice (length pre) (length pre + length f) data = f"
    using Cons.prems by (simp add: slice_shift slice_def)
  moreover have "List.find (\<lambda>v. length pre \<le> fst v) (valid_frames data (iso_headers data)) =
      Some (length pre, length pre + length f)"
    using frame_recorded [of f fs data pre] Cons.prems valid_frames_starts [OF iso_headers_sorted]
    by (intro find_start) simp_all
  ultimately show ?case using len Cons.prems by (subst split_from.simps) auto
qed

text \<open>C27: an ISO run is cut exactly where the frames end. When the adapter delivers one or more
  checksum-valid frames byte by byte, the splitter returns these frames, whatever their number
  and lengths, and also when the header pattern 48 6B recurs among the bytes of a frame: a cut
  is made where a checksum is, not where the next header is. What is excluded is a frame whose
  bytes before such a recurrence end in their own checksum; it is cut there.\<close>

theorem split_recovers_frames:
  assumes ok: "\<forall>f \<in> set fs. iso_frame_ok f" and some: "fs \<noteq> []"
  shows "split_iso_byte_run (concat fs) = fs"
proof -
  obtain f gs where fs: "fs = f # gs" using some by (cases fs) auto
  have len: "5 \<le> length (concat fs)" using ok iso_frame_length [of f] fs by auto
  have "valid_frames (concat fs) (iso_headers (concat fs)) \<noteq> []"
    using frame_recorded [of f gs "concat fs" "[]"] ok fs by fastforce
  moreover have "split_from (concat fs) (valid_frames (concat fs) (iso_headers (concat fs))) 0 = fs"
    using split_from_frames [OF ok, of "concat fs" "[]"] by simp
  moreover have "filter (\<lambda>p. p \<noteq> []) fs = fs"
    using ok iso_frame_length by (fastforce simp: filter_id_conv)
  ultimately show ?thesis using len by (simp add: split_iso_byte_run_def Let_def)
qed

text \<open>The second frame has the header among its data bytes.\<close>

theorem split_recovers_frames_witness:
  "split_iso_byte_run
     (concat [[0x48, 0x6B, 0x10, 0x41, 0x0C, 0x1A, 0xF8, 0x22], [0x48, 0x6B, 0x11, 0x41, 0x0D, 0x48, 0x6B, 0xC5]]) =
   [[0x48, 0x6B, 0x10, 0x41, 0x0C, 0x1A, 0xF8, 0x22], [0x48, 0x6B, 0x11, 0x41, 0x0D, 0x48, 0x6B, 0xC5]]"
proof (rule split_recovers_frames)
  have "iso_frame_ok [0x48, 0x6B, 0x10, 0x41, 0x0C, 0x1A, 0xF8, 0x22]"
    "iso_frame_ok [0x48, 0x6B, 0x11, 0x41, 0x0D, 0x48, 0x6B, 0xC5]" by code_simp+
  then show "\<forall>f \<in> set [[0x48, 0x6B, 0x10, 0x41, 0x0C, 0x1A, 0xF8, 0x22],
      [0x48, 0x6B, 0x11, 0x41, 0x0D, 0x48, 0x6B, 0xC5]]. iso_frame_ok f" by simp
qed simp

subsection \<open>Strict payloads\<close>

lemma first_some_SomeD: "first_some f xs = Some y \<Longrightarrow> \<exists>x \<in> set xs. f x = Some y"
  by (induction xs) (auto split: option.splits)

lemma find_marker_SomeD:
  "find_marker m f = Some i \<Longrightarrow> slice i (i + length m) f = m \<and> i \<le> length f"
proof (induction m f arbitrary: i rule: find_marker.induct)
  case (2 m b bs)
  then show ?case by (cases i) (auto simp: slice_def split: if_splits)
qed (auto simp: slice_def split: if_splits)

lemma last_byte:
  assumes "checksum_ok f"
  shows "last f = of_nat (sum_list (List.map unat (butlast f)))"
proof -
  have "unat (last f) = unat (of_nat (sum_list (List.map unat (butlast f))) :: byte)"
    using assms by (simp add: checksum_ok_def unsigned_of_nat)
  then show ?thesis by (simp only: unsigned_word_eqI)
qed

definition iso_frame :: "byte \<Rightarrow> byte \<Rightarrow> byte \<Rightarrow> byte list \<Rightarrow> byte list" where
  "iso_frame source mode pid payload =
     (let body = ISO_HEADER @ [source, mode + 0x40, pid] @ payload in
      body @ [of_nat (sum_list (List.map unat body))])"

lemma five_more:
  assumes "length f = n + 6"
  obtains a b c d e p z where "f = a # b # c # d # e # p @ [z]" "length p = n"
proof -
  have "length f = Suc (Suc (Suc (Suc (Suc (Suc n)))))" using assms by simp
  then obtain a b c d e r where f: "f = a # b # c # d # e # r" and r: "length r = Suc n"
    by (auto simp: length_Suc_conv)
  obtain p z where "r = p @ [z]" using r by (cases r rule: rev_cases) auto
  with f r that show thesis by auto
qed

lemma strict_frame_shape:
  assumes "payload_of [m, pid] n True src f = Some p"
  shows "f = ISO_HEADER @ [f ! 2, m, pid] @ p @ [last f] \<and> length p = n \<and> checksum_ok f \<and>
    (src = None \<or> src = Some (f ! 2))"
proof -
  obtain start where start: "find_marker [m, pid] f = Some start"
    and valid: "valid_frame f start True src (Some (start + 2 + n))"
    and p: "p = slice (start + 2) (start + 2 + n) f"
    using assms by (auto simp: payload_of_def numeral_2_eq_2 split: option.splits if_splits)
  have v: "start = 3" "take 2 f = ISO_HEADER" "checksum_ok f" "length f = n + 6"
      "src = None \<or> src = Some (f ! 2)"
    using valid by (auto simp: valid_frame_def split: if_splits option.splits)
  obtain a b c d e q z where f: "f = a # b # c # d # e # q @ [z]" and q: "length q = n"
    using five_more [OF v(4)] by metis
  have "slice 3 5 f = [m, pid]"
    using find_marker_SomeD [OF start] v(1) by simp
  then have "d = m" "e = pid" by (simp_all add: f slice_def)
  moreover have "p = q" using p v(1) q by (simp add: f slice_def)
  ultimately show ?thesis using v(2,3,5) f q by (auto simp: ISO_HEADER_def)
qed

lemma strict_frame:
  assumes "extract_pid_payload raw pid n mode command True expected_source = Some p"
  shows "\<exists>source. iso_frame source mode pid p \<in> set (response_frames raw command) \<and>
    length p = n \<and> (expected_source = None \<or> expected_source = Some source)"
proof -
  obtain f where f: "f \<in> set (response_frames raw command)"
      "payload_of [mode + 0x40, pid] n True expected_source f = Some p"
    using first_some_SomeD assms unfolding extract_pid_payload_def by metis
  note s = strict_frame_shape [OF f(2)]
  then have "f = iso_frame (f ! 2) mode pid p"
    using last_byte [of f] by (metis append.assoc butlast_snoc iso_frame_def)
  with f(1) s show ?thesis by metis
qed

text \<open>A strict payload is one a vehicle sent. Whatever the adapter returned, the payload is
  carried by one frame of the response that has the ISO header, the requested mode and PID,
  exactly the requested number of payload bytes, the expected source if one is given, and the
  checksum of all bytes before it.\<close>

theorem strict_payload_sound:
  assumes "extract_pid_payload raw pid n mode command True expected_source = Some p"
  shows "\<exists>source. iso_frame source mode pid p \<in> set (response_frames raw command) \<and>
    length p = n \<and> (expected_source = None \<or> expected_source = Some source)"
  using strict_frame [OF assms] .

subsection \<open>A printed answer is read back\<close>

definition hex_byte :: "byte \<Rightarrow> string" where
  "hex_byte b = [hex_digit (unat b div 16), hex_digit (unat b mod 16)]"

definition hex_text :: "byte list \<Rightarrow> string" where
  "hex_text f = concat (List.map hex_byte f)"

lemma hex_value_digit: "n < 16 \<Longrightarrow> hex_value (hex_digit n) = Some n"
  by (auto simp: hex_value_def hex_digit_def Let_def take_bit_eq_mod)

lemma byte_nibbles: "unat (b :: byte) div 16 < 16" "unat b mod 16 < 16"
proof -
  have "unat b < 2 ^ LENGTH(8)" by (rule unsigned_less)
  then show "unat b div 16 < 16" "unat b mod 16 < 16" by simp_all
qed

lemma hex_bytes_text [simp]: "hex_bytes (hex_text f) = Some f"
proof (induction f)
  case (Cons b f)
  have "of_nat (16 * (unat b div 16) + unat b mod 16) = b"
    by simp
  with Cons show ?case by (simp add: hex_text_def hex_byte_def hex_value_digit byte_nibbles)
qed (simp add: hex_text_def)

lemma length_hex_text [simp]: "length (hex_text f) = 2 * length f"
  by (induction f) (simp_all add: hex_text_def hex_byte_def)

text \<open>Every character of such a line is one of sixteen, none of which ends or changes a line.\<close>

definition HEX_DIGITS :: "char list" where
  "HEX_DIGITS = ''0123456789ABCDEF''"

lemma hex_digit_nth: "n < 16 \<Longrightarrow> hex_digit n = HEX_DIGITS ! n"
proof -
  have "\<forall>k \<in> set [0..<16]. hex_digit k = HEX_DIGITS ! k" by code_simp
  then show "n < 16 \<Longrightarrow> hex_digit n = HEX_DIGITS ! n" by simp
qed

lemma hex_digit_cases: "n < 16 \<Longrightarrow> hex_digit n \<in> set HEX_DIGITS"
proof -
  assume "n < 16"
  then have "n < length HEX_DIGITS" by (simp add: HEX_DIGITS_def)
  with \<open>n < 16\<close> show ?thesis by (simp add: hex_digit_nth)
qed

lemma hex_text_digits: "set (hex_text f) \<subseteq> set HEX_DIGITS"
  by (auto simp: hex_text_def hex_byte_def hex_digit_cases byte_nibbles)

lemma hex_digit_facts:
  "c \<in> set HEX_DIGITS \<Longrightarrow> is_hex c \<and> \<not> is_space c \<and> \<not> is_line_end c \<and> upper_char c = c \<and>
     c \<noteq> CHR 0x00 \<and> c \<noteq> CHR ''>'' \<and> c \<noteq> CHR '' '' \<and>
     c \<notin> {CHR ''O'', CHR ''N'', CHR ''T'', CHR ''U'', CHR ''S'', CHR ''R'', CHR ''?''}"
  unfolding HEX_DIGITS_def
  by (simp, elim disjE;
      simp add: is_hex_def hex_value_def is_space_def is_line_end_def upper_char_def)

lemma contains_subset: "contains p s \<Longrightarrow> set p \<subseteq> set s"
proof (induction s)
  case (Cons c s)
  then show ?case
    by (auto simp: starts_with_def) (metis in_set_takeD set_ConsD)
qed simp

lemma upper_hex_text: "upper (hex_text f) = hex_text f"
  using hex_text_digits [of f] hex_digit_facts by (simp add: upper_def map_idI subset_iff)

lemma filter_hex_text [simp]:
  "(\<And>c. c \<in> set HEX_DIGITS \<Longrightarrow> P c) \<Longrightarrow> filter P (hex_text f) = hex_text f"
  using hex_text_digits [of f] by (simp add: filter_id_conv subset_iff)

lemma strip_hex_text [simp]: "strip (hex_text f) = hex_text f"
proof -
  have no: "set s \<subseteq> set HEX_DIGITS \<Longrightarrow> dropWhile is_space s = s" for s
    using hex_digit_facts by (cases s) auto
  show ?thesis using hex_text_digits [of f] by (simp add: strip_def no)
qed

lemma normalize_hex_text [simp]: "normalize_command (hex_text f) = hex_text f"
  using hex_digit_facts by (simp add: normalize_command_def upper_hex_text)

lemma not_contains_hex_text:
  assumes "c \<in> set p" "c \<notin> set HEX_DIGITS"
  shows "\<not> contains p (hex_text f)"
  using assms contains_subset hex_text_digits by blast

lemma no_marker_hex_text:
  "\<not> (\<exists>m \<in> set (NO_DATA_MARKERS @ TRANSPORT_ERROR_MARKERS). contains m (hex_text f))"
proof -
  have "\<forall>m \<in> set (NO_DATA_MARKERS @ TRANSPORT_ERROR_MARKERS). \<exists>c \<in> set m. c \<notin> set HEX_DIGITS"
    by code_simp
  then show ?thesis using not_contains_hex_text by blast
qed

lemma hex_text_neq: "c \<in> set s \<Longrightarrow> c \<notin> set HEX_DIGITS \<Longrightarrow> hex_text f \<noteq> s"
  using hex_text_digits by blast

lemma no_search_hex_text: "\<not> starts_with ''SEARCHING...'' (hex_text f)"
proof
  assume "starts_with ''SEARCHING...'' (hex_text f)"
  then have "CHR ''S'' \<in> set (hex_text f)"
    unfolding starts_with_def by (metis in_set_takeD list.set_intros(1))
  then show False using hex_text_digits [of f] by (auto simp: HEX_DIGITS_def)
qed

lemma kept_hex_text:
  assumes "f \<noteq> []" "expected_echo \<noteq> Some (hex_text f)"
  shows "kept_line expected_echo (hex_text f) = Some (hex_text f)"
proof -
  have "hex_text f \<noteq> []" using assms(1) by (metis length_hex_text length_0_conv mult_is_0 zero_neq_numeral)
  moreover have "hex_text f \<notin> {''OK'', ''?'', ''BUS INIT: OK''}"
    using hex_text_neq [of "CHR ''O''"] hex_text_neq [of "CHR ''?''"] by (auto simp: HEX_DIGITS_def)
  ultimately show ?thesis
    using assms(2) no_search_hex_text no_marker_hex_text
    by (auto simp: kept_line_def Let_def upper_hex_text)
qed

lemma line_to_bytes_hex_text:
  assumes "f \<noteq> []" shows "line_to_bytes (hex_text f) = Some f"
proof -
  have all: "\<forall>x \<in> set (hex_text f). is_hex x" using hex_text_digits hex_digit_facts by blast
  then have "indexed_hex (hex_text f) = None"
    by (simp add: indexed_hex_def dropWhile_eq_Nil_conv [THEN iffD2])
  moreover have "length (hex_text f) \<ge> 2" using assms by (cases f) auto
  moreover from this have "hex_text f \<noteq> []" by (metis list.size(3) not_numeral_le_zero)
  ultimately show ?thesis
    using all hex_digit_facts assms by (simp add: line_to_bytes_def Let_def)
qed

lemma split_lines_append:
  assumes "\<forall>c \<in> set s. \<not> is_line_end c"
  shows "split_lines (s @ e # t) = (if is_line_end e then s # split_lines t
    else case split_lines t of [] \<Rightarrow> [s @ [e]] | w # ws \<Rightarrow> (s @ e # w) # ws)"
  using assms by (induction s) (auto split: list.splits)

lemma cleaned_hex_text:
  assumes "f \<noteq> []" "expected_echo_of command \<noteq> Some (hex_text f)"
  shows "cleaned_response_lines (RawText (hex_text f @ [CHR 0x0D, CHR 0x0D, CHR ''>''])) command =
    [hex_text f]"
proof -
  have m: "List.map (\<lambda>c. if c = CHR ''>'' then CHR 0x0D else c) (hex_text f) = hex_text f"
    using hex_text_digits [of f] hex_digit_facts by (intro map_idI) auto
  have "\<forall>c \<in> set (hex_text f). \<not> is_line_end c"
    using hex_text_digits [of f] hex_digit_facts by blast
  then have "split_lines (hex_text f @ [CHR 0x0D, CHR 0x0D, CHR 0x0D]) = [hex_text f, [], [], []]"
    by (simp add: split_lines_append is_line_end_def)
  moreover have "kept_line e [] = None" for e by (simp add: kept_line_def strip_def)
  ultimately show ?thesis
    using assms m hex_digit_facts
    by (simp add: cleaned_response_lines_def Let_def kept_hex_text List.map_filter_simps)
qed

lemma frames_hex_text:
  assumes "2 \<le> length f" "expected_echo_of command \<noteq> Some (hex_text f)"
  shows "response_frames (RawText (hex_text f @ [CHR 0x0D, CHR 0x0D, CHR ''>''])) command = [f]"
proof -
  have "f \<noteq> []" using assms(1) by auto
  then show ?thesis
    using assms by (simp add: response_frames_def cleaned_hex_text line_to_bytes_hex_text flush_def)
qed

lemma checksum_ok_snoc:
  "4 \<le> length body \<Longrightarrow> checksum_ok (body @ [of_nat (sum_list (List.map unat body))])"
  by (simp add: checksum_ok_def unsigned_of_nat)

lemma checksum_iso_frame: "checksum_ok (iso_frame source mode pid payload)"
  unfolding iso_frame_def Let_def by (rule checksum_ok_snoc) (simp add: ISO_HEADER_def)

lemma length_iso_frame [simp]: "length (iso_frame source mode pid payload) = length payload + 6"
  by (simp add: iso_frame_def ISO_HEADER_def Let_def)

lemma iso_frame_list:
  "iso_frame source mode pid payload =
     0x48 # 0x6B # source # (mode + 0x40) # pid # payload @ [last (iso_frame source mode pid payload)]"
  by (simp add: iso_frame_def ISO_HEADER_def Let_def)

lemma marker_iso_frame:
  assumes "mode + 0x40 \<noteq> 0x48" "mode + 0x40 \<noteq> 0x6B" "source \<noteq> mode + 0x40"
  shows "find_marker [mode + 0x40, pid] (iso_frame source mode pid payload) = Some 3"
  using assms by (subst iso_frame_list) simp

lemma payload_iso_frame:
  assumes "mode + 0x40 \<noteq> 0x48" "mode + 0x40 \<noteq> 0x6B" "source \<noteq> mode + 0x40"
    and "expected_source = None \<or> expected_source = Some source"
  shows "payload_of [mode + 0x40, pid] (length payload) True expected_source
    (iso_frame source mode pid payload) = Some payload"
proof -
  let ?f = "iso_frame source mode pid payload"
  have "valid_frame ?f 3 True expected_source (Some (length payload + 5))"
    using assms(4) checksum_iso_frame [of source mode pid payload]
    by (auto simp: valid_frame_def iso_frame_def ISO_HEADER_def Let_def)
  moreover have "slice 5 (length payload + 5) ?f = payload"
    by (subst iso_frame_list) (simp add: slice_def)
  ultimately show ?thesis
    by (simp add: payload_of_def marker_iso_frame [OF assms(1-3)] add.commute)
qed

text \<open>What the vehicle sends is what the reader gets. An answer frame printed by the adapter
  as a hexadecimal line and followed by the prompt, with or without a command whose echo is
  dropped, yields its payload under the strict checks, for every payload of the expected length
  and for the frame's own source; the side conditions keep the first two header bytes and the
  source from looking like the answer's mode byte.\<close>

theorem pid_answer_read_back:
  assumes "mode + 0x40 \<noteq> 0x48" "mode + 0x40 \<noteq> 0x6B" "source \<noteq> mode + 0x40"
    and "length (normalize_command command) < 12"
    and "expected_source = None \<or> expected_source = Some source"
  shows "extract_pid_payload
     (RawText (hex_text (iso_frame source mode pid payload) @ [CHR 0x0D, CHR 0x0D, CHR ''>'']))
     pid (length payload) mode (Some command) True expected_source = Some payload"
proof -
  let ?f = "iso_frame source mode pid payload"
  have "expected_echo_of (Some command) \<noteq> Some (hex_text ?f)"
    using assms(4) length_hex_text [of ?f] by (auto simp: expected_echo_of_def)
  then have frames: "response_frames (RawText (hex_text ?f @ [CHR 0x0D, CHR 0x0D, CHR ''>'']))
      (Some command) = [?f]"
    by (intro frames_hex_text) simp_all
  then show ?thesis
    unfolding extract_pid_payload_def frames by (simp add: payload_iso_frame [OF assms(1-3,5)])
qed

theorem pid_answer_read_back_witness:
  "extract_pid_payload
     (RawText (hex_text (iso_frame 0x10 0x01 0x0C [0x1A, 0xF8]) @ [CHR 0x0D, CHR 0x0D, CHR ''>'']))
     0x0C (length [0x1A :: byte, 0xF8]) 0x01 (Some ''010C'') True (Some 0x10) = Some [0x1A, 0xF8]"
  by (rule pid_answer_read_back)
     (simp_all add: normalize_command_def is_space_def upper_def)

text \<open>A frame of a real session, read strictly: engine speed 1726 rpm from the ECU at 10 hex.\<close>

theorem strict_payload_sound_witness:
  "\<exists>source. iso_frame source 0x01 0x0C [0x1A, 0xF8] \<in> set (response_frames
      (RawText (hex_text (iso_frame 0x10 0x01 0x0C [0x1A, 0xF8]) @ [CHR 0x0D, CHR 0x0D, CHR ''>'']))
      (Some ''010C'')) \<and>
    length [0x1A :: byte, 0xF8] = length [0x1A :: byte, 0xF8] \<and>
    (Some (0x10 :: byte) = None \<or> Some 0x10 = Some source)"
proof (rule strict_payload_sound)
  let ?f = "iso_frame 0x10 0x01 0x0C [0x1A, 0xF8]"
  have "response_frames (RawText (hex_text ?f @ [CHR 0x0D, CHR 0x0D, CHR ''>''])) (Some ''010C'') = [?f]"
    by (rule frames_hex_text) (auto simp: expected_echo_of_def normalize_command_def is_space_def
      upper_def dest!: arg_cong [where f = length])
  then show "extract_pid_payload (RawText (hex_text ?f @ [CHR 0x0D, CHR 0x0D, CHR ''>'']))
      0x0C (length [0x1A :: byte, 0xF8]) 0x01 (Some ''010C'') True (Some 0x10) = Some [0x1A, 0xF8]"
    unfolding extract_pid_payload_def by (simp only: first_some.simps) (subst payload_iso_frame; simp)
qed

subsection \<open>The supported-PID mask\<close>

lemma bit_append_byte:
  "bit (256 * x + unat (b :: byte)) n \<longleftrightarrow> (if n < 8 then bit b n else bit x (n - 8))"
proof (cases "n < 8")
  case True
  then have "256 * x = 2 ^ n * (2 * (2 ^ (7 - n) * x))"
    by (simp flip: power_add power_Suc mult.assoc)
  then have "(256 * x + unat b) div 2 ^ n = (unat b + 2 ^ n * (2 * (2 ^ (7 - n) * x))) div 2 ^ n"
    by (simp only: add.commute)
  also have "\<dots> = 2 * (2 ^ (7 - n) * x) + unat b div 2 ^ n"
    by (simp only: div_mult_self2 power_not_zero zero_neq_numeral [symmetric] not_False_eq_True)
  finally have "odd ((256 * x + unat b) div 2 ^ n) \<longleftrightarrow> odd (unat b div 2 ^ n)" by simp
  then have "bit (256 * x + unat b) n \<longleftrightarrow> bit (unat b) n" by (simp only: bit_iff_odd)
  with True show ?thesis by (simp add: bit_unsigned_iff)
next
  case False
  have "unat b < 256" using unsigned_less [of b, where ?'a = nat] by simp
  then have "(256 * x + unat b) div 256 = x" by simp
  moreover have "(2 :: nat) ^ n = 256 * 2 ^ (n - 8)"
    using False power_add [of "2 :: nat" 8 "n - 8"] by simp
  ultimately show ?thesis using False by (simp add: bit_iff_odd div_mult2_eq)
qed

lemma be_value4:
  "be_value [a, b, c, d] = 256 * (256 * (256 * unat a + unat b) + unat c) + unat d"
  by (simp add: be_value_def)

lemma bit_be_value:
  assumes "m < 32"
  shows "bit (be_value [a, b, c, d]) m \<longleftrightarrow> bit ([a, b, c, d] ! (3 - m div 8)) (m mod 8)"
proof -
  consider "m < 8" | "8 \<le> m \<and> m < 16" | "16 \<le> m \<and> m < 24" | "24 \<le> m \<and> m < 32"
    using assms by linarith
  then show ?thesis
  proof cases
    case 1 then show ?thesis by (simp add: be_value4 bit_append_byte bit_unsigned_iff del: distrib_left_numeral)
  next
    case 2
    then have "m div 8 = 1" "m mod 8 = m - 8" "m - 8 < 8" by (auto simp: div_nat_eqI mod_if)
    with 2 show ?thesis by (simp add: be_value4 bit_append_byte bit_unsigned_iff del: distrib_left_numeral)
  next
    case 3
    then have "m div 8 = 2" "m mod 8 = m - 16" "m - 16 < 8" "\<not> m - 8 < 8" by (auto simp: div_nat_eqI mod_if)
    with 3 show ?thesis by (simp add: be_value4 bit_append_byte bit_unsigned_iff del: distrib_left_numeral)
  next
    case 4
    then have "m div 8 = 3" "m mod 8 = m - 24" "\<not> m - 16 < 8" "\<not> m - 8 < 8" by (auto simp: div_nat_eqI mod_if)
    with 4 show ?thesis by (simp add: be_value4 bit_append_byte bit_unsigned_iff del: distrib_left_numeral)
  qed
qed

text \<open>
  The mask is read from its most significant bit: the first byte's top bit is base + 1 and the
  fourth byte's lowest bit is base + 32. A mask of fewer than four bytes reports nothing.
\<close>

lemma decode_mask_iff:
  "q \<in> decode_supported_pids base payload \<longleftrightarrow>
     (4 \<le> length payload \<and>
      (\<exists>k b. k < 4 \<and> b < 8 \<and> q = base + 8 * k + (8 - b) \<and> bit (payload ! k) b))"
proof (cases "4 \<le> length payload")
  case True
  then obtain a b c d r where p: "payload = a # b # c # d # r"
    by (auto simp: numeral_eq_Suc Suc_le_length_iff)
  let ?v = "be_value [a, b, c, d]"
  have nth: "payload ! k = [a, b, c, d] ! k" if "k < 4" for k
    using that by (cases k; cases "k - 1"; cases "k - 2"; cases "k - 3") (auto simp: p)
  have "q \<in> decode_supported_pids base payload \<longleftrightarrow>
      (\<exists>n. 1 \<le> n \<and> n < 33 \<and> q = base + n \<and> bit ?v (32 - n))"
    using True by (auto simp: decode_supported_pids_def mask_pids_def p)
  also have "\<dots> \<longleftrightarrow> (\<exists>k b. k < 4 \<and> b < 8 \<and> q = base + 8 * k + (8 - b) \<and> bit (payload ! k) b)"
    (is "?L \<longleftrightarrow> ?R")
  proof
    assume ?L
    then obtain n where n: "1 \<le> n" "n < 33" "q = base + n" "bit ?v (32 - n)" by blast
    define m x y where "m = 32 - n" and "x = m div 8" and "y = m mod 8"
    have m: "m < 32" "n = 32 - m" using n(1,2) by (simp_all add: m_def)
    have d: "m = 8 * x + y" "y < 8" by (simp_all add: x_def y_def)
    then have x: "x < 4" using m(1) by simp
    have "q = base + 8 * (3 - x) + (8 - y)" using n(3) m(2) d x by simp
    moreover have "bit (payload ! (3 - x)) y"
      using n(4) m bit_be_value [OF m(1), of a b c d] nth [of "3 - x"] by (simp flip: m_def x_def y_def)
    ultimately show ?R using d(2) by (intro exI [of _ "3 - x"] exI [of _ y]) simp
  next
    assume ?R
    then obtain k b' where k: "k < 4" "b' < 8" "q = base + 8 * k + (8 - b')" "bit (payload ! k) b'"
      by blast
    let ?m = "8 * (3 - k) + b'"
    have "bit ?v ?m" using k nth [of k] bit_be_value [of ?m a b c d] by simp
    then show ?L using k by (intro exI [of _ "8 * k + (8 - b')"]) (auto simp: diff_mult_distrib2)
  qed
  finally show ?thesis using True by simp
qed (simp add: decode_supported_pids_def)

subsection \<open>Trouble codes\<close>

lemma low_bits: "unat (take_bit k (drop_bit n (a :: byte))) = unat a div 2 ^ n mod 2 ^ k"
proof -
  have "unat (take_bit k (drop_bit n a)) = take_bit k (drop_bit n (unat a))"
    by (rule bit_eqI) (auto simp: bit_unsigned_iff bit_take_bit_iff bit_drop_bit_eq dest: bit_imp_le_length)
  then show ?thesis by (simp add: take_bit_eq_mod drop_bit_eq_div)
qed

lemma field_value: "unat (and (drop_bit n (a :: byte)) 3) = unat a div 2 ^ n mod 4"
proof -
  have "and (drop_bit n a) 3 = take_bit 2 (drop_bit n a)"
    by (simp only: take_bit_eq_mask) (simp add: mask_eq_exp_minus_1)
  with low_bits [of 2 n a] show ?thesis by simp
qed

lemma low_nibble: "unat (and (a :: byte) 15) = unat a mod 16"
proof -
  have "and a 15 = take_bit 4 (drop_bit 0 a)"
    by (simp only: take_bit_eq_mask drop_bit_0) (simp add: mask_eq_exp_minus_1)
  with low_bits [of 4 0 a] show ?thesis by simp
qed

lemma hex_digit_inj: "m < 16 \<Longrightarrow> n < 16 \<Longrightarrow> hex_digit m = hex_digit n \<Longrightarrow> m = n"
  by (metis hex_value_digit option.inject)

lemma pcbu_inj: "m < 4 \<Longrightarrow> n < 4 \<Longrightarrow> ''PCBU'' ! m = ''PCBU'' ! n \<Longrightarrow> m = n"
  using nth_eq_iff_index_eq [of "''PCBU''" m n] by simp

lemma byte_fields:
  fixes u :: nat assumes "u < 256"
  shows "u = 64 * (u div 64 mod 4) + 16 * (u div 16 mod 4) + u mod 16"
proof -
  have "u div 16 div 4 = u div 64" by (simp flip: div_mult2_eq)
  then have "u div 16 = 4 * (u div 64) + u div 16 mod 4" by (metis mult_div_mod_eq)
  moreover have "u = 16 * (u div 16) + u mod 16" by simp
  moreover have "u div 64 mod 4 = u div 64" using assms by simp
  ultimately show ?thesis by linarith
qed

lemma dtc_code_inj:
  assumes "dtc_code a b = dtc_code c d" shows "a = c \<and> b = d"
proof -
  have lt: "unat x < 256" for x :: byte using unsigned_less [of x, where ?'a = nat] by simp
  have eq: "unat a div 64 mod 4 = unat c div 64 mod 4"
    by (rule pcbu_inj) (use assms in \<open>simp_all add: dtc_code_def field_value\<close>)
  have "unat a div 16 mod 4 = unat c div 16 mod 4"
  proof (rule hex_digit_inj)
    show "unat a div 16 mod 4 < 16" "unat c div 16 mod 4 < 16" by (simp_all add: less_le_trans [of _ 4])
  qed (use assms in \<open>simp add: dtc_code_def field_value\<close>)
  moreover have "unat a mod 16 = unat c mod 16"
    by (rule hex_digit_inj) (use assms in \<open>simp_all add: dtc_code_def low_nibble\<close>)
  moreover have "unat b div 16 = unat d div 16"
    by (rule hex_digit_inj) (use assms byte_nibbles in \<open>simp_all add: dtc_code_def\<close>)
  moreover have "unat b mod 16 = unat d mod 16"
    by (rule hex_digit_inj) (use assms in \<open>simp_all add: dtc_code_def\<close>)
  moreover note eq
  ultimately have eq: "unat a div 64 mod 4 = unat c div 64 mod 4"
    "unat a div 16 mod 4 = unat c div 16 mod 4"
    "unat a mod 16 = unat c mod 16" "unat b div 16 = unat d div 16" "unat b mod 16 = unat d mod 16"
    by blast+
  then have "unat b = unat d" by (metis mod_mult_div_eq)
  moreover have "unat a = unat c"
    using eq(1-3) byte_fields [OF lt [of a]] byte_fields [OF lt [of c]] by simp
  ultimately show ?thesis by (simp add: unsigned_word_eqI)
qed

text \<open>Keeping the first occurrence of each element.\<close>

definition firsts :: "'a list \<Rightarrow> 'a list" where
  "firsts xs = rev (remdups (rev xs))"

lemma firsts_snoc: "firsts (xs @ [x]) = (if x \<in> set xs then firsts xs else firsts xs @ [x])"
  by (simp add: firsts_def)

definition trouble_pairs :: "byte list list \<Rightarrow> (byte \<times> byte) list" where
  "trouble_pairs payloads = filter (\<lambda>p. p \<noteq> (0, 0)) (concat (List.map pairs_of payloads))"

lemma dtc_steps:
  "foldl dtc_step [] ps = List.map (\<lambda>(a, b). dtc_code a b) (firsts (filter (\<lambda>p. p \<noteq> (0, 0)) ps))"
proof (induction ps rule: rev_induct)
  case (snoc p ps)
  obtain a b where p: "p = (a, b)" by (cases p)
  let ?f = "\<lambda>(a, b). dtc_code a b"
  let ?qs = "filter (\<lambda>p. p \<noteq> (0, 0)) ps"
  have mem: "dtc_code a b \<in> ?f ` S \<longleftrightarrow> (a, b) \<in> S" for S
    using dtc_code_inj by auto
  have "foldl dtc_step [] (ps @ [p]) = dtc_step (List.map ?f (firsts ?qs)) (a, b)"
    using snoc p by simp
  also have "\<dots> = List.map ?f (firsts (filter (\<lambda>p. p \<noteq> (0, 0)) (ps @ [p])))"
  proof (cases "(a, b) = (0, 0)")
    case True
    then show ?thesis by (simp add: dtc_step_def p)
  next
    case False
    then have "filter (\<lambda>p. p \<noteq> (0, 0)) (ps @ [p]) = ?qs @ [(a, b)]" by (simp add: p)
    moreover have "dtc_code a b \<in> set (List.map ?f (firsts ?qs)) \<longleftrightarrow> (a, b) \<in> set ?qs"
      by (simp only: set_map mem) (simp add: firsts_def)
    ultimately show ?thesis
      using False by (simp only: firsts_snoc) (auto simp: dtc_step_def Let_def)
  qed
  finally show ?case .
qed (simp add: firsts_def)

text \<open>Trouble codes name faults one to one. The decoded list has one code for every distinct
  non-zero byte pair of the payloads, in order of first appearance and with nothing for padding,
  and two codes are equal only when their byte pairs are.\<close>

theorem dtcs_one_to_one:
  "decode_dtcs payloads = List.map (\<lambda>(a, b). dtc_code a b) (firsts (trouble_pairs payloads)) \<and>
   inj (\<lambda>(a, b). dtc_code a b)"
proof
  have "decode_dtcs payloads = foldl dtc_step [] (concat (List.map pairs_of payloads))"
    unfolding decode_dtcs_def by (induction payloads rule: rev_induct) simp_all
  then show "decode_dtcs payloads =
      List.map (\<lambda>(a, b). dtc_code a b) (firsts (trouble_pairs payloads))"
    by (simp add: dtc_steps trouble_pairs_def)
qed (auto simp: inj_def dest: dtc_code_inj)

end
