(* ===== verification/ElmSession.thy ===== *)
theory ElmSession
  imports ObdProps
begin

section \<open>OBD-II: the read-only adapter session\<close>

text \<open>
  Models \<^verbatim>\<open>backend/app/obd/elm.py\<close>. The Bluetooth channel is a parameter: \<open>chan n\<close> is what it
  does with the n-th command written, the notifications it delivers until the wait ends, or an
  error. The record carries two ghost fields: \<open>calls\<close>, the number of commands written, and
  \<open>sent\<close>, every command with the pacing delay slept before it. A wait that ends without a
  prompt in the buffer is the deadline passing. Event-loop times are arguments of the channel
  as well. \<^verbatim>\<open>CancelledError\<close> is not an \<^verbatim>\<open>Exception\<close>, so it passes the handlers of the code.
\<close>

subsection \<open>The allowlist\<close>

definition INITIALIZATION_COMMANDS :: "string list" where
  "INITIALIZATION_COMMANDS =
     [''ATZ'', ''ATI'', ''ATD'', ''ATD0'', ''ATE0'', ''ATL0'', ''ATH1'', ''ATSP0'', ''ATE0'',
      ''ATH1'', ''ATM0'', ''ATS0'', ''ATAT1'', ''ATAL'', ''ATST64'']"

definition PID_LENGTHS :: "(int \<times> nat) list" where
  "PID_LENGTHS =
     [(0x01, 4), (0x03, 2), (0x04, 1), (0x05, 1), (0x06, 1), (0x07, 1), (0x0C, 2), (0x0D, 1),
      (0x0E, 1), (0x0F, 1), (0x10, 2), (0x11, 1), (0x13, 1), (0x14, 2), (0x15, 2), (0x1C, 1),
      (0x20, 4), (0x21, 2)]"

definition SAFE_AT :: "string list" where
  "SAFE_AT = INITIALIZATION_COMMANDS @
     [''ATRV'', ''AT@1'', ''AT@2'', ''ATIGN'', ''ATDP'', ''ATDPN'', ''ATPC'']"

definition SAFE_DIAGNOSTICS :: "string list" where
  "SAFE_DIAGNOSTICS = [''03'', ''07'', ''0A'', ''0900'', ''0902'', ''0904'', ''0906'', ''090A'']"

definition FREEZE_FRAME_PIDS :: "string list" where
  "FREEZE_FRAME_PIDS = [''00'', ''01'', ''02'', ''03'', ''04'', ''05'', ''06'', ''07'', ''0C'',
     ''0D'', ''0E'', ''0F'', ''10'', ''11'', ''14'', ''15'']"

definition is_freeze_frame :: "string \<Rightarrow> bool" where
  "is_freeze_frame c \<longleftrightarrow> (\<exists>p \<in> set FREEZE_FRAME_PIDS. c = ''02'' @ p @ ''00'')"

text \<open>
  \<^verbatim>\<open>int(text, 16)\<close> on the two characters the code passes: two hex digits, or a sign and one.
  (White space is gone by then, and a lone prefix or underscore is a \<^verbatim>\<open>ValueError\<close>.)
\<close>

definition int_base16 :: "char \<Rightarrow> char \<Rightarrow> int option" where
  "int_base16 a b =
     (case hex_value b of
        None \<Rightarrow> None
      | Some y \<Rightarrow>
          if a = CHR ''+'' then Some (int y)
          else if a = CHR ''-'' then Some (- int y)
          else (case hex_value a of None \<Rightarrow> None | Some x \<Rightarrow> Some (16 * int x + int y)))"

definition command_is_safe :: "string \<Rightarrow> bool" where
  "command_is_safe raw \<longleftrightarrow>
     (let c = normalize_command raw in
      if c \<in> set SAFE_AT \<or> c \<in> set SAFE_DIAGNOSTICS \<or> is_freeze_frame c then True
      else (case c of
          [z, o', a, b] \<Rightarrow>
            if [z, o'] = ''01'' then
              (case int_base16 a b of
                 None \<Rightarrow> False
               | Some n \<Rightarrow> n \<in> set (List.map fst PID_LENGTHS) \<or> c = ''0100'')
            else False
        | _ \<Rightarrow> False))"

subsection \<open>State and channel\<close>

definition MAX_RESPONSE_BYTES :: nat where
  "MAX_RESPONSE_BYTES = 8192"

datatype channel_event = Replies "byte list list" | SendFails | CancelledWith "byte list list"

record channel_step =
  ch_event :: channel_event
  ch_before :: real
  ch_after :: real

datatype elm_error =
    UnsafeObdCommand | NotConnected | SessionTainted | CommandTimeout | ResponseTooLong
  | ChannelFailed | OperationCancelled | AdapterReported string | EcuUnavailable | ReplyInvalid

record elm =
  buffer :: "byte list"
  ready :: bool
  last_completed :: real
  connected :: bool
  tainted :: bool
  ecu_source :: "byte option"
  adapter_version :: "string option"
  calls :: nat
  sent :: "(string \<times> real) list"

definition new_session :: elm where
  "new_session = \<lparr>buffer = [], ready = False, last_completed = 0, connected = False,
     tainted = False, ecu_source = None, adapter_version = None, calls = 0, sent = []\<rparr>"

definition PROMPT :: byte where
  "PROMPT = 0x3E"

definition feed_notification :: "byte list \<Rightarrow> elm \<Rightarrow> elm" where
  "feed_notification fragment s =
     (let b = buffer s @ fragment in
      s\<lparr>buffer := b, ready := ready s \<or> MAX_RESPONSE_BYTES < length b \<or> PROMPT \<in> set b\<rparr>)"

definition feed_all :: "byte list list \<Rightarrow> elm \<Rightarrow> elm" where
  "feed_all frags s = foldl (\<lambda>s f. feed_notification f s) s frags"

type_synonym channel = "nat \<Rightarrow> channel_step"

subsection \<open>One command\<close>

text \<open>Under the lock, after the checks: clear, pace, write, wait, and read the buffer.\<close>

definition exchange :: "channel \<Rightarrow> real \<Rightarrow> string \<Rightarrow> elm \<Rightarrow> (elm_error + string) \<times> elm" where
  "exchange chan delay_s command s =
     (let ev = chan (calls s);
          delay = delay_s - (ch_before ev - last_completed s);
          s = s\<lparr>buffer := [], ready := False, calls := calls s + 1,
                sent := sent s @ [(command, max 0 delay)]\<rparr> in
      case ch_event ev of
        SendFails \<Rightarrow> (Inl ChannelFailed, s\<lparr>tainted := True\<rparr>)
      | CancelledWith frags \<Rightarrow> (Inl OperationCancelled, feed_all frags s)
      | Replies frags \<Rightarrow>
          let s = feed_all frags s in
          if \<not> ready s then (Inl CommandTimeout, s\<lparr>tainted := True\<rparr>)
          else
            let s = s\<lparr>last_completed := ch_after ev\<rparr> in
            if MAX_RESPONSE_BYTES < length (buffer s)
            then (Inl ResponseTooLong, s\<lparr>tainted := True\<rparr>)
            else if PROMPT \<notin> set (buffer s) then (Inl CommandTimeout, s\<lparr>tainted := True\<rparr>)
            else (Inr (response_text (RawBytes (buffer s))), s))"

definition elm_command :: "channel \<Rightarrow> real \<Rightarrow> string \<Rightarrow> elm \<Rightarrow> (elm_error + string) \<times> elm" where
  "elm_command chan delay_s raw s =
     (let command = normalize_command raw in
      if \<not> command_is_safe command then (Inl UnsafeObdCommand, s)
      else if \<not> connected s then (Inl NotConnected, s)
      else if tainted s then (Inl SessionTainted, s)
      else exchange chan delay_s command s)"

subsection \<open>The session's operations\<close>

text \<open>Connecting: \<open>ok\<close> is whether the channel connected before the deadline.\<close>

definition elm_connect :: "bool \<Rightarrow> elm \<Rightarrow> (elm_error + unit) \<times> elm" where
  "elm_connect ok s =
     (if ok then (Inr (), s\<lparr>connected := True, tainted := False\<rparr>) else (Inl ChannelFailed, s))"

fun run_commands ::
    "channel \<Rightarrow> real \<Rightarrow> string list \<Rightarrow> (string \<times> string) list \<Rightarrow> elm \<Rightarrow>
     (elm_error + (string \<times> string) list) \<times> elm" where
  "run_commands chan delay_s [] replies s = (Inr replies, s)"
| "run_commands chan delay_s (c # cs) replies s =
     (case elm_command chan delay_s c s of
        (Inl e, s1) \<Rightarrow> (Inl e, s1)
      | (Inr r, s1) \<Rightarrow> run_commands chan delay_s cs (AList.update c r replies) s1)"

definition read_voltage :: "channel \<Rightarrow> real \<Rightarrow> elm \<Rightarrow> (elm_error + real option) \<times> elm" where
  "read_voltage chan delay_s s =
     (case elm_command chan delay_s ''ATRV'' s of
        (Inl e, s1) \<Rightarrow> (Inl e, s1)
      | (Inr reply, s1) \<Rightarrow>
          (case response_transport_error (RawText reply) of
             Some m \<Rightarrow> (Inl (AdapterReported m), s1)
           | None \<Rightarrow> (Inr (parse_voltage (RawText reply)), s1)))"

definition elm_initialize :: "channel \<Rightarrow> real \<Rightarrow> elm \<Rightarrow> (elm_error + real option) \<times> elm" where
  "elm_initialize chan delay_s s =
     (case run_commands chan delay_s INITIALIZATION_COMMANDS [] s of
        (Inl e, s1) \<Rightarrow> (Inl e, s1)
      | (Inr replies, s1) \<Rightarrow>
          let ati = (case map_of replies ''ATI'' of Some r \<Rightarrow> r | None \<Rightarrow> []);
              version = join '' '' (cleaned_response_lines (RawText ati) (Some ''ATI'')) in
          read_voltage chan delay_s
            (s1\<lparr>adapter_version := (if version = [] then None else Some version)\<rparr>))"

definition reply_unusable :: "string \<Rightarrow> bool" where
  "reply_unusable reply \<longleftrightarrow>
     response_has_no_data (RawText reply) \<or> response_transport_error (RawText reply) \<noteq> None"

definition prove_ecu_online :: "channel \<Rightarrow> real \<Rightarrow> elm \<Rightarrow> (elm_error + nat set) \<times> elm" where
  "prove_ecu_online chan delay_s s =
     (case elm_command chan delay_s ''ATSP0'' s of
        (Inl e, s1) \<Rightarrow> (Inl e, s1)
      | (Inr _, s1) \<Rightarrow>
     (case elm_command chan delay_s ''0100'' s1 of
        (Inl e, s2) \<Rightarrow> (Inl e, s2)
      | (Inr reply, s2) \<Rightarrow>
          if reply_unusable reply then (Inl EcuUnavailable, s2\<lparr>tainted := True\<rparr>)
          else
     (case (extract_pid_payload (RawText reply) 0x00 4 0x01 (Some ''0100'') True None,
            extract_iso_source (RawText reply) 0x01 (Some 0x00) (Some ''0100'')) of
        (Some payload, Some source) \<Rightarrow>
          let s3 = s2\<lparr>ecu_source := Some source\<rparr>;
              supported = set (mask_pids 0 (be_value payload)) in
          if 0x20 \<in> supported then
            (case elm_command chan delay_s ''0120'' s3 of
               (Inl e, s4) \<Rightarrow> (Inl e, s4)
             | (Inr ext, s4) \<Rightarrow>
                 (case extract_pid_payload (RawText ext) 0x20 4 0x01 (Some ''0120'') True
                         (ecu_source s4) of
                    Some p \<Rightarrow> (Inr (supported \<union> set (mask_pids 0x20 (be_value p))), s4)
                  | None \<Rightarrow> (Inr supported, s4)))
          else (Inr supported, s3)
      | _ \<Rightarrow> (Inl EcuUnavailable, s2\<lparr>tainted := True\<rparr>))))"

definition pid_command :: "nat \<Rightarrow> string" where
  "pid_command pid = ''01'' @ [hex_digit (pid div 16), hex_digit (pid mod 16)]"

definition query_pid ::
    "channel \<Rightarrow> real \<Rightarrow> nat \<Rightarrow> elm \<Rightarrow> (elm_error + (string \<times> obd_value) list) \<times> elm" where
  "query_pid chan delay_s pid s =
     (case map_of PID_LENGTHS (int pid) of
        None \<Rightarrow> (Inr [], s)
      | Some n \<Rightarrow>
     (case elm_command chan delay_s (pid_command pid) s of
        (Inl e, s1) \<Rightarrow> (Inl e, s1)
      | (Inr reply, s1) \<Rightarrow>
          if response_has_no_data (RawText reply) then (Inr [], s1)
          else
     (case response_transport_error (RawText reply) of
        Some m \<Rightarrow> (Inl (AdapterReported m), s1)
      | None \<Rightarrow>
     (case extract_pid_payload (RawText reply) (of_nat pid) n 0x01 (Some (pid_command pid)) True
             (ecu_source s1) of
        None \<Rightarrow> (Inl ReplyInvalid, s1\<lparr>tainted := True\<rparr>)
      | Some payload \<Rightarrow> (Inr (decode_pid (of_nat pid) payload), s1)))))"

text \<open>Disconnecting: \<open>ok\<close> is whether the channel's own disconnect returned.\<close>

definition elm_disconnect :: "channel \<Rightarrow> real \<Rightarrow> bool \<Rightarrow> elm \<Rightarrow> (elm_error + unit) \<times> elm" where
  "elm_disconnect chan delay_s ok s =
     (let (r, s1) = (if connected s \<and> \<not> tainted s then elm_command chan delay_s ''ATPC'' s
                     else (Inr [], s)) in
      if r = Inl OperationCancelled then (Inl OperationCancelled, s1)
      else (if ok then Inr () else Inl ChannelFailed,
            s1\<lparr>connected := False, tainted := False, ecu_source := None\<rparr>))"

subsection \<open>Sessions as sequences of operations\<close>

datatype elm_op =
    DoConnect bool | DoDisconnect bool | DoInitialize | DoVoltage | DoProve | DoQuery nat
  | DoCommand string

fun elm_step :: "channel \<Rightarrow> real \<Rightarrow> elm \<Rightarrow> elm_op \<Rightarrow> elm" where
  "elm_step chan d s (DoConnect ok) = snd (elm_connect ok s)"
| "elm_step chan d s (DoDisconnect ok) = snd (elm_disconnect chan d ok s)"
| "elm_step chan d s DoInitialize = snd (elm_initialize chan d s)"
| "elm_step chan d s DoVoltage = snd (read_voltage chan d s)"
| "elm_step chan d s DoProve = snd (prove_ecu_online chan d s)"
| "elm_step chan d s (DoQuery pid) = snd (query_pid chan d pid s)"
| "elm_step chan d s (DoCommand c) = snd (elm_command chan d c s)"

definition elm_run :: "channel \<Rightarrow> real \<Rightarrow> elm \<Rightarrow> elm_op list \<Rightarrow> elm" where
  "elm_run chan d s ops = foldl (elm_step chan d) s ops"

subsection \<open>The reconnect policy\<close>

definition session_delays :: "nat \<Rightarrow> real \<Rightarrow> real list" where
  "session_delays maximum_attempts maximum_delay_s =
     List.map (\<lambda>attempt. min (2 ^ attempt) maximum_delay_s) [0..<maximum_attempts]"

end
