(* ===== verification/ElmProps.thy ===== *)
theory ElmProps
  imports ElmSession
begin

section \<open>OBD-II: what the adapter session guarantees\<close>

text \<open>
  One relation carries the session's laws: \<open>extends s s'\<close> says that \<open>s'\<close> has written further
  permitted commands only, and none at all if \<open>s\<close> was tainted or disconnected. Every operation
  but a successful connect is in it. The machine interfaces of the prelude are interpreted on
  the session.
\<close>

subsection \<open>The allowlist admits only reading modes\<close>

lemma upper_char_idem [simp]: "upper_char (upper_char c) = upper_char c"
  by (auto simp: upper_char_def Let_def)

lemma upper_char_space [simp]: "is_space (upper_char c) = is_space c"
  by (auto simp: upper_char_def is_space_def Let_def)

lemma normalize_idem [simp]: "normalize_command (normalize_command s) = normalize_command s"
  by (simp add: normalize_command_def upper_def filter_map comp_def)

definition READ_MODES :: "string list" where
  "READ_MODES = [''01'', ''02'', ''03'', ''07'', ''09'', ''0A'']"

definition reads_only :: "string \<Rightarrow> bool" where
  "reads_only c \<longleftrightarrow> c \<in> set SAFE_AT \<or> take 2 c \<in> set READ_MODES"

lemma safe_reads_only: "command_is_safe raw \<Longrightarrow> reads_only (normalize_command raw)"
proof -
  assume safe: "command_is_safe raw"
  let ?c = "normalize_command raw"
  consider "?c \<in> set SAFE_AT" | "?c \<in> set SAFE_DIAGNOSTICS" | "is_freeze_frame ?c"
    | a b where "?c = ''01'' @ [a, b]"
    using safe by (auto simp: command_is_safe_def Let_def split: if_splits list.splits)
  then show ?thesis
  proof cases
    case 2
    then show ?thesis by (auto simp: reads_only_def SAFE_DIAGNOSTICS_def READ_MODES_def)
  qed (auto simp: reads_only_def is_freeze_frame_def READ_MODES_def)
qed

subsection \<open>What an operation may add to the log\<close>

definition silent :: "elm \<Rightarrow> bool" where
  "silent s \<longleftrightarrow> tainted s \<or> \<not> connected s"

definition entry_ok :: "string \<times> real \<Rightarrow> bool" where
  "entry_ok = (\<lambda>(c, w). command_is_safe c \<and> reads_only c \<and> 0 \<le> w)"

definition extends :: "elm \<Rightarrow> elm \<Rightarrow> bool" where
  "extends s s' \<longleftrightarrow>
     (\<exists>xs. sent s' = sent s @ xs \<and> list_all entry_ok xs \<and> calls s' = calls s + length xs \<and>
           (silent s \<longrightarrow> xs = [] \<and> silent s'))"

lemma extends_refl [simp]: "extends s s"
  by (auto simp: extends_def)

lemma extends_trans [trans]: "extends s t \<Longrightarrow> extends t u \<Longrightarrow> extends s u"
  unfolding extends_def by (elim exE conjE) (auto simp: list_all_iff)

text \<open>Updates that touch neither the log nor the connection; setting the taint is one.\<close>

lemma extends_source [simp]:
  "extends s (t\<lparr>ecu_source := e\<rparr>) = extends s t" "extends (s\<lparr>ecu_source := e\<rparr>) t = extends s t"
  by (auto simp: extends_def silent_def)

lemma extends_version [simp]:
  "extends s (t\<lparr>adapter_version := v\<rparr>) = extends s t"
  "extends (s\<lparr>adapter_version := v\<rparr>) t = extends s t"
  by (auto simp: extends_def silent_def)

lemma extends_taint [intro]: "extends s t \<Longrightarrow> extends s (t\<lparr>tainted := True\<rparr>)"
  by (auto simp: extends_def silent_def)

lemma extends_close [intro]:
  "extends s t \<Longrightarrow> extends s (t\<lparr>connected := False, tainted := False\<rparr>)"
  by (auto simp: extends_def silent_def)

lemma feed_all_fields [simp]:
  "sent (feed_all fs s) = sent s" "calls (feed_all fs s) = calls s"
  "connected (feed_all fs s) = connected s" "tainted (feed_all fs s) = tainted s"
  "ecu_source (feed_all fs s) = ecu_source s" "adapter_version (feed_all fs s) = adapter_version s"
  "last_completed (feed_all fs s) = last_completed s"
  unfolding feed_all_def
  by (induction fs arbitrary: s) (simp_all add: feed_notification_def Let_def)

lemma exchange_extends:
  assumes "command_is_safe c" "reads_only c" "\<not> silent s"
  shows "extends s (snd (exchange chan d c s))"
proof -
  let ?w = "max 0 (d - (ch_before (chan (calls s)) - last_completed s))"
  have "sent (snd (exchange chan d c s)) = sent s @ [(c, ?w)] \<and>
      calls (snd (exchange chan d c s)) = calls s + 1"
    by (auto simp: exchange_def Let_def split: channel_event.splits)
  then show ?thesis using assms by (auto simp: extends_def entry_ok_def)
qed

lemma command_extends: "extends s (snd (elm_command chan d c s))"
proof -
  have "reads_only (normalize_command c)" if "command_is_safe (normalize_command c)"
    using safe_reads_only [OF that] by simp
  then show ?thesis
    by (auto simp: elm_command_def Let_def silent_def intro!: exchange_extends)
qed

lemma command_result: "elm_command chan d c s = (r, s') \<Longrightarrow> extends s s'"
  using command_extends [of s chan d c] by simp

lemma run_commands_extends: "run_commands chan d cs replies s = (r, s') \<Longrightarrow> extends s s'"
proof (induction cs arbitrary: replies s)
  case (Cons c cs)
  then show ?case
    by (auto split: prod.splits sum.splits dest: command_result intro: extends_trans)
qed simp

lemma voltage_extends: "extends s (snd (read_voltage chan d s))"
  by (auto simp: read_voltage_def split: prod.splits sum.splits option.splits dest: command_result)

lemma initialize_extends: "extends s (snd (elm_initialize chan d s))"
proof -
  obtain r t where run: "run_commands chan d INITIALIZATION_COMMANDS [] s = (r, t)"
    by fastforce
  have "extends t (snd (read_voltage chan d (t\<lparr>adapter_version := v\<rparr>)))" for v
    using voltage_extends [of "t\<lparr>adapter_version := v\<rparr>" chan d] by simp
  then show ?thesis
    using run_commands_extends [OF run]
    by (auto simp: elm_initialize_def run Let_def split: sum.splits intro: extends_trans)
qed

lemma prove_extends: "extends s (snd (prove_ecu_online chan d s))"
  unfolding prove_ecu_online_def Let_def
  by (auto split: prod.splits sum.splits option.splits dest!: command_result
      intro: extends_trans)

lemma query_extends: "extends s (snd (query_pid chan d pid s))"
  unfolding query_pid_def
  by (auto split: prod.splits sum.splits option.splits dest!: command_result
      intro: extends_trans)

lemma disconnect_extends: "extends s (snd (elm_disconnect chan d ok s))"
proof -
  obtain r s1 where c: "(if connected s \<and> \<not> tainted s then elm_command chan d ''ATPC'' s
      else (Inr [], s)) = (r, s1)" by fastforce
  then have "extends s s1" by (auto split: if_splits dest: command_result)
  then show ?thesis unfolding elm_disconnect_def c by auto
qed

lemma step_extends: "op \<noteq> DoConnect True \<Longrightarrow> extends s (elm_step chan d s op)"
  by (cases op) (auto simp: elm_connect_def command_extends initialize_extends prove_extends
      query_extends voltage_extends disconnect_extends)

lemma run_extends: "DoConnect True \<notin> set ops \<Longrightarrow> extends s (elm_run chan d s ops)"
  unfolding elm_run_def
proof (induction ops arbitrary: s)
  case (Cons op ops)
  have "extends s (elm_step chan d s op)" using Cons.prems by (intro step_extends) auto
  also have "extends (elm_step chan d s op) (foldl (elm_step chan d) (elm_step chan d s op) ops)"
    using Cons by simp
  finally show ?case by simp
qed simp

subsection \<open>The machine interfaces\<close>

definition log_ok :: "elm \<Rightarrow> bool" where
  "log_ok s \<longleftrightarrow> list_all entry_ok (sent s) \<and> calls s = length (sent s)"

lemma extends_log_ok: "extends s t \<Longrightarrow> log_ok s \<Longrightarrow> log_ok t"
  by (auto simp: extends_def log_ok_def)

lemma extends_calls: "extends s t \<Longrightarrow> calls s \<le> calls t"
  by (auto simp: extends_def)

lemma step_cases:
  "elm_step chan d s op = s\<lparr>connected := True, tainted := False\<rparr> \<or> extends s (elm_step chan d s op)"
  using step_extends [of op s chan d] by (cases "op = DoConnect True") (simp_all add: elm_connect_def)

interpretation elming: monotone_machine "elm_step chan d" log_ok calls for chan d
proof unfold_locales
  fix s op
  note cases = step_cases [of chan d s op]
  assume ok: "log_ok s"
  show "log_ok (elm_step chan d s op)"
    using cases
  proof
    assume "elm_step chan d s op = s\<lparr>connected := True, tainted := False\<rparr>"
    then show ?thesis using ok by (simp add: log_ok_def)
  qed (use ok extends_log_ok in blast)
  show "calls s \<le> calls (elm_step chan d s op)"
    using cases
  proof
    assume "elm_step chan d s op = s\<lparr>connected := True, tainted := False\<rparr>"
    then show ?thesis by simp
  qed (use extends_calls in blast)
qed

text \<open>C25: the session only reads. Whatever operations are performed in whatever order, and
  whatever the adapter does, every command ever written is on the allowlist: it is an adapter
  command of the fixed list or a request of mode 01, 02, 03, 07, 09 or 0A. In particular no
  command clears trouble codes (mode 04) or drives an actuator (mode 08).\<close>

theorem only_reads_sent:
  assumes "(c, w) \<in> set (sent (elm_run chan d new_session ops))"
  shows "command_is_safe c \<and> (c \<in> set SAFE_AT \<or> take 2 c \<in> set READ_MODES) \<and>
    take 2 c \<noteq> ''04'' \<and> take 2 c \<noteq> ''08''"
proof -
  have "log_ok new_session" by (simp add: log_ok_def new_session_def)
  then have "log_ok (elm_run chan d new_session ops)"
    unfolding elm_run_def by (rule elming.run_inv)
  then have ok: "command_is_safe c" "reads_only c"
    using assms by (auto simp: log_ok_def list_all_iff entry_ok_def)
  have "\<forall>a \<in> set SAFE_AT. take 2 a \<noteq> ''04'' \<and> take 2 a \<noteq> ''08''" by code_simp
  then have "take 2 c \<noteq> ''04'' \<and> take 2 c \<noteq> ''08''"
    using ok(2) by (auto simp: reads_only_def READ_MODES_def)
  with ok show ?thesis by (simp add: reads_only_def)
qed

definition sample_channel :: channel where
  "sample_channel n = \<lparr>ch_event = Replies [[0x34, 0x31], [PROMPT]], ch_before = 0, ch_after = 1\<rparr>"

theorem only_reads_sent_witness:
  "(''010C'', 1) \<in> set (sent (elm_run sample_channel 1 new_session [DoConnect True, DoCommand ''01 0c''])) \<and>
   command_is_safe ''010C''"
proof -
  have norm: "normalize_command ''01 0c'' = ''010C''" "normalize_command ''010C'' = ''010C''"
    by code_simp+
  have safe: "command_is_safe ''010C''" by code_simp
  have "(''010C'', 1) \<in> set (sent (elm_run sample_channel 1 new_session [DoConnect True, DoCommand ''01 0c'']))"
    by (simp add: elm_run_def elm_connect_def elm_command_def exchange_def new_session_def
        sample_channel_def norm safe feed_all_def feed_notification_def MAX_RESPONSE_BYTES_def PROMPT_def)
  with only_reads_sent [OF this] show ?thesis by simp
qed

text \<open>After an uncertain exchange the session goes quiet. Once a permitted command on an open,
  clean session has failed in any way but a cancellation (no prompt before the deadline, an
  over-long answer, an error of the channel), no operation writes another byte until the
  caller connects again.\<close>

theorem failed_command_silences:
  assumes "elm_command chan d c s = (Inl e, s')" "e \<noteq> UnsafeObdCommand" "e \<noteq> OperationCancelled"
    and "DoConnect True \<notin> set ops"
  shows "sent (elm_run chan d s' ops) = sent s'"
proof -
  have "silent s'"
    using assms(1-3)
    by (auto simp: elm_command_def exchange_def silent_def Let_def
        split: if_splits channel_event.splits)
  with run_extends [OF assms(4), of s' chan d] show ?thesis by (auto simp: extends_def)
qed

definition dead_channel :: channel where
  "dead_channel n = \<lparr>ch_event = Replies [], ch_before = 0, ch_after = 6\<rparr>"

theorem failed_command_silences_witness:
  "\<exists>s'. elm_command dead_channel 1 ''ATI'' (new_session\<lparr>connected := True\<rparr>) = (Inl CommandTimeout, s') \<and>
    sent (elm_run dead_channel 1 s' [DoVoltage, DoInitialize, DoCommand ''ATRV'']) = sent s'"
proof -
  have "normalize_command ''ATI'' = ''ATI''" "command_is_safe ''ATI''" by code_simp+
  then have c: "elm_command dead_channel 1 ''ATI'' (new_session\<lparr>connected := True\<rparr>) =
      (Inl CommandTimeout, new_session\<lparr>connected := True, tainted := True, calls := 1,
         sent := [(''ATI'', 1)]\<rparr>)"
    by (simp add: elm_command_def exchange_def new_session_def dead_channel_def feed_all_def)
  show ?thesis
    by (intro exI conjI, rule c, rule failed_command_silences [OF c]) simp_all
qed

text \<open>Cancellation is the one failure that leaves the session in use. A command whose wait is
  cancelled after it was written neither taints nor closes the session, so the next permitted
  command goes out on the same link while the answer to the first is still outstanding.\<close>

theorem cancelled_command_not_tainted:
  assumes "connected s" "\<not> tainted s" "command_is_safe (normalize_command c)"
    and "ch_event (chan (calls s)) = CancelledWith frags"
    and "command_is_safe (normalize_command c2)"
  shows "\<exists>s' w. elm_command chan d c s = (Inl OperationCancelled, s') \<and> \<not> tainted s' \<and>
    sent (snd (elm_command chan d c2 s')) = sent s' @ [(normalize_command c2, w)]"
proof -
  let ?s' = "snd (elm_command chan d c s)"
  have r: "elm_command chan d c s = (Inl OperationCancelled, ?s')" "connected ?s'" "\<not> tainted ?s'"
    using assms(1-4) by (simp_all add: elm_command_def exchange_def Let_def)
  have "\<exists>w. sent (snd (exchange chan d (normalize_command c2) ?s')) = sent ?s' @ [(normalize_command c2, w)]"
    by (auto simp: exchange_def Let_def split: channel_event.splits)
  with r assms(5) show ?thesis
    by (intro exI [of _ ?s']) (auto simp: elm_command_def [of chan d c2])
qed

definition cancelling_channel :: channel where
  "cancelling_channel n = \<lparr>ch_event = CancelledWith [[0x34]], ch_before = 0, ch_after = 0\<rparr>"

theorem cancelled_command_not_tainted_witness:
  "\<exists>s' w. elm_command cancelling_channel 1 ''010D'' (new_session\<lparr>connected := True\<rparr>) =
      (Inl OperationCancelled, s') \<and> \<not> tainted s' \<and>
    sent (snd (elm_command cancelling_channel 1 ''010C'' s')) = sent s' @ [(normalize_command ''010C'', w)]"
proof (rule cancelled_command_not_tainted)
  show "command_is_safe (normalize_command ''010D'')" "command_is_safe (normalize_command ''010C'')"
    by code_simp+
qed (simp_all add: new_session_def cancelling_channel_def)

subsection \<open>An ECU is proven online by its own frame\<close>

text \<open>What the adapter answered to the n-th command, when the wait saw a prompt in time.\<close>

definition answer :: "channel \<Rightarrow> nat \<Rightarrow> string" where
  "answer chan n =
     (case ch_event (chan n) of Replies frags \<Rightarrow> response_text (RawBytes (concat frags)) | _ \<Rightarrow> [])"

lemma buffer_feed_all: "buffer (feed_all frags s) = buffer s @ concat frags"
  unfolding feed_all_def
  by (induction frags arbitrary: s) (simp_all add: feed_notification_def Let_def)

lemma command_answer:
  assumes "elm_command chan d c s = (Inr r, s')"
  shows "r = answer chan (calls s) \<and> calls s' = calls s + 1 \<and> \<not> tainted s' \<and> connected s'"
  using assms
  by (auto simp: elm_command_def exchange_def answer_def buffer_feed_all Let_def
      split: if_splits channel_event.splits)

lemma command_source: "elm_command chan d c s = (r, s') \<Longrightarrow> ecu_source s' = ecu_source s"
  by (auto simp: elm_command_def exchange_def Let_def split: if_splits channel_event.splits)

definition frame_for :: "string \<Rightarrow> string \<Rightarrow> byte \<Rightarrow> byte \<Rightarrow> byte list \<Rightarrow> bool" where
  "frame_for reply command source pid payload \<longleftrightarrow>
     iso_frame source 0x01 pid payload \<in> set (response_frames (RawText reply) (Some command)) \<and>
     length payload = 4"

lemma supported_mask: "length p = 4 \<Longrightarrow> set (mask_pids base (be_value p)) = decode_supported_pids base p"
  by (simp add: decode_supported_pids_def)

text \<open>C26: an engine is online only on its own word. When the probe succeeds, the adapter's answer
  to 0100 contains a checksum-valid frame with a four-byte mask, and every PID reported is set
  in that mask or, past 32 and only if the mask announces the extension, in the mask of a valid
  frame of the answer to 0120 that comes from the recorded source; the session stays clean.\<close>

theorem prove_ecu_online_sound:
  assumes "prove_ecu_online chan d s = (Inr pids, s')"
  shows "\<exists>payload source ecu. frame_for (answer chan (calls s + 1)) ''0100'' source 0x00 payload \<and>
    ecu_source s' = Some ecu \<and> \<not> tainted s' \<and>
    (pids = decode_supported_pids 0 payload \<or>
     (32 \<in> decode_supported_pids 0 payload \<and>
      (\<exists>ext. frame_for (answer chan (calls s + 2)) ''0120'' ecu 0x20 ext \<and>
        pids = decode_supported_pids 0 payload \<union> decode_supported_pids 32 ext)))"
proof -
  obtain r1 s1 reply s2 payload src where
    c1: "elm_command chan d ''ATSP0'' s = (Inr r1, s1)" and
    c2: "elm_command chan d ''0100'' s1 = (Inr reply, s2)" and
    p: "extract_pid_payload (RawText reply) 0x00 4 0x01 (Some ''0100'') True None = Some payload" and
    more: "(let s3 = s2\<lparr>ecu_source := Some src\<rparr>; supported = set (mask_pids 0 (be_value payload)) in
       if 0x20 \<in> supported then
         (case elm_command chan d ''0120'' s3 of
            (Inl e, s4) \<Rightarrow> (Inl e, s4)
          | (Inr ext, s4) \<Rightarrow>
              (case extract_pid_payload (RawText ext) 0x20 4 0x01 (Some ''0120'') True (ecu_source s4) of
                 Some p \<Rightarrow> (Inr (supported \<union> set (mask_pids 0x20 (be_value p))), s4)
               | None \<Rightarrow> (Inr supported, s4)))
       else (Inr supported, s3)) = (Inr pids, s')"
    using assms unfolding prove_ecu_online_def
    by (auto split: prod.splits sum.splits option.splits if_splits)
  note a1 = command_answer [OF c1] and a2 = command_answer [OF c2]
  obtain source where f: "frame_for (answer chan (calls s + 1)) ''0100'' source 0x00 payload"
    using strict_frame [OF p] a1 a2 by (auto simp: frame_for_def)
  then have len: "length payload = 4" by (simp add: frame_for_def)
  show ?thesis
  proof (cases "32 \<in> decode_supported_pids 0 payload")
    case False
    then have "pids = decode_supported_pids 0 payload" "s' = s2\<lparr>ecu_source := Some src\<rparr>"
      using more by (auto simp: supported_mask len Let_def split: prod.splits sum.splits option.splits)
    with f a2 show ?thesis by auto
  next
    case True
    obtain r3 s4 where run: "elm_command chan d ''0120'' (s2\<lparr>ecu_source := Some src\<rparr>) = (r3, s4)"
      by fastforce
    obtain ext where "r3 = Inr ext"
      using more True by (cases r3) (simp_all add: supported_mask len run)
    with run have c3: "elm_command chan d ''0120'' (s2\<lparr>ecu_source := Some src\<rparr>) = (Inr ext, s4)"
      by simp
    have rest: "(case extract_pid_payload (RawText ext) 0x20 4 0x01 (Some ''0120'') True (ecu_source s4) of
          Some p \<Rightarrow> (Inr (decode_supported_pids 0 payload \<union> set (mask_pids 0x20 (be_value p))), s4)
        | None \<Rightarrow> (Inr (decode_supported_pids 0 payload), s4)) = (Inr pids :: elm_error + nat set, s')"
      using more True by (simp add: supported_mask len c3 Let_def)
    have src: "ecu_source s4 = Some src"
      using command_source [OF c3] by simp
    note a3 = command_answer [OF c3]
    show ?thesis
    proof (cases "extract_pid_payload (RawText ext) 0x20 4 0x01 (Some ''0120'') True (Some src)")
      case None
      then show ?thesis using rest f src a3 by auto
    next
      case (Some q)
      then have "frame_for (answer chan (calls s + 2)) ''0120'' src 0x20 q"
        using strict_frame [OF Some] a1 a2 a3 by (auto simp: frame_for_def)
      moreover have "length q = 4" using strict_frame [OF Some] by blast
      ultimately show ?thesis
        using rest Some f src a3 True by (auto simp: supported_mask)
    qed
  qed
qed

subsection \<open>A session that succeeds\<close>

definition ascii_bytes :: "string \<Rightarrow> byte list" where
  "ascii_bytes t = List.map (\<lambda>c. of_nat (of_char c)) t"

definition plain_ascii :: "string \<Rightarrow> bool" where
  "plain_ascii t \<longleftrightarrow> (\<forall>c \<in> set t. 0 < (of_char c :: nat) \<and> (of_char c :: nat) < 128)"

lemma response_text_ascii:
  assumes "plain_ascii t" shows "response_text (RawBytes (ascii_bytes t)) = t"
proof -
  have byte: "unat (of_nat (of_char c) :: byte) = of_char c" if "c \<in> set t" for c
    using that assms by (simp add: plain_ascii_def unsigned_of_nat take_bit_nat_eq_self)
  have "filter (\<lambda>b. unat b < 128) (ascii_bytes t) = ascii_bytes t"
    using byte assms by (auto simp: ascii_bytes_def plain_ascii_def filter_id_conv)
  moreover have "List.map (\<lambda>b. char_of (unat b)) (ascii_bytes t) = t"
    using byte by (simp add: ascii_bytes_def map_idI)
  moreover have "filter (\<lambda>c. c \<noteq> CHR 0x00) t = t"
    using assms by (auto simp: plain_ascii_def filter_id_conv)
  ultimately show ?thesis by simp
qed

definition good_frame :: "byte list" where
  "good_frame = iso_frame 0x10 0x01 0x00 [0xBE, 0x3E, 0xA8, 0x10]"

definition good_text :: string where
  "good_text = hex_text good_frame @ [CHR 0x0D, CHR 0x0D, CHR ''>'']"

definition good_channel :: channel where
  "good_channel n = \<lparr>ch_event = Replies [ascii_bytes (if n = 0 then ''OK'' @ [CHR ''>''] else good_text)],
     ch_before = 0, ch_after = 0\<rparr>"

lemma good_text_set: "set good_text \<subseteq> set HEX_DIGITS \<union> {CHR 0x0D, CHR ''>''}"
  using hex_text_digits [of good_frame] by (auto simp: good_text_def)

lemma good_text_ascii: "plain_ascii good_text"
proof -
  have "\<forall>c \<in> set HEX_DIGITS. 0 < (of_char c :: nat) \<and> (of_char c :: nat) < 128"
    by (simp add: HEX_DIGITS_def)
  then show ?thesis using good_text_set by (auto simp: plain_ascii_def)
qed

lemma good_text_usable: "\<not> reply_unusable good_text"
proof -
  have "\<forall>c \<in> set good_text. upper_char c = c \<and> c \<noteq> CHR 0x00"
    using good_text_set hex_digit_facts by (auto simp: upper_char_def)
  then have u: "upper (response_text (RawText good_text)) = good_text"
    by (simp add: upper_def map_idI filter_id_conv)
  have "\<forall>m \<in> set (NO_DATA_MARKERS @ TRANSPORT_ERROR_MARKERS).
      \<exists>c \<in> set m. c \<notin> set HEX_DIGITS \<and> c \<noteq> CHR 0x0D \<and> c \<noteq> CHR ''>''"
    by code_simp
  then have "\<forall>m \<in> set (NO_DATA_MARKERS @ TRANSPORT_ERROR_MARKERS). \<not> contains m good_text"
    using contains_subset good_text_set by blast
  then have "List.find (\<lambda>m. contains m good_text) TRANSPORT_ERROR_MARKERS = None"
    "\<not> (\<exists>m \<in> set NO_DATA_MARKERS. contains m good_text)"
    by (auto simp: find_None_iff)
  then show ?thesis
    unfolding reply_unusable_def response_has_no_data_def response_transport_error_def Let_def u by simp
qed

lemma good_frames: "response_frames (RawText good_text) (Some ''0100'') = [good_frame]"
proof -
  have "hex_text good_frame \<noteq> ''0100''"
    by (auto simp: good_frame_def dest!: arg_cong [where f = length])
  moreover have "normalize_command ''0100'' = ''0100''" by code_simp
  ultimately show ?thesis
    unfolding good_text_def
    by (intro frames_hex_text) (auto simp: expected_echo_of_def good_frame_def)
qed

lemma good_exchange:
  assumes "connected s" "\<not> tainted s" "command_is_safe (normalize_command c)"
    and "plain_ascii t" "CHR ''>'' \<in> set t" "length t \<le> 8192"
    and "ch_event (chan (calls s)) = Replies [ascii_bytes t]"
  obtains s' where "elm_command chan d c s = (Inr t, s')" "calls s' = calls s + 1"
    "connected s'" "\<not> tainted s'"
proof -
  have "PROMPT \<in> set (ascii_bytes t)"
    using assms(5) by (force simp: ascii_bytes_def PROMPT_def)
  moreover have "length (ascii_bytes t) \<le> 8192" using assms(6) by (simp add: ascii_bytes_def)
  ultimately have "fst (elm_command chan d c s) = Inr t"
    using assms(1-4,7) response_text_ascii [OF assms(4)]
    by (simp add: elm_command_def exchange_def feed_all_def feed_notification_def
        MAX_RESPONSE_BYTES_def Let_def del: response_text.simps)
  then have "elm_command chan d c s = (Inr t, snd (elm_command chan d c s))"
    by (metis prod.collapse)
  with command_answer [OF this] that show thesis by blast
qed

lemma good_session:
  "\<exists>s'. prove_ecu_online good_channel 0 (new_session\<lparr>connected := True\<rparr>) =
     (Inr (decode_supported_pids 0 [0xBE, 0x3E, 0xA8, 0x10]), s')"
proof -
  let ?s0 = "new_session\<lparr>connected := True\<rparr>"
  let ?p = "[0xBE, 0x3E, 0xA8, 0x10] :: byte list"
  have safe: "command_is_safe (normalize_command ''ATSP0'')" "command_is_safe (normalize_command ''0100'')"
    by code_simp+
  obtain s1 where c1: "elm_command good_channel 0 ''ATSP0'' ?s0 = (Inr (''OK'' @ [CHR ''>'']), s1)"
    and s1: "calls s1 = calls ?s0 + 1" "connected s1" "\<not> tainted s1"
    by (rule good_exchange [OF _ _ safe(1), of ?s0 "''OK'' @ [CHR ''>'']" good_channel 0])
       (auto simp: new_session_def good_channel_def plain_ascii_def)
  obtain s2 where c2: "elm_command good_channel 0 ''0100'' s1 = (Inr good_text, s2)"
    by (rule good_exchange [OF s1(2,3) safe(2) good_text_ascii, of good_channel 0])
       (auto simp: s1 new_session_def good_channel_def good_text_def good_frame_def)
  have payload: "extract_pid_payload (RawText good_text) 0x00 4 0x01 (Some ''0100'') True None = Some ?p"
  proof -
    have len: "length ?p = 4" by simp
    have "payload_of [0x01 + 0x40, 0] (length ?p) True None (iso_frame 0x10 0x01 0 ?p) = Some ?p"
      by (rule payload_iso_frame) simp_all
    then show ?thesis
      unfolding len by (simp add: extract_pid_payload_def good_frames good_frame_def)
  qed
  have "iso_source_of [0x41, 0x00] good_frame = Some 0x10"
    using marker_iso_frame [of "0x01" "0x10" 0 ?p] checksum_iso_frame [of "0x10" "0x01" 0 ?p]
    by (simp add: iso_source_of_def good_frame_def) (simp add: iso_frame_def ISO_HEADER_def Let_def)
  then have source: "extract_iso_source (RawText good_text) 0x01 (Some 0x00) (Some ''0100'') = Some 0x10"
    by (simp add: extract_iso_source_def good_frames)
  have "32 \<notin> decode_supported_pids 0 ?p"
  proof
    assume "32 \<in> decode_supported_pids 0 ?p"
    then obtain k b :: nat where kb: "k < 4" "b < 8" "32 = 0 + 8 * k + (8 - b)" "bit (?p ! k) b"
      unfolding decode_mask_iff by blast
    then have "k = 3" "b = 0" by linarith+
    with kb(4) show False by (simp add: bit_0)
  qed
  then have no: "32 \<notin> set (mask_pids 0 (be_value ?p))"
    using supported_mask [of ?p 0] by simp
  show ?thesis
    unfolding prove_ecu_online_def
    using no supported_mask [of ?p 0]
    by (simp add: c1 c2 good_text_usable payload source Let_def)
qed

theorem prove_ecu_online_sound_witness:
  "\<exists>s' payload source.
     prove_ecu_online good_channel 0 (new_session\<lparr>connected := True\<rparr>) =
       (Inr (decode_supported_pids 0 [0xBE, 0x3E, 0xA8, 0x10]), s') \<and>
     frame_for (answer good_channel 1) ''0100'' source 0x00 payload \<and> ecu_source s' \<noteq> None"
proof -
  obtain s' where run: "prove_ecu_online good_channel 0 (new_session\<lparr>connected := True\<rparr>) =
      (Inr (decode_supported_pids 0 [0xBE, 0x3E, 0xA8, 0x10]), s')"
    using good_session by blast
  moreover obtain payload source ecu where
    "frame_for (answer good_channel (calls (new_session\<lparr>connected := True\<rparr>) + 1)) ''0100'' source 0x00 payload"
    "ecu_source s' = Some ecu"
    using prove_ecu_online_sound [OF run] by blast
  ultimately show ?thesis by (auto simp: new_session_def)
qed

end
