(* ===== verification/RateLimit.thy ===== *)
theory RateLimit
  imports Prelude "HOL-Library.Sublist"
begin

section \<open>Sign-in throttling\<close>

text \<open>
  Models \<^verbatim>\<open>backend/app/auth/ratelimit.py\<close> and the sign-in route of
  \<^verbatim>\<open>backend/app/api/routes/auth.py\<close> that consults it. The table of buckets is the dictionary
  \<^verbatim>\<open>_hits\<close> as an association list with distinct keys, a bucket the deque of failure times on
  the monotonic clock, oldest first. Reading a bucket prunes it in place, so readers return the
  table as well. The clock is an argument.
\<close>

subsection \<open>The limits\<close>

definition KEY_LIMIT :: nat where "KEY_LIMIT = 10"
definition GLOBAL_LIMIT :: nat where "GLOBAL_LIMIT = 60"
definition WINDOW_S :: real where "WINDOW_S = 900"
definition MAX_DELAY_S :: real where "MAX_DELAY_S = 3"
definition MAX_KEYS :: nat where "MAX_KEYS = 4096"

definition GLOBAL_KEY :: string where
  "GLOBAL_KEY = CHR 0x00 # ''global''"

type_synonym bucket = "real list"
type_synonym hits = "(string \<times> bucket) list"

definition limit_for :: "string \<Rightarrow> nat" where
  "limit_for key = (if key = GLOBAL_KEY then GLOBAL_LIMIT else KEY_LIMIT)"

definition prune :: "real \<Rightarrow> bucket \<Rightarrow> bucket" where
  "prune now b = dropWhile (\<lambda>t. t \<le> now - WINDOW_S) b"

subsection \<open>Reading\<close>

definition wait_for :: "string \<Rightarrow> real \<Rightarrow> hits \<Rightarrow> real option \<times> hits" where
  "wait_for key now h =
     (case map_of h key of
        None \<Rightarrow> (None, h)
      | Some b \<Rightarrow>
          let b = prune now b; h = AList.update key b h in
          if length b < limit_for key then (None, h)
          else (Some (max 0 (hd b + WINDOW_S - now)), h))"

definition retry_after :: "string \<Rightarrow> real \<Rightarrow> hits \<Rightarrow> real option \<times> hits" where
  "retry_after address_key now h = wait_for address_key now h"

fun delay_loop :: "real \<Rightarrow> string list \<Rightarrow> real \<Rightarrow> hits \<Rightarrow> real \<times> hits" where
  "delay_loop now [] worst h = (worst, h)"
| "delay_loop now (key # keys) worst h =
     (case map_of h key of
        None \<Rightarrow> delay_loop now keys worst h
      | Some b \<Rightarrow>
          let b = prune now b; h = AList.update key b h in
          if length b \<le> limit_for key then delay_loop now keys worst h
          else delay_loop now keys
                 (max worst (min MAX_DELAY_S (0.25 * real (length b - limit_for key)))) h)"

definition delay_for :: "string list \<Rightarrow> real \<Rightarrow> hits \<Rightarrow> real \<times> hits" where
  "delay_for keys now h = delay_loop now (keys @ [GLOBAL_KEY]) 0 h"

subsection \<open>Writing\<close>

definition aged_out :: "real \<Rightarrow> bucket \<Rightarrow> bool" where
  "aged_out now b \<longleftrightarrow> b = [] \<or> last b \<le> now - WINDOW_S"

definition evict :: "real \<Rightarrow> hits \<Rightarrow> hits" where
  "evict now h =
     (let h1 = filter (\<lambda>(k, b). \<not> aged_out now b) h in
      if length h1 < MAX_KEYS then h1
      else (case map_of h1 GLOBAL_KEY of None \<Rightarrow> [] | Some keep \<Rightarrow> [(GLOBAL_KEY, keep)]))"

definition record_one :: "real \<Rightarrow> string \<Rightarrow> hits \<Rightarrow> hits" where
  "record_one now key h =
     (let (b, h) = (case map_of h key of
                      Some b \<Rightarrow> (b, h)
                    | None \<Rightarrow>
                        let h = (if MAX_KEYS \<le> length h then evict now h else h) in
                        ([], AList.update key [] h));
          b = prune now b;
          b = (if length b < GLOBAL_LIMIT * 4 then b @ [now] else b) in
      AList.update key b h)"

definition record_failure :: "string list \<Rightarrow> real \<Rightarrow> hits \<Rightarrow> hits" where
  "record_failure keys now h = fold (record_one now) (keys @ [GLOBAL_KEY]) h"

definition record_success :: "string list \<Rightarrow> hits \<Rightarrow> hits" where
  "record_success keys h = fold AList.delete keys h"

subsection \<open>Signing in\<close>

definition ip_key :: "string \<Rightarrow> string" where
  "ip_key address = ''ip:'' @ address"

definition user_key :: "string \<Rightarrow> string" where
  "user_key username = ''user:'' @ take 128 username"

datatype login_result =
    PasswordTooLong | TooManyAttempts int | WrongPassword real | SignedIn real

text \<open>
  The route's decision. The three times are those of the three consultations of the table, and
  \<open>correct\<close> is the outcome of the password check between them; the delay is what was slept.
  Issuing the session and the cookie follow a \<open>SignedIn\<close>.
\<close>

definition login ::
    "string \<Rightarrow> string \<Rightarrow> nat \<Rightarrow> bool \<Rightarrow> real \<Rightarrow> real \<Rightarrow> real \<Rightarrow> hits \<Rightarrow> login_result \<times> hits" where
  "login address username password_length correct t1 t2 t3 h =
     (if 1024 < password_length then (PasswordTooLong, h)
      else
     (case retry_after (ip_key address) t1 h of
        (Some wait, h) \<Rightarrow> (TooManyAttempts (max 1 \<lfloor>wait\<rfloor>), h)
      | (None, h) \<Rightarrow>
     (case delay_for [user_key username] t2 h of
        (delay, h) \<Rightarrow>
          if \<not> correct
          then (WrongPassword delay, record_failure [ip_key address, user_key username] t3 h)
          else (SignedIn delay, record_success [ip_key address, user_key username] h))))"

subsection \<open>Every use of the table, as events\<close>

datatype rl_event =
    Ask string real | AskDelay "string list" real | Failed "string list" real
  | Succeeded "string list"

fun rl_step :: "hits \<Rightarrow> rl_event \<Rightarrow> hits" where
  "rl_step h (Ask key now) = snd (retry_after key now h)"
| "rl_step h (AskDelay keys now) = snd (delay_for keys now h)"
| "rl_step h (Failed keys now) = record_failure keys now h"
| "rl_step h (Succeeded keys) = record_success keys h"

fun event_time :: "rl_event \<Rightarrow> real option" where
  "event_time (Ask _ t) = Some t"
| "event_time (AskDelay _ t) = Some t"
| "event_time (Failed _ t) = Some t"
| "event_time (Succeeded _) = None"

text \<open>The failures recorded against a key since it last succeeded, oldest first.\<close>

fun failures_of :: "string \<Rightarrow> real list \<Rightarrow> rl_event list \<Rightarrow> real list" where
  "failures_of key acc [] = acc"
| "failures_of key acc (Failed keys t # es) =
     failures_of key (acc @ replicate (count_list (keys @ [GLOBAL_KEY]) key) t) es"
| "failures_of key acc (Succeeded keys # es) =
     failures_of key (if key \<in> set keys then [] else acc) es"
| "failures_of key acc (_ # es) = failures_of key acc es"

subsection \<open>The table stays bounded\<close>

definition bucket_ok :: "bucket \<Rightarrow> bool" where
  "bucket_ok b \<longleftrightarrow> length b \<le> GLOBAL_LIMIT * 4"

definition table_ok :: "hits \<Rightarrow> bool" where
  "table_ok h \<longleftrightarrow>
     distinct (List.map fst h) \<and> length h \<le> MAX_KEYS \<and> (\<forall>(k, b) \<in> set h. bucket_ok b)"

lemma length_prune: "length (prune now b) \<le> length b"
  by (simp add: prune_def length_dropWhile_le)

lemma prune_ok: "bucket_ok b \<Longrightarrow> bucket_ok (prune now b)"
  using length_prune [of now b] by (simp add: bucket_ok_def)

lemma length_update_old: "key \<in> fst ` set h \<Longrightarrow> length (AList.update key b h) = length h"
  by (induction h) auto

lemma length_update_new: "key \<notin> fst ` set h \<Longrightarrow> length (AList.update key b h) = length h + 1"
  by (induction h) auto

lemma set_update: "set (AList.update key b h) \<subseteq> insert (key, b) (set h)"
  by (induction h) auto

lemma table_ok_update_old:
  assumes "table_ok h" "key \<in> fst ` set h" "bucket_ok b"
  shows "table_ok (AList.update key b h)"
  using assms set_update [of key b h]
  unfolding table_ok_def by (auto simp: length_update_old intro: distinct_update)

lemma map_of_mem: "map_of h key = Some b \<Longrightarrow> key \<in> fst ` set h"
  by (force dest: map_of_SomeD)

lemma map_of_ok: "table_ok h \<Longrightarrow> map_of h key = Some b \<Longrightarrow> bucket_ok b"
  by (fastforce simp: table_ok_def dest: map_of_SomeD)

lemma wait_for_ok: "table_ok h \<Longrightarrow> table_ok (snd (wait_for key now h))"
  by (auto simp: wait_for_def Let_def map_of_mem
      intro!: table_ok_update_old prune_ok map_of_ok split: option.splits)

lemma delay_loop_ok: "table_ok h \<Longrightarrow> table_ok (snd (delay_loop now keys worst h))"
proof (induction keys arbitrary: worst h)
  case (Cons key keys)
  then show ?case
    by (auto simp: Let_def map_of_mem intro!: Cons.IH table_ok_update_old prune_ok map_of_ok
        split: option.splits)
qed simp

lemma evict_ok:
  assumes "table_ok h" shows "table_ok (evict now h) \<and> length (evict now h) < MAX_KEYS"
proof -
  have "map_of (filter (\<lambda>(k, b). \<not> aged_out now b) h) GLOBAL_KEY = Some keep \<Longrightarrow> bucket_ok keep" for keep
    using assms by (fastforce simp: table_ok_def dest: map_of_SomeD)
  moreover have "distinct (List.map fst (filter (\<lambda>(k, b). \<not> aged_out now b) h))"
    using assms by (simp add: table_ok_def distinct_map_filter)
  ultimately show ?thesis
    using assms by (auto simp: evict_def Let_def table_ok_def MAX_KEYS_def split: option.splits)
qed

lemma evict_keys: "fst ` set (evict now h) \<subseteq> fst ` set h"
proof -
  have "map_of (filter P h) key = Some b \<Longrightarrow> key \<in> fst ` set h" for P key b
    using map_of_mem [of "filter P h" key b] by auto
  then show ?thesis
    by (cases "map_of (filter (\<lambda>(k, b). \<not> aged_out now b) h) GLOBAL_KEY") (auto simp: evict_def Let_def)
qed

lemma table_ok_insert:
  assumes "table_ok h" "length h < MAX_KEYS" "key \<notin> fst ` set h" "bucket_ok b"
  shows "table_ok (AList.update key b h)"
  using assms set_update [of key b h]
  unfolding table_ok_def by (auto simp: length_update_new intro: distinct_update)

lemma record_one_ok:
  assumes "table_ok h" shows "table_ok (record_one now key h)"
proof -
  let ?b = "\<lambda>b. (if length (prune now b) < GLOBAL_LIMIT * 4 then prune now b @ [now] else prune now b)"
  have ok: "bucket_ok b \<Longrightarrow> bucket_ok (?b b)" for b
    using length_prune [of now b] by (auto simp: bucket_ok_def)
  show ?thesis
  proof (cases "map_of h key")
    case (Some b)
    then have "table_ok (AList.update key (?b b) h)"
      by (intro table_ok_update_old [OF assms] ok map_of_ok [OF assms]) (auto dest: map_of_mem)
    then show ?thesis by (simp add: record_one_def Let_def Some)
  next
    case None
    let ?h = "if MAX_KEYS \<le> length h then evict now h else h"
    have new: "key \<notin> fst ` set h" using None by (simp add: map_of_eq_None_iff)
    have "table_ok (AList.update key [] ?h)"
      using evict_ok [OF assms, of now] evict_keys [of now h] assms new
      by (intro table_ok_insert) (auto simp: bucket_ok_def)
    then have "table_ok (AList.update key (?b []) (AList.update key [] ?h))"
      by (rule table_ok_update_old) (simp add: dom_update, rule ok, simp add: bucket_ok_def)
    moreover have "record_one now key h = AList.update key (?b []) (AList.update key [] ?h)"
      by (simp only: record_one_def None option.case Let_def prod.case)
    ultimately show ?thesis by simp
  qed
qed

lemma fold_record_ok: "table_ok h \<Longrightarrow> table_ok (fold (record_one now) keys h)"
  by (induction keys arbitrary: h) (simp_all add: record_one_ok)

lemma record_success_ok: "table_ok h \<Longrightarrow> table_ok (record_success keys h)"
  unfolding record_success_def
proof (induction keys arbitrary: h)
  case (Cons key keys)
  have "set (AList.delete key h) \<subseteq> set h" "length (AList.delete key h) \<le> length h"
    by (auto simp: AList.delete_eq)
  then have "table_ok (AList.delete key h)"
    using Cons.prems unfolding table_ok_def by (auto intro: distinct_delete)
  then show ?case by (simp add: Cons.IH)
qed simp

lemma rl_step_ok: "table_ok h \<Longrightarrow> table_ok (rl_step h e)"
  by (cases e) (simp_all add: retry_after_def wait_for_ok delay_for_def delay_loop_ok
      record_failure_def fold_record_ok record_success_ok del: fold_append)

interpretation throttling: machine rl_step table_ok
  by unfold_locales (rule rl_step_ok)

lemma delay_loop_bounds:
  "0 \<le> worst \<Longrightarrow> worst \<le> MAX_DELAY_S \<Longrightarrow>
     0 \<le> fst (delay_loop now keys worst h) \<and> fst (delay_loop now keys worst h) \<le> MAX_DELAY_S"
proof (induction keys arbitrary: worst h)
  case (Cons key keys)
  have "0 \<le> max worst (min MAX_DELAY_S (0.25 * real n)) \<and>
      max worst (min MAX_DELAY_S (0.25 * real n)) \<le> MAX_DELAY_S" for n
    using Cons.prems by (auto simp: MAX_DELAY_S_def)
  with Cons show ?case by (auto simp: Let_def split: option.splits)
qed simp

lemma prune_head:
  assumes "prune now b \<noteq> []" shows "now - WINDOW_S < hd (prune now b)"
  using hd_dropWhile [of "\<lambda>t. t \<le> now - WINDOW_S" b] assms by (auto simp: prune_def)

text \<open>A refusal outlasts the window only if the clock runs behind the recorded times.\<close>

subsection \<open>Buckets hold the key's own failures\<close>

definition bucket_of :: "hits \<Rightarrow> string \<Rightarrow> bucket" where
  "bucket_of h key = (case map_of h key of None \<Rightarrow> [] | Some b \<Rightarrow> b)"

lemma bucket_of_update [simp]:
  "bucket_of (AList.update key b h) k = (if k = key then b else bucket_of h k)"
  by (simp add: bucket_of_def update_conv)

lemma bucket_of_delete [simp]:
  "bucket_of (AList.delete key h) k = (if k = key then [] else bucket_of h k)"
  by (simp add: bucket_of_def delete_conv)

lemma bucket_of_Some: "map_of h key = Some b \<Longrightarrow> bucket_of h key = b"
  by (simp add: bucket_of_def)

lemma subseq_prune: "subseq b c \<Longrightarrow> subseq (prune now b) c"
  unfolding prune_def by (meson suffix_dropWhile suffix_imp_subseq subseq_order.trans)

lemma subseq_snoc: "subseq b c \<Longrightarrow> subseq (b @ [t]) (c @ [t])"
  by (simp add: list_emb_append_mono)

lemma wait_for_subseq: "subseq (bucket_of (snd (wait_for key now h)) k) (bucket_of h k)"
  by (auto simp: wait_for_def Let_def bucket_of_Some intro: subseq_prune split: option.splits)

lemma delay_loop_subseq: "subseq (bucket_of (snd (delay_loop now keys worst h)) k) (bucket_of h k)"
proof (induction keys arbitrary: worst h)
  case (Cons key keys)
  have "subseq (bucket_of (AList.update key (prune now b) h) k) (bucket_of h k)"
    if "map_of h key = Some b" for b
    using that by (auto simp: bucket_of_Some intro: subseq_prune)
  then show ?case
    by (auto simp: Let_def simp del: bucket_of_update split: option.splits
        intro: Cons.IH subseq_order.trans [OF Cons.IH])
qed simp

lemma map_of_filter_unique:
  "distinct (List.map fst h) \<Longrightarrow> map_of (filter P h) k = Some b \<Longrightarrow> map_of h k = Some b"
  by (drule map_of_SomeD) (auto intro: map_of_is_SomeI)

lemma evict_subseq:
  assumes "distinct (List.map fst h)"
  shows "subseq (bucket_of (evict now h) k) (bucket_of h k)"
proof -
  have "bucket_of (evict now h) k = [] \<or> map_of h k = Some (bucket_of (evict now h) k)"
    using map_of_filter_unique [OF assms]
    by (auto simp: evict_def bucket_of_def Let_def split: option.splits)
  then show ?thesis by (auto simp: bucket_of_Some)
qed

lemma record_one_subseq:
  assumes "table_ok h"
  shows "subseq (bucket_of (record_one now key h) k) (bucket_of h k @ (if k = key then [now] else []))"
proof -
  have e: "subseq (bucket_of (evict now h) k) (bucket_of h k)"
    using assms evict_subseq by (simp add: table_ok_def)
  have *: "subseq (if length (prune now b) < n then prune now b @ [now] else prune now b) (b @ [now])"
    for b n
    by (auto intro: subseq_snoc subseq_prune)
  show ?thesis
    using e *
    by (cases "map_of h key") (auto simp: record_one_def Let_def bucket_of_Some prune_def)
qed

lemma fold_record_subseq:
  assumes "table_ok h" "subseq (bucket_of h k) fs"
  shows "subseq (bucket_of (fold (record_one now) keys h) k) (fs @ replicate (count_list keys k) now)"
  using assms
proof (induction keys arbitrary: h fs)
  case (Cons key keys)
  have "subseq (bucket_of (record_one now key h) k) (fs @ (if k = key then [now] else []))"
    using record_one_subseq [OF Cons.prems(1)] Cons.prems(2)
    by (meson list_emb_append_mono subseq_order.refl subseq_order.trans)
  from Cons.IH [OF record_one_ok [OF Cons.prems(1)] this] show ?case
    by (cases "k = key") simp_all
qed simp

lemma fold_delete_bucket:
  "bucket_of (fold AList.delete keys h) k = (if k \<in> set keys then [] else bucket_of h k)"
  by (induction keys arbitrary: h) simp_all

lemma failures_of_append: "failures_of k acc (es @ fs) = failures_of k (failures_of k acc es) fs"
  by (induction k acc es rule: failures_of.induct) simp_all

lemma run_ok: "table_ok (foldl rl_step [] es)"
  by (rule throttling.run_inv) (simp add: table_ok_def)

lemma bucket_own_failures:
  "subseq (bucket_of (foldl rl_step [] es) k) (failures_of k [] es)"
proof (induction es rule: rev_induct)
  case (snoc e es)
  let ?h = "foldl rl_step [] es"
  show ?case
  proof (cases e)
    case (Failed keys t)
    then show ?thesis
      using fold_record_subseq [OF run_ok snoc, of t "keys @ [GLOBAL_KEY]"]
      by (simp add: failures_of_append record_failure_def del: fold_append)
  qed (use snoc in \<open>auto simp: failures_of_append retry_after_def delay_for_def record_success_def
      fold_delete_bucket intro: subseq_order.trans [OF wait_for_subseq]
      subseq_order.trans [OF delay_loop_subseq]\<close>)
qed (simp add: bucket_of_def)

lemma failures_mem:
  "t \<in> set (failures_of k acc es) \<Longrightarrow> t \<in> set acc \<or> t \<in> set (List.map_filter event_time es)"
proof (induction k acc es rule: failures_of.induct)
  case (3 key acc keys es)
  then show ?case by (auto simp: List.map_filter_simps split: if_splits)
qed (auto simp: List.map_filter_simps)

lemma failures_sorted:
  "sorted (acc @ List.map_filter event_time es) \<Longrightarrow> sorted (failures_of k acc es)"
proof (induction k acc es rule: failures_of.induct)
  case (2 key acc keys t es)
  have "sorted (replicate n t)" for n by (induction n) auto
  then show ?case using 2 by (auto simp: List.map_filter_simps sorted_append set_replicate_conv_if)
next
  case (3 key acc keys es)
  then show ?case by (auto simp: List.map_filter_simps sorted_append)
qed (auto simp: List.map_filter_simps sorted_append)

lemma subseq_sorted: "subseq b c \<Longrightarrow> sorted c \<Longrightarrow> sorted b"
  for b :: "real list"
  by (auto simp: subseq_conv_nths intro: sorted_nths)

lemma prune_sorted: "sorted b \<Longrightarrow> prune now b = filter (\<lambda>t. now - WINDOW_S < t) b"
  unfolding prune_def
  by (induction b) (auto simp: not_le intro!: filter_True [symmetric] intro: less_le_trans)

definition recent_failures :: "string \<Rightarrow> real \<Rightarrow> rl_event list \<Rightarrow> real list" where
  "recent_failures key now es = filter (\<lambda>t. now - WINDOW_S < t) (failures_of key [] es)"

lemma refused_for_own_failures:
  assumes sorted: "sorted (List.map_filter event_time es)"
    and few: "length (recent_failures key now es) < limit_for key"
  shows "fst (wait_for key now (foldl rl_step [] es)) = None"
proof -
  let ?b = "bucket_of (foldl rl_step [] es) key"
  have sub: "subseq ?b (failures_of key [] es)" by (rule bucket_own_failures)
  have "sorted ?b"
    using subseq_sorted [OF sub] failures_sorted [of "[]" es key] sorted by simp
  then have "length (prune now ?b) \<le> length (recent_failures key now es)"
    using list_emb_length [OF subseq_filter [OF sub]] by (simp add: prune_sorted recent_failures_def)
  then show ?thesis
    using few by (auto simp: wait_for_def Let_def bucket_of_Some split: option.splits)
qed

subsection \<open>The properties\<close>

text \<open>C28: nobody can lock the owner out. After any interleaving of sign-in traffic with a
  monotone clock, a correct password from an address with fewer than ten failures of its own in
  the last fifteen minutes signs in, after a delay of at most three seconds, however many
  failures other addresses have recorded, under this username or any other.\<close>

theorem owner_not_locked_out:
  assumes "sorted (List.map_filter event_time es)"
    and "length (recent_failures (ip_key address) t1 es) < 10" and "password_length \<le> 1024"
  shows "\<exists>delay h. login address username password_length True t1 t2 t3 (foldl rl_step [] es) =
    (SignedIn delay, h) \<and> 0 \<le> delay \<and> delay \<le> 3"
proof -
  let ?h = "foldl rl_step [] es"
  have "limit_for (ip_key address) = 10"
    by (simp add: limit_for_def ip_key_def GLOBAL_KEY_def KEY_LIMIT_def)
  then have "fst (retry_after (ip_key address) t1 ?h) = None"
    using refused_for_own_failures [OF assms(1)] assms(2) by (simp add: retry_after_def)
  then obtain h1 where r: "retry_after (ip_key address) t1 ?h = (None, h1)" by (metis prod.collapse)
  obtain delay h2 where d: "delay_for [user_key username] t2 h1 = (delay, h2)" by fastforce
  have "0 \<le> delay \<and> delay \<le> MAX_DELAY_S"
    using delay_loop_bounds [of 0 t2 "[user_key username, GLOBAL_KEY]" h1] d
    by (simp add: delay_for_def MAX_DELAY_S_def del: delay_loop.simps)
  with r d assms(3) show ?thesis by (simp add: login_def MAX_DELAY_S_def)
qed

theorem owner_not_locked_out_witness:
  "\<exists>delay h. login ''10.0.0.1'' ''me'' 20 True 100 100 100
     (foldl rl_step [] (replicate 11 (Failed [ip_key ''6.6.6.6'', user_key ''me''] 50))) =
     (SignedIn delay, h) \<and> 0 \<le> delay \<and> delay \<le> 3"
proof (rule owner_not_locked_out)
  let ?es = "replicate 11 (Failed [ip_key ''6.6.6.6'', user_key ''me''] 50)"
  show "sorted (List.map_filter event_time ?es)"
    by (simp add: numeral_eq_Suc List.map_filter_simps)
  show "length (recent_failures (ip_key ''10.0.0.1'') 100 ?es) < 10"
    by (simp add: recent_failures_def numeral_eq_Suc ip_key_def user_key_def GLOBAL_KEY_def)
qed simp

text \<open>A flood cannot make the throttle grow or hang the caller. After any sequence of
  consultations, failures and successes on a clock that has not passed \<open>now\<close>, the table has at
  most 4096 distinct keys of at most 240 times each, a delay is between 0 and 3 seconds, and a
  refusal lasts more than 0 and at most 900 seconds.\<close>

theorem throttle_bounds:
  assumes "list_all (\<lambda>t. t \<le> now) (List.map_filter event_time es)"
    and "h = foldl rl_step [] es"
  shows "distinct (List.map fst h) \<and> length h \<le> 4096 \<and> (\<forall>k. length (bucket_of h k) \<le> 240) \<and>
    0 \<le> fst (delay_for keys now h) \<and> fst (delay_for keys now h) \<le> 3 \<and>
    pred_option (\<lambda>w. 0 < w \<and> w \<le> 900) (fst (retry_after key now h))"
proof (intro conjI)
  have ok: "table_ok h" using run_ok assms(2) by simp
  then show "distinct (List.map fst h)" "length h \<le> 4096" by (simp_all add: table_ok_def MAX_KEYS_def)
  show "\<forall>k. length (bucket_of h k) \<le> 240"
    using map_of_ok [OF ok] by (auto simp: bucket_of_def bucket_ok_def GLOBAL_LIMIT_def split: option.splits)
  show "0 \<le> fst (delay_for keys now h)" "fst (delay_for keys now h) \<le> 3"
    using delay_loop_bounds [of 0 now "keys @ [GLOBAL_KEY]" h]
    by (simp_all add: delay_for_def MAX_DELAY_S_def)
  have past: "t \<le> now" if "t \<in> set (bucket_of h key)" for t
    using that list_emb_set [OF bucket_own_failures [of es key]] failures_mem [of t key "[]" es] assms
    by (auto simp: list_all_iff)
  have "0 < max 0 (hd c + WINDOW_S - now) \<and> max 0 (hd c + WINDOW_S - now) \<le> 900"
    if "map_of h key = Some b" "c = prune now b" "\<not> length c < limit_for key" for b c
  proof -
    have "c \<noteq> []" using that(3) by (auto simp: limit_for_def KEY_LIMIT_def GLOBAL_LIMIT_def split: if_splits)
    moreover from this have "hd c \<in> set b" using that(2) unfolding prune_def
      by (metis hd_in_set set_dropWhileD)
    ultimately show ?thesis
      using past [of "hd c"] prune_head [of now b] that by (simp add: bucket_of_Some WINDOW_S_def)
  qed
  then show "pred_option (\<lambda>w. 0 < w \<and> w \<le> 900) (fst (retry_after key now h))"
    by (auto simp: retry_after_def wait_for_def Let_def split: option.splits)
qed

theorem throttle_bounds_witness:
  "\<exists>h. length h \<le> 4096 \<and> pred_option (\<lambda>w. 0 < w \<and> w \<le> 900) (fst (retry_after (ip_key ''6.6.6.6'') 100 h))"
proof -
  have "list_all (\<lambda>t. t \<le> 100)
      (List.map_filter event_time (replicate 11 (Failed [ip_key ''6.6.6.6''] 50)))"
    by (simp add: numeral_eq_Suc List.map_filter_simps)
  from throttle_bounds [OF this refl] show ?thesis by blast
qed

end
