(* ===== verification/SessionCache.thy ===== *)
theory SessionCache
  imports RateLimit
begin

section \<open>The account and its browser sessions\<close>

text \<open>
  Models the session and account half of \<^verbatim>\<open>backend/app/auth/service.py\<close>: the two tables, the
  process-wide caches with their epochs, and \<^verbatim>\<open>resolve_session\<close> cut at its awaits, so that other
  requests run between a lookup's steps. A token is represented by its hash, which is all the
  code ever stores or compares. Wall-clock times are microseconds, monotonic times reals; both
  are arguments. Passwords are the strings the table holds, and deriving and comparing them is
  the parameter of \<open>verify_credential\<close>.
\<close>

subsection \<open>State\<close>

definition CACHE_TTL_S :: real where "CACHE_TTL_S = 60"
definition NEGATIVE_TTL_S :: real where "NEGATIVE_TTL_S = 30"
definition LAST_USED_REFRESH_S :: real where "LAST_USED_REFRESH_S = 300"
definition MISCONFIGURED_RECHECK_S :: real where "MISCONFIGURED_RECHECK_S = 30"
definition MAX_CACHED_SESSIONS :: nat where "MAX_CACHED_SESSIONS = 512"
definition DEFAULT_SESSION_HOURS :: int where "DEFAULT_SESSION_HOURS = 12"
definition MIN_PASSWORD_LENGTH :: nat where "MIN_PASSWORD_LENGTH = 12"

record auth_session =
  as_id :: row_id
  as_token_hash :: string
  as_expires_at :: usec
  as_last_used_at :: usec
  as_remembered :: bool

record cached_session =
  cs_epoch :: nat
  cs_checked_at :: real
  cs_expires_at :: usec
  cs_session_id :: row_id
  cs_username :: string

record principal =
  pr_username :: string
  pr_method :: string
  pr_session_id :: "row_id option"

text \<open>
  \<open>inflight\<close> maps a token hash to the number of the lookup in progress; \<open>cancelled\<close> are the
  lookups whose future an invalidation cancelled.
\<close>

record auth =
  db_account :: "(string \<times> string) option"
  db_sessions :: "auth_session list"
  session_epoch :: nat
  credential_epoch :: nat
  session_cache :: "(string \<times> cached_session) list"
  session_missing :: "(string \<times> nat \<times> real) list"
  inflight :: "(string \<times> nat) list"
  cancelled :: "nat list"
  last_used_written :: "(row_id \<times> real) list"
  basic_cache :: "(string \<times> nat \<times> real \<times> string) list"
  basic_rejected :: "(string \<times> nat \<times> real) list"
  credential_username :: "string option"
  credential_loaded :: bool
  credential_rechecked_at :: real

definition bump_sessions :: "auth \<Rightarrow> auth" where
  "bump_sessions s = s\<lparr>session_epoch := session_epoch s + 1, session_cache := [],
     session_missing := [], last_used_written := [],
     cancelled := cancelled s @ List.map snd (inflight s), inflight := []\<rparr>"

definition bump_credential :: "auth \<Rightarrow> auth" where
  "bump_credential s = bump_sessions
     (s\<lparr>credential_epoch := credential_epoch s + 1, basic_cache := [], basic_rejected := []\<rparr>)"

definition reset_auth_state :: "auth \<Rightarrow> auth" where
  "reset_auth_state s = bump_credential
     (s\<lparr>credential_username := None, credential_loaded := False, credential_rechecked_at := 0\<rparr>)"

definition remember :: "string \<Rightarrow> 'v \<Rightarrow> (string \<times> 'v) list \<Rightarrow> (string \<times> 'v) list" where
  "remember key v store =
     AList.update key v (if MAX_CACHED_SESSIONS \<le> length store then [] else store)"

subsection \<open>Is sign-in on?\<close>

definition ensure_credential_loaded :: "real \<Rightarrow> auth \<Rightarrow> auth" where
  "ensure_credential_loaded now s =
     (if credential_loaded s then s
      else bump_credential (s\<lparr>credential_username := map_option fst (db_account s),
             credential_loaded := True, credential_rechecked_at := now\<rparr>))"

definition recheck_credential :: "real \<Rightarrow> auth \<Rightarrow> auth" where
  "recheck_credential now s =
     (if now - credential_rechecked_at s < MISCONFIGURED_RECHECK_S then s
      else
        let s = s\<lparr>credential_rechecked_at := now\<rparr>; found = map_option fst (db_account s) in
        if found \<noteq> credential_username s
        then bump_credential (s\<lparr>credential_username := found\<rparr>) else s)"

definition sign_in_required :: "bool \<Rightarrow> real \<Rightarrow> auth \<Rightarrow> bool \<times> auth" where
  "sign_in_required require_login now s =
     (if \<not> require_login then (False, s)
      else
        let s = recheck_credential now (ensure_credential_loaded now s) in
        (credential_username s \<noteq> None, s))"

subsection \<open>The account\<close>

datatype credential_error =
    UsernameRequired | UsernameTooLong | UsernameCharacters | PasswordTooShort | PasswordTooLong'

text \<open>\<open>normalise\<close> is \<^verbatim>\<open>unicodedata.normalize("NFKC", .)\<close>; \<open>derive\<close> hashes a password.\<close>

definition set_credential ::
    "(string \<Rightarrow> string) \<Rightarrow> (string \<Rightarrow> string) \<Rightarrow> string \<Rightarrow> string \<Rightarrow> auth \<Rightarrow> credential_error + auth" where
  "set_credential normalise derive username password s =
     (let name = strip (normalise username) in
      if name = [] then Inl UsernameRequired
      else if 128 < length name then Inl UsernameTooLong
      else if \<exists>c \<in> set name. is_space c \<or> (of_char c :: nat) < 32 then Inl UsernameCharacters
      else if length password < MIN_PASSWORD_LENGTH then Inl PasswordTooShort
      else if 1024 < length password then Inl PasswordTooLong'
      else Inr (bump_credential
        (s\<lparr>db_account := Some (name, derive password), db_sessions := [],
           credential_username := Some name, credential_loaded := True\<rparr>)))"

definition clear_credential :: "auth \<Rightarrow> auth" where
  "clear_credential s = bump_credential
     (s\<lparr>db_sessions := [], db_account := None, credential_username := None,
        credential_loaded := True\<rparr>)"

text \<open>
  \<open>rehash\<close> is the stronger hash to store, when the stored one was made with other parameters
  than the current ones.
\<close>

definition verify_credential ::
    "(string \<Rightarrow> string) \<Rightarrow> (string \<Rightarrow> string \<Rightarrow> bool) \<Rightarrow> (string \<Rightarrow> string \<Rightarrow> string option) \<Rightarrow>
     string \<Rightarrow> string \<Rightarrow> auth \<Rightarrow> bool \<times> auth" where
  "verify_credential normalise matches rehash username password s =
     (case db_account s of
        None \<Rightarrow> (False, s)
      | Some (stored, encoded) \<Rightarrow>
          if \<not> matches password encoded \<or> strip (normalise username) \<noteq> stored then (False, s)
          else (case rehash password encoded of
                  None \<Rightarrow> (True, s)
                | Some upgraded \<Rightarrow> (True, s\<lparr>db_account := Some (stored, upgraded)\<rparr>)))"

subsection \<open>Sessions\<close>

definition days :: "int \<Rightarrow> usec" where "days n = seconds (n * 86400)"
definition hours :: "int \<Rightarrow> usec" where "hours n = seconds (n * 3600)"

definition create_session :: "string \<Rightarrow> bool \<Rightarrow> int \<Rightarrow> usec \<Rightarrow> auth \<Rightarrow> usec \<times> auth" where
  "create_session token_hash remembered remember_days now s =
     (let expires_at = now + (if remembered then days remember_days else hours DEFAULT_SESSION_HOURS);
          live = filter (\<lambda>r. \<not> as_expires_at r \<le> now) (db_sessions s);
          row = \<lparr>as_id = next_id as_id (db_sessions s), as_token_hash = token_hash,
                 as_expires_at = expires_at, as_last_used_at = now, as_remembered = remembered\<rparr> in
      (expires_at, s\<lparr>db_sessions := live @ [row]\<rparr>))"

text \<open>
  \<^verbatim>\<open>resolve_session\<close> up to its first await: an answer from the caches, a wait for a lookup in
  progress, or a lookup of its own with the next number.
\<close>

datatype begin_result = Answered "principal option" | Joined nat | MustLoad string

definition session_principal :: "string \<Rightarrow> row_id \<Rightarrow> principal" where
  "session_principal username sid =
     \<lparr>pr_username = username, pr_method = ''session'', pr_session_id = Some sid\<rparr>"

definition check_missing :: "string \<Rightarrow> real \<Rightarrow> nat \<Rightarrow> string \<Rightarrow> auth \<Rightarrow> begin_result \<times> auth" where
  "check_missing key now flight username s =
     (let (known, s) =
        (case map_of (session_missing s) key of
           None \<Rightarrow> (False, s)
         | Some (epoch, seen_at) \<Rightarrow>
             if epoch = session_epoch s \<and> now - seen_at < NEGATIVE_TTL_S then (True, s)
             else (False, s\<lparr>session_missing := AList.delete key (session_missing s)\<rparr>)) in
      if known then (Answered None, s)
      else
        (case map_of (inflight s) key of
           Some other \<Rightarrow> (Joined other, s)
         | None \<Rightarrow> (MustLoad username, s\<lparr>inflight := AList.update key flight (inflight s)\<rparr>)))"

definition resolve_begin :: "string \<Rightarrow> usec \<Rightarrow> real \<Rightarrow> nat \<Rightarrow> auth \<Rightarrow> begin_result \<times> auth" where
  "resolve_begin key now_wall now flight s0 =
     (let s = ensure_credential_loaded now s0 in
      case credential_username s of
        None \<Rightarrow> (Answered None, s)
      | Some username \<Rightarrow>
          (case map_of (session_cache s) key of
             None \<Rightarrow> check_missing key now flight username s
           | Some c \<Rightarrow>
               if cs_epoch c \<noteq> session_epoch s
               then check_missing key now flight username
                      (s\<lparr>session_cache := AList.delete key (session_cache s)\<rparr>)
               else if cs_expires_at c \<le> now_wall
               then (Answered None, s\<lparr>session_cache := AList.delete key (session_cache s)\<rparr>)
               else if now - cs_checked_at c < CACHE_TTL_S
               then (Answered (Some (session_principal username (cs_session_id c))), s)
               else check_missing key now flight username s))"

text \<open>The query of \<^verbatim>\<open>_load_session\<close>, and what follows once the read has closed.\<close>

definition load_read :: "string \<Rightarrow> auth \<Rightarrow> auth_session option" where
  "load_read key s = List.find (\<lambda>r. as_token_hash r = key) (db_sessions s)"

definition touch_last_used :: "usec \<Rightarrow> real \<Rightarrow> auth_session \<Rightarrow> auth \<Rightarrow> auth" where
  "touch_last_used now_wall now r s =
     (if seconds 300 < now_wall - as_last_used_at r \<and>
         LAST_USED_REFRESH_S < now - (case map_of (last_used_written s) (as_id r) of None \<Rightarrow> 0 | Some t \<Rightarrow> t)
      then s\<lparr>last_used_written := AList.update (as_id r) now (last_used_written s),
             db_sessions := update_row as_id (as_id r) (\<lambda>x. x\<lparr>as_last_used_at := now_wall\<rparr>) (db_sessions s)\<rparr>
      else s)"

definition load_store ::
    "string \<Rightarrow> string \<Rightarrow> usec \<Rightarrow> real \<Rightarrow> auth_session option \<Rightarrow> auth \<Rightarrow> principal option \<times> auth" where
  "load_store key username now_wall now row s =
     (case row of
        None \<Rightarrow>
          (None, s\<lparr>session_cache := AList.delete key (session_cache s),
                   session_missing := remember key (session_epoch s, now) (session_missing s)\<rparr>)
      | Some r \<Rightarrow>
          if as_expires_at r \<le> now_wall
          then (None, s\<lparr>session_cache := AList.delete key (session_cache s),
                        session_missing := remember key (session_epoch s, now) (session_missing s)\<rparr>)
          else
            let c = \<lparr>cs_epoch = session_epoch s, cs_checked_at = now, cs_expires_at = as_expires_at r,
                     cs_session_id = as_id r, cs_username = username\<rparr>;
                s = s\<lparr>session_cache := remember key c (session_cache s)\<rparr> in
            (Some (session_principal username (as_id r)), touch_last_used now_wall now r s))"

text \<open>
  The end of \<^verbatim>\<open>resolve_session\<close>: publishing to a future that was cancelled meanwhile raises
  \<^verbatim>\<open>InvalidStateError\<close> in the request itself, after the store; the entry is dropped either way.
\<close>

datatype finish_result = Resolved "principal option" | InvalidState

definition resolve_finish ::
    "string \<Rightarrow> string \<Rightarrow> usec \<Rightarrow> real \<Rightarrow> nat \<Rightarrow> auth_session option \<Rightarrow> auth \<Rightarrow> finish_result \<times> auth" where
  "resolve_finish key username now_wall now flight row s0 =
     (let (p, s) = load_store key username now_wall now row s0 in
      (if flight \<in> set (cancelled s) then InvalidState else Resolved p,
       s\<lparr>inflight := AList.delete key (inflight s)\<rparr>))"

text \<open>Revocation: the delete commits, then the caches are retired.\<close>

definition delete_sessions :: "(auth_session \<Rightarrow> bool) \<Rightarrow> auth \<Rightarrow> auth" where
  "delete_sessions P s = s\<lparr>db_sessions := filter (\<lambda>r. \<not> P r) (db_sessions s)\<rparr>"

definition revoke_session :: "string \<Rightarrow> auth \<Rightarrow> auth" where
  "revoke_session key s = bump_sessions (delete_sessions (\<lambda>r. as_token_hash r = key) s)"

definition revoke_session_id :: "row_id \<Rightarrow> auth \<Rightarrow> bool \<times> auth" where
  "revoke_session_id sid s =
     (\<exists>r \<in> set (db_sessions s). as_id r = sid, bump_sessions (delete_sessions (\<lambda>r. as_id r = sid) s))"

definition revoke_all_sessions :: "row_id option \<Rightarrow> auth \<Rightarrow> nat \<times> auth" where
  "revoke_all_sessions keep s =
     (let P = (\<lambda>r. Some (as_id r) \<noteq> keep) in
      (length (filter P (db_sessions s)), bump_sessions (delete_sessions P s)))"

definition list_sessions :: "usec \<Rightarrow> row_id option \<Rightarrow> auth \<Rightarrow> (auth_session \<times> bool) list" where
  "list_sessions now current s =
     List.map (\<lambda>r. (r, Some (as_id r) = current))
       (sort_key (\<lambda>r. - as_last_used_at r) (filter (\<lambda>r. now < as_expires_at r) (db_sessions s)))"

end
