(* ===== verification/SessionProps.thy ===== *)
theory SessionProps
  imports SessionCache
begin

section \<open>Revocation of browser sessions under concurrency\<close>

text \<open>
  Requests interleave at the awaits of \<^verbatim>\<open>resolve_session\<close>: a lookup begins, reads its row and
  finishes in three events, between which any other request can run. The state adds the lookups
  in progress, the answers given so far and, as a ghost, the tokens issued.
\<close>

record lookup =
  lk_flight :: nat
  lk_key :: string
  lk_username :: string
  lk_now_wall :: usec
  lk_now :: real
  lk_row :: "auth_session option option"

record auth_system =
  au :: auth
  lookups :: "lookup list"
  next_flight :: nat
  answers :: "(string \<times> principal option) list"
  issued :: "string list"

datatype auth_event =
    EBegin string usec real | ERead nat | EFinish nat | ECreate string bool int usec
  | ERevoke string | ERevokeId row_id | ERevokeAll "row_id option" | EClearCredential
  | ESetCredential string string | ESignInCheck bool real

definition do_begin :: "string \<Rightarrow> usec \<Rightarrow> real \<Rightarrow> auth_system \<Rightarrow> auth_system" where
  "do_begin key now_wall now s =
     (let n = next_flight s; (r, a) = resolve_begin key now_wall now n (au s);
          s = s\<lparr>au := a, next_flight := n + 1\<rparr> in
      case r of
        Answered p \<Rightarrow> s\<lparr>answers := answers s @ [(key, p)]\<rparr>
      | Joined _ \<Rightarrow> s
      | MustLoad u \<Rightarrow> s\<lparr>lookups := lookups s @ [\<lparr>lk_flight = n, lk_key = key, lk_username = u,
          lk_now_wall = now_wall, lk_now = now, lk_row = None\<rparr>]\<rparr>)"

definition do_read :: "nat \<Rightarrow> auth_system \<Rightarrow> auth_system" where
  "do_read n s = s\<lparr>lookups := List.map
     (\<lambda>l. if lk_flight l = n \<and> lk_row l = None
          then l\<lparr>lk_row := Some (load_read (lk_key l) (au s))\<rparr> else l) (lookups s)\<rparr>"

definition do_finish :: "nat \<Rightarrow> auth_system \<Rightarrow> auth_system" where
  "do_finish n s =
     (case List.find (\<lambda>l. lk_flight l = n \<and> lk_row l \<noteq> None) (lookups s) of
        None \<Rightarrow> s
      | Some l \<Rightarrow>
          let (r, a) = resolve_finish (lk_key l) (lk_username l) (lk_now_wall l) (lk_now l) n
                         (the (lk_row l)) (au s);
              s = s\<lparr>au := a, lookups := filter (\<lambda>l. lk_flight l \<noteq> n) (lookups s)\<rparr> in
          case r of
            Resolved p \<Rightarrow> s\<lparr>answers := answers s @ [(lk_key l, p)]\<rparr>
          | InvalidState \<Rightarrow> s)"

fun auth_step ::
    "(string \<Rightarrow> string) \<Rightarrow> (string \<Rightarrow> string) \<Rightarrow> auth_system \<Rightarrow> auth_event \<Rightarrow> auth_system" where
  "auth_step nf dv s (EBegin key now_wall now) = do_begin key now_wall now s"
| "auth_step nf dv s (ERead n) = do_read n s"
| "auth_step nf dv s (EFinish n) = do_finish n s"
| "auth_step nf dv s (ECreate key rem d now) =
     s\<lparr>au := snd (create_session key rem d now (au s)), issued := key # issued s\<rparr>"
| "auth_step nf dv s (ERevoke key) = s\<lparr>au := revoke_session key (au s)\<rparr>"
| "auth_step nf dv s (ERevokeId sid) = s\<lparr>au := snd (revoke_session_id sid (au s))\<rparr>"
| "auth_step nf dv s (ERevokeAll keep) = s\<lparr>au := snd (revoke_all_sessions keep (au s))\<rparr>"
| "auth_step nf dv s EClearCredential = s\<lparr>au := clear_credential (au s)\<rparr>"
| "auth_step nf dv s (ESetCredential u p) =
     (case set_credential nf dv u p (au s) of Inl _ \<Rightarrow> s | Inr a \<Rightarrow> s\<lparr>au := a\<rparr>)"
| "auth_step nf dv s (ESignInCheck req now) = s\<lparr>au := snd (sign_in_required req now (au s))\<rparr>"

subsection \<open>A token that is out of every table\<close>

text \<open>\<open>gone k\<close>: no row, no cache entry, and no row in the hands of a lookup.\<close>

definition gone :: "string \<Rightarrow> auth \<Rightarrow> bool" where
  "gone k a \<longleftrightarrow>
     map_of (session_cache a) k = None \<and> (\<forall>r \<in> set (db_sessions a). as_token_hash r \<noteq> k)"

definition lookups_clear :: "string \<Rightarrow> lookup list \<Rightarrow> bool" where
  "lookups_clear k ls \<longleftrightarrow>
     (\<forall>l \<in> set ls. lk_key l = k \<longrightarrow> lk_row l = None \<or> lk_row l = Some None)"

definition refused :: "string \<Rightarrow> auth_system \<Rightarrow> bool" where
  "refused k s \<longleftrightarrow> k \<in> set (issued s) \<or>
     (gone k (au s) \<and> lookups_clear k (lookups s) \<and> (\<forall>p. (k, Some p) \<notin> set (answers s)))"

lemma bump_fields [simp]:
  "session_cache (bump_sessions a) = []" "db_sessions (bump_sessions a) = db_sessions a"
  "session_cache (bump_credential a) = []" "db_sessions (bump_credential a) = db_sessions a"
  "credential_username (bump_credential a) = credential_username a"
  "credential_username (bump_sessions a) = credential_username a"
  "credential_loaded (bump_sessions a) = credential_loaded a"
  by (simp_all add: bump_sessions_def bump_credential_def)

lemma gone_bump [simp]:
  "gone k (bump_sessions a) \<longleftrightarrow> (\<forall>r \<in> set (db_sessions a). as_token_hash r \<noteq> k)"
  "gone k (bump_credential a) \<longleftrightarrow> (\<forall>r \<in> set (db_sessions a). as_token_hash r \<noteq> k)"
  by (simp_all add: gone_def)

lemma gone_ensure: "gone k a \<Longrightarrow> gone k (ensure_credential_loaded now a)"
  by (simp add: ensure_credential_loaded_def) (simp add: gone_def)

lemma gone_recheck: "gone k a \<Longrightarrow> gone k (recheck_credential now a)"
  unfolding recheck_credential_def Let_def by (auto simp: gone_def)

lemma gone_missing: "gone k a \<Longrightarrow> gone k (snd (check_missing key now n u a))"
  by (auto simp: check_missing_def gone_def split: option.splits prod.splits if_splits)

lemma missing_answer: "check_missing key now n u a = (Answered p, a') \<Longrightarrow> p = None"
  by (auto simp: check_missing_def split: option.splits prod.splits if_splits)

lemma gone_cache_delete: "gone k a \<Longrightarrow> gone k (a\<lparr>session_cache := AList.delete key (session_cache a)\<rparr>)"
  by (simp add: gone_def delete_conv')

lemma gone_begin: "gone k a \<Longrightarrow> gone k (snd (resolve_begin key now_wall now n a))"
  unfolding resolve_begin_def Let_def
  by (auto intro!: gone_missing gone_cache_delete gone_ensure split: option.splits)

text \<open>A begin answers a gone token at once with a refusal, or not at once.\<close>

lemma begin_gone:
  assumes "gone k a" "resolve_begin k now_wall now n a = (Answered p, a')" shows "p = None"
proof -
  have "map_of (session_cache (ensure_credential_loaded now a)) k = None"
    using gone_ensure [OF assms(1)] by (simp add: gone_def)
  then show ?thesis
    using assms(2) by (auto simp: resolve_begin_def Let_def split: option.splits dest: missing_answer)
qed

lemma remember_other: "k \<noteq> key \<Longrightarrow> map_of st k = None \<Longrightarrow> map_of (remember key v st) k = None"
  by (simp add: remember_def update_conv)

lemma gone_touch: "gone k a \<Longrightarrow> gone k (touch_last_used now_wall now r a)"
  by (auto simp: touch_last_used_def gone_def update_row_def update_where_def)

lemma gone_finish:
  assumes "gone k a" "key = k \<Longrightarrow> row = None"
  shows "gone k (snd (resolve_finish key u now_wall now n row a))"
proof -
  have "gone k (snd (load_store key u now_wall now row a))"
  proof (cases row)
    case None
    then show ?thesis using assms(1) by (simp add: load_store_def gone_def delete_conv')
  next
    case (Some r)
    then have "k \<noteq> key" using assms(2) by auto
    then have "gone k (a\<lparr>session_cache := remember key c (session_cache a)\<rparr>)" for c
      using assms(1) by (simp add: gone_def remember_other)
    then show ?thesis
      using Some assms(1) by (simp add: load_store_def Let_def gone_touch) (simp add: gone_def delete_conv')
  qed
  then show ?thesis by (cases "load_store key u now_wall now row a") (simp add: resolve_finish_def gone_def)
qed

lemma finish_gone: "fst (resolve_finish key u now_wall now n None a) \<in> {InvalidState, Resolved None}"
  by (simp add: resolve_finish_def load_store_def)

subsection \<open>The machine\<close>

lemma refused_au: "refused k s \<Longrightarrow> gone k a \<Longrightarrow> refused k (s\<lparr>au := a\<rparr>)"
  by (auto simp: refused_def)

lemma refused_begin: "refused k s \<Longrightarrow> refused k (do_begin key now_wall now s)"
proof (cases "k \<in> set (issued s)")
  case False
  assume "refused k s"
  then have g: "gone k (au s)" "lookups_clear k (lookups s)" "\<forall>p. (k, Some p) \<notin> set (answers s)"
    using False by (auto simp: refused_def)
  obtain r a where run: "resolve_begin key now_wall now (next_flight s) (au s) = (r, a)" by fastforce
  then have "gone k a" using gone_begin [OF g(1)] by (metis snd_conv)
  moreover have "key = k \<Longrightarrow> r = Answered p \<Longrightarrow> p = None" for p
    using begin_gone [OF g(1)] run by metis
  ultimately show ?thesis
    using g run
    by (auto simp: do_begin_def refused_def lookups_clear_def Let_def split: begin_result.splits)
qed (auto simp: do_begin_def refused_def Let_def split: begin_result.splits prod.splits)

lemma load_read_hash: "load_read key a = Some r \<Longrightarrow> r \<in> set (db_sessions a) \<and> as_token_hash r = key"
  by (auto simp: load_read_def find_Some_iff)

lemma refused_read: "refused k s \<Longrightarrow> refused k (do_read n s)"
proof -
  assume r: "refused k s"
  have "gone k (au s) \<Longrightarrow> load_read k (au s) = None"
    by (cases "load_read k (au s)") (auto simp: gone_def dest: load_read_hash)
  with r show ?thesis by (auto simp: refused_def do_read_def lookups_clear_def)
qed

lemma refused_finish: "refused k s \<Longrightarrow> refused k (do_finish n s)"
proof (cases "List.find (\<lambda>l. lk_flight l = n \<and> lk_row l \<noteq> None) (lookups s)")
  case (Some l)
  assume r: "refused k s"
  have l: "l \<in> set (lookups s)" "lk_row l \<noteq> None" using Some by (auto simp: find_Some_iff)
  obtain res a where run: "resolve_finish (lk_key l) (lk_username l) (lk_now_wall l) (lk_now l) n
      (the (lk_row l)) (au s) = (res, a)" by fastforce
  show ?thesis
  proof (cases "k \<in> set (issued s)")
    case True
    then show ?thesis
      using Some run by (auto simp: do_finish_def refused_def Let_def split: finish_result.splits)
  next
    case False
    then have g: "gone k (au s)" "lookups_clear k (lookups s)" "\<forall>p. (k, Some p) \<notin> set (answers s)"
      using r by (auto simp: refused_def)
    have row: "lk_key l = k \<Longrightarrow> the (lk_row l) = None"
      using g(2) l by (auto simp: lookups_clear_def)
    then have "gone k a" using gone_finish [OF g(1)] run by (metis snd_conv)
    moreover have "lk_key l = k \<Longrightarrow> res \<in> {InvalidState, Resolved None}"
      using finish_gone run row by (metis fst_conv)
    ultimately show ?thesis
      using g Some run
      by (auto simp: do_finish_def refused_def lookups_clear_def Let_def split: finish_result.splits)
  qed
qed (simp add: do_finish_def)

lemma gone_delete: "gone k a \<Longrightarrow> gone k (bump_sessions (delete_sessions P a))"
  by (simp add: gone_def delete_sessions_def)

lemma gone_clear: "gone k (clear_credential a)"
  by (simp add: clear_credential_def)

lemma gone_set: "set_credential nf dv u p a = Inr b \<Longrightarrow> gone k b"
  by (auto simp: set_credential_def Let_def split: if_splits)

lemma gone_sign_in: "gone k a \<Longrightarrow> gone k (snd (sign_in_required req now a))"
  by (simp add: sign_in_required_def Let_def gone_recheck gone_ensure)

lemma refused_step: "refused k s \<Longrightarrow> refused k (auth_step nf dv s e)"
proof -
  assume r: "refused k s"
  have au: "(gone k (au s) \<Longrightarrow> gone k a) \<Longrightarrow> refused k (s\<lparr>au := a\<rparr>)" for a
    using r by (auto simp: refused_def)
  show ?thesis
  proof (cases e)
    case (ECreate key rem d now)
    then show ?thesis using r by (auto simp: refused_def create_session_def gone_def Let_def)
  next
    case (ESetCredential u p)
    then show ?thesis
      using r au gone_set by (cases "set_credential nf dv u p (au s)") auto
  next
    case (ESignInCheck req now)
    have "refused k (s\<lparr>au := snd (sign_in_required req now (au s))\<rparr>)" by (rule au) (rule gone_sign_in)
    then show ?thesis using ESignInCheck by simp
  next
    case (EBegin key nw n)
    then show ?thesis using r by (simp add: refused_begin)
  qed (use r in \<open>auto simp: refused_read refused_finish revoke_session_def revoke_session_id_def
      revoke_all_sessions_def Let_def intro!: au gone_delete gone_clear\<close>)
qed

interpretation revoking: machine "auth_step nf dv" "refused k" for nf dv k
  by unfold_locales (rule refused_step)

text \<open>C29: revocation is final. If no lookup of the token holds a row it has already read when the
  session is revoked, then whatever requests follow, in whatever interleaving, and until a
  session with that token is issued anew, no request presenting the token is ever resolved to a
  principal: neither the table nor any cache can bring it back.\<close>

theorem revoked_stays_refused:
  assumes "lookups_clear k (lookups s)"
    and "s' = foldl (auth_step nf dv) (s\<lparr>au := revoke_session k (au s), answers := [], issued := []\<rparr>) es"
    and "k \<notin> set (issued s')"
  shows "(k, Some p) \<notin> set (answers s')"
proof -
  have "refused k (s\<lparr>au := revoke_session k (au s), answers := [], issued := []\<rparr>)"
    using assms(1) by (simp add: refused_def revoke_session_def delete_sessions_def)
  then have "refused k s'"
    unfolding assms(2) by (rule revoking.run_inv)
  with assms(3) show ?thesis by (simp add: refused_def)
qed

definition sample_row :: auth_session where
  "sample_row = \<lparr>as_id = 1, as_token_hash = ''t'', as_expires_at = seconds 5000,
     as_last_used_at = 0, as_remembered = False\<rparr>"

definition sample_auth :: auth where
  "sample_auth = \<lparr>db_account = Some (''me'', ''h''), db_sessions = [sample_row], session_epoch = 0,
     credential_epoch = 0, session_cache = [], session_missing = [], inflight = [], cancelled = [],
     last_used_written = [], basic_cache = [], basic_rejected = [], credential_username = Some ''me'',
     credential_loaded = True, credential_rechecked_at = 0\<rparr>"

definition sample_system :: auth_system where
  "sample_system = \<lparr>au = sample_auth, lookups = [], next_flight = 0, answers = [], issued = []\<rparr>"

theorem revoked_stays_refused_witness:
  "\<exists>s'. s' = foldl (auth_step id id) (sample_system\<lparr>au := revoke_session ''t'' (au sample_system),
       answers := [], issued := []\<rparr>) [EBegin ''t'' 0 1, ERead 0, EFinish 0] \<and>
     (''t'', Some (session_principal ''me'' 1)) \<notin> set (answers s') \<and> (''t'', None) \<in> set (answers s')"
proof (intro exI conjI, rule refl)
  let ?s' = "foldl (auth_step id id) (sample_system\<lparr>au := revoke_session ''t'' (au sample_system),
       answers := [], issued := []\<rparr>) [EBegin ''t'' 0 1, ERead 0, EFinish 0]"
  have run: "issued ?s' = []" "(''t'', None) \<in> set (answers ?s')"
    by (simp_all add: sample_system_def sample_auth_def sample_row_def do_begin_def resolve_begin_def
        revoke_session_def bump_sessions_def delete_sessions_def ensure_credential_loaded_def
        check_missing_def do_read_def load_read_def do_finish_def resolve_finish_def load_store_def)
  then show "(''t'', None) \<in> set (answers ?s')" by simp
  show "(''t'', Some (session_principal ''me'' 1)) \<notin> set (answers ?s')"
  proof (rule revoked_stays_refused [where s = sample_system])
    show "lookups_clear ''t'' (lookups sample_system)"
      by (simp add: lookups_clear_def sample_system_def)
  qed (rule refl, use run in simp)
qed

text \<open>C30: the exception is a lookup under way. A lookup that read its row before the session was
  revoked stores it under the new epoch when it resumes, so a later request presenting the
  revoked token is answered from the cache as signed in, for up to a minute and until the old
  expiry, although the table has no such session any more.\<close>

theorem revocation_race:
  assumes "credential_loaded a" "credential_username a = Some u"
    and "load_read k a = Some r" "now_wall < as_expires_at r" "later_wall < as_expires_at r"
    and "later - now < 60"
    and "a1 = snd (resolve_finish k u now_wall now flight (load_read k a) (revoke_session k a))"
  shows "load_read k a1 = None \<and>
    fst (resolve_begin k later_wall later flight2 a1) =
      Answered (Some (session_principal u (as_id r)))"
proof -
  have none: "\<forall>x \<in> set (db_sessions (revoke_session k a)). as_token_hash x \<noteq> k"
    by (simp add: revoke_session_def delete_sessions_def)
  let ?c = "\<lparr>cs_epoch = session_epoch (revoke_session k a), cs_checked_at = now,
    cs_expires_at = as_expires_at r, cs_session_id = as_id r, cs_username = u\<rparr>"
  have a1: "map_of (session_cache a1) k = Some ?c"
      "session_epoch a1 = session_epoch (revoke_session k a)"
      "credential_loaded a1" "credential_username a1 = Some u"
    using assms(1-4)
    by (simp_all add: assms(7) resolve_finish_def load_store_def touch_last_used_def Let_def
        remember_def update_conv revoke_session_def delete_sessions_def)
  have "\<forall>x \<in> set (db_sessions a1). as_token_hash x \<noteq> k"
    using none assms(3,4)
    by (auto simp: assms(7) resolve_finish_def load_store_def touch_last_used_def Let_def
        update_row_def update_where_def)
  then have "load_read k a1 = None"
    by (cases "load_read k a1") (auto dest: load_read_hash)
  moreover have "fst (resolve_begin k later_wall later flight2 a1) =
      Answered (Some (session_principal u (as_id r)))"
    using a1 assms(5,6) by (simp add: resolve_begin_def ensure_credential_loaded_def CACHE_TTL_S_def)
  ultimately show ?thesis by blast
qed

theorem revocation_race_witness:
  "\<exists>a1. load_read ''t'' a1 = None \<and>
    fst (resolve_begin ''t'' 2 2 1 a1) = Answered (Some (session_principal ''me'' (as_id sample_row)))"
proof -
  have "load_read ''t'' sample_auth = Some sample_row"
    by (simp add: load_read_def sample_auth_def sample_row_def)
  from revocation_race [of sample_auth "''me''" "''t''" sample_row 1 2 2 1 _ 0 1, OF _ _ this _ _ _ refl]
  show ?thesis by (auto simp: sample_auth_def sample_row_def seconds_def)
qed

end
