(* ===== verification/AuthGate.thy ===== *)
theory AuthGate
  imports SessionProps
begin

section \<open>The request gate\<close>

text \<open>
  Models \<^verbatim>\<open>backend/app/auth/gate.py\<close> with the API-key and Basic halves of
  \<^verbatim>\<open>backend/app/auth/service.py\<close>. A request is the record of what the gate reads. Which
  addresses are private is asked of \<^verbatim>\<open>ipaddress\<close> and is the parameter \<open>is_local\<close>; the keyed
  digest of an Authorization header is \<open>digest\<close>, its base64 decoding \<open>decode\<close>.
\<close>

subsection \<open>Requests\<close>

record request =
  rq_path :: string
  rq_method :: string
  rq_https :: bool
  rq_peer :: "string option"
  rq_cookies :: "(string \<times> string) list"
  rq_query :: "(string \<times> string) list"
  rq_headers :: "(string \<times> string) list"

definition header :: "string \<Rightarrow> request \<Rightarrow> string option" where
  "header name rq = map_of (rq_headers rq) name"

definition non_empty :: "string option \<Rightarrow> string option" where
  "non_empty s = (case s of None \<Rightarrow> None | Some t \<Rightarrow> if t = [] then None else Some t)"

text \<open>Python's \<^verbatim>\<open>a or b\<close> on optional texts.\<close>

definition either :: "string option \<Rightarrow> string option \<Rightarrow> string option" where
  "either a b = (case non_empty a of None \<Rightarrow> b | Some t \<Rightarrow> Some t)"

definition GATED_PREFIXES :: "string list" where
  "GATED_PREFIXES = [''/api/'', ''/media/'', ''/stream/'']"

definition PUBLIC_PATHS :: "string list" where
  "PUBLIC_PATHS =
     [''/api/auth/state'', ''/api/auth/login'', ''/api/auth/logout'', ''/api/ingest/radio-recovery'']"

definition UNSAFE_METHODS :: "string list" where
  "UNSAFE_METHODS = [''POST'', ''PUT'', ''PATCH'', ''DELETE'']"

definition COOKIE_BORNE :: "string list" where
  "COOKIE_BORNE = [''session'', ''apikey'']"

definition is_gated :: "string \<Rightarrow> bool" where
  "is_gated path \<longleftrightarrow>
     path \<notin> set PUBLIC_PATHS \<and> (\<exists>p \<in> set GATED_PREFIXES. starts_with p path)"

subsection \<open>What the proxy says about the caller\<close>

definition peer_is_trusted :: "(string \<Rightarrow> bool) \<Rightarrow> request \<Rightarrow> bool" where
  "peer_is_trusted is_local rq \<longleftrightarrow>
     (case non_empty (rq_peer rq) of None \<Rightarrow> False | Some host \<Rightarrow> is_local host)"

definition before_comma :: "string \<Rightarrow> string" where
  "before_comma s = takeWhile (\<lambda>c. c \<noteq> CHR '','') s"

definition client_ip :: "(string \<Rightarrow> bool) \<Rightarrow> request \<Rightarrow> string option" where
  "client_ip is_local rq =
     (if \<not> peer_is_trusted is_local rq then rq_peer rq
      else
        (case non_empty (either (header ''CF-Connecting-IP'' rq) (header ''X-Forwarded-For'' rq)) of
           None \<Rightarrow> rq_peer rq
         | Some forwarded \<Rightarrow>
             (let a = take 64 (strip (before_comma forwarded)) in
              if a = [] then rq_peer rq else Some a)))"

definition client_is_local :: "(string \<Rightarrow> bool) \<Rightarrow> request \<Rightarrow> bool" where
  "client_is_local is_local rq \<longleftrightarrow>
     is_local (case client_ip is_local rq of None \<Rightarrow> [] | Some a \<Rightarrow> a)"

definition request_is_https :: "(string \<Rightarrow> bool) \<Rightarrow> request \<Rightarrow> bool" where
  "request_is_https is_local rq =
     (case (if peer_is_trusted is_local rq then non_empty (header ''X-Forwarded-Proto'' rq) else None) of
        Some proto \<Rightarrow> lower (strip (before_comma proto)) = ''https''
      | None \<Rightarrow> rq_https rq)"

definition origin_is_ours :: "(string \<Rightarrow> bool) \<Rightarrow> request \<Rightarrow> bool" where
  "origin_is_ours is_local rq \<longleftrightarrow>
     (if rq_method rq \<notin> set UNSAFE_METHODS then True
      else
        (case header ''Origin'' rq of
           None \<Rightarrow> True
         | Some origin \<Rightarrow>
             (case non_empty (header ''Host'' rq) of
                None \<Rightarrow> False
              | Some host \<Rightarrow>
                  origin = (if request_is_https is_local rq then ''https'' else ''http'') @ ''://'' @ host)))"

subsection \<open>Credentials\<close>

definition COOKIE_NAME :: string where "COOKIE_NAME = ''dashcam_session''"
definition SECURE_COOKIE_NAME :: string where "SECURE_COOKIE_NAME = ''__Host-dashcam_session''"
definition API_KEY_COOKIE_NAME :: string where "API_KEY_COOKIE_NAME = ''dashcam_key''"
definition SECURE_API_KEY_COOKIE_NAME :: string where
  "SECURE_API_KEY_COOKIE_NAME = ''__Host-dashcam_key''"
definition API_KEY_PARAM :: string where "API_KEY_PARAM = ''k''"
definition API_KEY_HEADER :: string where "API_KEY_HEADER = ''X-API-Key''"
definition MIN_API_KEY_LENGTH :: nat where "MIN_API_KEY_LENGTH = 24"

definition token_from_cookies :: "request \<Rightarrow> string" where
  "token_from_cookies rq =
     (case either (map_of (rq_cookies rq) SECURE_COOKIE_NAME) (map_of (rq_cookies rq) COOKIE_NAME) of
        None \<Rightarrow> [] | Some t \<Rightarrow> t)"

definition api_key_from_request :: "request \<Rightarrow> string" where
  "api_key_from_request rq =
     (let c = rq_cookies rq in
      case either (either (map_of c SECURE_API_KEY_COOKIE_NAME) (map_of c API_KEY_COOKIE_NAME))
             (either (header API_KEY_HEADER rq) (map_of (rq_query rq) API_KEY_PARAM)) of
        None \<Rightarrow> [] | Some k \<Rightarrow> k)"

definition resolve_api_key :: "string \<Rightarrow> string \<Rightarrow> real \<Rightarrow> auth \<Rightarrow> principal option \<times> auth" where
  "resolve_api_key configured presented now s =
     (let expected = strip configured in
      if presented = [] then (None, s)
      else if length expected < MIN_API_KEY_LENGTH then (None, s)
      else if presented \<noteq> expected then (None, s)
      else
        let s = ensure_credential_loaded now s in
        (map_option (\<lambda>u. \<lparr>pr_username = u, pr_method = ''apikey'', pr_session_id = None\<rparr>)
           (credential_username s), s))"

text \<open>
  The Basic header: cached answers first, then the throttle, then the password check, whose
  outcome is \<open>correct username password\<close>. The three later times are those of the throttle's
  consultations.
\<close>

definition basic_principal :: "string \<Rightarrow> principal" where
  "basic_principal u = \<lparr>pr_username = u, pr_method = ''basic'', pr_session_id = None\<rparr>"

definition basic_known ::
    "string \<Rightarrow> real \<Rightarrow> auth \<Rightarrow> principal option option \<times> auth" where
  "basic_known key now s =
     (let (hit, s) =
        (case map_of (basic_cache s) key of
           None \<Rightarrow> (None, s)
         | Some (epoch, checked_at, username) \<Rightarrow>
             if epoch = credential_epoch s \<and> now - checked_at < CACHE_TTL_S
             then (Some (basic_principal username), s)
             else (None, s\<lparr>basic_cache := AList.delete key (basic_cache s)\<rparr>)) in
      case hit of
        Some p \<Rightarrow> (Some (Some p), s)
      | None \<Rightarrow>
          (case map_of (basic_rejected s) key of
             None \<Rightarrow> (None, s)
           | Some (epoch, seen_at) \<Rightarrow>
               if epoch = credential_epoch s \<and> now - seen_at < CACHE_TTL_S then (Some None, s)
               else (None, s\<lparr>basic_rejected := AList.delete key (basic_rejected s)\<rparr>)))"

definition resolve_basic ::
    "(string \<Rightarrow> string) \<Rightarrow> (string \<Rightarrow> string option) \<Rightarrow> (string \<Rightarrow> string \<Rightarrow> bool) \<Rightarrow>
     string \<Rightarrow> string \<Rightarrow> real \<Rightarrow> real \<Rightarrow> real \<Rightarrow> real \<Rightarrow> auth \<times> hits \<Rightarrow> principal option \<times> auth \<times> hits" where
  "resolve_basic digest decode correct hdr address now t1 t2 t3 sh =
     (let (s, h) = sh in
      if \<not> starts_with ''Basic '' hdr then (None, s, h)
      else
        let s = ensure_credential_loaded now s in
        if credential_username s = None then (None, s, h)
        else
          let key = digest hdr; (known, s) = basic_known key now s in
          case known of
            Some p \<Rightarrow> (p, s, h)
          | None \<Rightarrow>
              (case decode (drop 6 hdr) of
                 None \<Rightarrow> (None, s, h)
               | Some text \<Rightarrow>
                   if CHR '':'' \<notin> set text then (None, s, h)
                   else
                     let username = takeWhile (\<lambda>c. c \<noteq> CHR '':'') text;
                         password = tl (dropWhile (\<lambda>c. c \<noteq> CHR '':'') text) in
                     case retry_after (ip_key address) t1 h of
                       (Some _, h) \<Rightarrow> (None, s, h)
                     | (None, h) \<Rightarrow>
                         let h = snd (delay_for [user_key username] t2 h) in
                         if \<not> correct username password
                         then (None, s\<lparr>basic_rejected := remember key (credential_epoch s, now) (basic_rejected s)\<rparr>,
                               record_failure [ip_key address, user_key username] t3 h)
                         else
                           let resolved = (case credential_username s of
                                 Some u \<Rightarrow> if u = [] then username else u | None \<Rightarrow> username) in
                           (Some (basic_principal resolved),
                            s\<lparr>basic_cache := remember key (credential_epoch s, now, resolved) (basic_cache s)\<rparr>,
                            record_success [ip_key address, user_key username] h)))"

subsection \<open>The decision\<close>

text \<open>
  \<open>by_session\<close>, \<open>by_key\<close> and \<open>by_basic\<close> are the outcomes of the three resolutions, each awaited
  only if the ones before gave nothing.
\<close>

definition authenticate ::
    "(string \<Rightarrow> principal option) \<Rightarrow> (string \<Rightarrow> principal option) \<Rightarrow> (string \<Rightarrow> principal option) \<Rightarrow>
     request \<Rightarrow> principal option" where
  "authenticate by_session by_key by_basic rq =
     (let token = token_from_cookies rq;
          from_session = (if token = [] then None else by_session token) in
      case from_session of
        Some p \<Rightarrow> Some p
      | None \<Rightarrow>
          (let presented = api_key_from_request rq;
               from_key = (if presented = [] then None else by_key presented) in
           case from_key of
             Some p \<Rightarrow> Some p
           | None \<Rightarrow>
               (case non_empty (header ''Authorization'' rq) of
                  None \<Rightarrow> None
                | Some hdr \<Rightarrow> by_basic hdr)))"

datatype gate_result = Forwarded "principal option" | Challenged bool | CrossOriginRefused

definition challenge :: "request \<Rightarrow> gate_result" where
  "challenge rq = Challenged (non_empty (header ''Authorization'' rq) \<noteq> None)"

definition auth_gate ::
    "(string \<Rightarrow> bool) \<Rightarrow> bool \<Rightarrow> bool \<Rightarrow> principal option \<Rightarrow> request \<Rightarrow> gate_result" where
  "auth_gate is_local is_http required who rq =
     (if \<not> is_http then Forwarded None
      else if \<not> is_gated (rq_path rq) then Forwarded None
      else if \<not> required then Forwarded None
      else
        (case who of
           None \<Rightarrow> challenge rq
         | Some p \<Rightarrow>
             if pr_method p \<in> set COOKIE_BORNE \<and> \<not> origin_is_ours is_local rq
             then CrossOriginRefused
             else Forwarded (Some p)))"


subsection \<open>What passes the gate\<close>

lemma api_key_accepted:
  assumes "fst (resolve_api_key configured presented now s) = Some p"
  shows "presented = strip configured \<and> MIN_API_KEY_LENGTH \<le> length presented \<and> pr_method p = ''apikey''"
  using assms by (auto simp: resolve_api_key_def Let_def split: if_splits)

text \<open>C31: data is only served to someone who proved who they are. With sign-in on, a request for
  footage, telemetry or settings is forwarded only with a principal that its own session cookie,
  its own API key (which then equals the configured key of at least 24 characters) or its own
  Authorization header resolved to; and if that credential is one a browser attaches by itself
  and the method changes something, the request carries no Origin or exactly the origin this
  deployment is reached under.\<close>

theorem gate_admits_only_proven:
  assumes "is_gated (rq_path rq)"
    and "by_key = (\<lambda>k. fst (resolve_api_key configured k now s))"
    and "auth_gate is_local True True (authenticate by_session by_key by_basic rq) rq = Forwarded p"
  shows "\<exists>pr. p = Some pr \<and>
    (token_from_cookies rq \<noteq> [] \<and> by_session (token_from_cookies rq) = Some pr \<or>
     api_key_from_request rq = strip configured \<and> 24 \<le> length (strip configured) \<and>
       pr_method pr = ''apikey'' \<or>
     (\<exists>hdr. header ''Authorization'' rq = Some hdr \<and> hdr \<noteq> [] \<and> by_basic hdr = Some pr)) \<and>
    (pr_method pr \<in> set COOKIE_BORNE \<and> rq_method rq \<in> set UNSAFE_METHODS \<longrightarrow>
     header ''Origin'' rq = None \<or>
     (\<exists>host. header ''Host'' rq = Some host \<and> host \<noteq> [] \<and>
       header ''Origin'' rq =
         Some ((if request_is_https is_local rq then ''https'' else ''http'') @ ''://'' @ host)))"
proof -
  obtain pr where pr: "authenticate by_session by_key by_basic rq = Some pr" "p = Some pr"
    and origin: "pr_method pr \<in> set COOKIE_BORNE \<longrightarrow> origin_is_ours is_local rq"
    using assms(1,3)
    by (auto simp: auth_gate_def challenge_def split: option.splits if_splits)
  have "token_from_cookies rq \<noteq> [] \<and> by_session (token_from_cookies rq) = Some pr \<or>
      by_key (api_key_from_request rq) = Some pr \<or>
      (\<exists>hdr. header ''Authorization'' rq = Some hdr \<and> hdr \<noteq> [] \<and> by_basic hdr = Some pr)"
    using pr(1)
    by (auto simp: authenticate_def Let_def non_empty_def split: option.splits if_splits)
  moreover have "api_key_from_request rq = strip configured \<and> 24 \<le> length (strip configured) \<and>
      pr_method pr = ''apikey''" if "by_key (api_key_from_request rq) = Some pr"
    using api_key_accepted that assms(2) by (fastforce simp: MIN_API_KEY_LENGTH_def)
  ultimately show ?thesis
    using pr(2) origin
    by (intro exI [of _ pr]) (auto simp: origin_is_ours_def non_empty_def split: option.splits if_splits)
qed

definition sample_request :: request where
  "sample_request = \<lparr>rq_path = ''/api/settings'', rq_method = ''PUT'', rq_https = False,
     rq_peer = Some ''172.18.0.2'', rq_cookies = [(''dashcam_session'', ''t'')], rq_query = [],
     rq_headers = [(''Origin'', ''https://cam.example''), (''Host'', ''cam.example''),
       (''X-Forwarded-Proto'', ''https'')]\<rparr>"

theorem gate_admits_only_proven_witness:
  "\<exists>pr. auth_gate (\<lambda>_. True) True True
      (authenticate (\<lambda>t. if t = ''t'' then Some (session_principal ''me'' 1) else None)
         (\<lambda>k. fst (resolve_api_key [] k 0 sample_auth)) (\<lambda>_. None) sample_request) sample_request =
      Forwarded (Some pr) \<and> token_from_cookies sample_request \<noteq> []"
proof -
  have gated: "is_gated (rq_path sample_request)" by code_simp
  have token: "token_from_cookies sample_request = ''t''" by code_simp
  have https: "request_is_https (\<lambda>_. True) sample_request" by code_simp
  have run: "auth_gate (\<lambda>_. True) True True
      (authenticate (\<lambda>t. if t = ''t'' then Some (session_principal ''me'' 1) else None)
         (\<lambda>k. fst (resolve_api_key [] k 0 sample_auth)) (\<lambda>_. None) sample_request) sample_request =
      Forwarded (Some (session_principal ''me'' 1))"
    using gated token https
    by (simp add: auth_gate_def authenticate_def origin_is_ours_def header_def sample_request_def non_empty_def)
  from gate_admits_only_proven [OF gated refl run] run token show ?thesis by auto
qed

end
