(* ===== verification/Plates.thy ===== *)
theory Plates
  imports Prelude "HOL-Library.Product_Lexorder"
begin

section \<open>Licence-plate normalisation\<close>

text \<open>
  Models \<^verbatim>\<open>backend/app/ai/normalise_au.py\<close>: the format table, cleaning, the projection of a
  reading onto a format, the choice among formats, and the similarity of two readings. Readings
  are ASCII text, so \<^verbatim>\<open>isalnum\<close>, \<^verbatim>\<open>isalpha\<close> and \<^verbatim>\<open>isdigit\<close> are the ASCII classes; scores are exact
  reals.
\<close>

subsection \<open>The format table\<close>

definition LETTER_SLOT :: char where "LETTER_SLOT = CHR ''A''"
definition DIGIT_SLOT :: char where "DIGIT_SLOT = CHR ''#''"

record plate_pattern =
  pp_name :: string
  pp_mask :: string
  pp_states :: "string list"
  pp_priority :: int

definition state_hint :: "plate_pattern \<Rightarrow> string option" where
  "state_hint p = (case pp_states p of [s] \<Rightarrow> Some s | _ \<Rightarrow> None)"

definition generic_pattern :: "plate_pattern \<Rightarrow> bool" where
  "generic_pattern p \<longleftrightarrow> pp_states p = []"

definition display_mask :: "string \<Rightarrow> string" where
  "display_mask m = List.map (\<lambda>c. if c = DIGIT_SLOT then CHR ''0'' else c) m"

text \<open>The masks of \<^verbatim>\<open>_generic_six\<close> in the order of its loop, named and blanket ones left out.\<close>

definition generic_masks :: "string list" where
  "generic_masks = concat (List.map (\<lambda>letters.
      (replicate letters LETTER_SLOT @ replicate (6 - letters) DIGIT_SLOT) #
      (if 0 < letters \<and> letters < 6
       then [replicate (6 - letters) DIGIT_SLOT @ replicate letters LETTER_SLOT] else []))
    [0..<7])"

fun keep_new :: "string list \<Rightarrow> string list \<Rightarrow> string list" where
  "keep_new seen [] = []"
| "keep_new seen (m # ms) =
     (if m \<in> set seen then keep_new seen ms else m # keep_new (m # seen) ms)"

definition generic_six :: "plate_pattern list" where
  "generic_six =
     (let named = [''AAA###'', ''###AAA'', replicate 6 LETTER_SLOT, replicate 6 DIGIT_SLOT] in
      List.map (\<lambda>m. \<lparr>pp_name = ''AU:GEN:'' @ display_mask m, pp_mask = m, pp_states = [], pp_priority = 2\<rparr>)
        (keep_new named generic_masks))"

definition pattern :: "string \<Rightarrow> string \<Rightarrow> string list \<Rightarrow> int \<Rightarrow> plate_pattern" where
  "pattern name m states priority =
     \<lparr>pp_name = name, pp_mask = m, pp_states = states, pp_priority = priority\<rparr>"

definition AU_PATTERNS :: "plate_pattern list" where
  "AU_PATTERNS =
     [pattern ''SA:S000AAA'' ''S###AAA'' [''SA''] 0,
      pattern ''SA:PREMIUM:AA000A'' ''AA###A'' [''SA''] 0,
      pattern ''SA:EURO:SEA00A'' ''SEA##A'' [''SA''] 0,
      pattern ''SA:EURO:SXA00A'' ''SXA##A'' [''SA''] 0,
      pattern ''WA:0AAA000'' ''#AAA###'' [''WA''] 0,
      pattern ''TAS:A00AA'' ''A##AA'' [''TAS''] 0,
      pattern ''ACT:AAA00A'' ''AAA##A'' [''ACT''] 0,
      pattern ''AU:AA00AA'' ''AA##AA'' [''NSW'', ''NT''] 1,
      pattern ''AU:AAA000'' ''AAA###'' [''NSW'', ''QLD'', ''SA'', ''TAS'', ''VIC'', ''WA''] 1,
      pattern ''AU:000AAA'' ''###AAA'' [''QLD'', ''VIC''] 1] @ generic_six"

definition patterns_for_region :: "string option \<Rightarrow> plate_pattern list" where
  "patterns_for_region region =
     (case region of
        None \<Rightarrow> []
      | Some r \<Rightarrow>
          if r = [] then []
          else
            let token = upper (strip r) in
            if token \<in> {''NONE'', ''OFF'', []} then []
            else if token = ''AU'' then AU_PATTERNS
            else if starts_with ''AU-'' token then
              let state = drop 3 token in
              List.map (\<lambda>p. if generic_pattern p \<or> state \<in> set (pp_states p) then p
                       else p\<lparr>pp_states := [], pp_priority := 2\<rparr>) AU_PATTERNS
            else [])"

subsection \<open>Confusions\<close>

definition digit_to_letters :: "char \<Rightarrow> string" where
  "digit_to_letters c =
     (if c = CHR ''0'' then ''ODQ'' else if c = CHR ''1'' then ''I'' else if c = CHR ''2'' then ''Z''
      else if c = CHR ''5'' then ''S'' else if c = CHR ''6'' then ''G'' else if c = CHR ''8'' then ''B''
      else [])"

definition letter_to_digits :: "char \<Rightarrow> string" where
  "letter_to_digits c =
     (if c \<in> set ''ODQ'' then ''0'' else if c = CHR ''I'' then ''1'' else if c = CHR ''Z'' then ''2''
      else if c = CHR ''S'' then ''5'' else if c = CHR ''G'' then ''6'' else if c = CHR ''B'' then ''8''
      else [])"

definition CONFUSABLE_GROUPS :: "string list" where
  "CONFUSABLE_GROUPS = [''0ODQ'', ''1I'', ''2Z'', ''5S'', ''6G'', ''8B'']"

definition shape_group :: "char \<Rightarrow> nat option" where
  "shape_group c = List.find (\<lambda>i. c \<in> set (CONFUSABLE_GROUPS ! i)) [0..<length CONFUSABLE_GROUPS]"

definition confusable :: "char \<Rightarrow> char \<Rightarrow> bool" where
  "confusable a b \<longleftrightarrow> shape_group a \<noteq> None \<and> shape_group a = shape_group b"

subsection \<open>Cleaning\<close>

definition SLOGAN_WORDS :: "string list" where
  "SLOGAN_WORDS =
     [''AUSTRALIA'', ''AUSTRALIAN'', ''AUS'', ''NEW'', ''SOUTH'', ''WALES'', ''WESTERN'', ''NORTHERN'',
      ''TERRITORY'', ''CAPITAL'', ''VICTORIA'', ''QUEENSLAND'', ''TASMANIA'', ''CANBERRA'', ''THE'',
      ''STATE'', ''FESTIVAL'', ''PLACE'', ''TO'', ''BE'', ''SUNSHINE'', ''SMART'', ''EXPLORE'',
      ''POSSIBILITIES'', ''OUTBACK'', ''NATURALLY'', ''GARDEN'', ''HOLIDAY'', ''ISLE'',
      ''INSPIRATION'', ''DISCOVER'', ''SPIRIT'', ''HEART'', ''NATION'', ''GOVERNMENT'', ''GOV'']"

definition STATE_ABBREVIATIONS :: "string list" where
  "STATE_ABBREVIATIONS = [''NSW'', ''VIC'', ''QLD'', ''SA'', ''WA'', ''TAS'', ''NT'', ''ACT'']"

definition is_alnum :: "char \<Rightarrow> bool" where
  "is_alnum c \<longleftrightarrow> is_digit c \<or> is_upper_letter c"

text \<open>The loop of \<^verbatim>\<open>_tokenise\<close> over the upper-cased text, with the token being collected.\<close>

fun token_loop :: "string \<Rightarrow> string \<Rightarrow> string list" where
  "token_loop current [] = (if current = [] then [] else [current])"
| "token_loop current (c # cs) =
     (if is_alnum c then token_loop (current @ [c]) cs
      else if current = [] then token_loop [] cs
      else current # token_loop [] cs)"

definition tokenise :: "string \<Rightarrow> string list" where
  "tokenise raw = token_loop [] (upper raw)"

definition clean :: "string \<Rightarrow> string" where
  "clean raw =
     (let tokens = tokenise raw in
      if tokens = [] then []
      else
        let kept = filter (\<lambda>t. t \<notin> set SLOGAN_WORDS) tokens;
            kept = (if kept = [] then tokens else kept);
            without_state = filter (\<lambda>t. t \<notin> set STATE_ABBREVIATIONS) kept in
        concat (if without_state = [] then kept else without_state))"

subsection \<open>Projection onto a format\<close>

definition MAX_CANDIDATES :: nat where "MAX_CANDIDATES = 512"

text \<open>Characters that can occupy a slot, each with its substitution cost and its rank.\<close>

definition ranked :: "string \<Rightarrow> (char \<times> nat \<times> nat) list" where
  "ranked cs = List.map (\<lambda>i. (cs ! i, 1, i)) [0..<length cs]"

definition slot_options :: "char \<Rightarrow> char \<Rightarrow> (char \<times> nat \<times> nat) list" where
  "slot_options c slot =
     (if slot = LETTER_SLOT then
        if is_upper_letter c then [(c, 0, 0)] else ranked (digit_to_letters c)
      else if slot = DIGIT_SLOT then
        if is_digit c then [(c, 0, 0)] else ranked (letter_to_digits c)
      else if c = slot then [(slot, 0, 0)]
      else if confusable c slot then [(slot, 1, 0)]
      else [])"

text \<open>The options per slot, unless a slot has none or the combinations pass the ceiling.\<close>

fun collect_options :: "nat \<Rightarrow> string \<Rightarrow> string \<Rightarrow> (char \<times> nat \<times> nat) list list option" where
  "collect_options combinations (c # cs) (slot # slots) =
     (let options = slot_options c slot; n = combinations * length options in
      if options = [] then None
      else if MAX_CANDIDATES < n then None
      else map_option (\<lambda>rest. options # rest) (collect_options n cs slots))"
| "collect_options combinations _ _ = Some []"

definition reading :: "(char \<times> nat \<times> nat) list \<Rightarrow> string \<times> nat \<times> nat" where
  "reading combination =
     (List.map fst combination, sum_list (List.map (fst \<circ> snd) combination),
      sum_list (List.map (snd \<circ> snd) combination))"

definition better :: "string \<times> nat \<times> nat \<Rightarrow> (string \<times> nat \<times> nat) option \<Rightarrow> (string \<times> nat \<times> nat) option" where
  "better r best =
     (case best of
        None \<Rightarrow> Some r
      | Some b \<Rightarrow> if snd r < snd b then Some r else best)"

definition project :: "string \<Rightarrow> plate_pattern \<Rightarrow> (string \<times> nat \<times> nat) option" where
  "project cleaned p =
     (if length cleaned \<noteq> length (pp_mask p) then None
      else
        (case collect_options 1 cleaned (pp_mask p) of
           None \<Rightarrow> None
         | Some per_slot \<Rightarrow> fold better (List.map reading (product_lists per_slot)) None))"

subsection \<open>Normalising a reading\<close>

definition EXACT_MATCH_BONUS :: real where "EXACT_MATCH_BONUS = 0.05"
definition SUBSTITUTION_COST :: real where "SUBSTITUTION_COST = 0.02"
definition GENERIC_MATCH_FACTOR :: real where "GENERIC_MATCH_FACTOR = 0.5"
definition NO_MATCH_PENALTY :: real where "NO_MATCH_PENALTY = -0.10"
definition IMPLAUSIBLE_LENGTH_PENALTY :: real where "IMPLAUSIBLE_LENGTH_PENALTY = -0.15"
definition MIN_PLAUSIBLE_LENGTH :: nat where "MIN_PLAUSIBLE_LENGTH = 4"
definition MAX_PLAUSIBLE_LENGTH :: nat where "MAX_PLAUSIBLE_LENGTH = 8"

record normalised_plate =
  np_raw :: string
  np_normalised :: string
  np_matched :: bool
  np_pattern_name :: "string option"
  np_state_hint :: "string option"
  np_confidence_delta :: real
  np_cleaned :: string
  np_substitutions :: nat
  np_plausible_states :: "string list"

definition display_text :: "normalised_plate \<Rightarrow> string" where
  "display_text n = (if np_normalised n \<noteq> [] then np_normalised n else upper (strip (np_raw n)))"

definition confidence_delta :: "plate_pattern \<Rightarrow> nat \<Rightarrow> real" where
  "confidence_delta p substitutions =
     (let bonus = EXACT_MATCH_BONUS * (if generic_pattern p then GENERIC_MATCH_FACTOR else 1) in
      py_round 4 (max NO_MATCH_PENALTY (bonus - real substitutions * SUBSTITUTION_COST)))"

text \<open>A format with digit slots has to be shown a real digit in one of them.\<close>

definition digit_evidence :: "string \<Rightarrow> string \<Rightarrow> bool" where
  "digit_evidence cleaned m \<longleftrightarrow>
     DIGIT_SLOT \<notin> set m \<or> (\<exists>(c, slot) \<in> set (zip cleaned m). slot = DIGIT_SLOT \<and> is_digit c)"

type_synonym plate_candidate = "(nat \<times> int \<times> nat \<times> nat) \<times> string \<times> plate_pattern"

definition plate_candidate_of :: "string \<Rightarrow> nat \<times> plate_pattern \<Rightarrow> plate_candidate option" where
  "plate_candidate_of cleaned ip =
     (let (index, p) = ip in
      if length (pp_mask p) \<noteq> length cleaned then None
      else if \<not> digit_evidence cleaned (pp_mask p) then None
      else
        (case project cleaned p of
           None \<Rightarrow> None
         | Some (text, substitutions, rank) \<Rightarrow>
             Some ((substitutions, pp_priority p, rank, index), text, p)))"

definition plate_candidates :: "string \<Rightarrow> string option \<Rightarrow> plate_candidate list" where
  "plate_candidates cleaned region =
     (let ps = patterns_for_region region in
      List.map_filter (plate_candidate_of cleaned) (zip [0..<length ps] ps))"

definition unmatched :: "string \<Rightarrow> string \<Rightarrow> real \<Rightarrow> normalised_plate" where
  "unmatched raw cleaned delta =
     \<lparr>np_raw = raw, np_normalised = cleaned, np_matched = False, np_pattern_name = None,
      np_state_hint = None, np_confidence_delta = delta, np_cleaned = cleaned,
      np_substitutions = 0, np_plausible_states = []\<rparr>"

definition normalise :: "string \<Rightarrow> string option \<Rightarrow> normalised_plate" where
  "normalise raw region =
     (let cleaned = clean raw in
      if cleaned = [] then unmatched raw [] IMPLAUSIBLE_LENGTH_PENALTY
      else
        (case plate_candidates cleaned region of
           [] \<Rightarrow>
             unmatched raw cleaned
               (if MIN_PLAUSIBLE_LENGTH \<le> length cleaned \<and> length cleaned \<le> MAX_PLAUSIBLE_LENGTH
                then NO_MATCH_PENALTY else IMPLAUSIBLE_LENGTH_PENALTY)
         | c # cs \<Rightarrow>
             let ((substitutions, _, _, _), text, p) = arg_min_list fst (c # cs) in
             \<lparr>np_raw = raw, np_normalised = text, np_matched = True,
              np_pattern_name = Some (pp_name p), np_state_hint = state_hint p,
              np_confidence_delta = confidence_delta p substitutions, np_cleaned = cleaned,
              np_substitutions = substitutions, np_plausible_states = pp_states p\<rparr>))"

subsection \<open>Similarity\<close>

definition CONFUSION_SUB_COST :: real where "CONFUSION_SUB_COST = 0.5"
definition SUB_COST :: real where "SUB_COST = 1"
definition INDEL_COST :: real where "INDEL_COST = 1"

definition sub_cost :: "char \<Rightarrow> char \<Rightarrow> real" where
  "sub_cost a b = (if a = b then 0 else if confusable a b then CONFUSION_SUB_COST else SUB_COST)"

text \<open>One row of the table: \<open>left\<close> is \<^verbatim>\<open>current[j - 1]\<close>, the list is \<^verbatim>\<open>previous[j - 1:]\<close>.\<close>

fun next_row :: "char \<Rightarrow> string \<Rightarrow> real list \<Rightarrow> real \<Rightarrow> real list" where
  "next_row ca (cb # b) (diag # up # previous) left =
     (let v = min (min (up + INDEL_COST) (left + INDEL_COST)) (diag + sub_cost ca cb) in
      v # next_row ca b (up # previous) v)"
| "next_row ca _ _ left = []"

fun rows :: "nat \<Rightarrow> string \<Rightarrow> string \<Rightarrow> real list \<Rightarrow> real list" where
  "rows i [] b previous = previous"
| "rows i (ca # a) b previous =
     rows (i + 1) a b ((real i * INDEL_COST) # next_row ca b previous (real i * INDEL_COST))"

definition weighted_levenshtein :: "string \<Rightarrow> string \<Rightarrow> real" where
  "weighted_levenshtein a b =
     last (rows 1 a b (List.map (\<lambda>j. real j * INDEL_COST) [0..<length b + 1]))"

definition plate_similarity :: "string \<Rightarrow> string \<Rightarrow> real" where
  "plate_similarity a b =
     (let x = clean a; y = clean b in
      if x = [] \<and> y = [] then 1
      else if x = [] \<or> y = [] then 0
      else if x = y then 1
      else max 0 (1 - weighted_levenshtein x y / real (max (length x) (length y))))"

end
