(* ===== verification/PlateProps.thy ===== *)
theory PlateProps
  imports Plates
begin

section \<open>Licence plates: what normalisation and similarity guarantee\<close>

text \<open>
  A matched reading fits a format of the region, changes only characters that share a printed
  shape, and needs no more changes than any other admissible reading; normalising twice changes
  nothing; and the row-by-row distance is the cheapest edit script.
\<close>

subsection \<open>Slots\<close>

definition fits :: "char \<Rightarrow> char \<Rightarrow> bool" where
  "fits slot c \<longleftrightarrow>
     (if slot = LETTER_SLOT then is_upper_letter c
      else if slot = DIGIT_SLOT then is_digit c else c = slot)"

definition plausible :: "char \<Rightarrow> char \<Rightarrow> bool" where
  "plausible a b \<longleftrightarrow> a = b \<or> confusable a b"

definition changes :: "string \<Rightarrow> string \<Rightarrow> nat" where
  "changes a b = length (filter (\<lambda>(x, y). x \<noteq> y) (zip a b))"

text \<open>Everything that can change is one of seventeen characters.\<close>

definition SHAPES :: string where
  "SHAPES = ''01256 8ODQIZSGB''"

lemma shape_mem: "shape_group c \<noteq> None \<Longrightarrow> c \<in> set SHAPES"
  by (auto simp: shape_group_def CONFUSABLE_GROUPS_def SHAPES_def find_Some_iff numeral_eq_Suc less_Suc_eq
      split: if_splits)

lemma letters_of_digit:
  "x \<in> set (digit_to_letters c) \<Longrightarrow> is_upper_letter x \<and> confusable c x \<and> \<not> is_upper_letter c"
proof -
  have "\<forall>c \<in> set SHAPES. \<forall>x \<in> set (digit_to_letters c).
      is_upper_letter x \<and> confusable c x \<and> \<not> is_upper_letter c" by code_simp
  moreover have "x \<in> set (digit_to_letters c) \<Longrightarrow> c \<in> set SHAPES"
    by (auto simp: digit_to_letters_def SHAPES_def split: if_splits)
  ultimately show "x \<in> set (digit_to_letters c) \<Longrightarrow> ?thesis" by blast
qed

lemma digits_of_letter:
  "x \<in> set (letter_to_digits c) \<Longrightarrow> is_digit x \<and> confusable c x \<and> \<not> is_digit c"
proof -
  have "\<forall>c \<in> set SHAPES. \<forall>x \<in> set (letter_to_digits c).
      is_digit x \<and> confusable c x \<and> \<not> is_digit c" by code_simp
  moreover have "x \<in> set (letter_to_digits c) \<Longrightarrow> c \<in> set SHAPES"
    by (auto simp: letter_to_digits_def SHAPES_def split: if_splits)
  ultimately show "x \<in> set (letter_to_digits c) \<Longrightarrow> ?thesis" by blast
qed

text \<open>A character that shares a shape with a letter (a digit) and is none has a letter (digit) to become.\<close>

lemma some_letter:
  "confusable a b \<Longrightarrow> is_upper_letter b \<Longrightarrow> \<not> is_upper_letter a \<Longrightarrow> digit_to_letters a \<noteq> []"
proof -
  have "\<forall>a \<in> set SHAPES. \<forall>b \<in> set SHAPES. confusable a b \<and> is_upper_letter b \<and> \<not> is_upper_letter a \<longrightarrow>
      digit_to_letters a \<noteq> []" by code_simp
  then show "confusable a b \<Longrightarrow> is_upper_letter b \<Longrightarrow> \<not> is_upper_letter a \<Longrightarrow> ?thesis"
    using shape_mem [of a] shape_mem [of b] confusable_def [of a b] by metis
qed

lemma some_digit:
  "confusable a b \<Longrightarrow> is_digit b \<Longrightarrow> \<not> is_digit a \<Longrightarrow> letter_to_digits a \<noteq> []"
proof -
  have "\<forall>a \<in> set SHAPES. \<forall>b \<in> set SHAPES. confusable a b \<and> is_digit b \<and> \<not> is_digit a \<longrightarrow>
      letter_to_digits a \<noteq> []" by code_simp
  then show "confusable a b \<Longrightarrow> is_digit b \<Longrightarrow> \<not> is_digit a \<Longrightarrow> ?thesis"
    using shape_mem [of a] shape_mem [of b] confusable_def [of a b] by metis
qed

lemma ranked_mem: "(x, cost, rank) \<in> set (ranked cs) \<Longrightarrow> x \<in> set cs \<and> cost = 1"
  by (auto simp: ranked_def)

text \<open>An option fits its slot; it costs nothing exactly when it is the character itself.\<close>

lemma slot_option_sound:
  assumes "(x, cost, rank) \<in> set (slot_options c slot)"
  shows "fits slot x \<and> plausible c x \<and> cost = (if c = x then 0 else 1)"
proof -
  have "confusable c c' \<and> c \<noteq> c' \<Longrightarrow> plausible c c'" for c' by (simp add: plausible_def)
  then show ?thesis
    using assms letters_of_digit [of x c] digits_of_letter [of x c] ranked_mem [of x cost rank]
    by (auto simp: slot_options_def fits_def plausible_def split: if_splits dest!: ranked_mem)
qed

lemma slot_option_complete:
  assumes "fits slot x" "plausible c x"
  shows "\<exists>(y, cost, rank) \<in> set (slot_options c slot). cost \<le> (if c = x then 0 else 1)"
proof -
  have r: "cs \<noteq> [] \<Longrightarrow> \<exists>(y, cost, rank) \<in> set (ranked cs). cost \<le> 1" for cs
    by (cases cs) (auto simp: ranked_def intro!: image_eqI [of _ _ 0])
  show ?thesis
    using assms r some_letter [of c x] some_digit [of c x]
    by (auto simp: slot_options_def fits_def plausible_def split: if_splits)
qed

subsection \<open>Projection\<close>

lemma collect_options_Some:
  "collect_options n cs slots = Some per_slot \<Longrightarrow> length cs = length slots \<Longrightarrow>
     per_slot = map2 slot_options cs slots"
  by (induction n cs slots arbitrary: per_slot rule: collect_options.induct)
     (auto simp: Let_def split: if_splits)

lemma fold_better_Some:
  "\<exists>c. fold better rs (Some b) = Some c \<and> c \<in> insert b (set rs) \<and> (\<forall>r \<in> insert b (set rs). snd c \<le> snd r)"
proof (induction rs arbitrary: b)
  case (Cons r rs)
  show ?case
  proof (cases "snd r < snd b")
    case True
    with Cons.IH [of r] show ?thesis by (fastforce simp: better_def)
  next
    case False
    with Cons.IH [of b] show ?thesis by (fastforce simp: better_def)
  qed
qed simp

lemma fold_better:
  assumes "fold better rs None = Some b" shows "b \<in> set rs \<and> (\<forall>r \<in> set rs. snd b \<le> snd r)"
  using assms fold_better_Some [of "tl rs" "hd rs"] by (cases rs) (auto simp: better_def)

definition admissible :: "string \<Rightarrow> string \<Rightarrow> string \<Rightarrow> bool" where
  "admissible cleaned m text \<longleftrightarrow> list_all2 fits m text \<and> list_all2 plausible cleaned text"

lemma reading_sound:
  assumes "list_all2 (\<lambda>x ys. x \<in> set ys) comb (map2 slot_options cs m)" "length cs = length m"
  shows "admissible cs m (fst (reading comb)) \<and>
    fst (snd (reading comb)) = changes cs (fst (reading comb))"
  using assms
proof (induction cs m arbitrary: comb rule: list_induct2')
  case (4 c cs s m)
  then obtain x cost rank comb' where comb: "comb = (x, cost, rank) # comb'"
      "(x, cost, rank) \<in> set (slot_options c s)"
      "list_all2 (\<lambda>x ys. x \<in> set ys) comb' (map2 slot_options cs m)"
    by (cases comb) auto
  with 4 slot_option_sound [OF comb(2)] show ?case
    by (auto simp: reading_def admissible_def changes_def)
qed (auto simp: reading_def admissible_def changes_def)

lemma reading_complete:
  assumes "admissible cs m out" "length cs = length m"
  shows "\<exists>comb. list_all2 (\<lambda>x ys. x \<in> set ys) comb (map2 slot_options cs m) \<and>
    fst (snd (reading comb)) \<le> changes cs out"
  using assms
proof (induction cs m arbitrary: out rule: list_induct2')
  case (4 c cs s m)
  then obtain x t where out: "out = x # t" and x: "fits s x" "plausible c x" and t: "admissible cs m t"
    by (cases out) (auto simp: admissible_def)
  obtain y cost rank where y: "(y, cost, rank) \<in> set (slot_options c s)" "cost \<le> (if c = x then 0 else 1)"
    using slot_option_complete [OF x] by auto
  obtain comb where comb: "list_all2 (\<lambda>x ys. x \<in> set ys) comb (map2 slot_options cs m)"
      "fst (snd (reading comb)) \<le> changes cs t"
    using "4.IH" [OF t] "4.prems" by auto
  show ?case
    using y comb by (intro exI [of _ "(y, cost, rank) # comb"]) (auto simp: out reading_def changes_def split: if_splits)
qed (auto simp: reading_def admissible_def changes_def)

lemma project_sound:
  assumes "project cleaned p = Some (text, substitutions, rank)"
  shows "admissible cleaned (pp_mask p) text \<and> substitutions = changes cleaned text \<and>
    (\<forall>t. admissible cleaned (pp_mask p) t \<longrightarrow> substitutions \<le> changes cleaned t)"
proof -
  obtain per_slot where len: "length cleaned = length (pp_mask p)"
    and c: "collect_options 1 cleaned (pp_mask p) = Some per_slot"
    and f: "fold better (List.map reading (product_lists per_slot)) None = Some (text, substitutions, rank)"
    using assms by (auto simp: project_def split: if_splits option.splits)
  note per = collect_options_Some [OF c len]
  obtain comb where comb: "list_all2 (\<lambda>x ys. x \<in> set ys) comb per_slot" "reading comb = (text, substitutions, rank)"
    using fold_better [OF f] by (auto simp: product_lists_set)
  have "substitutions \<le> changes cleaned t" if adm: "admissible cleaned (pp_mask p) t" for t
  proof -
    obtain other where o: "list_all2 (\<lambda>x ys. x \<in> set ys) other per_slot" "fst (snd (reading other)) \<le> changes cleaned t"
      using reading_complete [OF adm len] per by auto
    then have "reading other \<in> set (List.map reading (product_lists per_slot))"
      by (auto simp: product_lists_set)
    then have "(substitutions, rank) \<le> snd (reading other)"
      using fold_better [OF f] by fastforce
    then have "substitutions \<le> fst (snd (reading other))" by (auto simp: less_eq_prod_def)
    with o show ?thesis by simp
  qed
  then show ?thesis using reading_sound [of comb cleaned "pp_mask p"] comb per len by simp
qed

subsection \<open>The chosen reading\<close>

lemma candidate_sound:
  assumes "plate_candidate_of cleaned (i, p) = Some ((subs, pr, rank, j), out, q)"
  shows "q = p \<and> digit_evidence cleaned (pp_mask p) \<and> project cleaned p = Some (out, subs, rank)"
  using assms by (auto simp: plate_candidate_of_def split: if_splits option.splits)

lemma set_map_filter: "y \<in> set (List.map_filter f xs) \<longleftrightarrow> (\<exists>x \<in> set xs. f x = Some y)"
  by (induction xs) (auto simp: List.map_filter_simps split: option.splits)

lemma candidates_mem:
  "x \<in> set (plate_candidates cleaned region) \<longleftrightarrow>
     (\<exists>i < length (patterns_for_region region).
        plate_candidate_of cleaned (i, patterns_for_region region ! i) = Some x)"
  proof -
  let ?ps = "patterns_for_region region"
  have "(i, p) \<in> set (zip [0..<length ?ps] ?ps) \<longleftrightarrow> i < length ?ps \<and> p = ?ps ! i" for i p
    by (auto simp: in_set_zip intro!: exI [of _ i])
  then show ?thesis by (simp add: plate_candidates_def Let_def set_map_filter Bex_def split_paired_Ex)
qed

lemma normalise_cases:
  assumes "np_matched (normalise raw region)"
  obtains subs pr rank i out p where
    "((subs, pr, rank, i), out, p) \<in> set (plate_candidates (clean raw) region)"
    "\<forall>c \<in> set (plate_candidates (clean raw) region). (subs, pr, rank, i) \<le> fst c"
    "normalise raw region = \<lparr>np_raw = raw, np_normalised = out, np_matched = True,
       np_pattern_name = Some (pp_name p), np_state_hint = state_hint p,
       np_confidence_delta = confidence_delta p subs, np_cleaned = clean raw,
       np_substitutions = subs, np_plausible_states = pp_states p\<rparr>"
proof -
  have cs: "clean raw \<noteq> []" "plate_candidates (clean raw) region \<noteq> []"
    using assms by (auto simp: normalise_def unmatched_def Let_def split: if_splits)
  let ?cs = "plate_candidates (clean raw) region"
  obtain subs pr rank i out p where m: "arg_min_list fst ?cs = ((subs, pr, rank, i), out, p)"
    by (metis prod_cases3 prod.collapse)
  have "fst (arg_min_list fst ?cs) \<le> fst c" if "c \<in> set ?cs" for c
    using that cs(2) by (simp add: f_arg_min_list_f)
  then have least: "\<forall>c \<in> set ?cs. (subs, pr, rank, i) \<le> fst c" using m by simp
  have "((subs, pr, rank, i), out, p) \<in> set ?cs" using arg_min_list_in [OF cs(2), of fst] m by simp
  moreover note least
  moreover have "normalise raw region = \<lparr>np_raw = raw, np_normalised = out, np_matched = True,
       np_pattern_name = Some (pp_name p), np_state_hint = state_hint p,
       np_confidence_delta = confidence_delta p subs, np_cleaned = clean raw,
       np_substitutions = subs, np_plausible_states = pp_states p\<rparr>"
  proof -
    obtain c rest where list: "?cs = c # rest" using cs(2) by (cases ?cs) auto
    then have "arg_min_list fst (c # rest) = ((subs, pr, rank, i), out, p)" using m by simp
    then show ?thesis
      using cs(1) unfolding normalise_def Let_def list by (simp del: arg_min_list.simps)
  qed
  ultimately show thesis by (rule that)
qed

text \<open>C32: a correction is never invented. A matched reading is the text of a format of the region,
  every character fits its slot and is the cleaned character or one of the same printed shape,
  the format's digit slots were shown a real digit, the reported substitutions are the changed
  positions, and no other admissible text of any format that was considered needs fewer.\<close>

theorem matched_plate_optimal:
  assumes "np_matched (normalise raw region)" and "n = normalise raw region"
  shows "(\<exists>p \<in> set (patterns_for_region region). np_pattern_name n = Some (pp_name p) \<and>
      np_plausible_states n = pp_states p \<and> digit_evidence (clean raw) (pp_mask p) \<and>
      admissible (clean raw) (pp_mask p) (np_normalised n)) \<and>
    np_raw n = raw \<and> np_substitutions n = changes (clean raw) (np_normalised n) \<and>
    (\<forall>q \<in> set (patterns_for_region region). \<forall>t.
      admissible (clean raw) (pp_mask q) t \<and> digit_evidence (clean raw) (pp_mask q) \<and>
      project (clean raw) q \<noteq> None \<longrightarrow> np_substitutions n \<le> changes (clean raw) t)"
proof -
  let ?ps = "patterns_for_region region"
  obtain subs pr rank i out p where
    mem: "((subs, pr, rank, i), out, p) \<in> set (plate_candidates (clean raw) region)" and
    least: "\<forall>c \<in> set (plate_candidates (clean raw) region). (subs, pr, rank, i) \<le> fst c" and
    n: "normalise raw region = \<lparr>np_raw = raw, np_normalised = out, np_matched = True,
       np_pattern_name = Some (pp_name p), np_state_hint = state_hint p,
       np_confidence_delta = confidence_delta p subs, np_cleaned = clean raw,
       np_substitutions = subs, np_plausible_states = pp_states p\<rparr>"
    using normalise_cases [OF assms(1)] by metis
  obtain j where "j < length ?ps" "plate_candidate_of (clean raw) (j, ?ps ! j) = Some ((subs, pr, rank, i), out, p)"
    using mem by (auto simp: candidates_mem)
  with candidate_sound [OF this(2)] have p: "p \<in> set ?ps" "digit_evidence (clean raw) (pp_mask p)"
      "project (clean raw) p = Some (out, subs, rank)" by auto
  have "subs \<le> changes (clean raw) t"
    if q: "q \<in> set ?ps" "admissible (clean raw) (pp_mask q) t" "digit_evidence (clean raw) (pp_mask q)"
      "project (clean raw) q \<noteq> None" for q t
  proof -
    obtain k where k: "k < length ?ps" "q = ?ps ! k" using q(1) by (auto simp: in_set_conv_nth)
    obtain o2 s2 r2 where pr: "project (clean raw) q = Some (o2, s2, r2)" using q(4) by auto
    then have "plate_candidate_of (clean raw) (k, q) = Some ((s2, pp_priority q, r2, k), o2, q)"
      using q(3) by (auto simp: plate_candidate_of_def project_def split: if_splits)
    then have "((s2, pp_priority q, r2, k), o2, q) \<in> set (plate_candidates (clean raw) region)"
      using k by (auto simp: candidates_mem)
    with least have "subs \<le> s2" by (fastforce simp: less_eq_prod_def)
    also have "s2 \<le> changes (clean raw) t" using project_sound [OF pr] q(2) by blast
    finally show ?thesis .
  qed
  moreover have "\<exists>q \<in> set ?ps. np_pattern_name n = Some (pp_name q) \<and> np_plausible_states n = pp_states q \<and>
      digit_evidence (clean raw) (pp_mask q) \<and> admissible (clean raw) (pp_mask q) (np_normalised n)"
    using p project_sound [OF p(3)] by (intro bexI [OF _ p(1)]) (simp add: assms(2) n)
  moreover have "np_raw n = raw" "np_substitutions n = changes (clean raw) (np_normalised n)"
    using project_sound [OF p(3)] by (simp_all add: assms(2) n)
  ultimately show ?thesis by (simp add: assms(2) n)
qed

lemma sample_plate: "normalise ''abc-1o3'' (Some ''AU'') =
  \<lparr>np_raw = ''abc-1o3'', np_normalised = ''ABC103'', np_matched = True,
   np_pattern_name = Some ''AU:AAA000'', np_state_hint = None,
   np_confidence_delta = confidence_delta (AU_PATTERNS ! 8) 1, np_cleaned = ''ABC1O3'',
   np_substitutions = 1, np_plausible_states = [''NSW'', ''QLD'', ''SA'', ''TAS'', ''VIC'', ''WA'']\<rparr>"
  by code_simp

theorem matched_plate_optimal_witness:
  "\<exists>n. n = normalise ''abc-1o3'' (Some ''AU'') \<and> np_normalised n = ''ABC103'' \<and>
     np_substitutions n = changes (clean ''abc-1o3'') ''ABC103''"
proof -
  have "np_matched (normalise ''abc-1o3'' (Some ''AU''))" by (simp add: sample_plate)
  from matched_plate_optimal [OF this refl] show ?thesis by (simp add: sample_plate)
qed

subsection \<open>Normalising twice\<close>

lemma fit_option:
  assumes "fits slot x" shows "slot_options x slot = [(x, 0, 0)]"
  using assms by (auto simp: fits_def slot_options_def)

lemma project_fitting:
  assumes "list_all2 fits (pp_mask p) out" shows "project out p = Some (out, 0, 0)"
proof -
  have "collect_options 1 out m = Some (List.map (\<lambda>x. [(x, 0, 0)]) out)" if "list_all2 fits m out" for m
    using that by (induction m out rule: list_all2_induct) (simp_all add: fit_option MAX_CANDIDATES_def)
  moreover have "product_lists (List.map (\<lambda>x. [f x]) xs) = [List.map f xs]"
    for f :: "char \<Rightarrow> char \<times> nat \<times> nat" and xs
    by (induction xs) simp_all
  moreover have "length out = length (pp_mask p)" using assms by (simp add: list_all2_lengthD)
  ultimately show ?thesis
    using assms by (simp add: project_def reading_def better_def comp_def)
qed

lemma mask_chars: "p \<in> set (patterns_for_region region) \<Longrightarrow> c \<in> set (pp_mask p) \<Longrightarrow> c = DIGIT_SLOT \<or> is_alnum c"
proof -
  have "\<forall>p \<in> set AU_PATTERNS. \<forall>c \<in> set (pp_mask p). c = DIGIT_SLOT \<or> is_alnum c" by code_simp
  moreover have "p \<in> set (patterns_for_region region) \<Longrightarrow> pp_mask p \<in> pp_mask ` set AU_PATTERNS"
    by (auto simp: patterns_for_region_def Let_def split: option.splits if_splits)
  ultimately show "p \<in> set (patterns_for_region region) \<Longrightarrow> c \<in> set (pp_mask p) \<Longrightarrow> ?thesis" by fastforce
qed

lemma fits_alnum: "fits slot c \<Longrightarrow> slot = DIGIT_SLOT \<or> is_alnum slot \<Longrightarrow> is_alnum c"
  by (auto simp: fits_def is_alnum_def split: if_splits)

lemma upper_alnum: "is_alnum c \<Longrightarrow> upper_char c = c"
  by (auto simp: is_alnum_def is_digit_def is_upper_letter_def upper_char_def Let_def)

lemma clean_plate:
  assumes "\<forall>c \<in> set out. is_alnum c" "out \<noteq> []" shows "clean out = out"
proof -
  have "upper out = out" using assms(1) by (simp add: upper_def upper_alnum map_idI)
  moreover have "token_loop cur s = [cur @ s]" if "\<forall>c \<in> set s. is_alnum c" "cur @ s \<noteq> []" for cur s
    using that by (induction s arbitrary: cur) auto
  ultimately have "tokenise out = [out]" using assms by (simp add: tokenise_def)
  then show ?thesis by (simp add: clean_def)
qed

lemma zero_changes: "length a = length b \<Longrightarrow> changes a b = 0 \<Longrightarrow> a = b"
  by (induction a b rule: list_induct2) (auto simp: changes_def split: if_splits)

lemma evidence_fitting:
  assumes "digit_evidence cleaned m" "list_all2 fits m out" "length cleaned = length m"
  shows "digit_evidence out m"
proof -
  have "\<exists>(c, slot) \<in> set (zip out m). slot = DIGIT_SLOT \<and> is_digit c" if slot: "DIGIT_SLOT \<in> set m"
  proof -
    obtain i where i: "i < length m" "m ! i = DIGIT_SLOT" using slot by (auto simp: in_set_conv_nth)
    then have "is_digit (out ! i)"
      using assms(2) by (auto simp: list_all2_conv_all_nth fits_def LETTER_SLOT_def DIGIT_SLOT_def)
    then show ?thesis using i assms(2) by (force simp: in_set_zip list_all2_lengthD)
  qed
  then show ?thesis by (auto simp: digit_evidence_def)
qed

text \<open>Normalising is idempotent. The identity of a matched plate is itself read as that plate:
  normalising it again matches, with no substitution, and gives the same text, so a stored
  plate and a fresh reading of it can never drift apart.\<close>

theorem normalise_idempotent:
  assumes "np_matched (normalise raw region)"
  shows "np_matched (normalise (np_normalised (normalise raw region)) region) \<and>
    np_normalised (normalise (np_normalised (normalise raw region)) region) =
      np_normalised (normalise raw region) \<and>
    np_substitutions (normalise (np_normalised (normalise raw region)) region) = 0"
proof -
  let ?ps = "patterns_for_region region"
  obtain subs pr rank i out p where
    mem: "((subs, pr, rank, i), out, p) \<in> set (plate_candidates (clean raw) region)" and
    n: "np_normalised (normalise raw region) = out"
    by (rule normalise_cases [OF assms]) simp
  obtain j where j: "j < length ?ps" "plate_candidate_of (clean raw) (j, ?ps ! j) = Some ((subs, pr, rank, i), out, p)"
    using mem by (auto simp: candidates_mem)
  with candidate_sound [OF j(2)] have p: "p = ?ps ! j" "digit_evidence (clean raw) (pp_mask p)"
      "project (clean raw) p = Some (out, subs, rank)" by auto
  then have fit: "list_all2 fits (pp_mask p) out" and len: "length (clean raw) = length (pp_mask p)"
    using project_sound [OF p(3)] list_all2_lengthD [of fits "pp_mask p" out]
      list_all2_lengthD [of plausible "clean raw" out] by (simp_all add: admissible_def)
  have "clean raw \<noteq> []" using assms by (auto simp: normalise_def unmatched_def Let_def)
  with fit len have "out \<noteq> []" by auto
  moreover have "\<forall>c \<in> set out. is_alnum c"
    using fit mask_chars [of p region] p(1) j(1) fits_alnum
    by (auto simp: list_all2_conv_all_nth in_set_conv_nth) (metis nth_mem)
  ultimately have clean: "clean out = out" "out \<noteq> []" by (simp_all add: clean_plate)
  have "plate_candidate_of out (j, p) = Some ((0, pp_priority p, 0, j), out, p)"
    using project_fitting [OF fit] evidence_fitting [OF p(2) fit len] fit
    by (simp add: plate_candidate_of_def list_all2_lengthD)
  then have again: "((0, pp_priority p, 0, j), out, p) \<in> set (plate_candidates (clean out) region)"
    using j(1) p(1) by (auto simp: candidates_mem clean)
  then have matched: "np_matched (normalise out region)"
    using clean by (auto simp: normalise_def Let_def split: list.splits prod.splits)
  obtain subs' pr' rank' i' out' q where
    mem': "((subs', pr', rank', i'), out', q) \<in> set (plate_candidates (clean out) region)" and
    least: "\<forall>c \<in> set (plate_candidates (clean out) region). (subs', pr', rank', i') \<le> fst c" and
    n': "np_normalised (normalise out region) = out'" "np_substitutions (normalise out region) = subs'"
    by (rule normalise_cases [OF matched]) simp
  have zero: "subs' = 0" using least again by (fastforce simp: less_eq_prod_def)
  have "project out q = Some (out', subs', rank')"
    using mem' candidate_sound by (fastforce simp: candidates_mem clean)
  from project_sound [OF this] have "changes out out' = 0" "length out = length out'"
    using zero by (auto simp: admissible_def dest: list_all2_lengthD)
  then have "out' = out" using zero_changes by metis
  with matched n n' zero show ?thesis by simp
qed

theorem normalise_idempotent_witness:
  "np_normalised (normalise (np_normalised (normalise ''abc-1o3'' (Some ''AU''))) (Some ''AU'')) = ''ABC103''"
proof -
  have "np_matched (normalise ''abc-1o3'' (Some ''AU''))" by (simp add: sample_plate)
  from normalise_idempotent [OF this] show ?thesis by (simp add: sample_plate)
qed

subsection \<open>The distance is the cheapest edit script\<close>

inductive edit_script :: "string \<Rightarrow> string \<Rightarrow> real \<Rightarrow> bool" where
  start: "edit_script [] [] 0"
| delete: "edit_script a b c \<Longrightarrow> edit_script (a @ [x]) b (c + INDEL_COST)"
| insert: "edit_script a b c \<Longrightarrow> edit_script a (b @ [y]) (c + INDEL_COST)"
| substitute: "edit_script a b c \<Longrightarrow> edit_script (a @ [x]) (b @ [y]) (c + sub_cost x y)"

text \<open>The distance by recursion on the reversed texts: what an entry of the table stands for.\<close>

fun dist :: "string \<Rightarrow> string \<Rightarrow> real" where
  "dist [] b = real (length b)"
| "dist (x # a) [] = real (length a) + 1"
| "dist (x # a) (y # b) =
     min (min (dist a (y # b) + 1) (dist (x # a) b + 1)) (dist a b + sub_cost x y)"

lemma dist_Nil [simp]: "dist a [] = real (length a)"
  by (cases a) simp_all

fun prefixes :: "string \<Rightarrow> string \<Rightarrow> string list" where
  "prefixes p [] = [p]"
| "prefixes p (c # cs) = p # prefixes (c # p) cs"

lemma next_row_dist:
  "dist (ca # pa) p # next_row ca b (List.map (dist pa) (prefixes p b)) (dist (ca # pa) p) =
     List.map (dist (ca # pa)) (prefixes p b)"
proof (induction b arbitrary: p)
  case (Cons cb b)
  obtain rest where rest: "prefixes (cb # p) b = (cb # p) # rest" by (cases b) auto
  have "min (min (dist pa (cb # p) + INDEL_COST) (dist (ca # pa) p + INDEL_COST)) (dist pa p + sub_cost ca cb) =
      dist (ca # pa) (cb # p)"
    by (simp add: INDEL_COST_def)
  with Cons.IH [of "cb # p"] show ?case by (simp add: rest Let_def del: dist.simps)
qed simp

lemma rows_dist:
  "rows (length pa + 1) a b (List.map (dist pa) (prefixes [] b)) =
     List.map (dist (rev a @ pa)) (prefixes [] b)"
proof (induction a arbitrary: pa)
  case (Cons ca a)
  have "real (length pa + 1) * INDEL_COST = dist (ca # pa) []" by (simp add: INDEL_COST_def)
  then have "rows (length pa + 1) (ca # a) b (List.map (dist pa) (prefixes [] b)) =
      rows (length (ca # pa) + 1) a b (List.map (dist (ca # pa)) (prefixes [] b))"
    using next_row_dist [of ca pa "[]" b] by (simp del: dist.simps dist_Nil)
  with Cons.IH [of "ca # pa"] show ?case by simp
qed simp

lemma prefixes_nonempty [simp]: "prefixes p b \<noteq> []"
  by (cases b) simp_all

lemma last_prefixes: "last (prefixes p b) = rev b @ p"
  by (induction b arbitrary: p) simp_all

lemma first_row: "List.map (dist []) (prefixes p b) = List.map (\<lambda>j. real (j + length p)) [0..<length b + 1]"
proof (induction b arbitrary: p)
  case (Cons c b)
  have "List.map (\<lambda>j. real (j + length p)) [0..<length (c # b) + 1] =
      real (length p) # List.map (\<lambda>j. real (j + length (c # p))) [0..<length b + 1]"
    by (subst upt_conv_Cons) (simp_all add: map_Suc_upt [symmetric] comp_def del: upt_Suc)
  with Cons.IH [of "c # p"] show ?case by simp
qed simp

lemma levenshtein_dist: "weighted_levenshtein a b = dist (rev a) (rev b)"
proof -
  have "List.map (\<lambda>j. real j * INDEL_COST) [0..<length b + 1] = List.map (dist []) (prefixes [] b)"
    using first_row [of "[]" b] by (simp add: INDEL_COST_def)
  then show ?thesis
    using rows_dist [of "[]" a b]
    by (simp add: weighted_levenshtein_def last_map last_prefixes)
qed

lemma sub_cost_bounds: "0 \<le> sub_cost x y" "sub_cost x y = 0 \<longleftrightarrow> x = y"
  by (auto simp: sub_cost_def SUB_COST_def CONFUSION_SUB_COST_def)

lemma dist_delete: "dist (x # a) b \<le> dist a b + 1"
  by (cases b) simp_all

lemma dist_insert: "dist a (y # b) \<le> dist a b + 1"
  by (cases a) simp_all

lemma script_above: "edit_script a b c \<Longrightarrow> dist (rev a) (rev b) \<le> c"
proof (induction rule: edit_script.induct)
  case (delete a b c x)
  then show ?case using dist_delete [of x "rev a" "rev b"] by (simp add: INDEL_COST_def)
next
  case (insert a b c y)
  then show ?case using dist_insert [of "rev a" y "rev b"] by (simp add: INDEL_COST_def)
next
  case (substitute a b c x y)
  then show ?case by simp
qed simp

lemma script_inserts: "edit_script [] b (real (length b))"
proof (induction b rule: rev_induct)
  case (snoc y b)
  from insert [OF this, of y] show ?case by (simp add: INDEL_COST_def add.commute)
qed (simp add: start)

lemma script_deletes: "edit_script a [] (real (length a))"
proof (induction a rule: rev_induct)
  case (snoc x a)
  from delete [OF this, of x] show ?case by (simp add: INDEL_COST_def add.commute)
qed (simp add: start)

lemma script_exists: "edit_script (rev a) (rev b) (dist a b)"
proof (induction a b rule: dist.induct)
  case (1 b)
  then show ?case using script_inserts [of "rev b"] by simp
next
  case (2 x a)
  then show ?case using script_deletes [of "rev (x # a)"] by simp
next
  case (3 x a y b)
  have "edit_script (rev (x # a)) (rev (y # b)) (dist a (y # b) + 1)"
    "edit_script (rev (x # a)) (rev (y # b)) (dist (x # a) b + 1)"
    "edit_script (rev (x # a)) (rev (y # b)) (dist a b + sub_cost x y)"
    using delete [OF 3(1), of x] insert [OF 3(2), of y] substitute [OF 3(3), of x y]
    by (simp_all add: INDEL_COST_def)
  then show ?case unfolding dist.simps(3) min_def by presburger
qed

text \<open>C33: the two-row computation is the edit distance. Its result is the cost of some sequence of
  deletions, insertions and substitutions turning one text into the other, with one per edit and
  a half for characters of the same printed shape, and no such sequence is cheaper.\<close>

theorem levenshtein_cheapest:
  "edit_script a b (weighted_levenshtein a b) \<and>
   (\<forall>c. edit_script a b c \<longrightarrow> weighted_levenshtein a b \<le> c)"
  using script_exists [of "rev a" "rev b"] script_above by (simp add: levenshtein_dist)

text \<open>The hypothesis is met by a script, here one substitution.\<close>

theorem levenshtein_cheapest_witness:
  "weighted_levenshtein ''S1'' ''51'' \<le> 0.5"
proof -
  have "edit_script ''S1'' ''51'' (0 + sub_cost (CHR ''S'') (CHR ''5'') + sub_cost (CHR ''1'') (CHR ''1''))"
    using substitute [OF substitute [OF start, of "CHR ''S''" "CHR ''5''"], of "CHR ''1''" "CHR ''1''"] by simp
  then have "weighted_levenshtein ''S1'' ''51'' \<le>
      0 + sub_cost (CHR ''S'') (CHR ''5'') + sub_cost (CHR ''1'') (CHR ''1'')"
    using levenshtein_cheapest by blast
  moreover have "confusable (CHR ''S'') (CHR ''5'')" by code_simp
  ultimately show ?thesis by (simp add: sub_cost_def CONFUSION_SUB_COST_def)
qed

subsection \<open>Similarity\<close>

lemma dist_nonneg: "0 \<le> dist a b"
  by (induction a b rule: dist.induct) (simp_all add: sub_cost_bounds)

lemma dist_zero: "dist a b = 0 \<Longrightarrow> a = b"
proof (induction a b rule: dist.induct)
  case (3 x a y b)
  have "0 < dist a (y # b) + 1" "0 < dist (x # a) b + 1"
    using dist_nonneg [of a "y # b"] dist_nonneg [of "x # a" b] by linarith+
  with "3.prems" have "dist a b + sub_cost x y = 0" by (auto simp: min_def split: if_splits)
  with dist_nonneg [of a b] sub_cost_bounds(1) [of x y] have "dist a b = 0" "sub_cost x y = 0"
    by linarith+
  with 3 sub_cost_bounds(2) show ?case by simp
qed simp_all

lemma dist_sym: "dist a b = dist b a"
proof (induction a b rule: dist.induct)
  case (3 x a y b)
  have "sub_cost x y = sub_cost y x" by (auto simp: sub_cost_def confusable_def)
  with 3 show ?case by (simp add: min.commute min.left_commute)
qed simp_all

text \<open>Similarity is a score. It lies between 0 and 1, does not depend on the order of the two
  readings, and is 1 exactly when the readings are the same plate text once cleaned.\<close>

theorem plate_similarity_score:
  "0 \<le> plate_similarity a b \<and> plate_similarity a b \<le> 1 \<and>
   plate_similarity a b = plate_similarity b a \<and>
   (plate_similarity a b = 1 \<longleftrightarrow> clean a = clean b)"
proof -
  let ?d = "weighted_levenshtein (clean a) (clean b)"
  let ?m = "real (max (length (clean a)) (length (clean b)))"
  have pos: "0 < ?d / ?m" if "clean a \<noteq> []" "clean a \<noteq> clean b"
  proof (rule divide_pos_pos)
    show "0 < ?d"
      using that(2) dist_zero [of "rev (clean a)" "rev (clean b)"] dist_nonneg [of "rev (clean a)" "rev (clean b)"]
      by (auto simp: levenshtein_dist less_le)
    show "0 < ?m" using that(1) by (cases "clean a") auto
  qed
  moreover have "weighted_levenshtein (clean b) (clean a) = ?d"
    by (simp add: levenshtein_dist dist_sym)
  ultimately show ?thesis
    by (auto simp: plate_similarity_def Let_def max.commute)
qed

end
