(* ===== verification/Retry.thy ===== *)
theory Retry
  imports Prelude
begin

section \<open>Waiting out the database lock\<close>

text \<open>
  Models \<^verbatim>\<open>backend/app/db/retry.py\<close>: recognising SQLite's lock errors, the retry loop with its
  backoff, and its two forms, one that rolls a write phase back and runs it again and one that
  only repeats a commit. The session is its working copy over what is committed; which calls
  fail, and what other writers commit meanwhile, is an argument.
\<close>

subsection \<open>Lock errors\<close>

text \<open>An exception: its text, its \<^verbatim>\<open>__cause__\<close> and its \<^verbatim>\<open>__context__\<close>.\<close>

datatype exn = Exn (exn_text: string) (exn_cause: "exn option") (exn_context: "exn option")

definition LOCK_MARKERS :: "string list" where
  "LOCK_MARKERS = [''database is locked'', ''database table is locked'', ''database schema is locked'',
     ''cannot start a transaction within a transaction'', ''sqlite_busy'']"

fun locked_within :: "nat \<Rightarrow> exn option \<Rightarrow> bool" where
  "locked_within 0 e = False"
| "locked_within (Suc n) None = False"
| "locked_within (Suc n) (Some e) =
     ((\<exists>m \<in> set LOCK_MARKERS. contains m (lower (exn_text e))) \<or>
      locked_within n (case exn_cause e of Some c \<Rightarrow> Some c | None \<Rightarrow> exn_context e))"

definition is_locked_error :: "exn option \<Rightarrow> bool" where
  "is_locked_error e = locked_within 8 e"

subsection \<open>The loop\<close>

definition DEFAULT_ATTEMPTS :: int where "DEFAULT_ATTEMPTS = 4"
definition DEFAULT_BASE_DELAY :: real where "DEFAULT_BASE_DELAY = 1 / 2"

text \<open>What a call of the loop ends with; \<open>Unreachable\<close> is its closing \<^verbatim>\<open>AssertionError\<close>.\<close>

datatype 'a outcome = Returned 'a | Raised exn | Unreachable

text \<open>
  \<^verbatim>\<open>retry_on_locked\<close> from attempt \<open>k\<close> with \<open>n\<close> left: the outcome, the state, the number of calls
  of the operation and the seconds slept. \<open>jitter k\<close> is \<^verbatim>\<open>random.random()\<close> after attempt \<open>k\<close>.
\<close>

fun retry_from ::
  "('s \<Rightarrow> (exn + 'a) \<times> 's) \<Rightarrow> ('s \<Rightarrow> 's) \<Rightarrow> ('s \<Rightarrow> bool) \<Rightarrow> int \<Rightarrow> real \<Rightarrow> (nat \<Rightarrow> real) \<Rightarrow>
   nat \<Rightarrow> nat \<Rightarrow> 's \<Rightarrow> 'a outcome \<times> 's \<times> nat \<times> real" where
  "retry_from operation on_retry can_retry attempts base jitter k 0 s = (Unreachable, s, 0, 0)"
| "retry_from operation on_retry can_retry attempts base jitter k (Suc n) s =
     (case operation s of
        (Inr v, s') \<Rightarrow> (Returned v, s', 1, 0)
      | (Inl e, s') \<Rightarrow>
          if \<not> is_locked_error (Some e) \<or> int k \<ge> attempts \<or> \<not> can_retry s' then (Raised e, s', 1, 0)
          else
            (let delay = base * 2 ^ (k - 1) * (1 / 2 + jitter k);
                 (r, s2, calls, slept) =
                   retry_from operation on_retry can_retry attempts base jitter (Suc k) n (on_retry s')
             in (r, s2, Suc calls, delay + slept)))"

definition retry_on_locked ::
  "('s \<Rightarrow> (exn + 'a) \<times> 's) \<Rightarrow> ('s \<Rightarrow> 's) \<Rightarrow> ('s \<Rightarrow> bool) \<Rightarrow> int \<Rightarrow> real \<Rightarrow> (nat \<Rightarrow> real) \<Rightarrow>
   's \<Rightarrow> 'a outcome \<times> 's \<times> nat \<times> real" where
  "retry_on_locked operation on_retry can_retry attempts base jitter s =
     retry_from operation on_retry can_retry attempts base jitter 1 (nat (max 1 attempts)) s"

subsection \<open>Sessions\<close>

text \<open>
  After a failed statement a session refuses everything but a rollback (\<^verbatim>\<open>PendingRollbackError\<close>);
  \<^verbatim>\<open>is_active\<close> is the negation. \<open>ss_calls\<close> numbers the calls made, for the faults.
\<close>

record 'd session =
  ss_committed :: 'd
  ss_work :: 'd
  ss_failed :: bool
  ss_calls :: nat

record 'd faults =
  fl_write_error :: "nat \<Rightarrow> exn option"
  fl_half_done :: "nat \<Rightarrow> 'd \<Rightarrow> 'd"
  fl_commit_error :: "nat \<Rightarrow> (exn \<times> bool) option"
  fl_rollback_error :: "nat \<Rightarrow> bool"
  fl_others :: "nat \<Rightarrow> 'd \<Rightarrow> 'd"
  fl_pending_rollback :: exn

definition tick :: "'d session \<Rightarrow> 'd session" where
  "tick ss = ss\<lparr>ss_calls := Suc (ss_calls ss)\<rparr>"

text \<open>\<^verbatim>\<open>session.commit()\<close>: a failure leaves the session usable or not (\<open>True\<close>).\<close>

definition commit :: "'d faults \<Rightarrow> 'd session \<Rightarrow> (exn + unit) \<times> 'd session" where
  "commit fl ss =
     (if ss_failed ss then (Inl (fl_pending_rollback fl), tick ss)
      else case fl_commit_error fl (ss_calls ss) of
             Some (e, broken) \<Rightarrow> (Inl e, tick (ss\<lparr>ss_failed := broken\<rparr>))
           | None \<Rightarrow> (Inr (), tick (ss\<lparr>ss_committed := ss_work ss\<rparr>)))"

text \<open>The write phase, which may stop half way, and its commit.\<close>

definition write_and_commit :: "'d faults \<Rightarrow> ('d \<Rightarrow> 'd) \<Rightarrow> 'd session \<Rightarrow> (exn + unit) \<times> 'd session" where
  "write_and_commit fl f ss =
     (if ss_failed ss then (Inl (fl_pending_rollback fl), tick ss)
      else case fl_write_error fl (ss_calls ss) of
             Some e \<Rightarrow>
               (Inl e, tick (ss\<lparr>ss_work := fl_half_done fl (ss_calls ss) (ss_work ss), ss_failed := True\<rparr>))
           | None \<Rightarrow> commit fl (ss\<lparr>ss_work := f (ss_work ss)\<rparr>))"

text \<open>
  The rollback between attempts; its own failure is swallowed. The next transaction starts from
  what is committed by then.
\<close>

definition rollback :: "'d faults \<Rightarrow> 'd session \<Rightarrow> 'd session" where
  "rollback fl ss =
     (let now_committed = fl_others fl (ss_calls ss) (ss_committed ss) in
      if fl_rollback_error fl (ss_calls ss)
      then tick (ss\<lparr>ss_committed := now_committed, ss_failed := True\<rparr>)
      else tick (ss\<lparr>ss_committed := now_committed, ss_work := now_committed, ss_failed := False\<rparr>))"

definition write_with_retry ::
  "'d faults \<Rightarrow> ('d \<Rightarrow> 'd) \<Rightarrow> int \<Rightarrow> (nat \<Rightarrow> real) \<Rightarrow> 'd session \<Rightarrow>
   unit outcome \<times> 'd session \<times> nat \<times> real" where
  "write_with_retry fl f attempts jitter ss =
     retry_on_locked (write_and_commit fl f) (rollback fl) (\<lambda>_. True) attempts DEFAULT_BASE_DELAY jitter ss"

definition commit_with_retry ::
  "'d faults \<Rightarrow> (nat \<Rightarrow> real) \<Rightarrow> 'd session \<Rightarrow> unit outcome \<times> 'd session \<times> nat \<times> real" where
  "commit_with_retry fl jitter ss =
     retry_on_locked (commit fl) id (\<lambda>s. \<not> ss_failed s) DEFAULT_ATTEMPTS DEFAULT_BASE_DELAY jitter ss"

subsection \<open>The loop ends, with the operation's own answer\<close>

lemma retry_from_bounds:
  assumes "\<And>i. 0 \<le> jitter i \<and> jitter i < (1 :: real)" and "0 \<le> base" and "1 \<le> k" and "1 \<le> n"
    and "attempts \<le> int (k + n - 1)"
    and "retry_from operation on_retry can_retry attempts base jitter k n s = (r, s', calls, slept)"
  shows "r \<noteq> Unreachable \<and> 1 \<le> calls \<and> calls \<le> n \<and> 0 \<le> slept \<and>
    slept \<le> base * (3 / 2) * (2 ^ (k - 1) * (2 ^ (n - 1) - 1))"
  using assms(3-6)
proof (induction n arbitrary: k s r s' calls slept)
  case (Suc m)
  obtain x s1 where op: "operation s = (x, s1)" by (metis surj_pair)
  show ?case
  proof (cases "\<exists>e. x = Inl e \<and> is_locked_error (Some e) \<and> int k < attempts \<and> can_retry s1")
    case False
    then have "r \<noteq> Unreachable \<and> calls = 1 \<and> slept = 0"
      using Suc.prems(4) op by (auto split: sum.splits if_splits)
    with assms(2) show ?thesis by simp
  next
    case True
    define delay where "delay = base * 2 ^ (k - 1) * (1 / 2 + jitter k)"
    obtain r2 s2 c2 t2 where rest:
      "retry_from operation on_retry can_retry attempts base jitter (Suc k) m (on_retry s1) = (r2, s2, c2, t2)"
      by (metis prod_cases4)
    have now: "r = r2" "calls = Suc c2" "slept = delay + t2"
      using True Suc.prems(4) op rest by (auto simp: delay_def Let_def)
    have m: "1 \<le> m" using True Suc.prems(3) by auto
    have "1 \<le> Suc k" "attempts \<le> int (Suc k + m - 1)" using Suc.prems(3) by auto
    from Suc.IH [OF this(1) m this(2) rest] have ih: "r2 \<noteq> Unreachable" "c2 \<le> m" "0 \<le> t2"
      "t2 \<le> base * (3 / 2) * (2 ^ k * (2 ^ (m - 1) - 1))"
      by auto
    have j: "0 \<le> 1 / 2 + jitter k" "1 / 2 + jitter k \<le> 3 / 2" using assms(1) [of k] by auto
    have pos: "0 \<le> base * 2 ^ (k - 1)" using assms(2) by simp
    have d: "0 \<le> delay" "delay \<le> base * (3 / 2) * 2 ^ (k - 1)"
      using mult_nonneg_nonneg [OF pos j(1)] mult_left_mono [OF j(2) pos] by (simp_all add: delay_def)
    have p: "(2 :: real) ^ k = 2 * 2 ^ (k - 1)" "(2 :: real) ^ m = 2 * 2 ^ (m - 1)"
      using Suc.prems(1) m by (cases k; cases m; simp)+
    have "base * (3 / 2) * 2 ^ (k - 1) + base * (3 / 2) * (2 ^ k * (2 ^ (m - 1) - 1)) =
        base * (3 / 2) * (2 ^ (k - 1) * (2 ^ m - 1))"
      by (simp add: p algebra_simps)
    with now ih d show ?thesis by simp
  qed
qed simp

text \<open>Waiting for the lock always comes to an end. Whatever the operation does, the loop runs it
  at least once and at most \<^verbatim>\<open>attempts\<close> times, never reaches its assertion, and sleeps in
  total no longer than the doubling backoff with full jitter; with the defaults that is under
  five and a half seconds.\<close>

lemma retry_comes_to_an_end:
  assumes "\<And>i. 0 \<le> jitter i \<and> jitter i < (1 :: real)" and "0 \<le> base"
    and "retry_on_locked operation on_retry can_retry attempts base jitter s = (r, s', calls, slept)"
  shows "r \<noteq> Unreachable \<and> 1 \<le> calls \<and> int calls \<le> max 1 attempts \<and>
    slept \<le> base * (3 / 2) * (2 ^ nat (max 1 attempts - 1) - 1) \<and>
    (attempts = DEFAULT_ATTEMPTS \<longrightarrow> base = DEFAULT_BASE_DELAY \<longrightarrow> slept \<le> 21 / 4)"
proof -
  let ?n = "nat (max 1 attempts)"
  have n: "1 \<le> ?n" "attempts \<le> int (1 + ?n - 1)" "nat (max 1 attempts - 1) = ?n - 1" by auto
  from retry_from_bounds [OF assms(1,2) _ n(1,2) assms(3) [unfolded retry_on_locked_def]]
  have b: "r \<noteq> Unreachable" "1 \<le> calls" "calls \<le> ?n" "slept \<le> base * (3 / 2) * (2 ^ (?n - 1) - 1)"
    by auto
  have "slept \<le> 21 / 4" if "attempts = DEFAULT_ATTEMPTS" "base = DEFAULT_BASE_DELAY"
    using b(4) that by (simp add: DEFAULT_ATTEMPTS_def DEFAULT_BASE_DELAY_def eval_nat_numeral)
  moreover have "int calls \<le> max 1 attempts" using b(3) by linarith
  ultimately show ?thesis using b n(3) by auto
qed

lemma retry_comes_to_an_end_witness:
  "\<exists>slept. retry_on_locked (\<lambda>s :: nat. if s < 2 then (Inl (Exn ''database is locked'' None None), s + 1)
       else (Inr (), s)) id (\<lambda>_. True) DEFAULT_ATTEMPTS DEFAULT_BASE_DELAY (\<lambda>_. 1 / 2) 0 =
     (Returned (), 2, 3, slept) \<and> slept \<le> 21 / 4"
proof -
  let ?op = "\<lambda>s :: nat. if s < 2 then (Inl (Exn ''database is locked'' None None), s + 1) else (Inr (), s)"
  let ?r = "retry_on_locked ?op id (\<lambda>_. True) DEFAULT_ATTEMPTS DEFAULT_BASE_DELAY (\<lambda>_. 1 / 2) 0"
  have l: "is_locked_error (Some (Exn ''database is locked'' None None))" by code_simp
  have run: "?r = (Returned (), 2, 3, snd (snd (snd ?r)))"
    by (simp add: retry_on_locked_def DEFAULT_ATTEMPTS_def l eval_nat_numeral)
  have j: "\<And>i :: nat. 0 \<le> (1 / 2 :: real) \<and> (1 / 2 :: real) < 1" by simp
  have b: "0 \<le> DEFAULT_BASE_DELAY" by (simp add: DEFAULT_BASE_DELAY_def)
  from retry_comes_to_an_end [OF j b run] run show ?thesis by blast
qed

subsection \<open>What a retried operation does to the database\<close>

text \<open>
  The contract of an operation that may be retried: a call that may go ahead either finishes its
  work or leaves a state that what happens between calls makes ready again.
\<close>

locale retried =
  fixes operation :: "'s \<Rightarrow> (exn + 'a) \<times> 's"
    and on_retry :: "'s \<Rightarrow> 's"
    and ready :: "'s \<Rightarrow> bool"
    and stalled :: "'s \<Rightarrow> bool"
    and finished :: "'s \<Rightarrow> bool"
  assumes failing: "ready s \<Longrightarrow> operation s = (Inl e, s') \<Longrightarrow> stalled s'"
    and between: "stalled s \<Longrightarrow> ready (on_retry s)"
    and working: "ready s \<Longrightarrow> operation s = (Inr v, s') \<Longrightarrow> finished s'"
begin

lemma retry_from_result:
  "ready s \<Longrightarrow>
    retry_from operation on_retry can_retry attempts base jitter k n s = (r, s', calls, slept) \<Longrightarrow>
    r \<noteq> Unreachable \<Longrightarrow> (if \<exists>v. r = Returned v then finished s' else stalled s')"
proof (induction n arbitrary: k s r s' calls slept)
  case (Suc n)
  obtain x s1 where op: "operation s = (x, s1)" by (metis surj_pair)
  show ?case
  proof (cases x)
    case (Inl e)
    with failing Suc.prems(1) op have one: "stalled s1" by blast
    obtain r2 s2 c2 t2 where rest:
      "retry_from operation on_retry can_retry attempts base jitter (Suc k) n (on_retry s1) = (r2, s2, c2, t2)"
      by (metis prod_cases4)
    show ?thesis
    proof (cases "\<not> is_locked_error (Some e) \<or> int k \<ge> attempts \<or> \<not> can_retry s1")
      case True
      with Suc.prems(2) op Inl one show ?thesis by auto
    next
      case False
      with Suc.prems(2) op Inl rest have "r = r2" "s' = s2" by (auto simp: Let_def)
      with Suc.IH [OF between [OF one] rest] Suc.prems(3) show ?thesis by simp
    qed
  next
    case (Inr v)
    with working Suc.prems op show ?thesis by auto
  qed
qed simp

lemma retry_result:
  assumes "ready s"
    and "retry_on_locked operation on_retry can_retry attempts base jitter s = (r, s', calls, slept)"
    and "r \<noteq> Unreachable"
  shows "if \<exists>v. r = Returned v then finished s' else stalled s'"
  using assms(2) unfolding retry_on_locked_def by (rule retry_from_result [OF assms(1) _ assms(3)])

end

text \<open>
  The specification of a write: a serial history of the committed data, in which other writers
  take their turns and the write phase happens once or not at all.
\<close>

inductive serial :: "(nat \<Rightarrow> 'd \<Rightarrow> 'd) \<Rightarrow> ('d \<Rightarrow> 'd) \<Rightarrow> bool \<Rightarrow> 'd \<Rightarrow> 'd \<Rightarrow> bool"
  for others :: "nat \<Rightarrow> 'd \<Rightarrow> 'd" and f :: "'d \<Rightarrow> 'd" where
  unchanged: "serial others f False d d"
| other: "serial others f b d d' \<Longrightarrow> serial others f b d (others k d')"
| own: "serial others f False d d' \<Longrightarrow> serial others f True d (f d')"

text \<open>Before an attempt the session is clean or refuses to work.\<close>

definition writable :: "'d faults \<Rightarrow> ('d \<Rightarrow> 'd) \<Rightarrow> 'd \<Rightarrow> 'd session \<Rightarrow> bool" where
  "writable fl f d ss \<longleftrightarrow>
     serial (fl_others fl) f False d (ss_committed ss) \<and> (ss_failed ss \<or> ss_work ss = ss_committed ss)"

interpretation writing: retried "write_and_commit fl f" "rollback fl" "writable fl f d"
  "\<lambda>ss. serial (fl_others fl) f False d (ss_committed ss)"
  "\<lambda>ss. serial (fl_others fl) f True d (ss_committed ss)"
  for fl f d
proof
  fix s s' :: "'a session" and e
  assume "writable fl f d s" "write_and_commit fl f s = (Inl e, s')"
  then show "serial (fl_others fl) f False d (ss_committed s')"
    by (auto simp: writable_def write_and_commit_def commit_def tick_def split: if_splits option.splits)
next
  fix s :: "'a session"
  assume "serial (fl_others fl) f False d (ss_committed s)"
  then show "writable fl f d (rollback fl s)"
    by (auto simp: writable_def rollback_def tick_def Let_def intro: serial.other)
next
  fix s s' :: "'a session" and v
  assume "writable fl f d s" "write_and_commit fl f s = (Inr v, s')"
  then show "serial (fl_others fl) f True d (ss_committed s')"
    by (auto simp: writable_def write_and_commit_def commit_def tick_def split: if_splits option.splits
        intro: serial.own)
qed

interpretation committing: retried "commit fl" id "\<lambda>ss. ss_committed ss = d \<and> ss_work ss = w"
  "\<lambda>ss. ss_committed ss = d \<and> ss_work ss = w" "\<lambda>ss. ss_committed ss = w"
  for fl d w
  by unfold_locales (auto simp: commit_def tick_def split: if_splits option.splits)

lemma retry_from_reaches:
  assumes "1 \<le> n" and "attempts \<le> int (k + n - 1)"
    and "retry_from operation on_retry can_retry attempts base jitter k n s = (r, s', calls, slept)"
  shows "r \<noteq> Unreachable"
  using assms
proof (induction n arbitrary: k s s' calls slept)
  case (Suc m)
  obtain x s1 where op: "operation s = (x, s1)" by (metis surj_pair)
  show ?case
  proof (cases "\<exists>e. x = Inl e \<and> is_locked_error (Some e) \<and> int k < attempts \<and> can_retry s1")
    case False
    then show ?thesis using Suc.prems(3) op by (auto split: sum.splits if_splits)
  next
    case True
    obtain r2 s2 c2 t2 where rest:
      "retry_from operation on_retry can_retry attempts base jitter (Suc k) m (on_retry s1) = (r2, s2, c2, t2)"
      by (metis prod_cases4)
    have "r = r2" using True Suc.prems(3) op rest by (auto simp: Let_def)
    moreover have "1 \<le> m" "attempts \<le> int (Suc k + m - 1)" using True Suc.prems(2) by auto
    ultimately show ?thesis using Suc.IH rest by blast
  qed
qed simp

lemma retry_reaches_result:
  "retry_on_locked operation on_retry can_retry attempts base jitter s = (r, s', calls, slept) \<Longrightarrow>
    r \<noteq> Unreachable"
  unfolding retry_on_locked_def by (rule retry_from_reaches [rotated 2]) auto

text \<open>C38: a retried write phase refines one atomic write. However often it is interrupted half way, its commit
  refused and rolled back, whatever other writers commit in between and even if a rollback
  itself fails, the committed data evolves as in a serial history in which the phase happened exactly
  once if success is reported and not at all otherwise.\<close>

lemma write_with_retry_serial:
  assumes "\<not> ss_failed ss" and "ss_work ss = ss_committed ss"
    and "write_with_retry fl f attempts jitter ss = (r, ss', calls, slept)"
  shows "serial (fl_others fl) f (r = Returned ()) (ss_committed ss) (ss_committed ss')"
proof -
  have "writable fl f (ss_committed ss) ss" using assms(2) by (simp add: writable_def serial.unchanged)
  from writing.retry_result [OF this assms(3) [unfolded write_with_retry_def]
      retry_reaches_result [OF assms(3) [unfolded write_with_retry_def]]]
  show ?thesis by (cases r) auto
qed

text \<open>A repeated commit never reports success without the work: on success exactly the pending
  work is committed, and otherwise nothing is and the work is still pending.\<close>

lemma commit_with_retry_keeps_work:
  "case commit_with_retry fl jitter ss of
     (Returned _, ss', _) \<Rightarrow> ss_committed ss' = ss_work ss
   | (_, ss', _) \<Rightarrow> ss_committed ss' = ss_committed ss \<and> ss_work ss' = ss_work ss"
proof -
  obtain r ss' c t where run: "commit_with_retry fl jitter ss = (r, ss', c, t)" by (metis prod_cases4)
  note u = run [unfolded commit_with_retry_def]
  from committing.retry_result [OF _ u retry_reaches_result [OF u], of "ss_committed ss" "ss_work ss"] run
  show ?thesis by (cases r) (auto split: outcome.splits)
qed

text \<open>The commit is refused once and another writer gets in between; the phase still happens once.\<close>

definition sample_faults :: "nat list faults" where
  "sample_faults =
     \<lparr>fl_write_error = (\<lambda>_. None), fl_half_done = (\<lambda>_. id),
      fl_commit_error = (\<lambda>k. if k = 0 then Some (Exn ''database is locked'' None None, True) else None),
      fl_rollback_error = (\<lambda>_. False), fl_others = (\<lambda>k d. k # d),
      fl_pending_rollback = Exn ''rolled back'' None None\<rparr>"

definition sample_session :: "nat list session" where
  "sample_session = \<lparr>ss_committed = [9], ss_work = [9], ss_failed = False, ss_calls = 0\<rparr>"

lemma write_with_retry_serial_witness:
  "serial (fl_others sample_faults) ((#) 100) True [9] [100, 1, 9]"
proof -
  let ?r = "write_with_retry sample_faults ((#) 100) 4 (\<lambda>_. 0) sample_session"
  have l: "is_locked_error (Some (Exn ''database is locked'' None None))" by code_simp
  have run: "?r = (Returned (), \<lparr>ss_committed = [100, 1, 9], ss_work = [100, 1, 9], ss_failed = False,
      ss_calls = 3\<rparr>, snd (snd ?r))"
    by (simp add: write_with_retry_def retry_on_locked_def l eval_nat_numeral write_and_commit_def
        commit_def rollback_def tick_def sample_faults_def sample_session_def Let_def)
  obtain c t where ct: "snd (snd ?r) = (c, t)" by (metis surj_pair)
  have clean: "\<not> ss_failed sample_session" "ss_work sample_session = ss_committed sample_session"
    by (simp_all add: sample_session_def)
  from write_with_retry_serial [OF clean run [unfolded ct]] show ?thesis
    by (simp add: sample_session_def)
qed

end
