(* ===== verification/Tracker.thy ===== *)
theory Tracker
  imports Prelude
begin

section \<open>Following objects across sampled frames\<close>

text \<open>
  Models \<^verbatim>\<open>backend/app/ai/tracker.py\<close> and the detections it consumes
  (\<^verbatim>\<open>Detection2D\<close> of \<^verbatim>\<open>ai/detector.py\<close>): overlap scores, the greedy assignment, the
  constant-velocity filter, sharpness and crops, and the tracker with its two association
  passes. Pixels are the first channel of a frame as rows of reals; the filter's covariance is
  always a multiple of the identity and is kept as that multiple.
\<close>

type_synonym box = "real \<times> real \<times> real \<times> real"
type_synonym image = "real list list"

definition HIGH_CONFIDENCE :: real where "HIGH_CONFIDENCE = 1 / 2"
definition MATCH_IOU_HIGH :: real where "MATCH_IOU_HIGH = 1 / 4"
definition MATCH_IOU_LOW :: real where "MATCH_IOU_LOW = 15 / 100"
definition DEFAULT_TRACK_BUFFER :: nat where "DEFAULT_TRACK_BUFFER = 8"

subsection \<open>Overlap\<close>

definition box_area :: "box \<Rightarrow> real" where
  "box_area b = (case b of (x1, y1, x2, y2) \<Rightarrow> max 0 (x2 - x1) * max 0 (y2 - y1))"

definition iou :: "box \<Rightarrow> box \<Rightarrow> real" where
  "iou a b =
     (case (a, b) of ((ax1, ay1, ax2, ay2), (bx1, by1, bx2, by2)) \<Rightarrow>
        let w = max 0 (min ax2 bx2 - max ax1 bx1);
            h = max 0 (min ay2 by2 - max ay1 by1);
            inter = w * h;
            union = box_area a + box_area b - inter
        in if union > 0 then inter / union else 0)"

definition iou_matrix :: "box list \<Rightarrow> box list \<Rightarrow> real list list" where
  "iou_matrix as bs = List.map (\<lambda>a. List.map (iou a) bs) as"

subsection \<open>The greedy assignment\<close>

text \<open>A matrix of scores has as many columns as its first row; \<^verbatim>\<open>argmax\<close> is the first maximum
  in row-major order.\<close>

definition columns :: "real list list \<Rightarrow> nat" where
  "columns work = (case work of [] \<Rightarrow> 0 | r # _ \<Rightarrow> length r)"

definition cells :: "real list list \<Rightarrow> (nat \<times> nat) list" where
  "cells work = concat (List.map (\<lambda>i. List.map (Pair i) [0..<columns work]) [0..<length work])"

definition score_at :: "real list list \<Rightarrow> nat \<times> nat \<Rightarrow> real" where
  "score_at work ij = work ! fst ij ! snd ij"

fun first_max :: "('c \<Rightarrow> real) \<Rightarrow> 'c \<Rightarrow> 'c list \<Rightarrow> 'c" where
  "first_max f best [] = best"
| "first_max f best (c # cs) = first_max f (if f c > f best then c else best) cs"

definition argmax :: "real list list \<Rightarrow> nat \<times> nat" where
  "argmax work = first_max (score_at work) (hd (cells work)) (tl (cells work))"

definition strike :: "nat \<times> nat \<Rightarrow> real list list \<Rightarrow> real list list" where
  "strike ij work =
     List.map (\<lambda>i. List.map (\<lambda>j. if i = fst ij \<or> j = snd ij then - 1 else score_at work (i, j))
       [0..<columns work]) [0..<length work]"

partial_function (option) greedy_loop ::
  "real \<Rightarrow> real list list \<Rightarrow> (nat \<times> nat) list \<Rightarrow> (nat \<times> nat) list option" where
  "greedy_loop threshold work pairs =
     (if score_at work (argmax work) < threshold then Some pairs
      else if \<forall>c \<in> set (cells (strike (argmax work) work)).
                score_at (strike (argmax work) work) c < threshold
           then Some (pairs @ [argmax work])
      else greedy_loop threshold (strike (argmax work) work) (pairs @ [argmax work]))"

definition greedy_match :: "real list list \<Rightarrow> real \<Rightarrow> (nat \<times> nat) list option" where
  "greedy_match scores threshold =
     (if cells scores = [] then Some [] else greedy_loop threshold scores [])"

subsection \<open>The constant-velocity filter\<close>

record kalman =
  ka_cx :: real
  ka_cy :: real
  ka_area :: real
  ka_aspect :: real
  ka_vx :: real
  ka_vy :: real
  ka_varea :: real
  ka_covariance :: real

definition to_cxcywh :: "box \<Rightarrow> real \<times> real \<times> real \<times> real" where
  "to_cxcywh b =
     (case b of (x1, y1, x2, y2) \<Rightarrow>
        ((x1 + x2) / 2, (y1 + y2) / 2, max (x2 - x1) (1 / 1000000), max (y2 - y1) (1 / 1000000)))"

definition kalman_init :: "box \<Rightarrow> kalman" where
  "kalman_init b =
     (case to_cxcywh b of (cx, cy, w, h) \<Rightarrow>
        \<lparr>ka_cx = cx, ka_cy = cy, ka_area = w * h, ka_aspect = w / max h (1 / 1000000),
         ka_vx = 0, ka_vy = 0, ka_varea = 0, ka_covariance = 10\<rparr>)"

definition kalman_predict :: "kalman \<Rightarrow> kalman" where
  "kalman_predict k =
     k\<lparr>ka_cx := ka_cx k + ka_vx k, ka_cy := ka_cy k + ka_vy k,
       ka_area := max (1 / 1000000) (ka_area k + ka_varea k), ka_covariance := ka_covariance k + 1\<rparr>"

definition kalman_update :: "box \<Rightarrow> kalman \<Rightarrow> kalman" where
  "kalman_update b k =
     (case to_cxcywh b of (cx, cy, w, h) \<Rightarrow>
        let gain = 6 / 10; area = w * h; aspect = w / max h (1 / 1000000)
        in \<lparr>ka_cx = ka_cx k + (cx - ka_cx k) * gain, ka_cy = ka_cy k + (cy - ka_cy k) * gain,
            ka_area = ka_area k + (area - ka_area k) * gain,
            ka_aspect = ka_aspect k + (aspect - ka_aspect k) * gain,
            ka_vx = (cx - ka_cx k) * gain, ka_vy = (cy - ka_cy k) * gain,
            ka_varea = (area - ka_area k) * gain, ka_covariance = ka_covariance k * (7 / 10)\<rparr>)"

definition kalman_box :: "kalman \<Rightarrow> box" where
  "kalman_box k =
     (let w = sqrt (max (ka_area k * ka_aspect k) (1 / 1000000000));
          h = ka_area k / max w (1 / 1000000000)
      in (ka_cx k - w / 2, ka_cy k - h / 2, ka_cx k + w / 2, ka_cy k + h / 2))"

subsection \<open>Detections, sharpness and crops\<close>

record detection =
  de_label :: string
  de_confidence :: real
  de_x :: real
  de_y :: real
  de_w :: real
  de_h :: real

definition to_pixels :: "int \<Rightarrow> int \<Rightarrow> detection \<Rightarrow> int \<times> int \<times> int \<times> int" where
  "to_pixels width height d =
     (max 0 (trunc_real (de_x d * of_int width)), max 0 (trunc_real (de_y d * of_int height)),
      min width (trunc_real ((de_x d + de_w d) * of_int width)),
      min height (trunc_real ((de_y d + de_h d) * of_int height)))"

definition crop :: "image option \<Rightarrow> detection \<Rightarrow> image option" where
  "crop frame d =
     (case frame of
        None \<Rightarrow> None
      | Some f \<Rightarrow>
          (case to_pixels (int (columns f)) (int (length f)) d of (x1, y1, x2, y2) \<Rightarrow>
             if x2 \<le> x1 \<or> y2 \<le> y1 then None
             else Some (List.map (\<lambda>row. take (nat (x2 - x1)) (drop (nat x1) row))
                         (take (nat (y2 - y1)) (drop (nat y1) f)))))"

definition mean :: "real list \<Rightarrow> real" where
  "mean xs = sum_list xs / real (length xs)"

definition variance :: "real list \<Rightarrow> real" where
  "variance xs = mean (List.map (\<lambda>x. (x - mean xs)\<^sup>2) xs)"

text \<open>The variance of the Laplacian over the inner pixels.\<close>

definition sharpness :: "image \<Rightarrow> real" where
  "sharpness g =
     (if length g < 3 \<or> columns g < 3 then 0
      else variance
        (concat (List.map (\<lambda>i. List.map (\<lambda>j.
             - 4 * g ! i ! j + g ! (i - 1) ! j + g ! (i + 1) ! j + g ! i ! (j - 1) + g ! i ! (j + 1))
           [1..<columns g - 1]) [1..<length g - 1])))"

subsection \<open>Tracks\<close>

type_synonym sample = "real \<times> real \<times> box"

record track =
  tk_key :: nat
  tk_label :: string
  tk_first_offset :: real
  tk_last_offset :: real
  tk_frame_count :: nat
  tk_confidence_max :: real
  tk_confidence_sum :: real
  tk_box :: box
  tk_best_offset :: "real option"
  tk_best_score :: real
  tk_best_box :: "box option"
  tk_best_crop :: "image option"
  tk_samples :: "sample list"
  tk_kalman :: "kalman option"
  tk_misses :: nat

definition confidence_avg :: "track \<Rightarrow> real" where
  "confidence_avg t = tk_confidence_sum t / real (max 1 (tk_frame_count t))"

definition duration_of :: "track \<Rightarrow> real" where
  "duration_of t = max 0 (tk_last_offset t - tk_first_offset t)"

definition consider_best :: "real \<Rightarrow> box \<Rightarrow> real \<Rightarrow> image option \<Rightarrow> track \<Rightarrow> track" where
  "consider_best offset b confidence picture t =
     (let score = box_area b * confidence *
                  (case picture of Some c \<Rightarrow> 1 + sharpness c / 1000 | None \<Rightarrow> 1)
      in if score > tk_best_score t
         then t\<lparr>tk_best_score := score, tk_best_offset := Some offset, tk_best_box := Some b,
                tk_best_crop := picture\<rparr>
         else t)"

definition corner_box :: "detection \<Rightarrow> box" where
  "corner_box d = (de_x d, de_y d, de_x d + de_w d, de_y d + de_h d)"

definition sample_of :: "real \<Rightarrow> detection \<Rightarrow> sample" where
  "sample_of offset d = (offset, de_confidence d, de_x d, de_y d, de_w d, de_h d)"

definition absorb :: "real \<Rightarrow> image option \<Rightarrow> detection \<Rightarrow> track \<Rightarrow> track" where
  "absorb offset frame d t =
     consider_best offset (corner_box d) (de_confidence d) (crop frame d)
       (t\<lparr>tk_last_offset := offset, tk_frame_count := tk_frame_count t + 1,
          tk_confidence_sum := tk_confidence_sum t + de_confidence d,
          tk_confidence_max := max (tk_confidence_max t) (de_confidence d), tk_misses := 0,
          tk_box := corner_box d,
          tk_kalman := map_option (kalman_update (corner_box d)) (tk_kalman t),
          tk_samples := tk_samples t @ [sample_of offset d]\<rparr>)"

definition new_track :: "nat \<Rightarrow> real \<Rightarrow> image option \<Rightarrow> detection \<Rightarrow> track" where
  "new_track key offset frame d =
     consider_best offset (corner_box d) (de_confidence d) (crop frame d)
       \<lparr>tk_key = key, tk_label = de_label d, tk_first_offset = offset, tk_last_offset = offset,
        tk_frame_count = 1, tk_confidence_max = de_confidence d, tk_confidence_sum = de_confidence d,
        tk_box = corner_box d, tk_best_offset = None, tk_best_score = - 1, tk_best_box = None,
        tk_best_crop = None, tk_samples = [sample_of offset d],
        tk_kalman = Some (kalman_init (corner_box d)), tk_misses = 0\<rparr>"

definition predict :: "track \<Rightarrow> track" where
  "predict t =
     (case tk_kalman t of
        None \<Rightarrow> t
      | Some k \<Rightarrow> (let k' = kalman_predict k in t\<lparr>tk_kalman := Some k', tk_box := kalman_box k'\<rparr>))"

subsection \<open>The tracker\<close>

record tracker =
  bt_active :: "track list"
  bt_finished :: "track list"
  bt_next_key :: nat
  bt_buffer :: nat

definition new_tracker :: "nat \<Rightarrow> tracker" where
  "new_tracker buffer = \<lparr>bt_active = [], bt_finished = [], bt_next_key = 1, bt_buffer = buffer\<rparr>"

definition start_track :: "real \<Rightarrow> image option \<Rightarrow> detection \<Rightarrow> tracker \<Rightarrow> tracker" where
  "start_track offset frame d bt =
     bt\<lparr>bt_active := bt_active bt @ [new_track (bt_next_key bt) offset frame d],
        bt_next_key := bt_next_key bt + 1\<rparr>"

text \<open>Scores of the candidates against the detections; a class mismatch is never a match.\<close>

definition association_scores :: "track list \<Rightarrow> nat list \<Rightarrow> detection list \<Rightarrow> real list list" where
  "association_scores active candidates ds =
     List.map (\<lambda>i. List.map (\<lambda>d. if tk_label (active ! i) \<noteq> de_label d then - 1
         else iou (tk_box (active ! i)) (corner_box d)) ds) candidates"

definition absorb_pair ::
  "nat list \<Rightarrow> detection list \<Rightarrow> real \<Rightarrow> image option \<Rightarrow> nat \<times> nat \<Rightarrow> track list \<Rightarrow> track list" where
  "absorb_pair candidates ds offset frame rc active =
     (let i = candidates ! fst rc
      in active[i := absorb offset frame (ds ! snd rc) (active ! i)])"

definition associate ::
  "bool \<Rightarrow> detection list \<Rightarrow> nat list \<Rightarrow> real \<Rightarrow> real \<Rightarrow> image option \<Rightarrow> tracker \<Rightarrow>
   (nat list \<times> tracker) option" where
  "associate allow_new ds candidates threshold offset frame bt =
     (if ds = [] then Some (candidates, bt)
      else case greedy_match (association_scores (bt_active bt) candidates ds) threshold of
             None \<Rightarrow> None
           | Some pairs \<Rightarrow>
               (let bt1 = bt\<lparr>bt_active :=
                      fold (absorb_pair candidates ds offset frame) pairs (bt_active bt)\<rparr>;
                    fresh = List.map ((!) ds)
                      (filter (\<lambda>c. c \<notin> snd ` set pairs) [0..<length ds]);
                    bt2 = (if allow_new then fold (start_track offset frame) fresh bt1 else bt1)
                in Some (sort (filter (\<lambda>i. i \<notin> (\<lambda>rc. candidates ! fst rc) ` set pairs) (remdups candidates)),
                         bt2)))"

definition miss :: "nat list \<Rightarrow> track list \<Rightarrow> track list" where
  "miss unmatched active =
     fold (\<lambda>i ts. ts[i := (ts ! i)\<lparr>tk_misses := tk_misses (ts ! i) + 1\<rparr>]) unmatched active"

definition tracker_update :: "detection list \<Rightarrow> real \<Rightarrow> image option \<Rightarrow> tracker \<Rightarrow> tracker option" where
  "tracker_update ds offset frame bt =
     (let bt0 = bt\<lparr>bt_active := List.map predict (bt_active bt)\<rparr>;
          high = filter (\<lambda>d. de_confidence d \<ge> HIGH_CONFIDENCE) ds;
          low = filter (\<lambda>d. de_confidence d < HIGH_CONFIDENCE) ds
      in case associate True high [0..<length (bt_active bt0)] MATCH_IOU_HIGH offset frame bt0 of
           None \<Rightarrow> None
         | Some (unmatched1, bt1) \<Rightarrow>
             (case associate False low unmatched1 MATCH_IOU_LOW offset frame bt1 of
                None \<Rightarrow> None
              | Some (unmatched2, bt2) \<Rightarrow>
                  (let active = miss unmatched2 (bt_active bt2)
                   in Some (bt2\<lparr>
                        bt_finished := bt_finished bt2 @ filter (\<lambda>t. tk_misses t > bt_buffer bt2) active,
                        bt_active := filter (\<lambda>t. \<not> tk_misses t > bt_buffer bt2) active\<rparr>))))"

definition finish :: "nat \<Rightarrow> tracker \<Rightarrow> track list \<times> tracker" where
  "finish min_frames bt =
     (filter (\<lambda>t. tk_frame_count t \<ge> min_frames) (bt_finished bt @ bt_active bt),
      bt\<lparr>bt_finished := [], bt_active := []\<rparr>)"

end
