(* ===== verification/TrackerProps.thy ===== *)
theory TrackerProps
  imports Tracker
begin

section \<open>What the tracker guarantees\<close>

text \<open>
  The greedy assignment ends and is stable; every update accounts for the detections it is given:
  none is counted twice, none of high confidence is lost, none ends in a track of another
  class, and only a confident detection starts a track. The accounting is an invariant of the
  tracker as a machine over frames.
\<close>

subsection \<open>The greedy assignment is stable\<close>

lemma first_max_mem: "first_max f b cs \<in> insert b (set cs)"
  by (induction f b cs rule: first_max.induct) auto

lemma first_max_ge: "x \<in> insert b (set cs) \<Longrightarrow> f x \<le> f (first_max f b cs)"
proof (induction f b cs arbitrary: x rule: first_max.induct)
  case (2 f b c cs)
  let ?m = "if f c > f b then c else b"
  have "f b \<le> f ?m" "f c \<le> f ?m" by auto
  moreover have "f ?m \<le> f (first_max f ?m cs)" by (rule 2(1)) simp
  ultimately have "f b \<le> f (first_max f ?m cs)" "f c \<le> f (first_max f ?m cs)"
    by (blast intro: order_trans)+
  moreover have "f x \<le> f (first_max f ?m cs)" if "x \<in> set cs" using that by (intro 2(1)) simp
  ultimately show ?case using 2(2) by auto
qed simp

lemma set_cells: "set (cells w) = {(i, j). i < length w \<and> j < columns w}"
  by (auto simp: cells_def)

lemma argmax:
  assumes "cells w \<noteq> []"
  shows "argmax w \<in> set (cells w)" and "c \<in> set (cells w) \<Longrightarrow> score_at w c \<le> score_at w (argmax w)"
proof -
  have s: "insert (hd (cells w)) (set (tl (cells w))) = set (cells w)"
    using assms by (cases "cells w") auto
  show "argmax w \<in> set (cells w)"
    using first_max_mem [of "score_at w" "hd (cells w)" "tl (cells w)"] s by (simp add: argmax_def)
  show "c \<in> set (cells w) \<Longrightarrow> score_at w c \<le> score_at w (argmax w)"
    using first_max_ge [of c "hd (cells w)" "tl (cells w)" "score_at w"] s by (simp add: argmax_def)
qed

lemma strike_shape [simp]:
  "length (strike ij w) = length w" "columns (strike ij w) = columns w"
proof -
  show "length (strike ij w) = length w" by (simp add: strike_def)
  have hd: "columns v = length (hd v)" if "v \<noteq> []" for v
    using that by (cases v) (simp_all add: columns_def)
  show "columns (strike ij w) = columns w"
  proof (cases "w = []")
    case False
    then have "strike ij w \<noteq> []" "length (hd (strike ij w)) = columns w"
      by (simp_all add: strike_def hd_map)
    with hd show ?thesis by simp
  qed (simp add: strike_def columns_def)
qed

lemma cells_strike [simp]: "cells (strike ij w) = cells w"
  by (simp add: cells_def)

lemma score_strike:
  "c \<in> set (cells w) \<Longrightarrow>
    score_at (strike ij w) c = (if fst c = fst ij \<or> snd c = snd ij then - 1 else score_at w c)"
  by (auto simp: set_cells strike_def score_at_def)

text \<open>
  What an assignment promises: rows and columns are used once, by scores of at least the
  threshold, best first, and no pair left out beats both of the pairs its two sides got.
\<close>

definition blocked_by :: "real list list \<Rightarrow> (nat \<times> nat) list \<Rightarrow> nat \<times> nat \<Rightarrow> bool" where
  "blocked_by S Q c \<longleftrightarrow>
     (\<exists>p \<in> set Q. (fst p = fst c \<or> snd p = snd c) \<and> score_at S c \<le> score_at S p)"

definition partial_match :: "real list list \<Rightarrow> real \<Rightarrow> (nat \<times> nat) list \<Rightarrow> bool" where
  "partial_match S threshold Q \<longleftrightarrow>
     distinct (List.map fst Q) \<and> distinct (List.map snd Q) \<and>
     (\<forall>p \<in> set Q. p \<in> set (cells S) \<and> threshold \<le> score_at S p) \<and>
     sorted_wrt (\<lambda>p q. score_at S q \<le> score_at S p) Q"

definition stable_match :: "real list list \<Rightarrow> real \<Rightarrow> (nat \<times> nat) list \<Rightarrow> bool" where
  "stable_match S threshold Q \<longleftrightarrow>
     partial_match S threshold Q \<and>
     (\<forall>c \<in> set (cells S). threshold \<le> score_at S c \<longrightarrow> blocked_by S Q c)"

definition struck :: "(nat \<times> nat) list \<Rightarrow> nat \<times> nat \<Rightarrow> bool" where
  "struck Q c \<longleftrightarrow> fst c \<in> fst ` set Q \<or> snd c \<in> snd ` set Q"

text \<open>The state of the loop after it has taken \<open>Q\<close>.\<close>

definition loop_inv :: "real list list \<Rightarrow> real \<Rightarrow> real list list \<Rightarrow> (nat \<times> nat) list \<Rightarrow> bool" where
  "loop_inv S threshold w Q \<longleftrightarrow>
     cells w = cells S \<and>
     (\<forall>c \<in> set (cells S). score_at w c = (if struck Q c then - 1 else score_at S c)) \<and>
     partial_match S threshold Q \<and>
     (\<forall>c \<in> set (cells S). struck Q c \<longrightarrow> threshold \<le> score_at S c \<longrightarrow> blocked_by S Q c) \<and>
     (\<forall>c \<in> set (cells S). \<not> struck Q c \<longrightarrow> (\<forall>p \<in> set Q. score_at S c \<le> score_at S p))"

lemma loop_inv_exhausted:
  assumes "loop_inv S threshold w Q" and "\<forall>c \<in> set (cells w). score_at w c < threshold"
  shows "stable_match S threshold Q"
  unfolding stable_match_def
proof (intro conjI ballI impI)
  fix c assume c: "c \<in> set (cells S)" "threshold \<le> score_at S c"
  then have "score_at w c < threshold" "score_at w c = (if struck Q c then - 1 else score_at S c)"
    using assms by (simp_all add: loop_inv_def)
  with c have "struck Q c" by (auto split: if_splits)
  with c assms(1) show "blocked_by S Q c" by (simp add: loop_inv_def)
qed (use assms(1) in \<open>simp add: loop_inv_def\<close>)

lemma loop_inv_step:
  assumes inv: "loop_inv S threshold w Q" and low: "- 1 < threshold" and ne: "cells w \<noteq> []"
    and take: "threshold \<le> score_at w (argmax w)"
  shows "loop_inv S threshold (strike (argmax w) w) (Q @ [argmax w])"
    and "\<not> struck Q (argmax w)" and "argmax w \<in> set (cells S)"
proof -
  let ?p = "argmax w"
  have cells: "cells w = cells S" using inv by (simp add: loop_inv_def)
  show p: "?p \<in> set (cells S)" using argmax(1) [OF ne] cells by simp
  then have pw: "score_at w ?p = (if struck Q ?p then - 1 else score_at S ?p)"
    using inv by (simp add: loop_inv_def)
  then show free: "\<not> struck Q ?p" using take low by (auto split: if_splits)
  have pS: "score_at w ?p = score_at S ?p" using pw free by simp
  have best: "score_at S c \<le> score_at S ?p" if "c \<in> set (cells S)" "\<not> struck Q c" for c
    using argmax(2) [OF ne, of c] that cells inv pS by (simp add: loop_inv_def)
  have st: "struck (Q @ [?p]) c \<longleftrightarrow> struck Q c \<or> fst c = fst ?p \<or> snd c = snd ?p" for c
    by (auto simp: struck_def)
  have pm: "partial_match S threshold (Q @ [?p])"
    using inv p free take pS
    by (auto simp: loop_inv_def partial_match_def sorted_wrt_append struck_def)
  have bl: "blocked_by S (Q @ [?p]) c"
    if "c \<in> set (cells S)" "struck (Q @ [?p]) c" "threshold \<le> score_at S c" for c
  proof (cases "struck Q c")
    case True
    with inv that have "blocked_by S Q c" by (simp add: loop_inv_def)
    then show ?thesis by (auto simp: blocked_by_def)
  next
    case False
    with that st best show ?thesis by (auto simp: blocked_by_def)
  qed
  show "loop_inv S threshold (strike ?p w) (Q @ [?p])"
    unfolding loop_inv_def
  proof (intro conjI ballI impI)
    fix c assume c: "c \<in> set (cells S)"
    then show "score_at (strike ?p w) c = (if struck (Q @ [?p]) c then - 1 else score_at S c)"
      using inv cells st by (auto simp: score_strike loop_inv_def)
    fix q assume q: "\<not> struck (Q @ [?p]) c" "q \<in> set (Q @ [?p])"
    then have "\<not> struck Q c" by (simp add: st)
    with c inv best [OF c] q(2) show "score_at S c \<le> score_at S q" by (auto simp: loop_inv_def)
  qed (use cells pm bl in auto)
qed

lemma greedy_loop_stable:
  assumes "loop_inv S threshold w Q" and "- 1 < threshold" and "cells S \<noteq> []"
  shows "\<exists>R. greedy_loop threshold w Q = Some R \<and> stable_match S threshold R"
  using assms(1)
proof (induction "card {c \<in> set (cells S). threshold \<le> score_at w c}" arbitrary: w Q rule: less_induct)
  case less
  let ?p = "argmax w" and ?w = "strike (argmax w) w"
  have cells: "cells w = cells S" using less.prems by (simp add: loop_inv_def)
  with assms(3) have ne: "cells w \<noteq> []" by simp
  show ?case
  proof (cases "score_at w ?p < threshold")
    case True
    have "\<forall>c \<in> set (cells w). score_at w c < threshold" using argmax(2) [OF ne] True by fastforce
    with True loop_inv_exhausted [OF less.prems] show ?thesis
      by (subst greedy_loop.simps) simp
  next
    case False
    then have take: "threshold \<le> score_at w ?p" by simp
    note step = loop_inv_step [OF less.prems assms(2) ne take]
    show ?thesis
    proof (cases "\<forall>c \<in> set (cells ?w). score_at ?w c < threshold")
      case True
      with False loop_inv_exhausted [OF step(1)] show ?thesis
        by (subst greedy_loop.simps) simp
    next
      case more: False
      have "{c \<in> set (cells S). threshold \<le> score_at ?w c} \<subset> {c \<in> set (cells S). threshold \<le> score_at w c}"
      proof
        show "{c \<in> set (cells S). threshold \<le> score_at ?w c} \<subseteq> {c \<in> set (cells S). threshold \<le> score_at w c}"
          using assms(2) cells by (auto simp: score_strike split: if_splits)
        show "{c \<in> set (cells S). threshold \<le> score_at ?w c} \<noteq> {c \<in> set (cells S). threshold \<le> score_at w c}"
          using step(3) take assms(2) cells by (force simp: score_strike)
      qed
      then have "card {c \<in> set (cells S). threshold \<le> score_at ?w c} <
          card {c \<in> set (cells S). threshold \<le> score_at w c}"
        by (intro psubset_card_mono) auto
      from less.hyps [OF this step(1)]
      have "\<exists>R. greedy_loop threshold ?w (Q @ [?p]) = Some R \<and> stable_match S threshold R" .
      moreover have "greedy_loop threshold w Q = greedy_loop threshold ?w (Q @ [?p])"
        using False more by (subst greedy_loop.simps) (simp only: if_False)
      ultimately show ?thesis by simp
    qed
  qed
qed

lemma greedy_match_ok:
  assumes "- 1 < threshold"
  shows "\<exists>Q. greedy_match S threshold = Some Q \<and> stable_match S threshold Q"
proof (cases "cells S = []")
  case True
  then show ?thesis by (simp add: greedy_match_def stable_match_def partial_match_def)
next
  case False
  have "loop_inv S threshold S []" by (simp add: loop_inv_def struck_def partial_match_def)
  from greedy_loop_stable [OF this assms False] False show ?thesis by (simp add: greedy_match_def)
qed

text \<open>The greedy assignment always ends for a threshold above the mark of struck cells, and its answer is a
  stable matching: every track and every detection is used at most once, by overlaps of at
  least the threshold taken best first, and whenever an overlap reaches the threshold without
  being chosen, its track or its detection was given a partner with which it overlaps at least as much.\<close>

lemma greedy_match_stable:
  assumes "- 1 < threshold"
  shows "\<exists>Q. greedy_match S threshold = Some Q \<and>
    distinct (List.map fst Q) \<and> distinct (List.map snd Q) \<and>
    sorted_wrt (\<lambda>p q. score_at S q \<le> score_at S p) Q \<and>
    (\<forall>(i, j) \<in> set Q. i < length S \<and> j < columns S \<and> threshold \<le> S ! i ! j) \<and>
    (\<forall>i < length S. \<forall>j < columns S. threshold \<le> S ! i ! j \<longrightarrow>
       (\<exists>(k, l) \<in> set Q. (k = i \<or> l = j) \<and> S ! i ! j \<le> S ! k ! l))"
proof -
  obtain Q where Q: "greedy_match S threshold = Some Q" "partial_match S threshold Q"
    "\<forall>c \<in> set (cells S). threshold \<le> score_at S c \<longrightarrow> blocked_by S Q c"
    using greedy_match_ok [OF assms] by (auto simp: stable_match_def)
  have "\<exists>(k, l) \<in> set Q. (k = i \<or> l = j) \<and> S ! i ! j \<le> S ! k ! l"
    if "i < length S" "j < columns S" "threshold \<le> S ! i ! j" for i j
    using that Q(3) [THEN bspec, of "(i, j)"] by (force simp: set_cells score_at_def blocked_by_def)
  with Q(1,2) show ?thesis
    by (intro exI [of _ Q]) (auto simp: partial_match_def set_cells score_at_def case_prod_unfold)
qed

lemma greedy_match_stable_witness:
  "greedy_match [[3 / 10, 6 / 10], [5 / 10, 7 / 10]] (1 / 4) = Some [(1, 1), (0, 0)] \<and>
   distinct (List.map fst [(1 :: nat, 1 :: nat), (0, 0)])"
proof -
  let ?S = "[[3 / 10, 6 / 10], [5 / 10, 7 / 10 :: real]]"
  have "greedy_match ?S (1 / 4) = Some [(1, 1), (0, 0)]"
    by (simp add: greedy_match_def greedy_loop.simps cells_def columns_def argmax_def score_at_def
        strike_def upt_rec)
  with greedy_match_stable [of "1 / 4" ?S] show ?thesis by simp
qed

subsection \<open>Accounting for detections\<close>

text \<open>What the tracks of one class hold.\<close>

definition samples_of :: "string \<Rightarrow> track list \<Rightarrow> sample multiset" where
  "samples_of label ts =
     sum_list (List.map (\<lambda>t. if tk_label t = label then mset (tk_samples t) else {#}) ts)"

definition tracks_of :: "tracker \<Rightarrow> track list" where
  "tracks_of bt = bt_finished bt @ bt_active bt"

text \<open>A track is the sum of its samples, and a confident detection started it.\<close>

definition track_ok :: "track \<Rightarrow> bool" where
  "track_ok t \<longleftrightarrow>
     tk_samples t \<noteq> [] \<and> tk_frame_count t = length (tk_samples t) \<and>
     tk_confidence_sum t = sum_list (List.map (\<lambda>s. fst (snd s)) (tk_samples t)) \<and>
     (\<forall>s \<in> set (tk_samples t). fst (snd s) \<le> tk_confidence_max t) \<and>
     HIGH_CONFIDENCE \<le> fst (snd (hd (tk_samples t))) \<and>
     tk_first_offset t = fst (hd (tk_samples t)) \<and> tk_last_offset t = fst (last (tk_samples t))"

definition tracker_inv :: "tracker \<Rightarrow> bool" where
  "tracker_inv bt \<longleftrightarrow>
     (\<forall>t \<in> set (tracks_of bt). track_ok t \<and> tk_key t < bt_next_key bt) \<and>
     distinct (List.map tk_key (tracks_of bt)) \<and>
     (\<forall>t \<in> set (bt_active bt). tk_misses t \<le> bt_buffer bt)"

lemma consider_best_sel [simp]:
  "tk_key (consider_best off b c pic t) = tk_key t" "tk_label (consider_best off b c pic t) = tk_label t"
  "tk_samples (consider_best off b c pic t) = tk_samples t"
  "tk_frame_count (consider_best off b c pic t) = tk_frame_count t"
  "tk_confidence_sum (consider_best off b c pic t) = tk_confidence_sum t"
  "tk_confidence_max (consider_best off b c pic t) = tk_confidence_max t"
  "tk_first_offset (consider_best off b c pic t) = tk_first_offset t"
  "tk_last_offset (consider_best off b c pic t) = tk_last_offset t"
  "tk_misses (consider_best off b c pic t) = tk_misses t"
  by (simp_all add: consider_best_def Let_def)

lemma absorb_sel [simp]:
  "tk_key (absorb off frame d t) = tk_key t" "tk_label (absorb off frame d t) = tk_label t"
  "tk_samples (absorb off frame d t) = tk_samples t @ [sample_of off d]"
  by (simp_all add: absorb_def)

lemma new_track_sel [simp]:
  "tk_key (new_track k off frame d) = k" "tk_label (new_track k off frame d) = de_label d"
  "tk_samples (new_track k off frame d) = [sample_of off d]"
  by (simp_all add: new_track_def)

lemma predict_sel [simp]:
  "tk_key (predict t) = tk_key t" "tk_label (predict t) = tk_label t"
  "tk_samples (predict t) = tk_samples t" "tk_misses (predict t) = tk_misses t" "track_ok (predict t) = track_ok t"
  by (auto simp: predict_def track_ok_def Let_def split: option.splits)

lemma sample_of_sel [simp]:
  "fst (sample_of off d) = off" "fst (snd (sample_of off d)) = de_confidence d"
  by (simp_all add: sample_of_def)

lemma track_ok_absorb: "track_ok t \<Longrightarrow> track_ok (absorb off frame d t)"
  by (auto simp: track_ok_def absorb_def max_def)

lemma track_ok_new: "HIGH_CONFIDENCE \<le> de_confidence d \<Longrightarrow> track_ok (new_track k off frame d)"
  by (simp add: track_ok_def) (simp add: new_track_def)

lemma samples_of_append [simp]: "samples_of l (as @ bs) = samples_of l as + samples_of l bs"
  by (simp add: samples_of_def)

lemma samples_of_update:
  assumes "i < length ts" and "tk_label t = tk_label (ts ! i)"
    and "tk_samples t = tk_samples (ts ! i) @ xs"
  shows "samples_of l (ts[i := t]) = samples_of l ts + (if tk_label t = l then mset xs else {#})"
proof -
  have "ts = take i ts @ ts ! i # drop (Suc i) ts" using assms(1) by (simp add: id_take_nth_drop)
  moreover have "ts[i := t] = take i ts @ t # drop (Suc i) ts"
    using assms(1) by (simp add: upd_conv_take_nth_drop)
  ultimately show ?thesis
    using assms(2,3) samples_of_append [of l "take i ts" "ts ! i # drop (Suc i) ts"]
    by (simp add: samples_of_def)
qed

lemma samples_of_map:
  "(\<And>t. tk_label (f t) = tk_label t) \<Longrightarrow> (\<And>t. tk_samples (f t) = tk_samples t) \<Longrightarrow>
    samples_of l (List.map f ts) = samples_of l ts"
  by (simp add: samples_of_def comp_def cong: if_cong)

text \<open>Taking a list of chosen pairs into the tracks.\<close>

definition samples_in :: "string \<Rightarrow> real \<Rightarrow> detection list \<Rightarrow> sample multiset" where
  "samples_in label off ds = mset (List.map (sample_of off) (filter (\<lambda>d. de_label d = label) ds))"

lemma samples_in_simps [simp]:
  "samples_in l off [] = {#}"
  "samples_in l off (d # ds) = (if de_label d = l then {#sample_of off d#} else {#}) + samples_in l off ds"
  "samples_in l off (as @ bs) = samples_in l off as + samples_in l off bs"
  by (simp_all add: samples_in_def)

lemma absorb_pairs:
  assumes "\<forall>(r, c) \<in> set pairs. candidates ! r < length ts \<and>
      tk_label (ts ! (candidates ! r)) = de_label (ds ! c)"
    and "\<forall>t \<in> set ts. track_ok t"
  shows "let ts' = fold (absorb_pair candidates ds off frame) pairs ts in
    length ts' = length ts \<and> List.map tk_key ts' = List.map tk_key ts \<and>
    List.map tk_label ts' = List.map tk_label ts \<and> (\<forall>t \<in> set ts'. track_ok t) \<and>
    samples_of l ts' = samples_of l ts + samples_in l off (List.map (\<lambda>rc. ds ! snd rc) pairs)"
  using assms
proof (induction pairs arbitrary: ts)
  case (Cons rc pairs)
  obtain r c where rc: "rc = (r, c)" by (cases rc)
  let ?i = "candidates ! r"
  let ?t = "absorb off frame (ds ! c) (ts ! ?i)"
  let ?ts = "ts[?i := ?t]"
  have i: "?i < length ts" "tk_label (ts ! ?i) = de_label (ds ! c)" using Cons.prems(1) rc by auto
  have one: "List.map tk_key ?ts = List.map tk_key ts" "List.map tk_label ?ts = List.map tk_label ts"
    by (simp_all add: map_update list_update_same_conv i(1))
  have lab: "tk_label (?ts ! k) = tk_label (ts ! k)" if "k < length ts" for k
    using that by (cases "k = ?i") simp_all
  have ok: "\<forall>t \<in> set ?ts. track_ok t"
  proof
    fix t assume "t \<in> set ?ts"
    then have "t = ?t \<or> t \<in> set ts" using set_update_subset_insert [of ts ?i ?t] by blast
    with Cons.prems(2) i(1) show "track_ok t" by (auto intro: track_ok_absorb)
  qed
  have pairs: "\<forall>(r, c) \<in> set pairs. candidates ! r < length ?ts \<and>
      tk_label (?ts ! (candidates ! r)) = de_label (ds ! c)"
    using Cons.prems(1) lab by auto
  have "samples_of l ?ts = samples_of l ts + (if de_label (ds ! c) = l then {#sample_of off (ds ! c)#} else {#})"
    using samples_of_update [of ?i ts ?t "[sample_of off (ds ! c)]" l] i by simp
  with Cons.IH [OF pairs ok] one rc show ?case
    by (simp add: absorb_pair_def Let_def ac_simps)
qed (simp add: Let_def)

lemma start_tracks:
  assumes "\<forall>d \<in> set fresh. HIGH_CONFIDENCE \<le> de_confidence d" and "tracker_inv bt"
  shows "let bt' = fold (start_track off frame) fresh bt in
    tracker_inv bt' \<and> bt_finished bt' = bt_finished bt \<and> bt_buffer bt' = bt_buffer bt \<and>
    (\<exists>more. bt_active bt' = bt_active bt @ more \<and> (\<forall>l. samples_of l more = samples_in l off fresh))"
  using assms
proof (induction fresh arbitrary: bt)
  case (Cons d fresh)
  let ?bt = "start_track off frame d bt"
  let ?fin = "fold (start_track off frame) fresh ?bt"
  have "tracker_inv ?bt"
    using Cons.prems track_ok_new [of d "bt_next_key bt" off frame]
    by (auto simp: tracker_inv_def tracks_of_def start_track_def less_Suc_eq new_track_def)
  with Cons.IH [of ?bt] Cons.prems(1) have ih: "tracker_inv ?fin" "bt_finished ?fin = bt_finished ?bt"
    "bt_buffer ?fin = bt_buffer ?bt"
    "\<exists>more. bt_active ?fin = bt_active ?bt @ more \<and> (\<forall>l. samples_of l more = samples_in l off fresh)"
    by (auto simp: Let_def)
  then obtain more where more: "bt_active ?fin = bt_active ?bt @ more"
    "\<forall>l. samples_of l more = samples_in l off fresh"
    by blast
  have bt: "bt_finished ?bt = bt_finished bt" "bt_buffer ?bt = bt_buffer bt"
    "bt_active ?bt = bt_active bt @ [new_track (bt_next_key bt) off frame d]"
    by (simp_all add: start_track_def)
  have "bt_active ?fin = bt_active bt @ (new_track (bt_next_key bt) off frame d # more)"
    using more(1) bt(3) by simp
  moreover have "samples_of l (new_track (bt_next_key bt) off frame d # more) = samples_in l off (d # fresh)" for l
    using more(2) samples_of_append [of l "[new_track (bt_next_key bt) off frame d]" more]
    by (simp add: samples_of_def)
  ultimately show ?case
    unfolding Let_def fold_simps
    by (intro conjI exI [of _ "new_track (bt_next_key bt) off frame d # more"] allI)
      (simp_all only: ih(1-3) bt(1,2))
qed (simp add: Let_def samples_of_def)

lemma mset_picked:
  assumes "distinct cols" and "set cols \<subseteq> {..<length ds}"
  shows "mset (List.map ((!) ds) cols) \<subseteq># mset ds"
    and "mset (List.map ((!) ds) (cols @ filter (\<lambda>c. c \<notin> set cols) [0..<length ds])) = mset ds"
proof -
  let ?rest = "filter (\<lambda>c. c \<notin> set cols) [0..<length ds]"
  have "set (cols @ ?rest) = set [0..<length ds]" "distinct (cols @ ?rest)" "distinct [0..<length ds]"
    using assms by auto
  then have "mset (cols @ ?rest) = mset [0..<length ds]"
    by (metis set_eq_iff_mset_eq_distinct)
  then have "mset (List.map ((!) ds) (cols @ ?rest)) = mset (List.map ((!) ds) [0..<length ds])"
    by (metis mset_map)
  then show all: "mset (List.map ((!) ds) (cols @ ?rest)) = mset ds" by (simp add: map_nth)
  show "mset (List.map ((!) ds) cols) \<subseteq># mset ds"
    unfolding all [symmetric] by simp
qed

lemma absorb_misses:
  "\<forall>t \<in> set ts. tk_misses t \<le> n \<Longrightarrow>
    \<forall>t \<in> set (fold (absorb_pair candidates ds off frame) pairs ts). tk_misses t \<le> n"
proof (induction pairs arbitrary: ts)
  case (Cons rc pairs)
  let ?t = "absorb off frame (ds ! snd rc) (ts ! (candidates ! fst rc))"
  have "\<forall>t \<in> set (ts[candidates ! fst rc := ?t]). tk_misses t \<le> n"
  proof
    fix t assume "t \<in> set (ts[candidates ! fst rc := ?t])"
    then have "t = ?t \<or> t \<in> set ts" using set_update_subset_insert [of ts _ ?t] by blast
    with Cons.prems show "tk_misses t \<le> n" by (auto simp: absorb_def)
  qed
  from Cons.IH [OF this] show ?case by (simp add: absorb_pair_def Let_def)
qed simp

lemma association_labels:
  assumes "stable_match (association_scores ts candidates ds) threshold pairs" and "- 1 < threshold"
    and "(r, c) \<in> set pairs"
  shows "r < length candidates" and "c < length ds"
    and "tk_label (ts ! (candidates ! r)) = de_label (ds ! c)"
proof -
  let ?S = "association_scores ts candidates ds"
  have p: "(r, c) \<in> set (cells ?S)" "threshold \<le> score_at ?S (r, c)"
    using assms(1,3) by (auto simp: stable_match_def partial_match_def)
  then show r: "r < length candidates" by (simp add: set_cells association_scores_def)
  then have "columns ?S = length ds"
    by (cases candidates) (simp_all add: association_scores_def columns_def)
  with p(1) show c: "c < length ds" by (simp add: set_cells)
  show "tk_label (ts ! (candidates ! r)) = de_label (ds ! c)"
    using p(2) r c assms(2) by (auto simp: association_scores_def score_at_def split: if_splits)
qed

text \<open>One association pass takes some of the detections, all of them when it may start tracks.\<close>

lemma associate_accounts:
  assumes inv: "tracker_inv bt" and low: "- 1 < threshold"
    and cand: "\<forall>i \<in> set candidates. i < length (bt_active bt)"
    and conf: "allow_new \<longrightarrow> (\<forall>d \<in> set ds. HIGH_CONFIDENCE \<le> de_confidence d)"
  shows "\<exists>un bt' used. associate allow_new ds candidates threshold off frame bt = Some (un, bt') \<and>
    tracker_inv bt' \<and> bt_buffer bt' = bt_buffer bt \<and> length (bt_active bt) \<le> length (bt_active bt') \<and>
    set un \<subseteq> set candidates \<and> mset used \<subseteq># mset ds \<and> (allow_new \<longrightarrow> mset used = mset ds) \<and>
    (\<forall>l. samples_of l (tracks_of bt') = samples_of l (tracks_of bt) + samples_in l off used)"
proof (cases "ds = []")
  case True
  then show ?thesis using inv
    by (intro exI [of _ candidates] exI [of _ bt] exI [of _ "[]"]) (simp add: associate_def)
next
  case False
  let ?ts = "bt_active bt"
  obtain pairs where pairs: "greedy_match (association_scores ?ts candidates ds) threshold = Some pairs"
    "stable_match (association_scores ?ts candidates ds) threshold pairs"
    using greedy_match_ok [OF low] by blast
  note lab = association_labels [OF pairs(2) low]
  define ts' where "ts' = fold (absorb_pair candidates ds off frame) pairs ?ts"
  define cols where "cols = List.map snd pairs"
  define fresh where "fresh = List.map ((!) ds) (filter (\<lambda>c. c \<notin> set cols) [0..<length ds])"
  define bt1 where "bt1 = bt\<lparr>bt_active := ts'\<rparr>"
  define bt2 where "bt2 = (if allow_new then fold (start_track off frame) fresh bt1 else bt1)"
  define un where "un = sort (filter (\<lambda>i. i \<notin> (\<lambda>rc. candidates ! fst rc) ` set pairs) (remdups candidates))"
  have run: "associate allow_new ds candidates threshold off frame bt = Some (un, bt2)"
    using False pairs(1)
    by (simp add: associate_def Let_def ts'_def fresh_def bt1_def bt2_def un_def cols_def)
  have "\<forall>(r, c) \<in> set pairs. candidates ! r < length ?ts \<and>
      tk_label (?ts ! (candidates ! r)) = de_label (ds ! c)"
    using lab cand by fastforce
  moreover have ok: "\<forall>t \<in> set ?ts. track_ok t" using inv by (simp add: tracker_inv_def tracks_of_def)
  ultimately have ts': "length ts' = length ?ts" "List.map tk_key ts' = List.map tk_key ?ts"
    "\<forall>t \<in> set ts'. track_ok t"
    "samples_of l ts' = samples_of l ?ts + samples_in l off (List.map ((!) ds) cols)" for l
    using absorb_pairs [of pairs candidates ?ts ds off frame]
    by (simp_all add: Let_def ts'_def [symmetric] cols_def comp_def)
  have keys: "set (List.map tk_key ts') = set (List.map tk_key ?ts)" by (simp only: ts'(2))
  have inv1: "tracker_inv bt1"
    unfolding tracker_inv_def
  proof (intro conjI ballI)
    show "distinct (List.map tk_key (tracks_of bt1))"
      using inv keys by (simp add: tracker_inv_def tracks_of_def bt1_def ts'(2))
    fix t assume t: "t \<in> set (tracks_of bt1)"
    have "tk_key t \<in> set (List.map tk_key (tracks_of bt))"
      using t keys by (auto simp: tracks_of_def bt1_def)
    with inv show "tk_key t < bt_next_key bt1" by (auto simp: tracker_inv_def bt1_def)
    show "track_ok t" using t inv ts'(3) by (auto simp: tracker_inv_def tracks_of_def bt1_def)
  next
    fix t assume "t \<in> set (bt_active bt1)"
    with absorb_misses [of ?ts "bt_buffer bt" candidates ds off frame pairs] inv
    show "tk_misses t \<le> bt_buffer bt1" by (simp add: tracker_inv_def bt1_def ts'_def)
  qed
  have cols: "distinct cols" "set cols \<subseteq> {..<length ds}"
    using pairs(2) lab(2) by (auto simp: cols_def stable_match_def partial_match_def)
  note picked = mset_picked [OF cols]
  have un: "set un \<subseteq> set candidates" by (auto simp: un_def)
  have s1: "samples_of l (tracks_of bt1) =
      samples_of l (tracks_of bt) + samples_in l off (List.map ((!) ds) cols)" for l
    by (simp add: tracks_of_def bt1_def ts'(4) ac_simps)
  show ?thesis
  proof (cases allow_new)
    case True
    have "set fresh \<subseteq> set ds" by (auto simp: fresh_def)
    with conf True have "\<forall>d \<in> set fresh. HIGH_CONFIDENCE \<le> de_confidence d" by blast
    from start_tracks [OF this inv1, of off frame] True obtain more where st: "tracker_inv bt2"
      "bt_finished bt2 = bt_finished bt1" "bt_buffer bt2 = bt_buffer bt1"
      "bt_active bt2 = bt_active bt1 @ more" "\<forall>l. samples_of l more = samples_in l off fresh"
      by (auto simp: Let_def bt2_def)
    have "samples_of l (tracks_of bt2) =
        samples_of l (tracks_of bt) + samples_in l off (List.map ((!) ds) cols @ fresh)" for l
      using st s1 [of l] by (simp add: tracks_of_def ac_simps)
    moreover have "mset (List.map ((!) ds) cols @ fresh) = mset ds"
      using picked(2) by (simp add: fresh_def)
    ultimately show ?thesis
      using run st un ts'(1) by (intro exI [of _ un] exI [of _ bt2] exI [of _ "List.map ((!) ds) cols @ fresh"])
        (simp add: bt1_def)
  next
    case False
    then show ?thesis
      using run un ts'(1) inv1 s1 picked(1)
      by (intro exI [of _ un] exI [of _ bt2] exI [of _ "List.map ((!) ds) cols"])
        (simp add: bt1_def bt2_def)
  qed
qed

subsection \<open>Frames\<close>

lemma map_miss:
  assumes "\<And>t n. f (t\<lparr>tk_misses := n\<rparr>) = f t"
  shows "List.map f (miss un ts) = List.map f ts"
proof -
  have "List.map f (fold (\<lambda>i ts. ts[i := (ts ! i)\<lparr>tk_misses := tk_misses (ts ! i) + 1\<rparr>]) un ts) = List.map f ts"
  proof (induction un arbitrary: ts)
    case (Cons i un)
    have "List.map f (ts[i := (ts ! i)\<lparr>tk_misses := tk_misses (ts ! i) + 1\<rparr>]) = List.map f ts"
      by (cases "i < length ts") (simp_all add: map_update assms list_update_same_conv list_update_beyond)
    with Cons show ?case by simp
  qed simp
  then show ?thesis by (simp add: miss_def)
qed

lemma miss_ok: "(\<forall>t \<in> set (miss un ts). track_ok t) \<longleftrightarrow> (\<forall>t \<in> set ts. track_ok t)"
proof -
  have "set (List.map track_ok (miss un ts)) = set (List.map track_ok ts)"
    by (subst map_miss) (simp_all add: track_ok_def)
  then have "False \<in> set (List.map track_ok (miss un ts)) \<longleftrightarrow> False \<in> set (List.map track_ok ts)" by simp
  then show ?thesis by auto
qed

lemma miss_samples: "samples_of l (miss un ts) = samples_of l ts"
  unfolding samples_of_def by (subst map_miss) simp_all

lemma samples_of_split:
  "samples_of l (filter P ts) + samples_of l (filter (\<lambda>t. \<not> P t) ts) = samples_of l ts"
  by (induction ts) (simp_all add: samples_of_def ac_simps)

lemma mset_split: "mset (filter P xs) + mset (filter (\<lambda>x. \<not> P x) xs) = mset xs"
  by (induction xs) simp_all

text \<open>Closing what was missed too often only moves tracks from one list to the other.\<close>

lemma retire_inv:
  assumes "tracker_inv bt"
    and "bt' = bt\<lparr>bt_finished := bt_finished bt @ filter (\<lambda>t. tk_misses t > bt_buffer bt) (miss un (bt_active bt)),
        bt_active := filter (\<lambda>t. \<not> tk_misses t > bt_buffer bt) (miss un (bt_active bt))\<rparr>"
  shows "tracker_inv bt'" and "samples_of l (tracks_of bt') = samples_of l (tracks_of bt)"
proof -
  let ?m = "miss un (bt_active bt)"
  have keys: "List.map tk_key ?m = List.map tk_key (bt_active bt)" by (rule map_miss) simp
  have perm: "mset (tracks_of bt') = mset (bt_finished bt @ ?m)"
    using mset_split [of "\<lambda>t. tk_misses t > bt_buffer bt" ?m]
    by (simp add: tracks_of_def assms(2) ac_simps)
  have kperm: "mset (List.map tk_key (tracks_of bt')) = mset (List.map tk_key (tracks_of bt))"
    using arg_cong [OF perm, of "image_mset tk_key"] arg_cong [OF keys, of mset]
    by (simp add: tracks_of_def)
  have "distinct (List.map tk_key (tracks_of bt'))"
    using assms(1) mset_eq_imp_distinct_iff [OF kperm] by (simp add: tracker_inv_def)
  moreover have "tk_key t < bt_next_key bt'" if "t \<in> set (tracks_of bt')" for t
  proof -
    have "tk_key t \<in> set (List.map tk_key (tracks_of bt'))" using that by simp
    also have "\<dots> = set (List.map tk_key (tracks_of bt))" by (rule mset_eq_setD [OF kperm])
    finally show ?thesis using assms by (auto simp: tracker_inv_def)
  qed
  moreover have "\<forall>t \<in> set (tracks_of bt'). track_ok t"
  proof -
    have "set (tracks_of bt') = set (bt_finished bt @ ?m)" by (rule mset_eq_setD [OF perm])
    moreover have "\<forall>t \<in> set ?m. track_ok t"
      using assms(1) by (simp add: miss_ok tracker_inv_def tracks_of_def)
    ultimately show ?thesis using assms(1) by (auto simp: tracker_inv_def tracks_of_def)
  qed
  ultimately show "tracker_inv bt'" by (auto simp: tracker_inv_def assms(2))
  show "samples_of l (tracks_of bt') = samples_of l (tracks_of bt)"
    using samples_of_split [of l "\<lambda>t. tk_misses t > bt_buffer bt" ?m]
    by (simp add: tracks_of_def assms(2) miss_samples)
qed

definition confident :: "sample \<Rightarrow> bool" where
  "confident s \<longleftrightarrow> HIGH_CONFIDENCE \<le> fst (snd s)"

lemma samples_in_mono:
  "mset used \<subseteq># mset ds \<Longrightarrow> samples_in l off used \<subseteq># samples_in l off ds"
  by (auto simp: samples_in_def intro!: image_mset_subseteq_mono multiset_filter_mono)

lemma confident_samples_in:
  "filter_mset confident (samples_in l off ds) =
    samples_in l off (filter (\<lambda>d. HIGH_CONFIDENCE \<le> de_confidence d) ds)"
proof (induction ds)
  case (Cons d ds)
  have "confident (sample_of off d) \<longleftrightarrow> HIGH_CONFIDENCE \<le> de_confidence d" by (simp add: confident_def)
  with Cons show ?case by simp
qed simp

lemma samples_in_split:
  "samples_in l off (filter P ds) + samples_in l off (filter (\<lambda>d. \<not> P d) ds) = samples_in l off ds"
  by (induction ds) (auto simp: ac_simps)

lemma update_accounts:
  assumes inv: "tracker_inv bt"
  shows "\<exists>bt' X. tracker_update ds off frame bt = Some bt' \<and> tracker_inv bt' \<and>
    (\<forall>l. samples_of l (tracks_of bt') = samples_of l (tracks_of bt) + X l \<and>
      X l \<subseteq># samples_in l off ds \<and>
      filter_mset confident (X l) = filter_mset confident (samples_in l off ds))"
proof -
  let ?P = "\<lambda>d. HIGH_CONFIDENCE \<le> de_confidence d"
  let ?high = "filter ?P ds" and ?low = "filter (\<lambda>d. \<not> ?P d) ds"
  define bt0 where "bt0 = bt\<lparr>bt_active := List.map predict (bt_active bt)\<rparr>"
  have inv0: "tracker_inv bt0"
    using inv by (auto simp: tracker_inv_def tracks_of_def bt0_def comp_def)
  have s0: "samples_of l (tracks_of bt0) = samples_of l (tracks_of bt)" for l
    by (simp add: tracks_of_def bt0_def samples_of_map)
  have thr: "- 1 < MATCH_IOU_HIGH" "- 1 < MATCH_IOU_LOW"
    by (simp_all add: MATCH_IOU_HIGH_def MATCH_IOU_LOW_def)
  have "\<forall>i \<in> set [0..<length (bt_active bt0)]. i < length (bt_active bt0)"
    "True \<longrightarrow> (\<forall>d \<in> set ?high. HIGH_CONFIDENCE \<le> de_confidence d)" by auto
  from associate_accounts [OF inv0 thr(1) this, of off frame]
  obtain un1 bt1 used1 where one:
    "associate True ?high [0..<length (bt_active bt0)] MATCH_IOU_HIGH off frame bt0 = Some (un1, bt1)"
    "tracker_inv bt1" "length (bt_active bt0) \<le> length (bt_active bt1)"
    "set un1 \<subseteq> set [0..<length (bt_active bt0)]" "mset used1 = mset ?high"
    "\<forall>l. samples_of l (tracks_of bt1) = samples_of l (tracks_of bt0) + samples_in l off used1"
    by auto
  have "\<forall>i \<in> set un1. i < length (bt_active bt1)"
    "False \<longrightarrow> (\<forall>d \<in> set ?low. HIGH_CONFIDENCE \<le> de_confidence d)"
    using one(3,4) by auto
  from associate_accounts [OF one(2) thr(2) this, of off frame]
  obtain un2 bt2 used2 where two:
    "associate False ?low un1 MATCH_IOU_LOW off frame bt1 = Some (un2, bt2)"
    "tracker_inv bt2" "mset used2 \<subseteq># mset ?low"
    "\<forall>l. samples_of l (tracks_of bt2) = samples_of l (tracks_of bt1) + samples_in l off used2"
    by auto
  define bt' where "bt' = bt2\<lparr>
      bt_finished := bt_finished bt2 @ filter (\<lambda>t. tk_misses t > bt_buffer bt2) (miss un2 (bt_active bt2)),
      bt_active := filter (\<lambda>t. \<not> tk_misses t > bt_buffer bt2) (miss un2 (bt_active bt2))\<rparr>"
  have run: "tracker_update ds off frame bt = Some bt'"
    using one(1) two(1)
    by (simp add: tracker_update_def Let_def bt0_def bt'_def not_le [symmetric])
  note retire = retire_inv [OF two(2) bt'_def]
  define X where "X l = samples_in l off used1 + samples_in l off used2" for l
  have high: "samples_in l off used1 = samples_in l off ?high" for l
    using one(5) by (metis samples_in_mono subset_mset.antisym subset_mset.order_refl)
  have low: "samples_in l off used2 \<subseteq># samples_in l off ?low" for l
    by (rule samples_in_mono [OF two(3)])
  have part: "samples_in l off ?high + samples_in l off ?low = samples_in l off ds" for l
    by (rule samples_in_split)
  have none: "filter_mset confident (samples_in l off ?low) = {#}" for l
    by (simp add: confident_samples_in)
  have sub: "X l \<subseteq># samples_in l off ds" for l
    using low [of l] by (simp add: X_def high part [symmetric])
  have "filter_mset confident (samples_in l off used2) = {#}" for l
    using multiset_filter_mono [OF low [of l], of confident] none by simp
  then have "filter_mset confident (X l) = filter_mset confident (samples_in l off ds)" for l
    by (simp add: X_def high confident_samples_in)
  with run retire sub one(6) two(4) s0 show ?thesis
    by (intro exI [of _ bt'] exI [of _ X]) (simp add: X_def ac_simps)
qed

text \<open>The tracker as a machine over frames.\<close>

type_synonym tracker_frame = "real \<times> image option \<times> detection list"

definition tracker_step :: "tracker \<Rightarrow> tracker_frame \<Rightarrow> tracker" where
  "tracker_step bt fr =
     (case fr of (off, frame, ds) \<Rightarrow>
        case tracker_update ds off frame bt of Some bt' \<Rightarrow> bt' | None \<Rightarrow> bt)"

lemma tracker_step_inv: "tracker_inv bt \<Longrightarrow> tracker_inv (tracker_step bt fr)"
  using update_accounts [of bt "snd (snd fr)" "fst fr" "fst (snd fr)"]
  by (auto simp: tracker_step_def case_prod_unfold)

interpretation tracking: machine tracker_step tracker_inv
  by unfold_locales (rule tracker_step_inv)

definition offered :: "string \<Rightarrow> tracker_frame list \<Rightarrow> sample multiset" where
  "offered l frames = sum_list (List.map (\<lambda>(off, frame, ds). samples_in l off ds) frames)"

lemma run_accounts:
  "tracker_inv bt \<Longrightarrow>
    \<exists>X. samples_of l (tracks_of (foldl tracker_step bt frames)) = samples_of l (tracks_of bt) + X \<and>
      X \<subseteq># offered l frames \<and> filter_mset confident X = filter_mset confident (offered l frames)"
proof (induction frames arbitrary: bt)
  case (Cons fr frames)
  obtain off frame ds where fr: "fr = (off, frame, ds)" by (metis prod_cases3)
  from update_accounts [OF Cons.prems, of ds off frame] obtain bt' Y where
    u: "tracker_step bt fr = bt'" "tracker_inv bt'"
      "samples_of l (tracks_of bt') = samples_of l (tracks_of bt) + Y"
      "Y \<subseteq># samples_in l off ds" "filter_mset confident Y = filter_mset confident (samples_in l off ds)"
    using fr by (auto simp: tracker_step_def)
  from Cons.IH [OF u(2)] obtain X where
    X: "samples_of l (tracks_of (foldl tracker_step bt' frames)) = samples_of l (tracks_of bt') + X"
      "X \<subseteq># offered l frames" "filter_mset confident X = filter_mset confident (offered l frames)"
    by blast
  have "offered l (fr # frames) = samples_in l off ds + offered l frames"
    by (simp add: offered_def fr)
  with X u show ?case
    by (intro exI [of _ "Y + X"]) (simp add: subset_mset.add_mono ac_simps)
qed (simp add: offered_def)

text \<open>C37: over any sequence of frames, and without ever failing to answer, the tracker accounts for what it was shown.
  The tracks of a class hold detections of that class only, each at most once; every confident
  detection is in one of them; every track is the sum of its samples, has a key of its own and
  was started by a confident detection; and no open track has been missing for longer than the buffer.\<close>

lemma tracks_account_for_detections:
  "let bt = foldl tracker_step (new_tracker buffer) frames in
    tracker_inv bt \<and>
    (\<forall>l. samples_of l (tracks_of bt) \<subseteq># offered l frames \<and>
      filter_mset confident (samples_of l (tracks_of bt)) = filter_mset confident (offered l frames)) \<and>
    (\<forall>off frame ds. tracker_update ds off frame bt \<noteq> None)"
proof -
  let ?bt = "foldl tracker_step (new_tracker buffer) frames"
  have new: "tracker_inv (new_tracker buffer)" by (simp add: tracker_inv_def tracks_of_def new_tracker_def)
  have inv: "tracker_inv ?bt" by (rule tracking.run_inv [OF new])
  have empty: "samples_of l (tracks_of (new_tracker buffer)) = {#}" for l
    by (simp add: samples_of_def tracks_of_def new_tracker_def)
  have "samples_of l (tracks_of ?bt) \<subseteq># offered l frames \<and>
      filter_mset confident (samples_of l (tracks_of ?bt)) = filter_mset confident (offered l frames)" for l
    using run_accounts [OF new, of l frames] empty by auto
  moreover have "tracker_update ds off frame ?bt \<noteq> None" for ds off frame
    using update_accounts [OF inv, of ds off frame] by auto
  ultimately show ?thesis using inv by (simp add: Let_def)
qed

end
