(* ===== verification/Scheduler.thy ===== *)
theory Scheduler
  imports Prelude
begin

section \<open>The scheduler\<close>

text \<open>
  Models \<^verbatim>\<open>backend/app/workers/scheduler.py\<close>: one pass of the loop over the periodic tasks, the
  scans a completed ingest or an unsettled file asks for, and the clean-up of recordings whose
  analysis has just finished. The coroutines are cut at their awaits: what a scan, a settings
  read or a clean-up returns is part of an event, and other coroutines may act between two
  events of one. Times are seconds of the monotonic clock.
\<close>

subsection \<open>Periodic tasks\<close>

record task =
  ts_name :: string
  ts_next_run :: real
  ts_last_error :: "string option"
  ts_runs :: nat
  ts_failures :: nat

text \<open>What \<^verbatim>\<open>enabled()\<close> and then \<^verbatim>\<open>run()\<close> came to; \<open>TaskCancelled\<close> is \<^verbatim>\<open>CancelledError\<close>.\<close>

datatype task_result = NotEnabled | Ran | TaskFailed string | TaskCancelled

record task_turn =
  tt_result :: task_result
  tt_interval :: "real option"
  tt_finished :: real

definition task_turn :: "real \<Rightarrow> task_turn \<Rightarrow> task \<Rightarrow> task" where
  "task_turn now turn t =
     (if now < ts_next_run t then t
      else
        (let t1 = (case tt_result turn of
               NotEnabled \<Rightarrow> t
             | Ran \<Rightarrow> t\<lparr>ts_runs := ts_runs t + 1, ts_last_error := None\<rparr>
             | TaskFailed e \<Rightarrow> t\<lparr>ts_failures := ts_failures t + 1, ts_last_error := Some e\<rparr>
             | TaskCancelled \<Rightarrow> t);
             interval = (case tt_interval turn of Some i \<Rightarrow> max 30 i | None \<Rightarrow> 300)
         in t1\<lparr>ts_next_run := tt_finished turn + interval\<rparr>))"

text \<open>The inner loop of a pass; a cancellation leaves the rest of the tasks alone (\<open>True\<close>).\<close>

fun task_pass :: "real \<Rightarrow> task_turn list \<Rightarrow> task list \<Rightarrow> task list \<times> bool" where
  "task_pass now (turn # turns) (t # ts) =
     (if now \<ge> ts_next_run t \<and> tt_result turn = TaskCancelled then (task_turn now turn t # ts, True)
      else (case task_pass now turns ts of (ts', c) \<Rightarrow> (task_turn now turn t # ts', c)))"
| "task_pass now turns ts = (ts, False)"

text \<open>\<^verbatim>\<open>start\<close>: retention runs at once, the others staggered (\<open>jitter\<close> is \<^verbatim>\<open>random.uniform(0, 5)\<close>).\<close>

definition TASK_NAMES :: "string list" where
  "TASK_NAMES = [''scan'', ''retention'', ''reclaim'', ''prune-logs'', ''db-maintenance'',
     ''plate-revalidation'', ''journey-motion-revalidation'']"

definition initial_tasks :: "real \<Rightarrow> (nat \<Rightarrow> real) \<Rightarrow> task list" where
  "initial_tasks now jitter =
     List.map (\<lambda>(i, name).
         \<lparr>ts_name = name,
          ts_next_run = (if name = ''retention'' then now else now + 10 + real i * 5 + jitter i),
          ts_last_error = None, ts_runs = 0, ts_failures = 0\<rparr>)
       (zip [0..<length TASK_NAMES] TASK_NAMES)"

subsection \<open>Scans and their follow-ups\<close>

definition SETTLING_SCAN_LIMIT :: int where "SETTLING_SCAN_LIMIT = 3"
definition SETTLING_SCAN_MIN_DELAY :: real where "SETTLING_SCAN_MIN_DELAY = 30"
definition INGEST_SCAN_DEBOUNCE :: real where "INGEST_SCAN_DEBOUNCE = 2"

record scan_state =
  ss_running :: bool
  ss_settling_due :: "real option"
  ss_remaining :: int
  ss_settling_generation :: nat
  ss_ingest_due :: "real option"
  ss_ingest_generation :: nat

datatype scan_trigger = Scheduled | Manual | Ingest

text \<open>
  A coroutine that is waiting: for the settings before an ingest scan or a follow-up (with the
  generation it took), for the walk (\<open>None\<close> starts a new chain), or for what comes after it.
\<close>

datatype flight =
    AskingIngest
  | AskingSettling nat
  | Walking scan_trigger "nat option" nat
  | Following bool nat "real option" bool
  | Maintaining bool nat

definition request_ingest_scan :: "real \<Rightarrow> scan_state \<Rightarrow> bool \<times> scan_state" where
  "request_ingest_scan now s =
     (if \<not> ss_running s then (False, s)
      else
        (let due = now + INGEST_SCAN_DEBOUNCE
         in (True, s\<lparr>ss_ingest_generation := ss_ingest_generation s + 1,
                     ss_ingest_due := Some (case ss_ingest_due s of None \<Rightarrow> due | Some d \<Rightarrow> min d due)\<rparr>)))"

text \<open>\<^verbatim>\<open>_run_due_ingest_scan\<close> up to its first await.\<close>

definition take_due_ingest :: "real \<Rightarrow> scan_state \<Rightarrow> flight option \<times> scan_state" where
  "take_due_ingest now s =
     (case ss_ingest_due s of
        Some due \<Rightarrow> if now < due then (None, s) else (Some AskingIngest, s\<lparr>ss_ingest_due := None\<rparr>)
      | None \<Rightarrow> (None, s))"

text \<open>\<^verbatim>\<open>_scan_with_followup\<close> up to the walk.\<close>

definition begin_walk :: "scan_trigger \<Rightarrow> nat option \<Rightarrow> scan_state \<Rightarrow> flight" where
  "begin_walk trigger generation s = Walking trigger generation (ss_ingest_generation s)"

text \<open>From the walk's answer to the read of \<^verbatim>\<open>auto_process\<close>; \<open>settles\<close> says that the summary
  asks for a follow-up: unsettled files and no error.\<close>

definition walk_done ::
  "scan_trigger \<Rightarrow> nat option \<Rightarrow> nat \<Rightarrow> bool \<Rightarrow> scan_state \<Rightarrow> flight \<times> scan_state" where
  "walk_done trigger generation ingest_generation settles s =
     (let s1 = (if ingest_generation = ss_ingest_generation s then s\<lparr>ss_ingest_due := None\<rparr> else s)
      in case generation of
           None \<Rightarrow>
             (let earlier = (if trigger = Manual then ss_settling_due s1 else None);
                  g = ss_settling_generation s1 + 1
              in (Following False g earlier settles,
                  s1\<lparr>ss_settling_generation := g, ss_remaining := SETTLING_SCAN_LIMIT,
                     ss_settling_due := None\<rparr>))
         | Some g \<Rightarrow> (Following True g None settles, s1))"

text \<open>\<^verbatim>\<open>_schedule_settling_scan\<close> after its settings reads, at time \<open>now\<close>.\<close>

definition schedule_settling_scan ::
  "nat \<Rightarrow> real option \<Rightarrow> bool \<Rightarrow> bool \<Rightarrow> bool \<Rightarrow> real \<Rightarrow> real \<Rightarrow> scan_state \<Rightarrow> scan_state" where
  "schedule_settling_scan generation earlier settles auto_process enabled settle_seconds now s =
     (let delay = max SETTLING_SCAN_MIN_DELAY settle_seconds in
      if generation \<noteq> ss_settling_generation s then s
      else if \<not> enabled \<or> \<not> auto_process \<or> \<not> settles \<or> ss_remaining s \<le> 0 then
        s\<lparr>ss_settling_due := None, ss_remaining := 0\<rparr>
      else
        (let due = now + delay
         in s\<lparr>ss_settling_due := Some (case earlier of Some e \<Rightarrow> min e due | None \<Rightarrow> due)\<rparr>))"

text \<open>\<^verbatim>\<open>_run_due_settling_scan\<close> up to its first await, and its answer to the settings.\<close>

definition take_due_settling :: "real \<Rightarrow> scan_state \<Rightarrow> flight option \<times> scan_state" where
  "take_due_settling now s =
     (case ss_settling_due s of
        Some due \<Rightarrow>
          if now < due then (None, s)
          else (Some (AskingSettling (ss_settling_generation s)), s\<lparr>ss_settling_due := None\<rparr>)
      | None \<Rightarrow> (None, s))"

definition settling_settings ::
  "nat \<Rightarrow> (bool \<times> bool) option \<Rightarrow> scan_state \<Rightarrow> flight option \<times> scan_state" where
  "settling_settings generation answer s =
     (case answer of
        None \<Rightarrow>
          (None, if generation = ss_settling_generation s then s\<lparr>ss_remaining := 0\<rparr> else s)
      | Some (enabled, auto_process) \<Rightarrow>
          if generation \<noteq> ss_settling_generation s then (None, s)
          else if \<not> enabled \<or> \<not> auto_process \<or> ss_remaining s \<le> 0 then (None, s\<lparr>ss_remaining := 0\<rparr>)
          else
            (let s1 = s\<lparr>ss_remaining := ss_remaining s - 1\<rparr>
             in (Some (begin_walk Scheduled (Some generation) s1), s1)))"

text \<open>The handler around a follow-up's walk: its failure ends the chain it belongs to.\<close>

definition followup_failed :: "nat \<Rightarrow> scan_state \<Rightarrow> scan_state" where
  "followup_failed generation s =
     (if generation = ss_settling_generation s
      then s\<lparr>ss_settling_due := None, ss_remaining := 0\<rparr> else s)"

text \<open>
  All coroutines over the state: \<open>sw_flights\<close> are those waiting, \<open>sw_regular\<close> counts the walks
  completed outside a chain, \<open>sw_followups\<close> the follow-up walks begun, and \<open>sw_covered\<close> is the
  newest ingest request that a completed walk began after.
\<close>

record scan_world =
  sw_state :: scan_state
  sw_flights :: "flight list"
  sw_regular :: nat
  sw_followups :: nat
  sw_covered :: nat

datatype scan_event =
    RequestIngest real
  | DueIngest real
  | DueSettling real
  | BeginScan scan_trigger
  | IngestSettings nat "bool option"
  | SettlingSettings nat "(bool \<times> bool) option"
  | WalkDone nat "bool option"
  | FollowUp nat "(bool \<times> bool \<times> real) option" real
  | Maintained nat bool

definition without :: "nat \<Rightarrow> 'a list \<Rightarrow> 'a list" where
  "without i xs = take i xs @ drop (Suc i) xs"

definition flight_at :: "nat \<Rightarrow> scan_world \<Rightarrow> flight option" where
  "flight_at i w = (if i < length (sw_flights w) then Some (sw_flights w ! i) else None)"

definition fly :: "flight option \<Rightarrow> scan_state \<Rightarrow> scan_world \<Rightarrow> scan_world" where
  "fly f s w =
     w\<lparr>sw_state := s, sw_flights := sw_flights w @ (case f of None \<Rightarrow> [] | Some x \<Rightarrow> [x])\<rparr>"

definition land :: "nat \<Rightarrow> scan_world \<Rightarrow> scan_world" where
  "land i w = w\<lparr>sw_flights := without i (sw_flights w)\<rparr>"

fun scan_step :: "scan_world \<Rightarrow> scan_event \<Rightarrow> scan_world" where
  "scan_step w (RequestIngest now) = w\<lparr>sw_state := snd (request_ingest_scan now (sw_state w))\<rparr>"
| "scan_step w (DueIngest now) = (case take_due_ingest now (sw_state w) of (f, s) \<Rightarrow> fly f s w)"
| "scan_step w (DueSettling now) = (case take_due_settling now (sw_state w) of (f, s) \<Rightarrow> fly f s w)"
| "scan_step w (BeginScan trigger) = fly (Some (begin_walk trigger None (sw_state w))) (sw_state w) w"
| "scan_step w (IngestSettings i answer) =
     (case flight_at i w of
        Some AskingIngest \<Rightarrow>
          fly (if answer = Some True then Some (begin_walk Ingest None (sw_state w)) else None)
            (sw_state w) (land i w)
      | _ \<Rightarrow> w)"
| "scan_step w (SettlingSettings i answer) =
     (case flight_at i w of
        Some (AskingSettling g) \<Rightarrow>
          (case settling_settings g answer (sw_state w) of (f, s) \<Rightarrow>
             fly f s ((land i w)\<lparr>sw_followups := sw_followups w + (if f = None then 0 else 1)\<rparr>))
      | _ \<Rightarrow> w)"
| "scan_step w (WalkDone i answer) =
     (case flight_at i w of
        Some (Walking trigger g ig) \<Rightarrow>
          (case answer of
             Some settles \<Rightarrow>
               (case walk_done trigger g ig settles (sw_state w) of (f, s) \<Rightarrow>
                  fly (Some f) s
                    ((land i w)\<lparr>sw_regular := sw_regular w + (if g = None then 1 else 0),
                                sw_covered := max (sw_covered w) ig\<rparr>))
           | None \<Rightarrow>
               fly None (case g of Some n \<Rightarrow> followup_failed n (sw_state w) | None \<Rightarrow> sw_state w) (land i w))
      | _ \<Rightarrow> w)"
| "scan_step w (FollowUp i answer now) =
     (case flight_at i w of
        Some (Following chained g earlier settles) \<Rightarrow>
          (case answer of
             Some (auto_process, enabled, settle_seconds) \<Rightarrow>
               fly (Some (Maintaining chained g))
                 (schedule_settling_scan g earlier settles auto_process enabled settle_seconds now
                    (sw_state w)) (land i w)
           | None \<Rightarrow> fly None (if chained then followup_failed g (sw_state w) else sw_state w) (land i w))
      | _ \<Rightarrow> w)"
| "scan_step w (Maintained i fine) =
     (case flight_at i w of
        Some (Maintaining chained g) \<Rightarrow>
          fly None (if \<not> fine \<and> chained then followup_failed g (sw_state w) else sw_state w) (land i w)
      | _ \<Rightarrow> w)"

definition new_scan_world :: scan_world where
  "new_scan_world =
     \<lparr>sw_state = \<lparr>ss_running = True, ss_settling_due = None, ss_remaining = 0,
        ss_settling_generation = 0, ss_ingest_due = None, ss_ingest_generation = 0\<rparr>,
      sw_flights = [], sw_regular = 0, sw_followups = 0, sw_covered = 0\<rparr>"

subsection \<open>Cleaning up what was just analysed\<close>

definition IDLE_DEBOUNCE :: real where "IDLE_DEBOUNCE = 30"
definition IDLE_MIN_INTERVAL :: real where "IDLE_MIN_INTERVAL = 300"
definition IDLE_BATCH_SIZE :: nat where "IDLE_BATCH_SIZE = 64"
definition IDLE_QUEUE_LIMIT :: nat where "IDLE_QUEUE_LIMIT = 512"

text \<open>The set of pending ids is kept as a list without repetition.\<close>

record idle_state =
  id_running :: bool
  id_pending :: "row_id list"
  id_due :: "real option"
  id_last :: real
  id_overflow_reported :: bool

definition request_idle_cleanup :: "bool \<Rightarrow> real \<Rightarrow> row_id \<Rightarrow> idle_state \<Rightarrow> bool \<times> idle_state" where
  "request_idle_cleanup delete_idle now i s =
     (if \<not> id_running s \<or> i \<le> 0 \<or> \<not> delete_idle then (False, s)
      else if i \<in> set (id_pending s) then (True, s)
      else if length (id_pending s) \<ge> IDLE_QUEUE_LIMIT then (False, s\<lparr>id_overflow_reported := True\<rparr>)
      else
        (let due = max (now + IDLE_DEBOUNCE) (id_last s + IDLE_MIN_INTERVAL)
         in (True, s\<lparr>id_pending := id_pending s @ [i],
                     id_due := Some (case id_due s of None \<Rightarrow> due | Some d \<Rightarrow> min d due)\<rparr>)))"

text \<open>\<^verbatim>\<open>_run_due_post_process_idle_cleanup\<close> up to the clean-up, which takes the lowest ids.\<close>

definition take_due_idle :: "real \<Rightarrow> idle_state \<Rightarrow> row_id list option \<times> idle_state" where
  "take_due_idle now s =
     (case id_due s of
        None \<Rightarrow> (None, s)
      | Some due \<Rightarrow>
          if now < due \<or> id_pending s = [] then (None, s)
          else
            (let batch = take IDLE_BATCH_SIZE (sort (id_pending s))
             in (Some batch, s\<lparr>id_pending := filter (\<lambda>i. i \<notin> set batch) (id_pending s), id_due := None\<rparr>)))"

definition restore_pending_idle :: "row_id list \<Rightarrow> idle_state \<Rightarrow> idle_state" where
  "restore_pending_idle batch s =
     (let room = IDLE_QUEUE_LIMIT - length (id_pending s)
      in s\<lparr>id_pending := id_pending s @ filter (\<lambda>i. i \<notin> set (id_pending s)) (take room batch)\<rparr>)"

text \<open>\<^verbatim>\<open>_idle_cleanup_finished\<close> reads the clock twice: \<open>now\<close>, then \<open>later\<close>.\<close>

definition idle_cleanup_finished :: "real \<Rightarrow> real \<Rightarrow> idle_state \<Rightarrow> idle_state" where
  "idle_cleanup_finished now later s =
     (let s1 = s\<lparr>id_last := now\<rparr> in
      if id_pending s1 = [] then s1\<lparr>id_due := None, id_overflow_reported := False\<rparr>
      else s1\<lparr>id_due := Some (max (now + IDLE_MIN_INTERVAL) (later + IDLE_DEBOUNCE))\<rparr>)"

text \<open>
  The loop is serial, so one clean-up at most is under way: a batch, or the scheduled retention
  pass with the notifications it covers. \<open>iw_cleaned\<close> are the ids a clean-up has covered and
  \<open>iw_dropped\<close> those a failed batch could not put back.
\<close>

datatype cleaning = CleaningBatch "row_id list" | FullPass "row_id list option"

record idle_world =
  iw_state :: idle_state
  iw_cleaning :: "cleaning option"
  iw_accepted :: "row_id set"
  iw_cleaned :: "row_id set"
  iw_dropped :: "row_id set"

datatype idle_event =
    Notify bool real row_id
  | DueIdle real
  | BatchOver bool real real
  | BeginRetention
  | SnapshotTaken
  | RetentionOver bool real real

definition room_for :: "idle_state \<Rightarrow> row_id list \<Rightarrow> row_id list" where
  "room_for s batch = drop (IDLE_QUEUE_LIMIT - length (id_pending s)) batch"

fun idle_step :: "idle_world \<Rightarrow> idle_event \<Rightarrow> idle_world" where
  "idle_step w (Notify delete_idle now i) =
     (case request_idle_cleanup delete_idle now i (iw_state w) of (ok, s) \<Rightarrow>
        w\<lparr>iw_state := s, iw_accepted := (if ok then insert i (iw_accepted w) else iw_accepted w),
          iw_cleaned := (if ok then iw_cleaned w - {i} else iw_cleaned w),
          iw_dropped := (if ok then iw_dropped w - {i} else iw_dropped w)\<rparr>)"
| "idle_step w (DueIdle now) =
     (if iw_cleaning w \<noteq> None then w
      else case take_due_idle now (iw_state w) of (b, s) \<Rightarrow>
        w\<lparr>iw_state := s, iw_cleaning := map_option CleaningBatch b\<rparr>)"
| "idle_step w (BatchOver fine now later) =
     (case iw_cleaning w of
        Some (CleaningBatch batch) \<Rightarrow>
          (let s = (if fine then iw_state w else restore_pending_idle batch (iw_state w))
           in w\<lparr>iw_state := idle_cleanup_finished now later s, iw_cleaning := None,
                iw_cleaned := (if fine then iw_cleaned w \<union> set batch else iw_cleaned w),
                iw_dropped := (if fine then iw_dropped w
                               else iw_dropped w \<union> set (room_for (iw_state w) batch))\<rparr>)
      | _ \<Rightarrow> w)"
| "idle_step w BeginRetention =
     (if iw_cleaning w \<noteq> None then w else w\<lparr>iw_cleaning := Some (FullPass None)\<rparr>)"
| "idle_step w SnapshotTaken =
     (case iw_cleaning w of
        Some (FullPass None) \<Rightarrow> w\<lparr>iw_cleaning := Some (FullPass (Some (id_pending (iw_state w))))\<rparr>
      | _ \<Rightarrow> w)"
| "idle_step w (RetentionOver fine now later) =
     (case iw_cleaning w of
        Some (FullPass (Some covered)) \<Rightarrow>
          (if fine then
             (let s = (iw_state w)\<lparr>id_pending := filter (\<lambda>i. i \<notin> set covered) (id_pending (iw_state w))\<rparr>
              in w\<lparr>iw_state := idle_cleanup_finished now later s, iw_cleaning := None,
                   iw_cleaned := iw_cleaned w \<union> set covered\<rparr>)
           else w\<lparr>iw_cleaning := None\<rparr>)
      | Some (FullPass None) \<Rightarrow> if fine then w else w\<lparr>iw_cleaning := None\<rparr>
      | _ \<Rightarrow> w)"

definition new_idle_world :: idle_world where
  "new_idle_world =
     \<lparr>iw_state = \<lparr>id_running = True, id_pending = [], id_due = None, id_last = 0,
        id_overflow_reported = False\<rparr>,
      iw_cleaning = None, iw_accepted = {}, iw_cleaned = {}, iw_dropped = {}\<rparr>"

end
