(* ===== verification/SchedulerProps.thy ===== *)
theory SchedulerProps
  imports Scheduler
begin

section \<open>What the scheduler guarantees\<close>

text \<open>
  Follow-up scans are bounded however coroutines interleave; an ingest request is kept unless the
  walk it waits for fails, and one that meets a manual scan is lost; accepted clean-up requests
  are accounted for and worked off.
\<close>

subsection \<open>Periodic tasks\<close>

text \<open>A failing task never stops another one, and every task that was due is put off by at least
  thirty seconds, whatever became of it.\<close>

lemma task_pass_puts_off:
  assumes "task_pass now turns ts = (ts', False)" and "length turns = length ts" and "i < length ts"
  shows "length ts' = length ts \<and>
    (if now < ts_next_run (ts ! i) then ts' ! i = ts ! i
     else ts_next_run (ts' ! i) \<ge> tt_finished (turns ! i) + 30)"
  using assms
proof (induction now turns ts arbitrary: i ts' rule: task_pass.induct)
  case (1 now turn turns t ts)
  have one: "if now < ts_next_run t then task_turn now turn t = t
      else ts_next_run (task_turn now turn t) \<ge> tt_finished turn + 30"
    by (auto simp: task_turn_def Let_def split: task_result.splits option.splits)
  obtain rest where rest: "task_pass now turns ts = (rest, False)" "ts' = task_turn now turn t # rest"
    and go: "\<not> (now \<ge> ts_next_run t \<and> tt_result turn = TaskCancelled)"
    using 1(2) by (auto split: if_splits prod.splits)
  show ?case
  proof (cases i)
    case 0
    show ?thesis
    proof (cases ts)
      case Nil
      with rest 0 one show ?thesis by (cases turns) auto
    next
      case (Cons a as)
      with 1(1) [OF go rest(1), of 0] 1(3) rest 0 one show ?thesis by simp
    qed
  next
    case (Suc k)
    with 1(1) [OF go rest(1), of k] 1(3,4) rest show ?thesis by simp
  qed
qed simp_all

subsection \<open>Follow-up scans\<close>

definition chain_bounded :: "scan_world \<Rightarrow> bool" where
  "chain_bounded w \<longleftrightarrow>
     0 \<le> ss_remaining (sw_state w) \<and>
     int (sw_followups w) + ss_remaining (sw_state w) \<le> SETTLING_SCAN_LIMIT * int (sw_regular w)"

lemma chain_step: "chain_bounded w \<Longrightarrow> chain_bounded (scan_step w e)"
  by (cases e)
    (auto simp: chain_bounded_def fly_def land_def request_ingest_scan_def take_due_ingest_def
      take_due_settling_def begin_walk_def settling_settings_def walk_done_def followup_failed_def
      schedule_settling_scan_def SETTLING_SCAN_LIMIT_def Let_def
      split: option.splits flight.splits if_splits prod.splits)

interpretation chaining: machine scan_step chain_bounded
  by unfold_locales (rule chain_step)

text \<open>However scheduled, manual and ingest scans, their failures and changes of the settings interleave, a file
  that never settles cannot keep the share busy: the follow-up walks begun never exceed three for every
  walk completed on its own account.\<close>

lemma followups_bounded:
  "int (sw_followups (foldl scan_step new_scan_world es)) \<le>
    3 * int (sw_regular (foldl scan_step new_scan_world es))"
proof -
  have "chain_bounded new_scan_world" by (simp add: chain_bounded_def new_scan_world_def)
  from chaining.run_inv [OF this, of es] show ?thesis
    by (simp add: chain_bounded_def SETTLING_SCAN_LIMIT_def)
qed

subsection \<open>Ingest requests\<close>

text \<open>The newest request waits for its moment, is being acted on, or a walk begun after it is done.\<close>

definition request_kept :: "scan_world \<Rightarrow> bool" where
  "request_kept w \<longleftrightarrow>
     ss_ingest_generation (sw_state w) \<le> sw_covered w \<or> ss_ingest_due (sw_state w) \<noteq> None \<or>
     AskingIngest \<in> set (sw_flights w) \<or>
     (\<exists>t g. Walking t g (ss_ingest_generation (sw_state w)) \<in> set (sw_flights w))"

text \<open>
  The two ways in which a request can come to nothing: the ingest scan that acts on it is told that
  scanning is off or cannot read the setting, or a walk that began after it fails, be it that
  the walk is refused because another one is running.
\<close>

fun forgets :: "scan_world \<Rightarrow> scan_event \<Rightarrow> bool" where
  "forgets w (IngestSettings i answer) = (flight_at i w = Some AskingIngest \<and> answer \<noteq> Some True)"
| "forgets w (WalkDone i answer) =
     (answer = None \<and> (\<exists>t g. flight_at i w = Some (Walking t g (ss_ingest_generation (sw_state w)))))"
| "forgets w _ = False"

lemma in_without:
  assumes "x \<in> set xs" and "i < length xs" and "xs ! i \<noteq> x"
  shows "x \<in> set (without i xs)"
proof -
  have "set xs = insert (xs ! i) (set (without i xs))"
    using id_take_nth_drop [OF assms(2)] by (metis Un_insert_right list.simps(15) set_append without_def)
  with assms(1,3) show ?thesis by auto
qed

lemma kept_flights:
  assumes "request_kept w" and "flight_at i w = Some f" and "f \<noteq> AskingIngest"
    and "\<And>t g. f \<noteq> Walking t g (ss_ingest_generation (sw_state w))"
    and "ss_ingest_generation s = ss_ingest_generation (sw_state w)"
    and "ss_ingest_due s = ss_ingest_due (sw_state w)" and "sw_covered w \<le> sw_covered v"
    and "sw_flights v = without i (sw_flights w)"
  shows "request_kept (fly x s v)"
proof -
  have i: "i < length (sw_flights w)" "sw_flights w ! i = f"
    using assms(2) by (auto simp: flight_at_def split: if_splits)
  have keep: "y \<in> set (without i (sw_flights w))" if "y \<in> set (sw_flights w)" "f \<noteq> y" for y
    using in_without [OF that(1) i(1)] that(2) i(2) by simp
  from assms(1) show ?thesis
    unfolding request_kept_def
  proof (elim disjE exE)
    fix t g assume "Walking t g (ss_ingest_generation (sw_state w)) \<in> set (sw_flights w)"
    from keep [OF this assms(4)] assms(5,8) show "ss_ingest_generation (sw_state (fly x s v)) \<le> sw_covered (fly x s v) \<or>
        ss_ingest_due (sw_state (fly x s v)) \<noteq> None \<or> AskingIngest \<in> set (sw_flights (fly x s v)) \<or>
        (\<exists>t g. Walking t g (ss_ingest_generation (sw_state (fly x s v))) \<in> set (sw_flights (fly x s v)))"
      by (auto simp: fly_def)
  next
    assume "AskingIngest \<in> set (sw_flights w)"
    from keep [OF this assms(3)] assms(8) show "ss_ingest_generation (sw_state (fly x s v)) \<le> sw_covered (fly x s v) \<or>
        ss_ingest_due (sw_state (fly x s v)) \<noteq> None \<or> AskingIngest \<in> set (sw_flights (fly x s v)) \<or>
        (\<exists>t g. Walking t g (ss_ingest_generation (sw_state (fly x s v))) \<in> set (sw_flights (fly x s v)))"
      by (simp add: fly_def)
  qed (use assms(5-7) in \<open>auto simp: fly_def\<close>)
qed

lemma kept_more:
  assumes "request_kept w" and "ss_ingest_generation s = ss_ingest_generation (sw_state w)"
    and "ss_ingest_due s = ss_ingest_due (sw_state w)"
  shows "request_kept (fly x s w)"
  using assms by (auto simp: request_kept_def fly_def)

lemma schedule_ingest [simp]:
  "ss_ingest_generation (schedule_settling_scan g e st a en sec now s) = ss_ingest_generation s"
  "ss_ingest_due (schedule_settling_scan g e st a en sec now s) = ss_ingest_due s"
  "ss_ingest_generation (followup_failed g s) = ss_ingest_generation s"
  "ss_ingest_due (followup_failed g s) = ss_ingest_due s"
  by (simp_all add: schedule_settling_scan_def followup_failed_def Let_def)

lemma settling_ingest:
  "settling_settings g answer s = (f, s') \<Longrightarrow>
    ss_ingest_generation s' = ss_ingest_generation s \<and> ss_ingest_due s' = ss_ingest_due s"
  by (auto simp: settling_settings_def Let_def split: option.splits if_splits)

lemma request_kept_step:
  assumes kept: "request_kept w" and well: "\<not> forgets w e"
  shows "request_kept (scan_step w e)"
proof (cases e)
  case (RequestIngest now)
  with kept show ?thesis
    by (auto simp: request_kept_def request_ingest_scan_def Let_def)
next
  case (DueIngest now)
  with kept show ?thesis
    by (auto simp: request_kept_def take_due_ingest_def fly_def split: option.splits)
next
  case (DueSettling now)
  with kept show ?thesis
    by (auto simp: take_due_settling_def intro!: kept_more split: option.splits)
next
  case (BeginScan trigger)
  with kept show ?thesis by (auto intro: kept_more)
next
  case (IngestSettings i answer)
  with kept well show ?thesis
    by (auto simp: request_kept_def fly_def begin_walk_def split: option.splits flight.splits)
next
  case (SettlingSettings i answer)
  show ?thesis
  proof (cases "\<exists>g. flight_at i w = Some (AskingSettling g)")
    case True
    then obtain g where g: "flight_at i w = Some (AskingSettling g)" by blast
    obtain f s where fs: "settling_settings g answer (sw_state w) = (f, s)" by (metis surj_pair)
    show ?thesis
      using SettlingSettings g fs settling_ingest [OF fs]
      by (auto intro!: kept_flights [OF kept g] simp: land_def)
  qed (use SettlingSettings kept in \<open>auto split: option.splits flight.splits\<close>)
next
  case (WalkDone i answer)
  show ?thesis
  proof (cases "\<exists>t g ig. flight_at i w = Some (Walking t g ig)")
    case True
    then obtain t g ig where f: "flight_at i w = Some (Walking t g ig)" by blast
    show ?thesis
    proof (cases answer)
      case None
      with f well WalkDone have "ig \<noteq> ss_ingest_generation (sw_state w)" by auto
      with None f WalkDone show ?thesis
        by (auto intro!: kept_flights [OF kept f] simp: land_def split: option.splits)
    next
      case (Some settles)
      note a = this
    obtain f' s where fs: "walk_done t g ig settles (sw_state w) = (f', s)" by (metis surj_pair)
    have step: "scan_step w e = fly (Some f') s ((land i w)
        \<lparr>sw_regular := sw_regular w + (if g = None then 1 else 0), sw_covered := max (sw_covered w) ig\<rparr>)"
      using WalkDone f a fs by simp
    have gen: "ss_ingest_generation s = ss_ingest_generation (sw_state w)"
      "ig \<noteq> ss_ingest_generation (sw_state w) \<longrightarrow> ss_ingest_due s = ss_ingest_due (sw_state w)"
      using fs by (auto simp: walk_done_def Let_def split: option.splits if_splits)
    show ?thesis
    proof (cases "ig = ss_ingest_generation (sw_state w)")
      case True
      then show ?thesis using gen by (simp add: step request_kept_def fly_def land_def)
    next
      case False
      then show ?thesis
        unfolding step by (intro kept_flights [OF kept f]) (use gen in \<open>auto simp: land_def\<close>)
    qed
    qed
  qed (use WalkDone kept in \<open>auto split: option.splits flight.splits\<close>)
next
  case (FollowUp i answer now)
  show ?thesis
  proof (cases "\<exists>c g er st. flight_at i w = Some (Following c g er st)")
    case True
    then obtain c g er st where f: "flight_at i w = Some (Following c g er st)" by blast
    with FollowUp show ?thesis
      by (auto intro!: kept_flights [OF kept f] simp: land_def split: option.splits)
  qed (use FollowUp kept in \<open>auto split: option.splits flight.splits\<close>)
next
  case (Maintained i fine)
  show ?thesis
  proof (cases "\<exists>c g. flight_at i w = Some (Maintaining c g)")
    case True
    then obtain c g where f: "flight_at i w = Some (Maintaining c g)" by blast
    with Maintained show ?thesis
      by (auto intro!: kept_flights [OF kept f] simp: land_def split: option.splits)
  qed (use Maintained kept in \<open>auto split: option.splits flight.splits\<close>)
qed

lemma generation_kept:
  "(\<And>now. e \<noteq> RequestIngest now) \<Longrightarrow>
    ss_ingest_generation (sw_state (scan_step w e)) = ss_ingest_generation (sw_state w)"
  by (cases e)
    (auto simp: take_due_ingest_def take_due_settling_def settling_settings_def walk_done_def fly_def land_def Let_def
      split: option.splits flight.splits if_splits prod.splits)

lemma request_renewed:
  assumes "\<not> request_kept w"
  shows "request_kept (scan_step w (RequestIngest now)) \<or>
    ss_ingest_generation (sw_state (scan_step w (RequestIngest now))) = ss_ingest_generation (sw_state w)"
  by (auto simp: request_kept_def request_ingest_scan_def Let_def)

lemma request_kept_or_forgotten:
  "request_kept (foldl scan_step new_scan_world es) \<or>
   (\<exists>before e after. es = before @ e # after \<and> forgets (foldl scan_step new_scan_world before) e \<and>
      ss_ingest_generation (sw_state (foldl scan_step new_scan_world before)) =
      ss_ingest_generation (sw_state (foldl scan_step new_scan_world es)))"
proof (induction es rule: rev_induct)
  case Nil
  show ?case by (simp add: request_kept_def new_scan_world_def)
next
  case (snoc e es)
  let ?w = "foldl scan_step new_scan_world es"
  show ?case
  proof (cases "request_kept ?w")
    case True
    show ?thesis
    proof (cases "forgets ?w e")
      case forgot: True
      then have "ss_ingest_generation (sw_state (scan_step ?w e)) = ss_ingest_generation (sw_state ?w)"
        by (intro generation_kept) auto
      with forgot show ?thesis by (intro disjI2 exI [of _ es] exI [of _ e] exI [of _ "[]"]) simp
    qed (use request_kept_step [OF True] in simp)
  next
    case False
    with snoc.IH obtain before x later where old: "es = before @ x # later"
      "forgets (foldl scan_step new_scan_world before) x"
      "ss_ingest_generation (sw_state (foldl scan_step new_scan_world before)) = ss_ingest_generation (sw_state ?w)"
      by blast
    have "request_kept (scan_step ?w e) \<or>
        ss_ingest_generation (sw_state (scan_step ?w e)) = ss_ingest_generation (sw_state ?w)"
      using request_renewed [OF False] generation_kept [of e ?w] by blast
    then show ?thesis
    proof
      assume "ss_ingest_generation (sw_state (scan_step ?w e)) = ss_ingest_generation (sw_state ?w)"
      with old show ?thesis by (intro disjI2 exI [of _ before] exI [of _ x] exI [of _ "later @ [e]"]) simp
    qed simp
  qed
qed

text \<open>C39: an ingest request is forgotten for a reason only. However requests, scans, settings reads and
  failures interleave, the newest request waits for its moment, is being acted on, is behind a
  walk under way that began after it, or a walk that began after it has been completed; or else,
  since that request and with no newer one, the ingest scan acting on a request was told that
  scanning is switched off or could not read the setting, or a walk that began after the request
  failed, a refusal because another walk was running included.\<close>

theorem ingest_request_kept:
  "let w = foldl scan_step new_scan_world es in
    ss_ingest_generation (sw_state w) \<le> sw_covered w \<or> (\<exists>due. ss_ingest_due (sw_state w) = Some due) \<or>
    AskingIngest \<in> set (sw_flights w) \<or>
    (\<exists>t g. Walking t g (ss_ingest_generation (sw_state w)) \<in> set (sw_flights w)) \<or>
    (\<exists>before e after. es = before @ e # after \<and> forgets (foldl scan_step new_scan_world before) e \<and>
       ss_ingest_generation (sw_state (foldl scan_step new_scan_world before)) = ss_ingest_generation (sw_state w))"
  using request_kept_or_forgotten [of es] by (simp add: request_kept_def Let_def not_None_eq)

text \<open>A request that falls due while a manual scan is walking is lost. Its own scan is refused because a scan is
  running, the manual one began before the request, and afterwards nothing is waiting and nothing is
  under way: the footage that arrived stays unindexed until the next scheduled scan.\<close>

lemma ingest_request_lost:
  "let w = foldl scan_step new_scan_world
      [BeginScan Manual, RequestIngest 10, DueIngest 12, IngestSettings 1 (Some True), WalkDone 1 None,
       WalkDone 0 (Some False), FollowUp 0 (Some (True, True, 60)) 50, Maintained 0 True] in
    sw_covered w < ss_ingest_generation (sw_state w) \<and> ss_ingest_due (sw_state w) = None \<and>
    ss_settling_due (sw_state w) = None \<and> sw_flights w = []"
  by (simp add: new_scan_world_def fly_def begin_walk_def request_ingest_scan_def INGEST_SCAN_DEBOUNCE_def
      flight_at_def walk_done_def land_def without_def take_due_ingest_def schedule_settling_scan_def Let_def)

subsection \<open>Clean-up requests\<close>

definition in_batch :: "idle_world \<Rightarrow> row_id set" where
  "in_batch w = (case iw_cleaning w of Some (CleaningBatch b) \<Rightarrow> set b | _ \<Rightarrow> {})"

definition idle_inv :: "idle_world \<Rightarrow> bool" where
  "idle_inv w \<longleftrightarrow>
     distinct (id_pending (iw_state w)) \<and> length (id_pending (iw_state w)) \<le> IDLE_QUEUE_LIMIT \<and>
     (\<forall>b. iw_cleaning w = Some (CleaningBatch b) \<longrightarrow> distinct b \<and> length b \<le> IDLE_BATCH_SIZE) \<and>
     (id_pending (iw_state w) \<noteq> [] \<longrightarrow>
        id_due (iw_state w) \<noteq> None \<or> (\<exists>b. iw_cleaning w = Some (CleaningBatch b))) \<and>
     iw_accepted w \<subseteq> set (id_pending (iw_state w)) \<union> in_batch w \<union> iw_cleaned w \<union> iw_dropped w"

lemma restore_length:
  "length (id_pending s) \<le> IDLE_QUEUE_LIMIT \<Longrightarrow>
    length (id_pending (restore_pending_idle b s)) \<le> IDLE_QUEUE_LIMIT"
proof -
  assume le: "length (id_pending s) \<le> IDLE_QUEUE_LIMIT"
  let ?r = "IDLE_QUEUE_LIMIT - length (id_pending s)"
  have "length (filter (\<lambda>i. i \<notin> set (id_pending s)) (take ?r b)) \<le> ?r"
    by (rule order_trans [OF length_filter_le]) simp
  with le show ?thesis by (simp add: restore_pending_idle_def Let_def)
qed

lemma restore_set:
  "set b \<subseteq> set (id_pending (restore_pending_idle b s)) \<union> set (room_for s b)"
proof
  fix x assume "x \<in> set b"
  then have "x \<in> set (take n b) \<union> set (drop n b)" for n by (metis append_take_drop_id set_append)
  then show "x \<in> set (id_pending (restore_pending_idle b s)) \<union> set (room_for s b)"
    by (auto simp: restore_pending_idle_def room_for_def Let_def)
qed

lemma finished_sel [simp]:
  "id_pending (idle_cleanup_finished t u s) = id_pending s"
  "id_pending s \<noteq> [] \<Longrightarrow> id_due (idle_cleanup_finished t u s) \<noteq> None"
  by (simp_all add: idle_cleanup_finished_def Let_def)

lemma idle_notify: "idle_inv w \<Longrightarrow> idle_inv (idle_step w (Notify flag now i))"
  by (auto simp: idle_inv_def in_batch_def request_idle_cleanup_def Let_def split: if_splits)

lemma idle_due: "idle_inv w \<Longrightarrow> idle_inv (idle_step w (DueIdle now))"
proof (cases "iw_cleaning w = None \<and> (\<exists>b s. take_due_idle now (iw_state w) = (Some b, s))")
  case True
  assume inv: "idle_inv w"
  let ?p = "id_pending (iw_state w)"
  obtain b s where t: "take_due_idle now (iw_state w) = (Some b, s)" using True by blast
  then have b: "b = take IDLE_BATCH_SIZE (sort ?p)" "id_pending s = filter (\<lambda>i. i \<notin> set b) ?p"
    by (auto simp: take_due_idle_def Let_def split: option.splits if_splits)
  have "set b \<subseteq> set ?p" using set_take_subset [of IDLE_BATCH_SIZE "sort ?p"] b(1) by simp
  then have "set ?p \<subseteq> set (id_pending s) \<union> set b" "distinct b" "length b \<le> IDLE_BATCH_SIZE"
    using b inv by (auto simp: idle_inv_def)
  moreover have "length (filter (\<lambda>i. i \<notin> set b) ?p) \<le> IDLE_QUEUE_LIMIT"
    using inv by (auto simp: idle_inv_def intro: order_trans [OF length_filter_le])
  ultimately show ?thesis
    using inv True t b(2) by (auto simp: idle_inv_def in_batch_def)
next
  case False
  assume inv: "idle_inv w"
  from False have "idle_step w (DueIdle now) = w"
    by (auto simp: take_due_idle_def Let_def split: option.splits if_splits)
  with inv show ?thesis by simp
qed

lemma idle_batch_over: "idle_inv w \<Longrightarrow> idle_inv (idle_step w (BatchOver fine now later))"
proof (cases "\<exists>b. iw_cleaning w = Some (CleaningBatch b)")
  case True
  assume inv: "idle_inv w"
  obtain b where b: "iw_cleaning w = Some (CleaningBatch b)" using True by blast
  let ?s = "if fine then iw_state w else restore_pending_idle b (iw_state w)"
  have d: "distinct b" using inv b by (simp add: idle_inv_def)
  have "distinct (id_pending ?s)"
    using inv d by (auto simp: idle_inv_def restore_pending_idle_def Let_def)
  moreover have "length (id_pending ?s) \<le> IDLE_QUEUE_LIMIT"
    using inv restore_length [of "iw_state w" b] by (simp add: idle_inv_def)
  moreover have "set (id_pending (iw_state w)) \<subseteq> set (id_pending ?s)"
    by (auto simp: restore_pending_idle_def Let_def)
  moreover have "set b \<subseteq> (if fine then set b else set (id_pending ?s) \<union> set (room_for (iw_state w) b))"
    using restore_set by simp
  ultimately show ?thesis
    using inv b by (auto simp: idle_inv_def in_batch_def Let_def split: if_splits)
next
  case False
  assume inv: "idle_inv w"
  from False have "idle_step w (BatchOver fine now later) = w"
    by (auto split: option.splits cleaning.splits)
  with inv show ?thesis by simp
qed

lemma idle_retention_over: "idle_inv w \<Longrightarrow> idle_inv (idle_step w (RetentionOver fine now later))"
proof (cases "fine \<and> (\<exists>c. iw_cleaning w = Some (FullPass (Some c)))")
  case True
  assume inv: "idle_inv w"
  obtain c where c: "iw_cleaning w = Some (FullPass (Some c))" using True by blast
  let ?p = "filter (\<lambda>i. i \<notin> set c) (id_pending (iw_state w))"
  have "length ?p \<le> IDLE_QUEUE_LIMIT" "distinct ?p"
    using inv by (auto simp: idle_inv_def intro: order_trans [OF length_filter_le])
  with inv True c show ?thesis
    by (auto simp: idle_inv_def in_batch_def Let_def)
next
  case False
  assume inv: "idle_inv w"
  from False have "idle_step w (RetentionOver fine now later) = w \<or>
      (idle_step w (RetentionOver fine now later) = w\<lparr>iw_cleaning := None\<rparr> \<and>
       (\<exists>c. iw_cleaning w = Some (FullPass c)))"
    by (auto split: option.splits cleaning.splits)
  moreover have "idle_inv (w\<lparr>iw_cleaning := None\<rparr>)" if "\<exists>c. iw_cleaning w = Some (FullPass c)"
    using inv that by (auto simp: idle_inv_def in_batch_def)
  ultimately show ?thesis using inv by metis
qed

lemma idle_step_inv: "idle_inv w \<Longrightarrow> idle_inv (idle_step w e)"
proof (cases e)
  case BeginRetention
  then show "idle_inv w \<Longrightarrow> idle_inv (idle_step w e)" by (auto simp: idle_inv_def in_batch_def)
next
  case SnapshotTaken
  then show "idle_inv w \<Longrightarrow> idle_inv (idle_step w e)"
    by (auto simp: idle_inv_def in_batch_def split: option.splits cleaning.splits)
qed (simp_all only: idle_notify idle_due idle_batch_over idle_retention_over)

interpretation tidying: machine idle_step idle_inv
  by unfold_locales (rule idle_step_inv)

lemma new_idle_inv: "idle_inv new_idle_world"
  by (simp add: idle_inv_def new_idle_world_def in_batch_def)

text \<open>An accepted clean-up request is accounted for. Through every sequence of notifications, batches,
  retention passes and failures, it is pending, in the batch under way, covered by a finished
  clean-up, or among those a failed batch found no room for; at most 512 are pending, a batch holds at most 64,
  and while any is pending a deadline is set or a batch is under way.\<close>

lemma idle_requests_accounted:
  "let w = foldl idle_step new_idle_world es; s = iw_state w in
    iw_accepted w \<subseteq> set (id_pending s) \<union> in_batch w \<union> iw_cleaned w \<union> iw_dropped w \<and>
    length (id_pending s) \<le> 512 \<and> card (in_batch w) \<le> 64 \<and>
    (id_pending s = [] \<or> (\<exists>due. id_due s = Some due) \<or> (\<exists>b. iw_cleaning w = Some (CleaningBatch b)))"
proof -
  let ?w = "foldl idle_step new_idle_world es"
  have inv: "idle_inv ?w" using tidying.run_inv [OF new_idle_inv] .
  then have "card (in_batch ?w) \<le> 64"
    by (auto simp: idle_inv_def in_batch_def IDLE_BATCH_SIZE_def distinct_card
        split: option.splits cleaning.splits)
  with inv show ?thesis by (auto simp: idle_inv_def IDLE_QUEUE_LIMIT_def Let_def)
qed

text \<open>A round: the deadline comes, and the clean-up of the batch succeeds.\<close>

definition idle_round :: "real \<Rightarrow> real \<Rightarrow> idle_world \<Rightarrow> idle_world" where
  "idle_round now later w =
     idle_step (idle_step w (DueIdle (case id_due (iw_state w) of Some d \<Rightarrow> d | None \<Rightarrow> now)))
       (BatchOver True now later)"

lemma idle_round_shrinks:
  assumes "idle_inv w" and "iw_cleaning w = None"
  shows "iw_cleaning (idle_round now later w) = None"
    and "length (id_pending (iw_state (idle_round now later w))) = length (id_pending (iw_state w)) - IDLE_BATCH_SIZE"
    and "set (id_pending (iw_state w)) \<subseteq>
      set (id_pending (iw_state (idle_round now later w))) \<union> iw_cleaned (idle_round now later w)"
    and "iw_cleaned w \<subseteq> iw_cleaned (idle_round now later w)"
proof -
  let ?p = "id_pending (iw_state w)"
  let ?r = "idle_round now later w"
  have "iw_cleaning ?r = None \<and> length (id_pending (iw_state ?r)) = length ?p - IDLE_BATCH_SIZE \<and>
    set ?p \<subseteq> set (id_pending (iw_state ?r)) \<union> iw_cleaned ?r \<and> iw_cleaned w \<subseteq> iw_cleaned ?r"
  proof (cases "?p = []")
    case True
    then have "?r = w"
      using assms(2) by (auto simp: idle_round_def take_due_idle_def split: option.splits)
    with True assms(2) show ?thesis by simp
  next
    case False
    then obtain d where d: "id_due (iw_state w) = Some d" using assms by (auto simp: idle_inv_def)
    let ?b = "take IDLE_BATCH_SIZE (sort ?p)"
    let ?q = "filter (\<lambda>i. i \<notin> set ?b) ?p"
    have r: "id_pending (iw_state ?r) = ?q" "iw_cleaning ?r = None" "iw_cleaned ?r = iw_cleaned w \<union> set ?b"
      using False d assms(2) by (simp_all add: idle_round_def take_due_idle_def Let_def)
    have dist: "distinct ?p" using assms(1) by (simp add: idle_inv_def)
    have sub: "set ?b \<subseteq> set ?p" using set_take_subset [of IDLE_BATCH_SIZE "sort ?p"] by simp
    have "length ?q = card (set ?p - set ?b)"
      using dist distinct_card [of ?q] by (simp add: set_diff_eq)
    also have "\<dots> = length ?p - length ?b"
      using dist sub by (simp add: card_Diff_subset distinct_card)
    also have "\<dots> = length ?p - IDLE_BATCH_SIZE" by (auto simp: min_def)
    finally have "length ?q = length ?p - IDLE_BATCH_SIZE" .
    with r show ?thesis by auto
  qed
  then show "iw_cleaning ?r = None" "length (id_pending (iw_state ?r)) = length ?p - IDLE_BATCH_SIZE"
    "set ?p \<subseteq> set (id_pending (iw_state ?r)) \<union> iw_cleaned ?r" "iw_cleaned w \<subseteq> iw_cleaned ?r"
    by blast+
qed

lemma idle_round_inv: "idle_inv w \<Longrightarrow> idle_inv (idle_round now later w)"
  unfolding idle_round_def by (intro idle_step_inv)

text \<open>Pending clean-ups are worked off: wherever a run of events has led, if no batch is under way then eight successful
  rounds clean every recording that was pending.\<close>

lemma idle_backlog_cleared:
  assumes "w = foldl idle_step new_idle_world es" and "iw_cleaning w = None"
  shows "id_pending (iw_state ((idle_round now later ^^ 8) w)) = [] \<and>
    set (id_pending (iw_state w)) \<subseteq> iw_cleaned ((idle_round now later ^^ 8) w)"
proof -
  let ?p = "id_pending (iw_state w)"
  have inv: "idle_inv w" using tidying.run_inv [OF new_idle_inv] assms(1) by simp
  have "idle_inv v \<and> iw_cleaning v = None \<and> length (id_pending (iw_state v)) = length ?p - n * IDLE_BATCH_SIZE \<and>
      set ?p \<subseteq> set (id_pending (iw_state v)) \<union> iw_cleaned v"
    if "v = (idle_round now later ^^ n) w" for n v
    using that
  proof (induction n arbitrary: v)
    case 0
    with inv assms(2) show ?case by simp
  next
    case (Suc n)
    let ?u = "(idle_round now later ^^ n) w"
    from Suc.IH [OF refl] have u: "idle_inv ?u" "iw_cleaning ?u = None"
      "length (id_pending (iw_state ?u)) = length ?p - n * IDLE_BATCH_SIZE"
      "set ?p \<subseteq> set (id_pending (iw_state ?u)) \<union> iw_cleaned ?u"
      by auto
    have v: "v = idle_round now later ?u" using Suc.prems by simp
    from idle_round_shrinks [OF u(1,2), of now later] idle_round_inv [OF u(1), of now later] u(3,4)
    show ?case unfolding v by auto
  qed
  from this [OF refl, of 8] inv show ?thesis
    by (auto simp: idle_inv_def IDLE_BATCH_SIZE_def IDLE_QUEUE_LIMIT_def)
qed

lemma idle_backlog_cleared_witness:
  "let w = foldl idle_step new_idle_world [Notify True 5 7, Notify True 6 3] in
    set (id_pending (iw_state w)) = {3, 7} \<and> {3, 7} \<subseteq> iw_cleaned ((idle_round 400 400 ^^ 8) w)"
proof -
  let ?w = "foldl idle_step new_idle_world [Notify True 5 7, Notify True 6 3]"
  have w: "iw_cleaning ?w = None" "set (id_pending (iw_state ?w)) = {3, 7}"
    by (auto simp: new_idle_world_def request_idle_cleanup_def IDLE_QUEUE_LIMIT_def Let_def)
  from idle_backlog_cleared [OF refl w(1)] w(2) show ?thesis by (simp add: Let_def)
qed

end
