(* ===== verification/Spec2Isabelle.thy ===== *)
theory Spec2Isabelle
  imports SettingsNotify IngestCard JourneyProps QueueSpecs Machine Reset Measure Cleanup Damaged ElmProps AuthGate PlateProps ScannerProps Retry TrackerProps SchedulerProps
begin

text \<open>
  \<^bold>\<open>Dashcam Stats: a model of the backend's decision logic.\<close>

  Dashcam Stats indexes a share of dashcam footage, queues each settled recording, runs a fixed
  pipeline of stages over it, groups recordings into journeys, records OBD-II readings, and
  reclaims disk space. The backend is a Python program under \<^verbatim>\<open>src/backend/app\<close>; this
  library follows its modules. One theory models one module, or the part of it named here.

  \<^bold>\<open>The parts and how they interact.\<close>
  The scheduler (\<^verbatim>\<open>Scheduler\<close>: \<^verbatim>\<open>workers/scheduler.py\<close>) decides when a scan, an ingest
  follow-up or a clean-up runs. A scan (\<^verbatim>\<open>Scanner\<close>: \<^verbatim>\<open>scanner/discovery.py\<close>,
  \<^verbatim>\<open>stability.py\<close>, \<^verbatim>\<open>fingerprint.py\<close>, with \<^verbatim>\<open>Naming\<close>: \<^verbatim>\<open>scanner/naming.py\<close>)
  reconciles the walk of the share with the table of recordings, lets the damaged-footage policy
  (\<^verbatim>\<open>Damaged\<close>: \<^verbatim>\<open>damaged_policy.py\<close>) restore what it had hidden, and queues what
  has settled. The queue (\<^verbatim>\<open>Queue\<close>, \<^verbatim>\<open>QueueRecovery\<close>: \<^verbatim>\<open>workers/queue.py\<close>)
  hands one job at a time to the pool (\<^verbatim>\<open>Worker\<close>: \<^verbatim>\<open>workers/worker.py\<close>), whose
  workers run the stages (\<^verbatim>\<open>Orchestrator\<close>: \<^verbatim>\<open>pipeline/orchestrator.py\<close>,
  \<^verbatim>\<open>revisions.py\<close>) and report back; \<^verbatim>\<open>Reset\<close> (\<^verbatim>\<open>workers/reset.py\<close>) wipes and
  rebuilds all of it. \<^verbatim>\<open>Machine\<close> puts the writers of the queue into one step function, the retry of one job by
  \<^verbatim>\<open>api/routes/content.py\<close> included and the pruning of old rows (\<^verbatim>\<open>db/maintenance.py\<close>) not.
  Retention (\<^verbatim>\<open>Retention\<close>: \<^verbatim>\<open>retention/safety.py\<close>, \<^verbatim>\<open>planner.py\<close>;
  \<^verbatim>\<open>Cleanup\<close>: \<^verbatim>\<open>idle.py\<close>, \<^verbatim>\<open>parked.py\<close>) plans and executes deletions, with the
  path rules of \<^verbatim>\<open>Paths\<close> and \<^verbatim>\<open>Measure\<close> (\<^verbatim>\<open>core/paths.py\<close>). Writes to the
  database go through the lock retries of \<^verbatim>\<open>Retry\<close> (\<^verbatim>\<open>db/retry.py\<close>).
  Finished recordings become journeys: \<^verbatim>\<open>Journeys\<close> (the clusters and the distance),
  \<^verbatim>\<open>JourneyRefresh\<close> (deriving and publishing one journey) and \<^verbatim>\<open>JourneyBuild\<close> (rebuild,
  repair, assignment, merge and split) model \<^verbatim>\<open>journeys/builder.py\<close>, over the track of
  \<^verbatim>\<open>DriveTrack\<close> (\<^verbatim>\<open>journeys/track.py\<close>), the movement verdict of \<^verbatim>\<open>Motion\<close>
  (\<^verbatim>\<open>journeys/motion.py\<close>), the position rules of \<^verbatim>\<open>Geo\<close> (\<^verbatim>\<open>osd/geo.py\<close>,
  \<^verbatim>\<open>validate.py\<close>, \<^verbatim>\<open>outliers.py\<close>) and \<^verbatim>\<open>TrackQuality\<close>
  (\<^verbatim>\<open>osd/track_quality.py\<close>, \<^verbatim>\<open>reasons.py\<close>), and the audited omissions of
  \<^verbatim>\<open>GapBarriers\<close> (\<^verbatim>\<open>ingest/clip_exclusions.py\<close>, with \<^verbatim>\<open>Bisect\<close>).
  Two recognisers serve the stages: the tracker (\<^verbatim>\<open>Tracker\<close>: \<^verbatim>\<open>ai/tracker.py\<close>) and the
  plate normaliser (\<^verbatim>\<open>Plates\<close>: \<^verbatim>\<open>ai/normalise_au.py\<close>). The OBD logger's adapter is
  \<^verbatim>\<open>ObdProtocol\<close>, \<^verbatim>\<open>ObdValues\<close> (\<^verbatim>\<open>obd/protocol.py\<close>) and \<^verbatim>\<open>ElmSession\<close>
  (\<^verbatim>\<open>obd/elm.py\<close>). Every request of the API passes \<^verbatim>\<open>AuthGate\<close> (\<^verbatim>\<open>auth/gate.py\<close>),
  which rests on \<^verbatim>\<open>SessionCache\<close> (\<^verbatim>\<open>auth/service.py\<close>) and \<^verbatim>\<open>RateLimit\<close>
  (\<^verbatim>\<open>auth/ratelimit.py\<close>, \<^verbatim>\<open>api/routes/auth.py\<close>). What any of them is configured with comes from the
  settings: \<^verbatim>\<open>SettingsSchema\<close> is the catalogue (\<^verbatim>\<open>core/settings_schema.py\<close>), \<^verbatim>\<open>Settings\<close> the
  coercion of a raw value and \<^verbatim>\<open>SettingsService\<close> the cache over the table with its subscribers
  (\<^verbatim>\<open>core/settings_service.py\<close>).
  Footage comes from the camera's card over the network: \<^verbatim>\<open>IngestPlan\<close> is what is listed and what a
  pull decides to fetch (\<^verbatim>\<open>ingest/adb.py\<close>, \<^verbatim>\<open>ingest/puller.py\<close>), \<^verbatim>\<open>IngestStream\<close> the receiver of the
  stream (\<^verbatim>\<open>ingest/transport.py\<close>), \<^verbatim>\<open>IngestMove\<close> the pass over the chunks, \<^verbatim>\<open>IngestCommit\<close> the
  publication into the library and \<^verbatim>\<open>IngestCard\<close> the reclaiming of the card behind it (all three of
  \<^verbatim>\<open>ingest/puller.py\<close>, the last with \<^verbatim>\<open>delete_if_unchanged\<close> of \<^verbatim>\<open>ingest/adb.py\<close>).

  \<^bold>\<open>State and operations.\<close>
  The database is the record \<open>db\<close> of \<^verbatim>\<open>Models\<close>: lists of rows keyed by \<^verbatim>\<open>id\<close>, with the
  columns the modelled code reads or writes. An operation of the code is a function from the old
  state to the new one, with its answer; each \<^verbatim>\<open>raise\<close> is a value (\<open>Inl\<close>, \<open>None\<close> or a
  constructor named after the exception). Coroutines that other coroutines can overtake are cut
  at their awaits: a session lookup (\<^verbatim>\<open>SessionCache\<close>) is a beginning, a read and an ending;
  a scan and its follow-ups (\<^verbatim>\<open>Scheduler\<close>) are flights that settle in any order; a retention
  run takes the writes that were committed between two deletions as an argument. Journeys work on a
  projection of their own, the record \<open>library\<close> of \<^verbatim>\<open>JourneyRefresh\<close>: a refresh is planned on one
  library and published on another, what other writers made of it, and a rebuild takes those
  writers as a function per cluster (\<open>interference\<close>). The ingest works on a disk of its own, the record
  \<open>disk\<close> of \<^verbatim>\<open>IngestCommit\<close>, where an inode has the bytes a reader sees and those that survive a loss of
  power, and on the card, a list of files; its pipeline is a step function over arrivals, chunks and
  handlings (\<open>pipeline_step\<close>). A reset is one instant behind its barrier. A machine is a
  step function over events, and its laws are the locale \<open>machine\<close> of \<^verbatim>\<open>Prelude\<close>, interpreted on the
  queue, the directory measurements, the adapter session, the sign-in throttle, the sessions, the
  tracker, the scheduler and the settings, and \<open>monotone_machine\<close>, which extends it; the two retry forms
  are interpretations of one locale \<open>retried\<close>.

  \<^bold>\<open>What the lemmas show.\<close>
  \<^item> \<^verbatim>\<open>QueueProps\<close>, \<^verbatim>\<open>QueueSpecs\<close>, \<^verbatim>\<open>Machine\<close>, \<^verbatim>\<open>Reset\<close>: one
    relation \<open>evolves\<close> bounds what an operation may do to a job, every operation satisfies it,
    or is the retry of that very job, and so no interleaving runs a recording twice, and only its own
    retry revives a cancelled job; a job that keeps failing ends; the wipe leaves exactly the rebuilt
    work, or refuses.
  \<^item> \<^verbatim>\<open>WorkerProps\<close>, \<^verbatim>\<open>Orchestrator\<close>: the pool ends a pass with the clamped number of
    workers; the closure of the requested stages is the least closed set; a run reports each stage
    once and leaves behind the revisions of what completed.
  \<^item> \<^verbatim>\<open>Paths\<close>, \<^verbatim>\<open>Measure\<close>, \<^verbatim>\<open>RetentionProps\<close>, \<^verbatim>\<open>Cleanup\<close>, \<^verbatim>\<open>Damaged\<close>: no
    path leaves its root; a measured size is the sum over the tree and is not stale; nothing is
    deleted that a guard objects to, that changed since it was planned, or that is not proven
    empty, parked or damaged.
  \<^item> \<^verbatim>\<open>Naming\<close>, \<^verbatim>\<open>ScannerProps\<close>: names and stamps read back; the walk is complete or says
    where it failed; only files at rest are queued by a scan, but for what the damage policy brings back;
    nothing is called missing on a view with a counted gap;
    a file that stops changing is caught up with in two scans.
  \<^item> \<^verbatim>\<open>SchedulerProps\<close>, \<^verbatim>\<open>Retry\<close>: follow-ups are bounded under every interleaving; which
    requests survive a scan that fails, and which are lost; accepted clean-ups are accounted for
    and worked off; a retried write behaves as one serial write or reports the lock.
  \<^item> \<^verbatim>\<open>ObdProps\<close>, \<^verbatim>\<open>ElmProps\<close>: printed answers are read back; strict payloads are
    carried by a frame with a valid checksum; trouble codes are one to one; a session only ever
    sends reading commands, and falls silent after a failure.
  \<^item> \<^verbatim>\<open>RateLimit\<close>, \<^verbatim>\<open>SessionProps\<close>, \<^verbatim>\<open>AuthGate\<close>: a bucket holds an address's own
    failures only; a revoked session stays refused except across one race with a lookup that is
    already under way; a request passes only with a proof of identity.
  \<^item> \<^verbatim>\<open>Geo\<close>, \<^verbatim>\<open>TrackQuality\<close>: a majority of readings pins the centre whatever was
    copied; the passes over a track only ever condemn, and what is joined on a drawn line can be
    driven.
  \<^item> \<^verbatim>\<open>DriveTrack\<close>, \<^verbatim>\<open>Motion\<close>, \<^verbatim>\<open>Journeys\<close>, \<^verbatim>\<open>GapBarriers\<close>: one position per
    second; movement is called on evidence only; a distance stays within road speed; journeys
    begin where coverage ends or an omission was audited.
  \<^item> \<^verbatim>\<open>JourneyProps\<close>: publishing a plan only regroups (\<open>regroups\<close>), so an undisturbed rebuild
    settles the grouping when the GPS rule is off, and no rebuild takes a recording out of a journey of
    the user, whatever others write between its clusters; a refresh is a compare-and-swap on what it read.
  \<^item> \<^verbatim>\<open>TrackerProps\<close>, \<^verbatim>\<open>PlateProps\<close>: the greedy assignment is stable and ends, and tracks
    account for detections; a matched plate is an optimal admissible reading, and the row-by-row
    distance is the cheapest edit script.
  \<^item> \<^verbatim>\<open>SettingsCatalogue\<close>, \<^verbatim>\<open>SettingsProps\<close>, \<^verbatim>\<open>SettingsReload\<close>, \<^verbatim>\<open>SettingsNotify\<close>: every
    entry of the catalogue is sound, so every read is well typed whatever the table holds; coercion
    is idempotent but for paths, so the cache is what a restart would load; a subscriber hears
    every change of the keys it named.
  \<^item> \<^verbatim>\<open>IngestPlan\<close>, \<^verbatim>\<open>IngestStream\<close>, \<^verbatim>\<open>IngestMove\<close>: an inventory is safe to put into a command and
    complete, the reserve of free space is kept, what a transfer lists has arrived whole, and a pass
    that comes to its end has everything, with at most one recovery.
  \<^item> \<^verbatim>\<open>IngestCommit\<close>, \<^verbatim>\<open>IngestCard\<close>: what a commit reports survives a loss of power, a complete
    recording is not overwritten and no whole one disappears; and so the card never loses the only copy.

  \<^bold>\<open>Conventions, bounds and termination.\<close>
  \<^item> Timestamps are whole microseconds (\<open>int\<close>), Python's resolution; the scheduler's monotonic
    clock and all Python floats are exact reals, so rounding is outside the model, and float
    comparisons are the real ones. One clock reading stands for the successive ones of a scan.
  \<^item> Python integers are \<open>int\<close> or \<open>nat\<close>; bytes from the adapter are \<open>8 word\<close>, so the checksum
    wraps as it does there. Text is ASCII: case folding and digits are those of ASCII.
  \<^item> A query without \<^verbatim>\<open>ORDER BY\<close> yields rows in primary-key order. Logging is omitted.
  \<^item> Clock readings, settings, randomness and what the file system, the share or an external
    process answers are arguments of the definitions that use them. So are the primitives the
    code calls and does not define: scrypt, HMAC and random tokens, Unicode normalisation,
    base64, address parsing, BLAKE2b, time-zone offsets, and the Bluetooth channel.
  \<^item> Directory trees are finite; a link is a leaf that the walk reports as the entry's flag says.
  \<^item> Loops are structural or come with a measure, and none carries fuel. The walk's stack is
    measured by the tree's weight; a batch pulls at most 200 entries and shrinks the stream;
    the orchestrator's closure by the stages not yet in it; a chain of exceptions is followed
    through 8 links, as in the code; retries by the delays that are left. The greedy assignment is
    the one loop that needs an argument: \<open>greedy_loop\<close> is a partial function, and
    \<open>greedy_match_stable\<close> proves that it returns.
  \<^item> Constants (follow-up limit 3, clean-up queue 512 with batches of 64, pool of 1 to 16, priority
    values, weights and thresholds) are those of the code, under the code's names.

  \<^bold>\<open>Not modelled.\<close>
  Inference, decoding, overlay image processing and hardware probing are calls of numerical
  libraries and subprocesses. The database engine, its backup and its migrations are SQLite's
  semantics. Of the head-unit ingest, the
  orchestration of a run, the rescue of partial files, the clean-up of duplicates by hash, the parked
  filter, the radios and the adb channel are left out: they are timing and device control around the
  operations modelled here, and what they answer is an argument. So are the import of OBD bundles and
  the HTTP routes.
  Password hashing is a parameter of the account model.
\<close>

end
